(* ===== verification/Prelude.thy ===== *)
theory Prelude
  imports
    Main
    "HOL-Library.Word"
    "HOL-Library.AList"
    "HOL-Library.Sublist"
    "HOL-Library.Char_ord"
    "HOL-Library.List_Lexorder"
    "HOL-Library.Multiset"
begin

text \<open>
  Shared vocabulary of the beam-agents development: the types that stand for Python values,
  the exceptions of the modelled code, association lists with the insertion-order behaviour of
  a Python \<open>dict\<close> (and of an \<open>OrderedDict\<close> used as a recency list), decimal and hexadecimal
  rendering, big-endian integers, and the generic lemmas on them.

  A Python \<open>str\<close> is a HOL \<open>string\<close> read as its UTF-8 bytes, so equality, concatenation, prefix
  and lexicographic order agree; \<open>bytes\<close> is a list of 8-bit words; \<open>int\<close> is unbounded.
\<close>

section \<open>Types\<close>

type_synonym bytes = "8 word list"

type_synonym msec = int

text \<open>
  The exceptions the modelled code raises or catches. \<open>UserError\<close> stands for whatever user code
  (an agent, a tool, a provider, a policy) raises; its argument is its class name. Messages are
  not part of the model; where the code turns an exception into text, the rendering is a
  parameter of the model.
\<close>

datatype exn =
    ValueError
  | TypeError
  | KeyError
  | IndexError
  | OverflowError
  | RuntimeError
  | AssertionError
  | TimeoutError
  | ToolError
  | ToolDefinitionError
  | ToolNotFoundError string
  | ToolArgumentError string
  | SideEffectToolError string
  | MemoryOverflow string int
  | LongtermFlushFailed string
  | RateLimitError "int option"
  | ServerError int
  | ProviderTimeout
  | ProviderRequestError int
  | CircuitOpenError string
  | OutputSchemaError
  | BudgetExceeded int int
  | SchemaFromFuture int int
  | MissingMigration int int
  | MigrationStep int int
  | JSONDecodeError
  | DecodeError
  | ReadOnlyToolError string
  | PublishFailedError
  | EffectorConfigError
  | UnknownSchemeError
  | UnknownSinkSchemeError
  | HTTPException int
  | ReplayUsageError
  | ReplayIrreproducibleError
  | ReplayCacheMissError string bytes
  | TransportError
  | ImportError
  | AttributeError
  | OSError
  | UserError string

type_synonym 'a res = "exn + 'a"

abbreviation Err :: "'e \<Rightarrow> 'e + 'a" where
  "Err \<equiv> Inl"

abbreviation Ok :: "'a \<Rightarrow> 'e + 'a" where
  "Ok \<equiv> Inr"

named_theorems alist_facts
named_theorems inv_intros
named_theorems res_simps

section \<open>Results\<close>

fun bindE :: "'e + 'a \<Rightarrow> ('a \<Rightarrow> 'e + 'b) \<Rightarrow> 'e + 'b" where
  "bindE (Inl e) f = Inl e"
| "bindE (Inr x) f = f x"

lemma bindE_Ok_iff [simp]: "bindE m f = Ok y \<longleftrightarrow> (\<exists>x. m = Ok x \<and> f x = Ok y)"
  by (cases m) auto

lemma bindE_Err_iff: "bindE m f = Err e \<longleftrightarrow> m = Err e \<or> (\<exists>x. m = Ok x \<and> f x = Err e)"
  by (cases m) auto

lemma bindE_assoc: "bindE (bindE m f) g = bindE m (\<lambda>x. bindE (f x) g)"
  by (cases m) auto

primrec mapE :: "('a \<Rightarrow> 'e + 'b) \<Rightarrow> 'a list \<Rightarrow> 'e + 'b list" where
  "mapE f [] = Ok []"
| "mapE f (x # xs) = bindE (f x) (\<lambda>y. bindE (mapE f xs) (\<lambda>ys. Ok (y # ys)))"

lemma mapE_cong [fundef_cong]:
  "\<lbrakk>xs = ys; \<And>x. x \<in> set ys \<Longrightarrow> f x = g x\<rbrakk> \<Longrightarrow> mapE f xs = mapE g ys"
  by (induction xs arbitrary: ys) auto

lemma mapE_Ok_length: "mapE f xs = Ok ys \<Longrightarrow> length ys = length xs"
  by (induction xs arbitrary: ys) auto

lemma mapE_total: "(\<And>x. x \<in> set xs \<Longrightarrow> f x = Ok (g x)) \<Longrightarrow> mapE f xs = Ok (map g xs)"
  by (induction xs) auto

section \<open>Dictionaries\<close>

text \<open>
  A \<open>dict\<close> is an association list without duplicate keys: assignment keeps the position of a
  present key and appends a new one (\<open>AList.update\<close>), \<open>pop\<close> is \<open>AList.delete\<close>. A dict used as a
  recency list (\<open>move_to_end\<close>, or pop and re-insert) uses \<open>refresh\<close>.
\<close>

type_synonym ('k, 'v) dict = "('k \<times> 'v) list"

definition refresh :: "'k \<Rightarrow> 'v \<Rightarrow> ('k, 'v) dict \<Rightarrow> ('k, 'v) dict" where
  "refresh k v d = AList.delete k d @ [(k, v)]"

definition keys_of :: "('k, 'v) dict \<Rightarrow> 'k list" where
  "keys_of d = map fst d"

abbreviation distinct_keys :: "('k, 'v) dict \<Rightarrow> bool" where
  "distinct_keys d \<equiv> distinct (map fst d)"

lemma map_of_refresh [alist_facts, simp]: "map_of (refresh k v d) = (map_of d)(k \<mapsto> v)"
  by (rule ext) (simp add: refresh_def map_of_append map_add_def delete_conv' split: option.split)

lemma distinct_refresh [inv_intros, simp]: "distinct_keys d \<Longrightarrow> distinct_keys (refresh k v d)"
  by (simp add: refresh_def delete_keys distinct_removeAll)

lemma keys_refresh [simp]: "set (map fst (refresh k v d)) = insert k (set (map fst d))"
  by (auto simp: refresh_def delete_keys)

lemma set_delete: "set (AList.delete k d) = {e \<in> set d. fst e \<noteq> k}"
  by (induction d) auto

lemma set_refresh: "set (refresh k v d) = insert (k, v) {e \<in> set d. fst e \<noteq> k}"
  by (auto simp: refresh_def set_delete)

lemma update_absent: "k \<notin> fst ` set d \<Longrightarrow> AList.update k v d = d @ [(k, v)]"
  by (induction d) auto

lemma set_update_subset: "set (AList.update k v d) \<subseteq> insert (k, v) (set d)"
  by (induction d) auto

lemma refresh_not_Nil [simp]: "refresh k v d \<noteq> []"
  by (simp add: refresh_def)

lemma last_refresh [simp]: "last (refresh k v d) = (k, v)"
  by (simp add: refresh_def)

lemma length_delete_present:
  "\<lbrakk>distinct_keys d; map_of d k = Some v\<rbrakk> \<Longrightarrow> Suc (length (AList.delete k d)) = length d"
proof (induction d)
  case (Cons p d)
  obtain a b where p: "p = (a, b)" by (cases p)
  show ?case
  proof (cases "a = k")
    case True
    have "k \<notin> fst ` set d" using Cons.prems p True by simp
    then have "AList.delete k d = d" by (simp add: delete_id)
    then show ?thesis using p True by simp
  next
    case False
    then show ?thesis using Cons p by simp
  qed
qed simp

lemma length_delete_absent: "map_of d k = None \<Longrightarrow> AList.delete k d = d"
  by (simp add: delete_id map_of_eq_None_iff)

lemma length_delete_le: "length (AList.delete k d) \<le> length d"
  by (induction d) auto

text \<open>The sum of a weight over the entries, the shape every size account of the code has.\<close>

definition weight :: "('k \<Rightarrow> 'v \<Rightarrow> int) \<Rightarrow> ('k, 'v) dict \<Rightarrow> int" where
  "weight w d = sum_list (map (\<lambda>(k, v). w k v) d)"

lemma weight_Nil [simp]: "weight w [] = 0"
  by (simp add: weight_def)

lemma weight_Cons [simp]: "weight w ((k, v) # d) = w k v + weight w d"
  by (simp add: weight_def)

lemma weight_append [simp]: "weight w (d @ e) = weight w d + weight w e"
  by (simp add: weight_def)

lemma weight_nonneg: "(\<And>k v. 0 \<le> w k v) \<Longrightarrow> 0 \<le> weight w d"
  by (induction d) (auto simp: add_nonneg_nonneg)

lemma weight_delete:
  "distinct_keys d \<Longrightarrow>
   weight w (AList.delete k d) = weight w d - (case map_of d k of None \<Rightarrow> 0 | Some v \<Rightarrow> w k v)"
proof (induction d)
  case (Cons p d)
  obtain a b where p: "p = (a, b)" by (cases p)
  show ?case
  proof (cases "a = k")
    case True
    have "k \<notin> fst ` set d" using Cons.prems p True by simp
    then have "AList.delete k d = d" by (simp add: delete_id)
    then show ?thesis using p True by simp
  next
    case False
    then show ?thesis using Cons p by simp
  qed
qed simp

lemma weight_refresh:
  "distinct_keys d \<Longrightarrow>
   weight w (refresh k v d) = weight w d - (case map_of d k of None \<Rightarrow> 0 | Some u \<Rightarrow> w k u) + w k v"
  by (simp add: refresh_def weight_delete)

lemma weight_update:
  "distinct_keys d \<Longrightarrow>
   weight w (AList.update k v d) = weight w d - (case map_of d k of None \<Rightarrow> 0 | Some u \<Rightarrow> w k u) + w k v"
proof (induction d)
  case (Cons p d)
  obtain a b where p: "p = (a, b)" by (cases p)
  show ?case
  proof (cases "a = k")
    case True
    then show ?thesis using p by simp
  next
    case False
    then show ?thesis using Cons p by simp
  qed
qed simp

section \<open>Numbers as text and bytes\<close>

definition digit_char :: "nat \<Rightarrow> char" where
  "digit_char n = char_of (48 + n)"

fun dec_nat :: "nat \<Rightarrow> string" where
  "dec_nat n = (if n < 10 then [digit_char n] else dec_nat (n div 10) @ [digit_char (n mod 10)])"

declare dec_nat.simps [simp del]

definition dec :: "int \<Rightarrow> string" where
  "dec i = (if i < 0 then CHR ''-'' # dec_nat (nat (- i)) else dec_nat (nat i))"

definition is_digit :: "char \<Rightarrow> bool" where
  "is_digit c \<longleftrightarrow> 48 \<le> (of_char c :: nat) \<and> (of_char c :: nat) \<le> 57"

primrec read_nat :: "string \<Rightarrow> nat \<Rightarrow> nat" where
  "read_nat [] acc = acc"
| "read_nat (c # cs) acc = read_nat cs (10 * acc + (of_char c - 48))"

lemma of_char_digit: "n < 10 \<Longrightarrow> (of_char (digit_char n) :: nat) = 48 + n"
  by (simp add: digit_char_def)

lemma read_nat_append: "read_nat (xs @ ys) acc = read_nat ys (read_nat xs acc)"
  by (induction xs arbitrary: acc) auto

lemma read_dec_nat: "read_nat (dec_nat n) 0 = n"
proof (induction n rule: dec_nat.induct)
  case (1 n)
  show ?case
  proof (cases "n < 10")
    case True
    then show ?thesis by (simp add: dec_nat.simps of_char_digit)
  next
    case False
    then have "read_nat (dec_nat n) 0 = 10 * (n div 10) + n mod 10"
      using 1 by (subst dec_nat.simps) (simp add: read_nat_append of_char_digit)
    then show ?thesis by simp
  qed
qed

lemma dec_nat_inject [simp]: "dec_nat m = dec_nat n \<longleftrightarrow> m = n"
  by (metis read_dec_nat)

lemma dec_nat_digits: "c \<in> set (dec_nat n) \<Longrightarrow> is_digit c"
proof (induction n rule: dec_nat.induct)
  case (1 n)
  then show ?case
    by (subst (asm) (2) dec_nat.simps) (auto split: if_splits simp: is_digit_def of_char_digit)
qed

lemma dec_nat_not_Nil [simp]: "dec_nat n \<noteq> []"
  by (subst dec_nat.simps) simp

lemma dec_not_Nil [simp]: "dec i \<noteq> []"
  by (simp add: dec_def)

lemma dec_nat_no_minus: "CHR ''-'' \<notin> set (dec_nat n)"
  using dec_nat_digits[of "CHR ''-''" n] by (auto simp: is_digit_def)

lemma dec_inject [simp]: "dec i = dec j \<longleftrightarrow> i = j"
proof
  assume eq: "dec i = dec j"
  have ne: "CHR ''-'' # xs \<noteq> dec_nat n" for xs n
    using dec_nat_no_minus[of n] by (metis list.set_intros(1))
  show "i = j"
  proof (cases "i < 0"; cases "j < 0")
    assume "i < 0" "j < 0"
    then show ?thesis using eq by (simp add: dec_def)
  next
    assume "i < 0" "\<not> j < 0"
    then show ?thesis using eq ne by (simp add: dec_def)
  next
    assume "\<not> i < 0" "j < 0"
    then show ?thesis using eq ne by (metis dec_def)
  next
    assume "\<not> i < 0" "\<not> j < 0"
    then show ?thesis using eq by (simp add: dec_def)
  qed
qed simp

lemma dec_chars: "c \<in> set (dec i) \<Longrightarrow> is_digit c \<or> c = CHR ''-''"
  by (auto simp: dec_def dest: dec_nat_digits split: if_splits)

definition hex_digit :: "nat \<Rightarrow> char" where
  "hex_digit n = (if n < 10 then char_of (48 + n) else char_of (87 + n))"

definition hex_byte :: "8 word \<Rightarrow> string" where
  "hex_byte b = [hex_digit (unat b div 16), hex_digit (unat b mod 16)]"

definition hex_bytes :: "bytes \<Rightarrow> string" where
  "hex_bytes bs = concat (map hex_byte bs)"

lemma of_char_hex_digit:
  "k < 16 \<Longrightarrow> (of_char (hex_digit k) :: nat) = (if k < 10 then 48 + k else 87 + k)"
  by (simp add: hex_digit_def)

lemma hex_digit_inject:
  assumes "m < 16" and "n < 16"
  shows "hex_digit m = hex_digit n \<longleftrightarrow> m = n"
proof
  assume "hex_digit m = hex_digit n"
  then have "(of_char (hex_digit m) :: nat) = of_char (hex_digit n)" by simp
  then show "m = n" using assms by (auto simp: of_char_hex_digit split: if_splits)
qed simp

lemma hex_byte_inject [simp]: "hex_byte a = hex_byte b \<longleftrightarrow> a = b"
proof
  assume "hex_byte a = hex_byte b"
  moreover have "unat a div 16 < 16" "unat b div 16 < 16"
    using unsigned_less[of a, where 'a = nat] unsigned_less[of b, where 'a = nat] by auto
  ultimately have "unat a div 16 = unat b div 16 \<and> unat a mod 16 = unat b mod 16"
    by (simp add: hex_byte_def hex_digit_inject)
  then have "unat a = unat b" by (metis div_mult_mod_eq)
  then show "a = b" by (simp add: unsigned_word_eqI)
qed simp

lemma length_hex_byte [simp]: "length (hex_byte b) = 2"
  by (simp add: hex_byte_def)

lemma hex_bytes_inject [simp]: "hex_bytes xs = hex_bytes ys \<longleftrightarrow> xs = ys"
proof
  show "hex_bytes xs = hex_bytes ys \<Longrightarrow> xs = ys"
  proof (induction xs arbitrary: ys)
    case Nil
    then show ?case by (cases ys) (auto simp: hex_bytes_def hex_byte_def)
  next
    case (Cons x xs)
    then show ?case
      by (cases ys) (auto simp: hex_bytes_def, auto simp: hex_byte_def)
  qed
qed simp

definition from_be :: "bytes \<Rightarrow> int" where
  "from_be bs = foldl (\<lambda>acc b. 256 * acc + uint b) 0 bs"

primrec to_be :: "nat \<Rightarrow> int \<Rightarrow> bytes" where
  "to_be 0 n = []"
| "to_be (Suc k) n = to_be k (n div 256) @ [word_of_int n]"

lemma length_to_be [simp]: "length (to_be k n) = k"
  by (induction k arbitrary: n) auto

lemma from_be_append: "from_be (xs @ [b]) = 256 * from_be xs + uint b"
  by (simp add: from_be_def)

lemma from_to_be: "\<lbrakk>0 \<le> n; n < 256 ^ k\<rbrakk> \<Longrightarrow> from_be (to_be k n) = n"
proof (induction k arbitrary: n)
  case (Suc k)
  have "n div 256 < 256 ^ k" using Suc.prems(2) by (simp add: div_less_iff_less_mult mult.commute)
  moreover have "uint (word_of_int n :: 8 word) = n mod 256"
    by (simp add: uint_word_of_int)
  ultimately show ?case using Suc by (simp add: from_be_append)
qed (simp add: from_be_def)

lemma from_be_nonneg [simp]: "0 \<le> from_be bs"
  by (induction bs rule: rev_induct) (simp_all add: from_be_append, simp add: from_be_def)

definition utf8 :: "string \<Rightarrow> bytes" where
  "utf8 s = map of_char s"

definition of_utf8 :: "bytes \<Rightarrow> string" where
  "of_utf8 bs = map (\<lambda>b. char_of (unat b)) bs"

lemma of_utf8_utf8 [simp]: "of_utf8 (utf8 s) = s"
proof -
  have "char_of (unat (of_char c :: 8 word)) = c" for c :: char
  proof -
    have "(of_char c :: nat) < 256" by simp
    moreover have "(of_char c :: 8 word) = word_of_nat (of_char c)"
      by (metis of_nat_of_char)
    ultimately show ?thesis by (simp add: unat_of_nat)
  qed
  then show ?thesis by (simp add: of_utf8_def utf8_def comp_def map_idI)
qed

lemma utf8_inject [simp]: "utf8 s = utf8 t \<longleftrightarrow> s = t"
  by (metis of_utf8_utf8)

lemma utf8_append [simp]: "utf8 (s @ t) = utf8 s @ utf8 t"
  by (simp add: utf8_def)

lemma length_utf8 [simp]: "length (utf8 s) = length s"
  by (simp add: utf8_def)

end
