(* ===== verification/Wire.thy ===== *)
theory Wire
  imports Prelude
begin

text \<open>
  The protobuf messages the runtime keeps in keyed state or puts on the wire
  (\<open>protos/beam_agents.proto\<close>), one record per message with the fields in declaration order,
  and the deterministic intent identifier of \<open>core/agent.py\<close>. Proto3 enums are open, so every
  enum has a constructor for the values this build does not name. A message field is never
  absent except where the code tests presence, and then it is an option.
  Field prefixes: \<open>ti\<close> ToolIntent, \<open>tr\<close> ToolResult, \<open>te\<close> TraceEvent, \<open>ap\<close> Approval,
  \<open>env\<close> AgentEnvelope, \<open>me\<close>/\<open>mb\<close> MemoryBlob, \<open>co\<close> Continuation, \<open>lc\<close>/\<open>cb\<close> LlmCacheBlob,
  \<open>lr\<close> LongTermRecord, \<open>er\<close> ActivationErrorRecord, \<open>sn\<close> StateSnapshot.
\<close>

section \<open>Intents and results\<close>

datatype intent_kind = KindUnspecified | ToolKind | ApprovalKind | KindOther int

datatype sig_scheme = SchemeUnspecified | HmacSha256 | SchemeOther int

record tool_intent =
  ti_id :: string
  ti_key :: bytes
  ti_seq :: int
  ti_step :: int
  ti_tool :: string
  ti_args :: string
  ti_created :: msec
  ti_expires :: msec
  ti_attempt :: int
  ti_kind :: intent_kind
  ti_trace :: bytes
  ti_scheme :: sig_scheme
  ti_key_id :: string
  ti_sig :: bytes

datatype result_status =
    StatusUnspecified
  | StatusOk
  | StatusError
  | StatusExpired
  | StatusRejected
  | StatusOther int

record tool_result =
  tr_id :: string
  tr_key :: bytes
  tr_seq :: int
  tr_status :: result_status
  tr_payload :: bytes
  tr_error :: string
  tr_completed :: msec

section \<open>Traces\<close>

datatype event_type =
    EventUnspecified
  | ActivationStart
  | LlmCall
  | ToolCall
  | IntentEmitted
  | ActivationEnd
  | ErrorEvent
  | SuspendedEvent

record trace_event =
  te_trace :: bytes
  te_span :: bytes
  te_parent :: bytes
  te_key :: bytes
  te_seq :: int
  te_step :: int
  te_type :: event_type
  te_attrs :: "(string, string) dict"
  te_start :: msec
  te_end :: msec

section \<open>The input envelope\<close>

record approval =
  ap_id :: string
  ap_approved :: bool
  ap_approver :: string
  ap_decided :: msec

datatype payload =
    ExternalEvent bytes
  | ResultPayload tool_result
  | ApprovalPayload approval
  | ExportRequest string

record envelope =
  env_key :: bytes
  env_time :: msec
  env_payload :: "payload option"

section \<open>Keyed state\<close>

record memory_entry =
  me_key :: string
  me_value :: bytes
  me_access :: msec

record memory_blob =
  mb_version :: int
  mb_entries :: "memory_entry list"
  mb_total :: int

record continuation =
  co_version :: int
  co_seq :: int
  co_step :: int
  co_pending :: "string list"
  co_adapter :: string
  co_snapshot :: bytes
  co_suspended :: msec
  co_deadline :: msec
  co_escalations :: int

record llm_cache_entry =
  lc_key :: string
  lc_response :: bytes
  lc_digest :: bytes
  lc_created :: msec
  lc_access :: msec
  lc_digest_only :: bool

record llm_cache_blob =
  cb_version :: int
  cb_entries :: "llm_cache_entry list"
  cb_total :: int

record long_term_record =
  lr_version :: int
  lr_key :: string
  lr_value :: bytes
  lr_seq :: int
  lr_updated :: msec

record activation_error_record =
  er_key :: bytes
  er_reason :: string
  er_detail :: string
  er_time :: msec

record state_snapshot =
  sn_version :: int
  sn_key :: bytes
  sn_seq :: int
  sn_at :: msec
  sn_memory :: "memory_blob option"
  sn_cache :: "llm_cache_blob option"
  sn_continuation :: "continuation option"
  sn_pending :: "tool_intent list"
  sn_request :: string

section \<open>Deterministic intent identifiers\<close>

text \<open>
  \<open>intent_id = str(uuid5(namespace, key.hex() + "|" + seq + "|" + step_index))\<close>. The name-based
  UUID of the fixed namespace is a parameter; what the code contributes is the name it hashes,
  and that name determines the three components.
\<close>

definition intent_name :: "bytes \<Rightarrow> int \<Rightarrow> int \<Rightarrow> string" where
  "intent_name entity_key seq step_index =
     hex_bytes entity_key @ ''|'' @ dec seq @ ''|'' @ dec step_index"

definition intent_id_for :: "(string \<Rightarrow> string) \<Rightarrow> bytes \<Rightarrow> int \<Rightarrow> int \<Rightarrow> string" where
  "intent_id_for uuid5 entity_key seq step_index = uuid5 (intent_name entity_key seq step_index)"

lemma bar_split:
  assumes "c \<notin> set xs" and "c \<notin> set ys" and "xs @ c # us = ys @ c # vs"
  shows "xs = ys \<and> us = vs"
  using assms
proof (induction xs arbitrary: ys)
  case Nil
  then show ?case by (cases ys) auto
next
  case (Cons x xs)
  then show ?case by (cases ys) auto
qed

lemma hex_chars:
  assumes "c \<in> set (hex_bytes bs)"
  shows "(of_char c :: nat) < 103" and "(of_char c :: nat) \<noteq> 45"
proof -
  obtain b where b: "b \<in> set bs" "c \<in> set (hex_byte b)"
    using assms by (auto simp: hex_bytes_def)
  have "unat b < 256" using unsigned_less[of b, where 'a = nat] by simp
  then have "unat b div 16 < 16" "unat b mod 16 < 16" by auto
  then have "\<exists>k < 16. c = hex_digit k" using b(2) unfolding hex_byte_def
    by (metis empty_iff empty_set insert_iff list.set(2))
  then show "(of_char c :: nat) < 103" "(of_char c :: nat) \<noteq> 45"
    by (auto simp: of_char_hex_digit split: if_splits)
qed

lemma bar_notin_hex: "CHR ''|'' \<notin> set (hex_bytes bs)"
  using hex_chars(1)[of "CHR ''|''" bs] by auto

lemma bar_notin_dec: "CHR ''|'' \<notin> set (dec i)"
  using dec_chars[of "CHR ''|''" i] by (auto simp: is_digit_def)

lemma intent_name_inject:
  "intent_name k s i = intent_name k' s' i' \<longleftrightarrow> k = k' \<and> s = s' \<and> i = i'"
proof
  assume "intent_name k s i = intent_name k' s' i'"
  then have eq: "hex_bytes k @ CHR ''|'' # (dec s @ CHR ''|'' # dec i) =
      hex_bytes k' @ CHR ''|'' # (dec s' @ CHR ''|'' # dec i')"
    by (simp add: intent_name_def)
  have "hex_bytes k = hex_bytes k' \<and> dec s @ CHR ''|'' # dec i = dec s' @ CHR ''|'' # dec i'"
    by (rule bar_split[OF bar_notin_hex bar_notin_hex eq])
  moreover from this have "dec s = dec s' \<and> dec i = dec i'"
    using bar_split[OF bar_notin_dec bar_notin_dec] by blast
  ultimately show "k = k' \<and> s = s' \<and> i = i'" by simp
qed simp

text \<open>
  Under a collision-free \<open>uuid5\<close> two identifiers agree exactly when key, sequence number and
  step agree; in general, a coincidence is a collision of \<open>uuid5\<close> on two different names.
\<close>

lemma intent_id_inject:
  "inj uuid5 \<Longrightarrow>
   intent_id_for uuid5 k s i = intent_id_for uuid5 k' s' i' \<longleftrightarrow> k = k' \<and> s = s' \<and> i = i'"
  by (simp only: intent_id_for_def inj_eq intent_name_inject)

end
