(* ===== verification/Migration.thy ===== *)
theory Migration
  imports Wire
begin

text \<open>
  The state-schema regime of \<open>core/migration.py\<close>: the registry of single-step migrations, the
  registering decorator, and the lazy upgrade applied at every keyed-state read. A registry is
  kept per message type (the code keys one dict by \<open>(type, from_version)\<close>); a step is a function
  that may raise.
\<close>

section \<open>Definitions\<close>

type_synonym 'm registry = "(int, 'm \<Rightarrow> 'm res) dict"

definition CURRENT_STATE_SCHEMA_VERSION :: int where
  "CURRENT_STATE_SCHEMA_VERSION = 1"

definition BASELINE_VERSION :: int where
  "BASELINE_VERSION = 1"

definition migration :: "'m registry \<Rightarrow> int \<Rightarrow> ('m \<Rightarrow> 'm res) \<Rightarrow> 'm registry res" where
  "migration registry from_version step =
     (if from_version < BASELINE_VERSION then Err ValueError
      else if map_of registry from_version \<noteq> None then Err ValueError
      else Ok (AList.update from_version step registry))"

text \<open>The loop of \<open>migrate_to_current\<close>: one registered step per version below \<open>current\<close>.\<close>

function migrate_walk ::
  "('m \<Rightarrow> int) \<Rightarrow> 'm registry \<Rightarrow> int \<Rightarrow> int \<Rightarrow> 'm \<Rightarrow> 'm res" where
  "migrate_walk version_of registry current version m =
     (if version < current then
        (case map_of registry version of
           None \<Rightarrow> Err (MissingMigration version current)
         | Some step \<Rightarrow>
             (case step m of
                Inl e \<Rightarrow> Err e
              | Inr m' \<Rightarrow>
                  (if version_of m' \<noteq> version + 1 then Err (MigrationStep version (version_of m'))
                   else migrate_walk version_of registry current (version + 1) m')))
      else Ok m)"
  by pat_completeness auto
termination
  by (relation "measure (\<lambda>(_, _, current, version, _). nat (current - version))") auto

declare migrate_walk.simps [simp del]

definition migrate_at :: "('m \<Rightarrow> int) \<Rightarrow> 'm registry \<Rightarrow> int \<Rightarrow> 'm option \<Rightarrow> 'm option res" where
  "migrate_at version_of registry current message =
     (case message of
        None \<Rightarrow> Ok None
      | Some m \<Rightarrow>
          (let version = (if version_of m = 0 then BASELINE_VERSION else version_of m) in
           if version = current then Ok (Some m)
           else if version > current then Err (SchemaFromFuture version current)
           else (case migrate_walk version_of registry current version m of
                   Inl e \<Rightarrow> Err e
                 | Inr m' \<Rightarrow> Ok (Some m'))))"

definition migrate_to_current :: "('m \<Rightarrow> int) \<Rightarrow> 'm registry \<Rightarrow> 'm option \<Rightarrow> 'm option res" where
  "migrate_to_current version_of registry message =
     migrate_at version_of registry CURRENT_STATE_SCHEMA_VERSION message"

text \<open>The registry of this build is empty: version 1 is the only version it has ever written.\<close>

definition no_migrations :: "'m registry" where
  "no_migrations = []"

definition migrate_memory :: "memory_blob option \<Rightarrow> memory_blob option res" where
  "migrate_memory = migrate_to_current mb_version no_migrations"

definition migrate_continuation :: "continuation option \<Rightarrow> continuation option res" where
  "migrate_continuation = migrate_to_current co_version no_migrations"

definition migrate_cache :: "llm_cache_blob option \<Rightarrow> llm_cache_blob option res" where
  "migrate_cache = migrate_to_current cb_version no_migrations"

section \<open>The contract of a migration chain\<close>

text \<open>
  A chain is complete when every version from the baseline below \<open>current\<close> has a step that
  succeeds on messages of its version and advances the stamp by one. Then no stored message of
  a known version fails to load.
\<close>

locale migration_chain =
  fixes version_of :: "'m \<Rightarrow> int"
    and registry :: "'m registry"
    and current :: int
  assumes current_ge: "BASELINE_VERSION \<le> current"
    and step_complete:
      "\<lbrakk>BASELINE_VERSION \<le> v; v < current; version_of m = v \<or> version_of m = 0 \<and> v = BASELINE_VERSION\<rbrakk>
       \<Longrightarrow> \<exists>step m'. map_of registry v = Some step \<and> step m = Ok m' \<and> version_of m' = v + 1"
begin

lemma walk_reaches_current:
  "\<lbrakk>BASELINE_VERSION \<le> v; v < current; version_of m = v \<or> version_of m = 0 \<and> v = BASELINE_VERSION\<rbrakk>
   \<Longrightarrow> \<exists>m'. migrate_walk version_of registry current v m = Ok m' \<and> version_of m' = current"
proof (induction "nat (current - v)" arbitrary: v m)
  case 0
  then show ?case by simp
next
  case (Suc n)
  obtain step m1 where s: "map_of registry v = Some step" "step m = Ok m1" "version_of m1 = v + 1"
    using step_complete[OF Suc.prems] by blast
  have unf: "migrate_walk version_of registry current v m =
      migrate_walk version_of registry current (v + 1) m1"
    using s Suc.prems(2) by (subst migrate_walk.simps) simp
  show ?case
  proof (cases "v + 1 < current")
    case True
    have "n = nat (current - (v + 1))" using Suc.hyps(2) by simp
    then show ?thesis using Suc.hyps(1)[of "v + 1" m1] s(3) Suc.prems(1) True unf by simp
  next
    case False
    then have "migrate_walk version_of registry current (v + 1) m1 = Ok m1"
      by (subst migrate_walk.simps) simp
    then show ?thesis using unf s(3) False Suc.prems(2) by simp
  qed
qed

lemma migrate_known:
  assumes "0 \<le> version_of m" and "version_of m \<le> current"
  shows "\<exists>m'. migrate_at version_of registry current (Some m) = Ok (Some m')
     \<and> (version_of m' = current \<or> m' = m \<and> version_of m = 0)"
proof -
  let ?v = "if version_of m = 0 then BASELINE_VERSION else version_of m"
  have v: "BASELINE_VERSION \<le> ?v" "?v \<le> current" "version_of m = ?v \<or> version_of m = 0 \<and> ?v = BASELINE_VERSION"
    using assms current_ge by (auto simp: BASELINE_VERSION_def)
  show ?thesis
  proof (cases "?v = current")
    case True
    then show ?thesis by (auto simp: migrate_at_def Let_def)
  next
    case False
    then obtain m' where "migrate_walk version_of registry current ?v m = Ok m'" "version_of m' = current"
      using walk_reaches_current[OF v(1) _ v(3)] v(2) by force
    then show ?thesis using False v(2) by (auto simp: migrate_at_def Let_def)
  qed
qed

lemma migrate_future:
  "current < version_of m \<Longrightarrow>
   migrate_at version_of registry current (Some m) = Err (SchemaFromFuture (version_of m) current)"
  using current_ge by (auto simp: migrate_at_def Let_def BASELINE_VERSION_def)

lemma migrate_again:
  "\<lbrakk>migrate_at version_of registry current (Some m) = Ok (Some m'); 0 \<le> version_of m\<rbrakk> \<Longrightarrow>
   migrate_at version_of registry current (Some m') = Ok (Some m')"
  using migrate_known[of m] migrate_future[of m] current_ge
  by (cases "version_of m \<le> current")
    (auto simp: migrate_at_def Let_def BASELINE_VERSION_def split: if_splits sum.splits)

end

interpretation memory_chain: migration_chain mb_version "no_migrations :: memory_blob registry" CURRENT_STATE_SCHEMA_VERSION
  by unfold_locales (auto simp: CURRENT_STATE_SCHEMA_VERSION_def BASELINE_VERSION_def)

interpretation continuation_chain: migration_chain co_version "no_migrations :: continuation registry" CURRENT_STATE_SCHEMA_VERSION
  by unfold_locales (auto simp: CURRENT_STATE_SCHEMA_VERSION_def BASELINE_VERSION_def)

interpretation cache_chain: migration_chain cb_version "no_migrations :: llm_cache_blob registry" CURRENT_STATE_SCHEMA_VERSION
  by unfold_locales (auto simp: CURRENT_STATE_SCHEMA_VERSION_def BASELINE_VERSION_def)

section \<open>Lemmas\<close>

lemma migrate_absent [simp]: "migrate_to_current version_of registry None = Ok None"
  by (simp add: migrate_to_current_def migrate_at_def)

text \<open>At version 1 the upgrade is the identity on every version it accepts.\<close>

lemma migrate_v1:
  "migrate_to_current version_of no_migrations (Some m) =
     (if 1 < version_of m then Err (SchemaFromFuture (version_of m) 1)
      else if version_of m \<in> {0, 1} then Ok (Some m)
      else Err (MissingMigration (version_of m) 1))"
  by (subst migrate_to_current_def, subst migrate_at_def)
    (auto simp: CURRENT_STATE_SCHEMA_VERSION_def BASELINE_VERSION_def no_migrations_def
      Let_def migrate_walk.simps[of version_of])

lemma migrate_v1_Ok_same:
  "migrate_to_current version_of no_migrations x = Ok y \<Longrightarrow> y = x"
  by (cases x) (auto simp: migrate_v1 split: if_splits)

lemma migrate_memory_same: "migrate_memory x = Ok y \<Longrightarrow> y = x"
  by (simp add: migrate_memory_def migrate_v1_Ok_same)

lemma migrate_continuation_same: "migrate_continuation x = Ok y \<Longrightarrow> y = x"
  by (simp add: migrate_continuation_def migrate_v1_Ok_same)

lemma migrate_cache_same: "migrate_cache x = Ok y \<Longrightarrow> y = x"
  by (simp add: migrate_cache_def migrate_v1_Ok_same)

lemma migration_preserves:
  "\<lbrakk>migration registry v step = Ok registry'; map_of registry u = Some s\<rbrakk>
   \<Longrightarrow> map_of registry' u = Some s"
  by (auto simp: migration_def update_conv split: if_splits)

lemmas migrate_same = migrate_memory_same migrate_continuation_same migrate_cache_same

section \<open>Properties\<close>

text \<open>
  The lazy upgrade of a continuation accepts every version this build has ever written and
  returns it unchanged or current, is idempotent, and refuses a version from the future.
\<close>

theorem continuation_upgrade:
  assumes "0 \<le> co_version c"
  shows "if co_version c \<le> CURRENT_STATE_SCHEMA_VERSION
    then \<exists>c'. migrate_continuation (Some c) = Ok (Some c') \<and>
      (co_version c' = CURRENT_STATE_SCHEMA_VERSION \<or> c' = c) \<and> migrate_continuation (Some c') = Ok (Some c')
    else migrate_continuation (Some c) = Err (SchemaFromFuture (co_version c) CURRENT_STATE_SCHEMA_VERSION)"
proof (cases "co_version c \<le> CURRENT_STATE_SCHEMA_VERSION")
  case True
  obtain c' where c': "migrate_at co_version no_migrations CURRENT_STATE_SCHEMA_VERSION (Some c) = Ok (Some c')"
    "co_version c' = CURRENT_STATE_SCHEMA_VERSION \<or> c' = c \<and> co_version c = 0"
    using continuation_chain.migrate_known[OF assms True] by blast
  then have "migrate_at co_version no_migrations CURRENT_STATE_SCHEMA_VERSION (Some c') = Ok (Some c')"
    using continuation_chain.migrate_again[OF c'(1) assms] by simp
  then show ?thesis using c' True by (auto simp: migrate_continuation_def migrate_to_current_def)
next
  case False
  then show ?thesis using continuation_chain.migrate_future[of c]
    by (simp add: migrate_continuation_def migrate_to_current_def)
qed

theorem continuation_upgrade_witness:
  "\<exists>c'. migrate_continuation (Some \<lparr>co_version = 0, co_seq = 2, co_step = 1, co_pending = [], co_adapter = [],
     co_snapshot = [], co_suspended = 0, co_deadline = 9, co_escalations = 0\<rparr>) = Ok (Some c')"
  using continuation_upgrade[of "\<lparr>co_version = 0, co_seq = 2, co_step = 1, co_pending = [], co_adapter = [],
     co_snapshot = [], co_suspended = 0, co_deadline = 9, co_escalations = 0\<rparr>"]
  by (auto simp: CURRENT_STATE_SCHEMA_VERSION_def)

end
