(* ===== verification/Stores.thy ===== *)
theory Stores
  imports Wire
begin

text \<open>
  The long-term memory tier (\<open>memory/stores/base.py\<close>): records, the envelope codec, the sequence
  guard, the public contract every backend inherits, the in-memory backend, the store-URI
  grammar, and the activation-scoped handle of \<open>memory/facade.py\<close> that stages upserts. The
  protobuf codec of \<open>LongTermRecord\<close> is a parameter.
\<close>

section \<open>Records and codecs\<close>

record memory_record =
  mr_entity :: bytes
  mr_key :: string
  mr_value :: bytes
  mr_seq :: int
  mr_updated :: msec

record lt_codec =
  lt_serialize :: "long_term_record \<Rightarrow> bytes"
  lt_parse :: "bytes \<Rightarrow> long_term_record option"

definition encode_seq :: "int \<Rightarrow> bytes res" where
  "encode_seq seq =
     (if seq < 0 then Err ValueError
      else if 2 ^ 64 \<le> seq then Err OverflowError
      else Ok (to_be 8 seq))"

definition decode_seq :: "bytes \<Rightarrow> int res" where
  "decode_seq encoded = (if length encoded < 8 then Err ValueError else Ok (from_be (take 8 encoded)))"

definition encode_envelope :: "lt_codec \<Rightarrow> memory_record \<Rightarrow> bytes" where
  "encode_envelope codec r =
     lt_serialize codec
       \<lparr>lr_version = 1, lr_key = mr_key r, lr_value = mr_value r, lr_seq = mr_seq r,
        lr_updated = mr_updated r\<rparr>"

definition decode_envelope :: "lt_codec \<Rightarrow> bytes \<Rightarrow> bytes \<Rightarrow> memory_record res" where
  "decode_envelope codec entity_key encoded =
     (case lt_parse codec encoded of
        None \<Rightarrow> Err ValueError
      | Some m \<Rightarrow>
          Ok \<lparr>mr_entity = entity_key, mr_key = lr_key m, mr_value = lr_value m, mr_seq = lr_seq m,
              mr_updated = lr_updated m\<rparr>)"

definition seq_guard_applies :: "int \<Rightarrow> int option \<Rightarrow> bool" where
  "seq_guard_applies incoming_seq stored_seq =
     (case stored_seq of None \<Rightarrow> True | Some s \<Rightarrow> incoming_seq \<ge> s)"

section \<open>The public contract\<close>

text \<open>
  \<open>MemoryStore\<close> validates the arguments and delegates to the backend's primitives. A backend is
  its three primitives over a state; each may fail.
\<close>

record 's backend =
  bk_load :: "'s \<Rightarrow> bytes \<Rightarrow> string \<Rightarrow> memory_record option res"
  bk_save :: "'s \<Rightarrow> memory_record \<Rightarrow> (bool \<times> 's) res"
  bk_search :: "'s \<Rightarrow> bytes \<Rightarrow> string \<Rightarrow> int \<Rightarrow> memory_record list res"

definition require_key :: "string \<Rightarrow> unit res" where
  "require_key key = (if key = [] then Err ValueError else Ok ())"

definition store_load :: "'s backend \<Rightarrow> 's \<Rightarrow> bytes \<Rightarrow> string \<Rightarrow> memory_record option res" where
  "store_load bk s entity_key key = bindE (require_key key) (\<lambda>_. bk_load bk s entity_key key)"

definition store_save :: "'s backend \<Rightarrow> 's \<Rightarrow> memory_record \<Rightarrow> (bool \<times> 's) res" where
  "store_save bk s r =
     bindE (require_key (mr_key r)) (\<lambda>_. if mr_seq r < 0 then Err ValueError else bk_save bk s r)"

definition store_search ::
  "'s backend \<Rightarrow> 's \<Rightarrow> bytes \<Rightarrow> string \<Rightarrow> int \<Rightarrow> memory_record list res" where
  "store_search bk s entity_key pre limit =
     (if limit \<le> 0 then Err ValueError else bk_search bk s entity_key pre limit)"

section \<open>The in-memory backend\<close>

type_synonym im_rows = "(bytes, (string, int \<times> bytes) dict) dict"

definition im_entity :: "im_rows \<Rightarrow> bytes \<Rightarrow> (string, int \<times> bytes) dict" where
  "im_entity rows entity_key = (case map_of rows entity_key of None \<Rightarrow> [] | Some d \<Rightarrow> d)"

definition im_load :: "lt_codec \<Rightarrow> im_rows \<Rightarrow> bytes \<Rightarrow> string \<Rightarrow> memory_record option res" where
  "im_load codec rows entity_key key =
     (case map_of (im_entity rows entity_key) key of
        None \<Rightarrow> Ok None
      | Some stored \<Rightarrow> bindE (decode_envelope codec entity_key (snd stored)) (\<lambda>r. Ok (Some r)))"

definition im_save :: "lt_codec \<Rightarrow> im_rows \<Rightarrow> memory_record \<Rightarrow> (bool \<times> im_rows) res" where
  "im_save codec rows r =
     (let entity_rows = im_entity rows (mr_entity r);
          rows' = AList.update (mr_entity r) entity_rows rows in
      if \<not> seq_guard_applies (mr_seq r) (map_option fst (map_of entity_rows (mr_key r)))
      then Ok (False, rows')
      else Ok (True,
        AList.update (mr_entity r)
          (AList.update (mr_key r) (mr_seq r, encode_envelope codec r) entity_rows) rows'))"

definition im_search ::
  "lt_codec \<Rightarrow> im_rows \<Rightarrow> bytes \<Rightarrow> string \<Rightarrow> int \<Rightarrow> memory_record list res" where
  "im_search codec rows entity_key pre limit =
     (let entity_rows = im_entity rows entity_key;
          matching = sort (filter (prefix pre) (map fst entity_rows)) in
      mapE (\<lambda>key. decode_envelope codec entity_key (snd (the (map_of entity_rows key))))
        (take (nat limit) matching))"

definition in_memory :: "lt_codec \<Rightarrow> im_rows backend" where
  "in_memory codec = \<lparr>bk_load = im_load codec, bk_save = im_save codec, bk_search = im_search codec\<rparr>"

section \<open>Store URIs\<close>

fun split_on :: "char \<Rightarrow> string \<Rightarrow> string list" where
  "split_on c [] = [[]]"
| "split_on c (x # xs) =
     (if x = c then [] # split_on c xs
      else (case split_on c xs of [] \<Rightarrow> [[x]] | p # ps \<Rightarrow> (x # p) # ps))"

text \<open>\<open>str.partition("://")\<close>.\<close>

fun partition_uri :: "string \<Rightarrow> (string \<times> string) option" where
  "partition_uri [] = None"
| "partition_uri (c # cs) =
     (if prefix ''://'' (c # cs) then Some ([], drop 2 cs)
      else (case partition_uri cs of None \<Rightarrow> None | Some (a, b) \<Rightarrow> Some (c # a, b)))"

definition parse_memory_store_uri :: "string \<Rightarrow> (string \<times> string list) res" where
  "parse_memory_store_uri uri =
     (case partition_uri uri of
        None \<Rightarrow> Err ValueError
      | Some (scheme, rest) \<Rightarrow>
          (if scheme = [] then Err ValueError
           else if scheme = ''memory'' then Ok (scheme, [])
           else if scheme = ''redis'' then Ok (scheme, [uri])
           else if scheme = ''bigtable'' then
             (let parts = split_on (CHR ''/'') rest in
              if length parts \<noteq> 3 \<or> [] \<in> set parts then Err ValueError else Ok (scheme, parts))
           else if scheme = ''firestore'' then
             (let parts = split_on (CHR ''/'') rest in
              if length parts \<noteq> 2 \<or> [] \<in> set parts then Err ValueError else Ok (scheme, parts))
           else Ok (scheme, [uri])))"

datatype store_choice =
    ChooseMemory
  | ChooseRedis string
  | ChooseBigtable string string string
  | ChooseFirestore string string
  | ChooseSql string

definition build_memory_store :: "string \<Rightarrow> string list \<Rightarrow> store_choice res" where
  "build_memory_store scheme parts =
     (if scheme = ''memory'' then Ok ChooseMemory
      else if scheme = ''redis'' then
        (case parts of u # _ \<Rightarrow> Ok (ChooseRedis u) | [] \<Rightarrow> Err IndexError)
      else if scheme = ''bigtable'' then
        (case parts of [p, i, t] \<Rightarrow> Ok (ChooseBigtable p i t) | _ \<Rightarrow> Err ValueError)
      else if scheme = ''firestore'' then
        (case parts of [p, c] \<Rightarrow> Ok (ChooseFirestore p c) | _ \<Rightarrow> Err ValueError)
      else (case parts of u # _ \<Rightarrow> Ok (ChooseSql u) | [] \<Rightarrow> Err IndexError))"

section \<open>The activation-scoped handle\<close>

record longterm =
  lt_entity :: bytes
  lt_seq :: int
  lt_now :: msec
  lt_staged :: "(string, memory_record) dict"

definition longterm_init :: "bytes \<Rightarrow> int \<Rightarrow> msec \<Rightarrow> longterm" where
  "longterm_init entity_key seq now_ms =
     \<lparr>lt_entity = entity_key, lt_seq = seq, lt_now = now_ms, lt_staged = []\<rparr>"

definition longterm_save :: "longterm \<Rightarrow> string \<Rightarrow> bytes \<Rightarrow> longterm res" where
  "longterm_save lt key v =
     (if key = [] then Err ValueError
      else Ok (lt\<lparr>lt_staged := AList.update key
        \<lparr>mr_entity = lt_entity lt, mr_key = key, mr_value = v, mr_seq = lt_seq lt,
         mr_updated = lt_now lt\<rparr> (lt_staged lt)\<rparr>))"

definition longterm_load :: "'s backend \<Rightarrow> 's \<Rightarrow> longterm \<Rightarrow> string \<Rightarrow> memory_record option res" where
  "longterm_load bk s lt key =
     (case map_of (lt_staged lt) key of
        Some r \<Rightarrow> Ok (Some r)
      | None \<Rightarrow> store_load bk s (lt_entity lt) key)"

definition longterm_search ::
  "'s backend \<Rightarrow> 's \<Rightarrow> longterm \<Rightarrow> string \<Rightarrow> int \<Rightarrow> memory_record list res" where
  "longterm_search bk s lt pre limit =
     bindE (store_search bk s (lt_entity lt) pre limit) (\<lambda>stored.
       let merged = foldl (\<lambda>d r. AList.update (mr_key r) r d) [] stored;
           merged' = foldl (\<lambda>d (k, r). if prefix pre k then AList.update k r d else d)
                       merged (lt_staged lt) in
       Ok (take (nat limit) (sort_key mr_key (map snd merged'))))"

definition staged_upserts :: "longterm \<Rightarrow> memory_record list" where
  "staged_upserts lt = map snd (lt_staged lt)"

text \<open>
  The commit-tail flush of \<open>core/loop.py\<close> (\<open>_flush_longterm\<close>): one save per staged upsert in
  staging order. A failing save leaves the rows already written.
\<close>

fun flush_records :: "'s backend \<Rightarrow> 's \<Rightarrow> memory_record list \<Rightarrow> unit res \<times> 's" where
  "flush_records bk s [] = (Ok (), s)"
| "flush_records bk s (r # rs) =
     (case store_save bk s r of
        Inl e \<Rightarrow> (Err (LongtermFlushFailed (mr_key r)), s)
      | Inr (_, s') \<Rightarrow> flush_records bk s' rs)"

section \<open>The contract of a long-term store\<close>

definition record_ok :: "memory_record \<Rightarrow> bool" where
  "record_ok r \<longleftrightarrow> mr_key r \<noteq> [] \<and> 0 \<le> mr_seq r"

definition row_id :: "memory_record \<Rightarrow> bytes \<times> string" where
  "row_id r = (mr_entity r, mr_key r)"

locale longterm_store =
  fixes bk :: "'s backend"
    and admits :: "memory_record \<Rightarrow> bool"
    and inv :: "'s \<Rightarrow> bool"
  assumes save_total:
      "\<lbrakk>inv s; admits r\<rbrakk> \<Longrightarrow> \<exists>b s'. store_save bk s r = Ok (b, s') \<and> inv s'"
    and load_total: "\<lbrakk>inv s; k \<noteq> []\<rbrakk> \<Longrightarrow> \<exists>x. store_load bk s e k = Ok x"
    and save_guard:
      "\<lbrakk>inv s; admits r; store_save bk s r = Ok (b, s'); store_load bk s (mr_entity r) (mr_key r) = Ok old\<rbrakk>
       \<Longrightarrow> b = seq_guard_applies (mr_seq r) (map_option mr_seq old)"
    and load_save:
      "\<lbrakk>inv s; admits r; store_save bk s r = Ok (b, s')\<rbrakk> \<Longrightarrow>
       store_load bk s' e k = (if b \<and> (e, k) = row_id r then Ok (Some r) else store_load bk s e k)"
begin

lemma save_obs:
  assumes "inv s" and "admits r" and "store_save bk s r = Ok (b, s')"
    and "store_load bk s (mr_entity r) (mr_key r) = Ok old"
  shows "store_load bk s' (mr_entity r) (mr_key r) =
    Ok (if seq_guard_applies (mr_seq r) (map_option mr_seq old) then Some r else old)"
  using load_save[OF assms(1-3)] save_guard[OF assms] assms(4) by (simp add: row_id_def)

lemma flush_succeeds:
  "\<lbrakk>inv s; \<forall>r \<in> set rs. admits r\<rbrakk> \<Longrightarrow> \<exists>s'. flush_records bk s rs = (Ok (), s') \<and> inv s'"
proof (induction rs arbitrary: s)
  case (Cons r rs)
  obtain b s1 where s1: "store_save bk s r = Ok (b, s1)" "inv s1"
    using save_total Cons.prems by (meson list.set_intros(1))
  then show ?case using Cons.IH[of s1] Cons.prems by simp
qed simp

lemma flush_frame:
  "\<lbrakk>inv s; \<forall>r \<in> set rs. admits r; flush_records bk s rs = (Ok (), s'); (e, k) \<notin> row_id ` set rs\<rbrakk>
   \<Longrightarrow> store_load bk s' e k = store_load bk s e k"
proof (induction rs arbitrary: s)
  case (Cons r rs)
  obtain b s1 where s1: "store_save bk s r = Ok (b, s1)" "inv s1"
    using save_total Cons.prems by (meson list.set_intros(1))
  have "store_load bk s' e k = store_load bk s1 e k"
    using Cons.IH[OF s1(2)] Cons.prems s1(1) by simp
  moreover have "store_load bk s1 e k = store_load bk s e k"
    using load_save[OF Cons.prems(1) _ s1(1), of e k] Cons.prems(2,4) by auto
  ultimately show ?case by simp
qed simp

text \<open>Flushing rows of distinct identity writes each of them under the sequence guard.\<close>

lemma flush_row:
  "\<lbrakk>inv s; \<forall>r \<in> set rs. admits r; distinct (map row_id rs); flush_records bk s rs = (Ok (), s');
    r \<in> set rs; store_load bk s (mr_entity r) (mr_key r) = Ok old\<rbrakk>
   \<Longrightarrow> store_load bk s' (mr_entity r) (mr_key r) =
       Ok (if seq_guard_applies (mr_seq r) (map_option mr_seq old) then Some r else old)"
proof (induction rs arbitrary: s)
  case (Cons q rs)
  obtain b s1 where s1: "store_save bk s q = Ok (b, s1)" "inv s1"
    using save_total Cons.prems by (meson list.set_intros(1))
  have fl: "flush_records bk s1 rs = (Ok (), s')" using Cons.prems(4) s1(1) by simp
  have ok: "\<forall>r \<in> set rs. admits r" using Cons.prems(2) by simp
  show ?case
  proof (cases "r = q")
    case True
    have "row_id q \<notin> row_id ` set rs" using Cons.prems(3) by simp
    then have "store_load bk s' (mr_entity q) (mr_key q) = store_load bk s1 (mr_entity q) (mr_key q)"
      using flush_frame[OF s1(2) ok fl, of "mr_entity q" "mr_key q"] by (simp add: row_id_def)
    then show ?thesis
      using save_obs[OF Cons.prems(1) _ s1(1)] Cons.prems(2,6) True by simp
  next
    case False
    then have r: "r \<in> set rs" using Cons.prems(5) by simp
    have "row_id r \<noteq> row_id q" using Cons.prems(3) r by (auto simp: image_iff)
    then have "store_load bk s1 (mr_entity r) (mr_key r) = Ok old"
      using load_save[OF Cons.prems(1) _ s1(1), of "mr_entity r" "mr_key r"] Cons.prems(2,6)
      by (auto simp: row_id_def)
    then show ?thesis using Cons.IH[OF s1(2) ok _ fl r] Cons.prems(3) by simp
  qed
qed simp

text \<open>A replayed flush of the same rows converges: it changes no row.\<close>

lemma flush_replay:
  assumes "inv s" and ok: "\<forall>r \<in> set rs. admits r" and dist: "distinct (map row_id rs)"
    and first: "flush_records bk s rs = (Ok (), s')" and again: "flush_records bk s' rs = (Ok (), s'')"
    and k: "k \<noteq> []"
  shows "store_load bk s'' e k = store_load bk s' e k"
proof -
  have inv': "inv s'" using flush_succeeds[OF assms(1) ok] first by simp
  show ?thesis
  proof (cases "(e, k) \<in> row_id ` set rs")
    case False
    then show ?thesis using flush_frame[OF inv' ok again] by simp
  next
    case True
    then obtain r where r: "r \<in> set rs" "e = mr_entity r" "k = mr_key r"
      by (auto simp: row_id_def)
    obtain old where old: "store_load bk s e k = Ok old" using load_total assms(1) k by blast
    have one: "store_load bk s' e k =
        Ok (if seq_guard_applies (mr_seq r) (map_option mr_seq old) then Some r else old)"
      using flush_row[OF assms(1) ok dist first r(1)] old r by simp
    then have "store_load bk s'' e k =
        Ok (let o' = if seq_guard_applies (mr_seq r) (map_option mr_seq old) then Some r else old in
            if seq_guard_applies (mr_seq r) (map_option mr_seq o') then Some r else o')"
      using flush_row[OF inv' ok dist again r(1)] r by simp
    with one show ?thesis by (auto simp: seq_guard_applies_def Let_def)
  qed
qed

text \<open>A stale flush, whose rows are all already stored at a later sequence number, is a no-op.\<close>

lemma flush_stale:
  assumes "inv s" and ok: "\<forall>r \<in> set rs. admits r" and dist: "distinct (map row_id rs)"
    and fl: "flush_records bk s rs = (Ok (), s')"
    and later: "\<forall>r \<in> set rs. \<exists>q. store_load bk s (mr_entity r) (mr_key r) = Ok (Some q) \<and> mr_seq r < mr_seq q"
  shows "store_load bk s' e k = store_load bk s e k"
proof (cases "(e, k) \<in> row_id ` set rs")
  case False
  then show ?thesis using flush_frame[OF assms(1) ok fl] by simp
next
  case True
  then obtain r where r: "r \<in> set rs" "e = mr_entity r" "k = mr_key r" by (auto simp: row_id_def)
  then obtain q where q: "store_load bk s e k = Ok (Some q)" "mr_seq r < mr_seq q" using later by blast
  then show ?thesis using flush_row[OF assms(1) ok dist fl r(1)] r by (simp add: seq_guard_applies_def)
qed

end

section \<open>The in-memory backend keeps the contract\<close>

definition codec_ok :: "lt_codec \<Rightarrow> bool" where
  "codec_ok codec \<longleftrightarrow> (\<forall>m. lt_parse codec (lt_serialize codec m) = Some m)"

definition im_inv :: "lt_codec \<Rightarrow> im_rows \<Rightarrow> bool" where
  "im_inv codec rows \<longleftrightarrow> codec_ok codec \<and>
     (\<forall>e k q b. map_of (im_entity rows e) k = Some (q, b) \<longrightarrow>
        (\<exists>r. row_id r = (e, k) \<and> mr_seq r = q \<and> b = encode_envelope codec r))"

lemma decode_encode: "codec_ok codec \<Longrightarrow> decode_envelope codec (mr_entity r) (encode_envelope codec r) = Ok r"
  by (simp add: codec_ok_def decode_envelope_def encode_envelope_def)

lemma im_entity_update:
  "im_entity (AList.update e d rows) e' = (if e' = e then d else im_entity rows e')"
  by (simp add: im_entity_def update_conv')

lemma im_save_rows:
  "im_save codec rows r = Ok (b, rows') \<Longrightarrow>
   b = seq_guard_applies (mr_seq r) (map_option fst (map_of (im_entity rows (mr_entity r)) (mr_key r))) \<and>
   (\<forall>e k. map_of (im_entity rows' e) k =
     (if b \<and> (e, k) = row_id r then Some (mr_seq r, encode_envelope codec r)
      else map_of (im_entity rows e) k))"
  by (auto simp: im_save_def Let_def im_entity_update update_conv' row_id_def split: if_splits)

lemma im_load_Some:
  assumes "im_inv codec rows" and "map_of (im_entity rows e) k = Some (q, b)"
  shows "\<exists>r. row_id r = (e, k) \<and> mr_seq r = q \<and> im_load codec rows e k = Ok (Some r)"
proof -
  obtain r where r: "row_id r = (e, k)" "mr_seq r = q" "b = encode_envelope codec r"
    using assms unfolding im_inv_def by blast
  moreover have "mr_entity r = e" using r(1) by (simp add: row_id_def)
  ultimately have "im_load codec rows e k = Ok (Some r)"
    using assms decode_encode[of codec r] by (simp add: im_load_def im_inv_def)
  then show ?thesis using r by blast
qed

lemma im_load_None:
  "map_of (im_entity rows e) k = None \<Longrightarrow> im_load codec rows e k = Ok None"
  by (simp add: im_load_def)

lemma im_save_inv:
  assumes "im_inv codec rows" and "im_save codec rows r = Ok (b, rows')"
  shows "im_inv codec rows'"
  using assms im_save_rows[OF assms(2)] unfolding im_inv_def by (metis option.inject prod.inject)

lemma im_save_total: "\<exists>b rows'. im_save codec rows r = Ok (b, rows')"
  by (simp add: im_save_def Let_def) blast

lemma in_memory_ops:
  "store_load (in_memory codec) rows e k = (if k = [] then Err ValueError else im_load codec rows e k)"
  "record_ok r \<Longrightarrow> store_save (in_memory codec) rows r = im_save codec rows r"
  by (auto simp: store_load_def store_save_def in_memory_def require_key_def record_ok_def)

interpretation im: longterm_store "in_memory codec" record_ok "im_inv codec" for codec
proof unfold_locales
  fix s r assume "im_inv codec s" "record_ok r"
  then show "\<exists>b s'. store_save (in_memory codec) s r = Ok (b, s') \<and> im_inv codec s'"
    using im_save_total im_save_inv by (metis in_memory_ops(2))
next
  fix s e k assume "im_inv codec s" "(k :: string) \<noteq> []"
  then show "\<exists>x. store_load (in_memory codec) s e k = Ok x"
    by (cases "map_of (im_entity s e) k")
      (auto simp: in_memory_ops im_load_None dest: im_load_Some[of codec s e k])
next
  fix s r b s' old
  assume inv: "im_inv codec s" and ok: "record_ok r"
    and sv: "store_save (in_memory codec) s r = Ok (b, s')"
    and ld: "store_load (in_memory codec) s (mr_entity r) (mr_key r) = Ok old"
  have b: "b = seq_guard_applies (mr_seq r) (map_option fst (map_of (im_entity s (mr_entity r)) (mr_key r)))"
    using im_save_rows sv in_memory_ops(2)[OF ok] by fastforce
  have "im_load codec s (mr_entity r) (mr_key r) = Ok old"
    using ld ok by (simp add: in_memory_ops(1) record_ok_def)
  then have "map_option mr_seq old = map_option fst (map_of (im_entity s (mr_entity r)) (mr_key r))"
    using im_load_Some[OF inv, of "mr_entity r" "mr_key r"] im_load_None[of s "mr_entity r" "mr_key r" codec]
    by (cases "map_of (im_entity s (mr_entity r)) (mr_key r)") auto
  then show "b = seq_guard_applies (mr_seq r) (map_option mr_seq old)" using b by simp
next
  fix s r b s' e k
  assume inv: "im_inv codec s" and ok: "record_ok r"
    and sv: "store_save (in_memory codec) s r = Ok (b, s')"
  have sv': "im_save codec s r = Ok (b, s')" using sv in_memory_ops(2)[OF ok] by simp
  note rows = im_save_rows[OF sv', THEN conjunct2, rule_format, of e k]
  have key: "(e, k) = row_id r \<Longrightarrow> k \<noteq> [] \<and> mr_entity r = e"
    using ok by (auto simp: row_id_def record_ok_def)
  show "store_load (in_memory codec) s' e k =
      (if b \<and> (e, k) = row_id r then Ok (Some r) else store_load (in_memory codec) s e k)"
  proof (cases "b \<and> (e, k) = row_id r")
    case True
    then show ?thesis
      using key rows inv decode_encode[of codec r]
      by (auto simp: in_memory_ops im_load_def im_inv_def)
  next
    case False
    then have "map_of (im_entity s' e) k = map_of (im_entity s e) k" using rows by (simp only: if_False)
    then show ?thesis using False by (auto simp: in_memory_ops im_load_def)
  qed
qed

lemma im_inv_empty: "codec_ok codec \<Longrightarrow> im_inv codec []"
  by (simp add: im_inv_def im_entity_def)

section \<open>Lemmas on the handle\<close>

lemma staged_distinct:
  "\<lbrakk>longterm_save lt k v = Ok lt'; distinct_keys (lt_staged lt)\<rbrakk> \<Longrightarrow> distinct_keys (lt_staged lt')"
  by (auto simp: longterm_save_def distinct_update split: if_splits)

text \<open>Every staged upsert carries the frozen scope of the activation and its own key.\<close>

definition longterm_ok :: "longterm \<Rightarrow> bool" where
  "longterm_ok lt \<longleftrightarrow> distinct_keys (lt_staged lt) \<and>
     (\<forall>(k, r) \<in> set (lt_staged lt).
        k \<noteq> [] \<and> mr_key r = k \<and> mr_entity r = lt_entity lt \<and> mr_seq r = lt_seq lt \<and> mr_updated r = lt_now lt)"

lemma longterm_init_ok: "longterm_ok (longterm_init e q t)"
  by (simp add: longterm_ok_def longterm_init_def)

lemma longterm_save_ok:
  "\<lbrakk>longterm_save lt k v = Ok lt'; longterm_ok lt\<rbrakk> \<Longrightarrow> longterm_ok lt'"
  using set_update_subset[of k _ "lt_staged lt"]
  by (fastforce simp: longterm_save_def longterm_ok_def distinct_update split: if_splits)

lemma staged_upserts_ok:
  assumes "longterm_ok lt" and "0 \<le> lt_seq lt"
  shows "\<forall>r \<in> set (staged_upserts lt). record_ok r" and "distinct (map row_id (staged_upserts lt))"
proof -
  show "\<forall>r \<in> set (staged_upserts lt). record_ok r"
    using assms by (fastforce simp: longterm_ok_def staged_upserts_def record_ok_def)
  have "map mr_key (staged_upserts lt) = map fst (lt_staged lt)"
    using assms(1) by (auto simp: longterm_ok_def staged_upserts_def)
  then have "distinct (map mr_key (staged_upserts lt))" using assms(1) by (simp add: longterm_ok_def)
  then have "distinct (map snd (map row_id (staged_upserts lt)))" by (simp add: row_id_def comp_def)
  then show "distinct (map row_id (staged_upserts lt))" by (rule distinct_map[THEN iffD1, THEN conjunct1])
qed

lemma longterm_read_your_write:
  "longterm_save lt k v = Ok lt' \<Longrightarrow>
   longterm_load bk s lt' k =
     Ok (Some \<lparr>mr_entity = lt_entity lt, mr_key = k, mr_value = v, mr_seq = lt_seq lt, mr_updated = lt_now lt\<rparr>)"
  by (auto simp: longterm_save_def longterm_load_def update_conv' split: if_splits)

section \<open>A concrete codec\<close>

text \<open>
  Any serialization that parses back satisfies the codec hypothesis; this self-delimiting one
  shows that it can be met, and is what the witnesses evaluate.
\<close>

fun put_bytes :: "bytes \<Rightarrow> bytes" where
  "put_bytes [] = [0]"
| "put_bytes (b # bs) = 1 # b # put_bytes bs"

fun get_bytes :: "bytes \<Rightarrow> (bytes \<times> bytes) option" where
  "get_bytes (x # b # xs) =
     (if x = 0 then Some ([], b # xs)
      else (case get_bytes xs of None \<Rightarrow> None | Some (v, rest) \<Rightarrow> Some (b # v, rest)))"
| "get_bytes [x] = (if x = 0 then Some ([], []) else None)"
| "get_bytes [] = None"

lemma get_put_bytes [simp]: "get_bytes (put_bytes v @ rest) = Some (v, rest)"
  by (induction v) (simp_all, cases rest, simp_all)

definition put_int :: "int \<Rightarrow> bytes" where
  "put_int i = put_bytes ((if i < 0 then 1 else 0) # replicate (nat \<bar>i\<bar>) 0)"

definition int_of :: "bytes \<Rightarrow> int" where
  "int_of v = (if hd v = 1 then - int (length (tl v)) else int (length (tl v)))"

lemma int_of_put [simp]: "int_of ((if i < 0 then 1 else 0) # replicate (nat \<bar>i\<bar>) 0) = i"
  by (simp add: int_of_def)

definition delimited_codec :: lt_codec where
  "delimited_codec =
     \<lparr>lt_serialize = (\<lambda>m. put_int (lr_version m) @ put_bytes (utf8 (lr_key m)) @ put_bytes (lr_value m) @
        put_int (lr_seq m) @ put_int (lr_updated m)),
      lt_parse = (\<lambda>bs.
        Option.bind (get_bytes bs) (\<lambda>(a, r1). Option.bind (get_bytes r1) (\<lambda>(b, r2).
        Option.bind (get_bytes r2) (\<lambda>(c, r3). Option.bind (get_bytes r3) (\<lambda>(d, r4).
        Option.bind (get_bytes r4) (\<lambda>(e, r5).
          Some \<lparr>lr_version = int_of a, lr_key = of_utf8 b, lr_value = c, lr_seq = int_of d, lr_updated = int_of e\<rparr>))))))\<rparr>"

lemma delimited_codec_ok: "codec_ok delimited_codec"
proof -
  have "get_bytes (put_int i @ rest) = Some ((if i < 0 then 1 else 0) # replicate (nat \<bar>i\<bar>) 0, rest)"
      "get_bytes (put_int i) = Some ((if i < 0 then 1 else 0) # replicate (nat \<bar>i\<bar>) 0, [])" for i rest
    unfolding put_int_def by (simp_all only: get_put_bytes get_put_bytes[of _ "[]", unfolded append_Nil2])
  then show ?thesis by (simp add: codec_ok_def delimited_codec_def)
qed

definition demo_row :: "int \<Rightarrow> bytes \<Rightarrow> memory_record" where
  "demo_row q v = \<lparr>mr_entity = [7], mr_key = ''fact'', mr_value = v, mr_seq = q, mr_updated = 0\<rparr>"

section \<open>Properties\<close>

text \<open>
  Replaying the flush of an activation's upserts against the in-memory store converges: both
  flushes succeed, and the second changes no row.
\<close>

theorem flush_replay_converges:
  assumes "im_inv codec rows" and "\<forall>r \<in> set rs. record_ok r" and "distinct (map row_id rs)" and "k \<noteq> []"
  shows "\<exists>rows' rows''. flush_records (in_memory codec) rows rs = (Ok (), rows') \<and>
    flush_records (in_memory codec) rows' rs = (Ok (), rows'') \<and>
    store_load (in_memory codec) rows'' e k = store_load (in_memory codec) rows' e k"
proof -
  obtain rows' where one: "flush_records (in_memory codec) rows rs = (Ok (), rows')" "im_inv codec rows'"
    using im.flush_succeeds[OF assms(1,2)] by blast
  obtain rows'' where two: "flush_records (in_memory codec) rows' rs = (Ok (), rows'')"
    using im.flush_succeeds[OF one(2) assms(2)] by blast
  show ?thesis using im.flush_replay[OF assms(1-3) one(1) two assms(4)] one two by blast
qed

theorem flush_replay_converges_witness:
  "\<exists>rows' rows''. flush_records (in_memory delimited_codec) [] [demo_row 3 [1]] = (Ok (), rows') \<and>
    flush_records (in_memory delimited_codec) rows' [demo_row 3 [1]] = (Ok (), rows'') \<and>
    store_load (in_memory delimited_codec) rows'' [7] ''fact'' = store_load (in_memory delimited_codec) rows' [7] ''fact''"
  by (rule flush_replay_converges[OF im_inv_empty[OF delimited_codec_ok]]) (simp_all add: record_ok_def demo_row_def)

text \<open>
  The sequence guard decides each row of a flush: a row not older than the stored one is
  written, an older one leaves the stored row, and every other row is untouched.
\<close>

theorem flush_guarded_by_seq:
  assumes "im_inv codec rows" and "\<forall>r \<in> set rs. record_ok r" and "distinct (map row_id rs)"
    and "flush_records (in_memory codec) rows rs = (Ok (), rows')" and "r \<in> set rs"
    and "store_load (in_memory codec) rows (mr_entity r) (mr_key r) = Ok old"
  shows "store_load (in_memory codec) rows' (mr_entity r) (mr_key r) =
      Ok (case old of None \<Rightarrow> Some r | Some q \<Rightarrow> if mr_seq q \<le> mr_seq r then Some r else Some q) \<and>
    (\<forall>e k. (e, k) \<notin> row_id ` set rs \<longrightarrow>
      store_load (in_memory codec) rows' e k = store_load (in_memory codec) rows e k)"
  using im.flush_row[OF assms] im.flush_frame[OF assms(1,2,4)]
  by (auto simp: seq_guard_applies_def split: option.splits)

theorem flush_guarded_by_seq_witness:
  "\<exists>rows'. flush_records (in_memory delimited_codec) [] [demo_row 3 [1]] = (Ok (), rows') \<and>
    store_load (in_memory delimited_codec) rows' [7] ''fact'' = Ok (Some (demo_row 3 [1]))"
proof -
  note empty = im_inv_empty[OF delimited_codec_ok]
  have ok: "\<forall>r \<in> set [demo_row 3 [1]]. record_ok r" by (simp add: record_ok_def demo_row_def)
  obtain rows' where f: "flush_records (in_memory delimited_codec) [] [demo_row 3 [1]] = (Ok (), rows')"
    using im.flush_succeeds[OF empty ok] by blast
  have "store_load (in_memory delimited_codec) [] (mr_entity (demo_row 3 [1])) (mr_key (demo_row 3 [1])) = Ok None"
    by (simp add: demo_row_def in_memory_ops im_load_def im_entity_def)
  from flush_guarded_by_seq[OF empty ok _ f _ this] f show ?thesis by (simp add: demo_row_def)
qed

end
