(* ===== verification/Memory_Facade.thy ===== *)
theory Memory_Facade
  imports Migration Stores
begin

text \<open>
  Working memory (\<open>memory/facade.py\<close>): an insertion-ordered dict of kind-tagged byte strings with
  a running total, a soft and a hard cap, and a compaction hook. Entries are kept least recently
  used first. An operation that fails may already have run the compactor, so every operation
  returns its result together with the memory it leaves. The compactor is an argument, a
  function on the memory that may raise.
\<close>

section \<open>State\<close>

definition HARD_CAP_BYTES :: int where "HARD_CAP_BYTES = 1048576"
definition SOFT_CAP_BYTES :: int where "SOFT_CAP_BYTES = HARD_CAP_BYTES * 3 div 4"

definition KIND_SCALAR :: "8 word" where "KIND_SCALAR = 0"
definition KIND_RING :: "8 word" where "KIND_RING = 1"
definition RING_LEN_PREFIX :: nat where "RING_LEN_PREFIX = 4"

record memory =
  mem_now :: msec
  mem_longterm :: "longterm option"
  mem_entries :: "(string, bytes \<times> msec) dict"
  mem_total :: int
  mem_dirty :: bool
  mem_warned :: bool
  mem_enforcing :: bool
  mem_soft_cap_warnings :: int

type_synonym compactor = "memory \<Rightarrow> unit res \<times> memory"

fun load_entries :: "memory_entry list \<Rightarrow> (string, bytes \<times> msec) dict \<times> int \<Rightarrow> (string, bytes \<times> msec) dict \<times> int" where
  "load_entries [] st = st"
| "load_entries (e # es) (d, tot) =
     load_entries es (AList.update (me_key e) (me_value e, me_access e) d,
                      tot + int (length (me_value e)))"

definition memory_init :: "memory_blob option \<Rightarrow> msec \<Rightarrow> longterm option \<Rightarrow> memory" where
  "memory_init blob now_ms lt =
     (let (entries, tot) = (case blob of None \<Rightarrow> ([], 0) | Some b \<Rightarrow> load_entries (mb_entries b) ([], 0)) in
      \<lparr>mem_now = now_ms, mem_longterm = lt, mem_entries = entries, mem_total = tot,
       mem_dirty = False, mem_warned = False, mem_enforcing = True, mem_soft_cap_warnings = 0\<rparr>)"

definition size_bytes :: "memory \<Rightarrow> int" where
  "size_bytes m = mem_total m"

section \<open>Entry codecs\<close>

definition encode_scalar :: "bytes \<Rightarrow> bytes" where
  "encode_scalar v = KIND_SCALAR # v"

text \<open>\<open>len(item).to_bytes(4, "big")\<close> raises \<open>OverflowError\<close> past the 32-bit range.\<close>

fun encode_items :: "bytes list \<Rightarrow> bytes res" where
  "encode_items [] = Ok []"
| "encode_items (item # rest) =
     (if 2 ^ 32 \<le> length item then Err OverflowError
      else bindE (encode_items rest) (\<lambda>out. Ok (to_be RING_LEN_PREFIX (int (length item)) @ item @ out)))"

definition encode_ring :: "bytes list \<Rightarrow> bytes res" where
  "encode_ring items = bindE (encode_items items) (\<lambda>out. Ok (KIND_RING # out))"

function decode_items :: "bytes \<Rightarrow> bytes list res" where
  "decode_items bs =
     (if bs = [] then Ok []
      else if length bs < RING_LEN_PREFIX then Err ValueError
      else
        (let n = nat (from_be (take RING_LEN_PREFIX bs));
             rest = drop RING_LEN_PREFIX bs in
         if length rest < n then Err ValueError
         else bindE (decode_items (drop n rest)) (\<lambda>items. Ok (take n rest # items))))"
  by pat_completeness auto
termination
  by (relation "measure length") (auto simp: RING_LEN_PREFIX_def)

declare decode_items.simps [simp del]

definition decode_ring :: "bytes \<Rightarrow> bytes list res" where
  "decode_ring encoded = decode_items (drop 1 encoded)"

section \<open>Reads\<close>

definition mem_keys :: "memory \<Rightarrow> string list" where
  "mem_keys m = map fst (mem_entries m)"

definition entry_size :: "memory \<Rightarrow> string \<Rightarrow> int res" where
  "entry_size m key =
     (case map_of (mem_entries m) key of
        None \<Rightarrow> Err KeyError
      | Some e \<Rightarrow> Ok (int (length (fst e))))"

definition touch :: "string \<Rightarrow> memory \<Rightarrow> memory" where
  "touch key m =
     (case map_of (mem_entries m) key of
        None \<Rightarrow> m
      | Some e \<Rightarrow> m\<lparr>mem_entries := refresh key (fst e, mem_now m) (mem_entries m), mem_dirty := True\<rparr>)"

definition memory_get :: "string \<Rightarrow> memory \<Rightarrow> bytes option res \<times> memory" where
  "memory_get key m =
     (case map_of (mem_entries m) key of
        None \<Rightarrow> (Ok None, m)
      | Some e \<Rightarrow>
          (case fst e of
             [] \<Rightarrow> (Err IndexError, m)
           | k # v \<Rightarrow> (if k \<noteq> KIND_SCALAR then (Err TypeError, m) else (Ok (Some v), touch key m))))"

definition memory_ring :: "string \<Rightarrow> memory \<Rightarrow> bytes list res \<times> memory" where
  "memory_ring key m =
     (case map_of (mem_entries m) key of
        None \<Rightarrow> (Ok [], m)
      | Some e \<Rightarrow>
          (case fst e of
             [] \<Rightarrow> (Err IndexError, m)
           | k # v \<Rightarrow>
               (if k \<noteq> KIND_RING then (Err TypeError, m)
                else (case decode_ring (fst e) of
                        Inl x \<Rightarrow> (Err x, m)
                      | Inr items \<Rightarrow> (Ok items, touch key m)))))"

section \<open>Guarded writes\<close>

definition prospective_total :: "memory \<Rightarrow> string \<Rightarrow> bytes \<Rightarrow> int" where
  "prospective_total m key new_encoded =
     mem_total m + int (length new_encoded) -
     (case map_of (mem_entries m) key of None \<Rightarrow> 0 | Some e \<Rightarrow> int (length (fst e)))"

definition commit_entry :: "string \<Rightarrow> bytes \<Rightarrow> memory \<Rightarrow> memory" where
  "commit_entry key new_encoded m =
     m\<lparr>mem_total := prospective_total m key new_encoded,
       mem_entries := refresh key (new_encoded, mem_now m) (mem_entries m),
       mem_dirty := True\<rparr>"

definition run_compactor :: "compactor \<Rightarrow> memory \<Rightarrow> unit res \<times> memory" where
  "run_compactor compact m =
     (let (r, m') = compact (m\<lparr>mem_enforcing := False\<rparr>) in (r, m'\<lparr>mem_enforcing := True\<rparr>))"

definition maybe_soft_cap :: "compactor option \<Rightarrow> memory \<Rightarrow> unit res \<times> memory" where
  "maybe_soft_cap compactor m =
     (if mem_warned m \<or> mem_total m < SOFT_CAP_BYTES then (Ok (), m)
      else
        (let m1 = m\<lparr>mem_warned := True, mem_soft_cap_warnings := mem_soft_cap_warnings m + 1\<rparr> in
         case compactor of None \<Rightarrow> (Ok (), m1) | Some compact \<Rightarrow> run_compactor compact m1))"

text \<open>The tail of \<open>_guarded_write\<close>: store, then look at the soft cap while enforcing.\<close>

definition commit_and_warn :: "compactor option \<Rightarrow> string \<Rightarrow> bytes \<Rightarrow> memory \<Rightarrow> unit res \<times> memory" where
  "commit_and_warn compactor key new_encoded m =
     (let m' = commit_entry key new_encoded m in
      if mem_enforcing m' then maybe_soft_cap compactor m' else (Ok (), m'))"

definition check_and_commit :: "compactor option \<Rightarrow> string \<Rightarrow> bytes \<Rightarrow> memory \<Rightarrow> unit res \<times> memory" where
  "check_and_commit compactor key new_encoded m =
     (let prospective = prospective_total m key new_encoded in
      if prospective > HARD_CAP_BYTES then (Err (MemoryOverflow key prospective), m)
      else commit_and_warn compactor key new_encoded m)"

definition guarded_write ::
  "compactor option \<Rightarrow> string \<Rightarrow> (memory \<Rightarrow> bytes res) \<Rightarrow> memory \<Rightarrow> unit res \<times> memory" where
  "guarded_write compactor key compute m =
     (case compute m of
        Inl e \<Rightarrow> (Err e, m)
      | Inr new_encoded \<Rightarrow>
          (if \<not> (mem_enforcing m \<and> prospective_total m key new_encoded > HARD_CAP_BYTES)
           then commit_and_warn compactor key new_encoded m
           else
             (case compactor of
                None \<Rightarrow> check_and_commit compactor key new_encoded m
              | Some compact \<Rightarrow>
                  (case run_compactor compact m of
                     (Inl e, m1) \<Rightarrow> (Err e, m1)
                   | (Inr _, m1) \<Rightarrow>
                       (case compute m1 of
                          Inl e \<Rightarrow> (Err e, m1)
                        | Inr again \<Rightarrow> check_and_commit compactor key again m1)))))"

definition memory_set :: "compactor option \<Rightarrow> string \<Rightarrow> bytes \<Rightarrow> memory \<Rightarrow> unit res \<times> memory" where
  "memory_set compactor key v m = guarded_write compactor key (\<lambda>_. Ok (encode_scalar v)) m"

definition memory_delete :: "string \<Rightarrow> memory \<Rightarrow> memory" where
  "memory_delete key m =
     (case map_of (mem_entries m) key of
        None \<Rightarrow> m
      | Some e \<Rightarrow>
          m\<lparr>mem_entries := AList.delete key (mem_entries m),
            mem_total := mem_total m - int (length (fst e)), mem_dirty := True\<rparr>)"

definition last_n :: "int \<Rightarrow> 'a list \<Rightarrow> 'a list" where
  "last_n n xs = drop (length xs - nat n) xs"

definition append_compute :: "string \<Rightarrow> bytes \<Rightarrow> int \<Rightarrow> memory \<Rightarrow> bytes res" where
  "append_compute key item max_items m =
     bindE (case map_of (mem_entries m) key of None \<Rightarrow> Ok [] | Some e \<Rightarrow> decode_ring (fst e)) (\<lambda>items.
       encode_ring (if max_items > 0 then last_n max_items (items @ [item]) else []))"

definition memory_append ::
  "compactor option \<Rightarrow> string \<Rightarrow> bytes \<Rightarrow> int \<Rightarrow> memory \<Rightarrow> unit res \<times> memory" where
  "memory_append compactor key item max_items m =
     (case map_of (mem_entries m) key of
        Some ([], _) \<Rightarrow> (Err IndexError, m)
      | Some (k # _, _) \<Rightarrow>
          (if k \<noteq> KIND_RING then (Err TypeError, m)
           else guarded_write compactor key (append_compute key item max_items) m)
      | None \<Rightarrow> guarded_write compactor key (append_compute key item max_items) m)"

definition memory_to_blob :: "memory \<Rightarrow> memory_blob" where
  "memory_to_blob m =
     \<lparr>mb_version = CURRENT_STATE_SCHEMA_VERSION,
      mb_entries = map (\<lambda>(k, v, t). \<lparr>me_key = k, me_value = v, me_access = t\<rparr>) (mem_entries m),
      mb_total = mem_total m\<rparr>"

definition require_longterm :: "memory \<Rightarrow> longterm res" where
  "require_longterm m = (case mem_longterm m of None \<Rightarrow> Err RuntimeError | Some lt \<Rightarrow> Ok lt)"

definition longterm_staged :: "memory \<Rightarrow> memory_record list" where
  "longterm_staged m = (case mem_longterm m of None \<Rightarrow> [] | Some lt \<Rightarrow> staged_upserts lt)"

section \<open>The ring codec\<close>

lemma length_to_be_prefix [simp]: "length (to_be RING_LEN_PREFIX n) = RING_LEN_PREFIX"
  by simp

lemma decode_encode_items: "encode_items items = Ok out \<Longrightarrow> decode_items out = Ok items"
proof (induction items arbitrary: out)
  case Nil
  then show ?case by (simp add: decode_items.simps)
next
  case (Cons item items)
  then obtain rest where len: "length item < 2 ^ 32" and rest: "encode_items items = Ok rest"
    and out: "out = to_be RING_LEN_PREFIX (int (length item)) @ item @ rest"
    by (auto split: if_splits)
  have "from_be (to_be RING_LEN_PREFIX (int (length item))) = int (length item)"
    using len by (intro from_to_be) (auto simp: RING_LEN_PREFIX_def)
  moreover have "length out \<noteq> 0" unfolding out by (simp add: RING_LEN_PREFIX_def)
  then have "out \<noteq> []" by blast
  ultimately show ?case
    using Cons.IH[OF rest] by (subst decode_items.simps) (simp add: out Let_def)
qed

lemma decode_encode_ring: "encode_ring items = Ok v \<Longrightarrow> decode_ring v = Ok items"
  by (auto simp: encode_ring_def decode_ring_def dest: decode_encode_items)

lemma encode_items_total: "\<forall>x \<in> set items. length x < 2 ^ 32 \<Longrightarrow> \<exists>out. encode_items items = Ok out"
  by (induction items) auto

lemma encode_items_parts: "\<lbrakk>encode_items items = Ok out; x \<in> set items\<rbrakk> \<Longrightarrow> length x < 2 ^ 32"
  by (induction items arbitrary: out) (auto split: if_splits)

lemma length_last_n: "length (last_n n xs) = min (nat n) (length xs)"
  by (simp add: last_n_def)

lemma set_last_n: "set (last_n n xs) \<subseteq> set xs"
  by (simp add: last_n_def set_drop_subset)

text \<open>A stored value is well tagged when it is a scalar or the encoding of a ring.\<close>

definition tagged :: "bytes \<Rightarrow> bool" where
  "tagged v \<longleftrightarrow> (\<exists>x. v = encode_scalar x) \<or> (\<exists>items. encode_ring items = Ok v)"

lemma tagged_not_Nil: "tagged v \<Longrightarrow> v \<noteq> []"
  by (auto simp: tagged_def encode_scalar_def encode_ring_def)

lemma tagged_ring: "\<lbrakk>tagged v; v = k # w; k = KIND_RING\<rbrakk> \<Longrightarrow> \<exists>items. encode_ring items = Ok v"
  by (auto simp: tagged_def encode_scalar_def KIND_SCALAR_def KIND_RING_def)

section \<open>The size account\<close>

definition entry_weight :: "string \<Rightarrow> bytes \<times> msec \<Rightarrow> int" where
  "entry_weight k e = int (length (fst e))"

lemma entry_weight_pair [simp]: "entry_weight k (v, t) = int (length v)"
  by (simp add: entry_weight_def)

definition values_ok :: "memory \<Rightarrow> bool" where
  "values_ok m \<longleftrightarrow> (\<forall>e \<in> set (mem_entries m). tagged (fst (snd e)))"

definition memory_ok :: "memory \<Rightarrow> bool" where
  "memory_ok m \<longleftrightarrow> distinct_keys (mem_entries m) \<and>
     mem_total m = weight entry_weight (mem_entries m) \<and> values_ok m"

definition within_cap :: "memory \<Rightarrow> bool" where
  "within_cap m \<longleftrightarrow> mem_total m \<le> HARD_CAP_BYTES"

lemma memory_total_nonneg: "memory_ok m \<Longrightarrow> 0 \<le> mem_total m"
  by (simp add: memory_ok_def entry_weight_def weight_nonneg)

lemma commit_entry_ok [inv_intros]: "\<lbrakk>memory_ok m; tagged v\<rbrakk> \<Longrightarrow> memory_ok (commit_entry key v m)"
  by (auto simp: memory_ok_def values_ok_def commit_entry_def prospective_total_def weight_refresh
      entry_weight_def set_refresh split: option.splits)

lemma memory_delete_ok [inv_intros]: "memory_ok m \<Longrightarrow> memory_ok (memory_delete key m)"
  by (auto simp: memory_ok_def values_ok_def memory_delete_def weight_delete entry_weight_def delete_keys
      distinct_removeAll set_delete split: option.splits)

lemma memory_delete_total_le: "mem_total (memory_delete key m) \<le> mem_total m"
  by (auto simp: memory_delete_def split: option.splits)

lemma touch_ok [inv_intros]: "memory_ok m \<Longrightarrow> memory_ok (touch key m)"
  by (auto simp: memory_ok_def values_ok_def touch_def weight_refresh entry_weight_def set_refresh
      dest: map_of_SomeD split: option.splits)

lemma touch_total [simp]: "mem_total (touch key m) = mem_total m"
  by (auto simp: touch_def split: option.splits)

lemma memory_flag_ok [simp]:
  "memory_ok (m\<lparr>mem_enforcing := b\<rparr>) = memory_ok m"
  "memory_ok (m\<lparr>mem_warned := b\<rparr>) = memory_ok m"
  "memory_ok (m\<lparr>mem_soft_cap_warnings := n\<rparr>) = memory_ok m"
  "memory_ok (m\<lparr>mem_longterm := l\<rparr>) = memory_ok m"
  by (simp_all add: memory_ok_def values_ok_def)

definition blob_ok :: "memory_blob \<Rightarrow> bool" where
  "blob_ok b \<longleftrightarrow> distinct (map me_key (mb_entries b)) \<and> (\<forall>e \<in> set (mb_entries b). tagged (me_value e))"

lemma load_entries_spec:
  "\<lbrakk>distinct (map me_key es); set (map me_key es) \<inter> set (map fst d) = {}\<rbrakk> \<Longrightarrow>
   load_entries es (d, t) =
     (d @ map (\<lambda>e. (me_key e, me_value e, me_access e)) es, t + (\<Sum>e\<leftarrow>es. int (length (me_value e))))"
proof (induction es arbitrary: d t)
  case (Cons e es)
  have "AList.update (me_key e) (me_value e, me_access e) d = d @ [(me_key e, me_value e, me_access e)]"
    using Cons.prems(2) by (intro update_absent) auto
  then show ?case using Cons by auto
qed simp

lemma memory_init_entries:
  "distinct (map me_key (mb_entries b)) \<Longrightarrow>
   mem_entries (memory_init (Some b) now lt) = map (\<lambda>e. (me_key e, me_value e, me_access e)) (mb_entries b)"
  using load_entries_spec[of "mb_entries b" "[]" 0] by (simp add: memory_init_def)

lemma memory_init_blob_ok:
  assumes "blob_ok b"
  shows "memory_ok (memory_init (Some b) now lt)"
proof -
  let ?es = "mb_entries b"
  have d: "distinct (map me_key ?es)" using assms by (simp add: blob_ok_def)
  have "(\<Sum>e\<leftarrow>?es. int (length (me_value e))) =
      weight entry_weight (map (\<lambda>e. (me_key e, me_value e, me_access e)) ?es)"
    by (simp add: weight_def comp_def)
  then show ?thesis
    using load_entries_spec[OF d, of "[]" 0] d assms
    by (simp add: memory_init_def memory_ok_def values_ok_def blob_ok_def comp_def)
qed

lemma memory_init_None_ok: "memory_ok (memory_init None now lt)"
  by (simp add: memory_init_def memory_ok_def values_ok_def)

lemma to_blob_ok:
  assumes ok: "memory_ok m"
  shows "blob_ok (memory_to_blob m)"
proof -
  have "map me_key (mb_entries (memory_to_blob m)) = map fst (mem_entries m)"
    by (auto simp: memory_to_blob_def)
  moreover have "\<forall>e \<in> set (mb_entries (memory_to_blob m)). tagged (me_value e)"
    using ok by (auto simp: memory_to_blob_def memory_ok_def values_ok_def)
  ultimately show ?thesis using ok by (simp add: blob_ok_def memory_ok_def)
qed

text \<open>Loading a committed blob gives back the entries in the same order.\<close>

lemma blob_round_trip:
  assumes "memory_ok m"
  shows "mem_entries (memory_init (Some (memory_to_blob m)) now lt) = mem_entries m"
    and "mem_total (memory_init (Some (memory_to_blob m)) now lt) = mem_total m"
proof -
  have b: "blob_ok (memory_to_blob m)" using assms by (rule to_blob_ok)
  show e: "mem_entries (memory_init (Some (memory_to_blob m)) now lt) = mem_entries m"
    using memory_init_entries[of "memory_to_blob m"] b
    by (auto simp: blob_ok_def memory_to_blob_def comp_def split_def intro: map_idI)
  show "mem_total (memory_init (Some (memory_to_blob m)) now lt) = mem_total m"
    using memory_init_blob_ok[OF b, of now lt] assms e by (simp add: memory_ok_def)
qed

section \<open>Reads and the recency order\<close>

lemma memory_get_ok: "\<lbrakk>memory_ok m; memory_get key m = (r, m')\<rbrakk> \<Longrightarrow> memory_ok m' \<and> mem_total m' = mem_total m"
  by (auto simp: memory_get_def intro: touch_ok split: option.splits list.splits if_splits)

lemma memory_ring_ok: "\<lbrakk>memory_ok m; memory_ring key m = (r, m')\<rbrakk> \<Longrightarrow> memory_ok m' \<and> mem_total m' = mem_total m"
  by (auto simp: memory_ring_def intro: touch_ok split: option.splits list.splits if_splits sum.splits)

lemma memory_get_Some: "memory_get key m = (Ok (Some v), m') \<Longrightarrow>
   m' = touch key m \<and> map_option fst (map_of (mem_entries m) key) = Some (encode_scalar v)"
  by (auto simp: memory_get_def encode_scalar_def split: option.splits list.splits if_splits)

text \<open>Well-tagged values never make a read fail except on the wrong kind.\<close>

lemma memory_read_errors:
  assumes "memory_ok m"
  shows "fst (memory_get key m) = Err e \<Longrightarrow> e = TypeError"
    and "fst (memory_ring key m) = Err e \<Longrightarrow> e = TypeError"
proof -
  have t: "tagged v" if "map_of (mem_entries m) key = Some (v, t)" for v t
    using assms map_of_SomeD[OF that] by (auto simp: memory_ok_def values_ok_def)
  show "fst (memory_get key m) = Err e \<Longrightarrow> e = TypeError"
    using t tagged_not_Nil by (auto simp: memory_get_def split: option.splits list.splits if_splits)
  show "fst (memory_ring key m) = Err e \<Longrightarrow> e = TypeError"
    using t tagged_not_Nil tagged_ring decode_encode_ring
    by (fastforce simp: memory_ring_def split: option.splits list.splits if_splits sum.splits)
qed

lemma mem_keys_touch:
  "key \<in> set (mem_keys m) \<Longrightarrow> mem_keys (touch key m) = removeAll key (mem_keys m) @ [key]"
  by (auto simp: mem_keys_def touch_def refresh_def delete_keys map_of_eq_None_iff split: option.splits)

lemma mem_keys_commit: "mem_keys (commit_entry key v m) = removeAll key (mem_keys m) @ [key]"
  by (simp add: mem_keys_def commit_entry_def refresh_def delete_keys)

lemma mem_keys_delete: "mem_keys (memory_delete key m) = removeAll key (mem_keys m)"
  by (auto simp: mem_keys_def memory_delete_def delete_keys map_of_eq_None_iff
      intro: removeAll_id[symmetric] split: option.splits)

section \<open>The contract of an evicting compactor\<close>

text \<open>
  What the facade needs of a compactor: it keeps the size account, leaves the scope and the
  flags alone, and only removes entries. The caps and the read-back laws of the writes follow.
\<close>

definition frame_of :: "memory \<Rightarrow> msec \<times> longterm option \<times> bool \<times> int" where
  "frame_of m = (mem_now m, mem_longterm m, mem_warned m, mem_soft_cap_warnings m)"

lemma frame_simps [simp]:
  "frame_of (m\<lparr>mem_enforcing := b\<rparr>) = frame_of m"
  "frame_of (commit_entry key v m) = frame_of m"
  "frame_of (touch key m) = frame_of m"
  "frame_of (memory_delete key m) = frame_of m"
  by (simp_all add: frame_of_def commit_entry_def touch_def memory_delete_def split: option.splits)

definition shrinks :: "memory \<Rightarrow> memory \<Rightarrow> bool" where
  "shrinks m m' \<longleftrightarrow> mem_total m' \<le> mem_total m \<and> frame_of m' = frame_of m \<and>
     (\<forall>k e. map_of (mem_entries m') k = Some e \<longrightarrow> map_of (mem_entries m) k = Some e)"

lemma shrinks_refl [simp]: "shrinks m m"
  by (simp add: shrinks_def)

lemma shrinks_trans [trans]: "\<lbrakk>shrinks a b; shrinks b c\<rbrakk> \<Longrightarrow> shrinks a c"
  by (auto simp: shrinks_def)

lemma shrinks_delete: "shrinks m (memory_delete key m)"
  using memory_delete_total_le[of key m]
  by (auto simp: shrinks_def memory_delete_def frame_of_def delete_conv' split: option.splits if_splits)

locale evicting_compactor =
  fixes compact :: compactor
  assumes compact_ok: "\<lbrakk>memory_ok m; compact m = (r, m')\<rbrakk> \<Longrightarrow> memory_ok m'"
    and compact_shrinks: "compact m = (r, m') \<Longrightarrow> shrinks m m'"
begin

lemma run_ok:
  assumes "memory_ok m" and "run_compactor compact m = (r, m')"
  shows "memory_ok m'" and "shrinks m m'" and "mem_enforcing m'"
proof -
  obtain m1 where c: "compact (m\<lparr>mem_enforcing := False\<rparr>) = (r, m1)" "m' = m1\<lparr>mem_enforcing := True\<rparr>"
    using assms(2) by (auto simp: run_compactor_def Let_def split: prod.splits)
  show "memory_ok m'" using compact_ok[OF _ c(1)] assms(1) c(2) by simp
  show "mem_enforcing m'" using c(2) by simp
  show "shrinks m m'" using compact_shrinks[OF c(1)] c(2) by (simp add: shrinks_def frame_of_def)
qed

lemma soft_cap_ok:
  assumes "memory_ok m" and "maybe_soft_cap (Some compact) m = (r, m')"
  shows "memory_ok m'" and "mem_total m' \<le> mem_total m"
    and "map_of (mem_entries m') k = Some e \<Longrightarrow> map_of (mem_entries m) k = Some e"
proof -
  let ?m1 = "m\<lparr>mem_warned := True, mem_soft_cap_warnings := mem_soft_cap_warnings m + 1\<rparr>"
  have "m' = m \<or> run_compactor compact ?m1 = (r, m')"
    using assms(2) by (auto simp: maybe_soft_cap_def Let_def split: if_splits)
  then have "memory_ok m' \<and> mem_total m' \<le> mem_total m \<and>
      (\<forall>k e. map_of (mem_entries m') k = Some e \<longrightarrow> map_of (mem_entries m) k = Some e)"
    using run_ok[of ?m1 r m'] assms(1) by (auto simp: shrinks_def memory_ok_def values_ok_def)
  then show "memory_ok m'" "mem_total m' \<le> mem_total m"
    "map_of (mem_entries m') k = Some e \<Longrightarrow> map_of (mem_entries m) k = Some e" by blast+
qed

lemma commit_and_warn_ok:
  assumes "memory_ok m" and "tagged v" and "commit_and_warn (Some compact) key v m = (r, m')"
  shows "memory_ok m'" and "mem_total m' \<le> prospective_total m key v"
    and "map_of (mem_entries m') key = Some e \<Longrightarrow> e = (v, mem_now m)"
proof -
  let ?c = "commit_entry key v m"
  have c: "memory_ok ?c" "mem_total ?c = prospective_total m key v"
      "map_of (mem_entries ?c) key = Some (v, mem_now m)"
    using assms(1,2) commit_entry_ok by (auto simp: commit_entry_def)
  consider "m' = ?c" | "maybe_soft_cap (Some compact) ?c = (r, m')"
    using assms(3) by (auto simp: commit_and_warn_def Let_def split: if_splits)
  then have "memory_ok m' \<and> mem_total m' \<le> prospective_total m key v \<and>
      (map_of (mem_entries m') key = Some e \<longrightarrow> e = (v, mem_now m))"
  proof cases
    case 1
    then show ?thesis using c by simp
  next
    case 2
    show ?thesis using soft_cap_ok(1,2)[OF c(1) 2] soft_cap_ok(3)[OF c(1) 2, of key e] c(2,3) by auto
  qed
  then show "memory_ok m'" "mem_total m' \<le> prospective_total m key v"
      "map_of (mem_entries m') key = Some e \<Longrightarrow> e = (v, mem_now m)" by blast+
qed

lemma guarded_write_cases:
  assumes "guarded_write (Some compact) key compute m = (r, m')"
  shows "(\<exists>e. r = Err e \<and> m' = m \<and> compute m = Err e) \<or>
    (\<exists>v. compute m = Ok v \<and> commit_and_warn (Some compact) key v m = (r, m') \<and>
         \<not> (mem_enforcing m \<and> prospective_total m key v > HARD_CAP_BYTES)) \<or>
    (\<exists>r1 m1. run_compactor compact m = (r1, m1) \<and> mem_enforcing m \<and>
       ((\<exists>e. r = Err e \<and> m' = m1) \<or>
        (\<exists>v. compute m1 = Ok v \<and> commit_and_warn (Some compact) key v m1 = (r, m') \<and>
             prospective_total m1 key v \<le> HARD_CAP_BYTES)))"
  using assms
  by (fastforce simp: guarded_write_def check_and_commit_def Let_def
      split: sum.splits if_splits prod.splits)

lemma guarded_write_ok:
  assumes "memory_ok m" and tag: "\<forall>n v. compute n = Ok v \<longrightarrow> tagged v"
    and "guarded_write (Some compact) key compute m = (r, m')"
  shows "memory_ok m'"
    and "mem_enforcing m \<Longrightarrow> within_cap m \<Longrightarrow> within_cap m'"
    and "r = Ok () \<Longrightarrow> map_of (mem_entries m') key = Some e \<Longrightarrow>
      snd e = mem_now m \<and> (compute m = Ok (fst e) \<or> (\<exists>m1. shrinks m m1 \<and> compute m1 = Ok (fst e)))"
proof -
  have "memory_ok m' \<and> (mem_enforcing m \<longrightarrow> within_cap m \<longrightarrow> within_cap m') \<and>
    (r = Ok () \<longrightarrow> map_of (mem_entries m') key = Some e \<longrightarrow>
      snd e = mem_now m \<and> (compute m = Ok (fst e) \<or> (\<exists>m1. shrinks m m1 \<and> compute m1 = Ok (fst e))))"
    using guarded_write_cases[OF assms(3)]
  proof (elim disjE exE conjE)
    fix x assume "r = Err x" "m' = m"
    then show ?thesis using assms(1) by simp
  next
    fix v assume v: "compute m = Ok v" "commit_and_warn (Some compact) key v m = (r, m')"
      "\<not> (mem_enforcing m \<and> prospective_total m key v > HARD_CAP_BYTES)"
    note c = commit_and_warn_ok[OF assms(1) tag[rule_format, OF v(1)] v(2)]
    show ?thesis using c(1,2) c(3)[of e] v by (auto simp: within_cap_def)
  next
    fix r1 m1 x assume m1: "run_compactor compact m = (r1, m1)" and "r = Err x" "m' = m1"
    then show ?thesis using run_ok[OF assms(1) m1] by (auto simp: within_cap_def shrinks_def)
  next
    fix r1 m1 v assume m1: "run_compactor compact m = (r1, m1)" and v: "compute m1 = Ok v"
      "commit_and_warn (Some compact) key v m1 = (r, m')" "prospective_total m1 key v \<le> HARD_CAP_BYTES"
    note run = run_ok[OF assms(1) m1]
    have now: "mem_now m1 = mem_now m" using run(2) by (simp add: shrinks_def frame_of_def)
    note c = commit_and_warn_ok[OF run(1) tag[rule_format, OF v(1)] v(2)]
    show ?thesis using c(1,2) c(3)[of e] v run(2) now by (auto simp: within_cap_def)
  qed
  then show "memory_ok m'" "mem_enforcing m \<Longrightarrow> within_cap m \<Longrightarrow> within_cap m'"
    "r = Ok () \<Longrightarrow> map_of (mem_entries m') key = Some e \<Longrightarrow>
      snd e = mem_now m \<and> (compute m = Ok (fst e) \<or> (\<exists>m1. shrinks m m1 \<and> compute m1 = Ok (fst e)))"
    by auto
qed

lemma set_ok:
  assumes "memory_ok m" and "memory_set (Some compact) key v m = (r, m')"
  shows "memory_ok m'" and "mem_enforcing m \<Longrightarrow> within_cap m \<Longrightarrow> within_cap m'"
    and "r = Ok () \<Longrightarrow> map_of (mem_entries m') key \<in> {None, Some (encode_scalar v, mem_now m)}"
proof -
  have t: "\<forall>n x. (\<lambda>_. Ok (encode_scalar v)) (n :: memory) = (Ok x :: bytes res) \<longrightarrow> tagged x"
    by (auto simp: tagged_def)
  note g = guarded_write_ok[OF assms(1) t assms(2)[unfolded memory_set_def]]
  show "memory_ok m'" by (fact g(1))
  show "mem_enforcing m \<Longrightarrow> within_cap m \<Longrightarrow> within_cap m'" by (fact g(2))
  show "r = Ok () \<Longrightarrow> map_of (mem_entries m') key \<in> {None, Some (encode_scalar v, mem_now m)}"
    using g(3) by (cases "map_of (mem_entries m') key") (auto simp: prod_eq_iff)
qed

lemma append_ok:
  assumes "memory_ok m" and "memory_append (Some compact) key item n m = (r, m')"
  shows "memory_ok m'" and "mem_enforcing m \<Longrightarrow> within_cap m \<Longrightarrow> within_cap m'"
    and "r = Ok () \<Longrightarrow> map_of (mem_entries m') key = Some e \<Longrightarrow>
      \<exists>items. decode_ring (fst e) = Ok items \<and> int (length items) \<le> max 0 n \<and>
              (0 < n \<longrightarrow> items \<noteq> [] \<and> last items = item)"
proof -
  have t: "\<forall>k x. append_compute key item n k = Ok x \<longrightarrow> tagged x"
    by (auto simp: append_compute_def tagged_def)
  have "m' = m \<and> (\<exists>x. r = Err x) \<or> guarded_write (Some compact) key (append_compute key item n) m = (r, m')"
    using assms(2) by (auto simp: memory_append_def split: option.splits prod.splits list.splits if_splits)
  moreover have items: "\<exists>items. decode_ring x = Ok items \<and> int (length items) \<le> max 0 n \<and>
        (0 < n \<longrightarrow> items \<noteq> [] \<and> last items = item)" if x: "append_compute key item n k = Ok x" for k x
  proof -
    obtain its where its: "encode_ring (if n > 0 then last_n n (its @ [item]) else []) = Ok x"
      using x by (auto simp: append_compute_def)
    have "n > 0 \<Longrightarrow> last_n n (its @ [item]) \<noteq> [] \<and> last (last_n n (its @ [item])) = item"
      by (auto simp: last_n_def last_drop)
    then show ?thesis
      using decode_encode_ring[OF its] length_last_n[of n "its @ [item]"] by (auto split: if_splits)
  qed
  ultimately have "memory_ok m' \<and> (mem_enforcing m \<longrightarrow> within_cap m \<longrightarrow> within_cap m') \<and>
    (r = Ok () \<longrightarrow> map_of (mem_entries m') key = Some e \<longrightarrow>
      (\<exists>items. decode_ring (fst e) = Ok items \<and> int (length items) \<le> max 0 n \<and>
              (0 < n \<longrightarrow> items \<noteq> [] \<and> last items = item)))"
  proof (elim disjE exE conjE)
    fix x assume "m' = m" "r = Err x"
    then show ?thesis using assms(1) by simp
  next
    assume g: "guarded_write (Some compact) key (append_compute key item n) m = (r, m')"
    note ok = guarded_write_ok(1,2)[OF assms(1) t g]
    show ?thesis
    proof (intro conjI impI)
      assume "r = Ok ()" "map_of (mem_entries m') key = Some e"
      then obtain k where "append_compute key item n k = Ok (fst e)"
        using guarded_write_ok(3)[OF assms(1) t g] by blast
      then show "\<exists>items. decode_ring (fst e) = Ok items \<and> int (length items) \<le> max 0 n \<and>
              (0 < n \<longrightarrow> items \<noteq> [] \<and> last items = item)" by (rule items)
    qed (use ok in auto)
  qed
  then show "memory_ok m'" "mem_enforcing m \<Longrightarrow> within_cap m \<Longrightarrow> within_cap m'"
    "r = Ok () \<Longrightarrow> map_of (mem_entries m') key = Some e \<Longrightarrow>
      \<exists>items. decode_ring (fst e) = Ok items \<and> int (length items) \<le> max 0 n \<and>
              (0 < n \<longrightarrow> items \<noteq> [] \<and> last items = item)"
    by blast+
qed

end

section \<open>The writes for any configured compactor\<close>

lemma guarded_write_None_ok:
  assumes "memory_ok m" and tag: "\<forall>n v. compute n = Ok v \<longrightarrow> tagged v"
    and "guarded_write None key compute m = (r, m')"
  shows "memory_ok m' \<and> (mem_enforcing m \<longrightarrow> within_cap m \<longrightarrow> within_cap m')"
proof -
  have caw: "memory_ok n' \<and> mem_total n' = prospective_total n key v"
    if "memory_ok n" "tagged v" "commit_and_warn None key v n = (q, n')" for n v q n'
  proof -
    have "memory_ok (commit_entry key v n)" using that(1,2) by (rule commit_entry_ok)
    moreover have "mem_total (commit_entry key v n) = prospective_total n key v"
      by (simp add: commit_entry_def)
    ultimately show ?thesis
      using that(3)
      by (auto simp: commit_and_warn_def maybe_soft_cap_def Let_def memory_ok_def values_ok_def split: if_splits)
  qed
  show ?thesis
  proof (cases "compute m")
    case (Inl e)
    then show ?thesis using assms by (simp add: guarded_write_def)
  next
    case (Inr v)
    then have "tagged v" using tag by blast
    with Inr show ?thesis
      using assms(1,3) caw[OF assms(1) \<open>tagged v\<close>]
      by (auto simp: guarded_write_def check_and_commit_def Let_def within_cap_def split: if_splits)
  qed
qed

text \<open>A configured compactor is good when it keeps the contract; having none is good too.\<close>

definition compactor_good :: "compactor option \<Rightarrow> bool" where
  "compactor_good co \<longleftrightarrow> (\<forall>compact. co = Some compact \<longrightarrow> evicting_compactor compact)"

lemma guarded_write_good:
  assumes "compactor_good co" and "memory_ok m" and "\<forall>n v. compute n = Ok v \<longrightarrow> tagged v"
    and "guarded_write co key compute m = (r, m')"
  shows "memory_ok m' \<and> (mem_enforcing m \<longrightarrow> within_cap m \<longrightarrow> within_cap m')"
proof (cases co)
  case None
  then show ?thesis using guarded_write_None_ok assms(2-) by blast
next
  case (Some compact)
  then have "evicting_compactor compact" using assms(1) by (simp add: compactor_good_def)
  then show ?thesis
    using evicting_compactor.guarded_write_ok(1,2) assms(2-) Some by blast
qed

lemma memory_set_good:
  assumes "compactor_good co" and "memory_ok m" and "memory_set co key v m = (r, m')"
  shows "memory_ok m' \<and> (mem_enforcing m \<longrightarrow> within_cap m \<longrightarrow> within_cap m')"
  using guarded_write_good[OF assms(1,2) _ assms(3)[unfolded memory_set_def]] by (auto simp: tagged_def)

lemma memory_append_good:
  assumes "compactor_good co" and "memory_ok m" and "memory_append co key item n m = (r, m')"
  shows "memory_ok m' \<and> (mem_enforcing m \<longrightarrow> within_cap m \<longrightarrow> within_cap m')"
proof -
  have t: "\<forall>k x. append_compute key item n k = Ok x \<longrightarrow> tagged x"
    by (auto simp: append_compute_def tagged_def)
  have "m' = m \<or> guarded_write co key (append_compute key item n) m = (r, m')"
    using assms(3) by (auto simp: memory_append_def split: option.splits prod.splits list.splits if_splits)
  then show ?thesis using guarded_write_good[OF assms(1,2) t] assms(2) by blast
qed

text \<open>Caps are enforced between operations: only a running compactor suspends them.\<close>

lemma enforcing_kept:
  "\<lbrakk>mem_enforcing m; memory_set co key v m = (r, m')\<rbrakk> \<Longrightarrow> mem_enforcing m'"
  "\<lbrakk>mem_enforcing m; memory_append co key item n m = (r, m')\<rbrakk> \<Longrightarrow> mem_enforcing m'"
proof -
  have caw: "\<lbrakk>commit_and_warn co key x n = (q, n'); mem_enforcing n\<rbrakk> \<Longrightarrow> mem_enforcing n'" for co n x q n'
    by (auto simp: commit_and_warn_def maybe_soft_cap_def run_compactor_def commit_entry_def Let_def
        split: if_splits option.splits prod.splits)
  have gw: "\<lbrakk>mem_enforcing m; guarded_write co key compute m = (r, m')\<rbrakk> \<Longrightarrow> mem_enforcing m'" for compute
    by (auto simp: guarded_write_def check_and_commit_def run_compactor_def Let_def
        split: sum.splits if_splits prod.splits option.splits dest!: caw)
  show "\<lbrakk>mem_enforcing m; memory_set co key v m = (r, m')\<rbrakk> \<Longrightarrow> mem_enforcing m'"
    using gw by (simp add: memory_set_def)
  show "\<lbrakk>mem_enforcing m; memory_append co key item n m = (r, m')\<rbrakk> \<Longrightarrow> mem_enforcing m'"
    using gw by (auto simp: memory_append_def split: option.splits prod.splits list.splits if_splits)
qed

section \<open>Properties\<close>

text \<open>
  A memory that is committed and loaded again by the next activation has the same entries in
  the same recency order and the same size account.
\<close>

theorem memory_round_trip:
  assumes "memory_ok m"
  shows "mem_entries (memory_init (Some (memory_to_blob m)) now lt) = mem_entries m \<and>
    mem_total (memory_init (Some (memory_to_blob m)) now lt) = mem_total m"
  using blob_round_trip[OF assms] by simp

theorem memory_round_trip_witness:
  "mem_entries (memory_init (Some (memory_to_blob (commit_entry ''k'' (encode_scalar [1]) (memory_init None 7 None)))) 9 None) =
     [(''k'', encode_scalar [1], 7)]"
proof -
  have "memory_ok (commit_entry ''k'' (encode_scalar [1]) (memory_init None 7 None))"
    by (rule commit_entry_ok[OF memory_init_None_ok]) (auto simp: tagged_def)
  from memory_round_trip[OF this] show ?thesis
    by (simp add: commit_entry_def memory_init_def refresh_def)
qed

text \<open>
  The ring codec is lossless: any list of items below 4 GiB each encodes, and decodes to itself.
\<close>

theorem ring_codec_round_trip:
  assumes "\<forall>x \<in> set items. length x < 2 ^ 32"
  shows "\<exists>v. encode_ring items = Ok v \<and> decode_ring v = Ok items"
  using encode_items_total[OF assms] decode_encode_ring by (auto simp: encode_ring_def)

theorem ring_codec_round_trip_witness: "\<exists>v. encode_ring [[1, 2], [], [3]] = Ok v \<and> decode_ring v = Ok [[1, 2], [], [3]]"
  by (rule ring_codec_round_trip) simp

end
