(* ===== verification/Compaction.thy ===== *)
theory Compaction
  imports Memory_Facade
begin

text \<open>
  Compaction (\<open>memory/compaction.py\<close>): the default in-write compactor, the validated configuration
  of the in-activation summarizer (whose pass over memory is modelled with the activation
  context), and the shipped expiry hook.
\<close>

section \<open>The default compactor\<close>

definition DEFAULT_TARGET_BYTES :: int where "DEFAULT_TARGET_BYTES = HARD_CAP_BYTES div 2"
definition DEFAULT_PROTECTED_PREFIXES :: "string list" where
  "DEFAULT_PROTECTED_PREFIXES = [''__langgraph__/'']"
definition DEFAULT_SUMMARY_KEY :: string where "DEFAULT_SUMMARY_KEY = ''summary''"
definition DEFAULT_KEEP_RECENT :: int where "DEFAULT_KEEP_RECENT = 8"
definition DEFAULT_TRIGGER_BYTES :: int where "DEFAULT_TRIGGER_BYTES = SOFT_CAP_BYTES"
definition DEFAULT_EXPIRY_KEY :: string where "DEFAULT_EXPIRY_KEY = ''working_memory''"

record drop_oldest =
  do_target :: int
  do_protected :: "string list"

definition drop_oldest_init :: "int \<Rightarrow> string list \<Rightarrow> drop_oldest res" where
  "drop_oldest_init target_bytes protected_prefixes =
     (if target_bytes \<le> 0 then Err ValueError
      else Ok \<lparr>do_target = target_bytes, do_protected = protected_prefixes\<rparr>)"

definition default_compactor :: drop_oldest where
  "default_compactor = \<lparr>do_target = DEFAULT_TARGET_BYTES, do_protected = DEFAULT_PROTECTED_PREFIXES\<rparr>"

definition is_protected :: "drop_oldest \<Rightarrow> string \<Rightarrow> bool" where
  "is_protected c key \<longleftrightarrow> list_ex (\<lambda>pre. prefix pre key) (do_protected c)"

text \<open>The loop over the snapshot of \<open>keys()\<close>.\<close>

fun drop_loop :: "drop_oldest \<Rightarrow> string list \<Rightarrow> memory \<Rightarrow> memory" where
  "drop_loop c [] m = m"
| "drop_loop c (key # ks) m =
     (if size_bytes m \<le> do_target c then m
      else if is_protected c key then drop_loop c ks m
      else drop_loop c ks (memory_delete key m))"

definition drop_oldest_compact :: "drop_oldest \<Rightarrow> compactor" where
  "drop_oldest_compact c m = (Ok (), drop_loop c (mem_keys m) m)"

section \<open>The summarizer's configuration and the expiry hook\<close>

record 'req summarizer =
  su_build :: "bytes list \<Rightarrow> bytes option \<Rightarrow> 'req res"
  su_extract :: "bytes \<Rightarrow> bytes res"
  su_source_keys :: "string list"
  su_summary_key :: string
  su_keep_recent :: int
  su_trigger :: int

definition summarizer_validate :: "'req summarizer \<Rightarrow> unit res" where
  "summarizer_validate s =
     (if su_source_keys s = [] then Err ValueError
      else if su_summary_key s = [] then Err ValueError
      else if su_summary_key s \<in> set (su_source_keys s) then Err ValueError
      else if su_keep_recent s < 0 then Err ValueError
      else if su_trigger s \<le> 0 then Err ValueError
      else Ok ())"

record expiring_memory =
  xm_entity :: bytes
  xm_seq :: int
  xm_blob :: memory_blob
  xm_expired :: msec

definition flush_to_longterm ::
  "(memory_blob \<Rightarrow> bytes) \<Rightarrow> string \<Rightarrow> 's backend \<Rightarrow> 's \<Rightarrow> expiring_memory \<Rightarrow> (bool \<times> 's) res" where
  "flush_to_longterm serialize key bk s expiry =
     store_save bk s
       \<lparr>mr_entity = xm_entity expiry, mr_key = key, mr_value = serialize (xm_blob expiry),
        mr_seq = xm_seq expiry, mr_updated = xm_expired expiry\<rparr>"

section \<open>The default compactor keeps the contract\<close>

lemma drop_loop_ok: "memory_ok m \<Longrightarrow> memory_ok (drop_loop c ks m)"
  by (induction c ks m rule: drop_loop.induct) (auto intro: memory_delete_ok)

lemma drop_loop_shrinks: "shrinks m (drop_loop c ks m)"
proof (induction c ks m rule: drop_loop.induct)
  case (2 c key ks m)
  then show ?case by (auto intro: shrinks_trans[OF shrinks_delete])
qed simp

interpretation drop: evicting_compactor "drop_oldest_compact c" for c
  by unfold_locales (auto simp: drop_oldest_compact_def drop_loop_ok drop_loop_shrinks)

lemma drop_oldest_good: "compactor_good (Some (drop_oldest_compact c))"
  using drop.evicting_compactor_axioms by (simp add: compactor_good_def)

text \<open>What survives is exactly the snapshot without an initial segment of its unprotected keys.\<close>

lemma keys_distinct: "memory_ok m \<Longrightarrow> distinct (mem_keys m)"
  by (simp add: memory_ok_def mem_keys_def)

lemma drop_loop_keys:
  assumes "distinct ks" and "set ks \<subseteq> set (mem_keys m)" and "distinct (mem_keys m)"
  shows "\<exists>n. mem_keys (drop_loop c ks m) =
    filter (\<lambda>k. k \<notin> set (take n (filter (\<lambda>k. \<not> is_protected c k) ks))) (mem_keys m) \<and>
    (size_bytes (drop_loop c ks m) \<le> do_target c \<or> n = length (filter (\<lambda>k. \<not> is_protected c k) ks))"
  using assms
proof (induction c ks m rule: drop_loop.induct)
  case (1 c m)
  then show ?case by (intro exI[of _ 0]) auto
next
  case (2 c key ks m)
  show ?case
  proof (cases "size_bytes m \<le> do_target c")
    case True
    then show ?thesis by (intro exI[of _ 0]) auto
  next
    case big: False
    show ?thesis
    proof (cases "is_protected c key")
      case True
      then show ?thesis using 2(1)[OF big True] "2.prems" big by simp
    next
      case False
      let ?m = "memory_delete key m"
      have del: "mem_keys ?m = removeAll key (mem_keys m)" by (rule mem_keys_delete)
      have "set ks \<subseteq> set (mem_keys ?m)" "distinct (mem_keys ?m)" "distinct ks"
        using "2.prems" del by (auto simp: distinct_removeAll)
      then obtain n where n: "mem_keys (drop_loop c ks ?m) =
          filter (\<lambda>k. k \<notin> set (take n (filter (\<lambda>k. \<not> is_protected c k) ks))) (mem_keys ?m)"
        "size_bytes (drop_loop c ks ?m) \<le> do_target c \<or> n = length (filter (\<lambda>k. \<not> is_protected c k) ks)"
        using 2(2)[OF big False] by blast
      show ?thesis
        using n big False del
        by (intro exI[of _ "Suc n"]) (auto simp: removeAll_filter_not_eq intro!: filter_cong)
    qed
  qed
qed

lemma drop_protected_kept:
  "\<lbrakk>memory_ok m; is_protected c k; map_of (mem_entries m) k = Some e\<rbrakk>
   \<Longrightarrow> map_of (mem_entries (drop_loop c ks m)) k = Some e"
proof (induction c ks m rule: drop_loop.induct)
  case (2 c key ks m)
  have "key \<noteq> k \<Longrightarrow> map_of (mem_entries (memory_delete key m)) k = Some e"
    using "2.prems"(3) by (simp add: memory_delete_def split: option.splits)
  then show ?case using 2 by (auto simp: memory_delete_ok)
qed simp

text \<open>The loop stops as soon as the target is met: one eviction fewer would not have met it.\<close>

lemma drop_minimal:
  "drop_loop c ks m \<noteq> m \<Longrightarrow>
   \<exists>m1 key. m1 = drop_loop c [] m1 \<and> drop_loop c ks m = memory_delete key m1 \<and> do_target c < size_bytes m1"
proof (induction c ks m rule: drop_loop.induct)
  case (2 c key ks m)
  then show ?case
    by (cases "drop_loop c ks (memory_delete key m) = memory_delete key m")
      (auto split: if_splits)
qed simp

text \<open>
  An entry larger than the target that is the most recently used unprotected one does not
  survive a compaction that starts above the target.
\<close>

lemma drop_large_last:
  assumes "memory_ok m" and "\<not> is_protected c k" and "map_of (mem_entries m) k = Some (v, t)"
    and "do_target c < int (length v)"
  shows "map_of (mem_entries (drop_loop c (mem_keys m) m)) k = None"
proof (rule ccontr)
  let ?m = "drop_loop c (mem_keys m) m"
  assume "map_of (mem_entries ?m) k \<noteq> None"
  moreover have "shrinks m ?m" by (rule drop_loop_shrinks)
  ultimately have kept: "map_of (mem_entries ?m) k = Some (v, t)"
    using assms(3) by (auto simp: shrinks_def)
  then have ink: "k \<in> set (mem_keys ?m)"
    by (metis mem_keys_def map_of_eq_None_iff option.distinct(1) set_map)
  have ok: "memory_ok ?m" using assms(1) by (rule drop_loop_ok)
  have "0 \<le> weight entry_weight (AList.delete k (mem_entries ?m))"
    by (rule weight_nonneg) (simp add: entry_weight_def)
  then have "int (length v) \<le> size_bytes ?m"
    using ok kept by (simp add: memory_ok_def weight_delete size_bytes_def)
  then have "do_target c < size_bytes ?m" using assms(4) by simp
  moreover have "k \<in> set (mem_keys m)"
    using assms(3) by (metis mem_keys_def map_of_eq_None_iff option.distinct(1) set_map)
  ultimately show False
    using drop_loop_keys[OF keys_distinct[OF assms(1)] subset_refl keys_distinct[OF assms(1)], of c]
      ink assms(2) by auto
qed

section \<open>Properties\<close>



text \<open>
  A ring append that succeeds and survives compaction leaves at most \<open>max_items\<close> items, the
  appended one last.
\<close>

theorem memory_append_ring:
  assumes "memory_ok m" and "memory_append (Some (drop_oldest_compact c)) key item n m = (Ok (), m')"
    and "map_of (mem_entries m') key = Some e"
  shows "\<exists>items. decode_ring (fst e) = Ok items \<and> int (length items) \<le> max 0 n \<and>
    (0 < n \<longrightarrow> items \<noteq> [] \<and> last items = item)"
  using drop.append_ok(3)[OF assms(1,2) _ assms(3)] by simp

theorem memory_append_ring_witness:
  "\<exists>m' e. memory_append (Some (drop_oldest_compact default_compactor)) ''r'' [4] 3 (memory_init None 7 None) = (Ok (), m') \<and>
     map_of (mem_entries m') ''r'' = Some e \<and> (\<exists>items. decode_ring (fst e) = Ok items \<and> last items = [4])"
proof -
  obtain m' e where a: "memory_append (Some (drop_oldest_compact default_compactor)) ''r'' [4] 3 (memory_init None 7 None) = (Ok (), m')"
    "map_of (mem_entries m') ''r'' = Some e"
    by (simp add: memory_append_def memory_init_def guarded_write_def append_compute_def encode_ring_def last_n_def
        prospective_total_def HARD_CAP_BYTES_def commit_and_warn_def commit_entry_def maybe_soft_cap_def SOFT_CAP_BYTES_def
        RING_LEN_PREFIX_def refresh_def Let_def)
  from memory_append_ring[OF memory_init_None_ok a] obtain items where "decode_ring (fst e) = Ok items" "last items = [4]"
    by auto
  with a show ?thesis by blast
qed

text \<open>
  The default compactor removes exactly an initial run, in recency order, of the unprotected
  keys, stops as soon as the target is reached (or when only protected keys are left), and
  leaves protected entries and all surviving entries as they were.
\<close>

theorem drop_oldest_spec:
  assumes "memory_ok m" and "drop_oldest_compact c m = (r, m')"
  shows "r = Ok () \<and> memory_ok m' \<and>
    (\<exists>n. mem_keys m' = filter (\<lambda>k. k \<notin> set (take n (filter (\<lambda>k. \<not> is_protected c k) (mem_keys m)))) (mem_keys m) \<and>
       (size_bytes m' \<le> do_target c \<or> n = length (filter (\<lambda>k. \<not> is_protected c k) (mem_keys m)))) \<and>
    (\<forall>k e. map_of (mem_entries m') k = Some e \<longrightarrow> map_of (mem_entries m) k = Some e) \<and>
    (\<forall>k e. is_protected c k \<longrightarrow> map_of (mem_entries m) k = Some e \<longrightarrow> map_of (mem_entries m') k = Some e)"
proof -
  have m': "r = Ok ()" "m' = drop_loop c (mem_keys m) m" using assms(2) by (auto simp: drop_oldest_compact_def)
  have sh: "\<forall>k e. map_of (mem_entries m') k = Some e \<longrightarrow> map_of (mem_entries m) k = Some e"
    using drop_loop_shrinks[of m c "mem_keys m"] m' by (simp add: shrinks_def)
  note keys = drop_loop_keys[OF keys_distinct[OF assms(1)] subset_refl keys_distinct[OF assms(1)], of c, folded m'(2)]
  have kept: "\<forall>k e. is_protected c k \<longrightarrow> map_of (mem_entries m) k = Some e \<longrightarrow> map_of (mem_entries m') k = Some e"
    using drop_protected_kept[OF assms(1)] m'(2) by blast
  have ok: "memory_ok m'" using drop_loop_ok[OF assms(1)] m'(2) by blast
  show ?thesis using m'(1) ok keys sh kept by (intro conjI)
qed

theorem drop_oldest_spec_witness:
  "mem_keys (snd (drop_oldest_compact default_compactor (memory_init None 7 None))) = []"
proof -
  obtain r m' where r: "drop_oldest_compact default_compactor (memory_init None 7 None) = (r, m')" by fastforce
  have "mem_keys (memory_init None 7 None) = []" by (simp add: mem_keys_def memory_init_def)
  with drop_oldest_spec[OF memory_init_None_ok r] show ?thesis by (auto simp: r)
qed

text \<open>
  A value whose encoding reaches the soft cap cannot be kept with the default compactor: the
  \<open>set\<close> returns normally, having evicted the very key it has just written.
\<close>

theorem large_write_vanishes:
  assumes "memory_ok m" and "mem_enforcing m" and "\<not> mem_warned m" and "map_of (mem_entries m) key = None"
    and "SOFT_CAP_BYTES \<le> int (length v) + 1" and "mem_total m + int (length v) + 1 \<le> HARD_CAP_BYTES"
    and "\<not> is_protected default_compactor key"
  shows "\<exists>m'. memory_set (Some (drop_oldest_compact default_compactor)) key v m = (Ok (), m') \<and>
    map_of (mem_entries m') key = None"
proof -
  let ?m1 = "(commit_entry key (encode_scalar v) m)
    \<lparr>mem_warned := True, mem_soft_cap_warnings := mem_soft_cap_warnings m + 1, mem_enforcing := False\<rparr>"
  have ok: "memory_ok ?m1" using commit_entry_ok[OF assms(1), of "encode_scalar v" key] by (auto simp: tagged_def)
  have present: "map_of (mem_entries ?m1) key = Some (encode_scalar v, mem_now m)"
    by (simp add: commit_entry_def)
  have big: "do_target default_compactor < int (length (encode_scalar v))"
    using assms(5) by (simp add: default_compactor_def DEFAULT_TARGET_BYTES_def HARD_CAP_BYTES_def SOFT_CAP_BYTES_def
        encode_scalar_def)
  have gone: "map_of (mem_entries (drop_loop default_compactor (mem_keys ?m1) ?m1)) key = None"
    by (rule drop_large_last[OF ok assms(7) present big])
  have p: "prospective_total m key (encode_scalar v) = mem_total m + int (length v) + 1"
    using assms(4) by (simp add: prospective_total_def encode_scalar_def)
  have "mem_total m \<ge> 0" using memory_total_nonneg[OF assms(1)] .
  then have "memory_set (Some (drop_oldest_compact default_compactor)) key v m =
      (Ok (), (drop_loop default_compactor (mem_keys ?m1) ?m1)\<lparr>mem_enforcing := True\<rparr>)"
    using assms p
    by (simp add: memory_set_def guarded_write_def commit_and_warn_def maybe_soft_cap_def run_compactor_def
        drop_oldest_compact_def commit_entry_def Let_def)
  then show ?thesis using gone by simp
qed

theorem large_write_vanishes_witness:
  "\<exists>m'. memory_set (Some (drop_oldest_compact default_compactor)) ''doc'' (replicate 800000 0) (memory_init None 7 None) = (Ok (), m') \<and>
     map_of (mem_entries m') ''doc'' = None"
  by (rule large_write_vanishes[OF memory_init_None_ok])
    (simp_all add: memory_init_def SOFT_CAP_BYTES_def HARD_CAP_BYTES_def is_protected_def default_compactor_def
      DEFAULT_PROTECTED_PREFIXES_def)

end
