(* ===== verification/Traces.thy ===== *)
theory Traces
  imports Wire
begin

text \<open>
  Activation traces (\<open>observability/traces.py\<close>) and the failure position of \<open>core/loop.py\<close>:
  identities derived from \<open>(entity_key, seq)\<close>, the stamping of correlation fields, and the event
  builders. The name-based UUID of the trace namespace is a parameter.
\<close>

section \<open>Attribute names\<close>

definition OPERATION_NAME :: string where "OPERATION_NAME = ''gen_ai.operation.name''"
definition REQUEST_MODEL :: string where "REQUEST_MODEL = ''gen_ai.request.model''"
definition USAGE_INPUT_TOKENS :: string where "USAGE_INPUT_TOKENS = ''gen_ai.usage.input_tokens''"
definition USAGE_OUTPUT_TOKENS :: string where "USAGE_OUTPUT_TOKENS = ''gen_ai.usage.output_tokens''"
definition ERROR_TYPE :: string where "ERROR_TYPE = ''error.type''"
definition CACHE_HIT :: string where "CACHE_HIT = ''beam_agents.cache_hit''"
definition BILLED :: string where "BILLED = ''beam_agents.billed''"
definition ATTEMPTS :: string where "ATTEMPTS = ''beam_agents.attempts''"
definition CIRCUIT_STATE :: string where "CIRCUIT_STATE = ''beam_agents.circuit_state''"
definition REASON :: string where "REASON = ''beam_agents.reason''"
definition FAILURE_STEP :: string where "FAILURE_STEP = ''beam_agents.failure.step''"
definition FAILURE_LAST_EVENT :: string where "FAILURE_LAST_EVENT = ''beam_agents.failure.last_event''"
definition FAILURE_STAGED_INTENTS :: string where
  "FAILURE_STAGED_INTENTS = ''beam_agents.failure.staged_intents''"
definition FAILURE_LLM_CALLS :: string where "FAILURE_LLM_CALLS = ''beam_agents.failure.llm_calls''"
definition ACTIVATION_STATUS :: string where "ACTIVATION_STATUS = ''beam_agents.activation.status''"
definition ACTIVATION_KIND :: string where "ACTIVATION_KIND = ''beam_agents.activation.kind''"
definition INTENT_ID :: string where "INTENT_ID = ''beam_agents.intent_id''"
definition INTENT_KIND :: string where "INTENT_KIND = ''beam_agents.intent_kind''"
definition TOOL_NAME :: string where "TOOL_NAME = ''beam_agents.tool_name''"
definition EXPIRES_AT_MS :: string where "EXPIRES_AT_MS = ''beam_agents.expires_at_ms''"
definition DEADLINE_MS :: string where "DEADLINE_MS = ''beam_agents.deadline_ms''"
definition ADAPTER :: string where "ADAPTER = ''beam_agents.adapter''"
definition PENDING_INTENT_IDS :: string where "PENDING_INTENT_IDS = ''beam_agents.pending_intent_ids''"
definition OPERATION_CHAT :: string where "OPERATION_CHAT = ''chat''"
definition ROLE_ACTIVATION :: string where "ROLE_ACTIVATION = ''activation''"
definition ROLE_TIMER :: string where "ROLE_TIMER = ''timer''"

section \<open>Identities\<close>

record token_usage =
  tu_prompt :: int
  tu_completion :: int
  tu_total :: int

definition trace_id_for :: "(string \<Rightarrow> bytes) \<Rightarrow> bytes \<Rightarrow> int \<Rightarrow> bytes" where
  "trace_id_for uuid5 entity_key seq = uuid5 (hex_bytes entity_key @ ''|'' @ dec seq)"

definition span_id_for :: "(string \<Rightarrow> bytes) \<Rightarrow> bytes \<Rightarrow> int \<Rightarrow> string \<Rightarrow> int \<Rightarrow> bytes" where
  "span_id_for uuid5 entity_key seq role index =
     take 8 (uuid5 (hex_bytes entity_key @ ''|'' @ dec seq @ ''|'' @ role @ ''|'' @ dec index))"

definition event_name :: "event_type \<Rightarrow> string" where
  "event_name t =
     (case t of
        EventUnspecified \<Rightarrow> ''EVENT_TYPE_UNSPECIFIED''
      | ActivationStart \<Rightarrow> ''ACTIVATION_START''
      | LlmCall \<Rightarrow> ''LLM_CALL''
      | ToolCall \<Rightarrow> ''TOOL_CALL''
      | IntentEmitted \<Rightarrow> ''INTENT_EMITTED''
      | ActivationEnd \<Rightarrow> ''ACTIVATION_END''
      | ErrorEvent \<Rightarrow> ''ERROR''
      | SuspendedEvent \<Rightarrow> ''SUSPENDED'')"

definition role_for_event_type :: "event_type \<Rightarrow> string" where
  "role_for_event_type t =
     (if t = ActivationStart \<or> t = ActivationEnd then ROLE_ACTIVATION else event_name t)"

definition bool_text :: "bool \<Rightarrow> string" where
  "bool_text b = (if b then ''true'' else ''false'')"

definition usage_attributes :: "token_usage option \<Rightarrow> bool \<Rightarrow> (string, string) dict" where
  "usage_attributes usage billed =
     (BILLED, bool_text billed) #
     (case usage of
        None \<Rightarrow> []
      | Some u \<Rightarrow> [(USAGE_INPUT_TOKENS, dec (tu_prompt u)), (USAGE_OUTPUT_TOKENS, dec (tu_completion u))])"

definition kind_name :: "intent_kind \<Rightarrow> string" where
  "kind_name k =
     (case k of
        KindUnspecified \<Rightarrow> ''TOOL_KIND_UNSPECIFIED''
      | ToolKind \<Rightarrow> ''TOOL''
      | ApprovalKind \<Rightarrow> ''APPROVAL''
      | KindOther n \<Rightarrow> dec n)"

section \<open>The position of a failed activation\<close>

record failure_context =
  fx_step :: int
  fx_last_event :: string
  fx_staged_intents :: int
  fx_llm_calls :: int

definition failure_attributes :: "failure_context \<Rightarrow> (string, string) dict" where
  "failure_attributes f =
     [(FAILURE_STEP, dec (fx_step f)), (FAILURE_LAST_EVENT, fx_last_event f),
      (FAILURE_STAGED_INTENTS, dec (fx_staged_intents f)), (FAILURE_LLM_CALLS, dec (fx_llm_calls f))]"

definition detail_suffix :: "failure_context \<Rightarrow> string" where
  "detail_suffix f = '' failed_at_step='' @ dec (fx_step f) @ '' after='' @ fx_last_event f"

section \<open>One attempt's trace\<close>

record activation_trace =
  at_key :: bytes
  at_seq :: int
  at_now :: msec
  at_is_resume :: bool
  at_span :: bytes
  at_parent :: bytes

definition trace_init ::
  "(string \<Rightarrow> bytes) \<Rightarrow> bytes \<Rightarrow> int \<Rightarrow> msec \<Rightarrow> int \<Rightarrow> bool \<Rightarrow> activation_trace" where
  "trace_init uuid5 entity_key seq now_ms entry_step_index is_resume =
     \<lparr>at_key = entity_key, at_seq = seq, at_now = now_ms, at_is_resume = is_resume,
      at_span = span_id_for uuid5 entity_key seq ROLE_ACTIVATION entry_step_index,
      at_parent = (if is_resume then span_id_for uuid5 entity_key seq ROLE_ACTIVATION 0 else [])\<rparr>"

definition stamp_role :: "(string \<Rightarrow> bytes) \<Rightarrow> activation_trace \<Rightarrow> string option \<Rightarrow> trace_event \<Rightarrow> trace_event" where
  "stamp_role uuid5 tr role ev =
     (let span_role = (case role of Some r \<Rightarrow> r | None \<Rightarrow> role_for_event_type (te_type ev)) in
      ev\<lparr>te_trace := (if te_trace ev = [] then trace_id_for uuid5 (at_key tr) (at_seq tr) else te_trace ev),
         te_span := (if te_span ev = [] then
            (if span_role = ROLE_ACTIVATION then at_span tr
             else span_id_for uuid5 (at_key tr) (at_seq tr) span_role (te_step ev)) else te_span ev),
         te_parent := (if te_parent ev = [] then
            (if span_role = ROLE_ACTIVATION then at_parent tr else at_span tr) else te_parent ev)\<rparr>)"

definition stamp :: "(string \<Rightarrow> bytes) \<Rightarrow> activation_trace \<Rightarrow> trace_event \<Rightarrow> trace_event" where
  "stamp uuid5 tr ev = stamp_role uuid5 tr None ev"

definition plain_event ::
  "bytes \<Rightarrow> int \<Rightarrow> msec \<Rightarrow> event_type \<Rightarrow> int \<Rightarrow> (string, string) dict \<Rightarrow> trace_event" where
  "plain_event entity_key seq now_ms event_type step_index attributes =
     \<lparr>te_trace = [], te_span = [], te_parent = [], te_key = entity_key, te_seq = seq,
      te_step = step_index, te_type = event_type, te_attrs = attributes,
      te_start = now_ms, te_end = now_ms\<rparr>"

definition trace_event_of ::
  "(string \<Rightarrow> bytes) \<Rightarrow> activation_trace \<Rightarrow> event_type \<Rightarrow> int \<Rightarrow> (string, string) dict \<Rightarrow> string option
   \<Rightarrow> trace_event" where
  "trace_event_of uuid5 tr event_type step_index attributes role =
     stamp_role uuid5 tr role
       (plain_event (at_key tr) (at_seq tr) (at_now tr) event_type step_index attributes)"

definition activation_kind :: "activation_trace \<Rightarrow> string" where
  "activation_kind tr = (if at_is_resume tr then ''resume'' else ''start'')"

definition activation_start :: "(string \<Rightarrow> bytes) \<Rightarrow> activation_trace \<Rightarrow> trace_event" where
  "activation_start uuid5 tr =
     trace_event_of uuid5 tr ActivationStart 0 [(ACTIVATION_KIND, activation_kind tr)] None"

definition activation_end :: "(string \<Rightarrow> bytes) \<Rightarrow> activation_trace \<Rightarrow> string \<Rightarrow> int \<Rightarrow> trace_event" where
  "activation_end uuid5 tr status step_index =
     trace_event_of uuid5 tr ActivationEnd step_index
       [(ACTIVATION_STATUS, status), (ACTIVATION_KIND, activation_kind tr)] None"

fun join_with :: "string \<Rightarrow> string list \<Rightarrow> string" where
  "join_with sep [] = []"
| "join_with sep [x] = x"
| "join_with sep (x # y # zs) = x @ sep @ join_with sep (y # zs)"

definition suspended_event ::
  "(string \<Rightarrow> bytes) \<Rightarrow> activation_trace \<Rightarrow> int \<Rightarrow> msec \<Rightarrow> string \<Rightarrow> string list \<Rightarrow> trace_event" where
  "suspended_event uuid5 tr step_index deadline_ms adapter pending_intent_ids =
     trace_event_of uuid5 tr SuspendedEvent step_index
       [(DEADLINE_MS, dec deadline_ms), (ADAPTER, adapter),
        (PENDING_INTENT_IDS, join_with '','' pending_intent_ids)] None"

definition intent_emitted ::
  "(string \<Rightarrow> bytes) \<Rightarrow> activation_trace \<Rightarrow> int \<Rightarrow> string \<Rightarrow> string \<Rightarrow> string \<Rightarrow> msec \<Rightarrow> trace_event" where
  "intent_emitted uuid5 tr step_index intent_id tool_name kind expires_at_ms =
     trace_event_of uuid5 tr IntentEmitted step_index
       [(INTENT_ID, intent_id), (TOOL_NAME, tool_name), (INTENT_KIND, kind),
        (EXPIRES_AT_MS, dec expires_at_ms)] None"

definition tool_call_event ::
  "(string \<Rightarrow> bytes) \<Rightarrow> activation_trace \<Rightarrow> int \<Rightarrow> int \<Rightarrow> string \<Rightarrow> trace_event" where
  "tool_call_event uuid5 tr step_index tool_index tool_name =
     (trace_event_of uuid5 tr ToolCall step_index [(TOOL_NAME, tool_name)] None)
       \<lparr>te_span := span_id_for uuid5 (at_key tr) (at_seq tr) (role_for_event_type ToolCall) tool_index\<rparr>"

definition error_event ::
  "(string \<Rightarrow> bytes) \<Rightarrow> activation_trace \<Rightarrow> string \<Rightarrow> string \<Rightarrow> string option \<Rightarrow> failure_context option
   \<Rightarrow> trace_event" where
  "error_event uuid5 tr reason error_type role failure =
     trace_event_of uuid5 tr ErrorEvent 0
       ((REASON, reason) # (if error_type \<noteq> [] then [(ERROR_TYPE, error_type)] else [])
          @ (case failure of None \<Rightarrow> [] | Some f \<Rightarrow> failure_attributes f))
       role"

section \<open>Lemmas\<close>

lemma stamp_keeps [simp]:
  "te_type (stamp_role u tr r ev) = te_type ev"
  "te_key (stamp_role u tr r ev) = te_key ev"
  "te_seq (stamp_role u tr r ev) = te_seq ev"
  "te_step (stamp_role u tr r ev) = te_step ev"
  "te_attrs (stamp_role u tr r ev) = te_attrs ev"
  by (simp_all add: stamp_role_def Let_def)

text \<open>Stamping an already-correlated event changes nothing.\<close>

lemma stamp_correlated:
  "\<lbrakk>te_trace ev \<noteq> []; te_span ev \<noteq> []; te_parent ev \<noteq> []\<rbrakk> \<Longrightarrow> stamp_role u tr r ev = ev"
  by (simp add: stamp_role_def Let_def)

text \<open>Attempts of one scope share the trace; the span of an attempt is fixed by its entry step.\<close>

lemma event_trace:
  "te_trace (trace_event_of u tr t i as r) = trace_id_for u (at_key tr) (at_seq tr)"
  by (simp add: trace_event_of_def stamp_role_def plain_event_def Let_def)

lemma event_shape [simp]:
  "te_type (trace_event_of u tr t i as r) = t"
  "te_key (trace_event_of u tr t i as r) = at_key tr"
  "te_seq (trace_event_of u tr t i as r) = at_seq tr"
  "te_step (trace_event_of u tr t i as r) = i"
  "te_attrs (trace_event_of u tr t i as r) = as"
  by (simp_all add: trace_event_of_def plain_event_def)

lemma trace_init_simps [simp]:
  "at_key (trace_init u k q now i r) = k"
  "at_seq (trace_init u k q now i r) = q"
  "at_now (trace_init u k q now i r) = now"
  "at_is_resume (trace_init u k q now i r) = r"
  by (simp_all add: trace_init_def)

end
