(* ===== verification/Json.thy ===== *)
theory Json
  imports Prelude
begin

text \<open>
  JSON values and the canonical serialisation the code uses wherever bytes must not depend on
  dictionary order (\<open>json.dumps(..., sort_keys=True, separators=(",", ":"))\<close>): cache keys, tool
  arguments, structured outputs. A float carries its \<open>repr\<close>; \<open>JNaN\<close> stands for the floats JSON
  cannot express and \<open>JOpaque\<close> for a value \<open>json.dumps\<close> does not serialise.
\<close>

section \<open>Values\<close>

datatype json =
    JNull
  | JBool bool
  | JInt int
  | JFloat string
  | JNaN
  | JStr string
  | JList "json list"
  | JObj "(string \<times> json) list"
  | JOpaque

definition escape_char :: "char \<Rightarrow> string" where
  "escape_char c =
     (let n = (of_char c :: nat) in
      if n = 34 then [char_of (92 :: nat), c]
      else if n = 92 then [c, c]
      else if n = 10 then [char_of (92 :: nat), CHR ''n'']
      else if n = 13 then [char_of (92 :: nat), CHR ''r'']
      else if n = 9 then [char_of (92 :: nat), CHR ''t'']
      else if n = 8 then [char_of (92 :: nat), CHR ''b'']
      else if n = 12 then [char_of (92 :: nat), CHR ''f'']
      else if n < 32 then [char_of (92 :: nat)] @ ''u00'' @ [hex_digit (n div 16), hex_digit (n mod 16)]
      else [c])"

definition quote :: "string \<Rightarrow> string" where
  "quote s = [char_of (34 :: nat)] @ concat (map escape_char s) @ [char_of (34 :: nat)]"

fun intercalate :: "string \<Rightarrow> string list \<Rightarrow> string" where
  "intercalate sep [] = []"
| "intercalate sep [x] = x"
| "intercalate sep (x # y # zs) = x @ sep @ intercalate sep (y # zs)"

lemma json_member_size: "kv \<in> set kvs \<Longrightarrow> size (snd kv) < Suc (size_list (size_prod (\<lambda>x. 0) size) kvs)"
  by (induction kvs) auto

lemma json_element_size: "x \<in> set xs \<Longrightarrow> size x < Suc (size_list size xs)"
  by (induction xs) auto

text \<open>
  \<open>sorted(dct.items())\<close>: the keys of a dict are distinct, so the order is that of the keys.
\<close>

function json_dumps :: "json \<Rightarrow> string res" where
  "json_dumps JNull = Ok ''null''"
| "json_dumps (JBool b) = Ok (if b then ''true'' else ''false'')"
| "json_dumps (JInt i) = Ok (dec i)"
| "json_dumps (JFloat r) = Ok r"
| "json_dumps JNaN = Err ValueError"
| "json_dumps (JStr s) = Ok (quote s)"
| "json_dumps (JList xs) =
     bindE (mapE json_dumps xs) (\<lambda>ys. Ok (''['' @ intercalate '','' ys @ '']''))"
| "json_dumps (JObj kvs) =
     bindE (mapE (\<lambda>kv. bindE (json_dumps (snd kv)) (\<lambda>d. Ok (quote (fst kv) @ '':'' @ d))) (sort_key fst kvs))
       (\<lambda>ms. Ok (''{'' @ intercalate '','' ms @ ''}''))"
| "json_dumps JOpaque = Err TypeError"
  by pat_completeness auto

termination
  by (relation "measure size") (auto simp: json_element_size dest: json_member_size)

section \<open>Lemmas\<close>

text \<open>
  Two values are equal up to dictionary order when one is the other with the members of objects
  permuted, at any depth.
\<close>

inductive same_json :: "json \<Rightarrow> json \<Rightarrow> bool" where
  same_refl: "same_json x x"
| same_list: "list_all2 same_json xs ys \<Longrightarrow> same_json (JList xs) (JList ys)"
| same_obj: "\<lbrakk>distinct (map fst kvs); mset (map fst kvs) = mset (map fst kvs');
    list_all2 (\<lambda>a b. fst a = fst b \<and> same_json (snd a) (snd b)) (sort_key fst kvs) (sort_key fst kvs')\<rbrakk>
    \<Longrightarrow> same_json (JObj kvs) (JObj kvs')"
monos list_all2_mono

lemma mapE_list_all2: "list_all2 (\<lambda>x y. f x = f y) xs ys \<Longrightarrow> mapE f xs = mapE f ys"
  by (induction rule: list_all2_induct) auto

lemma json_dumps_same: "same_json x y \<Longrightarrow> json_dumps x = json_dumps y"
proof (induction rule: same_json.induct)
  case (same_list xs ys)
  then have "list_all2 (\<lambda>x y. json_dumps x = json_dumps y) xs ys"
    by (auto elim: list_all2_mono)
  then show ?case by (simp add: mapE_list_all2)
next
  case (same_obj kvs kvs')
  let ?f = "\<lambda>kv. bindE (json_dumps (snd kv)) (\<lambda>d. Ok (quote (fst kv) @ '':'' @ d))"
  have "list_all2 (\<lambda>a b. ?f a = ?f b) (sort_key fst kvs) (sort_key fst kvs')"
    using same_obj(3) by (auto elim!: list_all2_mono)
  then show ?case by (simp add: mapE_list_all2)
qed simp

text \<open>A permutation of members with distinct keys is such a rearrangement.\<close>

lemma key_filter:
  "\<lbrakk>distinct (map fst xs); x \<in> set xs\<rbrakk> \<Longrightarrow> [y\<leftarrow>xs. fst x = fst y] = [x]"
proof (induction xs)
  case (Cons a xs)
  show ?case
  proof (cases "x = a")
    case True
    then have "\<forall>y \<in> set xs. fst x \<noteq> fst y" using Cons.prems(1) by (auto simp: image_iff)
    then show ?thesis using True by (simp add: filter_empty_conv)
  next
    case False
    then have "fst x \<noteq> fst a" using Cons.prems by (auto simp: image_iff)
    then show ?thesis using Cons False by simp
  qed
qed simp

lemma sort_key_perm:
  assumes "distinct (map fst kvs)" and "mset kvs = mset kvs'"
  shows "sort_key fst kvs = sort_key fst kvs'"
proof (rule properties_for_sort_key)
  show "mset (sort_key fst kvs') = mset kvs" using assms(2) by simp
  have "mset (map fst kvs) = mset (map fst kvs')" using assms(2) by simp
  then have "distinct (map fst kvs')" using assms(1) by (metis mset_eq_imp_distinct_iff)
  then have d: "distinct (map fst (sort_key fst kvs'))" by (simp add: distinct_map)
  show "sorted (map fst (sort_key fst kvs'))" by simp
  fix k assume k: "k \<in> set (sort_key fst kvs')"
  then have "k \<in> set kvs" using assms(2) by (metis set_mset_mset set_sort)
  then show "[x\<leftarrow>sort_key fst kvs'. fst k = fst x] = [x\<leftarrow>kvs. fst k = fst x]"
    using key_filter[OF d k] key_filter[OF assms(1)] by simp
qed

lemma json_dumps_perm:
  "\<lbrakk>distinct (map fst kvs); mset kvs = mset kvs'\<rbrakk> \<Longrightarrow> json_dumps (JObj kvs) = json_dumps (JObj kvs')"
  using sort_key_perm[of kvs kvs'] by simp

end
