(* ===== verification/Replay_Cache.thy ===== *)
theory Replay_Cache
  imports Migration Json
begin

text \<open>
  The LLM replay cache (\<open>model/replay_cache.py\<close>): the content-hash key, and an insertion-ordered
  dict of entries (least recently used first) bounded by a time to live, an entry count and the
  size of the serialised blob. SHA-256 and protobuf's \<open>ByteSize\<close> of one entry are parameters,
  the fields of \<open>rc_ext\<close>.
\<close>

section \<open>Definitions\<close>

definition MAX_ENTRIES :: nat where "MAX_ENTRIES = 64"
definition TTL_MS :: int where "TTL_MS = 21600000"
definition BLOB_CAP_BYTES :: int where "BLOB_CAP_BYTES = 102400"

record rc_ext =
  rx_sha256 :: "bytes \<Rightarrow> bytes"
  rx_byte_size :: "llm_cache_entry \<Rightarrow> int"

definition cache_document :: "json \<Rightarrow> json \<Rightarrow> json \<Rightarrow> json \<Rightarrow> bytes \<Rightarrow> int \<Rightarrow> json" where
  "cache_document model_id messages tools_schema sampling_params entity_key seq =
     JObj [(''model'', model_id), (''messages'', messages), (''tools'', tools_schema),
           (''params'', sampling_params), (''key'', JStr (hex_bytes entity_key)), (''seq'', JInt seq)]"

definition compute_cache_key ::
  "rc_ext \<Rightarrow> string \<Rightarrow> json \<Rightarrow> json \<Rightarrow> json \<Rightarrow> bytes \<Rightarrow> int \<Rightarrow> string res" where
  "compute_cache_key ext model_id messages tools_schema sampling_params entity_key seq =
     bindE (json_dumps (cache_document (JStr model_id) messages tools_schema sampling_params entity_key seq))
       (\<lambda>canonical. Ok (hex_bytes (rx_sha256 ext (utf8 canonical))))"

record cache_entry =
  ce_response :: bytes
  ce_digest :: bytes
  ce_created :: msec
  ce_access :: msec
  ce_digest_only :: bool
  ce_wire :: int

record replay_entry =
  re_response :: bytes
  re_digest :: bytes
  re_digest_only :: bool

record replay_cache =
  rc_now :: msec
  rc_entries :: "(string, cache_entry) dict"
  rc_response_total :: int
  rc_wire_total :: int
  rc_dirty :: bool

function varint_len :: "int \<Rightarrow> int" where
  "varint_len n = (if 128 \<le> n then 1 + varint_len (n div 128) else 1)"
  by pat_completeness auto
termination
  by (relation "measure nat") auto

declare varint_len.simps [simp del]

definition to_proto :: "string \<Rightarrow> cache_entry \<Rightarrow> llm_cache_entry" where
  "to_proto cache_key e =
     \<lparr>lc_key = cache_key, lc_response = ce_response e, lc_digest = ce_digest e,
      lc_created = ce_created e, lc_access = ce_access e, lc_digest_only = ce_digest_only e\<rparr>"

definition entry_wire_size :: "rc_ext \<Rightarrow> string \<Rightarrow> cache_entry \<Rightarrow> int" where
  "entry_wire_size ext cache_key e =
     (let payload = rx_byte_size ext (to_proto cache_key e) in 1 + varint_len payload + payload)"

definition blob_header_size :: "int \<Rightarrow> int" where
  "blob_header_size total_response_bytes =
     2 + (if total_response_bytes \<noteq> 0 then 1 + varint_len total_response_bytes else 0)"

definition with_wire :: "rc_ext \<Rightarrow> string \<Rightarrow> cache_entry \<Rightarrow> cache_entry" where
  "with_wire ext k e = e\<lparr>ce_wire := entry_wire_size ext k e\<rparr>"

definition load_cache_entry :: "rc_ext \<Rightarrow> llm_cache_entry \<Rightarrow> replay_cache \<Rightarrow> replay_cache" where
  "load_cache_entry ext p c =
     (let e = with_wire ext (lc_key p)
        \<lparr>ce_response = lc_response p, ce_digest = lc_digest p, ce_created = lc_created p,
         ce_access = lc_access p, ce_digest_only = lc_digest_only p, ce_wire = 0\<rparr> in
      c\<lparr>rc_entries := AList.update (lc_key p) e (rc_entries c),
        rc_response_total := rc_response_total c + int (length (ce_response e)),
        rc_wire_total := rc_wire_total c + ce_wire e\<rparr>)"

definition cache_init :: "rc_ext \<Rightarrow> llm_cache_blob option \<Rightarrow> msec \<Rightarrow> replay_cache" where
  "cache_init ext blob now_ms =
     (let c0 = \<lparr>rc_now = now_ms, rc_entries = [], rc_response_total = 0, rc_wire_total = 0,
                rc_dirty = False\<rparr> in
      case blob of None \<Rightarrow> c0 | Some b \<Rightarrow> fold (load_cache_entry ext) (cb_entries b) c0)"

definition is_expired :: "replay_cache \<Rightarrow> cache_entry \<Rightarrow> bool" where
  "is_expired c e \<longleftrightarrow> rc_now c - ce_created e > TTL_MS"

definition cache_touch :: "string \<Rightarrow> cache_entry \<Rightarrow> replay_cache \<Rightarrow> replay_cache" where
  "cache_touch k e c =
     c\<lparr>rc_entries := refresh k (e\<lparr>ce_access := rc_now c\<rparr>) (rc_entries c), rc_dirty := True\<rparr>"

definition cache_remove :: "string \<Rightarrow> replay_cache \<Rightarrow> replay_cache" where
  "cache_remove k c =
     (case map_of (rc_entries c) k of
        None \<Rightarrow> c
      | Some e \<Rightarrow>
          c\<lparr>rc_entries := AList.delete k (rc_entries c),
            rc_response_total := rc_response_total c - int (length (ce_response e)),
            rc_wire_total := rc_wire_total c - ce_wire e\<rparr>)"

definition cache_get :: "string \<Rightarrow> replay_cache \<Rightarrow> replay_entry option \<times> replay_cache" where
  "cache_get k c =
     (case map_of (rc_entries c) k of
        None \<Rightarrow> (None, c)
      | Some e \<Rightarrow>
          (if is_expired c e then (None, (cache_remove k c)\<lparr>rc_dirty := True\<rparr>)
           else (Some \<lparr>re_response = ce_response e, re_digest = ce_digest e, re_digest_only = ce_digest_only e\<rparr>,
                 cache_touch k e c)))"

definition purge_expired :: "replay_cache \<Rightarrow> replay_cache" where
  "purge_expired c =
     fold (\<lambda>k c. (cache_remove k c)\<lparr>rc_dirty := True\<rparr>)
       (map fst (filter (\<lambda>(k, e). is_expired c e) (rc_entries c))) c"

definition evict_lru :: "replay_cache \<Rightarrow> replay_cache" where
  "evict_lru c = (case rc_entries c of [] \<Rightarrow> c | (k, _) # _ \<Rightarrow> cache_remove k c)"

lemma evict_lru_shorter:
  "rc_entries c \<noteq> [] \<Longrightarrow> length (rc_entries (evict_lru c)) < length (rc_entries c)"
  by (cases "rc_entries c") (auto simp: evict_lru_def cache_remove_def length_delete_le le_imp_less_Suc)

function evict_over_count :: "replay_cache \<Rightarrow> replay_cache" where
  "evict_over_count c =
     (if length (rc_entries c) > MAX_ENTRIES then evict_over_count (evict_lru c) else c)"
  by pat_completeness auto
termination
  by (relation "measure (\<lambda>c. length (rc_entries c))") (auto intro!: evict_lru_shorter)

definition prospective_blob_size :: "replay_cache \<Rightarrow> int" where
  "prospective_blob_size c = blob_header_size (rc_response_total c) + rc_wire_total c"

function evict_over_bytes :: "replay_cache \<Rightarrow> replay_cache" where
  "evict_over_bytes c =
     (if length (rc_entries c) > 1 \<and> prospective_blob_size c > BLOB_CAP_BYTES
      then evict_over_bytes (evict_lru c) else c)"
  by pat_completeness auto
termination
  by (relation "measure (\<lambda>c. length (rc_entries c))") (auto intro!: evict_lru_shorter)

declare evict_over_count.simps [simp del] evict_over_bytes.simps [simp del]

definition fresh_entry :: "rc_ext \<Rightarrow> msec \<Rightarrow> string \<Rightarrow> bytes \<Rightarrow> bytes \<Rightarrow> bool \<Rightarrow> cache_entry" where
  "fresh_entry ext now_ms k response digest digest_only =
     with_wire ext k
       \<lparr>ce_response = response, ce_digest = digest, ce_created = now_ms, ce_access = now_ms,
        ce_digest_only = digest_only, ce_wire = 0\<rparr>"

definition choose_entry :: "rc_ext \<Rightarrow> msec \<Rightarrow> string \<Rightarrow> bytes \<Rightarrow> cache_entry" where
  "choose_entry ext now_ms k response =
     (let digest = rx_sha256 ext response;
          full = fresh_entry ext now_ms k response digest False in
      if blob_header_size (int (length response)) + ce_wire full > BLOB_CAP_BYTES
      then fresh_entry ext now_ms k [] digest True
      else full)"

definition cache_insert :: "string \<Rightarrow> cache_entry \<Rightarrow> replay_cache \<Rightarrow> replay_cache" where
  "cache_insert k e c =
     (let c1 = cache_remove k c in
      c1\<lparr>rc_entries := AList.update k e (rc_entries c1),
         rc_response_total := rc_response_total c1 + int (length (ce_response e)),
         rc_wire_total := rc_wire_total c1 + ce_wire e,
         rc_dirty := True\<rparr>)"

definition cache_put :: "rc_ext \<Rightarrow> string \<Rightarrow> bytes \<Rightarrow> replay_cache \<Rightarrow> replay_cache" where
  "cache_put ext k response c =
     (let c1 = purge_expired c;
          e = choose_entry ext (rc_now c) k response in
      evict_over_bytes (evict_over_count (cache_insert k e c1)))"

definition cache_to_blob :: "replay_cache \<Rightarrow> llm_cache_blob" where
  "cache_to_blob c =
     \<lparr>cb_version = CURRENT_STATE_SCHEMA_VERSION,
      cb_entries = map (\<lambda>(k, e). to_proto k e) (rc_entries c),
      cb_total = rc_response_total c\<rparr>"

section \<open>The size account\<close>

definition response_weight :: "string \<Rightarrow> cache_entry \<Rightarrow> int" where
  "response_weight k e = int (length (ce_response e))"

definition wire_weight :: "string \<Rightarrow> cache_entry \<Rightarrow> int" where
  "wire_weight k e = ce_wire e"

definition cache_ok :: "replay_cache \<Rightarrow> bool" where
  "cache_ok c \<longleftrightarrow> distinct_keys (rc_entries c) \<and>
     rc_response_total c = weight response_weight (rc_entries c) \<and>
     rc_wire_total c = weight wire_weight (rc_entries c)"

text \<open>The two caps the cache promises after an insertion.\<close>

definition cache_bounded :: "replay_cache \<Rightarrow> bool" where
  "cache_bounded c \<longleftrightarrow> length (rc_entries c) \<le> MAX_ENTRIES \<and>
     (length (rc_entries c) \<le> 1 \<or> prospective_blob_size c \<le> BLOB_CAP_BYTES)"

lemma cache_remove_ok [inv_intros]: "cache_ok c \<Longrightarrow> cache_ok (cache_remove k c)"
  by (auto simp: cache_ok_def cache_remove_def weight_delete response_weight_def wire_weight_def
      delete_keys distinct_removeAll split: option.splits)

lemma cache_remove_entries: "rc_entries (cache_remove k c) = AList.delete k (rc_entries c)"
  by (auto simp: cache_remove_def map_of_eq_None_iff split: option.splits)

lemma cache_remove_now [simp]: "rc_now (cache_remove k c) = rc_now c"
  by (auto simp: cache_remove_def split: option.splits)

lemma cache_dirty_ok [simp]: "cache_ok (c\<lparr>rc_dirty := b\<rparr>) = cache_ok c"
  by (simp add: cache_ok_def)

lemma cache_touch_ok [inv_intros]:
  "\<lbrakk>cache_ok c; map_of (rc_entries c) k = Some e\<rbrakk> \<Longrightarrow> cache_ok (cache_touch k e c)"
  by (auto simp: cache_ok_def cache_touch_def weight_refresh response_weight_def wire_weight_def)

lemma cache_touch_now [simp]: "rc_now (cache_touch k e c) = rc_now c"
  by (simp add: cache_touch_def)

lemma cache_get_ok: "\<lbrakk>cache_ok c; cache_get k c = (r, c')\<rbrakk> \<Longrightarrow> cache_ok c' \<and> rc_now c' = rc_now c"
  by (auto simp: cache_get_def cache_remove_ok cache_touch_ok split: option.splits if_splits)

lemma purge_ok: "cache_ok c \<Longrightarrow> cache_ok (purge_expired c)"
proof -
  have "cache_ok c \<Longrightarrow> cache_ok (fold (\<lambda>k c. (cache_remove k c)\<lparr>rc_dirty := True\<rparr>) ks c)" for ks c
    by (induction ks arbitrary: c) (auto simp: cache_remove_ok)
  then show "cache_ok c \<Longrightarrow> ?thesis" by (simp add: purge_expired_def)
qed

lemma purge_now [simp]: "rc_now (purge_expired c) = rc_now c"
proof -
  have "rc_now (fold (\<lambda>k c. (cache_remove k c)\<lparr>rc_dirty := True\<rparr>) ks c) = rc_now c" for ks c
    by (induction ks arbitrary: c) auto
  then show ?thesis by (simp add: purge_expired_def)
qed

lemma cache_insert_ok: "cache_ok c \<Longrightarrow> cache_ok (cache_insert k e c)"
proof -
  assume "cache_ok c"
  then have ok: "cache_ok (cache_remove k c)" by (rule cache_remove_ok)
  have none: "map_of (rc_entries (cache_remove k c)) k = None"
    by (simp add: cache_remove_entries delete_conv')
  show ?thesis
    using ok none unfolding cache_insert_def Let_def cache_ok_def
    by (simp add: weight_update distinct_update) (simp add: response_weight_def wire_weight_def)
qed

lemma cache_insert_entries:
  "rc_entries (cache_insert k e c) = AList.delete k (rc_entries c) @ [(k, e)]"
  by (simp add: cache_insert_def Let_def cache_remove_entries update_absent set_delete image_iff)

lemma evict_lru_ok: "cache_ok c \<Longrightarrow> cache_ok (evict_lru c)"
  by (auto simp: evict_lru_def cache_remove_ok split: list.splits)

lemma evict_lru_entries:
  "cache_ok c \<Longrightarrow> rc_entries (evict_lru c) = drop 1 (rc_entries c)"
  by (cases "rc_entries c")
    (auto simp: evict_lru_def cache_remove_entries cache_ok_def)

lemma evict_lru_now [simp]: "rc_now (evict_lru c) = rc_now c"
  by (auto simp: evict_lru_def split: list.splits)

lemma evict_over_count_spec:
  "cache_ok c \<Longrightarrow> cache_ok (evict_over_count c) \<and> rc_now (evict_over_count c) = rc_now c \<and>
     rc_entries (evict_over_count c) = drop (length (rc_entries c) - MAX_ENTRIES) (rc_entries c)"
proof (induction c rule: evict_over_count.induct)
  case (1 c)
  show ?case
  proof (cases "length (rc_entries c) > MAX_ENTRIES")
    case True
    have "rc_entries (evict_over_count (evict_lru c)) =
        drop (length (rc_entries c) - 1 - MAX_ENTRIES + 1) (rc_entries c)"
      using 1 True by (simp add: evict_lru_ok evict_lru_entries)
    then show ?thesis
      using 1 True by (subst (1 2 3) evict_over_count.simps) (simp add: evict_lru_ok Suc_diff_Suc)
  qed (use 1 in \<open>simp add: evict_over_count.simps\<close>)
qed

lemma evict_over_bytes_spec:
  "cache_ok c \<Longrightarrow> cache_ok (evict_over_bytes c) \<and> rc_now (evict_over_bytes c) = rc_now c \<and>
     (\<exists>n. rc_entries (evict_over_bytes c) = drop n (rc_entries c) \<and>
        (rc_entries c \<noteq> [] \<longrightarrow> n < length (rc_entries c))) \<and>
     (length (rc_entries (evict_over_bytes c)) \<le> 1 \<or> prospective_blob_size (evict_over_bytes c) \<le> BLOB_CAP_BYTES)"
proof (induction c rule: evict_over_bytes.induct)
  case (1 c)
  show ?case
  proof (cases "length (rc_entries c) > 1 \<and> prospective_blob_size c > BLOB_CAP_BYTES")
    case True
    have ne: "rc_entries (evict_lru c) \<noteq> []"
      using 1(2) True by (simp add: evict_lru_entries)
    obtain n where n: "rc_entries (evict_over_bytes (evict_lru c)) = drop n (drop 1 (rc_entries c))"
      "n < length (rc_entries c) - 1"
      using 1 True ne by (auto simp: evict_lru_ok evict_lru_entries)
    have eq: "evict_over_bytes c = evict_over_bytes (evict_lru c)"
      using True by (subst evict_over_bytes.simps) simp
    show ?thesis
      using 1 True n unfolding eq by (auto simp: evict_lru_ok intro!: exI[of _ "Suc n"])
  next
    case False
    then have "evict_over_bytes c = c" by (subst evict_over_bytes.simps) auto
    then show ?thesis using 1(2) False by (auto intro!: exI[of _ 0])
  qed
qed

section \<open>Insertion\<close>

lemma cache_put_ok:
  assumes "cache_ok c"
  shows "cache_ok (cache_put ext k r c)" and "cache_bounded (cache_put ext k r c)"
    and "rc_now (cache_put ext k r c) = rc_now c"
    and "\<exists>front. rc_entries (cache_put ext k r c) = front @ [(k, choose_entry ext (rc_now c) k r)]"
proof -
  let ?e = "choose_entry ext (rc_now c) k r"
  let ?c1 = "cache_insert k ?e (purge_expired c)"
  let ?c2 = "evict_over_count ?c1"
  let ?c3 = "evict_over_bytes ?c2"
  have put: "cache_put ext k r c = ?c3" by (simp add: cache_put_def Let_def)
  have ok1: "cache_ok ?c1" using assms by (intro cache_insert_ok purge_ok)
  have now1: "rc_now ?c1 = rc_now c" by (simp add: cache_insert_def Let_def)
  note count = evict_over_count_spec[OF ok1]
  note bytes = evict_over_bytes_spec[OF count[THEN conjunct1]]
  obtain front where f1: "rc_entries ?c1 = front @ [(k, ?e)]"
    by (simp add: cache_insert_entries)
  have last2: "\<exists>f. rc_entries ?c2 = f @ [(k, ?e)]"
    using count f1 by (auto simp: MAX_ENTRIES_def)
  have len2: "length (rc_entries ?c2) \<le> MAX_ENTRIES" using count by simp
  obtain n where n: "rc_entries ?c3 = drop n (rc_entries ?c2)" "n < length (rc_entries ?c2)"
    using bytes last2 by auto
  show "cache_ok (cache_put ext k r c)" using bytes put by simp
  show "rc_now (cache_put ext k r c) = rc_now c" using bytes count now1 put by simp
  show "cache_bounded (cache_put ext k r c)"
    using bytes n(1) len2 put by (auto simp: cache_bounded_def)
  show "\<exists>front. rc_entries (cache_put ext k r c) = front @ [(k, ?e)]"
    using n last2 put by auto
qed

text \<open>A lookup right after an insertion hits, with the inserted response unless it is oversized.\<close>

lemma cache_get_put:
  assumes "cache_ok c" and "cache_get k (cache_put ext k r c) = (hit, c')"
  shows "hit = Some \<lparr>re_response = (if ce_digest_only (choose_entry ext (rc_now c) k r) then [] else r),
    re_digest = rx_sha256 ext r, re_digest_only = ce_digest_only (choose_entry ext (rc_now c) k r)\<rparr>"
proof -
  let ?e = "choose_entry ext (rc_now c) k r"
  obtain front where f: "rc_entries (cache_put ext k r c) = front @ [(k, ?e)]"
    using cache_put_ok(4)[OF assms(1)] by blast
  have d: "distinct_keys (rc_entries (cache_put ext k r c))"
    using cache_put_ok(1)[OF assms(1)] by (simp add: cache_ok_def)
  then have "map_of (rc_entries (cache_put ext k r c)) k = Some ?e"
    using f by (force simp: map_add_def dest: map_of_SomeD split: option.split)
  moreover have "ce_created ?e = rc_now c"
    by (simp add: choose_entry_def fresh_entry_def with_wire_def Let_def)
  ultimately show ?thesis
    using assms cache_put_ok(3)[OF assms(1)]
    by (auto simp: cache_get_def is_expired_def TTL_MS_def choose_entry_def fresh_entry_def
        with_wire_def Let_def split: if_splits)
qed

lemma cache_get_expired:
  "\<lbrakk>map_of (rc_entries c) k = Some e; rc_now c - ce_created e > TTL_MS\<rbrakk> \<Longrightarrow> fst (cache_get k c) = None"
  by (simp add: cache_get_def is_expired_def)

lemma cache_get_live:
  "\<lbrakk>map_of (rc_entries c) k = Some e; rc_now c - ce_created e \<le> TTL_MS\<rbrakk> \<Longrightarrow>
   fst (cache_get k c) =
     Some \<lparr>re_response = ce_response e, re_digest = ce_digest e, re_digest_only = ce_digest_only e\<rparr>"
  by (simp add: cache_get_def is_expired_def)

section \<open>Serialisation\<close>

definition cache_blob_ok :: "llm_cache_blob \<Rightarrow> bool" where
  "cache_blob_ok b \<longleftrightarrow> distinct (map lc_key (cb_entries b))"

definition from_proto :: "rc_ext \<Rightarrow> llm_cache_entry \<Rightarrow> cache_entry" where
  "from_proto ext p = with_wire ext (lc_key p)
     \<lparr>ce_response = lc_response p, ce_digest = lc_digest p, ce_created = lc_created p,
      ce_access = lc_access p, ce_digest_only = lc_digest_only p, ce_wire = 0\<rparr>"

lemma load_fold:
  "\<lbrakk>cache_ok c; distinct (map lc_key ps); set (map lc_key ps) \<inter> set (map fst (rc_entries c)) = {}\<rbrakk> \<Longrightarrow>
   cache_ok (fold (load_cache_entry ext) ps c) \<and>
   rc_entries (fold (load_cache_entry ext) ps c) =
     rc_entries c @ map (\<lambda>p. (lc_key p, from_proto ext p)) ps \<and>
   rc_now (fold (load_cache_entry ext) ps c) = rc_now c"
proof (induction ps arbitrary: c)
  case (Cons p ps)
  let ?c = "load_cache_entry ext p c"
  have fresh: "lc_key p \<notin> fst ` set (rc_entries c)" using Cons.prems(3) by auto
  have e: "rc_entries ?c = rc_entries c @ [(lc_key p, from_proto ext p)]"
    using fresh by (simp add: load_cache_entry_def Let_def from_proto_def update_absent)
  have "weight response_weight [(lc_key p, from_proto ext p)] = int (length (lc_response p))"
    "weight wire_weight [(lc_key p, from_proto ext p)] = ce_wire (from_proto ext p)"
    by (simp_all add: response_weight_def wire_weight_def from_proto_def with_wire_def)
  then have "cache_ok ?c"
    using Cons.prems(1) fresh e
    by (simp add: cache_ok_def) (simp add: load_cache_entry_def Let_def from_proto_def with_wire_def)
  moreover have "rc_now ?c = rc_now c" by (simp add: load_cache_entry_def Let_def)
  ultimately show ?case using Cons.IH[of ?c] Cons.prems e by auto
qed simp

lemma cache_init_ok:
  assumes "\<forall>b. blob = Some b \<longrightarrow> cache_blob_ok b"
  shows "cache_ok (cache_init ext blob now)" and "rc_now (cache_init ext blob now) = now"
proof -
  let ?c0 = "\<lparr>rc_now = now, rc_entries = [], rc_response_total = 0, rc_wire_total = 0, rc_dirty = False\<rparr>"
  have "cache_ok ?c0" by (simp add: cache_ok_def)
  then have "cache_ok (cache_init ext blob now) \<and> rc_now (cache_init ext blob now) = now"
    using load_fold[of ?c0 "cb_entries (the blob)" ext] assms
    by (cases blob) (simp_all add: cache_init_def cache_blob_ok_def)
  then show "cache_ok (cache_init ext blob now)" "rc_now (cache_init ext blob now) = now" by auto
qed

lemma cache_to_blob_ok: "cache_ok c \<Longrightarrow> cache_blob_ok (cache_to_blob c)"
  by (simp add: cache_blob_ok_def cache_to_blob_def cache_ok_def comp_def split_def to_proto_def)

lemma cache_entry_eta:
  "\<lparr>ce_response = ce_response e, ce_digest = ce_digest e, ce_created = ce_created e, ce_access = ce_access e,
    ce_digest_only = ce_digest_only e, ce_wire = 0\<rparr> = e\<lparr>ce_wire := 0\<rparr>"
  by (cases e) simp

text \<open>A committed cache loads with the same entries; their wire sizes are computed afresh.\<close>

lemma cache_round_trip:
  assumes "cache_ok c"
  shows "rc_entries (cache_init ext (Some (cache_to_blob c)) now) =
    map (\<lambda>(k, e). (k, with_wire ext k (e\<lparr>ce_wire := 0\<rparr>))) (rc_entries c)"
proof -
  let ?c0 = "\<lparr>rc_now = now, rc_entries = [], rc_response_total = 0, rc_wire_total = 0, rc_dirty = False\<rparr>"
  have "rc_entries (cache_init ext (Some (cache_to_blob c)) now) =
      map (\<lambda>p. (lc_key p, from_proto ext p)) (cb_entries (cache_to_blob c))"
    using load_fold[of ?c0 "cb_entries (cache_to_blob c)" ext] cache_to_blob_ok[OF assms]
    by (simp add: cache_init_def cache_blob_ok_def cache_ok_def)
  also have "\<dots> = map (\<lambda>(k, e). (k, with_wire ext k (e\<lparr>ce_wire := 0\<rparr>))) (rc_entries c)"
    by (auto simp: cache_to_blob_def to_proto_def from_proto_def cache_entry_eta)
  finally show ?thesis .
qed

section \<open>The content-hash key\<close>

lemma cache_key_same:
  assumes "same_json messages messages'" and "same_json tools tools'" and "same_json params params'"
  shows "compute_cache_key ext m messages tools params ek seq = compute_cache_key ext m messages' tools' params' ek seq"
proof -
  have "json_dumps messages = json_dumps messages'" "json_dumps tools = json_dumps tools'"
      "json_dumps params = json_dumps params'"
    using assms by (auto intro: json_dumps_same)
  then show ?thesis
    by (simp add: compute_cache_key_def cache_document_def)
qed

section \<open>Properties\<close>

text \<open>
  A \<open>put\<close> keeps the cache's size accounts exact, respects the entry bound and, beyond a single
  entry, the byte bound of the serialized blob, and a \<open>get\<close> of the same key in the same activation
  answers with the digest of the response and, unless the entry had to be kept digest-only,
  the response itself.
\<close>

theorem cache_put_then_get:
  assumes "cache_ok c" and "cache_get k (cache_put ext k r c) = (hit, c')"
  shows "cache_ok (cache_put ext k r c) \<and> length (rc_entries (cache_put ext k r c)) \<le> MAX_ENTRIES \<and>
    (length (rc_entries (cache_put ext k r c)) \<le> 1 \<or> prospective_blob_size (cache_put ext k r c) \<le> BLOB_CAP_BYTES) \<and>
    (\<exists>e. hit = Some e \<and> re_digest e = rx_sha256 ext r \<and> (\<not> re_digest_only e \<longrightarrow> re_response e = r))"
  using cache_put_ok[OF assms(1), of ext k r] cache_get_put[OF assms]
  by (auto simp: cache_bounded_def choose_entry_def Let_def)

theorem cache_put_then_get_witness:
  "\<exists>e c'. cache_get ''k'' (cache_put \<lparr>rx_sha256 = id, rx_byte_size = \<lambda>_. 1\<rparr> ''k'' [5] (cache_init \<lparr>rx_sha256 = id, rx_byte_size = \<lambda>_. 1\<rparr> None 0)) = (Some e, c') \<and>
     re_digest e = [5]"
proof -
  have ok: "cache_ok (cache_init \<lparr>rx_sha256 = id, rx_byte_size = \<lambda>_. 1\<rparr> None 0)" by (rule cache_init_ok) simp
  obtain hit c' where g: "cache_get ''k'' (cache_put \<lparr>rx_sha256 = id, rx_byte_size = \<lambda>_. 1\<rparr> ''k'' [5] (cache_init \<lparr>rx_sha256 = id, rx_byte_size = \<lambda>_. 1\<rparr> None 0)) = (hit, c')"
    by fastforce
  from cache_put_then_get[OF ok g] g show ?thesis by auto
qed

text \<open>
  The cache key does not depend on the order in which the mappings of a request were built, at
  any depth.
\<close>

theorem cache_key_order_free:
  assumes "same_json messages messages'" and "same_json tools tools'" and "same_json params params'"
  shows "compute_cache_key ext m messages tools params ek seq = compute_cache_key ext m messages' tools' params' ek seq"
  using assms by (rule cache_key_same)

theorem cache_key_order_free_witness:
  "compute_cache_key \<lparr>rx_sha256 = id, rx_byte_size = \<lambda>_. 1\<rparr> ''m'' (JObj [(''a'', JInt 1), (''b'', JInt 2)]) JNull JNull [7] 3 =
   compute_cache_key \<lparr>rx_sha256 = id, rx_byte_size = \<lambda>_. 1\<rparr> ''m'' (JObj [(''b'', JInt 2), (''a'', JInt 1)]) JNull JNull [7] 3"
proof -
  have "same_json (JObj [(''a'', JInt 1), (''b'', JInt 2)]) (JObj [(''b'', JInt 2), (''a'', JInt 1)])"
    by (rule same_json.intros(3)) (simp_all add: same_json.intros(1))
  from cache_key_order_free[OF this same_json.intros(1) same_json.intros(1)] show ?thesis .
qed

end
