(* ===== verification/Model_Facade.thy ===== *)
theory Model_Facade
  imports Traces Replay_Cache
begin

text \<open>
  The resilient model path (\<open>model/facade.py\<close>, with the request and error types of
  \<open>model/client.py\<close>): the token budget, the circuit breaker, the retry loop and the cache-first
  \<open>complete\<close>. The provider, the sleep, the seeded random generator, the response decoder and the
  validation of an output schema are parameters acting on a world of their own.
\<close>

section \<open>Requests\<close>

record llm_request =
  rq_model :: string
  rq_messages :: json
  rq_tools :: json
  rq_params :: json

record decoded_response =
  dr_usage :: token_usage
  dr_text :: string

definition is_provider_error :: "exn \<Rightarrow> bool" where
  "is_provider_error e \<longleftrightarrow>
     (case e of RateLimitError _ \<Rightarrow> True | ServerError _ \<Rightarrow> True | ProviderTimeout \<Rightarrow> True | _ \<Rightarrow> False)"

definition request_key :: "rc_ext \<Rightarrow> llm_request \<Rightarrow> bytes \<Rightarrow> int \<Rightarrow> string res" where
  "request_key ext rq entity_key seq =
     compute_cache_key ext (rq_model rq) (rq_messages rq) (rq_tools rq) (rq_params rq) entity_key seq"

section \<open>The token budget\<close>

record token_budget =
  tb_limit :: int
  tb_consumed :: int
  tb_exhausted :: bool

definition budget_init :: "int \<Rightarrow> token_budget res" where
  "budget_init limit =
     (if limit \<le> 0 then Err ValueError
      else Ok \<lparr>tb_limit = limit, tb_consumed = 0, tb_exhausted = False\<rparr>)"

definition budget_check :: "token_budget \<Rightarrow> unit res" where
  "budget_check b =
     (if tb_exhausted b then Err (BudgetExceeded (tb_limit b) (tb_consumed b)) else Ok ())"

definition budget_charge :: "int \<Rightarrow> token_budget \<Rightarrow> unit res \<times> token_budget" where
  "budget_charge total_tokens b =
     (case budget_check b of
        Inl e \<Rightarrow> (Err e, b)
      | Inr _ \<Rightarrow>
          (let b1 = b\<lparr>tb_consumed := tb_consumed b + total_tokens\<rparr> in
           if tb_consumed b1 > tb_limit b1
           then (Err (BudgetExceeded (tb_limit b1) (tb_consumed b1)), b1\<lparr>tb_exhausted := True\<rparr>)
           else (Ok (), b1)))"

text \<open>The optional budget: absent is unlimited.\<close>

definition check_opt :: "token_budget option \<Rightarrow> unit res" where
  "check_opt b = (case b of None \<Rightarrow> Ok () | Some t \<Rightarrow> budget_check t)"

definition charge_opt :: "int \<Rightarrow> token_budget option \<Rightarrow> unit res \<times> token_budget option" where
  "charge_opt n b =
     (case b of None \<Rightarrow> (Ok (), None) | Some t \<Rightarrow> (let (r, t') = budget_charge n t in (r, Some t')))"

section \<open>The circuit breaker\<close>

datatype circuit_state = Closed | Open | HalfOpen

definition circuit_value :: "circuit_state \<Rightarrow> string" where
  "circuit_value s = (case s of Closed \<Rightarrow> ''closed'' | Open \<Rightarrow> ''open'' | HalfOpen \<Rightarrow> ''half_open'')"

record circuit_breaker =
  br_endpoint :: string
  br_threshold :: int
  br_cooldown :: int
  br_state :: circuit_state
  br_failures :: int
  br_opened_at :: "msec option"

definition breaker_init :: "string \<Rightarrow> int \<Rightarrow> int \<Rightarrow> circuit_breaker" where
  "breaker_init endpoint threshold cooldown_ms =
     \<lparr>br_endpoint = endpoint, br_threshold = threshold, br_cooldown = cooldown_ms,
      br_state = Closed, br_failures = 0, br_opened_at = None\<rparr>"

definition is_circuit_open :: "exn \<Rightarrow> bool" where
  "is_circuit_open e \<longleftrightarrow> (case e of CircuitOpenError _ \<Rightarrow> True | _ \<Rightarrow> False)"

definition before_call :: "msec \<Rightarrow> circuit_breaker \<Rightarrow> unit res \<times> circuit_breaker" where
  "before_call now_ms b =
     (if br_state b = Open then
        (case br_opened_at b of
           None \<Rightarrow> (Err AssertionError, b)
         | Some t \<Rightarrow>
             (if now_ms - t < br_cooldown b then (Err (CircuitOpenError (br_endpoint b)), b)
              else (Ok (), b\<lparr>br_state := HalfOpen\<rparr>)))
      else (Ok (), b))"

definition record_success :: "circuit_breaker \<Rightarrow> circuit_breaker" where
  "record_success b = b\<lparr>br_state := Closed, br_failures := 0, br_opened_at := None\<rparr>"

definition record_failure :: "msec \<Rightarrow> circuit_breaker \<Rightarrow> circuit_breaker" where
  "record_failure now_ms b =
     (if br_state b = HalfOpen then b\<lparr>br_state := Open, br_opened_at := Some now_ms\<rparr>
      else
        (let b1 = b\<lparr>br_failures := br_failures b + 1\<rparr> in
         if br_failures b1 \<ge> br_threshold b1
         then b1\<lparr>br_state := Open, br_opened_at := Some now_ms\<rparr>
         else b1))"

section \<open>The facade\<close>

record retry_policy =
  rp_max_attempts :: int
  rp_base_ms :: int
  rp_max_ms :: int

record 'w model_ext =
  mx_cache :: rc_ext
  mx_provider :: "llm_request \<Rightarrow> 'w \<Rightarrow> bytes res \<times> 'w"
  mx_uniform :: "int \<Rightarrow> 'w \<Rightarrow> int \<times> 'w"
  mx_sleep :: "int \<Rightarrow> 'w \<Rightarrow> 'w"
  mx_decode :: "bytes \<Rightarrow> decoded_response res"
  mx_error_name :: "exn \<Rightarrow> string"

text \<open>An output schema: its JSON schema, and the validation of a response text against it.\<close>

record output_schema =
  os_schema :: json
  os_validate :: "string \<Rightarrow> json option"

definition fold_output_schema :: "llm_request \<Rightarrow> output_schema option \<Rightarrow> llm_request" where
  "fold_output_schema rq schema =
     (case schema of
        None \<Rightarrow> rq
      | Some s \<Rightarrow>
          rq\<lparr>rq_params :=
            (case rq_params rq of
               JObj kvs \<Rightarrow> JObj (AList.update ''response_schema'' (os_schema s) kvs)
             | p \<Rightarrow> JObj [(''params'', p), (''response_schema'', os_schema s)])\<rparr>)"

record facade =
  fa_cache :: replay_cache
  fa_now :: msec
  fa_breaker :: circuit_breaker
  fa_policy :: retry_policy
  fa_budget :: "token_budget option"
  fa_traces :: "trace_event list"
  fa_usage :: "token_usage list"

text \<open>The staging sink keeps the events and the usages in staging order.\<close>

definition compute_delay_ms :: "'w model_ext \<Rightarrow> retry_policy \<Rightarrow> int \<Rightarrow> exn \<Rightarrow> 'w \<Rightarrow> int \<times> 'w" where
  "compute_delay_ms ext policy attempt err w =
     (let pre_jitter = min (rp_base_ms policy * 2 ^ nat (attempt - 1)) (rp_max_ms policy);
          (delay_ms, w1) = (if pre_jitter > 0 then mx_uniform ext pre_jitter w else (0, w)) in
      (case err of
         RateLimitError (Some retry_after_ms) \<Rightarrow> (max delay_ms retry_after_ms, w1)
       | _ \<Rightarrow> (delay_ms, w1)))"

text \<open>
  \<open>_call_with_retry\<close> from attempt \<open>attempt\<close>. The outcome is the response, a provider error to
  report after the last attempt, or an exception that escapes the loop. \<open>int\<close> truncates the
  jitter, so the random draw is an integer.
\<close>

datatype call_outcome = Answered bytes int | Failed exn int | Escaped exn

function call_from :: "'w model_ext \<Rightarrow> retry_policy \<Rightarrow> int \<Rightarrow> llm_request \<Rightarrow> 'w \<Rightarrow> call_outcome \<times> 'w" where
  "call_from ext policy attempt rq w =
     (if rp_max_attempts policy < attempt then (Escaped AssertionError, w)
      else
        (case mx_provider ext rq w of
           (Inr response, w1) \<Rightarrow> (Answered response attempt, w1)
         | (Inl e, w1) \<Rightarrow>
             (if \<not> is_provider_error e then (Escaped e, w1)
              else if attempt = rp_max_attempts policy then (Failed e attempt, w1)
              else
                (let (delay_ms, w2) = compute_delay_ms ext policy attempt e w1 in
                 call_from ext policy (attempt + 1) rq (mx_sleep ext delay_ms w2)))))"
  by pat_completeness auto
termination
  by (relation "measure (\<lambda>(_, policy, attempt, _, _). nat (rp_max_attempts policy + 1 - attempt))") auto

declare call_from.simps [simp del]

definition call_with_retry :: "'w model_ext \<Rightarrow> retry_policy \<Rightarrow> llm_request \<Rightarrow> 'w \<Rightarrow> call_outcome \<times> 'w" where
  "call_with_retry ext policy rq w = call_from ext policy 1 rq w"

definition facade_stage_trace ::
  "'w model_ext \<Rightarrow> string \<Rightarrow> bytes \<Rightarrow> int \<Rightarrow> int \<Rightarrow> bool \<Rightarrow> int \<Rightarrow> token_usage option \<Rightarrow> exn option
   \<Rightarrow> facade \<Rightarrow> facade" where
  "facade_stage_trace ext model_id entity_key seq step_index cache_hit attempts usage err f =
     (let attributes =
        [(OPERATION_NAME, OPERATION_CHAT), (REQUEST_MODEL, model_id),
         (CACHE_HIT, bool_text cache_hit), (ATTEMPTS, dec attempts),
         (CIRCUIT_STATE, circuit_value (br_state (fa_breaker f)))]
        @ usage_attributes usage (\<not> cache_hit \<and> usage \<noteq> None)
        @ (case err of None \<Rightarrow> [] | Some e \<Rightarrow> [(ERROR_TYPE, mx_error_name ext e)]) in
      f\<lparr>fa_traces := fa_traces f @
          [plain_event entity_key seq (fa_now f) LlmCall step_index attributes]\<rparr>)"

record facade_result =
  fr_response :: bytes
  fr_parsed :: "json option"
  fr_usage :: token_usage
  fr_cache_hit :: bool
  fr_attempts :: int

definition facade_finish ::
  "'w model_ext \<Rightarrow> bytes \<Rightarrow> output_schema option \<Rightarrow> bytes \<Rightarrow> int \<Rightarrow> int \<Rightarrow> string \<Rightarrow> bool \<Rightarrow> int
   \<Rightarrow> facade \<Rightarrow> facade_result res \<times> facade" where
  "facade_finish ext response schema entity_key seq step_index model_id cache_hit attempts f =
     (case mx_decode ext response of
        Inl e \<Rightarrow> (Err e, f)
      | Inr decoded \<Rightarrow>
          (let usage = dr_usage decoded;
               f1 = (if cache_hit then f else f\<lparr>fa_usage := fa_usage f @ [usage]\<rparr>);
               (charged, budget') = charge_opt (tu_total usage) (fa_budget f1);
               f2 = f1\<lparr>fa_budget := budget'\<rparr>;
               stage = (\<lambda>err. facade_stage_trace ext model_id entity_key seq step_index cache_hit attempts
                          (Some usage) err f2) in
           case charged of
             Inl e \<Rightarrow> (Err e, stage (Some e))
           | Inr _ \<Rightarrow>
               (case schema of
                  None \<Rightarrow>
                    (Ok \<lparr>fr_response = response, fr_parsed = None, fr_usage = usage,
                         fr_cache_hit = cache_hit, fr_attempts = attempts\<rparr>, stage None)
                | Some s \<Rightarrow>
                    (case os_validate s (dr_text decoded) of
                       None \<Rightarrow> (Err OutputSchemaError, stage (Some ValueError))
                     | Some parsed \<Rightarrow>
                         (Ok \<lparr>fr_response = response, fr_parsed = Some parsed, fr_usage = usage,
                              fr_cache_hit = cache_hit, fr_attempts = attempts\<rparr>, stage None)))))"

text \<open>The provider path of \<open>complete\<close>, after a cache miss or a digest-only hit.\<close>

definition complete_miss ::
  "'w model_ext \<Rightarrow> llm_request \<Rightarrow> string \<Rightarrow> output_schema option \<Rightarrow> bytes \<Rightarrow> int \<Rightarrow> int
   \<Rightarrow> facade \<Rightarrow> 'w \<Rightarrow> facade_result res \<times> facade \<times> 'w" where
  "complete_miss ext rq cache_key schema entity_key seq step_index f w =
     (let (gate, breaker') = before_call (fa_now f) (fa_breaker f);
          f1 = f\<lparr>fa_breaker := breaker'\<rparr> in
      case gate of
        Inl e \<Rightarrow>
          (Err e,
           (if is_circuit_open e
            then facade_stage_trace ext (rq_model rq) entity_key seq step_index False 0 None (Some e) f1
            else f1), w)
      | Inr _ \<Rightarrow>
          (case call_with_retry ext (fa_policy f1) rq w of
             (Escaped e, w1) \<Rightarrow> (Err e, f1, w1)
           | (Failed e attempts, w1) \<Rightarrow>
               (let f2 = f1\<lparr>fa_breaker := record_failure (fa_now f1) (fa_breaker f1)\<rparr> in
                (Err e,
                 facade_stage_trace ext (rq_model rq) entity_key seq step_index False attempts None (Some e) f2,
                 w1))
           | (Answered response attempts, w1) \<Rightarrow>
               (let f2 = f1\<lparr>fa_breaker := record_success (fa_breaker f1),
                            fa_cache := cache_put (mx_cache ext) cache_key response (fa_cache f1)\<rparr>;
                    (r, f3) = facade_finish ext response schema entity_key seq step_index (rq_model rq)
                                False attempts f2 in
                (r, f3, w1))))"

definition facade_complete ::
  "'w model_ext \<Rightarrow> llm_request \<Rightarrow> output_schema option \<Rightarrow> bytes \<Rightarrow> int \<Rightarrow> int
   \<Rightarrow> facade \<Rightarrow> 'w \<Rightarrow> facade_result res \<times> facade \<times> 'w" where
  "facade_complete ext rq schema entity_key seq step_index f w =
     (case check_opt (fa_budget f) of
        Inl e \<Rightarrow> (Err e, f, w)
      | Inr _ \<Rightarrow>
          (let rq' = fold_output_schema rq schema in
           case request_key (mx_cache ext) rq' entity_key seq of
             Inl e \<Rightarrow> (Err e, f, w)
           | Inr cache_key \<Rightarrow>
               (let (cached, cache') = cache_get cache_key (fa_cache f);
                    f1 = f\<lparr>fa_cache := cache'\<rparr> in
                case cached of
                  Some hit \<Rightarrow>
                    (if \<not> re_digest_only hit then
                       (let (r, f2) = facade_finish ext (re_response hit) schema entity_key seq step_index
                                        (rq_model rq') True 0 f1 in (r, f2, w))
                     else complete_miss ext rq' cache_key schema entity_key seq step_index f1 w)
                | None \<Rightarrow> complete_miss ext rq' cache_key schema entity_key seq step_index f1 w)))"

section \<open>The budget is latched and overshoots by at most one charge\<close>

fun charge_all :: "int list \<Rightarrow> token_budget \<Rightarrow> unit res list \<times> token_budget" where
  "charge_all [] b = ([], b)"
| "charge_all (n # ns) b =
     (let (r, b1) = budget_charge n b; (rs, b2) = charge_all ns b1 in (r # rs, b2))"

definition budget_inv :: "int \<Rightarrow> token_budget \<Rightarrow> bool" where
  "budget_inv mx b \<longleftrightarrow> 0 < tb_limit b \<and>
     (if tb_exhausted b then tb_limit b < tb_consumed b \<and> tb_consumed b \<le> tb_limit b + mx
      else tb_consumed b \<le> tb_limit b)"

lemma budget_init_inv: "\<lbrakk>budget_init l = Ok b; 0 \<le> mx\<rbrakk> \<Longrightarrow> budget_inv mx b \<and> tb_limit b = l"
  by (auto simp: budget_init_def budget_inv_def split: if_splits)

lemma charge_inv:
  "\<lbrakk>budget_charge n b = (r, b'); budget_inv mx b; n \<le> mx\<rbrakk> \<Longrightarrow> budget_inv mx b' \<and> tb_limit b' = tb_limit b"
  by (auto simp: budget_charge_def budget_check_def budget_inv_def Let_def split: if_splits sum.splits)

lemma charge_exhausted:
  "tb_exhausted b \<Longrightarrow> budget_charge n b = (Err (BudgetExceeded (tb_limit b) (tb_consumed b)), b)"
  by (simp add: budget_charge_def budget_check_def)

lemma charge_Err_iff: "budget_charge n b = (r, b') \<Longrightarrow> (r = Ok ()) = (\<not> tb_exhausted b')"
  by (auto simp: budget_charge_def budget_check_def Let_def split: if_splits sum.splits)

lemma charge_all_inv:
  "\<lbrakk>charge_all ns b = (rs, b'); budget_inv mx b; \<forall>n \<in> set ns. n \<le> mx\<rbrakk> \<Longrightarrow>
   budget_inv mx b' \<and> tb_limit b' = tb_limit b"
proof (induction ns arbitrary: b rs)
  case (Cons n ns)
  obtain r b1 where c: "budget_charge n b = (r, b1)" by (cases "budget_charge n b")
  obtain rs2 b2 where cs: "charge_all ns b1 = (rs2, b2)" by (cases "charge_all ns b1")
  have "budget_inv mx b1 \<and> tb_limit b1 = tb_limit b" using charge_inv[OF c] Cons.prems by simp
  moreover have "charge_all ns b1 = (rs2, b')" using Cons.prems(1) c cs by simp
  ultimately show ?case using Cons.IH[of b1 rs2] Cons.prems by simp
qed simp

lemma charge_all_exhausted:
  "\<lbrakk>charge_all ns b = (rs, b'); tb_exhausted b\<rbrakk> \<Longrightarrow>
   b' = b \<and> (\<forall>r \<in> set rs. r = Err (BudgetExceeded (tb_limit b) (tb_consumed b)))"
proof (induction ns arbitrary: rs)
  case (Cons n ns)
  then show ?case by (cases "charge_all ns b") (auto simp: charge_exhausted)
qed simp

lemma charge_opt_replay:
  "\<lbrakk>charge_opt n b = (r, b1); charge_opt n b = (r', b2)\<rbrakk> \<Longrightarrow> r' = r \<and> b2 = b1"
  by simp

section \<open>The breaker\<close>

datatype breaker_event = CallAt msec | Succeeded | FailedAt msec

fun breaker_step :: "breaker_event \<Rightarrow> circuit_breaker \<Rightarrow> circuit_breaker" where
  "breaker_step (CallAt now_ms) b = snd (before_call now_ms b)"
| "breaker_step Succeeded b = record_success b"
| "breaker_step (FailedAt now_ms) b = record_failure now_ms b"

definition breaker_inv :: "circuit_breaker \<Rightarrow> bool" where
  "breaker_inv b \<longleftrightarrow> (br_state b = Open \<longrightarrow> br_opened_at b \<noteq> None) \<and>
     (br_state b = Closed \<longrightarrow> br_failures b < br_threshold b \<and> br_opened_at b = None)"

lemma breaker_init_inv: "0 < th \<Longrightarrow> breaker_inv (breaker_init e th cd)"
  by (simp add: breaker_inv_def breaker_init_def)

lemma breaker_step_inv:
  "\<lbrakk>breaker_inv b; 0 < br_threshold b\<rbrakk> \<Longrightarrow> breaker_inv (breaker_step ev b) \<and> br_threshold (breaker_step ev b) = br_threshold b"
  by (cases ev)
    (auto simp: breaker_inv_def before_call_def record_success_def record_failure_def Let_def
      split: option.splits if_splits)

lemma breaker_run_inv:
  "\<lbrakk>breaker_inv b; 0 < br_threshold b\<rbrakk> \<Longrightarrow> breaker_inv (fold breaker_step evs b) \<and> br_threshold (fold breaker_step evs b) = br_threshold b"
  by (induction evs arbitrary: b) (simp_all add: breaker_step_inv)

lemma breaker_refuses_iff:
  "breaker_inv b \<Longrightarrow> fst (before_call now b) = Err e \<longleftrightarrow>
     e = CircuitOpenError (br_endpoint b) \<and> br_state b = Open \<and>
     (\<exists>t. br_opened_at b = Some t \<and> now - t < br_cooldown b)"
  by (auto simp: before_call_def breaker_inv_def split: option.splits)

lemma breaker_failures:
  "\<lbrakk>br_state b = Closed; 0 < br_threshold b; br_failures b + int (length ts) < br_threshold b\<rbrakk> \<Longrightarrow>
   br_state (fold record_failure ts b) = Closed \<and>
   br_failures (fold record_failure ts b) = br_failures b + int (length ts) \<and>
   br_threshold (fold record_failure ts b) = br_threshold b"
proof (induction ts arbitrary: b)
  case (Cons t ts)
  let ?b = "record_failure t b"
  have "br_state ?b = Closed" "br_failures ?b = br_failures b + 1" "br_threshold ?b = br_threshold b"
    using Cons.prems by (auto simp: record_failure_def Let_def)
  then show ?case using Cons.IH[of ?b] Cons.prems by simp
qed simp

text \<open>A half-open breaker lets every call through until one of them reports.\<close>

lemma half_open_admits: "br_state b = HalfOpen \<Longrightarrow> before_call now b = (Ok (), b)"
  by (simp add: before_call_def)

section \<open>Retries\<close>

lemma call_from_attempts:
  "\<lbrakk>call_from ext policy attempt rq w = (out, w'); 1 \<le> attempt; attempt \<le> rp_max_attempts policy\<rbrakk> \<Longrightarrow>
   case out of
     Answered r n \<Rightarrow> attempt \<le> n \<and> n \<le> rp_max_attempts policy
   | Failed e n \<Rightarrow> n = rp_max_attempts policy \<and> is_provider_error e
   | Escaped e \<Rightarrow> \<not> is_provider_error e"
proof (induction ext policy attempt rq w rule: call_from.induct)
  case (1 ext policy attempt rq w)
  obtain r w1 where pr: "mx_provider ext rq w = (r, w1)" by (cases "mx_provider ext rq w")
  show ?case
  proof (cases r)
    case (Inr resp)
    then show ?thesis using 1(2-) pr by (subst (asm) call_from.simps) auto
  next
    case (Inl e)
    show ?thesis
    proof (cases "is_provider_error e \<and> attempt \<noteq> rp_max_attempts policy")
      case False
      then show ?thesis using 1(2-) pr Inl by (subst (asm) call_from.simps) (auto split: if_splits)
    next
      case True
      obtain d w2 where d: "compute_delay_ms ext policy attempt e w1 = (d, w2)"
        by (cases "compute_delay_ms ext policy attempt e w1")
      have next_call: "call_from ext policy (attempt + 1) rq (mx_sleep ext d w2) = (out, w')"
        using 1(2-) pr Inl True d by (subst (asm) call_from.simps) auto
      have "case out of
          Answered r n \<Rightarrow> attempt + 1 \<le> n \<and> n \<le> rp_max_attempts policy
        | Failed e n \<Rightarrow> n = rp_max_attempts policy \<and> is_provider_error e
        | Escaped e \<Rightarrow> \<not> is_provider_error e"
        using 1(1)[OF _ pr[symmetric] _ _ _ d[symmetric]] Inl pr True next_call 1(3,4) d by auto
      then show ?thesis by (auto split: call_outcome.splits)
    qed
  qed
qed

section \<open>Cache-first completion\<close>

lemma facade_stage_trace_frame [simp]:
  "fa_cache (facade_stage_trace ext m k q i h a u e f) = fa_cache f"
  "fa_breaker (facade_stage_trace ext m k q i h a u e f) = fa_breaker f"
  "fa_budget (facade_stage_trace ext m k q i h a u e f) = fa_budget f"
  "fa_usage (facade_stage_trace ext m k q i h a u e f) = fa_usage f"
  "fa_now (facade_stage_trace ext m k q i h a u e f) = fa_now f"
  by (simp_all add: facade_stage_trace_def Let_def)

lemma facade_finish_frame:
  "facade_finish ext resp schema k q i m hit a f = (r, f') \<Longrightarrow>
   fa_cache f' = fa_cache f \<and> fa_breaker f' = fa_breaker f \<and> fa_now f' = fa_now f \<and>
   (hit \<longrightarrow> fa_usage f' = fa_usage f)"
  by (auto simp: facade_finish_def Let_def split: sum.splits prod.splits option.splits if_splits)

lemma facade_finish_Ok:
  "facade_finish ext resp schema k q i m hit a f = (Ok x, f') \<Longrightarrow> fr_response x = resp \<and> fr_cache_hit x = hit"
  by (auto simp: facade_finish_def Let_def split: sum.splits prod.splits option.splits)

text \<open>
  Whether finishing a response succeeds, and what it parses to, depends only on the response,
  the schema and the budget.
\<close>

lemma facade_finish_same:
  assumes "facade_finish ext resp schema k q i m hit a f = (Ok x, f')" and "fa_budget g = fa_budget f"
  shows "\<exists>y g'. facade_finish ext resp schema k q i m hit' a' g = (Ok y, g') \<and>
    fr_response y = fr_response x \<and> fr_parsed y = fr_parsed x \<and> fr_usage y = fr_usage x \<and>
    fr_cache_hit y = hit' \<and> fa_budget g' = fa_budget f'"
  using assms
  by (auto simp: facade_finish_def Let_def split: sum.splits prod.splits option.splits if_splits)

lemma complete_hit:
  assumes "check_opt (fa_budget f) = Ok ()"
    and "request_key (mx_cache ext) (fold_output_schema rq schema) k q = Ok ck"
    and "cache_get ck (fa_cache f) = (Some hit, cache')" and "\<not> re_digest_only hit"
    and "facade_complete ext rq schema k q i f w = (r, f', w')"
  shows "w' = w \<and> fa_breaker f' = fa_breaker f \<and> fa_usage f' = fa_usage f \<and>
    (\<forall>x. r = Ok x \<longrightarrow> fr_response x = re_response hit \<and> fr_cache_hit x)"
proof -
  let ?f1 = "f\<lparr>fa_cache := cache'\<rparr>"
  obtain r0 f2 where fin: "facade_finish ext (re_response hit) schema k q i
      (rq_model (fold_output_schema rq schema)) True 0 ?f1 = (r0, f2)"
    by fastforce
  have "r = r0 \<and> f' = f2 \<and> w' = w"
    using assms fin by (simp add: facade_complete_def Let_def)
  then show ?thesis
    using facade_finish_frame[OF fin] facade_finish_Ok[of ext _ schema k q i _ True 0 ?f1] fin by auto
qed

lemma cache_put_get_full:
  assumes "cache_ok c" and "\<not> ce_digest_only (choose_entry ext (rc_now c) k r)"
    and "cache_get k (cache_put ext k r c) = (x, c')"
  shows "x = Some \<lparr>re_response = r, re_digest = rx_sha256 ext r, re_digest_only = False\<rparr>"
  using cache_get_put[OF assms(1,3)] assms(2) by simp

text \<open>
  Retry determinism of the facade: a completed provider call, replayed in the same scope from
  the cache it left and with the budget it started from, is served without the provider, the
  breaker or the clock, with the same response, usage and parsed value.
\<close>

lemma complete_miss_Ok:
  assumes "complete_miss ext rq ck schema k q i f w = (Ok x, f', w')"
  shows "\<exists>resp a f2 w1. call_with_retry ext (fa_policy f) rq w = (Answered resp a, w') \<and>
    fa_cache f' = cache_put (mx_cache ext) ck resp (fa_cache f) \<and> fr_response x = resp \<and>
    fa_budget f2 = fa_budget f \<and> facade_finish ext resp schema k q i (rq_model rq) False a f2 = (Ok x, f')"
proof -
  obtain gate br where g: "before_call (fa_now f) (fa_breaker f) = (gate, br)" by fastforce
  obtain out w1 where o: "call_with_retry ext (fa_policy f) rq w = (out, w1)" by fastforce
  have gate: "gate = Ok ()"
    using assms g by (cases gate) (auto simp: complete_miss_def Let_def)
  show ?thesis
  proof (cases out)
    case (Answered resp a)
    let ?f2 = "f\<lparr>fa_breaker := record_success br, fa_cache := cache_put (mx_cache ext) ck resp (fa_cache f)\<rparr>"
    obtain r f3 where fin: "facade_finish ext resp schema k q i (rq_model rq) False a ?f2 = (r, f3)"
      by fastforce
    have "r = Ok x \<and> f3 = f' \<and> w1 = w'"
      using assms g gate o Answered fin by (simp add: complete_miss_def Let_def)
    then show ?thesis
      using o Answered fin facade_finish_frame[OF fin] facade_finish_Ok[of ext resp schema k q i _ False a ?f2 x f']
      by (intro exI[of _ resp] exI[of _ a] exI[of _ ?f2] exI[of _ w1]) auto
  qed (use assms g gate o in \<open>auto simp: complete_miss_def Let_def\<close>)
qed

lemma complete_replay:
  assumes ok: "cache_ok (fa_cache f)"
    and key: "request_key (mx_cache ext) (fold_output_schema rq schema) k q = Ok ck"
    and miss: "fst (cache_get ck (fa_cache f)) = None"
    and fit: "\<not> ce_digest_only (choose_entry (mx_cache ext) (rc_now (fa_cache f)) ck (fr_response x))"
    and run: "facade_complete ext rq schema k q i f w = (Ok x, f', w')"
    and again: "fa_cache g = fa_cache f'" "fa_budget g = fa_budget f"
  shows "\<exists>y g'. facade_complete ext rq schema k q i g v = (Ok y, g', v) \<and>
    fr_response y = fr_response x \<and> fr_parsed y = fr_parsed x \<and> fr_usage y = fr_usage x \<and>
    fr_cache_hit y \<and> fa_breaker g' = fa_breaker g"
proof -
  let ?rq = "fold_output_schema rq schema"
  obtain c1 where c1: "cache_get ck (fa_cache f) = (None, c1)" using miss by (cases "cache_get ck (fa_cache f)") auto
  have ok1: "cache_ok c1" "rc_now c1 = rc_now (fa_cache f)" using cache_get_ok[OF ok c1] by auto
  have chk: "check_opt (fa_budget f) = Ok ()"
    using run by (auto simp: facade_complete_def split: sum.splits)
  have "complete_miss ext ?rq ck schema k q i (f\<lparr>fa_cache := c1\<rparr>) w = (Ok x, f', w')"
    using run key c1 chk by (simp add: facade_complete_def Let_def)
  from complete_miss_Ok[OF this] obtain resp a f2 where
    cput: "fa_cache f' = cache_put (mx_cache ext) ck resp c1" and resp: "fr_response x = resp" and
    bud: "fa_budget f2 = fa_budget f" and
    fin: "facade_finish ext resp schema k q i (rq_model ?rq) False a f2 = (Ok x, f')"
    by auto
  obtain h c2 where h: "cache_get ck (fa_cache g) = (h, c2)" by fastforce
  then have hit: "h = Some \<lparr>re_response = resp, re_digest = rx_sha256 (mx_cache ext) resp, re_digest_only = False\<rparr>"
    using cache_put_get_full[OF ok1(1), of "mx_cache ext" ck resp h c2] fit ok1(2) resp again(1) cput by simp
  obtain y g' where y: "facade_finish ext resp schema k q i (rq_model ?rq) True 0 (g\<lparr>fa_cache := c2\<rparr>) = (Ok y, g')"
    "fr_response y = fr_response x" "fr_parsed y = fr_parsed x" "fr_usage y = fr_usage x" "fr_cache_hit y = True"
    using facade_finish_same[OF fin, of "g\<lparr>fa_cache := c2\<rparr>" True 0] bud again(2) by auto
  have "facade_complete ext rq schema k q i g v = (Ok y, g', v)"
    using chk key h hit y(1) again(2) by (simp add: facade_complete_def Let_def)
  then show ?thesis using y facade_finish_frame[OF y(1)] by auto
qed

section \<open>A concrete provider and facade\<close>

definition demo_model :: "unit model_ext" where
  "demo_model =
     \<lparr>mx_cache = \<lparr>rx_sha256 = id, rx_byte_size = \<lambda>_. 1\<rparr>, mx_provider = (\<lambda>rq w. (Ok [5], w)),
      mx_uniform = (\<lambda>n w. (0, w)), mx_sleep = (\<lambda>n w. w),
      mx_decode = (\<lambda>b. Ok \<lparr>dr_usage = \<lparr>tu_prompt = 2, tu_completion = 1, tu_total = 3\<rparr>, dr_text = ''x''\<rparr>),
      mx_error_name = (\<lambda>_. [])\<rparr>"

definition demo_facade :: facade where
  "demo_facade =
     \<lparr>fa_cache = cache_init (mx_cache demo_model) None 0, fa_now = 0, fa_breaker = breaker_init ''api'' 3 1000,
      fa_policy = \<lparr>rp_max_attempts = 2, rp_base_ms = 1, rp_max_ms = 10\<rparr>, fa_budget = None, fa_traces = [], fa_usage = []\<rparr>"

definition demo_request :: llm_request where
  "demo_request = \<lparr>rq_model = ''m'', rq_messages = JNull, rq_tools = JNull, rq_params = JNull\<rparr>"

section \<open>Properties\<close>



text \<open>
  A token budget never lets an activation consume more than its limit plus the one charge that
  trips it, and once tripped every later charge is refused.
\<close>

theorem budget_overshoot_bounded:
  assumes "budget_init limit = Ok b" and "charge_all ns b = (rs, b')" and "\<forall>n \<in> set ns. n \<le> mx" and "0 \<le> mx"
  shows "tb_consumed b' \<le> limit + mx \<and> (tb_exhausted b' \<longleftrightarrow> limit < tb_consumed b') \<and>
    (tb_exhausted b' \<longrightarrow> budget_charge n b' = (Err (BudgetExceeded limit (tb_consumed b')), b'))"
proof -
  have "budget_inv mx b' \<and> tb_limit b' = limit"
    using charge_all_inv[OF assms(2) _ assms(3)] budget_init_inv[OF assms(1,4)] by simp
  then show ?thesis using charge_exhausted[of b' n] assms(4) by (auto simp: budget_inv_def split: if_splits)
qed

theorem budget_overshoot_bounded_witness:
  "tb_consumed (snd (charge_all [6, 6, 6] \<lparr>tb_limit = 10, tb_consumed = 0, tb_exhausted = False\<rparr>)) \<le> 16"
proof -
  have i: "budget_init 10 = Ok \<lparr>tb_limit = 10, tb_consumed = 0, tb_exhausted = False\<rparr>" by (simp add: budget_init_def)
  obtain rs b' where c: "charge_all [6, 6, 6] \<lparr>tb_limit = 10, tb_consumed = 0, tb_exhausted = False\<rparr> = (rs, b')"
    by (metis prod.exhaust)
  from budget_overshoot_bounded[OF i c, of 6] show ?thesis unfolding c by simp
qed

text \<open>
  After any sequence of calls, failures and successes, the circuit breaker refuses a call
  exactly while it is open and its cooldown has not elapsed.
\<close>

theorem breaker_refuses_while_open:
  assumes "0 < threshold" and "b = fold breaker_step evs (breaker_init endpoint threshold cooldown)"
  shows "fst (before_call now b) = Err e \<longleftrightarrow> e = CircuitOpenError (br_endpoint b) \<and> br_state b = Open \<and>
    (\<exists>t. br_opened_at b = Some t \<and> now - t < br_cooldown b)"
  using breaker_refuses_iff breaker_run_inv[OF breaker_init_inv[OF assms(1)], of endpoint cooldown] assms
  by (simp add: breaker_init_def)

theorem breaker_refuses_while_open_witness:
  "fst (before_call 5 (fold breaker_step [FailedAt 1, FailedAt 2] (breaker_init ''api'' 2 1000))) = Err (CircuitOpenError ''api'')"
  by (subst breaker_refuses_while_open[OF _ refl])
    (simp_all add: breaker_init_def record_failure_def before_call_def)

text \<open>
  A model call is attempted at most \<open>max_attempts\<close> times: it is answered at some attempt within
  the bound, or it fails with the provider error of the last one, or it ends at once with an
  error that is not the provider's.
\<close>

theorem retry_attempts_bounded:
  assumes "1 \<le> rp_max_attempts policy" and "call_with_retry ext policy rq w = (out, w')"
  shows "case out of Answered r n \<Rightarrow> 1 \<le> n \<and> n \<le> rp_max_attempts policy
    | Failed e n \<Rightarrow> n = rp_max_attempts policy \<and> is_provider_error e
    | Escaped e \<Rightarrow> \<not> is_provider_error e"
  using call_from_attempts[OF assms(2)[unfolded call_with_retry_def]] assms(1) by simp

theorem retry_attempts_bounded_witness:
  "\<exists>r n w'. call_with_retry demo_model \<lparr>rp_max_attempts = 2, rp_base_ms = 1, rp_max_ms = 10\<rparr> demo_request () = (Answered r n, w') \<and> n \<le> 2"
proof -
  have c: "call_with_retry demo_model \<lparr>rp_max_attempts = 2, rp_base_ms = 1, rp_max_ms = 10\<rparr> demo_request () = (Answered [5] 1, ())"
    by (simp add: call_with_retry_def call_from.simps demo_model_def)
  from retry_attempts_bounded[OF _ c] c show ?thesis by auto
qed

end
