(* ===== verification/Tools.thy ===== *)
theory Tools
  imports Json
begin

text \<open>
  The tool registry (\<open>tools/registry.py\<close>) and the inline runner (\<open>tools/runner.py\<close>). A callable
  is its parameter list, the validation of its arguments against the derived model (pydantic, a
  parameter) and its effect on the world. The two guards that keep a side-effecting tool from
  running inside the pipeline are \<open>tool_call\<close> and \<open>tool_run\<close>.
\<close>

section \<open>Signatures\<close>

datatype param_kind = Positional | KeywordOnly | VarPositional | VarKeyword

datatype annotation = NoAnnotation | IntentInfoAnnotation | OtherAnnotation string

record param =
  pa_name :: string
  pa_kind :: param_kind
  pa_annotation :: annotation
  pa_default :: "json option"

definition INTENT_PARAM :: string where "INTENT_PARAM = ''intent''"

fun detect_from :: "bool \<Rightarrow> bool \<Rightarrow> param list \<Rightarrow> bool res" where
  "detect_from side_effect accepts [] = Ok accepts"
| "detect_from side_effect accepts (p # ps) =
     (if pa_annotation p \<noteq> IntentInfoAnnotation then detect_from side_effect accepts ps
      else if pa_name p \<noteq> INTENT_PARAM \<or> pa_kind p \<noteq> KeywordOnly then Err ToolDefinitionError
      else if \<not> side_effect then Err ToolDefinitionError
      else detect_from side_effect True ps)"

definition detect_intent_param :: "param list \<Rightarrow> bool \<Rightarrow> bool res" where
  "detect_intent_param params side_effect = detect_from side_effect False params"

fun build_argument_model :: "bool \<Rightarrow> param list \<Rightarrow> (string \<times> annotation \<times> json option) list res" where
  "build_argument_model accepts_intent [] = Ok []"
| "build_argument_model accepts_intent (p # ps) =
     (if accepts_intent \<and> pa_name p = INTENT_PARAM then build_argument_model accepts_intent ps
      else if pa_kind p = VarPositional \<or> pa_kind p = VarKeyword then Err ToolDefinitionError
      else if pa_annotation p = NoAnnotation then Err ToolDefinitionError
      else bindE (build_argument_model accepts_intent ps)
             (\<lambda>fields. Ok ((pa_name p, pa_annotation p, pa_default p) # fields)))"

section \<open>Tools and the registry\<close>

record 'w callable =
  fn_params :: "param list"
  fn_validate :: "json \<Rightarrow> json option"
  fn_body :: "json \<Rightarrow> 'w \<Rightarrow> json res \<times> 'w"

record 'w tool =
  tl_name :: string
  tl_description :: string
  tl_side_effect :: bool
  tl_accepts_intent :: bool
  tl_fields :: "(string \<times> annotation \<times> json option) list"
  tl_func :: "'w callable"

definition tool_init :: "'w callable \<Rightarrow> string \<Rightarrow> string \<Rightarrow> bool \<Rightarrow> 'w tool res" where
  "tool_init func name description side_effect =
     bindE (detect_intent_param (fn_params func) side_effect) (\<lambda>accepts_intent.
     bindE (build_argument_model accepts_intent (fn_params func)) (\<lambda>fields.
       Ok \<lparr>tl_name = name, tl_description = description, tl_side_effect = side_effect,
           tl_accepts_intent = accepts_intent, tl_fields = fields, tl_func = func\<rparr>))"

text \<open>The validator a tool with an injected intent puts in front of its argument model.\<close>

definition reject_injected_intent :: "json \<Rightarrow> json option" where
  "reject_injected_intent data =
     (case data of
        JObj kvs \<Rightarrow> (if map_of kvs INTENT_PARAM \<noteq> None then None else Some data)
      | _ \<Rightarrow> Some data)"

definition tool_validate :: "'w tool \<Rightarrow> json \<Rightarrow> json option" where
  "tool_validate t arguments =
     (case (if tl_accepts_intent t then reject_injected_intent arguments else Some arguments) of
        None \<Rightarrow> None
      | Some a \<Rightarrow> fn_validate (tl_func t) a)"

definition tool_call :: "'w tool \<Rightarrow> json \<Rightarrow> 'w \<Rightarrow> json res \<times> 'w" where
  "tool_call t arguments w =
     (if tl_side_effect t then (Err (SideEffectToolError (tl_name t)), w)
      else fn_body (tl_func t) arguments w)"

definition tool_unwrap :: "'w tool \<Rightarrow> 'w callable" where
  "tool_unwrap t = tl_func t"

type_synonym 'w registry = "(string, 'w tool) dict"

definition registry_register :: "'w tool \<Rightarrow> 'w registry \<Rightarrow> 'w registry res" where
  "registry_register t reg =
     (if map_of reg (tl_name t) \<noteq> None then Err ToolError
      else Ok (AList.update (tl_name t) t reg))"

definition registry_get :: "'w registry \<Rightarrow> string \<Rightarrow> 'w tool res" where
  "registry_get reg name =
     (case map_of reg name of None \<Rightarrow> Err (ToolNotFoundError name) | Some t \<Rightarrow> Ok t)"

definition tool_run :: "'w tool \<Rightarrow> json \<Rightarrow> 'w \<Rightarrow> json res \<times> 'w" where
  "tool_run t arguments w =
     (if tl_side_effect t then (Err (SideEffectToolError (tl_name t)), w)
      else (case tool_validate t arguments of
              None \<Rightarrow> (Err (ToolArgumentError (tl_name t)), w)
            | Some validated \<Rightarrow> tool_call t validated w))"

section \<open>Lemmas\<close>

text \<open>Neither guard lets a side-effecting tool touch the world.\<close>

lemma side_effect_refused:
  "tl_side_effect t \<Longrightarrow> tool_run t a w = (Err (SideEffectToolError (tl_name t)), w)"
  "tl_side_effect t \<Longrightarrow> tool_call t a w = (Err (SideEffectToolError (tl_name t)), w)"
  by (simp_all add: tool_run_def tool_call_def)

lemma detect_accepts:
  "detect_from se acc ps = Ok True \<Longrightarrow> acc \<or>
   se \<and> (\<exists>p \<in> set ps. pa_name p = INTENT_PARAM \<and> pa_kind p = KeywordOnly \<and> pa_annotation p = IntentInfoAnnotation)"
  by (induction ps arbitrary: acc) (auto split: if_splits)

lemma model_hides_intent:
  "build_argument_model True ps = Ok fs \<Longrightarrow> INTENT_PARAM \<notin> fst ` set fs"
proof (induction ps arbitrary: fs)
  case (Cons p ps)
  show ?case
  proof (cases "pa_name p = INTENT_PARAM")
    case True
    then show ?thesis using Cons by simp
  next
    case False
    then obtain gs where "build_argument_model True ps = Ok gs"
      and "fs = (pa_name p, pa_annotation p, pa_default p) # gs"
      using Cons.prems by (auto split: if_splits)
    then show ?thesis using Cons.IH False by auto
  qed
qed simp

lemma tool_init_cases:
  "tool_init f n d se = Ok t \<Longrightarrow>
   detect_from se False (fn_params f) = Ok (tl_accepts_intent t) \<and>
   build_argument_model (tl_accepts_intent t) (fn_params f) = Ok (tl_fields t) \<and>
   tl_side_effect t = se \<and> tl_name t = n \<and> tl_func t = f"
  unfolding tool_init_def detect_intent_param_def
  by (cases "detect_from se False (fn_params f)") (auto split: sum.splits)

lemma tool_init_intent:
  assumes "tool_init f n d se = Ok t" and "tl_accepts_intent t"
  shows "tl_side_effect t" and "INTENT_PARAM \<notin> fst ` set (tl_fields t)"
  using tool_init_cases[OF assms(1)] assms(2) detect_accepts[of se False "fn_params f"]
    model_hides_intent[of "fn_params f" "tl_fields t"] by auto

lemma tool_validate_intent:
  "\<lbrakk>tl_accepts_intent t; map_of kvs INTENT_PARAM \<noteq> None\<rbrakk> \<Longrightarrow> tool_validate t (JObj kvs) = None"
  by (simp add: tool_validate_def reject_injected_intent_def)

text \<open>Registering never shadows: what was registered stays what it was.\<close>

lemma register_keeps:
  "\<lbrakk>registry_register t reg = Ok reg'; registry_get reg n = Ok u\<rbrakk> \<Longrightarrow> registry_get reg' n = Ok u"
  by (auto simp: registry_register_def registry_get_def update_conv' split: if_splits option.splits)

lemma register_finds:
  "registry_register t reg = Ok reg' \<Longrightarrow> registry_get reg' (tl_name t) = Ok t"
  by (auto simp: registry_register_def registry_get_def update_conv' split: if_splits)

section \<open>Properties\<close>

text \<open>
  A side-effecting tool never runs inside an activation: both entrances refuse it and leave the
  world as it was; and a tool that takes the intent's identity is always side-effecting, with
  the injected parameter hidden from the model's argument schema.
\<close>

theorem side_effects_stay_outside:
  assumes "tool_init func name description side_effect = Ok t"
  shows "(side_effect \<longrightarrow> tool_run t a w = (Err (SideEffectToolError name), w) \<and>
      tool_call t a w = (Err (SideEffectToolError name), w)) \<and>
    (tl_accepts_intent t \<longrightarrow> side_effect \<and> INTENT_PARAM \<notin> fst ` set (tl_fields t))"
  using side_effect_refused tool_init_intent[OF assms] tool_init_cases[OF assms] by auto

theorem side_effects_stay_outside_witness:
  "\<exists>t. tool_init \<lparr>fn_params = [\<lparr>pa_name = INTENT_PARAM, pa_kind = KeywordOnly, pa_annotation = IntentInfoAnnotation, pa_default = None\<rparr>],
       fn_validate = (\<lambda>j. Some j), fn_body = (\<lambda>j w. (Ok JNull, w + (1 :: nat)))\<rparr> ''pay'' [] True = Ok t \<and>
     tool_call t JNull 0 = (Err (SideEffectToolError ''pay''), 0)"
proof -
  obtain t where t: "tool_init \<lparr>fn_params = [\<lparr>pa_name = INTENT_PARAM, pa_kind = KeywordOnly, pa_annotation = IntentInfoAnnotation, pa_default = None\<rparr>],
       fn_validate = (\<lambda>j. Some j), fn_body = (\<lambda>j w. (Ok JNull, w + (1 :: nat)))\<rparr> ''pay'' [] True = Ok t"
    by (simp add: tool_init_def detect_intent_param_def)
  from side_effects_stay_outside[OF t] t show ?thesis by blast
qed

end
