(* ===== verification/Hitl.thy ===== *)
theory Hitl
  imports Wire
begin

text \<open>
  Human-in-the-loop (\<open>hitl.py\<close> and the \<open>FallbackContext\<close> of \<open>core/agent.py\<close>): the expiry guard an
  effector runs first, the timeout routes, and the policy that picks one.
\<close>

section \<open>Layer 2: the expiry guard\<close>

definition DEFAULT_HITL_TIMEOUT_MS :: int where "DEFAULT_HITL_TIMEOUT_MS = 86400000"
definition DEFAULT_INTENT_TTL_MS :: int where "DEFAULT_INTENT_TTL_MS = 3600000"
definition DEFAULT_APPROVAL_CHANNEL :: string where "DEFAULT_APPROVAL_CHANNEL = ''approval''"
definition HITL_TIMEOUT_OUTPUT :: bytes where "HITL_TIMEOUT_OUTPUT = utf8 ''__hitl_timeout__''"
definition REASON_HITL_TIMEOUT :: string where "REASON_HITL_TIMEOUT = ''hitl_timeout''"

definition intent_expired :: "tool_intent \<Rightarrow> msec \<Rightarrow> bool" where
  "intent_expired intent now_ms \<longleftrightarrow> ti_expires intent \<le> 0 \<or> ti_expires intent \<le> now_ms"

definition refuse_expired :: "tool_intent \<Rightarrow> msec \<Rightarrow> tool_result option" where
  "refuse_expired intent now_ms =
     (if \<not> intent_expired intent now_ms then None
      else Some \<lparr>tr_id = ti_id intent, tr_key = ti_key intent, tr_seq = ti_seq intent,
                 tr_status = StatusExpired, tr_payload = [],
                 tr_error = ''intent expired at '' @ dec (ti_expires intent),
                 tr_completed = now_ms\<rparr>)"

section \<open>Layer 1: timeout routes\<close>

datatype route = Deny bytes | Drop string | Escalate string string int

record fallback_context =
  fc_key :: bytes
  fc_seq :: int
  fc_snapshot :: bytes
  fc_kind :: string
  fc_deadline :: msec
  fc_fired :: msec
  fc_pending :: "string list"

record hitl_policy =
  hp_timeout :: int
  hp_intent_ttl :: int
  hp_channel :: string
  hp_max_escalations :: int
  hp_on_timeout :: "fallback_context \<Rightarrow> route res"

definition deny :: "fallback_context \<Rightarrow> route res" where
  "deny fallback = Ok (Deny HITL_TIMEOUT_OUTPUT)"

definition default_policy :: hitl_policy where
  "default_policy =
     \<lparr>hp_timeout = DEFAULT_HITL_TIMEOUT_MS, hp_intent_ttl = DEFAULT_INTENT_TTL_MS,
      hp_channel = DEFAULT_APPROVAL_CHANNEL, hp_max_escalations = 0, hp_on_timeout = deny\<rparr>"

definition policy_validate :: "hitl_policy \<Rightarrow> unit res" where
  "policy_validate p =
     (if hp_timeout p \<le> 0 then Err ValueError
      else if hp_intent_ttl p \<le> 0 then Err ValueError
      else if hp_max_escalations p < 0 then Err ValueError
      else if hp_channel p = [] then Err ValueError
      else Ok ())"

section \<open>Lemmas\<close>

definition policy_ok :: "hitl_policy \<Rightarrow> bool" where
  "policy_ok p \<longleftrightarrow>
     0 < hp_timeout p \<and> 0 < hp_intent_ttl p \<and> 0 \<le> hp_max_escalations p \<and> hp_channel p \<noteq> []"

lemma policy_validate_iff: "policy_validate p = Ok () \<longleftrightarrow> policy_ok p"
  by (auto simp: policy_validate_def policy_ok_def)

lemma default_policy_ok: "policy_ok default_policy"
  by (simp add: policy_ok_def default_policy_def DEFAULT_HITL_TIMEOUT_MS_def
      DEFAULT_INTENT_TTL_MS_def DEFAULT_APPROVAL_CHANNEL_def)

lemma refuse_expired_iff: "refuse_expired i now \<noteq> None \<longleftrightarrow> intent_expired i now"
  by (simp add: refuse_expired_def)

lemma refusal_shape:
  "refuse_expired i now = Some r \<Longrightarrow>
   tr_id r = ti_id i \<and> tr_key r = ti_key i \<and> tr_seq r = ti_seq i \<and> tr_status r = StatusExpired"
  by (auto simp: refuse_expired_def split: if_splits)

lemma intent_expired_mono: "\<lbrakk>intent_expired i now; now \<le> later\<rbrakk> \<Longrightarrow> intent_expired i later"
  by (auto simp: intent_expired_def)

end
