(* ===== verification/Activation_Context.thy ===== *)
theory Activation_Context
  imports Compaction Model_Facade Tools Hitl
begin

text \<open>
  The per-activation staging surface (\<open>ActivationContext\<close> in \<open>core/context.py\<close>): everything an
  agent does through it is staged in the record below and applied by nobody until the activation
  returns. What is not this code (the provider, the clock, the tools, the long-term store) acts
  on a world of type \<open>'w\<close> through the fields of \<open>act_ext\<close>.
\<close>

section \<open>State\<close>

record tally =
  ty_llm_calls :: int
  ty_tool_calls :: int
  ty_iterations :: int
  ty_total :: int
  ty_prompt :: int
  ty_completion :: int
  ty_usage_observed :: bool
  ty_llm_ms :: "int list"
  ty_tool_ms :: "int list"

definition empty_tally :: tally where
  "empty_tally =
     \<lparr>ty_llm_calls = 0, ty_tool_calls = 0, ty_iterations = 0, ty_total = 0, ty_prompt = 0,
      ty_completion = 0, ty_usage_observed = False, ty_llm_ms = [], ty_tool_ms = []\<rparr>"

record 'w act_ext =
  ax_uuid :: "string \<Rightarrow> string"
  ax_trace_uuid :: "string \<Rightarrow> bytes"
  ax_cache :: rc_ext
  ax_provider :: "llm_request \<Rightarrow> 'w \<Rightarrow> bytes res \<times> 'w"
  ax_clock :: "'w \<Rightarrow> int \<times> 'w"
  ax_decode :: "(bytes \<Rightarrow> decoded_response res) option"
  ax_compactor :: "compactor option"
  ax_store :: "'w backend option"
  ax_tools :: "'w registry"

record activation_input =
  ai_key :: bytes
  ai_seq :: int
  ai_now :: msec
  ai_memory :: "memory_blob option"
  ai_cache :: "llm_cache_blob option"
  ai_event :: bytes
  ai_events :: "bytes list option"
  ai_trigger :: string
  ai_resume_result :: "tool_result option"
  ai_resume_approval :: "approval option"
  ai_snapshot :: bytes
  ai_step :: int
  ai_intent_ttl :: int
  ai_channel :: string
  ai_default_timeout :: int
  ai_max_tokens :: "int option"

record activation_ctx =
  ac_key :: bytes
  ac_seq :: int
  ac_now :: msec
  ac_event :: bytes
  ac_events :: "bytes list option"
  ac_snapshot :: bytes
  ac_resume_result :: "tool_result option"
  ac_resume_approval :: "approval option"
  ac_memory :: memory
  ac_cache :: replay_cache
  ac_intent_ttl :: int
  ac_channel :: string
  ac_budget :: "token_budget option"
  ac_trace :: activation_trace
  ac_step :: int
  ac_start_step :: int
  ac_tool_index :: int
  ac_intents :: "tool_intent list"
  ac_traces :: "trace_event list"
  ac_tally :: tally

definition budget_of :: "int option \<Rightarrow> token_budget option res" where
  "budget_of limit =
     (case limit of None \<Rightarrow> Ok None | Some n \<Rightarrow> bindE (budget_init n) (\<lambda>b. Ok (Some b)))"

definition context_init :: "'w act_ext \<Rightarrow> activation_input \<Rightarrow> activation_ctx res" where
  "context_init ext inp =
     (if ai_events inp = Some [] then Err ValueError
      else if ai_max_tokens inp \<noteq> None \<and> ax_decode ext = None then Err ValueError
      else bindE (budget_of (ai_max_tokens inp)) (\<lambda>budget.
        Ok \<lparr>ac_key = ai_key inp, ac_seq = ai_seq inp, ac_now = ai_now inp,
            ac_event = ai_event inp, ac_events = ai_events inp, ac_snapshot = ai_snapshot inp,
            ac_resume_result = ai_resume_result inp, ac_resume_approval = ai_resume_approval inp,
            ac_memory = memory_init (ai_memory inp) (ai_now inp)
              (case ax_store ext of None \<Rightarrow> None
               | Some _ \<Rightarrow> Some (longterm_init (ai_key inp) (ai_seq inp) (ai_now inp))),
            ac_cache = cache_init (ax_cache ext) (ai_cache inp) (ai_now inp),
            ac_intent_ttl = ai_intent_ttl inp, ac_channel = ai_channel inp, ac_budget = budget,
            ac_trace = trace_init (ax_trace_uuid ext) (ai_key inp) (ai_seq inp) (ai_now inp) (ai_step inp)
              (ai_resume_result inp \<noteq> None \<or> ai_resume_approval inp \<noteq> None),
            ac_step = ai_step inp, ac_start_step = ai_step inp, ac_tool_index = 0,
            ac_intents = [], ac_traces = [], ac_tally = empty_tally\<rparr>))"

section \<open>Reads\<close>

definition is_resume :: "activation_ctx \<Rightarrow> bool" where
  "is_resume c \<longleftrightarrow> ac_resume_result c \<noteq> None \<or> ac_resume_approval c \<noteq> None"

definition is_batch :: "activation_ctx \<Rightarrow> bool" where
  "is_batch c \<longleftrightarrow> ac_events c \<noteq> None"

definition ctx_events :: "activation_ctx \<Rightarrow> bytes list" where
  "ctx_events c =
     (case ac_events c of
        Some evs \<Rightarrow> evs
      | None \<Rightarrow> (if is_resume c then [] else [ac_event c]))"

definition single_event :: "activation_ctx \<Rightarrow> bytes res" where
  "single_event c = (if is_batch c then Err TypeError else Ok (ac_event c))"

definition iterations :: "activation_ctx \<Rightarrow> int" where
  "iterations c = ac_step c - ac_start_step c"

definition ctx_tally :: "activation_ctx \<Rightarrow> tally" where
  "ctx_tally c = (ac_tally c)\<lparr>ty_iterations := iterations c\<rparr>"

definition ctx_upserts :: "activation_ctx \<Rightarrow> memory_record list" where
  "ctx_upserts c = longterm_staged (ac_memory c)"

section \<open>Staging\<close>

definition advance_step :: "activation_ctx \<Rightarrow> int \<times> activation_ctx" where
  "advance_step c = (ac_step c, c\<lparr>ac_step := ac_step c + 1\<rparr>)"

definition stage_trace :: "'w act_ext \<Rightarrow> trace_event \<Rightarrow> activation_ctx \<Rightarrow> activation_ctx" where
  "stage_trace ext ev c =
     c\<lparr>ac_traces := ac_traces c @ [stamp (ax_trace_uuid ext) (ac_trace c) ev]\<rparr>"

definition accumulate_usage :: "token_usage \<Rightarrow> activation_ctx \<Rightarrow> activation_ctx" where
  "accumulate_usage u c =
     (let t = ac_tally c in
      c\<lparr>ac_tally := t\<lparr>ty_total := ty_total t + tu_total u, ty_prompt := ty_prompt t + tu_prompt u,
          ty_completion := ty_completion t + tu_completion u, ty_usage_observed := True\<rparr>\<rparr>)"

definition mint_intent ::
  "'w act_ext \<Rightarrow> activation_ctx \<Rightarrow> int \<Rightarrow> string \<Rightarrow> string \<Rightarrow> intent_kind \<Rightarrow> int option \<Rightarrow> tool_intent" where
  "mint_intent ext c step tool_name args_json kind ttl_ms =
     \<lparr>ti_id = intent_id_for (ax_uuid ext) (ac_key c) (ac_seq c) step, ti_key = ac_key c,
      ti_seq = ac_seq c, ti_step = step, ti_tool = tool_name, ti_args = args_json,
      ti_created = ac_now c,
      ti_expires = ac_now c + (case ttl_ms of Some t \<Rightarrow> t | None \<Rightarrow> ac_intent_ttl c),
      ti_attempt = 0, ti_kind = kind,
      ti_trace = trace_id_for (ax_trace_uuid ext) (at_key (ac_trace c)) (at_seq (ac_trace c)),
      ti_scheme = SchemeUnspecified, ti_key_id = [], ti_sig = []\<rparr>"

definition stage_intent ::
  "'w act_ext \<Rightarrow> string \<Rightarrow> string \<Rightarrow> intent_kind \<Rightarrow> int option \<Rightarrow> activation_ctx
   \<Rightarrow> string \<times> activation_ctx" where
  "stage_intent ext tool_name args_json kind ttl_ms c =
     (let (step, c1) = advance_step c;
          intent = mint_intent ext c1 step tool_name args_json kind ttl_ms in
      (ti_id intent,
       c1\<lparr>ac_intents := ac_intents c1 @ [intent],
          ac_traces := ac_traces c1 @
            [intent_emitted (ax_trace_uuid ext) (ac_trace c1) step (ti_id intent) tool_name
               (kind_name kind) (ti_expires intent)]\<rparr>))"

definition act :: "'w act_ext \<Rightarrow> string \<Rightarrow> string \<Rightarrow> int option \<Rightarrow> activation_ctx \<Rightarrow> string \<times> activation_ctx" where
  "act ext tool_name args_json ttl_ms c = stage_intent ext tool_name args_json ToolKind ttl_ms c"

definition request_approval ::
  "'w act_ext \<Rightarrow> string \<Rightarrow> string option \<Rightarrow> int option \<Rightarrow> activation_ctx \<Rightarrow> string \<times> activation_ctx" where
  "request_approval ext args_json channel ttl_ms c =
     stage_intent ext (case channel of Some ch \<Rightarrow> ch | None \<Rightarrow> ac_channel c) args_json ApprovalKind ttl_ms c"

section \<open>Model calls\<close>

definition decoded_usage :: "'w act_ext \<Rightarrow> bytes \<Rightarrow> token_usage option res" where
  "decoded_usage ext response =
     (case ax_decode ext of
        None \<Rightarrow> Ok None
      | Some decode \<Rightarrow> bindE (decode response) (\<lambda>d. Ok (Some (dr_usage d))))"

definition ctx_charge :: "token_usage option \<Rightarrow> activation_ctx \<Rightarrow> unit res \<times> activation_ctx" where
  "ctx_charge usage c =
     (case ac_budget c of
        None \<Rightarrow> (Ok (), c)
      | Some b \<Rightarrow>
          (case usage of
             None \<Rightarrow> (Err AssertionError, c)
           | Some u \<Rightarrow>
               (let (r, b') = budget_charge (tu_total u) b in (r, c\<lparr>ac_budget := Some b'\<rparr>))))"

definition stage_llm_trace ::
  "'w act_ext \<Rightarrow> int \<Rightarrow> bool \<Rightarrow> string \<Rightarrow> token_usage option \<Rightarrow> activation_ctx \<Rightarrow> activation_ctx" where
  "stage_llm_trace ext step cache_hit model_id usage c =
     stage_trace ext
       (plain_event (ac_key c) (ac_seq c) (ac_now c) LlmCall step
         ([(OPERATION_NAME, OPERATION_CHAT), (REQUEST_MODEL, model_id), (CACHE_HIT, bool_text cache_hit)]
          @ usage_attributes usage (\<not> cache_hit))) c"

text \<open>The common tail: decode once, stage the trace, charge.\<close>

definition consume_response ::
  "'w act_ext \<Rightarrow> int \<Rightarrow> bool \<Rightarrow> string \<Rightarrow> bytes \<Rightarrow> activation_ctx \<Rightarrow> bytes res \<times> activation_ctx" where
  "consume_response ext step cache_hit model_id response c =
     (case decoded_usage ext response of
        Inl e \<Rightarrow> (Err e, c)
      | Inr usage \<Rightarrow>
          (let (r, c') = ctx_charge usage (stage_llm_trace ext step cache_hit model_id usage c) in
           (bindE r (\<lambda>_. Ok response), c')))"

definition NS_PER_MS :: int where "NS_PER_MS = 1000000"

definition call_provider ::
  "'w act_ext \<Rightarrow> llm_request \<Rightarrow> string \<Rightarrow> int \<Rightarrow> activation_ctx \<Rightarrow> 'w \<Rightarrow> bytes res \<times> activation_ctx \<times> 'w" where
  "call_provider ext rq cache_key step c w =
     (let (started, w1) = ax_clock ext w;
          (answer, w2) = ax_provider ext rq w1 in
      case answer of
        Inl e \<Rightarrow> (Err e, c, w2)
      | Inr response \<Rightarrow>
          (let (ended, w3) = ax_clock ext w2;
               t = ac_tally c;
               c1 = c\<lparr>ac_cache := cache_put (ax_cache ext) cache_key response (ac_cache c),
                      ac_tally := t\<lparr>ty_llm_calls := ty_llm_calls t + 1,
                        ty_llm_ms := ty_llm_ms t @ [(ended - started) div NS_PER_MS]\<rparr>\<rparr>;
               (r, c2) = consume_response ext step False (rq_model rq) response c1 in
           (r, c2, w3)))"

definition call_model ::
  "'w act_ext \<Rightarrow> llm_request \<Rightarrow> activation_ctx \<Rightarrow> 'w \<Rightarrow> bytes res \<times> activation_ctx \<times> 'w" where
  "call_model ext rq c w =
     (case check_opt (ac_budget c) of
        Inl e \<Rightarrow> (Err e, c, w)
      | Inr _ \<Rightarrow>
          (let (step, c1) = advance_step c in
           case request_key (ax_cache ext) rq (ac_key c1) (ac_seq c1) of
             Inl e \<Rightarrow> (Err e, c1, w)
           | Inr cache_key \<Rightarrow>
               (let (cached, cache') = cache_get cache_key (ac_cache c1);
                    c2 = c1\<lparr>ac_cache := cache'\<rparr> in
                case cached of
                  None \<Rightarrow> call_provider ext rq cache_key step c2 w
                | Some hit \<Rightarrow>
                    (if re_digest_only hit then call_provider ext rq cache_key step c2 w
                     else
                       (let (r, c3) = consume_response ext step True (rq_model rq) (re_response hit) c2 in
                        (r, c3, w))))))"

section \<open>Inline tools\<close>

definition run_tool ::
  "'w act_ext \<Rightarrow> string \<Rightarrow> json \<Rightarrow> activation_ctx \<Rightarrow> 'w \<Rightarrow> json res \<times> activation_ctx \<times> 'w" where
  "run_tool ext tool_name arguments c w =
     (case registry_get (ax_tools ext) tool_name of
        Inl e \<Rightarrow> (Err e, c, w)
      | Inr t \<Rightarrow>
          (let (started, w1) = ax_clock ext w;
               (r, w2) = tool_run t arguments w1 in
           case r of
             Inl e \<Rightarrow> (Err e, c, w2)
           | Inr v \<Rightarrow>
               (let (ended, w3) = ax_clock ext w2;
                    y = ac_tally c in
                (Ok v,
                 c\<lparr>ac_tally := y\<lparr>ty_tool_calls := ty_tool_calls y + 1,
                     ty_tool_ms := ty_tool_ms y @ [(ended - started) div NS_PER_MS]\<rparr>,
                   ac_traces := ac_traces c @
                     [tool_call_event (ax_trace_uuid ext) (ac_trace c) (ac_step c) (ac_tool_index c) tool_name],
                   ac_tool_index := ac_tool_index c + 1\<rparr>, w3))))"

section \<open>Suspension\<close>

definition build_continuation :: "bytes \<Rightarrow> string \<Rightarrow> msec \<Rightarrow> activation_ctx \<Rightarrow> continuation" where
  "build_continuation snapshot adapter deadline_ms c =
     \<lparr>co_version = CURRENT_STATE_SCHEMA_VERSION, co_seq = ac_seq c, co_step = ac_step c,
      co_pending = map ti_id (ac_intents c), co_adapter = adapter, co_snapshot = snapshot,
      co_suspended = ac_now c, co_deadline = deadline_ms, co_escalations = 0\<rparr>"

end
