(* ===== verification/Batching.thy ===== *)
theory Batching
  imports Prelude
begin

text \<open>
  Adaptive batching (\<open>core/batching.py\<close>): the policy, its validated settings and the three flush
  predicates the stateful DoFn asks. Everything here is pure.
\<close>

section \<open>Definitions\<close>

datatype batch_policy = PolicyNone | PolicyAdaptive

record batch_settings =
  bs_max_batch_size :: int
  bs_max_wait_ms :: int
  bs_max_buffered :: int

definition DEFAULT_MAX_BATCH_SIZE :: int where "DEFAULT_MAX_BATCH_SIZE = 10"
definition DEFAULT_MAX_WAIT_MS :: int where "DEFAULT_MAX_WAIT_MS = 500"
definition BUFFER_HEADROOM :: int where "BUFFER_HEADROOM = 4"

definition TRIGGER_SIZE :: string where "TRIGGER_SIZE = ''size''"
definition TRIGGER_TIMER :: string where "TRIGGER_TIMER = ''timer''"
definition TRACE_BATCH_SIZE :: string where "TRACE_BATCH_SIZE = ''beam_agents.batch.size''"
definition TRACE_BATCH_TRIGGER :: string where "TRACE_BATCH_TRIGGER = ''beam_agents.batch.trigger''"

definition require_positive :: "int \<Rightarrow> int res" where
  "require_positive value = (if value \<le> 0 then Err ValueError else Ok value)"

definition with_default :: "'a option \<Rightarrow> 'a \<Rightarrow> 'a" where
  "with_default x d = (case x of None \<Rightarrow> d | Some v \<Rightarrow> v)"

definition resolve_batch_settings ::
  "batch_policy \<Rightarrow> int option \<Rightarrow> int option \<Rightarrow> int option \<Rightarrow> batch_settings option res" where
  "resolve_batch_settings policy max_batch_size max_wait_ms max_buffered_events =
     (case policy of
        PolicyNone \<Rightarrow>
          (if max_batch_size \<noteq> None \<or> max_wait_ms \<noteq> None \<or> max_buffered_events \<noteq> None
           then Err ValueError else Ok None)
      | PolicyAdaptive \<Rightarrow>
          bindE (require_positive (with_default max_batch_size DEFAULT_MAX_BATCH_SIZE)) (\<lambda>sz.
          bindE (require_positive (with_default max_wait_ms DEFAULT_MAX_WAIT_MS)) (\<lambda>wait_ms.
          bindE (require_positive (with_default max_buffered_events (BUFFER_HEADROOM * sz))) (\<lambda>cap.
            if cap < sz then Err ValueError
            else Ok (Some \<lparr>bs_max_batch_size = sz, bs_max_wait_ms = wait_ms, bs_max_buffered = cap\<rparr>)))))"

definition should_flush_on_size :: "int \<Rightarrow> int \<Rightarrow> bool \<Rightarrow> bool" where
  "should_flush_on_size buffered max_batch_size continuation_live \<longleftrightarrow>
     buffered \<ge> max_batch_size \<and> \<not> continuation_live"

definition should_flush_on_timer :: "int \<Rightarrow> bool \<Rightarrow> bool" where
  "should_flush_on_timer buffered continuation_live \<longleftrightarrow> buffered > 0 \<and> \<not> continuation_live"

definition buffer_is_full :: "int \<Rightarrow> int \<Rightarrow> bool" where
  "buffer_is_full buffered max_buffered_events \<longleftrightarrow> buffered \<ge> max_buffered_events"

section \<open>Lemmas\<close>

text \<open>What the resolver promises of the settings it hands to the DoFn.\<close>

definition settings_ok :: "batch_settings \<Rightarrow> bool" where
  "settings_ok b \<longleftrightarrow>
     0 < bs_max_batch_size b \<and> 0 < bs_max_wait_ms b \<and> bs_max_batch_size b \<le> bs_max_buffered b"

lemma require_positive_Ok [simp]: "require_positive v = Ok w \<longleftrightarrow> 0 < v \<and> w = v"
  by (auto simp: require_positive_def)

lemma resolve_settings_ok:
  "resolve_batch_settings policy sz wait cap = Ok (Some b) \<Longrightarrow> policy = PolicyAdaptive \<and> settings_ok b"
  by (cases policy) (auto simp: resolve_batch_settings_def settings_ok_def split: if_splits)

lemma resolve_none_iff:
  "resolve_batch_settings policy sz wait cap = Ok None \<longleftrightarrow>
     policy = PolicyNone \<and> sz = None \<and> wait = None \<and> cap = None"
  by (cases policy) (auto simp: resolve_batch_settings_def split: if_splits)

lemma resolve_defaults:
  "resolve_batch_settings PolicyAdaptive None None None =
     Ok (Some \<lparr>bs_max_batch_size = 10, bs_max_wait_ms = 500, bs_max_buffered = 40\<rparr>)"
  by (simp add: resolve_batch_settings_def with_default_def require_positive_def
      DEFAULT_MAX_BATCH_SIZE_def DEFAULT_MAX_WAIT_MS_def BUFFER_HEADROOM_def)

text \<open>A buffer that is not full can always reach the flush threshold before it sheds an event.\<close>

lemma full_implies_size_trigger:
  "\<lbrakk>settings_ok b; buffer_is_full n (bs_max_buffered b); \<not> live\<rbrakk>
   \<Longrightarrow> should_flush_on_size n (bs_max_batch_size b) live"
  by (simp add: settings_ok_def buffer_is_full_def should_flush_on_size_def)

lemma flush_predicates_guarded:
  "should_flush_on_size n k live \<Longrightarrow> \<not> live"
  "should_flush_on_timer n live \<Longrightarrow> \<not> live \<and> 0 < n"
  by (auto simp: should_flush_on_size_def should_flush_on_timer_def)

section \<open>Properties\<close>

text \<open>
  The batch settings resolve exactly when the policy is \<open>ADAPTIVE\<close>, each value after defaulting is
  positive and the buffer cap (four batches by default) is at least one batch; then they are the
  defaulted values.
\<close>

theorem batch_settings_resolve:
  "resolve_batch_settings policy sz wait cap = Ok (Some b) \<longleftrightarrow>
     policy = PolicyAdaptive \<and>
     bs_max_batch_size b = with_default sz 10 \<and> bs_max_wait_ms b = with_default wait 500 \<and>
     bs_max_buffered b = with_default cap (4 * bs_max_batch_size b) \<and>
     0 < bs_max_batch_size b \<and> 0 < bs_max_wait_ms b \<and> bs_max_batch_size b \<le> bs_max_buffered b"
  by (cases policy; cases b)
    (auto simp: resolve_batch_settings_def require_positive_def with_default_def DEFAULT_MAX_BATCH_SIZE_def DEFAULT_MAX_WAIT_MS_def BUFFER_HEADROOM_def
      split: if_splits option.splits)

end
