(* ===== verification/Loop.thy ===== *)
theory Loop
  imports Activation_Context Batching
begin

text \<open>
  The activation driver (\<open>core/loop.py\<close>). An agent is an interaction tree over the staging
  surface: every call it can make on its context is a constructor whose continuation receives
  what the call returned or raised, so a theorem by induction on the tree holds for every agent.
  \<open>run_activation\<close> builds the context, drives the agent, runs the summarizer, folds the outcome
  into a result and flushes the long-term upserts; any exception becomes a failure with its
  position.
\<close>

section \<open>Agents\<close>

datatype outcome = Complete bytes | Suspend bytes string "int option"

datatype agent =
    Return outcome
  | Raise exn
  | Inspect "activation_ctx \<Rightarrow> agent"
  | Act string string "int option" "string \<Rightarrow> agent"
  | RequestApproval string "string option" "int option" "string \<Rightarrow> agent"
  | CallModel llm_request "bytes res \<Rightarrow> agent"
  | RunTool string json "json res \<Rightarrow> agent"
  | MemGet string "bytes option res \<Rightarrow> agent"
  | MemSet string bytes "unit res \<Rightarrow> agent"
  | MemDelete string agent
  | MemAppend string bytes int "unit res \<Rightarrow> agent"
  | MemRing string "bytes list res \<Rightarrow> agent"
  | LongtermSave string bytes "unit res \<Rightarrow> agent"
  | LongtermLoad string "memory_record option res \<Rightarrow> agent"
  | LongtermSearch string int "memory_record list res \<Rightarrow> agent"
  | StageTrace trace_event agent
  | AccumulateUsage token_usage agent

definition with_memory :: "memory \<Rightarrow> activation_ctx \<Rightarrow> activation_ctx" where
  "with_memory m c = c\<lparr>ac_memory := m\<rparr>"

text \<open>\<open>ctx.memory.longterm.save\<close>: the handle is required, then the upsert is staged.\<close>

definition ctx_longterm_save :: "string \<Rightarrow> bytes \<Rightarrow> activation_ctx \<Rightarrow> unit res \<times> activation_ctx" where
  "ctx_longterm_save key v c =
     (case bindE (require_longterm (ac_memory c)) (\<lambda>lt. longterm_save lt key v) of
        Inl e \<Rightarrow> (Err e, c)
      | Inr lt' \<Rightarrow> (Ok (), with_memory ((ac_memory c)\<lparr>mem_longterm := Some lt'\<rparr>) c))"

definition ctx_longterm_load ::
  "'w act_ext \<Rightarrow> string \<Rightarrow> activation_ctx \<Rightarrow> 'w \<Rightarrow> memory_record option res" where
  "ctx_longterm_load ext key c w =
     bindE (require_longterm (ac_memory c)) (\<lambda>lt.
       (case ax_store ext of None \<Rightarrow> Err AssertionError | Some bk \<Rightarrow> longterm_load bk w lt key))"

definition ctx_longterm_search ::
  "'w act_ext \<Rightarrow> string \<Rightarrow> int \<Rightarrow> activation_ctx \<Rightarrow> 'w \<Rightarrow> memory_record list res" where
  "ctx_longterm_search ext pre limit c w =
     bindE (require_longterm (ac_memory c)) (\<lambda>lt.
       (case ax_store ext of None \<Rightarrow> Err AssertionError | Some bk \<Rightarrow> longterm_search bk w lt pre limit))"

primrec drive :: "'w act_ext \<Rightarrow> agent \<Rightarrow> activation_ctx \<Rightarrow> 'w \<Rightarrow> outcome res \<times> activation_ctx \<times> 'w" where
  "drive ext (Return out) c w = (Ok out, c, w)"
| "drive ext (Raise e) c w = (Err e, c, w)"
| "drive ext (Inspect k) c w = drive ext (k c) c w"
| "drive ext (Act tool args ttl k) c w =
     (let (i, c1) = act ext tool args ttl c in drive ext (k i) c1 w)"
| "drive ext (RequestApproval args channel ttl k) c w =
     (let (i, c1) = request_approval ext args channel ttl c in drive ext (k i) c1 w)"
| "drive ext (CallModel rq k) c w =
     (let (r, c1, w1) = call_model ext rq c w in drive ext (k r) c1 w1)"
| "drive ext (RunTool tool args k) c w =
     (let (r, c1, w1) = run_tool ext tool args c w in drive ext (k r) c1 w1)"
| "drive ext (MemGet key k) c w =
     (let (r, m) = memory_get key (ac_memory c) in drive ext (k r) (with_memory m c) w)"
| "drive ext (MemSet key v k) c w =
     (let (r, m) = memory_set (ax_compactor ext) key v (ac_memory c) in drive ext (k r) (with_memory m c) w)"
| "drive ext (MemDelete key a) c w = drive ext a (with_memory (memory_delete key (ac_memory c)) c) w"
| "drive ext (MemAppend key item n k) c w =
     (let (r, m) = memory_append (ax_compactor ext) key item n (ac_memory c) in
      drive ext (k r) (with_memory m c) w)"
| "drive ext (MemRing key k) c w =
     (let (r, m) = memory_ring key (ac_memory c) in drive ext (k r) (with_memory m c) w)"
| "drive ext (LongtermSave key v k) c w =
     (let (r, c1) = ctx_longterm_save key v c in drive ext (k r) c1 w)"
| "drive ext (LongtermLoad key k) c w = drive ext (k (ctx_longterm_load ext key c w)) c w"
| "drive ext (LongtermSearch pre limit k) c w = drive ext (k (ctx_longterm_search ext pre limit c w)) c w"
| "drive ext (StageTrace ev a) c w = drive ext a (stage_trace ext ev c) w"
| "drive ext (AccumulateUsage u a) c w = drive ext a (accumulate_usage u c) w"

section \<open>Summarization\<close>

text \<open>
  \<open>SummarizeCompactor.compact\<close> on the activation's view: collect the old items of the source
  rings, fold them through one model call, then rewrite the rings and the summary.
\<close>

fun gather ::
  "string list \<Rightarrow> int \<Rightarrow> string list \<Rightarrow> memory \<Rightarrow> bytes list \<Rightarrow> (string \<times> bytes list) list
   \<Rightarrow> (bytes list \<times> (string \<times> bytes list) list) res \<times> memory" where
  "gather present keep_recent [] m folded kept = (Ok (folded, kept), m)"
| "gather present keep_recent (key # ks) m folded kept =
     (if key \<notin> set present then gather present keep_recent ks m folded kept
      else
        (case memory_ring key m of
           (Inl e, m1) \<Rightarrow> (Err e, m1)
         | (Inr items, m1) \<Rightarrow>
             (let old = (if keep_recent = 0 then items else take (length items - nat keep_recent) items) in
              if old = [] then gather present keep_recent ks m1 folded kept
              else gather present keep_recent ks m1 (folded @ old)
                     (kept @ [(key, drop (length old) items)]))))"

fun append_items ::
  "compactor option \<Rightarrow> string \<Rightarrow> int \<Rightarrow> bytes list \<Rightarrow> memory \<Rightarrow> unit res \<times> memory" where
  "append_items co key n [] m = (Ok (), m)"
| "append_items co key n (item # rest) m =
     (case memory_append co key item n m of
        (Inl e, m1) \<Rightarrow> (Err e, m1)
      | (Inr _, m1) \<Rightarrow> append_items co key n rest m1)"

fun rewrite_rings ::
  "compactor option \<Rightarrow> (string \<times> bytes list) list \<Rightarrow> memory \<Rightarrow> unit res \<times> memory" where
  "rewrite_rings co [] m = (Ok (), m)"
| "rewrite_rings co ((key, items) # rest) m =
     (case append_items co key (int (length items)) items (memory_delete key m) of
        (Inl e, m1) \<Rightarrow> (Err e, m1)
      | (Inr _, m1) \<Rightarrow> rewrite_rings co rest m1)"

definition store_summary ::
  "compactor option \<Rightarrow> string \<Rightarrow> (string \<times> bytes list) list \<Rightarrow> bytes \<Rightarrow> memory \<Rightarrow> unit res \<times> memory" where
  "store_summary co summary_key kept summary m =
     (case rewrite_rings co kept m of
        (Inl e, m1) \<Rightarrow> (Err e, m1)
      | (Inr _, m1) \<Rightarrow> memory_set co summary_key summary m1)"

definition summarize ::
  "'w act_ext \<Rightarrow> llm_request summarizer \<Rightarrow> activation_ctx \<Rightarrow> 'w \<Rightarrow> unit res \<times> activation_ctx \<times> 'w" where
  "summarize ext su c w =
     (case gather (mem_keys (ac_memory c)) (su_keep_recent su) (su_source_keys su) (ac_memory c) [] [] of
        (Inl e, m1) \<Rightarrow> (Err e, with_memory m1 c, w)
      | (Inr (folded, kept), m1) \<Rightarrow>
          (if folded = [] then (Ok (), with_memory m1 c, w)
           else
             (case memory_get (su_summary_key su) m1 of
                (Inl e, m2) \<Rightarrow> (Err e, with_memory m2 c, w)
              | (Inr prior, m2) \<Rightarrow>
                  (let c2 = with_memory m2 c in
                   case su_build su folded prior of
                     Inl e \<Rightarrow> (Err e, c2, w)
                   | Inr rq \<Rightarrow>
                       (case call_model ext rq c2 w of
                          (Inl e, c3, w3) \<Rightarrow> (Err e, c3, w3)
                        | (Inr response, c3, w3) \<Rightarrow>
                            (case su_extract su response of
                               Inl e \<Rightarrow> (Err e, c3, w3)
                             | Inr summary \<Rightarrow>
                                 (if length summary \<ge> sum_list (map length folded) then (Err ValueError, c3, w3)
                                  else
                                    (let (r, m4) = store_summary (ax_compactor ext) (su_summary_key su) kept
                                                     summary (ac_memory c3) in
                                     (r, with_memory m4 c3, w3)))))))))"

section \<open>Running an activation\<close>

record activation_result =
  ar_suspended :: bool
  ar_seq :: int
  ar_memory :: memory_blob
  ar_cache :: llm_cache_blob
  ar_intents :: "tool_intent list"
  ar_traces :: "trace_event list"
  ar_outputs :: "bytes list"
  ar_continuation :: "continuation option"
  ar_deadline :: "msec option"
  ar_tally :: tally
  ar_upserts :: "memory_record list"

datatype run_result =
    RunOk activation_result
  | RunFailed exn failure_context
  | RunInitError exn

definition start_event :: "'w act_ext \<Rightarrow> string \<Rightarrow> activation_ctx \<Rightarrow> trace_event" where
  "start_event ext batch_trigger c =
     (let ev = activation_start (ax_trace_uuid ext) (ac_trace c) in
      if is_batch c then
        ev\<lparr>te_attrs := AList.update TRACE_BATCH_TRIGGER batch_trigger
             (AList.update TRACE_BATCH_SIZE (dec (int (length (ctx_events c)))) (te_attrs ev))\<rparr>
      else ev)"

definition failure_of :: "activation_ctx \<Rightarrow> failure_context" where
  "failure_of c =
     \<lparr>fx_step = ac_step c,
      fx_last_event = (if ac_traces c = [] then [] else event_name (te_type (last (ac_traces c)))),
      fx_staged_intents = int (length (ac_intents c)),
      fx_llm_calls = ty_llm_calls (ctx_tally c)\<rparr>"

definition flush_longterm :: "'w act_ext \<Rightarrow> activation_ctx \<Rightarrow> 'w \<Rightarrow> memory_record list res \<times> 'w" where
  "flush_longterm ext c w =
     (let upserts = ctx_upserts c in
      if upserts = [] then (Ok [], w)
      else
        (case ax_store ext of
           None \<Rightarrow> (Err AssertionError, w)
         | Some bk \<Rightarrow>
             (let (r, w') = flush_records bk w upserts in (bindE r (\<lambda>_. Ok upserts), w'))))"

definition suspend_deadline :: "activation_input \<Rightarrow> int option \<Rightarrow> activation_ctx \<Rightarrow> msec" where
  "suspend_deadline inp timeout_ms c =
     fold min (map ti_expires (ac_intents c))
       (ai_now inp + (case timeout_ms of Some t \<Rightarrow> t | None \<Rightarrow> ai_default_timeout inp))"

definition result_of ::
  "activation_ctx \<Rightarrow> bytes list \<Rightarrow> continuation option \<Rightarrow> memory_record list \<Rightarrow> activation_result" where
  "result_of c outputs cont upserts =
     \<lparr>ar_suspended = (cont \<noteq> None), ar_seq = ac_seq c, ar_memory = memory_to_blob (ac_memory c),
      ar_cache = cache_to_blob (ac_cache c), ar_intents = ac_intents c, ar_traces = ac_traces c,
      ar_outputs = outputs, ar_continuation = cont, ar_deadline = map_option co_deadline cont,
      ar_tally = ctx_tally c, ar_upserts = upserts\<rparr>"

definition conclude ::
  "'w act_ext \<Rightarrow> activation_input \<Rightarrow> outcome \<Rightarrow> activation_ctx \<Rightarrow> 'w \<Rightarrow> run_result \<times> 'w" where
  "conclude ext inp out c w =
     (case out of
        Suspend snapshot adapter timeout_ms \<Rightarrow>
          (let deadline_ms = suspend_deadline inp timeout_ms c;
               cont = build_continuation snapshot adapter deadline_ms c;
               c1 = stage_trace ext (suspended_event (ax_trace_uuid ext) (ac_trace c) (ac_step c) deadline_ms
                      adapter (co_pending cont)) c;
               c2 = stage_trace ext (activation_end (ax_trace_uuid ext) (ac_trace c) ''suspended'' (ac_step c)) c1 in
           case flush_longterm ext c2 w of
             (Inl e, w') \<Rightarrow> (RunFailed e (failure_of c2), w')
           | (Inr upserts, w') \<Rightarrow> (RunOk (result_of c2 [] (Some cont) upserts), w'))
      | Complete output \<Rightarrow>
          (let c1 = stage_trace ext (activation_end (ax_trace_uuid ext) (ac_trace c) ''completed'' (ac_step c)) c in
           case flush_longterm ext c1 w of
             (Inl e, w') \<Rightarrow> (RunFailed e (failure_of c1), w')
           | (Inr upserts, w') \<Rightarrow>
               (RunOk (result_of c1 (if output = [] then [] else [output]) None upserts), w')))"

definition after_agent ::
  "'w act_ext \<Rightarrow> llm_request summarizer option \<Rightarrow> activation_input \<Rightarrow> outcome \<Rightarrow> activation_ctx \<Rightarrow> 'w
   \<Rightarrow> run_result \<times> 'w" where
  "after_agent ext su inp out c w =
     (case su of
        Some s \<Rightarrow>
          (if size_bytes (ac_memory c) \<ge> su_trigger s then
             (case summarize ext s c w of
                (Inl e, c1, w1) \<Rightarrow> (RunFailed e (failure_of c1), w1)
              | (Inr _, c1, w1) \<Rightarrow> conclude ext inp out c1 w1)
           else conclude ext inp out c w)
      | None \<Rightarrow> conclude ext inp out c w)"

definition run_activation ::
  "'w act_ext \<Rightarrow> llm_request summarizer option \<Rightarrow> agent \<Rightarrow> activation_input \<Rightarrow> 'w \<Rightarrow> run_result \<times> 'w" where
  "run_activation ext su agent inp w =
     (case context_init ext inp of
        Inl e \<Rightarrow> (RunInitError e, w)
      | Inr c0 \<Rightarrow>
          (case drive ext agent (stage_trace ext (start_event ext (ai_trigger inp) c0) c0) w of
             (Inl e, c1, w1) \<Rightarrow> (RunFailed e (failure_of c1), w1)
           | (Inr out, c1, w1) \<Rightarrow> after_agent ext su inp out c1 w1))"

end
