(* ===== verification/Dofn.thy ===== *)
theory Dofn
  imports Loop
begin

text \<open>
  The stateful activation engine (\<open>core/dofn.py\<close>, with \<open>build_snapshot\<close> of \<open>core/snapshot.py\<close>):
  one key's state cells and timers, the element handler and the three timer callbacks. A handler
  returns the state it leaves, its emissions and its metric updates in order, or the exception
  that fails the bundle, in which case Beam commits nothing. The wall clock and whether the
  bridge timed the activation out are inputs of a step; a timeout names the world it leaves.
\<close>

section \<open>Vocabulary\<close>

definition REASON_TIMEOUT :: string where "REASON_TIMEOUT = ''activation_timeout''"
definition REASON_ERROR :: string where "REASON_ERROR = ''activation_error''"
definition REASON_ORPHANED :: string where "REASON_ORPHANED = ''orphaned_result''"
definition REASON_TTL_WIPED_SUSPENSION :: string where
  "REASON_TTL_WIPED_SUSPENSION = ''ttl_wiped_suspension''"
definition REASON_TTL_WIPED_BATCH :: string where "REASON_TTL_WIPED_BATCH = ''ttl_wiped_batch''"
definition REASON_BATCH_OVERFLOW :: string where "REASON_BATCH_OVERFLOW = ''batch_buffer_overflow''"
definition REASON_BUDGET_EXCEEDED :: string where "REASON_BUDGET_EXCEEDED = ''budget_exceeded''"
definition DETAIL_NO_CONTINUATION :: string where "DETAIL_NO_CONTINUATION = ''no_continuation''"
definition DETAIL_UNKNOWN_INTENT :: string where "DETAIL_UNKNOWN_INTENT = ''unknown_intent''"
definition DETAIL_DEADLINE_PASSED :: string where "DETAIL_DEADLINE_PASSED = ''deadline_passed''"
definition DETAIL_INTENT_EXPIRED :: string where "DETAIL_INTENT_EXPIRED = ''intent_expired''"

datatype counter =
    ActivationsC | LlmCallsC | ToolCallsC | IntentsEmittedC | AgentErrorsC | SuspensionsC
  | OrphanedResultsC | LongtermUpsertsC | EventsBufferedC | BatchFlushesSizeC | BatchFlushesTimerC

datatype distribution =
    ActivationMsD | OverheadMsD | LlmMsD | TokensD | PromptTokensD | CompletionTokensD
  | MemoryBytesD | IterationsD | BatchSizeD

datatype metric = Incr counter int | Observe distribution int

datatype emission =
    MainOut bytes
  | IntentOut tool_intent
  | TraceOut trace_event
  | ErrorOut activation_error_record
  | SnapshotOut state_snapshot

record kstate =
  ks_memory :: "memory_blob option"
  ks_continuation :: "continuation option"
  ks_cache :: "llm_cache_blob option"
  ks_pending :: "tool_intent list"
  ks_seq :: int
  ks_batch :: "envelope list"
  ks_ttl :: "msec option"
  ks_hitl :: "msec option"
  ks_flush :: "msec option"

definition empty_kstate :: kstate where
  "empty_kstate =
     \<lparr>ks_memory = None, ks_continuation = None, ks_cache = None, ks_pending = [], ks_seq = 0,
      ks_batch = [], ks_ttl = None, ks_hitl = None, ks_flush = None\<rparr>"

record 'w dofn =
  df_agent :: agent
  df_ext :: "'w act_ext"
  df_summarizer :: "llm_request summarizer option"
  df_ttl_ms :: int
  df_policy :: hitl_policy
  df_batch :: "batch_settings option"
  df_on_expire :: "('w backend \<Rightarrow> 'w \<Rightarrow> expiring_memory \<Rightarrow> unit res \<times> 'w) option"
  df_max_tokens :: "int option"
  df_repr :: "exn \<Rightarrow> string"
  df_type_name :: "exn \<Rightarrow> string"

record 'w step_input =
  si_wall :: msec
  si_timeout :: "'w option"

record step_out =
  so_state :: kstate
  so_emits :: "emission list"
  so_metrics :: "metric list"

definition emit_only :: "kstate \<Rightarrow> emission list \<Rightarrow> metric list \<Rightarrow> step_out" where
  "emit_only ks es ms = \<lparr>so_state = ks, so_emits = es, so_metrics = ms\<rparr>"

text \<open>\<open>yield from\<close>: what was yielded and recorded before comes first.\<close>

definition after :: "emission list \<Rightarrow> metric list \<Rightarrow> step_out res \<times> 'w \<Rightarrow> step_out res \<times> 'w" where
  "after es ms r =
     (case r of
        (Inl e, w) \<Rightarrow> (Err e, w)
      | (Inr so, w) \<Rightarrow>
          (Ok (so\<lparr>so_emits := es @ so_emits so, so_metrics := ms @ so_metrics so\<rparr>), w))"

section \<open>Dead letters and error traces\<close>

definition dead_letter :: "bytes \<Rightarrow> string \<Rightarrow> string \<Rightarrow> msec \<Rightarrow> emission" where
  "dead_letter key reason detail event_time_ms =
     ErrorOut \<lparr>er_key = key, er_reason = reason, er_detail = detail, er_time = event_time_ms\<rparr>"

definition dead_letter_metric :: "string \<Rightarrow> metric" where
  "dead_letter_metric reason =
     (if reason = REASON_ORPHANED then Incr OrphanedResultsC 1 else Incr AgentErrorsC 1)"

definition error_trace ::
  "'w dofn \<Rightarrow> bytes \<Rightarrow> int \<Rightarrow> msec \<Rightarrow> string \<Rightarrow> string \<Rightarrow> string option \<Rightarrow> failure_context option \<Rightarrow> emission" where
  "error_trace d key seq now_ms reason error_type role failure =
     (let uuid5 = ax_trace_uuid (df_ext d) in
      TraceOut (error_event uuid5 (trace_init uuid5 key seq now_ms 0 False) reason error_type role failure))"

text \<open>The dead letter of an activation that timed out, failed inside the wrap, or crashed.\<close>

definition timeout_emits :: "'w dofn \<Rightarrow> bytes \<Rightarrow> int \<Rightarrow> msec \<Rightarrow> emission list" where
  "timeout_emits d key seq now_ms =
     [dead_letter key REASON_TIMEOUT [] now_ms, error_trace d key seq now_ms REASON_TIMEOUT [] None None]"

definition is_budget_exceeded :: "exn \<Rightarrow> bool" where
  "is_budget_exceeded e \<longleftrightarrow> (case e of BudgetExceeded _ _ \<Rightarrow> True | _ \<Rightarrow> False)"

definition failed_reason :: "exn \<Rightarrow> string" where
  "failed_reason e = (if is_budget_exceeded e then REASON_BUDGET_EXCEEDED else REASON_ERROR)"

definition failed_activation :: "'w dofn \<Rightarrow> bytes \<Rightarrow> int \<Rightarrow> msec \<Rightarrow> exn \<Rightarrow> failure_context \<Rightarrow> emission list" where
  "failed_activation d key seq now_ms cause context =
     [dead_letter key (failed_reason cause) (df_repr d cause @ detail_suffix context) now_ms,
      error_trace d key seq now_ms (failed_reason cause) (df_type_name d cause) None (Some context)]"

definition crashed_emits :: "'w dofn \<Rightarrow> bytes \<Rightarrow> int \<Rightarrow> msec \<Rightarrow> exn \<Rightarrow> emission list" where
  "crashed_emits d key seq now_ms e =
     [dead_letter key REASON_ERROR (df_repr d e) now_ms,
      error_trace d key seq now_ms REASON_ERROR (df_type_name d e) None None]"

section \<open>Admission\<close>

definition admission_failure ::
  "continuation option \<Rightarrow> tool_intent list \<Rightarrow> string \<Rightarrow> msec \<Rightarrow> string option" where
  "admission_failure cont pending_intents intent_id now_ms =
     (case cont of
        None \<Rightarrow> Some DETAIL_NO_CONTINUATION
      | Some c \<Rightarrow>
          (if intent_id \<notin> set (co_pending c) then Some DETAIL_UNKNOWN_INTENT
           else if co_deadline c \<le> 0 \<or> now_ms \<ge> co_deadline c then Some DETAIL_DEADLINE_PASSED
           else if list_ex (\<lambda>i. ti_id i = intent_id \<and> intent_expired i now_ms) pending_intents
             then Some DETAIL_INTENT_EXPIRED
           else None))"

section \<open>Running the agent for one element\<close>

datatype activated =
    Activated activation_result int
  | ActivationTimedOut
  | ActivationFailed exn failure_context
  | ActivationCrashed exn

definition activate :: "'w dofn \<Rightarrow> 'w step_input \<Rightarrow> activation_input \<Rightarrow> 'w \<Rightarrow> activated \<times> metric list \<times> 'w" where
  "activate d si inp w =
     (let (started, w1) = ax_clock (df_ext d) w;
          (out, w2) =
            (case si_timeout si of
               Some w' \<Rightarrow> (None, w')
             | None \<Rightarrow> (let (r, w') = run_activation (df_ext d) (df_summarizer d) (df_agent d) inp w1 in (Some r, w')));
          (ended, w3) = ax_clock (df_ext d) w2;
          elapsed_ms = (ended - started) div NS_PER_MS in
      ((case out of
          None \<Rightarrow> ActivationTimedOut
        | Some (RunOk ar) \<Rightarrow> Activated ar elapsed_ms
        | Some (RunFailed e fx) \<Rightarrow> ActivationFailed e fx
        | Some (RunInitError e) \<Rightarrow> ActivationCrashed e),
       [Observe ActivationMsD elapsed_ms], w3))"

definition base_input ::
  "'w dofn \<Rightarrow> bytes \<Rightarrow> int \<Rightarrow> msec \<Rightarrow> memory_blob option \<Rightarrow> llm_cache_blob option \<Rightarrow> activation_input" where
  "base_input d key seq now_ms memory_blob cache_blob =
     \<lparr>ai_key = key, ai_seq = seq, ai_now = now_ms, ai_memory = memory_blob, ai_cache = cache_blob,
      ai_event = [], ai_events = None, ai_trigger = [], ai_resume_result = None,
      ai_resume_approval = None, ai_snapshot = [], ai_step = 0,
      ai_intent_ttl = hp_intent_ttl (df_policy d), ai_channel = hp_channel (df_policy d),
      ai_default_timeout = hp_timeout (df_policy d), ai_max_tokens = df_max_tokens d\<rparr>"

section \<open>Committing\<close>

definition record_commit :: "activation_result \<Rightarrow> int \<Rightarrow> (int \<times> string) option \<Rightarrow> metric list" where
  "record_commit ar activation_ms flush =
     (let t = ar_tally ar in
      [Incr ActivationsC 1]
      @ (case flush of
           None \<Rightarrow> []
         | Some (flush_size, trigger) \<Rightarrow>
             [Incr (if trigger = TRIGGER_SIZE then BatchFlushesSizeC else BatchFlushesTimerC) 1,
              Observe BatchSizeD flush_size])
      @ (if ar_suspended ar then [Incr SuspensionsC 1] else [])
      @ (if ar_intents ar \<noteq> [] then [Incr IntentsEmittedC (int (length (ar_intents ar)))] else [])
      @ (if ar_upserts ar \<noteq> [] then [Incr LongtermUpsertsC (int (length (ar_upserts ar)))] else [])
      @ (if ty_llm_calls t \<noteq> 0 then [Incr LlmCallsC (ty_llm_calls t)] else [])
      @ (if ty_tool_calls t \<noteq> 0 then [Incr ToolCallsC (ty_tool_calls t)] else [])
      @ [Observe MemoryBytesD (mb_total (ar_memory ar)), Observe IterationsD (ty_iterations t)]
      @ (if ty_usage_observed t then
           [Observe TokensD (ty_total t), Observe PromptTokensD (ty_prompt t),
            Observe CompletionTokensD (ty_completion t)] else [])
      @ map (Observe LlmMsD) (ty_llm_ms t)
      @ [Observe OverheadMsD (max 0 (activation_ms - sum_list (ty_llm_ms t) - sum_list (ty_tool_ms t)))])"

definition rearm_flush :: "'w dofn \<Rightarrow> 'w step_input \<Rightarrow> kstate \<Rightarrow> kstate" where
  "rearm_flush d si ks =
     (if df_batch d = None then ks
      else if ks_batch ks \<noteq> [] then ks\<lparr>ks_flush := Some (si_wall si)\<rparr> else ks)"

text \<open>
  \<open>_commit\<close>. The argument \<open>handles\<close> says whether the caller passed the buffer's handles (a resume
  and a flush do, a per-event start does not); \<open>flush\<close> carries a flush's size and trigger.
\<close>

definition commit_state ::
  "'w dofn \<Rightarrow> 'w step_input \<Rightarrow> activation_result \<Rightarrow> msec \<Rightarrow> bool \<Rightarrow> (int \<times> string) option \<Rightarrow> kstate \<Rightarrow> kstate" where
  "commit_state d si ar now_ms handles flush ks =
     (let ks1 = ks\<lparr>ks_memory := Some (ar_memory ar), ks_cache := Some (ar_cache ar),
                   ks_continuation := ar_continuation ar, ks_pending := ar_intents ar,
                   ks_batch := (if flush \<noteq> None then [] else ks_batch ks),
                   ks_seq := ks_seq ks + 1\<rparr>;
          ttl_from = (case (ar_suspended ar, ar_deadline ar) of
                        (True, Some deadline) \<Rightarrow> max now_ms deadline | _ \<Rightarrow> now_ms);
          hitl = (case (ar_suspended ar, ar_deadline ar) of
                    (True, Some deadline) \<Rightarrow> Some deadline | _ \<Rightarrow> None);
          ks2 = ks1\<lparr>ks_hitl := hitl, ks_ttl := Some (ttl_from + df_ttl_ms d)\<rparr> in
      if flush \<noteq> None then ks2\<lparr>ks_flush := None\<rparr>
      else if ar_continuation ar = None \<and> handles then rearm_flush d si ks2
      else ks2)"

definition commit ::
  "'w dofn \<Rightarrow> 'w step_input \<Rightarrow> activation_result \<Rightarrow> msec \<Rightarrow> int \<Rightarrow> bool \<Rightarrow> (int \<times> string) option \<Rightarrow> kstate
   \<Rightarrow> step_out" where
  "commit d si ar now_ms activation_ms handles flush ks =
     \<lparr>so_state = commit_state d si ar now_ms handles flush ks,
      so_emits = map MainOut (ar_outputs ar) @ map IntentOut (ar_intents ar) @ map TraceOut (ar_traces ar),
      so_metrics = record_commit ar activation_ms flush\<rparr>"

section \<open>The per-event path\<close>

definition start_activation ::
  "'w dofn \<Rightarrow> 'w step_input \<Rightarrow> bytes \<Rightarrow> msec \<Rightarrow> bytes \<Rightarrow> kstate \<Rightarrow> 'w \<Rightarrow> step_out res \<times> 'w" where
  "start_activation d si key now_ms event ks w =
     (case migrate_memory (ks_memory ks) of
        Inl e \<Rightarrow> (Err e, w)
      | Inr memory_blob \<Rightarrow>
     (case migrate_cache (ks_cache ks) of
        Inl e \<Rightarrow> (Err e, w)
      | Inr cache_blob \<Rightarrow>
          (let current_seq = ks_seq ks;
               (r, ms, w1) = activate d si
                 ((base_input d key current_seq now_ms memory_blob cache_blob)\<lparr>ai_event := event\<rparr>) w in
           after [] ms
             (Ok (case r of
                Activated ar activation_ms \<Rightarrow> commit d si ar now_ms activation_ms False None ks
              | ActivationTimedOut \<Rightarrow>
                  emit_only ks (timeout_emits d key current_seq now_ms) [dead_letter_metric REASON_TIMEOUT]
              | ActivationFailed e fx \<Rightarrow>
                  emit_only ks (failed_activation d key current_seq now_ms e fx)
                    [dead_letter_metric (failed_reason e)]
              | ActivationCrashed e \<Rightarrow>
                  emit_only ks (crashed_emits d key current_seq now_ms e) [dead_letter_metric REASON_ERROR]),
              w1))))"

section \<open>Adaptive batching\<close>

definition payload_event :: "envelope \<Rightarrow> bytes" where
  "payload_event env = (case env_payload env of Some (ExternalEvent b) \<Rightarrow> b | _ \<Rightarrow> [])"

definition failed_flush ::
  "'w dofn \<Rightarrow> bytes \<Rightarrow> msec \<Rightarrow> envelope list \<Rightarrow> string \<Rightarrow> string \<Rightarrow> emission \<Rightarrow> kstate \<Rightarrow> step_out" where
  "failed_flush d key now_ms envelopes reason detail trace ks =
     emit_only (ks\<lparr>ks_batch := [], ks_flush := None\<rparr>)
       (map (\<lambda>_. dead_letter key reason detail now_ms) envelopes @ [trace])
       (map (\<lambda>_. dead_letter_metric reason) envelopes)"

definition batch_detail :: "envelope list \<Rightarrow> string \<Rightarrow> string" where
  "batch_detail envelopes trigger =
     ''batch_size='' @ dec (int (length envelopes)) @ '',trigger='' @ trigger"

definition flush ::
  "'w dofn \<Rightarrow> 'w step_input \<Rightarrow> bytes \<Rightarrow> envelope list \<Rightarrow> string \<Rightarrow> kstate \<Rightarrow> 'w \<Rightarrow> step_out res \<times> 'w" where
  "flush d si key envelopes trigger ks w =
     (case migrate_memory (ks_memory ks) of
        Inl e \<Rightarrow> (Err e, w)
      | Inr memory_blob \<Rightarrow>
     (case migrate_cache (ks_cache ks) of
        Inl e \<Rightarrow> (Err e, w)
      | Inr cache_blob \<Rightarrow>
          (let now_ms = Max (set (map env_time envelopes));
               current_seq = ks_seq ks;
               detail = batch_detail envelopes trigger;
               (r, ms, w1) = activate d si
                 ((base_input d key current_seq now_ms memory_blob cache_blob)
                    \<lparr>ai_events := Some (map payload_event envelopes), ai_trigger := trigger\<rparr>) w in
           after [] ms
             (Ok (case r of
                Activated ar activation_ms \<Rightarrow>
                  commit d si ar now_ms activation_ms True (Some (int (length envelopes), trigger)) ks
              | ActivationTimedOut \<Rightarrow>
                  failed_flush d key now_ms envelopes REASON_TIMEOUT detail
                    (error_trace d key current_seq now_ms REASON_TIMEOUT [] None None) ks
              | ActivationFailed e fx \<Rightarrow>
                  failed_flush d key now_ms envelopes REASON_ERROR
                    (df_repr d e @ detail_suffix fx @ '' '' @ detail)
                    (error_trace d key current_seq now_ms REASON_ERROR (df_type_name d e) None (Some fx)) ks
              | ActivationCrashed e \<Rightarrow>
                  failed_flush d key now_ms envelopes REASON_ERROR (df_repr d e @ '' '' @ detail)
                    (error_trace d key current_seq now_ms REASON_ERROR (df_type_name d e) None None) ks),
              w1))))"

definition buffer_event ::
  "'w dofn \<Rightarrow> 'w step_input \<Rightarrow> batch_settings \<Rightarrow> bytes \<Rightarrow> envelope \<Rightarrow> kstate \<Rightarrow> 'w \<Rightarrow> step_out res \<times> 'w" where
  "buffer_event d si settings key envelope ks w =
     (let buffered = ks_batch ks; n = int (length buffered) in
      if buffer_is_full n (bs_max_buffered settings) then
        (Ok (emit_only ks
          [dead_letter key REASON_BATCH_OVERFLOW
             (''buffered='' @ dec n @ '',cap='' @ dec (bs_max_buffered settings)) (env_time envelope)]
          [dead_letter_metric REASON_BATCH_OVERFLOW]), w)
      else
        (let buffered' = buffered @ [envelope];
             ks1 = ks\<lparr>ks_batch := buffered', ks_ttl := Some (env_time envelope + df_ttl_ms d)\<rparr>;
             ks2 = (if length buffered' = 1
                    then ks1\<lparr>ks_flush := Some (si_wall si + bs_max_wait_ms settings)\<rparr> else ks1) in
         case migrate_continuation (ks_continuation ks) of
           Inl e \<Rightarrow> (Err e, w)
         | Inr cont \<Rightarrow>
             (if should_flush_on_size (int (length buffered')) (bs_max_batch_size settings) (cont \<noteq> None)
              then after [] [Incr EventsBufferedC 1] (flush d si key buffered' TRIGGER_SIZE ks2 w)
              else (Ok (emit_only ks2 [] [Incr EventsBufferedC 1]), w))))"

section \<open>Resuming\<close>

definition resume ::
  "'w dofn \<Rightarrow> 'w step_input \<Rightarrow> bytes \<Rightarrow> msec \<Rightarrow> string \<Rightarrow> tool_result option \<Rightarrow> approval option \<Rightarrow> kstate \<Rightarrow> 'w
   \<Rightarrow> step_out res \<times> 'w" where
  "resume d si key now_ms intent_id resume_result approval ks w =
     (case migrate_continuation (ks_continuation ks) of
        Inl e \<Rightarrow> (Err e, w)
      | Inr cont \<Rightarrow>
          (let pending_intents = (if cont = None then [] else ks_pending ks) in
           case (cont, admission_failure cont pending_intents intent_id now_ms) of
             (Some c, None) \<Rightarrow>
               (case migrate_memory (ks_memory ks) of
                  Inl e \<Rightarrow> (Err e, w)
                | Inr memory_blob \<Rightarrow>
               (case migrate_cache (ks_cache ks) of
                  Inl e \<Rightarrow> (Err e, w)
                | Inr cache_blob \<Rightarrow>
                    (let (r, ms, w1) = activate d si
                       ((base_input d key (co_seq c) now_ms memory_blob cache_blob)
                          \<lparr>ai_resume_result := resume_result, ai_resume_approval := approval,
                           ai_snapshot := co_snapshot c, ai_step := co_step c\<rparr>) w in
                     after [] ms
                       (Ok (case r of
                          Activated ar activation_ms \<Rightarrow> commit d si ar now_ms activation_ms True None ks
                        | ActivationTimedOut \<Rightarrow>
                            emit_only ks (timeout_emits d key (co_seq c) now_ms) [dead_letter_metric REASON_TIMEOUT]
                        | ActivationFailed e fx \<Rightarrow>
                            emit_only ks (failed_activation d key (co_seq c) now_ms e fx)
                              [dead_letter_metric (failed_reason e)]
                        | ActivationCrashed e \<Rightarrow>
                            emit_only ks (crashed_emits d key (co_seq c) now_ms e)
                              [dead_letter_metric REASON_ERROR]),
                        w1))))
           | (_, reason) \<Rightarrow>
               (let detail = (case reason of Some x \<Rightarrow> x | None \<Rightarrow> []) in
                (Ok (emit_only ks
                   [dead_letter key REASON_ORPHANED (detail @ '':'' @ intent_id) now_ms,
                    error_trace d key (case cont of Some c \<Rightarrow> co_seq c | None \<Rightarrow> ks_seq ks) now_ms
                      REASON_ORPHANED detail None None]
                   [dead_letter_metric REASON_ORPHANED]), w))))"

section \<open>The element handler\<close>

definition build_snapshot ::
  "bytes \<Rightarrow> int \<Rightarrow> msec \<Rightarrow> string \<Rightarrow> memory_blob option \<Rightarrow> llm_cache_blob option \<Rightarrow> continuation option
   \<Rightarrow> tool_intent list \<Rightarrow> state_snapshot" where
  "build_snapshot entity_key seq snapshot_at_ms request_id memory_blob cache_blob cont pending =
     \<lparr>sn_version = CURRENT_STATE_SCHEMA_VERSION, sn_key = entity_key, sn_seq = seq,
      sn_at = snapshot_at_ms, sn_memory = memory_blob, sn_cache = cache_blob,
      sn_continuation = cont, sn_pending = pending, sn_request = request_id\<rparr>"

definition process ::
  "'w dofn \<Rightarrow> 'w step_input \<Rightarrow> bytes \<Rightarrow> envelope \<Rightarrow> kstate \<Rightarrow> 'w \<Rightarrow> step_out res \<times> 'w" where
  "process d si key envelope ks w =
     (let now_ms = env_time envelope in
      case env_payload envelope of
        Some (ExportRequest request_id) \<Rightarrow>
          (Ok (emit_only ks
             [SnapshotOut (build_snapshot key (ks_seq ks) now_ms request_id (ks_memory ks) (ks_cache ks)
                (ks_continuation ks) (ks_pending ks))] []), w)
      | Some (ResultPayload r) \<Rightarrow> resume d si key now_ms (tr_id r) (Some r) None ks w
      | Some (ApprovalPayload a) \<Rightarrow> resume d si key now_ms (ap_id a) None (Some a) ks w
      | _ \<Rightarrow>
          (case df_batch d of
             Some settings \<Rightarrow> buffer_event d si settings key envelope ks w
           | None \<Rightarrow> start_activation d si key now_ms (payload_event envelope) ks w))"

section \<open>Timers\<close>

definition flush_expiring :: "'w dofn \<Rightarrow> bytes \<Rightarrow> kstate \<Rightarrow> msec \<Rightarrow> 'w \<Rightarrow> unit res \<times> 'w" where
  "flush_expiring d key ks expired_at_ms w =
     (case df_on_expire d of
        None \<Rightarrow> (Ok (), w)
      | Some hook \<Rightarrow>
          (case migrate_memory (ks_memory ks) of
             Inl e \<Rightarrow> (Err e, w)
           | Inr None \<Rightarrow> (Ok (), w)
           | Inr (Some blob) \<Rightarrow>
               (if mb_entries blob = [] then (Ok (), w)
                else
                  (case ax_store (df_ext d) of
                     None \<Rightarrow> (Err RuntimeError, w)
                   | Some store \<Rightarrow>
                       hook store w \<lparr>xm_entity = key, xm_seq = ks_seq ks, xm_blob = blob,
                                     xm_expired = expired_at_ms\<rparr>))))"

definition wiped_suspension :: "'w dofn \<Rightarrow> bytes \<Rightarrow> msec \<Rightarrow> continuation option \<Rightarrow> emission list" where
  "wiped_suspension d key t cont =
     (case cont of
        None \<Rightarrow> []
      | Some c \<Rightarrow>
          [dead_letter key REASON_TTL_WIPED_SUSPENSION
             (''seq='' @ dec (co_seq c) @ '',deadline_ms='' @ dec (co_deadline c)) t,
           error_trace d key (co_seq c) t REASON_TTL_WIPED_SUSPENSION [] (Some ROLE_TIMER) None])"

definition wiped_batch :: "bytes \<Rightarrow> msec \<Rightarrow> envelope list \<Rightarrow> emission list" where
  "wiped_batch key t buffered =
     map (\<lambda>index. dead_letter key REASON_TTL_WIPED_BATCH
            (''buffered='' @ dec (int (length buffered)) @ '',index='' @ dec (int index)) t)
       [0..<length buffered]"

definition wipe :: "'w dofn \<Rightarrow> kstate \<Rightarrow> kstate" where
  "wipe d ks =
     (let ks1 = ks\<lparr>ks_memory := None, ks_continuation := None, ks_cache := None, ks_pending := [],
                   ks_seq := 0\<rparr> in
      if df_batch d = None then ks1 else ks1\<lparr>ks_batch := [], ks_flush := None\<rparr>)"

definition on_ttl :: "'w dofn \<Rightarrow> bytes \<Rightarrow> msec \<Rightarrow> kstate \<Rightarrow> 'w \<Rightarrow> step_out res \<times> 'w" where
  "on_ttl d key t ks w =
     (case migrate_continuation (ks_continuation ks) of
        Inl e \<Rightarrow> (Err e, w)
      | Inr cont \<Rightarrow>
          (case flush_expiring d key ks t w of
             (Inl e, w1) \<Rightarrow> (Err e, w1)
           | (Inr _, w1) \<Rightarrow>
               (let buffered = (if df_batch d = None then [] else ks_batch ks) in
                (Ok (emit_only (wipe d ks)
                   (wiped_suspension d key t cont @ wiped_batch key t buffered)
                   ((if cont = None then [] else [dead_letter_metric REASON_TTL_WIPED_SUSPENSION])
                    @ map (\<lambda>_. dead_letter_metric REASON_TTL_WIPED_BATCH) buffered)), w1))))"

definition on_flush :: "'w dofn \<Rightarrow> 'w step_input \<Rightarrow> bytes \<Rightarrow> kstate \<Rightarrow> 'w \<Rightarrow> step_out res \<times> 'w" where
  "on_flush d si key ks w =
     (case df_batch d of
        None \<Rightarrow> (Ok (emit_only ks [] []), w)
      | Some _ \<Rightarrow>
          (case migrate_continuation (ks_continuation ks) of
             Inl e \<Rightarrow> (Err e, w)
           | Inr cont \<Rightarrow>
               (if should_flush_on_timer (int (length (ks_batch ks))) (cont \<noteq> None)
                then flush d si key (ks_batch ks) TRIGGER_TIMER ks w
                else (Ok (emit_only ks [] []), w))))"

definition route_timeout :: "'w dofn \<Rightarrow> bytes \<Rightarrow> continuation \<Rightarrow> msec \<Rightarrow> route \<times> string" where
  "route_timeout d key cont fired_at_ms =
     (let fallback = \<lparr>fc_key = key, fc_seq = co_seq cont, fc_snapshot = co_snapshot cont,
            fc_kind = ''timer'', fc_deadline = co_deadline cont, fc_fired = fired_at_ms,
            fc_pending = co_pending cont\<rparr>;
          detail = ''seq='' @ dec (co_seq cont) in
      case hp_on_timeout (df_policy d) fallback of
        Inl e \<Rightarrow> (Drop REASON_HITL_TIMEOUT, detail @ '' policy_error='' @ df_repr d e)
      | Inr (Escalate tool args timeout_ms) \<Rightarrow>
          (if co_escalations cont \<ge> hp_max_escalations (df_policy d) then (Deny HITL_TIMEOUT_OUTPUT, detail)
           else (Escalate tool args timeout_ms, detail))
      | Inr r \<Rightarrow> (r, detail))"

definition escalation_intent ::
  "'w dofn \<Rightarrow> bytes \<Rightarrow> continuation \<Rightarrow> msec \<Rightarrow> string \<Rightarrow> string \<Rightarrow> int \<Rightarrow> tool_intent" where
  "escalation_intent d key cont fired_at_ms tool args timeout_ms =
     \<lparr>ti_id = intent_id_for (ax_uuid (df_ext d)) key (co_seq cont) (co_step cont), ti_key = key,
      ti_seq = co_seq cont, ti_step = co_step cont, ti_tool = tool, ti_args = args,
      ti_created = fired_at_ms, ti_expires = fired_at_ms + timeout_ms, ti_attempt = 0,
      ti_kind = ApprovalKind, ti_trace = trace_id_for (ax_trace_uuid (df_ext d)) key (co_seq cont),
      ti_scheme = SchemeUnspecified, ti_key_id = [], ti_sig = []\<rparr>"

definition escalate ::
  "'w dofn \<Rightarrow> bytes \<Rightarrow> continuation \<Rightarrow> msec \<Rightarrow> string \<Rightarrow> string \<Rightarrow> int \<Rightarrow> kstate \<Rightarrow> step_out" where
  "escalate d key cont fired_at_ms tool args timeout_ms ks =
     (let deadline_ms = fired_at_ms + timeout_ms;
          uuid5 = ax_trace_uuid (df_ext d);
          intent = escalation_intent d key cont fired_at_ms tool args timeout_ms;
          escalated = cont\<lparr>co_step := co_step cont + 1, co_deadline := deadline_ms,
            co_escalations := co_escalations cont + 1, co_pending := co_pending cont @ [ti_id intent]\<rparr> in
      emit_only
        (ks\<lparr>ks_continuation := Some escalated, ks_pending := ks_pending ks @ [intent],
            ks_hitl := Some deadline_ms, ks_ttl := Some (deadline_ms + df_ttl_ms d)\<rparr>)
        [IntentOut intent,
         TraceOut (intent_emitted uuid5 (trace_init uuid5 key (co_seq cont) fired_at_ms (co_step cont) False)
           (co_step cont) (ti_id intent) tool (kind_name ApprovalKind) deadline_ms)]
        [Incr IntentsEmittedC 1])"

definition on_hitl :: "'w dofn \<Rightarrow> 'w step_input \<Rightarrow> bytes \<Rightarrow> msec \<Rightarrow> kstate \<Rightarrow> step_out res" where
  "on_hitl d si key fired_at_ms ks =
     bindE (migrate_continuation (ks_continuation ks)) (\<lambda>c.
       case c of
         None \<Rightarrow> Ok (emit_only ks [] [])
       | Some cont \<Rightarrow>
           (if fired_at_ms < co_deadline cont then Ok (emit_only ks [] [])
            else
              (let (route, detail) = route_timeout d key cont fired_at_ms;
                   ended = rearm_flush d si
                     (ks\<lparr>ks_continuation := None, ks_pending := [], ks_hitl := None\<rparr>);
                   trace = error_trace d key (co_seq cont) fired_at_ms REASON_HITL_TIMEOUT []
                     (Some ROLE_TIMER) None in
               Ok (case route of
                     Escalate tool args timeout_ms \<Rightarrow> escalate d key cont fired_at_ms tool args timeout_ms ks
                   | Deny output \<Rightarrow> emit_only ended [MainOut output, trace] []
                   | Drop reason \<Rightarrow>
                       emit_only ended [dead_letter key reason detail fired_at_ms, trace]
                         [dead_letter_metric reason]))))"

end
