(* ===== verification/Loop_Invariants.thy ===== *)
theory Loop_Invariants
  imports Loop
begin

text \<open>
  What every activation keeps, whatever the agent does: the scope is frozen, staged intents and
  traces only grow, every new intent carries the identifier its step determines and consumes a
  step of its own, and the working memory, the replay cache and the staged upserts satisfy their
  invariants. Each operation of the staging surface preserves both relations; \<open>drive\<close> follows by
  induction on the agent.
\<close>

section \<open>Staging invariants\<close>

text \<open>
  A property of the context that every operation of the staging surface keeps is kept by every
  agent and by the summarizer. The memory operations are collected in one step relation.
\<close>

inductive mem_step :: "compactor option \<Rightarrow> memory \<Rightarrow> memory \<Rightarrow> bool" for co where
  step_get: "memory_get key m = (r, m') \<Longrightarrow> mem_step co m m'"
| step_ring: "memory_ring key m = (r, m') \<Longrightarrow> mem_step co m m'"
| step_set: "memory_set co key v m = (r, m') \<Longrightarrow> mem_step co m m'"
| step_append: "memory_append co key item n m = (r, m') \<Longrightarrow> mem_step co m m'"
| step_delete: "mem_step co m (memory_delete key m)"

inductive_cases mem_stepE: "mem_step co m m'"

lemma gather_steps:
  "gather present keep ks m folded kept = (r, m') \<Longrightarrow> (mem_step co)\<^sup>*\<^sup>* m m'"
proof (induction present keep ks m folded kept rule: gather.induct)
  case (2 present keep key ks m folded kept)
  obtain x m1 where ring: "memory_ring key m = (x, m1)" by fastforce
  have step: "mem_step co m m1" using ring by (rule step_ring)
  show ?case
  proof (cases "key \<in> set present")
    case False
    then show ?thesis using 2 by simp
  next
    case True
    show ?thesis
    proof (cases x)
      case (Inl e)
      then show ?thesis using 2 True ring step by auto
    next
      case (Inr items)
      have "(mem_step co)\<^sup>*\<^sup>* m1 m'"
        using 2(2)[OF _ ring[unfolded Inr, symmetric] refl refl] 2(3)[OF _ ring[unfolded Inr, symmetric] refl refl]
          2(4) True ring Inr
        by (auto simp: Let_def split: if_splits)
      then show ?thesis using step by (rule converse_rtranclp_into_rtranclp[rotated])
    qed
  qed
qed simp

lemma append_items_steps: "append_items co key n items m = (r, m') \<Longrightarrow> (mem_step co)\<^sup>*\<^sup>* m m'"
proof (induction co key n items m rule: append_items.induct)
  case (2 co key n item rest m)
  obtain x m1 where ap: "memory_append co key item n m = (x, m1)" by fastforce
  have step: "mem_step co m m1" using ap by (rule step_append)
  show ?case
    using 2 ap step by (cases x) (auto intro: converse_rtranclp_into_rtranclp)
qed simp

lemma rewrite_rings_steps: "rewrite_rings co kept m = (r, m') \<Longrightarrow> (mem_step co)\<^sup>*\<^sup>* m m'"
proof (induction co kept m rule: rewrite_rings.induct)
  case (2 co key items rest m)
  obtain x m1 where ap: "append_items co key (int (length items)) items (memory_delete key m) = (x, m1)"
    by fastforce
  have "(mem_step co)\<^sup>*\<^sup>* m m1"
    using append_items_steps[OF ap] step_delete converse_rtranclp_into_rtranclp by metis
  then show ?case
    using 2 ap by (cases x) (auto intro: rtranclp_trans)
qed simp

lemma store_summary_steps: "store_summary co sk kept summary m = (r, m') \<Longrightarrow> (mem_step co)\<^sup>*\<^sup>* m m'"
proof -
  assume st: "store_summary co sk kept summary m = (r, m')"
  obtain x m1 where rw: "rewrite_rings co kept m = (x, m1)" by fastforce
  have r: "(mem_step co)\<^sup>*\<^sup>* m m1" using rw by (rule rewrite_rings_steps)
  show ?thesis
  proof (cases x)
    case (Inl e)
    then show ?thesis using st rw r by (simp add: store_summary_def)
  next
    case (Inr u)
    then have "memory_set co sk summary m1 = (r, m')" using st rw by (simp add: store_summary_def)
    then show ?thesis using r step_set rtranclp.rtrancl_into_rtrancl by metis
  qed
qed

lemma with_memory_simps [simp]:
  "ac_memory (with_memory m c) = m"
  "with_memory m (with_memory n c) = with_memory m c"
  "with_memory (ac_memory c) c = c"
  by (simp_all add: with_memory_def)

text \<open>How a summarization can go: it stops in the memory, or makes one model call and may rewrite.\<close>

lemma summarize_cases:
  assumes "summarize ext su c w = (r, c', w')"
  shows "\<exists>m. (mem_step (ax_compactor ext))\<^sup>*\<^sup>* (ac_memory c) m \<and>
    (c' = with_memory m c \<or>
     (\<exists>rq r3 c3 w3. call_model ext rq (with_memory m c) w = (r3, c3, w3) \<and>
        (\<exists>m4. (mem_step (ax_compactor ext))\<^sup>*\<^sup>* (ac_memory c3) m4 \<and> c' = with_memory m4 c3)))"
proof -
  let ?st = "(mem_step (ax_compactor ext))\<^sup>*\<^sup>*"
  obtain g m1 where g: "gather (mem_keys (ac_memory c)) (su_keep_recent su) (su_source_keys su) (ac_memory c) [] [] = (g, m1)"
    by fastforce
  have s1: "?st (ac_memory c) m1" using g by (rule gather_steps)
  show ?thesis
  proof (cases g)
    case (Inl e)
    then show ?thesis using assms g s1 by (auto simp: summarize_def)
  next
    case (Inr fk)
    obtain folded kept where fk: "fk = (folded, kept)" by fastforce
    show ?thesis
    proof (cases "folded = []")
      case True
      then show ?thesis using assms g Inr fk s1 by (auto simp: summarize_def)
    next
      case False
      obtain pr m2 where pr: "memory_get (su_summary_key su) m1 = (pr, m2)" by fastforce
      have s2: "?st (ac_memory c) m2" using s1 step_get[OF pr] rtranclp.rtrancl_into_rtrancl by metis
      show ?thesis
      proof (cases "\<exists>p rq. pr = Ok p \<and> su_build su folded p = Ok rq")
        case no: False
        have "c' = with_memory m2 c"
          using assms g Inr fk False pr no
          by (cases pr; cases "su_build su folded (projr pr)") (auto simp: summarize_def Let_def)
        then show ?thesis using s2 by blast
      next
        case True
        then obtain p rq where p: "pr = Ok p" "su_build su folded p = Ok rq" by blast
        obtain r3 c3 w3 where c3: "call_model ext rq (with_memory m2 c) w = (r3, c3, w3)" by (metis prod_cases3)
        have "c' = c3 \<or> (\<exists>summary m4 q. store_summary (ax_compactor ext) (su_summary_key su) kept summary (ac_memory c3) = (q, m4)
            \<and> c' = with_memory m4 c3)"
          using assms g Inr fk False pr p c3
          by (auto simp: summarize_def Let_def split: sum.splits if_splits prod.splits)
        then have "\<exists>m4. ?st (ac_memory c3) m4 \<and> c' = with_memory m4 c3"
          using store_summary_steps with_memory_simps(3) by (metis rtranclp.rtrancl_refl)
        then show ?thesis using s2 c3 by blast
      qed
    qed
  qed
qed

locale staging_invariant =
  fixes ext :: "'w act_ext" and P :: "activation_ctx \<Rightarrow> bool"
  assumes keeps_intent: "\<lbrakk>P c; stage_intent ext tool args kind ttl c = (i, c')\<rbrakk> \<Longrightarrow> P c'"
    and keeps_model: "\<lbrakk>P c; call_model ext rq c w = (r, c', w')\<rbrakk> \<Longrightarrow> P c'"
    and keeps_tool: "\<lbrakk>P c; run_tool ext tool args' c w = (v, c', w')\<rbrakk> \<Longrightarrow> P c'"
    and keeps_memory: "\<lbrakk>P c; mem_step (ax_compactor ext) (ac_memory c) m\<rbrakk> \<Longrightarrow> P (with_memory m c)"
    and keeps_longterm: "\<lbrakk>P c; ctx_longterm_save key x c = (u, c')\<rbrakk> \<Longrightarrow> P c'"
    and keeps_trace: "P c \<Longrightarrow> P (stage_trace ext ev c)"
    and keeps_usage: "P c \<Longrightarrow> P (accumulate_usage us c)"
begin

lemma keeps_memory_steps:
  assumes "(mem_step (ax_compactor ext))\<^sup>*\<^sup>* (ac_memory c) m" and "P c"
  shows "P (with_memory m c)"
  using assms
proof (induction rule: rtranclp_induct)
  case (step y z)
  then have "P (with_memory y c)" by simp
  then show ?case using keeps_memory[of "with_memory y c" z] step(2) by simp
qed simp

lemma drive_keeps: "\<lbrakk>P c; drive ext a c w = (r, c', w')\<rbrakk> \<Longrightarrow> P c'"
proof (induction a arbitrary: c w)
  case (Act tool args ttl k)
  obtain i c1 where o: "act ext tool args ttl c = (i, c1)" by fastforce
  then have "P c1" using keeps_intent[OF Act.prems(1)] by (simp add: act_def)
  then show ?case using Act.IH[OF rangeI] Act.prems(2) o by simp
next
  case (RequestApproval args ch ttl k)
  obtain i c1 where o: "request_approval ext args ch ttl c = (i, c1)" by fastforce
  then have "P c1" using keeps_intent[OF RequestApproval.prems(1)] by (simp add: request_approval_def)
  then show ?case using RequestApproval.IH[OF rangeI] RequestApproval.prems(2) o by simp
next
  case (CallModel rq k)
  obtain x c1 w1 where o: "call_model ext rq c w = (x, c1, w1)" by (metis prod_cases3)
  show ?case using CallModel.IH[OF rangeI keeps_model[OF CallModel.prems(1) o]] CallModel.prems(2) o by simp
next
  case (RunTool tool args k)
  obtain x c1 w1 where o: "run_tool ext tool args c w = (x, c1, w1)" by (metis prod_cases3)
  show ?case using RunTool.IH[OF rangeI keeps_tool[OF RunTool.prems(1) o]] RunTool.prems(2) o by simp
next
  case (Inspect k)
  then show ?case using Inspect.IH[OF rangeI] by simp
next
  case (MemGet key k)
  obtain x m where o: "memory_get key (ac_memory c) = (x, m)" by fastforce
  show ?case using MemGet.IH[OF rangeI keeps_memory[OF MemGet.prems(1) step_get[OF o]]] MemGet.prems(2) o by simp
next
  case (MemSet key v k)
  obtain x m where o: "memory_set (ax_compactor ext) key v (ac_memory c) = (x, m)" by fastforce
  show ?case using MemSet.IH[OF rangeI keeps_memory[OF MemSet.prems(1) step_set[OF o]]] MemSet.prems(2) o by simp
next
  case (MemDelete key a)
  then show ?case using MemDelete.IH[OF keeps_memory[OF MemDelete.prems(1) step_delete]] by simp
next
  case (MemAppend key item n k)
  obtain x m where o: "memory_append (ax_compactor ext) key item n (ac_memory c) = (x, m)" by fastforce
  show ?case
    using MemAppend.IH[OF rangeI keeps_memory[OF MemAppend.prems(1) step_append[OF o]]] MemAppend.prems(2) o by simp
next
  case (MemRing key k)
  obtain x m where o: "memory_ring key (ac_memory c) = (x, m)" by fastforce
  show ?case using MemRing.IH[OF rangeI keeps_memory[OF MemRing.prems(1) step_ring[OF o]]] MemRing.prems(2) o by simp
next
  case (LongtermSave key v k)
  obtain x c1 where o: "ctx_longterm_save key v c = (x, c1)" by fastforce
  show ?case using LongtermSave.IH[OF rangeI keeps_longterm[OF LongtermSave.prems(1) o]] LongtermSave.prems(2) o by simp
next
  case (LongtermLoad key k)
  then show ?case using LongtermLoad.IH[OF rangeI] by simp
next
  case (LongtermSearch pre limit k)
  then show ?case using LongtermSearch.IH[OF rangeI] by simp
next
  case (StageTrace ev a)
  then show ?case using StageTrace.IH[OF keeps_trace[OF StageTrace.prems(1)]] by simp
next
  case (AccumulateUsage us a)
  then show ?case using AccumulateUsage.IH[OF keeps_usage[OF AccumulateUsage.prems(1)]] by simp
qed simp_all

lemma summarize_keeps:
  assumes "P c" and "summarize ext su c w = (r, c', w')"
  shows "P c'"
proof -
  obtain m where m: "(mem_step (ax_compactor ext))\<^sup>*\<^sup>* (ac_memory c) m" and
    cases: "c' = with_memory m c \<or>
     (\<exists>rq r3 c3 w3. call_model ext rq (with_memory m c) w = (r3, c3, w3) \<and>
        (\<exists>m4. (mem_step (ax_compactor ext))\<^sup>*\<^sup>* (ac_memory c3) m4 \<and> c' = with_memory m4 c3))"
    using summarize_cases[OF assms(2)] by blast
  have "P (with_memory m c)" using m assms(1) by (rule keeps_memory_steps)
  then show ?thesis using cases keeps_model keeps_memory_steps by blast
qed

end

section \<open>Growth of the staged effects\<close>

definition minted :: "'w act_ext \<Rightarrow> activation_ctx \<Rightarrow> tool_intent \<Rightarrow> bool" where
  "minted ext c i \<longleftrightarrow>
     ti_id i = intent_id_for (ax_uuid ext) (ac_key c) (ac_seq c) (ti_step i) \<and>
     ti_key i = ac_key c \<and> ti_seq i = ac_seq c \<and> ti_created i = ac_now c"

definition scope_of :: "activation_ctx \<Rightarrow> bytes \<times> int \<times> msec \<times> int \<times> activation_trace" where
  "scope_of c = (ac_key c, ac_seq c, ac_now c, ac_start_step c, ac_trace c)"

definition grows :: "'w act_ext \<Rightarrow> activation_ctx \<Rightarrow> activation_ctx \<Rightarrow> bool" where
  "grows ext c c' \<longleftrightarrow> scope_of c' = scope_of c \<and> ac_step c \<le> ac_step c' \<and>
     (\<exists>new. ac_intents c' = ac_intents c @ new \<and> sorted_wrt (<) (map ti_step new) \<and>
        (\<forall>i \<in> set new. minted ext c i \<and> ac_step c \<le> ti_step i \<and> ti_step i < ac_step c')) \<and>
     (\<exists>evs. ac_traces c' = ac_traces c @ evs)"

lemma grows_refl [simp, intro]: "grows ext c c"
  by (simp add: grows_def)

lemma minted_scope: "scope_of c' = scope_of c \<Longrightarrow> minted ext c' i = minted ext c i"
  by (simp add: minted_def scope_of_def)

lemma grows_trans [trans]:
  assumes "grows ext a b" and "grows ext b c"
  shows "grows ext a c"
proof -
  obtain n1 e1 where 1: "ac_intents b = ac_intents a @ n1" "sorted_wrt (<) (map ti_step n1)"
    "\<forall>i \<in> set n1. minted ext a i \<and> ac_step a \<le> ti_step i \<and> ti_step i < ac_step b"
    "ac_traces b = ac_traces a @ e1"
    using assms(1) by (auto simp: grows_def)
  obtain n2 e2 where 2: "ac_intents c = ac_intents b @ n2" "sorted_wrt (<) (map ti_step n2)"
    "\<forall>i \<in> set n2. minted ext b i \<and> ac_step b \<le> ti_step i \<and> ti_step i < ac_step c"
    "ac_traces c = ac_traces b @ e2"
    using assms(2) by (auto simp: grows_def)
  have sc: "scope_of b = scope_of a" "scope_of c = scope_of a" "ac_step a \<le> ac_step b" "ac_step b \<le> ac_step c"
    using assms by (auto simp: grows_def)
  have "sorted_wrt (<) (map ti_step (n1 @ n2))"
    using 1(2,3) 2(2,3) by (fastforce simp: sorted_wrt_append)
  moreover have "\<forall>i \<in> set (n1 @ n2). minted ext a i \<and> ac_step a \<le> ti_step i \<and> ti_step i < ac_step c"
    using 1(3) 2(3) sc minted_scope[OF sc(1), of ext] by force
  ultimately show ?thesis using 1 2 sc by (auto simp: grows_def)
qed

text \<open>An operation that stages nothing grows trivially.\<close>

lemma grows_same:
  "\<lbrakk>scope_of c' = scope_of c; ac_step c \<le> ac_step c'; ac_intents c' = ac_intents c; \<exists>evs. ac_traces c' = ac_traces c @ evs\<rbrakk>
   \<Longrightarrow> grows ext c c'"
  by (simp add: grows_def)

lemma grows_with_memory [simp, intro]: "grows ext c (with_memory m c)"
  by (rule grows_same) (auto simp: with_memory_def scope_of_def)

lemma grows_stage_trace [simp, intro]: "grows ext c (stage_trace ext ev c)"
  by (rule grows_same) (auto simp: stage_trace_def scope_of_def)

lemma grows_accumulate [simp, intro]: "grows ext c (accumulate_usage u c)"
  by (rule grows_same) (auto simp: accumulate_usage_def scope_of_def Let_def)

lemma grows_advance: "grows ext c (snd (advance_step c))"
  by (rule grows_same) (auto simp: advance_step_def scope_of_def)

lemma grows_stage_intent: "stage_intent ext tool args kind ttl c = (i, c') \<Longrightarrow> grows ext c c'"
  by (auto simp: stage_intent_def advance_step_def Let_def grows_def scope_of_def minted_def mint_intent_def)

lemma grows_consume: "consume_response ext step hit m resp c = (r, c') \<Longrightarrow> grows ext c c'"
  by (rule grows_same)
    (auto simp: consume_response_def ctx_charge_def stage_llm_trace_def stage_trace_def scope_of_def Let_def
      split: sum.splits option.splits prod.splits)

lemma grows_call_provider:
  assumes "call_provider ext rq key step c w = (r, c', w')"
  shows "grows ext c c'"
proof -
  obtain t0 w1 where t0: "ax_clock ext w = (t0, w1)" by fastforce
  obtain ans w2 where ans: "ax_provider ext rq w1 = (ans, w2)" by fastforce
  show ?thesis
  proof (cases ans)
    case (Inl e)
    then show ?thesis using assms t0 ans by (simp add: call_provider_def)
  next
    case (Inr resp)
    obtain t1 w3 where t1: "ax_clock ext w2 = (t1, w3)" by fastforce
    let ?c1 = "c\<lparr>ac_cache := cache_put (ax_cache ext) key resp (ac_cache c),
      ac_tally := (ac_tally c)\<lparr>ty_llm_calls := ty_llm_calls (ac_tally c) + 1,
        ty_llm_ms := ty_llm_ms (ac_tally c) @ [(t1 - t0) div NS_PER_MS]\<rparr>\<rparr>"
    obtain r2 c2 where c2: "consume_response ext step False (rq_model rq) resp ?c1 = (r2, c2)" by fastforce
    have "c' = c2" using assms t0 ans t1 c2 Inr by (simp add: call_provider_def Let_def)
    moreover have "grows ext c ?c1" by (rule grows_same) (auto simp: scope_of_def)
    ultimately show ?thesis using grows_consume[OF c2] grows_trans by blast
  qed
qed

text \<open>The four ways a model call can go.\<close>

lemma call_model_cases:
  assumes "call_model ext rq c w = (r, c', w')"
  obtains (refused) e where "check_opt (ac_budget c) = Err e" "r = Err e" "c' = c" "w' = w"
    | (no_key) e where "r = Err e" "c' = snd (advance_step c)" "w' = w"
    | (hit) key hit cache' where
        "check_opt (ac_budget c) = Ok ()" "request_key (ax_cache ext) rq (ac_key c) (ac_seq c) = Ok key"
        "cache_get key (ac_cache c) = (Some hit, cache')" "\<not> re_digest_only hit" "w' = w"
        "consume_response ext (ac_step c) True (rq_model rq) (re_response hit)
           ((snd (advance_step c))\<lparr>ac_cache := cache'\<rparr>) = (r, c')"
    | (miss) key entry cache' where
        "check_opt (ac_budget c) = Ok ()" "request_key (ax_cache ext) rq (ac_key c) (ac_seq c) = Ok key"
        "cache_get key (ac_cache c) = (entry, cache')"
        "\<forall>h. entry = Some h \<longrightarrow> re_digest_only h"
        "call_provider ext rq key (ac_step c) ((snd (advance_step c))\<lparr>ac_cache := cache'\<rparr>) w = (r, c', w')"
proof (cases "check_opt (ac_budget c)")
  case (Inl e)
  then have "r = Err e \<and> c' = c \<and> w' = w" using assms by (simp add: call_model_def)
  then show ?thesis using refused[OF Inl] by simp
next
  case (Inr u)
  then have budget: "check_opt (ac_budget c) = Ok ()" by simp
  show ?thesis
  proof (cases "request_key (ax_cache ext) rq (ac_key c) (ac_seq c)")
    case (Inl e)
    then have "r = Err e \<and> c' = snd (advance_step c) \<and> w' = w"
      using assms budget by (simp add: call_model_def advance_step_def Let_def)
    then show ?thesis using no_key by simp
  next
    case key: (Inr ck)
    obtain entry cache' where got: "cache_get ck (ac_cache c) = (entry, cache')" by fastforce
    show ?thesis
    proof (cases "\<exists>h. entry = Some h \<and> \<not> re_digest_only h")
      case True
      then obtain h where h: "entry = Some h" "\<not> re_digest_only h" by blast
      obtain r0 c0 where co: "consume_response ext (ac_step c) True (rq_model rq) (re_response h)
           ((snd (advance_step c))\<lparr>ac_cache := cache'\<rparr>) = (r0, c0)" by fastforce
      then have eq: "r0 = r" "c0 = c'" "w' = w"
        using assms budget key got h by (simp_all add: call_model_def advance_step_def Let_def)
      show ?thesis
        by (rule hit[OF budget key got[unfolded h(1)] h(2) eq(3) co[unfolded eq]])
    next
      case False
      then have prov: "call_provider ext rq ck (ac_step c) ((snd (advance_step c))\<lparr>ac_cache := cache'\<rparr>) w = (r, c', w')"
        using assms budget key got by (cases entry) (simp_all add: call_model_def advance_step_def Let_def)
      have "\<forall>h. entry = Some h \<longrightarrow> re_digest_only h" using False by simp
      then show ?thesis by (rule miss[OF budget key got _ prov])
    qed
  qed
qed

lemma grows_call_model:
  assumes "call_model ext rq c w = (r, c', w')"
  shows "grows ext c c'"
proof -
  let ?c1 = "snd (advance_step c)"
  have "grows ext ?c1 (?c1\<lparr>ac_cache := x\<rparr>)" for x
    by (rule grows_same) (auto simp: scope_of_def)
  then have step: "grows ext c (?c1\<lparr>ac_cache := x\<rparr>)" for x
    using grows_advance grows_trans by blast
  from assms show ?thesis
  proof (cases rule: call_model_cases)
    case refused
    then show ?thesis by simp
  next
    case no_key
    then show ?thesis by (simp add: grows_advance)
  next
    case (hit key hit cache')
    then show ?thesis using grows_trans[OF step grows_consume] by blast
  next
    case (miss key entry cache')
    then show ?thesis using grows_trans[OF step grows_call_provider] by blast
  qed
qed

lemma grows_run_tool: "run_tool ext tool args c w = (r, c', w') \<Longrightarrow> grows ext c c'"
  by (rule grows_same) (auto simp: run_tool_def scope_of_def Let_def split: sum.splits prod.splits)

lemma grows_longterm_save: "ctx_longterm_save key v c = (r, c') \<Longrightarrow> grows ext c c'"
  by (auto simp: ctx_longterm_save_def split: sum.splits)

interpretation growth: staging_invariant ext "grows ext c0" for ext c0
proof unfold_locales
  fix c assume g: "grows ext c0 c"
  show "stage_intent ext tool args kind ttl c = (i, c') \<Longrightarrow> grows ext c0 c'" for tool args kind ttl i c'
    using grows_trans[OF g grows_stage_intent] .
  show "call_model ext rq c w = (r, c', w') \<Longrightarrow> grows ext c0 c'" for rq w r c' w'
    using grows_trans[OF g grows_call_model] .
  show "run_tool ext tool args c w = (v, c', w') \<Longrightarrow> grows ext c0 c'" for tool args w v c' w'
    using grows_trans[OF g grows_run_tool] .
  show "grows ext c0 (with_memory m c)" for m
    using grows_trans[OF g grows_with_memory] .
  show "ctx_longterm_save key x c = (u, c') \<Longrightarrow> grows ext c0 c'" for key x u c'
    using grows_trans[OF g grows_longterm_save] .
  show "grows ext c0 (stage_trace ext ev c)" for ev
    using grows_trans[OF g grows_stage_trace] .
  show "grows ext c0 (accumulate_usage us c)" for us
    using grows_trans[OF g grows_accumulate] .
qed

lemmas drive_grows = growth.drive_keeps[OF grows_refl]
lemmas summarize_grows = growth.summarize_keeps[OF grows_refl]

section \<open>The invariant of the staged state\<close>

lemma guarded_write_frame:
  assumes "compactor_good co" and "guarded_write co key compute m = (r, m')"
  shows "mem_longterm m' = mem_longterm m \<and> mem_now m' = mem_now m"
proof -
  have run: "mem_longterm n' = mem_longterm n \<and> mem_now n' = mem_now n"
    if co: "co = Some compact" and rc: "run_compactor compact n = (q, n')" for compact n q n'
  proof -
    have ev: "evicting_compactor compact" using assms(1) co by (simp add: compactor_good_def)
    obtain n1 where "compact (n\<lparr>mem_enforcing := False\<rparr>) = (q, n1)" "n' = n1\<lparr>mem_enforcing := True\<rparr>"
      using rc by (auto simp: run_compactor_def Let_def split: prod.splits)
    then show ?thesis
      using evicting_compactor.compact_shrinks[OF ev] by (fastforce simp: shrinks_def frame_of_def)
  qed
  have caw: "mem_longterm n' = mem_longterm n \<and> mem_now n' = mem_now n"
    if "commit_and_warn co key x n = (q, n')" for x n q n'
  proof (cases co)
    case None
    then show ?thesis using that
      by (auto simp: commit_and_warn_def maybe_soft_cap_def commit_entry_def Let_def split: if_splits)
  next
    case (Some compact)
    then show ?thesis using that run[OF Some]
      by (fastforce simp: commit_and_warn_def maybe_soft_cap_def commit_entry_def Let_def split: if_splits)
  qed
  show ?thesis
  proof (cases "compute m")
    case (Inl e)
    then show ?thesis using assms(2) by (simp add: guarded_write_def)
  next
    case (Inr v)
    show ?thesis
    proof (cases "mem_enforcing m \<and> prospective_total m key v > HARD_CAP_BYTES")
      case False
      then show ?thesis using assms(2) Inr caw by (simp add: guarded_write_def)
    next
      case True
      show ?thesis
      proof (cases co)
        case None
        then show ?thesis using assms(2) Inr True caw by (simp add: guarded_write_def check_and_commit_def Let_def)
      next
        case (Some compact)
        obtain q m1 where m1: "run_compactor compact m = (q, m1)" by fastforce
        show ?thesis
        proof (cases "m' = m1")
          case True
          then show ?thesis using run[OF Some m1] by simp
        next
          case False
          then obtain x where "commit_and_warn co key x m1 = (r, m')"
            using assms(2) Inr \<open>mem_enforcing m \<and> _\<close> Some m1
            by (auto simp: guarded_write_def check_and_commit_def Let_def split: sum.splits if_splits)
          then show ?thesis using caw run[OF Some m1] by simp
        qed
      qed
    qed
  qed
qed

lemma touch_frame:
  "mem_enforcing (touch key m) = mem_enforcing m \<and> mem_longterm (touch key m) = mem_longterm m \<and>
   mem_now (touch key m) = mem_now m"
  by (simp add: touch_def split: option.splits)

lemma mem_step_ok:
  assumes "mem_step co m m'" and "compactor_good co" and "memory_ok m" and "mem_enforcing m"
  shows "memory_ok m' \<and> (within_cap m \<longrightarrow> within_cap m') \<and> mem_enforcing m' \<and>
    mem_longterm m' = mem_longterm m \<and> mem_now m' = mem_now m"
  using assms(1)
proof cases
  case (step_get key r)
  then have "m' = m \<or> m' = touch key m"
    by (auto simp: memory_get_def split: option.splits list.splits if_splits)
  then show ?thesis using assms touch_ok[OF assms(3)] touch_frame by (auto simp: within_cap_def)
next
  case (step_ring key r)
  then have "m' = m \<or> m' = touch key m"
    by (auto simp: memory_ring_def split: option.splits list.splits if_splits sum.splits)
  then show ?thesis using assms touch_ok[OF assms(3)] touch_frame by (auto simp: within_cap_def)
next
  case (step_set key v r)
  then show ?thesis
    using memory_set_good[OF assms(2,3)] enforcing_kept(1)[OF assms(4)] assms(4)
      guarded_write_frame[OF assms(2)] by (fastforce simp: memory_set_def)
next
  case (step_append key item n r)
  have "m' = m \<or> guarded_write co key (append_compute key item n) m = (r, m')"
    using step_append by (auto simp: memory_append_def split: option.splits prod.splits list.splits if_splits)
  then have "mem_longterm m' = mem_longterm m \<and> mem_now m' = mem_now m"
    using guarded_write_frame[OF assms(2)] by auto
  then show ?thesis
    using memory_append_good[OF assms(2,3) step_append] enforcing_kept(2)[OF assms(4) step_append] assms(4) by simp
next
  case (step_delete key)
  then show ?thesis
    using assms memory_delete_ok[OF assms(3)] memory_delete_total_le[of key m]
    by (auto simp: within_cap_def memory_delete_def split: option.splits)
qed

definition handle_ok :: "'w act_ext \<Rightarrow> activation_ctx \<Rightarrow> bool" where
  "handle_ok ext c \<longleftrightarrow> (mem_longterm (ac_memory c) = None \<longleftrightarrow> ax_store ext = None) \<and>
     (\<forall>lt. mem_longterm (ac_memory c) = Some lt \<longrightarrow>
        longterm_ok lt \<and> lt_entity lt = ac_key c \<and> lt_seq lt = ac_seq c \<and> lt_now lt = ac_now c)"

definition tally_ok :: "tally \<Rightarrow> bool" where
  "tally_ok t \<longleftrightarrow> ty_llm_calls t = int (length (ty_llm_ms t)) \<and> ty_tool_calls t = int (length (ty_tool_ms t))"

definition ctx_inv :: "'w act_ext \<Rightarrow> activation_ctx \<Rightarrow> bool" where
  "ctx_inv ext c \<longleftrightarrow> memory_ok (ac_memory c) \<and> within_cap (ac_memory c) \<and> mem_enforcing (ac_memory c) \<and>
     cache_ok (ac_cache c) \<and> rc_now (ac_cache c) = ac_now c \<and> handle_ok ext c \<and> tally_ok (ac_tally c)"

lemma ctx_inv_same:
  "\<lbrakk>ctx_inv ext c; ac_memory c' = ac_memory c; cache_ok (ac_cache c'); rc_now (ac_cache c') = rc_now (ac_cache c);
    ac_key c' = ac_key c; ac_seq c' = ac_seq c; ac_now c' = ac_now c; tally_ok (ac_tally c')\<rbrakk> \<Longrightarrow> ctx_inv ext c'"
  by (simp add: ctx_inv_def handle_ok_def)

lemma ctx_inv_consume:
  assumes "ctx_inv ext c" and "consume_response ext step hit m resp c = (r, c')"
  shows "ctx_inv ext c'"
  using assms
  by (intro ctx_inv_same[OF assms(1)])
    (auto simp: consume_response_def ctx_charge_def stage_llm_trace_def stage_trace_def ctx_inv_def Let_def
      split: sum.splits option.splits prod.splits)

lemma ctx_inv_provider:
  assumes "ctx_inv ext c" and "call_provider ext rq key step c w = (r, c', w')"
  shows "ctx_inv ext c'"
proof -
  obtain t0 w1 where t0: "ax_clock ext w = (t0, w1)" by fastforce
  obtain ans w2 where ans: "ax_provider ext rq w1 = (ans, w2)" by fastforce
  show ?thesis
  proof (cases ans)
    case (Inl e)
    then show ?thesis using assms t0 ans by (simp add: call_provider_def)
  next
    case (Inr resp)
    obtain t1 w3 where t1: "ax_clock ext w2 = (t1, w3)" by fastforce
    let ?c1 = "c\<lparr>ac_cache := cache_put (ax_cache ext) key resp (ac_cache c),
      ac_tally := (ac_tally c)\<lparr>ty_llm_calls := ty_llm_calls (ac_tally c) + 1,
        ty_llm_ms := ty_llm_ms (ac_tally c) @ [(t1 - t0) div NS_PER_MS]\<rparr>\<rparr>"
    obtain r2 c2 where c2: "consume_response ext step False (rq_model rq) resp ?c1 = (r2, c2)" by fastforce
    have "c' = c2" using assms t0 ans t1 c2 Inr by (simp add: call_provider_def Let_def)
    moreover have "ctx_inv ext ?c1"
      using assms(1) cache_put_ok(1,3)
      by (intro ctx_inv_same[OF assms(1)]) (auto simp: ctx_inv_def tally_ok_def)
    ultimately show ?thesis using ctx_inv_consume[OF _ c2] by simp
  qed
qed

lemma ctx_inv_cache:
  assumes "ctx_inv ext c" and "cache_get key (ac_cache c) = (x, cache')"
  shows "ctx_inv ext ((snd (advance_step c))\<lparr>ac_cache := cache'\<rparr>)"
  using assms cache_get_ok[of "ac_cache c" key x cache']
  by (intro ctx_inv_same[OF assms(1)]) (auto simp: advance_step_def ctx_inv_def)

lemma ctx_inv_model:
  assumes "ctx_inv ext c" and "call_model ext rq c w = (r, c', w')"
  shows "ctx_inv ext c'"
  using assms(2)
proof (cases rule: call_model_cases)
  case refused
  then show ?thesis using assms(1) by simp
next
  case no_key
  then show ?thesis using assms(1)
    by (intro ctx_inv_same[OF assms(1)]) (auto simp: advance_step_def ctx_inv_def)
next
  case (hit key hit cache')
  then show ?thesis using ctx_inv_consume[OF ctx_inv_cache[OF assms(1)]] by blast
next
  case (miss key entry cache')
  then show ?thesis using ctx_inv_provider[OF ctx_inv_cache[OF assms(1)]] by blast
qed

lemma ctx_inv_memory:
  assumes "ctx_inv ext c" and "mem_step (ax_compactor ext) (ac_memory c) m" and "compactor_good (ax_compactor ext)"
  shows "ctx_inv ext (with_memory m c)"
  using assms mem_step_ok[OF assms(2,3)]
  by (auto simp: ctx_inv_def handle_ok_def with_memory_def)

lemma ctx_inv_longterm:
  assumes "ctx_inv ext c" and "ctx_longterm_save key v c = (r, c')"
  shows "ctx_inv ext c'"
proof (cases "mem_longterm (ac_memory c)")
  case None
  then show ?thesis using assms by (simp add: ctx_longterm_save_def require_longterm_def)
next
  case (Some lt)
  show ?thesis
  proof (cases "longterm_save lt key v")
    case (Inl e)
    then show ?thesis using assms Some by (simp add: ctx_longterm_save_def require_longterm_def)
  next
    case (Inr lt')
    then have c': "c' = with_memory ((ac_memory c)\<lparr>mem_longterm := Some lt'\<rparr>) c"
      using assms(2) Some by (simp add: ctx_longterm_save_def require_longterm_def)
    have "longterm_ok lt'" using longterm_save_ok[OF Inr] assms(1) Some by (simp add: ctx_inv_def handle_ok_def)
    moreover have "lt_entity lt' = lt_entity lt" "lt_seq lt' = lt_seq lt" "lt_now lt' = lt_now lt"
      using Inr by (auto simp: longterm_save_def split: if_splits)
    ultimately show ?thesis
      using assms(1) Some c' by (auto simp: ctx_inv_def handle_ok_def with_memory_def within_cap_def)
  qed
qed

interpretation staged: staging_invariant ext "\<lambda>c. compactor_good (ax_compactor ext) \<longrightarrow> ctx_inv ext c" for ext
proof unfold_locales
  fix c assume g: "compactor_good (ax_compactor ext) \<longrightarrow> ctx_inv ext c"
  show "stage_intent ext tool args kind ttl c = (i, c') \<Longrightarrow> compactor_good (ax_compactor ext) \<longrightarrow> ctx_inv ext c'"
    for tool args kind ttl i c'
    using g by (auto simp: stage_intent_def advance_step_def Let_def ctx_inv_def handle_ok_def)
  show "call_model ext rq c w = (r, c', w') \<Longrightarrow> compactor_good (ax_compactor ext) \<longrightarrow> ctx_inv ext c'" for rq w r c' w'
    using g by (auto dest: ctx_inv_model)
  show "run_tool ext tool args c w = (v, c', w') \<Longrightarrow> compactor_good (ax_compactor ext) \<longrightarrow> ctx_inv ext c'"
    for tool args w v c' w'
    using g by (auto simp: run_tool_def Let_def ctx_inv_def handle_ok_def tally_ok_def split: sum.splits prod.splits)
  show "mem_step (ax_compactor ext) (ac_memory c) m \<Longrightarrow>
      compactor_good (ax_compactor ext) \<longrightarrow> ctx_inv ext (with_memory m c)" for m
    using g by (auto intro: ctx_inv_memory)
  show "ctx_longterm_save key x c = (u, c') \<Longrightarrow> compactor_good (ax_compactor ext) \<longrightarrow> ctx_inv ext c'" for key x u c'
    using g by (auto dest: ctx_inv_longterm)
  show "compactor_good (ax_compactor ext) \<longrightarrow> ctx_inv ext (stage_trace ext ev c)" for ev
    using g by (auto simp: stage_trace_def ctx_inv_def handle_ok_def)
  show "compactor_good (ax_compactor ext) \<longrightarrow> ctx_inv ext (accumulate_usage us c)" for us
    using g by (auto simp: accumulate_usage_def Let_def ctx_inv_def handle_ok_def tally_ok_def)
qed

end
