(* ===== verification/Loop_Results.thy ===== *)
theory Loop_Results
  imports Loop_Invariants
begin

text \<open>
  What a successful activation hands to the stateful DoFn, stated on the result alone: the
  identifiers and steps of its intents, the shape of its continuation and of its deadline, and
  the invariants of the blobs it would commit.
\<close>

definition committed_memory_ok :: "memory_blob \<Rightarrow> bool" where
  "committed_memory_ok b \<longleftrightarrow> blob_ok b \<and> (\<Sum>e\<leftarrow>mb_entries b. int (length (me_value e))) \<le> HARD_CAP_BYTES"

definition input_ok :: "activation_input \<Rightarrow> bool" where
  "input_ok inp \<longleftrightarrow> (\<forall>b. ai_memory inp = Some b \<longrightarrow> committed_memory_ok b) \<and>
     (\<forall>b. ai_cache inp = Some b \<longrightarrow> cache_blob_ok b)"

lemma budget_of_cases: "budget_of l = Ok b \<Longrightarrow> b = None \<and> l = None \<or> (\<exists>n t. l = Some n \<and> b = Some t \<and> budget_init n = Ok t)"
  by (auto simp: budget_of_def split: option.splits)

lemma context_init_Ok:
  assumes "context_init ext inp = Ok c0"
  shows "ac_key c0 = ai_key inp \<and> ac_seq c0 = ai_seq inp \<and> ac_now c0 = ai_now inp \<and>
    ac_step c0 = ai_step inp \<and> ac_start_step c0 = ai_step inp \<and> ac_intents c0 = [] \<and> ac_traces c0 = [] \<and>
    ac_tally c0 = empty_tally \<and> ac_cache c0 = cache_init (ax_cache ext) (ai_cache inp) (ai_now inp) \<and>
    ac_memory c0 = memory_init (ai_memory inp) (ai_now inp)
      (case ax_store ext of None \<Rightarrow> None | Some _ \<Rightarrow> Some (longterm_init (ai_key inp) (ai_seq inp) (ai_now inp)))"
proof -
  obtain b where "budget_of (ai_max_tokens inp) = Ok b"
    using assms by (auto simp: context_init_def split: if_splits)
  then show ?thesis using assms by (auto simp: context_init_def split: if_splits)
qed

lemma memory_init_fields [simp]:
  "mem_longterm (memory_init b now lt) = lt"
  "mem_now (memory_init b now lt) = now"
  "mem_enforcing (memory_init b now lt)"
  by (simp_all add: memory_init_def split: prod.splits)

lemma context_init_inv:
  assumes "context_init ext inp = Ok c0" and "input_ok inp"
  shows "ctx_inv ext c0"
proof -
  note c0 = context_init_Ok[OF assms(1)]
  let ?lt = "case ax_store ext of None \<Rightarrow> None | Some _ \<Rightarrow> Some (longterm_init (ai_key inp) (ai_seq inp) (ai_now inp))"
  have mem: "memory_ok (memory_init (ai_memory inp) (ai_now inp) ?lt) \<and>
      within_cap (memory_init (ai_memory inp) (ai_now inp) ?lt)"
  proof (cases "ai_memory inp")
    case None
    then show ?thesis
      by (auto simp: memory_init_None_ok) (simp add: within_cap_def memory_init_def HARD_CAP_BYTES_def)
  next
    case (Some b)
    then have b: "blob_ok b" "(\<Sum>e\<leftarrow>mb_entries b. int (length (me_value e))) \<le> HARD_CAP_BYTES"
      using assms(2) by (auto simp: input_ok_def committed_memory_ok_def)
    have "mem_total (memory_init (Some b) (ai_now inp) ?lt) = (\<Sum>e\<leftarrow>mb_entries b. int (length (me_value e)))"
      using load_entries_spec[of "mb_entries b" "[]" 0] b(1) by (simp add: memory_init_def blob_ok_def)
    then show ?thesis using Some b memory_init_blob_ok[OF b(1)] by (simp add: within_cap_def)
  qed
  have cache: "cache_ok (cache_init (ax_cache ext) (ai_cache inp) (ai_now inp))"
      "rc_now (cache_init (ax_cache ext) (ai_cache inp) (ai_now inp)) = ai_now inp"
    using cache_init_ok[of "ai_cache inp"] assms(2) by (auto simp: input_ok_def)
  show ?thesis
    using c0 mem cache
    by (auto simp: ctx_inv_def handle_ok_def tally_ok_def empty_tally_def longterm_init_ok
        split: option.splits) (simp_all add: longterm_init_def)
qed

definition outcome_continuation :: "activation_input \<Rightarrow> outcome \<Rightarrow> activation_ctx \<Rightarrow> continuation option" where
  "outcome_continuation inp out c =
     (case out of
        Complete _ \<Rightarrow> None
      | Suspend snapshot adapter timeout_ms \<Rightarrow>
          Some (build_continuation snapshot adapter (suspend_deadline inp timeout_ms c) c))"

definition outcome_outputs :: "outcome \<Rightarrow> bytes list" where
  "outcome_outputs out = (case out of Complete b \<Rightarrow> (if b = [] then [] else [b]) | Suspend _ _ _ \<Rightarrow> [])"

lemma stage_trace_frame [simp]:
  "ac_intents (stage_trace ext ev c) = ac_intents c"
  "ac_step (stage_trace ext ev c) = ac_step c"
  "ac_start_step (stage_trace ext ev c) = ac_start_step c"
  "ac_seq (stage_trace ext ev c) = ac_seq c"
  "ac_key (stage_trace ext ev c) = ac_key c"
  "ac_now (stage_trace ext ev c) = ac_now c"
  "ac_memory (stage_trace ext ev c) = ac_memory c"
  "ac_cache (stage_trace ext ev c) = ac_cache c"
  "ac_tally (stage_trace ext ev c) = ac_tally c"
  by (simp_all add: stage_trace_def)

lemma flush_longterm_Ok: "flush_longterm ext c w = (Ok ups, w') \<Longrightarrow> ups = ctx_upserts c"
  by (auto simp: flush_longterm_def Let_def split: if_splits option.splits prod.splits)

lemma conclude_Ok:
  assumes "conclude ext inp out c w = (RunOk ar, w')"
  shows "\<exists>c'. grows ext c c' \<and> ac_intents c' = ac_intents c \<and> ac_step c' = ac_step c \<and>
    ac_memory c' = ac_memory c \<and> ac_cache c' = ac_cache c \<and> ac_tally c' = ac_tally c \<and>
    ar = result_of c' (outcome_outputs out) (outcome_continuation inp out c') (ctx_upserts c')"
proof (cases out)
  case (Complete b)
  let ?c1 = "stage_trace ext (activation_end (ax_trace_uuid ext) (ac_trace c) ''completed'' (ac_step c)) c"
  have "ar = result_of ?c1 (if b = [] then [] else [b]) None (ctx_upserts ?c1)"
    using assms Complete
    by (auto simp: conclude_def Let_def dest: flush_longterm_Ok split: prod.splits sum.splits)
  then show ?thesis
    by (intro exI[of _ ?c1]) (simp add: Complete outcome_outputs_def outcome_continuation_def)
next
  case (Suspend snap adapter t)
  let ?d = "suspend_deadline inp t c"
  let ?k = "build_continuation snap adapter ?d c"
  let ?c1 = "stage_trace ext (suspended_event (ax_trace_uuid ext) (ac_trace c) (ac_step c) ?d adapter (co_pending ?k)) c"
  let ?c2 = "stage_trace ext (activation_end (ax_trace_uuid ext) (ac_trace c) ''suspended'' (ac_step c)) ?c1"
  have "ar = result_of ?c2 [] (Some ?k) (ctx_upserts ?c2)"
    using assms Suspend
    by (auto simp: conclude_def Let_def dest: flush_longterm_Ok split: prod.splits sum.splits)
  moreover have "grows ext c ?c2" using grows_stage_trace grows_trans by blast
  ultimately show ?thesis
    by (intro exI[of _ ?c2])
      (simp add: Suspend outcome_outputs_def outcome_continuation_def build_continuation_def suspend_deadline_def)
qed

lemma ctx_inv_stage_trace: "ctx_inv ext (stage_trace ext ev c) = ctx_inv ext c"
  by (simp add: ctx_inv_def handle_ok_def)

lemma run_ok_context:
  assumes "run_activation ext su a inp w = (RunOk ar, w')"
  shows "\<exists>c0 c out. context_init ext inp = Ok c0 \<and> grows ext c0 c \<and>
    (compactor_good (ax_compactor ext) \<longrightarrow> input_ok inp \<longrightarrow> ctx_inv ext c) \<and>
    ar = result_of c (outcome_outputs out) (outcome_continuation inp out c) (ctx_upserts c)"
proof -
  obtain c0 where c0: "context_init ext inp = Ok c0"
    using assms by (auto simp: run_activation_def split: sum.splits)
  let ?s = "stage_trace ext (start_event ext (ai_trigger inp) c0) c0"
  obtain x c1 w1 where d: "drive ext a ?s w = (x, c1, w1)" by (metis prod_cases3)
  obtain out where x: "x = Ok out" using assms c0 d by (cases x) (auto simp: run_activation_def)
  have aft: "after_agent ext su inp out c1 w1 = (RunOk ar, w')"
    using assms c0 d x by (simp add: run_activation_def)
  have g1: "grows ext c0 c1" using grows_trans[OF grows_stage_trace drive_grows[OF d]] .
  have i1: "compactor_good (ax_compactor ext) \<longrightarrow> input_ok inp \<longrightarrow> ctx_inv ext c1"
    using staged.drive_keeps[OF _ d] context_init_inv[OF c0] ctx_inv_stage_trace by blast
  have "\<exists>c2 w2. grows ext c0 c2 \<and> (compactor_good (ax_compactor ext) \<longrightarrow> input_ok inp \<longrightarrow> ctx_inv ext c2) \<and>
      conclude ext inp out c2 w2 = (RunOk ar, w')"
  proof (cases "\<exists>s. su = Some s \<and> size_bytes (ac_memory c1) \<ge> su_trigger s")
    case True
    then obtain s where s: "su = Some s" "size_bytes (ac_memory c1) \<ge> su_trigger s" by blast
    obtain q c2 w2 where sm: "summarize ext s c1 w1 = (q, c2, w2)" by (metis prod_cases3)
    have "conclude ext inp out c2 w2 = (RunOk ar, w')"
      using aft s sm by (cases q) (auto simp: after_agent_def)
    moreover have "grows ext c0 c2" using grows_trans[OF g1 summarize_grows[OF sm]] .
    moreover have "compactor_good (ax_compactor ext) \<longrightarrow> input_ok inp \<longrightarrow> ctx_inv ext c2"
      using staged.summarize_keeps[OF _ sm] i1 by blast
    ultimately show ?thesis by blast
  next
    case False
    then have "conclude ext inp out c1 w1 = (RunOk ar, w')"
      using aft by (cases su) (auto simp: after_agent_def)
    then show ?thesis using g1 i1 by blast
  qed
  then obtain c2 w2 where c2: "grows ext c0 c2"
    "compactor_good (ax_compactor ext) \<longrightarrow> input_ok inp \<longrightarrow> ctx_inv ext c2"
    "conclude ext inp out c2 w2 = (RunOk ar, w')" by blast
  obtain c where c: "grows ext c2 c" "ac_memory c = ac_memory c2" "ac_cache c = ac_cache c2" "ac_tally c = ac_tally c2"
    "ar = result_of c (outcome_outputs out) (outcome_continuation inp out c) (ctx_upserts c)"
    using conclude_Ok[OF c2(3)] by blast
  have "ctx_inv ext c2 \<Longrightarrow> ctx_inv ext c"
    using c by (auto simp: ctx_inv_def handle_ok_def grows_def scope_of_def)
  then show ?thesis using c0 c c2 grows_trans[OF c2(1) c(1)] by blast
qed

section \<open>The intents and the continuation\<close>

definition intent_of_run :: "'w act_ext \<Rightarrow> activation_input \<Rightarrow> tool_intent \<Rightarrow> bool" where
  "intent_of_run ext inp i \<longleftrightarrow>
     ti_id i = intent_id_for (ax_uuid ext) (ai_key inp) (ai_seq inp) (ti_step i) \<and>
     ti_key i = ai_key inp \<and> ti_seq i = ai_seq inp \<and> ti_created i = ai_now inp \<and> ai_step inp \<le> ti_step i"

lemma run_intents:
  assumes "run_activation ext su a inp w = (RunOk ar, w')"
  shows "\<forall>i \<in> set (ar_intents ar). intent_of_run ext inp i"
    and "sorted_wrt (<) (map ti_step (ar_intents ar))"
    and "\<forall>k. ar_continuation ar = Some k \<longrightarrow> co_seq k = ai_seq inp \<and> ai_step inp \<le> co_step k \<and>
      co_pending k = map ti_id (ar_intents ar) \<and> co_escalations k = 0 \<and> co_suspended k = ai_now inp \<and>
      co_version k = CURRENT_STATE_SCHEMA_VERSION \<and> ar_deadline ar = Some (co_deadline k) \<and>
      (\<forall>i \<in> set (ar_intents ar). ti_step i < co_step k)"
    and "ar_seq ar = ai_seq inp"
    and "ar_suspended ar = (ar_continuation ar \<noteq> None)"
    and "ar_continuation ar \<noteq> None \<Longrightarrow> ar_outputs ar = []"
    and "ar_deadline ar = map_option co_deadline (ar_continuation ar)"
proof -
  obtain c0 c out where c0: "context_init ext inp = Ok c0" and g: "grows ext c0 c"
    and ar: "ar = result_of c (outcome_outputs out) (outcome_continuation inp out c) (ctx_upserts c)"
    using run_ok_context[OF assms] by blast
  note init = context_init_Ok[OF c0]
  obtain new where new: "ac_intents c = new" "sorted_wrt (<) (map ti_step new)"
    "\<forall>i \<in> set new. minted ext c0 i \<and> ac_step c0 \<le> ti_step i \<and> ti_step i < ac_step c"
    using g init by (auto simp: grows_def)
  have sc: "ac_key c = ai_key inp" "ac_seq c = ai_seq inp" "ac_now c = ai_now inp" "ai_step inp \<le> ac_step c"
    using g init by (auto simp: grows_def scope_of_def)
  show "\<forall>i \<in> set (ar_intents ar). intent_of_run ext inp i"
    using new init by (auto simp: ar result_of_def intent_of_run_def minted_def)
  show "sorted_wrt (<) (map ti_step (ar_intents ar))" using new by (simp add: ar result_of_def)
  show "\<forall>k. ar_continuation ar = Some k \<longrightarrow> co_seq k = ai_seq inp \<and> ai_step inp \<le> co_step k \<and>
      co_pending k = map ti_id (ar_intents ar) \<and> co_escalations k = 0 \<and> co_suspended k = ai_now inp \<and>
      co_version k = CURRENT_STATE_SCHEMA_VERSION \<and> ar_deadline ar = Some (co_deadline k) \<and>
      (\<forall>i \<in> set (ar_intents ar). ti_step i < co_step k)"
    using new sc by (auto simp: ar result_of_def outcome_continuation_def build_continuation_def split: outcome.splits)
  show "ar_seq ar = ai_seq inp" using sc by (simp add: ar result_of_def)
  show "ar_suspended ar = (ar_continuation ar \<noteq> None)" by (simp add: ar result_of_def)
  show "ar_continuation ar \<noteq> None \<Longrightarrow> ar_outputs ar = []"
    by (simp add: ar result_of_def outcome_continuation_def outcome_outputs_def split: outcome.splits)
  show "ar_deadline ar = map_option co_deadline (ar_continuation ar)" by (simp add: ar result_of_def)
qed

text \<open>The deadline is the earliest of the suspension timeout and the staged expiries.\<close>

lemma suspend_deadline_min:
  "suspend_deadline inp t c =
     Min (insert (ai_now inp + (case t of Some x \<Rightarrow> x | None \<Rightarrow> ai_default_timeout inp)) (set (map ti_expires (ac_intents c))))"
  unfolding suspend_deadline_def by (subst Min.set_eq_fold[symmetric]) simp

lemma run_deadline:
  assumes "run_activation ext su a inp w = (RunOk ar, w')" and "ar_deadline ar = Some d"
  shows "\<forall>i \<in> set (ar_intents ar). d \<le> ti_expires i"
    and "\<exists>t. d = Min (insert (ai_now inp + t) (ti_expires ` set (ar_intents ar)))"
proof -
  obtain c out where ar: "ar = result_of c (outcome_outputs out) (outcome_continuation inp out c) (ctx_upserts c)"
    using run_ok_context[OF assms(1)] by blast
  then obtain snap ad t where out: "out = Suspend snap ad t"
    using assms(2) by (auto simp: result_of_def outcome_continuation_def split: outcome.splits)
  then have d: "d = Min (insert (ai_now inp + (case t of Some x \<Rightarrow> x | None \<Rightarrow> ai_default_timeout inp))
      (ti_expires ` set (ar_intents ar)))"
    using assms(2) ar by (simp add: result_of_def outcome_continuation_def build_continuation_def suspend_deadline_min)
  then show "\<forall>i \<in> set (ar_intents ar). d \<le> ti_expires i" by simp
  show "\<exists>t. d = Min (insert (ai_now inp + t) (ti_expires ` set (ar_intents ar)))" using d by blast
qed

section \<open>The committed blobs\<close>

lemma memory_to_blob_committed: "\<lbrakk>memory_ok m; within_cap m\<rbrakk> \<Longrightarrow> committed_memory_ok (memory_to_blob m)"
  using to_blob_ok[of m]
  by (simp add: committed_memory_ok_def memory_ok_def within_cap_def memory_to_blob_def weight_def comp_def
      split_def entry_weight_def)

lemma run_blobs:
  assumes "run_activation ext su a inp w = (RunOk ar, w')"
    and "compactor_good (ax_compactor ext)" and "input_ok inp"
  shows "committed_memory_ok (ar_memory ar)" and "cache_blob_ok (ar_cache ar)"
    and "tally_ok (ar_tally ar)"
    and "\<forall>r \<in> set (ar_upserts ar). mr_entity r = ai_key inp \<and> mr_seq r = ai_seq inp \<and> mr_updated r = ai_now inp \<and> mr_key r \<noteq> []"
    and "distinct (map row_id (ar_upserts ar))"
proof -
  obtain c0 c out where c0: "context_init ext inp = Ok c0" and g: "grows ext c0 c" and inv: "ctx_inv ext c"
    and ar: "ar = result_of c (outcome_outputs out) (outcome_continuation inp out c) (ctx_upserts c)"
    using run_ok_context[OF assms(1)] assms(2,3) by blast
  have sc: "ac_key c = ai_key inp" "ac_seq c = ai_seq inp" "ac_now c = ai_now inp"
    using g context_init_Ok[OF c0] by (auto simp: grows_def scope_of_def)
  show "committed_memory_ok (ar_memory ar)"
    using inv by (simp add: ar result_of_def ctx_inv_def memory_to_blob_committed)
  show "cache_blob_ok (ar_cache ar)" using inv by (simp add: ar result_of_def ctx_inv_def cache_to_blob_ok)
  show "tally_ok (ar_tally ar)" using inv by (simp add: ar result_of_def ctx_inv_def tally_ok_def ctx_tally_def)
  have "\<forall>lt. mem_longterm (ac_memory c) = Some lt \<longrightarrow>
      (\<forall>r \<in> set (staged_upserts lt). mr_entity r = ai_key inp \<and> mr_seq r = ai_seq inp \<and> mr_updated r = ai_now inp \<and> mr_key r \<noteq> [])
      \<and> distinct (map row_id (staged_upserts lt))"
  proof (intro allI impI)
    fix lt assume "mem_longterm (ac_memory c) = Some lt"
    then have lt: "longterm_ok lt" "lt_entity lt = ai_key inp" "lt_seq lt = ai_seq inp" "lt_now lt = ai_now inp"
      using inv sc by (auto simp: ctx_inv_def handle_ok_def)
    have "map mr_key (staged_upserts lt) = map fst (lt_staged lt)"
      using lt(1) by (auto simp: longterm_ok_def staged_upserts_def)
    then have "distinct (map snd (map row_id (staged_upserts lt)))"
      using lt(1) by (simp add: longterm_ok_def row_id_def comp_def)
    then have "distinct (map row_id (staged_upserts lt))"
      by (rule distinct_map[THEN iffD1, THEN conjunct1])
    then show "(\<forall>r \<in> set (staged_upserts lt). mr_entity r = ai_key inp \<and> mr_seq r = ai_seq inp \<and> mr_updated r = ai_now inp \<and> mr_key r \<noteq> [])
      \<and> distinct (map row_id (staged_upserts lt))"
      using lt by (fastforce simp: longterm_ok_def staged_upserts_def)
  qed
  then show "\<forall>r \<in> set (ar_upserts ar). mr_entity r = ai_key inp \<and> mr_seq r = ai_seq inp \<and> mr_updated r = ai_now inp \<and> mr_key r \<noteq> []"
    "distinct (map row_id (ar_upserts ar))"
    by (cases "mem_longterm (ac_memory c)"; force simp: ar result_of_def ctx_upserts_def longterm_staged_def)+
qed

end
