(* ===== verification/Dofn_Steps.thy ===== *)
theory Dofn_Steps
  imports Dofn Loop_Results
begin

text \<open>
  What one delivery to a key does, as case lemmas over the handlers of the previous theory: an
  element or a flush either commits a successful activation, or leaves only dead letters and
  error traces; and the counters agree with the emissions.
\<close>

section \<open>Activations\<close>

lemma activate_Activated:
  assumes "activate d si inp w = (Activated ar ams, obs, w1)"
  shows "\<exists>w0 w0'. run_activation (df_ext d) (df_summarizer d) (df_agent d) inp w0 = (RunOk ar, w0')"
  using assms
  by (auto simp: activate_def Let_def split: prod.splits option.splits run_result.splits)

lemma activate_observes: "activate d si inp w = (r, obs, w1) \<Longrightarrow> \<exists>x. obs = [Observe ActivationMsD x]"
  by (auto simp: activate_def Let_def split: prod.splits)

text \<open>
  A committing step: a successful run on an input carrying the key's cells, the state it
  commits, and its outputs, intents and traces in that order.
\<close>

definition commits ::
  "'w dofn \<Rightarrow> 'w step_input \<Rightarrow> bytes \<Rightarrow> int \<Rightarrow> int \<Rightarrow> msec \<Rightarrow> bool \<Rightarrow> (int \<times> string) option \<Rightarrow> kstate
   \<Rightarrow> activation_result \<Rightarrow> step_out \<Rightarrow> bool" where
  "commits d si key seq step now_ms handles flushed ks ar so \<longleftrightarrow>
     (\<exists>inp w0 w0' ams x.
        run_activation (df_ext d) (df_summarizer d) (df_agent d) inp w0 = (RunOk ar, w0') \<and>
        ai_key inp = key \<and> ai_seq inp = seq \<and> ai_step inp = step \<and> ai_now inp = now_ms \<and>
        ai_memory inp = ks_memory ks \<and> ai_cache inp = ks_cache ks \<and>
        so_state so = commit_state d si ar now_ms handles flushed ks \<and>
        so_emits so = map MainOut (ar_outputs ar) @ map IntentOut (ar_intents ar) @ map TraceOut (ar_traces ar) \<and>
        so_metrics so = Observe ActivationMsD x # record_commit ar ams flushed)"

definition fails :: "bytes \<Rightarrow> msec \<Rightarrow> kstate \<Rightarrow> step_out \<Rightarrow> bool" where
  "fails key now_ms ks so \<longleftrightarrow>
     so_state so = ks \<and>
     (\<exists>reason detail tr x. reason \<in> {REASON_TIMEOUT, REASON_ERROR, REASON_BUDGET_EXCEEDED} \<and>
        so_emits so = [dead_letter key reason detail now_ms, TraceOut tr] \<and>
        so_metrics so = [Observe ActivationMsD x, dead_letter_metric reason])"

definition fails_flush :: "bytes \<Rightarrow> msec \<Rightarrow> envelope list \<Rightarrow> kstate \<Rightarrow> step_out \<Rightarrow> bool" where
  "fails_flush key now_ms envelopes ks so \<longleftrightarrow>
     so_state so = ks\<lparr>ks_batch := [], ks_flush := None\<rparr> \<and>
     (\<exists>reason detail tr x. reason \<in> {REASON_TIMEOUT, REASON_ERROR} \<and>
        so_emits so = map (\<lambda>_. dead_letter key reason detail now_ms) envelopes @ [TraceOut tr] \<and>
        so_metrics so = Observe ActivationMsD x # map (\<lambda>_. dead_letter_metric reason) envelopes)"

lemma base_input_fields [simp]:
  "ai_key (base_input d key seq now m c) = key"
  "ai_seq (base_input d key seq now m c) = seq"
  "ai_now (base_input d key seq now m c) = now"
  "ai_memory (base_input d key seq now m c) = m"
  "ai_cache (base_input d key seq now m c) = c"
  "ai_step (base_input d key seq now m c) = 0"
  by (simp_all add: base_input_def)

lemma commitsI:
  assumes "activate d si inp w = (Activated ar ams, obs, w1)"
    and "ai_key inp = key" "ai_seq inp = seq" "ai_step inp = step" "ai_now inp = now_ms"
    and "ai_memory inp = ks_memory ks" "ai_cache inp = ks_cache ks"
    and "so = (commit d si ar now_ms ams handles flushed ks)
               \<lparr>so_emits := so_emits (commit d si ar now_ms ams handles flushed ks),
                so_metrics := obs @ so_metrics (commit d si ar now_ms ams handles flushed ks)\<rparr>"
  shows "commits d si key seq step now_ms handles flushed ks ar so"
proof -
  obtain w0 w0' where "run_activation (df_ext d) (df_summarizer d) (df_agent d) inp w0 = (RunOk ar, w0')"
    using activate_Activated[OF assms(1)] by blast
  moreover obtain x where "obs = [Observe ActivationMsD x]" using activate_observes[OF assms(1)] by blast
  ultimately show ?thesis using assms(2-) unfolding commits_def
    by (intro exI[of _ inp] exI[of _ w0] exI[of _ w0'] exI[of _ ams] exI[of _ x]) (simp add: commit_def)
qed

lemma failed_reason_cases: "failed_reason e \<in> {REASON_ERROR, REASON_BUDGET_EXCEEDED}"
  by (simp add: failed_reason_def)

lemma start_cases:
  assumes "start_activation d si key now_ms event ks w = (Ok so, w')"
  shows "(\<exists>ar. commits d si key (ks_seq ks) 0 now_ms False None ks ar so) \<or> fails key now_ms ks so"
proof -
  obtain m where m: "migrate_memory (ks_memory ks) = Ok m" using assms
    by (cases "migrate_memory (ks_memory ks)") (auto simp: start_activation_def)
  obtain c where c: "migrate_cache (ks_cache ks) = Ok c" using assms m
    by (cases "migrate_cache (ks_cache ks)") (auto simp: start_activation_def)
  have eq: "m = ks_memory ks" "c = ks_cache ks" using m c migrate_same by blast+
  let ?inp = "(base_input d key (ks_seq ks) now_ms m c)\<lparr>ai_event := event\<rparr>"
  obtain r obs w1 where a: "activate d si ?inp w = (r, obs, w1)" by (metis prod_cases3)
  obtain x where x: "obs = [Observe ActivationMsD x]" using activate_observes[OF a] by blast
  show ?thesis
  proof (cases r)
    case (Activated ar ams)
    have "commits d si key (ks_seq ks) 0 now_ms False None ks ar so"
      by (rule commitsI[OF a[unfolded Activated]])
        (use assms m c a Activated in \<open>simp_all add: eq start_activation_def after_def emit_only_def\<close>)
    then show ?thesis by blast
  qed (use assms m c a x failed_reason_cases in
      \<open>auto simp: start_activation_def after_def emit_only_def fails_def timeout_emits_def crashed_emits_def
        failed_activation_def error_trace_def Let_def\<close>, (blast+)?)
qed

lemma flush_cases:
  assumes "flush d si key envelopes trigger ks w = (Ok so, w')"
  shows "(\<exists>ar. commits d si key (ks_seq ks) 0 (Max (set (map env_time envelopes))) True
             (Some (int (length envelopes), trigger)) ks ar so)
    \<or> fails_flush key (Max (set (map env_time envelopes))) envelopes ks so"
proof -
  obtain m where m: "migrate_memory (ks_memory ks) = Ok m" using assms
    by (cases "migrate_memory (ks_memory ks)") (auto simp: flush_def)
  obtain c where c: "migrate_cache (ks_cache ks) = Ok c" using assms m
    by (cases "migrate_cache (ks_cache ks)") (auto simp: flush_def)
  have eq: "m = ks_memory ks" "c = ks_cache ks" using m c migrate_same by blast+
  let ?now = "Max (set (map env_time envelopes))"
  let ?inp = "(base_input d key (ks_seq ks) ?now m c)
    \<lparr>ai_events := Some (map payload_event envelopes), ai_trigger := trigger\<rparr>"
  obtain r obs w1 where a: "activate d si ?inp w = (r, obs, w1)" by (metis prod_cases3)
  obtain x where x: "obs = [Observe ActivationMsD x]" using activate_observes[OF a] by blast
  show ?thesis
  proof (cases r)
    case (Activated ar ams)
    have "commits d si key (ks_seq ks) 0 ?now True (Some (int (length envelopes), trigger)) ks ar so"
      by (rule commitsI[OF a[unfolded Activated]])
        (use assms m c a Activated in \<open>simp_all add: eq flush_def after_def emit_only_def Let_def\<close>)
    then show ?thesis by blast
  qed (use assms m c a x in
      \<open>auto simp: flush_def after_def failed_flush_def emit_only_def fails_flush_def error_trace_def Let_def\<close>, (blast+)?)
qed


definition orphans :: "'w dofn \<Rightarrow> bytes \<Rightarrow> msec \<Rightarrow> string \<Rightarrow> kstate \<Rightarrow> step_out \<Rightarrow> bool" where
  "orphans d key now_ms intent_id ks so \<longleftrightarrow>
     so_state so = ks \<and>
     (\<exists>reason tr. admission_failure (ks_continuation ks)
          (if ks_continuation ks = None then [] else ks_pending ks) intent_id now_ms = Some reason \<and>
        so_emits so = [dead_letter key REASON_ORPHANED (reason @ '':'' @ intent_id) now_ms, TraceOut tr]) \<and>
     so_metrics so = [dead_letter_metric REASON_ORPHANED]"

lemma admission_needs_continuation: "admission_failure None ps i now = Some DETAIL_NO_CONTINUATION"
  by (simp add: admission_failure_def)

lemma resume_cases:
  assumes "resume d si key now_ms intent_id res appr ks w = (Ok so, w')"
  shows "orphans d key now_ms intent_id ks so \<or>
    (\<exists>c. ks_continuation ks = Some c \<and> admission_failure (Some c) (ks_pending ks) intent_id now_ms = None \<and>
       ((\<exists>ar. commits d si key (co_seq c) (co_step c) now_ms True None ks ar so) \<or> fails key now_ms ks so))"
proof -
  obtain cont where mc: "migrate_continuation (ks_continuation ks) = Ok cont" using assms
    by (cases "migrate_continuation (ks_continuation ks)") (auto simp: resume_def)
  have cont: "cont = ks_continuation ks" using mc migrate_same by blast
  let ?adm = "admission_failure cont (if cont = None then [] else ks_pending ks) intent_id now_ms"
  show ?thesis
  proof (cases ?adm)
    case (Some reason)
    have "orphans d key now_ms intent_id ks so"
      using assms mc Some
      by (auto simp: resume_def orphans_def emit_only_def error_trace_def Let_def simp flip: cont split: option.splits)
    then show ?thesis by blast
  next
    case None
    then obtain c where c: "cont = Some c" by (cases cont) (auto simp: admission_needs_continuation)
    obtain m where m: "migrate_memory (ks_memory ks) = Ok m" using assms mc None c
      by (cases "migrate_memory (ks_memory ks)") (auto simp: resume_def)
    obtain cb where cb: "migrate_cache (ks_cache ks) = Ok cb" using assms mc None c m
      by (cases "migrate_cache (ks_cache ks)") (auto simp: resume_def)
    have eq: "m = ks_memory ks" "cb = ks_cache ks" using m cb migrate_same by blast+
    let ?inp = "(base_input d key (co_seq c) now_ms m cb)
       \<lparr>ai_resume_result := res, ai_resume_approval := appr, ai_snapshot := co_snapshot c, ai_step := co_step c\<rparr>"
    obtain r obs w1 where a: "activate d si ?inp w = (r, obs, w1)" by (metis prod_cases3)
    obtain x where x: "obs = [Observe ActivationMsD x]" using activate_observes[OF a] by blast
    have "(\<exists>ar. commits d si key (co_seq c) (co_step c) now_ms True None ks ar so) \<or> fails key now_ms ks so"
    proof (cases r)
      case (Activated ar ams)
      have "commits d si key (co_seq c) (co_step c) now_ms True None ks ar so"
        by (rule commitsI[OF a[unfolded Activated]])
          (use assms mc None c m cb a Activated in \<open>simp_all add: eq resume_def after_def emit_only_def Let_def\<close>)
      then show ?thesis by blast
    qed (use assms mc None c m cb a x failed_reason_cases in
        \<open>auto simp: resume_def after_def emit_only_def fails_def timeout_emits_def crashed_emits_def
          failed_activation_def error_trace_def Let_def\<close>, (blast+)?)
    then show ?thesis using None c cont by (metis option.distinct(1))
  qed
qed

text \<open>An element under \<open>ADAPTIVE\<close>: shed, buffered, or buffered and flushed in one go.\<close>

definition buffered_state :: "'w dofn \<Rightarrow> 'w step_input \<Rightarrow> batch_settings \<Rightarrow> envelope \<Rightarrow> kstate \<Rightarrow> kstate" where
  "buffered_state d si settings envelope ks =
     ks\<lparr>ks_batch := ks_batch ks @ [envelope], ks_ttl := Some (env_time envelope + df_ttl_ms d),
        ks_flush := (if ks_batch ks = [] then Some (si_wall si + bs_max_wait_ms settings) else ks_flush ks)\<rparr>"

definition prepend_metrics :: "metric list \<Rightarrow> step_out \<Rightarrow> step_out" where
  "prepend_metrics ms so = so\<lparr>so_metrics := ms @ so_metrics so\<rparr>"

lemma after_Nil: "after [] ms (r, w) = (map_sum id (prepend_metrics ms) r, w)"
  by (cases r) (simp_all add: after_def prepend_metrics_def)

lemma buffer_cases:
  assumes "buffer_event d si settings key envelope ks w = (Ok so, w')"
  shows "so = emit_only ks
          [dead_letter key REASON_BATCH_OVERFLOW
             (''buffered='' @ dec (int (length (ks_batch ks))) @ '',cap='' @ dec (bs_max_buffered settings)) (env_time envelope)]
          [dead_letter_metric REASON_BATCH_OVERFLOW] \<and> int (length (ks_batch ks)) \<ge> bs_max_buffered settings
    \<or> int (length (ks_batch ks)) < bs_max_buffered settings \<and>
      (so = emit_only (buffered_state d si settings envelope ks) [] [Incr EventsBufferedC 1] \<and>
         \<not> should_flush_on_size (int (length (ks_batch ks)) + 1) (bs_max_batch_size settings) (ks_continuation ks \<noteq> None)
       \<or> ks_continuation ks = None \<and> int (length (ks_batch ks)) + 1 \<ge> bs_max_batch_size settings \<and>
         (\<exists>so1. so = prepend_metrics [Incr EventsBufferedC 1] so1 \<and>
            flush d si key (ks_batch ks @ [envelope]) TRIGGER_SIZE (buffered_state d si settings envelope ks) w = (Ok so1, w')))"
proof (cases "buffer_is_full (int (length (ks_batch ks))) (bs_max_buffered settings)")
  case True
  then show ?thesis using assms by (simp add: buffer_event_def Let_def buffer_is_full_def)
next
  case False
  then have lt: "int (length (ks_batch ks)) < bs_max_buffered settings" by (simp add: buffer_is_full_def)
  obtain cont where mc: "migrate_continuation (ks_continuation ks) = Ok cont" using assms False
    by (cases "migrate_continuation (ks_continuation ks)") (auto simp: buffer_event_def Let_def)
  have cont: "cont = ks_continuation ks" using mc migrate_same by blast
  let ?ks2 = "buffered_state d si settings envelope ks"
  have st: "(let ks1 = ks\<lparr>ks_batch := ks_batch ks @ [envelope], ks_ttl := Some (env_time envelope + df_ttl_ms d)\<rparr> in
      if length (ks_batch ks @ [envelope]) = 1 then ks1\<lparr>ks_flush := Some (si_wall si + bs_max_wait_ms settings)\<rparr> else ks1) = ?ks2"
    by (cases "ks_batch ks") (simp_all add: buffered_state_def)
  show ?thesis
  proof (cases "should_flush_on_size (int (length (ks_batch ks)) + 1) (bs_max_batch_size settings) (cont \<noteq> None)")
    case True
    then have "after [] [Incr EventsBufferedC 1] (flush d si key (ks_batch ks @ [envelope]) TRIGGER_SIZE ?ks2 w) = (Ok so, w')"
      using assms False mc st by (simp add: buffer_event_def Let_def add.commute)
    then obtain so1 where "so = prepend_metrics [Incr EventsBufferedC 1] so1"
      "flush d si key (ks_batch ks @ [envelope]) TRIGGER_SIZE ?ks2 w = (Ok so1, w')"
      by (cases "fst (flush d si key (ks_batch ks @ [envelope]) TRIGGER_SIZE ?ks2 w)";
          cases "flush d si key (ks_batch ks @ [envelope]) TRIGGER_SIZE ?ks2 w") (auto simp: after_Nil)
    then show ?thesis using True lt cont by (auto simp: should_flush_on_size_def)
  next
    case no: False
    then have "so = emit_only ?ks2 [] [Incr EventsBufferedC 1]"
      using assms False mc st by (simp add: buffer_event_def Let_def add.commute)
    then show ?thesis using lt no cont by simp
  qed
qed

section \<open>Stimuli\<close>

datatype stimulus = Element envelope | TtlFires msec | HitlFires msec | FlushFires

definition handle ::
  "'w dofn \<Rightarrow> 'w step_input \<Rightarrow> bytes \<Rightarrow> stimulus \<Rightarrow> kstate \<Rightarrow> 'w \<Rightarrow> step_out res \<times> 'w" where
  "handle d si key st ks w =
     (case st of
        Element envelope \<Rightarrow> process d si key envelope ks w
      | TtlFires t \<Rightarrow> on_ttl d key t ks w
      | HitlFires t \<Rightarrow> (on_hitl d si key t ks, w)
      | FlushFires \<Rightarrow> on_flush d si key ks w)"

lemma on_flush_cases:
  assumes "on_flush d si key ks w = (Ok so, w')"
  shows "so = emit_only ks [] [] \<and> (df_batch d = None \<or> ks_batch ks = [] \<or> ks_continuation ks \<noteq> None)
    \<or> df_batch d \<noteq> None \<and> ks_batch ks \<noteq> [] \<and> ks_continuation ks = None \<and>
      flush d si key (ks_batch ks) TRIGGER_TIMER ks w = (Ok so, w')"
proof (cases "df_batch d")
  case None
  then show ?thesis using assms by (simp add: on_flush_def)
next
  case (Some b)
  obtain cont where mc: "migrate_continuation (ks_continuation ks) = Ok cont" using assms Some
    by (cases "migrate_continuation (ks_continuation ks)") (auto simp: on_flush_def)
  then show ?thesis using assms Some migrate_same(2)[OF mc]
    by (auto simp: on_flush_def should_flush_on_timer_def split: if_splits)
qed

lemma on_ttl_Ok:
  assumes "on_ttl d key t ks w = (Ok so, w')"
  shows "so = emit_only (wipe d ks)
     (wiped_suspension d key t (ks_continuation ks) @
      wiped_batch key t (if df_batch d = None then [] else ks_batch ks))
     ((if ks_continuation ks = None then [] else [dead_letter_metric REASON_TTL_WIPED_SUSPENSION])
      @ map (\<lambda>_. dead_letter_metric REASON_TTL_WIPED_BATCH) (if df_batch d = None then [] else ks_batch ks))
   \<and> flush_expiring d key ks t w = (Ok (), w')"
proof -
  obtain cont where mc: "migrate_continuation (ks_continuation ks) = Ok cont" using assms
    by (cases "migrate_continuation (ks_continuation ks)") (auto simp: on_ttl_def)
  then show ?thesis using assms migrate_same(2)[OF mc]
    by (auto simp: on_ttl_def Let_def split: prod.splits sum.splits)
qed

text \<open>The HITL timer: no suspension to end, an escalation, or the end of the wait.\<close>

definition wait_ended :: "'w dofn \<Rightarrow> 'w step_input \<Rightarrow> kstate \<Rightarrow> kstate" where
  "wait_ended d si ks = rearm_flush d si (ks\<lparr>ks_continuation := None, ks_pending := [], ks_hitl := None\<rparr>)"

lemma on_hitl_cases:
  assumes "on_hitl d si key t ks = Ok so"
  shows "so = emit_only ks [] [] \<and> (\<forall>c. ks_continuation ks = Some c \<longrightarrow> t < co_deadline c)
    \<or> (\<exists>c. ks_continuation ks = Some c \<and> co_deadline c \<le> t \<and>
         ((\<exists>tool args ms. so = escalate d key c t tool args ms ks \<and>
             hp_on_timeout (df_policy d) \<lparr>fc_key = key, fc_seq = co_seq c, fc_snapshot = co_snapshot c,
               fc_kind = ''timer'', fc_deadline = co_deadline c, fc_fired = t, fc_pending = co_pending c\<rparr>
               = Ok (Escalate tool args ms) \<and>
             co_escalations c < hp_max_escalations (df_policy d))
        \<or> (\<exists>b. so = emit_only (wait_ended d si ks)
               [MainOut b, error_trace d key (co_seq c) t REASON_HITL_TIMEOUT [] (Some ROLE_TIMER) None] [])
        \<or> (\<exists>reason detail. so = emit_only (wait_ended d si ks)
               [dead_letter key reason detail t,
                error_trace d key (co_seq c) t REASON_HITL_TIMEOUT [] (Some ROLE_TIMER) None]
               [dead_letter_metric reason])))"
proof -
  obtain cont where mc: "migrate_continuation (ks_continuation ks) = Ok cont" using assms
    by (cases "migrate_continuation (ks_continuation ks)") (auto simp: on_hitl_def)
  have cont: "cont = ks_continuation ks" using mc migrate_same by blast
  show ?thesis
  proof (cases "\<exists>c. cont = Some c \<and> co_deadline c \<le> t")
    case False
    then show ?thesis using assms mc cont by (auto simp: on_hitl_def split: option.splits if_splits)
  next
    case True
    then obtain c where c: "cont = Some c" "co_deadline c \<le> t" by blast
    obtain rt detail where r: "route_timeout d key c t = (rt, detail)" by (metis prod.exhaust)
    have so: "so = (case rt of
           Escalate tool args ms \<Rightarrow> escalate d key c t tool args ms ks
         | Deny b \<Rightarrow> emit_only (wait_ended d si ks)
             [MainOut b, error_trace d key (co_seq c) t REASON_HITL_TIMEOUT [] (Some ROLE_TIMER) None] []
         | Drop reason \<Rightarrow> emit_only (wait_ended d si ks)
             [dead_letter key reason detail t, error_trace d key (co_seq c) t REASON_HITL_TIMEOUT [] (Some ROLE_TIMER) None]
             [dead_letter_metric reason])"
      using assms mc c r by (cases rt) (auto simp: on_hitl_def wait_ended_def Let_def)
    show ?thesis
    proof (cases rt)
      case (Escalate tool args ms)
      then have "hp_on_timeout (df_policy d) \<lparr>fc_key = key, fc_seq = co_seq c, fc_snapshot = co_snapshot c,
               fc_kind = ''timer'', fc_deadline = co_deadline c, fc_fired = t, fc_pending = co_pending c\<rparr>
               = Ok (Escalate tool args ms) \<and> co_escalations c < hp_max_escalations (df_policy d)"
        using r by (auto simp: route_timeout_def Let_def split: sum.splits route.splits if_splits)
      then show ?thesis using so Escalate c cont by auto
    qed (use so c cont in auto)
  qed
qed

text \<open>An element: exported, resumed, buffered, or started.\<close>

lemma process_split:
  "process d si key envelope ks w =
     (case env_payload envelope of
        Some (ExportRequest request_id) \<Rightarrow>
          (Ok (emit_only ks
             [SnapshotOut (build_snapshot key (ks_seq ks) (env_time envelope) request_id (ks_memory ks)
                (ks_cache ks) (ks_continuation ks) (ks_pending ks))] []), w)
      | Some (ResultPayload r) \<Rightarrow> resume d si key (env_time envelope) (tr_id r) (Some r) None ks w
      | Some (ApprovalPayload a) \<Rightarrow> resume d si key (env_time envelope) (ap_id a) None (Some a) ks w
      | _ \<Rightarrow> (case df_batch d of
                Some settings \<Rightarrow> buffer_event d si settings key envelope ks w
              | None \<Rightarrow> start_activation d si key (env_time envelope) (payload_event envelope) ks w))"
  by (simp add: process_def Let_def)

section \<open>The step relation of a key\<close>

text \<open>Emissions that carry no effect of an activation: no output and no intent.\<close>

definition effect_free :: "emission list \<Rightarrow> bool" where
  "effect_free es \<longleftrightarrow> list_all (\<lambda>e. case e of MainOut _ \<Rightarrow> False | IntentOut _ \<Rightarrow> False | _ \<Rightarrow> True) es"

lemma effect_free_simps [simp]:
  "effect_free []"
  "effect_free (es @ es') \<longleftrightarrow> effect_free es \<and> effect_free es'"
  "effect_free (dead_letter key r x t # es) = effect_free es"
  "effect_free (TraceOut tr # es) = effect_free es"
  "effect_free (SnapshotOut s # es) = effect_free es"
  "effect_free (map (\<lambda>v. dead_letter key r (f v) t) vs)"
  by (induction vs; simp add: effect_free_def dead_letter_def)+

text \<open>
  One delivery other than the end of working memory takes a key from a state to a state with
  emissions. \<open>enqueue\<close> is the buffering that may precede a flush in the same call.
\<close>

inductive enqueue :: "'w dofn \<Rightarrow> kstate \<Rightarrow> kstate \<Rightarrow> bool" for d :: "'w dofn" where
  nothing: "enqueue d ks ks"
| append: "\<lbrakk>df_batch d = Some settings; int (length (ks_batch ks)) < bs_max_buffered settings\<rbrakk>
    \<Longrightarrow> enqueue d ks (buffered_state d si settings env ks)"

inductive delivers :: "'w dofn \<Rightarrow> bytes \<Rightarrow> kstate \<Rightarrow> emission list \<Rightarrow> kstate \<Rightarrow> bool"
  for d :: "'w dofn" and key :: bytes where
  start: "\<lbrakk>df_batch d = None; commits d si key (ks_seq ks) 0 now False None ks ar so\<rbrakk>
    \<Longrightarrow> delivers d key ks (so_emits so) (so_state so)"
| flushed: "\<lbrakk>df_batch d \<noteq> None; enqueue d ks ks1; ks_continuation ks = None; ks_batch ks1 \<noteq> [];
      commits d si key (ks_seq ks) 0 (Max (set (map env_time (ks_batch ks1)))) True
        (Some (int (length (ks_batch ks1)), trigger)) ks1 ar so\<rbrakk>
    \<Longrightarrow> delivers d key ks (so_emits so) (so_state so)"
| resumed: "\<lbrakk>ks_continuation ks = Some c; admission_failure (Some c) (ks_pending ks) i now = None;
      commits d si key (co_seq c) (co_step c) now True None ks ar so\<rbrakk>
    \<Longrightarrow> delivers d key ks (so_emits so) (so_state so)"
| failed: "fails key now ks so \<Longrightarrow> delivers d key ks (so_emits so) ks"
| failed_flush: "\<lbrakk>df_batch d \<noteq> None; enqueue d ks ks1; ks_continuation ks = None; ks_batch ks1 \<noteq> [];
      fails_flush key now (ks_batch ks1) ks1 so\<rbrakk>
    \<Longrightarrow> delivers d key ks (so_emits so) (so_state so)"
| buffered: "\<lbrakk>df_batch d = Some settings; int (length (ks_batch ks)) < bs_max_buffered settings;
      \<not> should_flush_on_size (int (length (ks_batch ks)) + 1) (bs_max_batch_size settings) (ks_continuation ks \<noteq> None)\<rbrakk>
    \<Longrightarrow> delivers d key ks [] (buffered_state d si settings env ks)"
| refused: "effect_free es \<Longrightarrow> delivers d key ks es ks"
| escalated: "\<lbrakk>ks_continuation ks = Some c; co_deadline c \<le> t; co_escalations c < hp_max_escalations (df_policy d)\<rbrakk>
    \<Longrightarrow> delivers d key ks (so_emits (escalate d key c t tool args ms ks)) (so_state (escalate d key c t tool args ms ks))"
| wait_over: "\<lbrakk>ks_continuation ks = Some c; co_deadline c \<le> t;
      list_all (\<lambda>e. case e of IntentOut _ \<Rightarrow> False | _ \<Rightarrow> True) es\<rbrakk>
    \<Longrightarrow> delivers d key ks es (wait_ended d si ks)"

lemma resume_delivers:
  assumes "resume d si key now i res appr ks w = (Ok so, w')"
  shows "delivers d key ks (so_emits so) (so_state so)"
  using resume_cases[OF assms]
proof (elim disjE exE conjE)
  assume o: "orphans d key now i ks so"
  then have "delivers d key ks (so_emits so) ks"
    by (intro delivers.refused) (auto simp: orphans_def)
  then show ?thesis using o by (simp add: orphans_def)
next
  fix c assume f: "fails key now ks so"
  then show ?thesis using delivers.failed[OF f] by (simp add: fails_def)
qed (rule delivers.resumed)

lemma start_delivers:
  assumes "start_activation d si key now ev ks w = (Ok so, w')" and "df_batch d = None"
  shows "delivers d key ks (so_emits so) (so_state so)"
  using start_cases[OF assms(1)]
proof (elim disjE exE)
  assume f: "fails key now ks so"
  then show ?thesis using delivers.failed[OF f] by (simp add: fails_def)
qed (rule delivers.start[OF assms(2)])

lemma flush_delivers:
  assumes "flush d si key (ks_batch ks1) trigger ks1 w = (Ok so, w')"
    and "df_batch d \<noteq> None" and "enqueue d ks ks1" and "ks_continuation ks = None" and "ks_batch ks1 \<noteq> []"
  shows "delivers d key ks (so_emits so) (so_state so)"
proof -
  have "ks_seq ks1 = ks_seq ks" using assms(3) by (cases rule: enqueue.cases) (auto simp: buffered_state_def)
  then show ?thesis using flush_cases[OF assms(1)] delivers.flushed delivers.failed_flush assms(2-) by metis
qed

lemma buffer_delivers:
  assumes "buffer_event d si settings key env ks w = (Ok so, w')" and b: "df_batch d = Some settings"
  shows "delivers d key ks (so_emits so) (so_state so)"
  using buffer_cases[OF assms(1)]
proof (elim disjE exE conjE)
  assume "so = emit_only ks
          [dead_letter key REASON_BATCH_OVERFLOW
             (''buffered='' @ dec (int (length (ks_batch ks))) @ '',cap='' @ dec (bs_max_buffered settings)) (env_time env)]
          [dead_letter_metric REASON_BATCH_OVERFLOW]"
  then show ?thesis using delivers.refused[of "so_emits so"] by (simp add: emit_only_def)
next
  assume "so = emit_only (buffered_state d si settings env ks) [] [Incr EventsBufferedC 1]"
    and "int (length (ks_batch ks)) < bs_max_buffered settings"
    and "\<not> should_flush_on_size (int (length (ks_batch ks)) + 1) (bs_max_batch_size settings) (ks_continuation ks \<noteq> None)"
  then show ?thesis using delivers.buffered[OF b] by (simp add: emit_only_def)
next
  fix so1
  let ?ks1 = "buffered_state d si settings env ks"
  assume lt: "int (length (ks_batch ks)) < bs_max_buffered settings" and live: "ks_continuation ks = None"
    and so: "so = prepend_metrics [Incr EventsBufferedC 1] so1"
    and fl: "flush d si key (ks_batch ks @ [env]) TRIGGER_SIZE ?ks1 w = (Ok so1, w')"
  have "delivers d key ks (so_emits so1) (so_state so1)"
  proof (rule flush_delivers)
    show "flush d si key (ks_batch ?ks1) TRIGGER_SIZE ?ks1 w = (Ok so1, w')"
      using fl by (simp add: buffered_state_def)
    show "enqueue d ks ?ks1" using b lt by (rule enqueue.append)
    show "ks_batch ?ks1 \<noteq> []" by (simp add: buffered_state_def)
  qed (use b live in simp_all)
  then show ?thesis using so by (simp add: prepend_metrics_def)
qed

text \<open>The end of working memory: every cell is cleared and no effect leaves.\<close>

lemma ttl_wipes:
  assumes "handle d si key (TtlFires t) ks w = (Ok so, w')"
  shows "so_state so = wipe d ks \<and>
    effect_free (so_emits so)"
proof -
  have "on_ttl d key t ks w = (Ok so, w')" using assms by (simp add: handle_def)
  note so = on_ttl_Ok[OF this, THEN conjunct1]
  have "effect_free (so_emits so)"
    by (auto simp: so emit_only_def wiped_suspension_def wiped_batch_def error_trace_def Let_def split: option.splits)
  then show ?thesis by (simp add: so emit_only_def)
qed

theorem handle_delivers:
  assumes "handle d si key st ks w = (Ok so, w')" and "\<forall>t. st \<noteq> TtlFires t"
  shows "delivers d key ks (so_emits so) (so_state so)"
proof (cases st)
  case (Element env)
  then have p: "process d si key env ks w = (Ok so, w')" using assms by (simp add: handle_def)
  have ev: "delivers d key ks (so_emits so) (so_state so)"
    if "(case df_batch d of
          Some settings \<Rightarrow> buffer_event d si settings key env ks w
        | None \<Rightarrow> start_activation d si key (env_time env) (payload_event env) ks w) = (Ok so, w')"
    using that buffer_delivers start_delivers by (auto split: option.splits)
  show ?thesis
  proof (cases "env_payload env")
    case None
    then show ?thesis using p ev by (simp add: process_split)
  next
    case (Some pl)
    show ?thesis
    proof (cases pl)
      case (ExportRequest r)
      then show ?thesis using p Some delivers.refused[of "so_emits so"]
        by (auto simp: process_split emit_only_def)
    qed (use p Some ev resume_delivers in \<open>auto simp: process_split\<close>)
  qed
next
  case (TtlFires t)
  then show ?thesis using assms(2) by simp
next
  case (HitlFires t)
  then have "on_hitl d si key t ks = Ok so" using assms by (simp add: handle_def)
  from on_hitl_cases[OF this] show ?thesis
  proof (elim disjE exE conjE)
    assume "so = emit_only ks [] []"
    then show ?thesis using delivers.refused[of "[]"] by (simp add: emit_only_def)
  next
    fix c tool args ms
    assume "so = escalate d key c t tool args ms ks" "ks_continuation ks = Some c" "co_deadline c \<le> t"
      "co_escalations c < hp_max_escalations (df_policy d)"
    then show ?thesis using delivers.escalated by blast
  qed (auto simp: emit_only_def dead_letter_def error_trace_def Let_def intro!: delivers.wait_over)
next
  case FlushFires
  then have "on_flush d si key ks w = (Ok so, w')" using assms by (simp add: handle_def)
  from on_flush_cases[OF this]
  have "so = emit_only ks [] [] \<or> df_batch d \<noteq> None \<and> ks_batch ks \<noteq> [] \<and> ks_continuation ks = None \<and>
      flush d si key (ks_batch ks) TRIGGER_TIMER ks w = (Ok so, w')" by blast
  then show ?thesis
  proof (elim disjE conjE)
    assume "so = emit_only ks [] []"
    then show ?thesis using delivers.refused[of "[]"] by (simp add: emit_only_def)
  qed (rule flush_delivers[OF _ _ enqueue.nothing])
qed

end
