(* ===== verification/Dofn_Effects.thy ===== *)
theory Dofn_Effects
  imports Dofn_Steps
begin

text \<open>
  Effects leave an element or a flush only together with the commit that increments the key's
  sequence number; everything else such a delivery does is buffering or a report.
\<close>

definition same_cells :: "kstate \<Rightarrow> kstate \<Rightarrow> bool" where
  "same_cells ks ks' \<longleftrightarrow>
     ks_memory ks' = ks_memory ks \<and> ks_continuation ks' = ks_continuation ks \<and> ks_cache ks' = ks_cache ks \<and>
     ks_pending ks' = ks_pending ks \<and> ks_seq ks' = ks_seq ks \<and> ks_hitl ks' = ks_hitl ks"

definition atomic_step :: "'w dofn \<Rightarrow> kstate \<Rightarrow> step_out \<Rightarrow> bool" where
  "atomic_step d ks so \<longleftrightarrow>
     ks_seq (so_state so) = ks_seq ks + 1 \<or>
     same_cells ks (so_state so) \<and> effect_free (so_emits so) \<and> (df_batch d = None \<longrightarrow> so_state so = ks)"

lemma atomic_same: "\<lbrakk>so_state so = ks; effect_free (so_emits so)\<rbrakk> \<Longrightarrow> atomic_step d ks so"
  by (simp add: atomic_step_def same_cells_def)

lemma commit_state_seq: "ks_seq (commit_state d si ar now h f ks) = ks_seq ks + 1"
  by (simp add: commit_state_def Let_def rearm_flush_def)

lemma atomic_commits: "\<lbrakk>commits d si key q step now h f ks1 ar so; ks_seq ks1 = ks_seq ks\<rbrakk> \<Longrightarrow> atomic_step d ks so"
  by (auto simp: commits_def atomic_step_def commit_state_seq)

lemma atomic_fails: "fails key now ks so \<Longrightarrow> atomic_step d ks so"
  by (rule atomic_same) (auto simp: fails_def)

lemma atomic_fails_flush:
  "\<lbrakk>fails_flush key now es ks1 so; same_cells ks ks1; df_batch d \<noteq> None\<rbrakk> \<Longrightarrow> atomic_step d ks so"
  by (auto simp: fails_flush_def atomic_step_def same_cells_def)

lemma atomic_flush:
  "\<lbrakk>flush d si key es trigger ks1 w = (Ok so, w'); same_cells ks ks1; df_batch d \<noteq> None\<rbrakk> \<Longrightarrow> atomic_step d ks so"
  by (drule flush_cases) (auto intro: atomic_commits atomic_fails_flush simp: same_cells_def)

lemma atomic_resume: "resume d si key now i r a ks w = (Ok so, w') \<Longrightarrow> atomic_step d ks so"
  by (drule resume_cases) (auto dest: atomic_commits atomic_fails simp: orphans_def intro: atomic_same)

lemma atomic_start: "start_activation d si key now ev ks w = (Ok so, w') \<Longrightarrow> atomic_step d ks so"
  by (drule start_cases) (auto dest: atomic_commits atomic_fails)

lemma atomic_buffer:
  assumes "buffer_event d si b key env ks w = (Ok so, w')" and "df_batch d = Some b"
  shows "atomic_step d ks so"
  using buffer_cases[OF assms(1)]
proof (elim disjE exE conjE)
  assume "so = emit_only (buffered_state d si b env ks) [] [Incr EventsBufferedC 1]"
  then show ?thesis using assms(2) by (simp add: atomic_step_def same_cells_def emit_only_def buffered_state_def)
next
  fix so1
  assume so: "so = prepend_metrics [Incr EventsBufferedC 1] so1"
    and f: "flush d si key (ks_batch ks @ [env]) TRIGGER_SIZE (buffered_state d si b env ks) w = (Ok so1, w')"
  have "atomic_step d ks so1"
    by (rule atomic_flush[OF f]) (simp_all add: same_cells_def buffered_state_def assms(2))
  then show ?thesis by (simp add: so atomic_step_def prepend_metrics_def)
qed (auto simp: emit_only_def intro: atomic_same)

lemma atomic_process:
  assumes "process d si key env ks w = (Ok so, w')"
  shows "atomic_step d ks so"
proof -
  have ev: "atomic_step d ks so"
    if "(case df_batch d of
          Some settings \<Rightarrow> buffer_event d si settings key env ks w
        | None \<Rightarrow> start_activation d si key (env_time env) (payload_event env) ks w) = (Ok so, w')"
    using that atomic_buffer atomic_start by (auto split: option.splits)
  have ex: "atomic_step d ks so" if "so = emit_only ks [SnapshotOut s] []" for s
    using that by (auto simp: emit_only_def intro: atomic_same)
  show ?thesis
  proof (cases "env_payload env")
    case None
    then show ?thesis using assms ev by (simp add: process_split)
  next
    case (Some pl)
    then show ?thesis
      by (cases pl) (use assms ev ex atomic_resume in \<open>auto simp: process_split\<close>)
  qed
qed

lemma atomic_on_flush: "on_flush d si key ks w = (Ok so, w') \<Longrightarrow> atomic_step d ks so"
  by (drule on_flush_cases) (auto intro: atomic_flush atomic_same simp: same_cells_def emit_only_def)

end
