(* ===== verification/Sharding.thy ===== *)
theory Sharding
  imports Wire
begin

text \<open>
  Hot-key sharding (\<open>keys.py\<close>): the physical key of an element, its inverse, and the per-element
  step of \<open>ShardKeys\<close> with the worker-local round-robin counter as explicit state. SHA-256 and
  the protobuf serialisation of an envelope are parameters.
\<close>

section \<open>Definitions\<close>

definition SHARD_DELIMITER :: "8 word" where
  "SHARD_DELIMITER = 35"

definition shard_suffix :: "int \<Rightarrow> bytes" where
  "shard_suffix index = SHARD_DELIMITER # utf8 (dec index)"

definition shard_index :: "(bytes \<Rightarrow> bytes) \<Rightarrow> int \<Rightarrow> bytes \<Rightarrow> int" where
  "shard_index sha256 n payload = from_be (take 8 (sha256 payload)) mod n"

definition shard_key :: "(bytes \<Rightarrow> bytes) \<Rightarrow> bytes \<Rightarrow> int \<Rightarrow> bytes \<Rightarrow> bytes res" where
  "shard_key sha256 key n payload =
     (if n < 1 then Err ValueError else Ok (key @ shard_suffix (shard_index sha256 n payload)))"

text \<open>\<open>bytes.rpartition\<close> on a one-byte separator: the split at its last occurrence.\<close>

fun rpartition :: "8 word \<Rightarrow> bytes \<Rightarrow> (bytes \<times> bytes) option" where
  "rpartition c [] = None"
| "rpartition c (x # xs) =
     (case rpartition c xs of
        Some (before, rest) \<Rightarrow> Some (x # before, rest)
      | None \<Rightarrow> (if x = c then Some ([], xs) else None))"

definition bytes_isdigit :: "bytes \<Rightarrow> bool" where
  "bytes_isdigit bs \<longleftrightarrow> bs \<noteq> [] \<and> list_all (\<lambda>b. 48 \<le> b \<and> b \<le> 57) bs"

definition unshard_key :: "bytes \<Rightarrow> bytes res" where
  "unshard_key key =
     (case rpartition SHARD_DELIMITER key of
        None \<Rightarrow> Err ValueError
      | Some (logical, digits) \<Rightarrow> (if bytes_isdigit digits then Ok logical else Err ValueError))"

definition hash_payload :: "(envelope \<Rightarrow> bytes) \<Rightarrow> envelope \<Rightarrow> bytes" where
  "hash_payload serialize envelope =
     (case env_payload envelope of
        Some (ExternalEvent payload) \<Rightarrow> payload
      | _ \<Rightarrow> serialize envelope)"

datatype assignment = HashAssignment | RoundRobin

definition parse_assignment :: "string \<Rightarrow> assignment res" where
  "parse_assignment a =
     (if a = ''hash'' then Ok HashAssignment
      else if a = ''round_robin'' then Ok RoundRobin
      else Err ValueError)"

definition shard_keys_init :: "int \<Rightarrow> string \<Rightarrow> (int \<times> assignment) res" where
  "shard_keys_init n a =
     (if n < 1 then Err ValueError else bindE (parse_assignment a) (\<lambda>m. Ok (n, m)))"

text \<open>One element; the counter is the worker's \<open>itertools.count()\<close>.\<close>

definition index_key ::
  "(bytes \<Rightarrow> bytes) \<Rightarrow> (envelope \<Rightarrow> bytes) \<Rightarrow> int \<Rightarrow> assignment \<Rightarrow> int \<Rightarrow> bytes \<Rightarrow> envelope
   \<Rightarrow> (bytes \<times> int) res" where
  "index_key sha256 serialize n mode counter key envelope =
     (case mode of
        HashAssignment \<Rightarrow>
          bindE (shard_key sha256 key n (hash_payload serialize envelope)) (\<lambda>p. Ok (p, counter))
      | RoundRobin \<Rightarrow> Ok (key @ shard_suffix (counter mod n), counter + 1))"

definition shard_element ::
  "(bytes \<Rightarrow> bytes) \<Rightarrow> (envelope \<Rightarrow> bytes) \<Rightarrow> int \<Rightarrow> assignment \<Rightarrow> int \<Rightarrow> bytes \<times> envelope
   \<Rightarrow> ((bytes \<times> envelope) \<times> int) res" where
  "shard_element sha256 serialize n mode counter element =
     bindE (index_key sha256 serialize n mode counter (fst element) (snd element))
       (\<lambda>(physical, counter'). Ok ((physical, (snd element)\<lparr>env_key := physical\<rparr>), counter'))"

fun shard_all ::
  "(bytes \<Rightarrow> bytes) \<Rightarrow> (envelope \<Rightarrow> bytes) \<Rightarrow> int \<Rightarrow> assignment \<Rightarrow> int \<Rightarrow> (bytes \<times> envelope) list
   \<Rightarrow> (bytes \<times> envelope) list res" where
  "shard_all sha256 serialize n mode counter [] = Ok []"
| "shard_all sha256 serialize n mode counter (e # es) =
     bindE (shard_element sha256 serialize n mode counter e) (\<lambda>(y, counter').
     bindE (shard_all sha256 serialize n mode counter' es) (\<lambda>ys. Ok (y # ys)))"

section \<open>Lemmas\<close>

lemma rpartition_last: "c \<notin> set ys \<Longrightarrow> rpartition c (xs @ c # ys) = Some (xs, ys)"
proof (induction xs)
  case Nil
  have "rpartition c ys = None" using Nil by (induction ys) auto
  then show ?case by simp
qed simp

lemma rpartition_Some: "rpartition c zs = Some (xs, ys) \<Longrightarrow> zs = xs @ c # ys \<and> c \<notin> set ys"
proof (induction zs arbitrary: xs)
  case (Cons z zs)
  have none: "rpartition c vs = None \<Longrightarrow> c \<notin> set vs" for vs
    by (induction vs) (auto split: option.splits if_splits)
  show ?case
    using Cons none by (auto split: option.splits if_splits)
qed simp

lemma digit_byte:
  assumes "is_digit ch"
  shows "(48 :: 8 word) \<le> of_char ch" "of_char ch \<le> (57 :: 8 word)" "of_char ch \<noteq> SHARD_DELIMITER"
proof -
  have eq: "(of_char ch :: 8 word) = word_of_nat (of_char ch)" by (metis of_nat_of_char)
  have "unat (of_char ch :: 8 word) = of_char ch" by (simp add: eq unat_of_nat)
  then show "(48 :: 8 word) \<le> of_char ch" "of_char ch \<le> (57 :: 8 word)" "of_char ch \<noteq> SHARD_DELIMITER"
    using assms by (auto simp: word_le_nat_alt is_digit_def SHARD_DELIMITER_def)
qed

lemma suffix_digits:
  assumes "0 \<le> i"
  shows "bytes_isdigit (utf8 (dec i))" and "SHARD_DELIMITER \<notin> set (utf8 (dec i))"
proof -
  have d: "\<And>c. c \<in> set (dec i) \<Longrightarrow> is_digit c"
    using assms dec_nat_digits by (auto simp: dec_def)
  show "bytes_isdigit (utf8 (dec i))"
    using d digit_byte(1,2) by (auto simp: bytes_isdigit_def utf8_def list_all_iff)
  show "SHARD_DELIMITER \<notin> set (utf8 (dec i))"
    using d digit_byte(3) by (force simp: utf8_def)
qed

lemma unshard_suffix: "0 \<le> i \<Longrightarrow> unshard_key (key @ shard_suffix i) = Ok key"
  by (simp add: unshard_key_def shard_suffix_def rpartition_last suffix_digits)

lemma unshard_Ok_shape:
  "unshard_key key = Ok logical \<Longrightarrow>
   \<exists>digits. key = logical @ SHARD_DELIMITER # digits \<and> bytes_isdigit digits"
  by (auto simp: unshard_key_def dest: rpartition_Some split: option.splits if_splits)

lemma shard_suffix_inject: "key @ shard_suffix i = key @ shard_suffix j \<longleftrightarrow> i = j"
  by (simp add: shard_suffix_def)

lemma shard_index_range: "1 \<le> n \<Longrightarrow> 0 \<le> shard_index sha256 n p \<and> shard_index sha256 n p < n"
  by (simp add: shard_index_def)

lemma shard_element_agrees:
  "shard_element sha256 ser n mode c e = Ok (y, c') \<Longrightarrow>
   fst y = env_key (snd y) \<and> env_payload (snd y) = env_payload (snd e) \<and> env_time (snd y) = env_time (snd e)"
  by (auto simp: shard_element_def split: prod.splits)

lemma round_robin_keys:
  "shard_all sha256 ser n RoundRobin c es = Ok ys \<Longrightarrow> length ys = length es \<and>
   (\<forall>i < length es. fst (ys ! i) = fst (es ! i) @ shard_suffix ((c + int i) mod n))"
proof (induction es arbitrary: c ys)
  case (Cons e es)
  obtain y ys' where y: "shard_element sha256 ser n RoundRobin c e = Ok (y, c + 1)"
    and ys: "shard_all sha256 ser n RoundRobin (c + 1) es = Ok ys'" "ys = y # ys'"
    using Cons.prems by (auto simp: shard_element_def index_key_def)
  have "fst y = fst e @ shard_suffix (c mod n)"
    using y by (auto simp: shard_element_def index_key_def)
  then show ?case
    using Cons.IH[OF ys(1)] ys(2) by (auto simp: nth_Cons' add.commute add.left_commute)
qed simp

section \<open>Properties\<close>

text \<open>
  Sharding is invertible: the physical key of a shard names the logical key again, whatever
  bytes the logical key holds, and the shard chosen is in range.
\<close>

theorem shard_key_round_trip:
  assumes "shard_key sha256 key n payload = Ok physical"
  shows "unshard_key physical = Ok key \<and> (\<exists>i. 0 \<le> i \<and> i < n \<and> physical = key @ shard_suffix i)"
proof -
  have n: "1 \<le> n" and p: "physical = key @ shard_suffix (shard_index sha256 n payload)"
    using assms by (auto simp: shard_key_def split: if_splits)
  show ?thesis using shard_index_range[OF n, of sha256 payload] p unshard_suffix by auto
qed

theorem shard_key_round_trip_witness:
  "\<exists>p. shard_key id [7] 4 [0, 0, 0, 0, 0, 0, 0, 9] = Ok p \<and> unshard_key p = Ok [7]"
  using shard_key_round_trip[of id "[7]" 4 "[0, 0, 0, 0, 0, 0, 0, 9]"] by (simp add: shard_key_def)

text \<open>
  Round-robin assignment spreads a worker's elements over the shards in turn and keeps each
  envelope's key in step with its physical key.
\<close>

theorem round_robin_turns:
  assumes "shard_all sha256 ser n RoundRobin c es = Ok ys" and "i < length es"
  shows "length ys = length es \<and> fst (ys ! i) = fst (es ! i) @ shard_suffix ((c + int i) mod n)"
  using round_robin_keys[OF assms(1)] assms(2) by simp

theorem round_robin_turns_witness:
  "\<exists>ys. shard_all id (\<lambda>_. []) 2 RoundRobin 0 (replicate 3 ([7], \<lparr>env_key = [7], env_time = 0, env_payload = None\<rparr>)) = Ok ys \<and>
     fst (ys ! 2) = [7] @ shard_suffix 0"
proof -
  obtain ys where ys: "shard_all id (\<lambda>_. []) 2 RoundRobin 0 (replicate 3 ([7], \<lparr>env_key = [7], env_time = 0, env_payload = None\<rparr>)) = Ok ys"
    by (simp add: numeral_3_eq_3 shard_element_def index_key_def)
  from round_robin_turns[OF ys, of 2] ys show ?thesis by simp
qed

end
