(* ===== verification/Dedup.thy ===== *)
theory Dedup
  imports Wire
begin

text \<open>
  The three-state claim protocol of the effector (\<open>effector/dedup.py\<close>): outcomes, the tag-framed
  record codec, the in-memory store and the Redis store. The locale \<open>dedup_store\<close> is the contract
  \<open>DedupStore\<close> documents, over the live record of an intent at a time. An operation reads its
  clock at \<open>now\<close> and again at \<open>later\<close>; the fresh token a claim draws is an argument. The protobuf
  codec of \<open>ToolResult\<close> and the Redis server are parameters.
\<close>

section \<open>Outcomes and the record codec\<close>

datatype claim_outcome = Claimed string | InFlight | Done "tool_result option"

record result_codec =
  rc_serialize :: "tool_result \<Rightarrow> bytes"
  rc_parse :: "bytes \<Rightarrow> tool_result option"

definition TAG_CLAIM :: bytes where "TAG_CLAIM = [67]"
definition TAG_DONE :: bytes where "TAG_DONE = [68]"
definition DONE_NO_RESULT :: bytes where "DONE_NO_RESULT = []"

definition encode_done :: "result_codec \<Rightarrow> tool_result option \<Rightarrow> bytes" where
  "encode_done codec result =
     TAG_DONE @ (case result of None \<Rightarrow> DONE_NO_RESULT | Some r \<Rightarrow> rc_serialize codec r)"

definition decode_done :: "result_codec \<Rightarrow> bytes \<Rightarrow> claim_outcome res" where
  "decode_done codec payload =
     (if payload = DONE_NO_RESULT then Ok (Done None)
      else (case rc_parse codec payload of None \<Rightarrow> Err ValueError | Some r \<Rightarrow> Ok (Done (Some r))))"

definition encode_claim :: "string \<Rightarrow> bytes" where
  "encode_claim token = TAG_CLAIM @ utf8 token"

text \<open>
  What the store methods are to their callers: clock readings, the token, the intent and the
  lease (or the result and its lifetime), and the state.
\<close>

record 's dedup_ops =
  dd_claim :: "msec \<Rightarrow> msec \<Rightarrow> string \<Rightarrow> string \<Rightarrow> int \<Rightarrow> 's \<Rightarrow> claim_outcome res \<times> 's"
  dd_complete :: "msec \<Rightarrow> msec \<Rightarrow> string \<Rightarrow> string \<Rightarrow> tool_result option \<Rightarrow> int \<Rightarrow> 's \<Rightarrow> bool \<times> 's"
  dd_release :: "msec \<Rightarrow> msec \<Rightarrow> string \<Rightarrow> string \<Rightarrow> 's \<Rightarrow> bool \<times> 's"

section \<open>The in-memory store\<close>

record dedup_record =
  dr_tag :: bytes
  dr_payload :: bytes
  dr_expires :: msec

type_synonym dedup_records = "(string, dedup_record) dict"

definition mem_live :: "msec \<Rightarrow> string \<Rightarrow> dedup_records \<Rightarrow> dedup_record option \<times> dedup_records" where
  "mem_live now intent_id records =
     (case map_of records intent_id of
        None \<Rightarrow> (None, records)
      | Some r \<Rightarrow> if dr_expires r \<le> now then (None, AList.delete intent_id records) else (Some r, records))"

definition mem_claim ::
  "result_codec \<Rightarrow> msec \<Rightarrow> msec \<Rightarrow> string \<Rightarrow> string \<Rightarrow> int \<Rightarrow> dedup_records \<Rightarrow> claim_outcome res \<times> dedup_records" where
  "mem_claim codec now later token intent_id lease_ms records =
     (case mem_live now intent_id records of
        (Some r, records') \<Rightarrow>
          (if dr_tag r = TAG_DONE then decode_done codec (dr_payload r) else Ok InFlight, records')
      | (None, records') \<Rightarrow>
          (Ok (Claimed token),
           AList.update intent_id
             \<lparr>dr_tag = TAG_CLAIM, dr_payload = utf8 token, dr_expires = later + lease_ms\<rparr> records'))"

definition owns :: "string \<Rightarrow> dedup_record option \<Rightarrow> bool" where
  "owns token r \<longleftrightarrow> (case r of None \<Rightarrow> False | Some d \<Rightarrow> dr_tag d = TAG_CLAIM \<and> dr_payload d = utf8 token)"

definition mem_complete ::
  "result_codec \<Rightarrow> msec \<Rightarrow> msec \<Rightarrow> string \<Rightarrow> string \<Rightarrow> tool_result option \<Rightarrow> int \<Rightarrow> dedup_records \<Rightarrow>
   bool \<times> dedup_records" where
  "mem_complete codec now later token intent_id result ttl_ms records =
     (let (r, records') = mem_live now intent_id records in
      if \<not> owns token r then (False, records')
      else (True, AList.update intent_id
        \<lparr>dr_tag = TAG_DONE, dr_payload = drop (length TAG_DONE) (encode_done codec result),
         dr_expires = later + ttl_ms\<rparr> records'))"

definition mem_release ::
  "msec \<Rightarrow> msec \<Rightarrow> string \<Rightarrow> string \<Rightarrow> dedup_records \<Rightarrow> bool \<times> dedup_records" where
  "mem_release now later token intent_id records =
     (let (r, records') = mem_live now intent_id records in
      if \<not> owns token r then (False, records') else (True, AList.delete intent_id records'))"

definition in_memory_dedup :: "result_codec \<Rightarrow> dedup_records dedup_ops" where
  "in_memory_dedup codec =
     \<lparr>dd_claim = mem_claim codec, dd_complete = mem_complete codec, dd_release = mem_release\<rparr>"

section \<open>The Redis store\<close>

text \<open>
  The commands the store and its scripts send: \<open>SET\<close> with the \<open>NX\<close> flag and a \<open>PX\<close> lifetime,
  \<open>GET\<close> and \<open>DEL\<close>, each at a time of the server's clock. A script runs as one command.
\<close>

record 'r redis_server =
  rd_set :: "msec \<Rightarrow> string \<Rightarrow> bytes \<Rightarrow> bool \<Rightarrow> int \<Rightarrow> 'r \<Rightarrow> bool \<times> 'r"
  rd_get :: "msec \<Rightarrow> string \<Rightarrow> 'r \<Rightarrow> bytes option"
  rd_del :: "msec \<Rightarrow> string \<Rightarrow> 'r \<Rightarrow> bool \<times> 'r"

definition KEY_PREFIX :: string where "KEY_PREFIX = ''beam-agents:intent:''"

definition redis_key :: "string \<Rightarrow> string" where
  "redis_key intent_id = KEY_PREFIX @ intent_id"

definition redis_claim ::
  "'r redis_server \<Rightarrow> result_codec \<Rightarrow> msec \<Rightarrow> msec \<Rightarrow> string \<Rightarrow> string \<Rightarrow> int \<Rightarrow> 'r \<Rightarrow> claim_outcome res \<times> 'r" where
  "redis_claim srv codec now later token intent_id lease_ms w =
     (let (stored, w1) = rd_set srv now (redis_key intent_id) (encode_claim token) True lease_ms w in
      if stored then (Ok (Claimed token), w1)
      else (case rd_get srv later (redis_key intent_id) w1 of
              None \<Rightarrow> (Ok InFlight, w1)
            | Some existing \<Rightarrow>
                (if take 1 existing = TAG_DONE then decode_done codec (drop 1 existing) else Ok InFlight, w1)))"

definition complete_script :: "'r redis_server \<Rightarrow> msec \<Rightarrow> string \<Rightarrow> bytes \<Rightarrow> bytes \<Rightarrow> int \<Rightarrow> 'r \<Rightarrow> bool \<times> 'r" where
  "complete_script srv now key expected replacement px w =
     (if rd_get srv now key w = Some expected then rd_set srv now key replacement False px w else (False, w))"

definition release_script :: "'r redis_server \<Rightarrow> msec \<Rightarrow> string \<Rightarrow> bytes \<Rightarrow> 'r \<Rightarrow> bool \<times> 'r" where
  "release_script srv now key expected w =
     (if rd_get srv now key w = Some expected then rd_del srv now key w else (False, w))"

definition redis_complete ::
  "'r redis_server \<Rightarrow> result_codec \<Rightarrow> msec \<Rightarrow> msec \<Rightarrow> string \<Rightarrow> string \<Rightarrow> tool_result option \<Rightarrow> int \<Rightarrow> 'r \<Rightarrow> bool \<times> 'r" where
  "redis_complete srv codec now later token intent_id result ttl_ms w =
     complete_script srv now (redis_key intent_id) (encode_claim token) (encode_done codec result) ttl_ms w"

definition redis_release ::
  "'r redis_server \<Rightarrow> msec \<Rightarrow> msec \<Rightarrow> string \<Rightarrow> string \<Rightarrow> 'r \<Rightarrow> bool \<times> 'r" where
  "redis_release srv now later token intent_id w =
     release_script srv now (redis_key intent_id) (encode_claim token) w"

definition redis_dedup :: "'r redis_server \<Rightarrow> result_codec \<Rightarrow> 'r dedup_ops" where
  "redis_dedup srv codec =
     \<lparr>dd_claim = redis_claim srv codec, dd_complete = redis_complete srv codec, dd_release = redis_release srv\<rparr>"

text \<open>The store a parsed dedup URI names (\<open>build_dedup_store\<close>).\<close>

datatype dedup_choice = InMemoryDedup | RedisDedup string | BigtableDedup string string string

definition build_dedup_store :: "string \<Rightarrow> string list \<Rightarrow> dedup_choice res" where
  "build_dedup_store scheme parts =
     (if scheme = ''memory'' then Ok InMemoryDedup
      else if scheme = ''redis'' then
        (case parts of [] \<Rightarrow> Err IndexError | u # _ \<Rightarrow> Ok (RedisDedup u))
      else (case parts of [p, i, t] \<Rightarrow> Ok (BigtableDedup p i t) | _ \<Rightarrow> Err ValueError))"

section \<open>The contract\<close>

text \<open>The record of an intent that is live at a time: a claim and its owner, or a terminal record.\<close>

datatype slot = Held string | Terminal "tool_result option"

definition storable :: "tool_result option \<Rightarrow> bool" where
  "storable result \<longleftrightarrow> (\<forall>r. result = Some r \<longrightarrow> tr_status r \<noteq> StatusUnspecified)"

definition granted :: "('s \<Rightarrow> msec \<Rightarrow> string \<Rightarrow> slot option) \<Rightarrow> msec \<Rightarrow> msec \<Rightarrow> int \<Rightarrow> string \<Rightarrow> slot \<Rightarrow> 's \<Rightarrow> 's \<Rightarrow> bool" where
  "granted live now later lifetime intent_id sl s s' \<longleftrightarrow>
     (\<exists>e. now + lifetime \<le> e \<and> e \<le> later + lifetime \<and>
       (\<forall>t \<ge> later. live s' t = (live s t)(intent_id := if t < e then Some sl else None)))"

definition unchanged :: "('s \<Rightarrow> msec \<Rightarrow> string \<Rightarrow> slot option) \<Rightarrow> msec \<Rightarrow> 's \<Rightarrow> 's \<Rightarrow> bool" where
  "unchanged live later s s' \<longleftrightarrow> (\<forall>t \<ge> later. live s' t = live s t)"

locale dedup_store =
  fixes ops :: "'s dedup_ops"
    and live :: "'s \<Rightarrow> msec \<Rightarrow> string \<Rightarrow> slot option"
    and inv :: "msec \<Rightarrow> 's \<Rightarrow> bool"
  assumes inv_later: "\<lbrakk>inv t s; t \<le> u\<rbrakk> \<Longrightarrow> inv u s"
    and live_decays: "\<lbrakk>inv t s; t \<le> u; live s u i = Some x\<rbrakk> \<Longrightarrow> live s t i = Some x"
    and claim_free: "\<lbrakk>inv now s; now \<le> later; dd_claim ops now later tok i lease s = (out, s'); live s now i = None\<rbrakk>
      \<Longrightarrow> out = Ok (Claimed tok) \<and> granted live now later lease i (Held tok) s s' \<and> inv later s'"
    and claim_taken: "\<lbrakk>inv now s; now \<le> later; dd_claim ops now later tok i lease s = (out, s'); live s now i = Some x\<rbrakk>
      \<Longrightarrow> (out = Ok InFlight \<or> (\<exists>r. x = Terminal r \<and> out = Ok (Done r))) \<and>
        (\<forall>r. live s later i = Some (Terminal r) \<longrightarrow> out = Ok (Done r)) \<and> unchanged live later s s' \<and> inv later s'"
    and complete_owner: "\<lbrakk>inv now s; now \<le> later; storable r; dd_complete ops now later tok i r ttl s = (b, s');
        live s now i = Some (Held tok)\<rbrakk> \<Longrightarrow> b \<and> granted live now later ttl i (Terminal r) s s' \<and> inv later s'"
    and complete_other: "\<lbrakk>inv now s; now \<le> later; dd_complete ops now later tok i r ttl s = (b, s');
        live s now i \<noteq> Some (Held tok)\<rbrakk> \<Longrightarrow> \<not> b \<and> unchanged live later s s' \<and> inv later s'"
    and release_owner: "\<lbrakk>inv now s; now \<le> later; dd_release ops now later tok i s = (b, s'); live s now i = Some (Held tok)\<rbrakk>
      \<Longrightarrow> b \<and> (\<forall>t \<ge> later. live s' t = (live s t)(i := None)) \<and> inv later s'"
    and release_other: "\<lbrakk>inv now s; now \<le> later; dd_release ops now later tok i s = (b, s'); live s now i \<noteq> Some (Held tok)\<rbrakk>
      \<Longrightarrow> \<not> b \<and> unchanged live later s s' \<and> inv later s'"

text \<open>
  The abstract lease table the contract is about, for an operation that reads one time: the live
  record of each intent at each time from \<open>now\<close> on.
\<close>

type_synonym lease_table = "msec \<Rightarrow> string \<Rightarrow> slot option"

definition set_slot :: "msec \<Rightarrow> int \<Rightarrow> string \<Rightarrow> slot \<Rightarrow> lease_table \<Rightarrow> lease_table" where
  "set_slot now lifetime i sl v t = (v t)(i := if t < now + lifetime then Some sl else None)"

definition spec_claim :: "msec \<Rightarrow> string \<Rightarrow> string \<Rightarrow> int \<Rightarrow> lease_table \<Rightarrow> claim_outcome \<times> lease_table" where
  "spec_claim now tok i lease v =
     (case v now i of
        None \<Rightarrow> (Claimed tok, set_slot now lease i (Held tok) v)
      | Some (Held _) \<Rightarrow> (InFlight, v)
      | Some (Terminal r) \<Rightarrow> (Done r, v))"

definition spec_complete ::
  "msec \<Rightarrow> string \<Rightarrow> string \<Rightarrow> tool_result option \<Rightarrow> int \<Rightarrow> lease_table \<Rightarrow> bool \<times> lease_table" where
  "spec_complete now tok i r ttl v =
     (if v now i = Some (Held tok) then (True, set_slot now ttl i (Terminal r) v) else (False, v))"

definition spec_release :: "msec \<Rightarrow> string \<Rightarrow> string \<Rightarrow> lease_table \<Rightarrow> bool \<times> lease_table" where
  "spec_release now tok i v =
     (if v now i = Some (Held tok) then (True, \<lambda>t. (v t)(i := None)) else (False, v))"

definition agree :: "msec \<Rightarrow> lease_table \<Rightarrow> lease_table \<Rightarrow> bool" where
  "agree now v v' \<longleftrightarrow> (\<forall>t \<ge> now. v t = v' t)"

context dedup_store
begin

lemma claim_refines:
  assumes "inv now s" and "dd_claim ops now now tok i lease s = (out, s')"
  shows "out = Ok (fst (spec_claim now tok i lease (live s))) \<and>
    agree now (live s') (snd (spec_claim now tok i lease (live s))) \<and> inv now s'"
proof (cases "live s now i")
  case None
  then show ?thesis using claim_free[OF assms(1) order_refl assms(2)]
    by (auto simp: spec_claim_def agree_def granted_def set_slot_def)
next
  case (Some x)
  note taken = claim_taken[OF assms(1) order_refl assms(2) Some]
  have "out = Ok InFlight" if "x = Held y" for y using taken that by auto
  moreover have "out = Ok (Done r)" if "x = Terminal r" for r using taken that Some by blast
  ultimately show ?thesis using taken Some by (cases x) (auto simp: spec_claim_def agree_def unchanged_def)
qed

lemma complete_refines:
  assumes "inv now s" and "storable r" and "dd_complete ops now now tok i r ttl s = (b, s')"
  shows "b = fst (spec_complete now tok i r ttl (live s)) \<and>
    agree now (live s') (snd (spec_complete now tok i r ttl (live s))) \<and> inv now s'"
  using complete_owner[OF assms(1) order_refl assms(2,3)] complete_other[OF assms(1) order_refl assms(3)]
  by (auto simp: spec_complete_def agree_def granted_def unchanged_def set_slot_def)

lemma release_refines:
  assumes "inv now s" and "dd_release ops now now tok i s = (b, s')"
  shows "b = fst (spec_release now tok i (live s)) \<and>
    agree now (live s') (snd (spec_release now tok i (live s))) \<and> inv now s'"
  using release_owner[OF assms(1) order_refl assms(2)] release_other[OF assms(1) order_refl assms(2)]
  by (auto simp: spec_release_def agree_def unchanged_def)

text \<open>All three at once, on the results of the operations.\<close>

lemma ops_refine:
  assumes "inv now s" and "storable r"
  shows "fst (dd_claim ops now now tok i lease s) = Ok (fst (spec_claim now tok i lease (live s))) \<and>
      agree now (live (snd (dd_claim ops now now tok i lease s))) (snd (spec_claim now tok i lease (live s))) \<and>
      inv now (snd (dd_claim ops now now tok i lease s))"
    and "fst (dd_complete ops now now tok i r ttl s) = fst (spec_complete now tok i r ttl (live s)) \<and>
      agree now (live (snd (dd_complete ops now now tok i r ttl s))) (snd (spec_complete now tok i r ttl (live s))) \<and>
      inv now (snd (dd_complete ops now now tok i r ttl s))"
    and "fst (dd_release ops now now tok i s) = fst (spec_release now tok i (live s)) \<and>
      agree now (live (snd (dd_release ops now now tok i s))) (snd (spec_release now tok i (live s))) \<and>
      inv now (snd (dd_release ops now now tok i s))"
  using claim_refines[OF assms(1) surjective_pairing] complete_refines[OF assms surjective_pairing]
    release_refines[OF assms(1) surjective_pairing] by blast+

end

section \<open>The in-memory store keeps the contract\<close>

definition result_codec_ok :: "result_codec \<Rightarrow> bool" where
  "result_codec_ok codec \<longleftrightarrow>
     (\<forall>r. tr_status r \<noteq> StatusUnspecified \<longrightarrow>
        rc_serialize codec r \<noteq> [] \<and> rc_parse codec (rc_serialize codec r) = Some r)"

definition terminal_of :: "result_codec \<Rightarrow> bytes \<Rightarrow> slot" where
  "terminal_of codec payload = Terminal (if payload = [] then None else rc_parse codec payload)"

definition readable_done :: "result_codec \<Rightarrow> bytes \<Rightarrow> bool" where
  "readable_done codec payload \<longleftrightarrow> payload = [] \<or> rc_parse codec payload \<noteq> None"

lemma decode_done_readable:
  "readable_done codec payload \<Longrightarrow> \<exists>x. decode_done codec payload = Ok (Done x) \<and> terminal_of codec payload = Terminal x"
  by (auto simp: readable_done_def decode_done_def DONE_NO_RESULT_def terminal_of_def split: option.splits)

lemma encode_done_readable:
  "\<lbrakk>result_codec_ok codec; storable r\<rbrakk> \<Longrightarrow>
   \<exists>payload. encode_done codec r = TAG_DONE @ payload \<and> readable_done codec payload \<and> terminal_of codec payload = Terminal r"
  by (cases r) (auto simp: encode_done_def DONE_NO_RESULT_def readable_done_def terminal_of_def result_codec_ok_def storable_def)

lemma tags [simp]: "TAG_CLAIM \<noteq> TAG_DONE" "TAG_DONE \<noteq> TAG_CLAIM" "length TAG_DONE = 1" "length TAG_CLAIM = 1"
  by (simp_all add: TAG_CLAIM_def TAG_DONE_def)

definition record_slot :: "result_codec \<Rightarrow> dedup_record \<Rightarrow> slot" where
  "record_slot codec r =
     (if dr_tag r = TAG_DONE then terminal_of codec (dr_payload r) else Held (of_utf8 (dr_payload r)))"

definition record_wf :: "result_codec \<Rightarrow> dedup_record \<Rightarrow> bool" where
  "record_wf codec r \<longleftrightarrow>
     (if dr_tag r = TAG_DONE then readable_done codec (dr_payload r)
      else dr_tag r = TAG_CLAIM \<and> (\<exists>tok. dr_payload r = utf8 tok))"

definition mem_view :: "result_codec \<Rightarrow> dedup_records \<Rightarrow> msec \<Rightarrow> string \<Rightarrow> slot option" where
  "mem_view codec records t i =
     (case map_of records i of
        None \<Rightarrow> None | Some r \<Rightarrow> if t < dr_expires r then Some (record_slot codec r) else None)"

definition mem_inv :: "result_codec \<Rightarrow> msec \<Rightarrow> dedup_records \<Rightarrow> bool" where
  "mem_inv codec t records \<longleftrightarrow> result_codec_ok codec \<and> (\<forall>i r. map_of records i = Some r \<longrightarrow> record_wf codec r)"

lemma mem_live_cases:
  assumes "mem_live now i records = (r, records')"
  shows "\<forall>t \<ge> now. mem_view codec records' t = mem_view codec records t"
    and "mem_view codec records now i = map_option (record_slot codec) r"
    and "mem_inv codec t records \<Longrightarrow> mem_inv codec u records'"
    and "\<And>d. r = Some d \<Longrightarrow> map_of records i = Some d"
proof -
  have del: "map_of (AList.delete i records) = (map_of records)(i := None)" by (rule delete_conv')
  show "\<forall>t \<ge> now. mem_view codec records' t = mem_view codec records t"
    using assms by (auto simp: mem_live_def mem_view_def del fun_eq_iff split: option.splits if_splits)
  show "mem_view codec records now i = map_option (record_slot codec) r"
  proof (cases "map_of records i")
    case None
    then show ?thesis using assms by (auto simp: mem_live_def mem_view_def)
  next
    case (Some a)
    then have "r = (if dr_expires a \<le> now then None else Some a)" using assms by (auto simp: mem_live_def split: if_splits)
    then show ?thesis using Some by (auto simp: mem_view_def)
  qed
  show "mem_inv codec t records \<Longrightarrow> mem_inv codec u records'"
    using assms by (auto simp: mem_live_def mem_inv_def del split: option.splits if_splits)
  show "\<And>d. r = Some d \<Longrightarrow> map_of records i = Some d"
    using assms by (auto simp: mem_live_def split: option.splits if_splits)
qed

lemma mem_update:
  assumes "mem_inv codec t records" and "record_wf codec r" and "dr_expires r = e"
  shows "mem_inv codec u (AList.update i r records)"
    and "mem_view codec (AList.update i r records) v = (mem_view codec records v)(i := if v < e then Some (record_slot codec r) else None)"
  using assms by (auto simp: mem_inv_def mem_view_def update_conv' fun_eq_iff split: option.splits if_splits)

lemma mem_delete:
  "mem_inv codec t records \<Longrightarrow> mem_inv codec u (AList.delete i records)"
  "mem_view codec (AList.delete i records) v = (mem_view codec records v)(i := None)"
  by (auto simp: mem_inv_def mem_view_def delete_conv' fun_eq_iff split: if_splits)

lemma owns_view:
  assumes "mem_inv codec t records" and l: "mem_live now i records = (r, records')"
  shows "owns tok r \<longleftrightarrow> mem_view codec records now i = Some (Held tok)"
proof (cases r)
  case None
  then show ?thesis using mem_live_cases(2)[OF l, of codec] by (simp add: owns_def)
next
  case (Some d)
  have "record_wf codec d" using mem_live_cases(4)[OF l Some] assms(1) by (simp add: mem_inv_def)
  then show ?thesis using mem_live_cases(2)[OF l, of codec] Some
    by (auto simp: owns_def record_slot_def terminal_of_def record_wf_def split: if_splits)
qed

interpretation mem: dedup_store "in_memory_dedup codec" "mem_view codec" "mem_inv codec" for codec
proof unfold_locales
  fix t u s i x
  show "mem_inv codec t s \<Longrightarrow> t \<le> u \<Longrightarrow> mem_inv codec u s" by (simp add: mem_inv_def)
  show "t \<le> u \<Longrightarrow> mem_view codec s u i = Some x \<Longrightarrow> mem_view codec s t i = Some x"
    by (auto simp: mem_view_def split: option.splits if_splits)
next
  fix now s later tok i lease out s'
  assume a: "mem_inv codec now s" "now \<le> later" "dd_claim (in_memory_dedup codec) now later tok i lease s = (out, s')"
    "mem_view codec s now i = None"
  obtain r s1 where l: "mem_live now i s = (r, s1)" by (cases "mem_live now i s")
  have r: "r = None" using mem_live_cases(2)[OF l, of codec] a(4) by simp
  have s': "s' = AList.update i \<lparr>dr_tag = TAG_CLAIM, dr_payload = utf8 tok, dr_expires = later + lease\<rparr> s1"
    and out: "out = Ok (Claimed tok)" using a(3) l r by (simp_all add: in_memory_dedup_def mem_claim_def)
  have wf: "record_wf codec \<lparr>dr_tag = TAG_CLAIM, dr_payload = utf8 tok, dr_expires = later + lease\<rparr>"
    by (auto simp: record_wf_def)
  note up = mem_update[OF mem_live_cases(3)[OF l a(1)] wf refl]
  show "out = Ok (Claimed tok) \<and> granted (mem_view codec) now later lease i (Held tok) s s' \<and> mem_inv codec later s'"
    using up a(2) mem_live_cases(1)[OF l, of codec] out
    by (auto simp: s' granted_def record_slot_def intro!: exI[of _ "later + lease"])
next
  fix now s later tok i lease out s' x
  assume a: "mem_inv codec now s" "now \<le> later" "dd_claim (in_memory_dedup codec) now later tok i lease s = (out, s')"
    "mem_view codec s now i = Some x"
  obtain r s1 where l: "mem_live now i s = (r, s1)" by (cases "mem_live now i s")
  obtain d where r: "r = Some d" and x: "x = record_slot codec d" using mem_live_cases(2)[OF l, of codec] a(4) by (cases r) auto
  have s': "s' = s1" and out: "out = (if dr_tag d = TAG_DONE then decode_done codec (dr_payload d) else Ok InFlight)"
    using a(3) l r by (simp_all add: in_memory_dedup_def mem_claim_def)
  have wf: "record_wf codec d" using mem_live_cases(4)[OF l r] a(1) by (simp add: mem_inv_def)
  have "mem_view codec s later i = Some y \<Longrightarrow> y = x" for y
    using mem_live_cases(4)[OF l r] by (auto simp: mem_view_def x split: if_splits)
  then show "(out = Ok InFlight \<or> (\<exists>r. x = Terminal r \<and> out = Ok (Done r))) \<and>
      (\<forall>r. mem_view codec s later i = Some (Terminal r) \<longrightarrow> out = Ok (Done r)) \<and>
      unchanged (mem_view codec) later s s' \<and> mem_inv codec later s'"
    using wf mem_live_cases(1)[OF l, of codec] mem_live_cases(3)[OF l a(1), of later] a(2) decode_done_readable[of codec "dr_payload d"]
    by (auto simp: out x s' record_slot_def record_wf_def unchanged_def split: if_splits)
next
  fix now s later tok i and r :: "tool_result option" and ttl b s'
  assume a: "mem_inv codec now s" "now \<le> later" "dd_complete (in_memory_dedup codec) now later tok i r ttl s = (b, s')"
  obtain q s1 where l: "mem_live now i s = (q, s1)" by (cases "mem_live now i s")
  note own = owns_view[OF a(1) l, of tok]
  show "\<not> b \<and> unchanged (mem_view codec) later s s' \<and> mem_inv codec later s'" if "mem_view codec s now i \<noteq> Some (Held tok)"
    using a(2,3) l own that mem_live_cases(1)[OF l, of codec] mem_live_cases(3)[OF l a(1), of later]
    by (auto simp: in_memory_dedup_def mem_complete_def unchanged_def)
  show "b \<and> granted (mem_view codec) now later ttl i (Terminal r) s s' \<and> mem_inv codec later s'"
    if st: "storable r" and h: "mem_view codec s now i = Some (Held tok)"
  proof -
    obtain payload where e: "encode_done codec r = TAG_DONE @ payload" "readable_done codec payload"
        "terminal_of codec payload = Terminal r"
      using encode_done_readable[OF _ st, of codec] a(1) unfolding mem_inv_def by blast
    have wf: "record_wf codec \<lparr>dr_tag = TAG_DONE, dr_payload = payload, dr_expires = later + ttl\<rparr>"
      using e by (simp add: record_wf_def)
    have "b" "s' = AList.update i \<lparr>dr_tag = TAG_DONE, dr_payload = payload, dr_expires = later + ttl\<rparr> s1"
      using a(3) l own h e(1) by (simp_all add: in_memory_dedup_def mem_complete_def)
    then show ?thesis using mem_update[OF mem_live_cases(3)[OF l a(1)] wf refl] mem_live_cases(1)[OF l, of codec] a(2) e(3)
      by (auto simp: granted_def record_slot_def intro!: exI[of _ "later + ttl"])
  qed
next
  fix now s later tok i b s'
  assume a: "mem_inv codec now s" "now \<le> later" "dd_release (in_memory_dedup codec) now later tok i s = (b, s')"
  obtain q s1 where l: "mem_live now i s = (q, s1)" by (cases "mem_live now i s")
  note own = owns_view[OF a(1) l, of tok]
  note keep = mem_live_cases(1)[OF l, of codec] mem_live_cases(3)[OF l a(1), of later]
  show "b \<and> (\<forall>t \<ge> later. mem_view codec s' t = (mem_view codec s t)(i := None)) \<and> mem_inv codec later s'"
    if "mem_view codec s now i = Some (Held tok)"
    using a(2,3) l own that keep mem_delete(1)[of codec later s1 later i] mem_delete(2)[of codec i s1]
    by (auto simp: in_memory_dedup_def mem_release_def)
  show "\<not> b \<and> unchanged (mem_view codec) later s s' \<and> mem_inv codec later s'"
    if "mem_view codec s now i \<noteq> Some (Held tok)"
    using a(2,3) l own that keep by (auto simp: in_memory_dedup_def mem_release_def unchanged_def)
qed

section \<open>The Redis store keeps the contract of a documented server\<close>

definition set_key :: "msec \<Rightarrow> string \<Rightarrow> bytes \<Rightarrow> int \<Rightarrow> (msec \<Rightarrow> string \<Rightarrow> bytes option) \<Rightarrow> msec \<Rightarrow> string \<Rightarrow> bytes option" where
  "set_key now key v px get t k = (if k = key then (if t < now + px then Some v else None) else get t k)"

locale redis_documented =
  fixes srv :: "'r redis_server"
  assumes get_expires: "\<lbrakk>t \<le> u; rd_get srv u k w = Some v\<rbrakk> \<Longrightarrow> rd_get srv t k w = Some v"
    and set_taken: "\<lbrakk>rd_set srv now k v True px w = (b, w'); rd_get srv now k w \<noteq> None\<rbrakk>
      \<Longrightarrow> \<not> b \<and> (\<forall>t \<ge> now. \<forall>j. rd_get srv t j w' = rd_get srv t j w)"
    and set_stored: "\<lbrakk>rd_set srv now k v nx px w = (b, w'); \<not> nx \<or> rd_get srv now k w = None\<rbrakk>
      \<Longrightarrow> b \<and> (\<forall>t \<ge> now. \<forall>j. rd_get srv t j w' = set_key now k v px (\<lambda>t j. rd_get srv t j w) t j)"
    and del_removes: "\<lbrakk>rd_del srv now k w = (b, w'); rd_get srv now k w \<noteq> None\<rbrakk>
      \<Longrightarrow> b \<and> (\<forall>t \<ge> now. \<forall>j. rd_get srv t j w' = (if j = k then None else rd_get srv t j w))"

definition value_slot :: "result_codec \<Rightarrow> bytes \<Rightarrow> slot" where
  "value_slot codec v =
     (if take 1 v = TAG_DONE then terminal_of codec (drop 1 v) else Held (of_utf8 (drop 1 v)))"

definition value_wf :: "result_codec \<Rightarrow> bytes \<Rightarrow> bool" where
  "value_wf codec v \<longleftrightarrow>
     (\<exists>payload. v = TAG_DONE @ payload \<and> readable_done codec payload) \<or> (\<exists>tok. v = encode_claim tok)"

definition redis_view :: "'r redis_server \<Rightarrow> result_codec \<Rightarrow> 'r \<Rightarrow> msec \<Rightarrow> string \<Rightarrow> slot option" where
  "redis_view srv codec w t i = map_option (value_slot codec) (rd_get srv t (redis_key i) w)"

definition redis_inv :: "'r redis_server \<Rightarrow> result_codec \<Rightarrow> msec \<Rightarrow> 'r \<Rightarrow> bool" where
  "redis_inv srv codec now w \<longleftrightarrow>
     result_codec_ok codec \<and> (\<forall>t \<ge> now. \<forall>i v. rd_get srv t (redis_key i) w = Some v \<longrightarrow> value_wf codec v)"

lemma redis_key_inject [simp]: "redis_key i = redis_key j \<longleftrightarrow> i = j"
  by (simp add: redis_key_def)

lemma value_slot_simps [simp]:
  "value_slot codec (encode_claim tok) = Held tok"
  "value_slot codec (TAG_DONE @ payload) = terminal_of codec payload"
  by (simp_all add: value_slot_def encode_claim_def TAG_CLAIM_def TAG_DONE_def)

lemma value_slot_held: "value_wf codec v \<Longrightarrow> value_slot codec v = Held tok \<longleftrightarrow> v = encode_claim tok"
  unfolding value_wf_def by (auto simp: terminal_of_def)

lemma value_wf_claim [simp]: "value_wf codec (encode_claim tok)"
  by (auto simp: value_wf_def)

lemma redis_invD:
  "\<lbrakk>redis_inv srv codec now w; now \<le> t; rd_get srv t (redis_key i) w = Some v\<rbrakk> \<Longrightarrow> value_wf codec v"
  by (auto simp: redis_inv_def)

lemma redis_invI:
  "\<lbrakk>redis_inv srv codec now w; \<And>t i v. \<lbrakk>later \<le> t; rd_get srv t (redis_key i) w' = Some v\<rbrakk> \<Longrightarrow> value_wf codec v\<rbrakk>
   \<Longrightarrow> redis_inv srv codec later w'"
  by (auto simp: redis_inv_def)

lemma redis_stored:
  assumes inv: "redis_inv srv codec now w" and le: "now \<le> later" and wf: "value_wf codec v"
    and got: "\<forall>t \<ge> now. \<forall>j. rd_get srv t j w' = set_key now (redis_key i) v px (\<lambda>t j. rd_get srv t j w) t j"
  shows "granted (redis_view srv codec) now later px i (value_slot codec v) w w' \<and> redis_inv srv codec later w'"
proof -
  have "redis_view srv codec w' t = (redis_view srv codec w t)(i := if t < now + px then Some (value_slot codec v) else None)"
    if "later \<le> t" for t
    using got that le by (auto simp: redis_view_def set_key_def fun_eq_iff)
  moreover have "redis_inv srv codec later w'"
  proof (rule redis_invI[OF inv])
    fix t j u assume t: "later \<le> t" and g: "rd_get srv t (redis_key j) w' = Some u"
    then have "set_key now (redis_key i) v px (\<lambda>t j. rd_get srv t j w) t (redis_key j) = Some u" using got le by simp
    then show "value_wf codec u" using wf redis_invD[OF inv, of t j u] t le by (auto simp: set_key_def split: if_splits)
  qed
  ultimately show ?thesis using le unfolding granted_def by (intro conjI exI[of _ "now + px"]) auto
qed

lemma redis_same:
  assumes "redis_inv srv codec now w" and "now \<le> later" and "\<forall>t \<ge> now. \<forall>j. rd_get srv t j w' = rd_get srv t j w"
  shows "unchanged (redis_view srv codec) later w w' \<and> redis_inv srv codec later w'"
proof
  show "unchanged (redis_view srv codec) later w w'"
    using assms by (auto simp: unchanged_def redis_view_def fun_eq_iff)
  show "redis_inv srv codec later w'"
    by (rule redis_invI[OF assms(1)]) (use assms(2,3) redis_invD[OF assms(1)] in \<open>metis order_trans\<close>)
qed

lemma redis_held:
  "redis_inv srv codec now w \<Longrightarrow>
   redis_view srv codec w now i = Some (Held tok) \<longleftrightarrow> rd_get srv now (redis_key i) w = Some (encode_claim tok)"
  using value_slot_held by (fastforce simp: redis_view_def redis_inv_def)

sublocale redis_documented \<subseteq> redis: dedup_store "redis_dedup srv codec" "redis_view srv codec" "redis_inv srv codec" for codec
proof unfold_locales
  fix t u w i x
  show "redis_inv srv codec t w \<Longrightarrow> t \<le> u \<Longrightarrow> redis_inv srv codec u w"
    using redis_invI[of srv codec t w u w] redis_invD[of srv codec t w] by (meson order_trans)
  show "t \<le> u \<Longrightarrow> redis_view srv codec w u i = Some x \<Longrightarrow> redis_view srv codec w t i = Some x"
    using get_expires by (fastforce simp: redis_view_def)
next
  fix now w later tok i lease out w'
  assume a: "redis_inv srv codec now w" "now \<le> later" "dd_claim (redis_dedup srv codec) now later tok i lease w = (out, w')"
    "redis_view srv codec w now i = None"
  obtain b w1 where set: "rd_set srv now (redis_key i) (encode_claim tok) True lease w = (b, w1)"
    by (cases "rd_set srv now (redis_key i) (encode_claim tok) True lease w")
  have b: b and got: "\<forall>t \<ge> now. \<forall>j. rd_get srv t j w1 = set_key now (redis_key i) (encode_claim tok) lease (\<lambda>t j. rd_get srv t j w) t j"
    using set_stored[OF set] a(4) by (simp_all add: redis_view_def)
  have "out = Ok (Claimed tok)" "w' = w1" using a(3) set b by (simp_all add: redis_dedup_def redis_claim_def)
  then show "out = Ok (Claimed tok) \<and> granted (redis_view srv codec) now later lease i (Held tok) w w' \<and> redis_inv srv codec later w'"
    using redis_stored[OF a(1,2) value_wf_claim got] by simp
next
  fix now w later tok i lease out w' x
  assume a: "redis_inv srv codec now w" "now \<le> later" "dd_claim (redis_dedup srv codec) now later tok i lease w = (out, w')"
    "redis_view srv codec w now i = Some x"
  obtain b w1 where set: "rd_set srv now (redis_key i) (encode_claim tok) True lease w = (b, w1)"
    by (cases "rd_set srv now (redis_key i) (encode_claim tok) True lease w")
  have b: "\<not> b" and got: "\<forall>t \<ge> now. \<forall>j. rd_get srv t j w1 = rd_get srv t j w"
    using set_taken[OF set] a(4) by (auto simp: redis_view_def)
  have w': "w' = w1" and out: "out = (case rd_get srv later (redis_key i) w of None \<Rightarrow> Ok InFlight
      | Some v \<Rightarrow> if take 1 v = TAG_DONE then decode_done codec (drop 1 v) else Ok InFlight)"
    using a(2,3) set b got by (auto simp: redis_dedup_def redis_claim_def split: option.splits)
  have same: "rd_get srv later (redis_key i) w = Some v \<Longrightarrow> x = value_slot codec v \<and> value_wf codec v" for v
    using get_expires[OF a(2)] a(1,2,4) by (fastforce simp: redis_view_def redis_inv_def)
  have "(out = Ok InFlight \<or> (\<exists>r. x = Terminal r \<and> out = Ok (Done r))) \<and>
      (\<forall>r. redis_view srv codec w later i = Some (Terminal r) \<longrightarrow> out = Ok (Done r))"
  proof (cases "rd_get srv later (redis_key i) w")
    case (Some v)
    from same[OF Some] consider (finished) payload where "v = TAG_DONE @ payload" "readable_done codec payload"
      | (claim) q where "v = encode_claim q" by (auto simp: value_wf_def)
    then show ?thesis
    proof cases
      case finished
      then obtain r where "decode_done codec payload = Ok (Done r)" "terminal_of codec payload = Terminal r"
        using decode_done_readable by blast
      moreover have "take 1 v = TAG_DONE" "drop 1 v = payload" using finished by (simp_all add: TAG_DONE_def)
      ultimately show ?thesis using Some same[OF Some] finished(1) by (simp add: out redis_view_def)
    next
      case claim
      then have "take 1 v \<noteq> TAG_DONE" by (simp add: encode_claim_def TAG_CLAIM_def TAG_DONE_def)
      then show ?thesis using Some claim by (simp add: out redis_view_def)
    qed
  qed (simp add: out redis_view_def)
  then show "(out = Ok InFlight \<or> (\<exists>r. x = Terminal r \<and> out = Ok (Done r))) \<and>
      (\<forall>r. redis_view srv codec w later i = Some (Terminal r) \<longrightarrow> out = Ok (Done r)) \<and>
      unchanged (redis_view srv codec) later w w' \<and> redis_inv srv codec later w'"
    using redis_same[OF a(1,2) got] w' by simp
next
  fix now w later tok i and r :: "tool_result option" and ttl b w'
  assume a: "redis_inv srv codec now w" "now \<le> later" "dd_complete (redis_dedup srv codec) now later tok i r ttl w = (b, w')"
  note run = a(3)[unfolded redis_dedup_def redis_complete_def complete_script_def, simplified]
  show "\<not> b \<and> unchanged (redis_view srv codec) later w w' \<and> redis_inv srv codec later w'" if "redis_view srv codec w now i \<noteq> Some (Held tok)"
    using run that redis_held[OF a(1), of i tok] redis_same[OF a(1,2), of w] by simp
  show "b \<and> granted (redis_view srv codec) now later ttl i (Terminal r) w w' \<and> redis_inv srv codec later w'"
    if st: "storable r" and h: "redis_view srv codec w now i = Some (Held tok)"
  proof -
    obtain payload where e: "encode_done codec r = TAG_DONE @ payload" "readable_done codec payload"
        "terminal_of codec payload = Terminal r"
      using encode_done_readable[OF _ st, of codec] a(1) unfolding redis_inv_def by blast
    have "rd_set srv now (redis_key i) (encode_done codec r) False ttl w = (b, w')"
      using run h redis_held[OF a(1), of i tok] by simp
    from set_stored[OF this] redis_stored[OF a(1,2), of "encode_done codec r" w' i ttl] e show ?thesis
      by (auto simp: value_wf_def)
  qed
next
  fix now w later tok i b w'
  assume a: "redis_inv srv codec now w" "now \<le> later" "dd_release (redis_dedup srv codec) now later tok i w = (b, w')"
  note run = a(3)[unfolded redis_dedup_def redis_release_def release_script_def, simplified]
  show "\<not> b \<and> unchanged (redis_view srv codec) later w w' \<and> redis_inv srv codec later w'" if "redis_view srv codec w now i \<noteq> Some (Held tok)"
    using run that redis_held[OF a(1), of i tok] redis_same[OF a(1,2), of w] by simp
  show "b \<and> (\<forall>t \<ge> later. redis_view srv codec w' t = (redis_view srv codec w t)(i := None)) \<and> redis_inv srv codec later w'"
    if h: "redis_view srv codec w now i = Some (Held tok)"
  proof -
    have g: "rd_get srv now (redis_key i) w = Some (encode_claim tok)" using h redis_held[OF a(1)] by simp
    then have "rd_del srv now (redis_key i) w = (b, w')" using run by simp
    from del_removes[OF this] g have b and gone: "\<forall>t \<ge> now. \<forall>j. rd_get srv t j w' = (if j = redis_key i then None else rd_get srv t j w)"
      by simp_all
    moreover have "redis_inv srv codec later w'"
    proof (rule redis_invI[OF a(1)])
      fix t j u assume "later \<le> t" and "rd_get srv t (redis_key j) w' = Some u"
      then show "value_wf codec u" using gone a(2) redis_invD[OF a(1), of t j u] by (auto split: if_splits)
    qed
    ultimately show ?thesis using a(2) by (auto simp: redis_view_def fun_eq_iff)
  qed
qed

text \<open>A server that keeps each key with its expiry has the documented behaviour.\<close>

type_synonym redis_rows = "(string, bytes \<times> msec) dict"

definition row_at :: "msec \<Rightarrow> string \<Rightarrow> redis_rows \<Rightarrow> bytes option" where
  "row_at now k rows = (case map_of rows k of None \<Rightarrow> None | Some r \<Rightarrow> if now < snd r then Some (fst r) else None)"

definition map_server :: "redis_rows redis_server" where
  "map_server =
     \<lparr>rd_set = (\<lambda>now k v nx px rows.
        if nx \<and> row_at now k rows \<noteq> None then (False, rows) else (True, AList.update k (v, now + px) rows)),
      rd_get = row_at,
      rd_del = (\<lambda>now k rows. (map_of rows k \<noteq> None, AList.delete k rows))\<rparr>"

interpretation redis_map: redis_documented map_server
  by unfold_locales
    (auto simp: map_server_def row_at_def set_key_def update_conv' delete_conv' split: option.splits if_splits)

context redis_documented
begin

lemma redis_ops_refine:
  assumes "redis_inv srv codec now w" and "storable r"
  shows "fst (redis_claim srv codec now now tok i lease w) = Ok (fst (spec_claim now tok i lease (redis_view srv codec w))) \<and>
      agree now (redis_view srv codec (snd (redis_claim srv codec now now tok i lease w)))
        (snd (spec_claim now tok i lease (redis_view srv codec w))) \<and>
      fst (redis_complete srv codec now now tok i r ttl w) = fst (spec_complete now tok i r ttl (redis_view srv codec w)) \<and>
      agree now (redis_view srv codec (snd (redis_complete srv codec now now tok i r ttl w)))
        (snd (spec_complete now tok i r ttl (redis_view srv codec w))) \<and>
      fst (redis_release srv now now tok i w) = fst (spec_release now tok i (redis_view srv codec w)) \<and>
      agree now (redis_view srv codec (snd (redis_release srv now now tok i w)))
        (snd (spec_release now tok i (redis_view srv codec w)))"
  using redis.ops_refine(1)[OF assms, of tok i lease] redis.ops_refine(2)[OF assms, of tok i ttl]
    redis.ops_refine(3)[OF assms, of tok i] by (simp add: redis_dedup_def)

end

text \<open>A codec of results: self-delimiting fields, numbers in unary.\<close>

definition wr_nat :: "nat \<Rightarrow> bytes" where
  "wr_nat n = replicate n 1 @ [0]"

fun re_nat :: "bytes \<Rightarrow> (nat \<times> bytes) option" where
  "re_nat [] = None"
| "re_nat (b # bs) = (if b = 0 then Some (0, bs) else map_option (apfst Suc) (re_nat bs))"

definition wr_int :: "int \<Rightarrow> bytes" where
  "wr_int i = (if 0 \<le> i then 0 # wr_nat (nat i) else 1 # wr_nat (nat (- i)))"

fun re_int :: "bytes \<Rightarrow> (int \<times> bytes) option" where
  "re_int [] = None"
| "re_int (b # bs) = map_option (apfst (\<lambda>n. if b = 0 then int n else - int n)) (re_nat bs)"

definition wr_bytes :: "bytes \<Rightarrow> bytes" where
  "wr_bytes bs = wr_nat (length bs) @ bs"

definition re_bytes :: "bytes \<Rightarrow> (bytes \<times> bytes) option" where
  "re_bytes bs = map_option (\<lambda>(n, r). (take n r, drop n r)) (re_nat bs)"

lemma re_wr [simp]:
  "re_nat (wr_nat n @ r) = Some (n, r)" "re_int (wr_int i @ r) = Some (i, r)" "re_bytes (wr_bytes b @ r) = Some (b, r)"
proof -
  show n: "re_nat (wr_nat n @ r) = Some (n, r)" for n r by (induction n) (auto simp: wr_nat_def)
  show "re_int (wr_int i @ r) = Some (i, r)" by (simp add: wr_int_def n)
  show "re_bytes (wr_bytes b @ r) = Some (b, r)" by (simp add: wr_bytes_def re_bytes_def n)
qed

definition wr_status :: "result_status \<Rightarrow> bytes" where
  "wr_status st =
     (case st of StatusUnspecified \<Rightarrow> wr_int 0 @ wr_int 0 | StatusOk \<Rightarrow> wr_int 1 @ wr_int 0 | StatusError \<Rightarrow> wr_int 2 @ wr_int 0
      | StatusExpired \<Rightarrow> wr_int 3 @ wr_int 0 | StatusRejected \<Rightarrow> wr_int 4 @ wr_int 0 | StatusOther n \<Rightarrow> wr_int 5 @ wr_int n)"

definition status_of :: "int \<Rightarrow> int \<Rightarrow> result_status" where
  "status_of k n =
     (if k = 0 then StatusUnspecified else if k = 1 then StatusOk else if k = 2 then StatusError
      else if k = 3 then StatusExpired else if k = 4 then StatusRejected else StatusOther n)"

definition demo_codec :: result_codec where
  "demo_codec =
     \<lparr>rc_serialize = (\<lambda>r. wr_bytes (utf8 (tr_id r)) @ wr_bytes (tr_key r) @ wr_int (tr_seq r) @ wr_status (tr_status r) @
        wr_bytes (tr_payload r) @ wr_bytes (utf8 (tr_error r)) @ wr_int (tr_completed r)),
      rc_parse = (\<lambda>bs.
        Option.bind (re_bytes bs) (\<lambda>(i, bs). Option.bind (re_bytes bs) (\<lambda>(k, bs). Option.bind (re_int bs) (\<lambda>(sq, bs).
        Option.bind (re_int bs) (\<lambda>(st, bs). Option.bind (re_int bs) (\<lambda>(so, bs). Option.bind (re_bytes bs) (\<lambda>(pl, bs).
        Option.bind (re_bytes bs) (\<lambda>(e, bs). Option.bind (re_int bs) (\<lambda>(c, bs).
          Some \<lparr>tr_id = of_utf8 i, tr_key = k, tr_seq = sq, tr_status = status_of st so, tr_payload = pl,
            tr_error = of_utf8 e, tr_completed = c\<rparr>)))))))))\<rparr>"

lemma demo_codec_ok: "result_codec_ok demo_codec"
proof -
  have "rc_parse demo_codec (rc_serialize demo_codec r) = Some r" for r
    using re_wr(2)[of "tr_completed r" "[]"]
    by (cases "tr_status r") (simp_all add: demo_codec_def wr_status_def status_of_def)
  moreover have "rc_serialize demo_codec r \<noteq> []" for r by (simp add: demo_codec_def wr_bytes_def wr_nat_def)
  ultimately show ?thesis by (simp add: result_codec_ok_def)
qed

section \<open>Properties\<close>

text \<open>
  The in-memory store is the abstract lease table: claim, complete and release answer as the
  table does and leave a store whose live records from now on are the table's.
\<close>

theorem memory_refines_leases:
  assumes "mem_inv codec now s" and "storable r"
  shows "fst (mem_claim codec now now tok i lease s) = Ok (fst (spec_claim now tok i lease (mem_view codec s))) \<and>
      agree now (mem_view codec (snd (mem_claim codec now now tok i lease s))) (snd (spec_claim now tok i lease (mem_view codec s))) \<and>
      fst (mem_complete codec now now tok i r ttl s) = fst (spec_complete now tok i r ttl (mem_view codec s)) \<and>
      agree now (mem_view codec (snd (mem_complete codec now now tok i r ttl s)))
        (snd (spec_complete now tok i r ttl (mem_view codec s))) \<and>
      fst (mem_release now now tok i s) = fst (spec_release now tok i (mem_view codec s)) \<and>
      agree now (mem_view codec (snd (mem_release now now tok i s))) (snd (spec_release now tok i (mem_view codec s)))"
  using mem.ops_refine(1)[OF assms, of tok i lease] mem.ops_refine(2)[OF assms, of tok i ttl]
    mem.ops_refine(3)[OF assms, of tok i] by (simp add: in_memory_dedup_def)

theorem memory_refines_leases_witness:
  "fst (mem_claim demo_codec 5 5 ''t2'' ''i1'' 10 (snd (mem_claim demo_codec 0 0 ''t1'' ''i1'' 6 []))) = Ok InFlight"
proof -
  have i: "mem_inv demo_codec 5 (snd (mem_claim demo_codec 0 0 ''t1'' ''i1'' 6 []))"
    using demo_codec_ok by (auto simp: mem_inv_def mem_claim_def mem_live_def record_wf_def split: if_splits)
  have "mem_view demo_codec (snd (mem_claim demo_codec 0 0 ''t1'' ''i1'' 6 [])) 5 ''i1'' = Some (Held ''t1'')"
    by (simp add: mem_view_def mem_claim_def mem_live_def record_slot_def)
  then show ?thesis using memory_refines_leases[OF i, of None "''t2''" "''i1''" 10] by (simp add: storable_def spec_claim_def)
qed

text \<open>
  C12: The Redis store, its commands and its two scripts, is the same lease table on any server
  that treats \<open>SET NX PX\<close>, \<open>GET\<close> and \<open>DEL\<close> as documented.
\<close>

theorem redis_refines_leases:
  assumes "redis_documented srv" and "redis_inv srv codec now w" and "storable r"
  shows "fst (redis_claim srv codec now now tok i lease w) = Ok (fst (spec_claim now tok i lease (redis_view srv codec w))) \<and>
      agree now (redis_view srv codec (snd (redis_claim srv codec now now tok i lease w)))
        (snd (spec_claim now tok i lease (redis_view srv codec w))) \<and>
      fst (redis_complete srv codec now now tok i r ttl w) = fst (spec_complete now tok i r ttl (redis_view srv codec w)) \<and>
      agree now (redis_view srv codec (snd (redis_complete srv codec now now tok i r ttl w)))
        (snd (spec_complete now tok i r ttl (redis_view srv codec w))) \<and>
      fst (redis_release srv now now tok i w) = fst (spec_release now tok i (redis_view srv codec w)) \<and>
      agree now (redis_view srv codec (snd (redis_release srv now now tok i w)))
        (snd (spec_release now tok i (redis_view srv codec w)))"
  by (rule redis_documented.redis_ops_refine[OF assms])

theorem redis_refines_leases_witness:
  "fst (redis_release map_server 5 5 ''t1'' ''i1'' [(redis_key ''i1'', (encode_claim ''t1'', 9))]) = True"
proof -
  let ?w = "[(redis_key ''i1'', (encode_claim ''t1'', 9))]"
  have i: "redis_inv map_server demo_codec 5 ?w"
    using demo_codec_ok by (auto simp: redis_inv_def map_server_def row_at_def split: if_splits)
  have v: "redis_view map_server demo_codec ?w 5 ''i1'' = Some (Held ''t1'')"
    by (simp add: redis_view_def map_server_def row_at_def)
  show ?thesis
    using redis_refines_leases[OF redis_map.redis_documented_axioms i, of None "''t1''" "''i1''"]
    by (simp add: v storable_def spec_release_def)
qed

end
