(* ===== verification/Json_Loads.thy ===== *)
theory Json_Loads
  imports Json
begin

text \<open>
  \<open>json.loads\<close> as the effector and the replay tooling use it: the grammar of Python's decoder
  (white space, the non-standard \<open>NaN\<close> and \<open>Infinity\<close>, last-wins duplicate keys, the digit limit of
  \<open>int\<close>), on a text given as its UTF-8 bytes. Reading the text of a float is the parameter
  \<open>parse_float\<close>. The parser takes fuel; a value consumes at least one character for each unit,
  so the length of the text is always enough.
\<close>

section \<open>Scanning\<close>

definition is_json_space :: "char \<Rightarrow> bool" where
  "is_json_space c \<longleftrightarrow> (let n = (of_char c :: nat) in n = 32 \<or> n = 9 \<or> n = 10 \<or> n = 13)"

definition skip_ws :: "string \<Rightarrow> string" where
  "skip_ws s = dropWhile is_json_space s"

definition hex_value :: "char \<Rightarrow> nat option" where
  "hex_value c =
     (let n = (of_char c :: nat) in
      if 48 \<le> n \<and> n \<le> 57 then Some (n - 48)
      else if 97 \<le> n \<and> n \<le> 102 then Some (n - 87)
      else if 65 \<le> n \<and> n \<le> 70 then Some (n - 55)
      else None)"

fun hex4 :: "string \<Rightarrow> (nat \<times> string) option" where
  "hex4 (a # b # c # d # rest) =
     (case (hex_value a, hex_value b, hex_value c, hex_value d) of
        (Some i, Some j, Some k, Some l) \<Rightarrow> Some (((i * 16 + j) * 16 + k) * 16 + l, rest)
      | _ \<Rightarrow> None)"
| "hex4 _ = None"

definition utf8_of :: "nat \<Rightarrow> string" where
  "utf8_of n =
     (if n < 128 then [char_of n]
      else if n < 2048 then [char_of (192 + n div 64), char_of (128 + n mod 64)]
      else if n < 65536 then
        [char_of (224 + n div 4096), char_of (128 + n div 64 mod 64), char_of (128 + n mod 64)]
      else
        [char_of (240 + n div 262144), char_of (128 + n div 4096 mod 64),
         char_of (128 + n div 64 mod 64), char_of (128 + n mod 64)])"

text \<open>The code point of a \<open>\u\<close> escape; a high surrogate joins the low one that follows it.\<close>

definition unicode_escape :: "string \<Rightarrow> (string \<times> string) option" where
  "unicode_escape s =
     (case hex4 s of
        None \<Rightarrow> None
      | Some (n, rest) \<Rightarrow>
          if 55296 \<le> n \<and> n \<le> 56319 \<and> take 2 rest = [CHR 0x5C, CHR ''u''] then
            (case hex4 (drop 2 rest) of
               None \<Rightarrow> None
             | Some (m, rest') \<Rightarrow>
                 if 56320 \<le> m \<and> m \<le> 57343
                 then Some (utf8_of (65536 + (n - 55296) * 1024 + (m - 56320)), rest')
                 else Some (utf8_of n, rest))
          else Some (utf8_of n, rest))"

definition simple_escape :: "char \<Rightarrow> char option" where
  "simple_escape c =
     (let n = (of_char c :: nat) in
      if n = 34 \<or> n = 92 \<or> n = 47 then Some c
      else if c = CHR ''b'' then Some (char_of (8 :: nat))
      else if c = CHR ''f'' then Some (char_of (12 :: nat))
      else if c = CHR ''n'' then Some (char_of (10 :: nat))
      else if c = CHR ''r'' then Some (char_of (13 :: nat))
      else if c = CHR ''t'' then Some (char_of (9 :: nat))
      else None)"

lemma hex4_shrinks: "hex4 s = Some (n, rest) \<Longrightarrow> length rest < length s"
  by (induction s rule: hex4.induct) (auto split: option.splits)

lemma unicode_escape_shrinks: "unicode_escape s = Some (u, rest) \<Longrightarrow> length rest < length s"
proof -
  assume u: "unicode_escape s = Some (u, rest)"
  obtain n r where h: "hex4 s = Some (n, r)" using u by (auto simp: unicode_escape_def split: option.splits)
  have "rest = r \<or> (\<exists>m. hex4 (drop 2 r) = Some (m, rest))"
    using u h by (auto simp: unicode_escape_def split: if_splits option.splits)
  then show ?thesis using hex4_shrinks[OF h] by (auto dest!: hex4_shrinks)
qed

function scan_string :: "string \<Rightarrow> (string \<times> string) res" where
  "scan_string [] = Err JSONDecodeError"
| "scan_string (c # cs) =
     (if c = CHR 0x22 then Ok ([], cs)
      else if c = CHR 0x5C then
        (case cs of
           [] \<Rightarrow> Err JSONDecodeError
         | e # ds \<Rightarrow>
             if e = CHR ''u'' then
               (case unicode_escape ds of
                  None \<Rightarrow> Err JSONDecodeError
                | Some (u, rest) \<Rightarrow> bindE (scan_string rest) (\<lambda>(s, r). Ok (u @ s, r)))
             else
               (case simple_escape e of
                  None \<Rightarrow> Err JSONDecodeError
                | Some d \<Rightarrow> bindE (scan_string ds) (\<lambda>(s, r). Ok (d # s, r))))
      else if (of_char c :: nat) < 32 then Err JSONDecodeError
      else bindE (scan_string cs) (\<lambda>(s, r). Ok (c # s, r)))"
  by pat_completeness auto

termination
  by (relation "measure length") (auto dest: unicode_escape_shrinks)

text \<open>
  A number: sign, integer part, fraction and exponent. \<open>int\<close> refuses more than 4300 digits with a
  \<open>ValueError\<close> that is not a \<open>JSONDecodeError\<close>.
\<close>

definition MAX_STR_DIGITS :: nat where "MAX_STR_DIGITS = 4300"

definition span_digits :: "string \<Rightarrow> string \<times> string" where
  "span_digits s = (takeWhile is_digit s, dropWhile is_digit s)"

definition int_part :: "string \<Rightarrow> (string \<times> string) option" where
  "int_part s =
     (case s of
        [] \<Rightarrow> None
      | c # cs \<Rightarrow>
          if c = CHR ''0'' then Some ([c], cs)
          else if is_digit c then Some (span_digits s)
          else None)"

definition frac_part :: "string \<Rightarrow> string \<times> string" where
  "frac_part s =
     (case s of
        [] \<Rightarrow> ([], s)
      | c # cs \<Rightarrow>
          if c = CHR ''.'' \<and> fst (span_digits cs) \<noteq> []
          then (c # fst (span_digits cs), snd (span_digits cs)) else ([], s))"

definition exp_part :: "string \<Rightarrow> string \<times> string" where
  "exp_part s =
     (case s of
        [] \<Rightarrow> ([], s)
      | c # cs \<Rightarrow>
          if c = CHR ''e'' \<or> c = CHR ''E'' then
            (let sign = (case cs of [] \<Rightarrow> [] | d # _ \<Rightarrow> if d = CHR ''+'' \<or> d = CHR ''-'' then [d] else []);
                 (ds, rest) = span_digits (drop (length sign) cs) in
             if ds \<noteq> [] then (c # sign @ ds, rest) else ([], s))
          else ([], s))"

definition scan_number :: "(string \<Rightarrow> json) \<Rightarrow> string \<Rightarrow> (json \<times> string) res" where
  "scan_number parse_float s =
     (let neg = (take 1 s = ''-''); body = (if neg then drop 1 s else s) in
      case int_part body of
        None \<Rightarrow> Err JSONDecodeError
      | Some (digits, r1) \<Rightarrow>
          (let (frac, r2) = frac_part r1; (ex, r3) = exp_part r2 in
           if frac \<noteq> [] \<or> ex \<noteq> [] then
             Ok (parse_float ((if neg then ''-'' else []) @ digits @ frac @ ex), r3)
           else if MAX_STR_DIGITS < length digits then Err ValueError
           else Ok (JInt ((if neg then - 1 else 1) * int (read_nat digits 0)), r3)))"

section \<open>Values\<close>

definition literals :: "(string \<times> json) list" where
  "literals = [(''null'', JNull), (''true'', JBool True), (''false'', JBool False), (''NaN'', JNaN),
     (''Infinity'', JNaN), (''-Infinity'', JNaN)]"

definition scan_literal :: "string \<Rightarrow> (json \<times> string) option" where
  "scan_literal s =
     (case find (\<lambda>(word, v). prefix word s) literals of
        None \<Rightarrow> None
      | Some (word, v) \<Rightarrow> Some (v, drop (length word) s))"

fun parse_value :: "(string \<Rightarrow> json) \<Rightarrow> nat \<Rightarrow> string \<Rightarrow> (json \<times> string) res"
and parse_items :: "(string \<Rightarrow> json) \<Rightarrow> nat \<Rightarrow> string \<Rightarrow> (json list \<times> string) res"
and parse_members ::
    "(string \<Rightarrow> json) \<Rightarrow> nat \<Rightarrow> (string, json) dict \<Rightarrow> string \<Rightarrow> ((string, json) dict \<times> string) res" where
  "parse_value pf 0 s = Err JSONDecodeError"
| "parse_value pf (Suc n) s =
     (case s of
        [] \<Rightarrow> Err JSONDecodeError
      | c # cs \<Rightarrow>
          if c = CHR 0x22 then bindE (scan_string cs) (\<lambda>(x, r). Ok (JStr x, r))
          else if c = CHR ''{'' then
            (case skip_ws cs of
               [] \<Rightarrow> Err JSONDecodeError
             | d # ds \<Rightarrow>
                 if d = CHR ''}'' then Ok (JObj [], ds)
                 else bindE (parse_members pf n [] (d # ds)) (\<lambda>(kvs, r). Ok (JObj kvs, r)))
          else if c = CHR ''['' then
            (case skip_ws cs of
               [] \<Rightarrow> Err JSONDecodeError
             | d # ds \<Rightarrow>
                 if d = CHR '']'' then Ok (JList [], ds)
                 else bindE (parse_items pf n (d # ds)) (\<lambda>(xs, r). Ok (JList xs, r)))
          else (case scan_literal s of Some (v, r) \<Rightarrow> Ok (v, r) | None \<Rightarrow> scan_number pf s))"
| "parse_items pf 0 s = Err JSONDecodeError"
| "parse_items pf (Suc n) s =
     bindE (parse_value pf n s) (\<lambda>(v, r).
       case skip_ws r of
         [] \<Rightarrow> Err JSONDecodeError
       | d # ds \<Rightarrow>
           if d = CHR '']'' then Ok ([v], ds)
           else if d = CHR '','' then bindE (parse_items pf n (skip_ws ds)) (\<lambda>(vs, r'). Ok (v # vs, r'))
           else Err JSONDecodeError)"
| "parse_members pf 0 kvs s = Err JSONDecodeError"
| "parse_members pf (Suc n) kvs s =
     (case s of
        [] \<Rightarrow> Err JSONDecodeError
      | c # cs \<Rightarrow>
          if c \<noteq> CHR 0x22 then Err JSONDecodeError
          else bindE (scan_string cs) (\<lambda>(k, r1).
            case skip_ws r1 of
              [] \<Rightarrow> Err JSONDecodeError
            | d # ds \<Rightarrow>
                if d \<noteq> CHR '':'' then Err JSONDecodeError
                else bindE (parse_value pf n (skip_ws ds)) (\<lambda>(v, r2).
                  case skip_ws r2 of
                    [] \<Rightarrow> Err JSONDecodeError
                  | e # es \<Rightarrow>
                      if e = CHR ''}'' then Ok (AList.update k v kvs, es)
                      else if e = CHR '','' then parse_members pf n (AList.update k v kvs) (skip_ws es)
                      else Err JSONDecodeError)))"

definition BOM :: string where "BOM = [CHR 0xEF, CHR 0xBB, CHR 0xBF]"

definition json_loads :: "(string \<Rightarrow> json) \<Rightarrow> string \<Rightarrow> json res" where
  "json_loads pf s =
     (if prefix BOM s then Err JSONDecodeError
      else bindE (parse_value pf (2 * length s) (skip_ws s)) (\<lambda>(v, r).
        if skip_ws r = [] then Ok v else Err JSONDecodeError))"

section \<open>Fuel\<close>

lemma skip_ws_length: "length (skip_ws s) \<le> length s"
  by (simp add: skip_ws_def length_dropWhile_le)

lemma scan_string_shrinks: "scan_string s = Ok (x, r) \<Longrightarrow> length r < length s"
proof (induction s arbitrary: x r rule: scan_string.induct)
  case (2 c cs)
  note IH = 2(1-3) and run = 2(4)
  show ?case
  proof (cases "c = CHR 0x5C")
    case True
    then obtain e ds where cs: "cs = e # ds" using run by (cases cs) auto
    have c: "c \<noteq> CHR 0x22" using True by simp
    show ?thesis
    proof (cases "e = CHR ''u''")
      case u: True
      obtain v rest y where v: "unicode_escape ds = Some (v, rest)" and y: "scan_string rest = Ok (y, r)"
        using run True cs u by (auto split: option.splits)
      have "length r < length rest" using IH(1)[OF c True cs u v refl y] .
      then show ?thesis using cs unicode_escape_shrinks[OF v] by simp
    next
      case u: False
      obtain d y where d: "simple_escape e = Some d" and y: "scan_string ds = Ok (y, r)"
        using run True cs u by (auto split: option.splits)
      have "length r < length ds" using IH(2)[OF c True cs u d y] .
      then show ?thesis using cs by simp
    qed
  next
    case False
    then show ?thesis using IH(3) run by (fastforce split: if_splits)
  qed
qed simp

lemma span_digits_length: "span_digits s = (d, r) \<Longrightarrow> length r \<le> length s"
  by (auto simp: span_digits_def length_dropWhile_le)

lemma int_part_length: "int_part s = Some (d, r) \<Longrightarrow> length r < length s"
  by (auto simp: int_part_def span_digits_def less_Suc_eq_le length_dropWhile_le split: list.splits if_splits)

lemma frac_part_length: "frac_part s = (f, r) \<Longrightarrow> length r \<le> length s"
  by (auto simp: frac_part_def span_digits_def le_SucI length_dropWhile_le split: list.splits if_splits)

lemma exp_part_length: "exp_part s = (f, r) \<Longrightarrow> length r \<le> length s"
proof -
  assume e: "exp_part s = (f, r)"
  have "length (dropWhile is_digit t) \<le> Suc (Suc (length t))" "length (dropWhile is_digit t) \<le> Suc (length t)" for t
    using length_dropWhile_le[of is_digit t] by simp_all
  then show ?thesis using e
    by (auto simp: exp_part_def span_digits_def Let_def split: list.splits if_splits)
qed

lemma scan_number_shrinks: "scan_number pf s = Ok (v, r) \<Longrightarrow> length r < length s"
proof -
  assume n: "scan_number pf s = Ok (v, r)"
  let ?b = "if take 1 s = ''-'' then drop 1 s else s"
  obtain d r1 where i: "int_part ?b = Some (d, r1)" using n by (auto simp: scan_number_def Let_def split: option.splits)
  obtain f r2 where fr: "frac_part r1 = (f, r2)" by (cases "frac_part r1")
  obtain e r3 where ex: "exp_part r2 = (e, r3)" by (cases "exp_part r2")
  have "r = r3" using n i fr ex by (auto simp: scan_number_def Let_def split: if_splits)
  moreover have "length ?b \<le> length s" by simp
  moreover note int_part_length[OF i] frac_part_length[OF fr] exp_part_length[OF ex]
  ultimately show ?thesis by (metis le_less_trans less_le_trans order_trans)
qed

lemma scan_literal_shrinks: "scan_literal s = Some (v, r) \<Longrightarrow> length r < length s"
  by (auto simp: scan_literal_def literals_def prefix_def split: option.splits if_splits)

lemma parse_shrinks:
  "parse_value pf n s = Ok (v, r) \<Longrightarrow> length r < length s"
  "parse_items pf n s = Ok (vs, r) \<Longrightarrow> length r < length s"
  "parse_members pf n kvs s = Ok (kvs', r) \<Longrightarrow> length r < length s"
proof (induction pf n s and pf n s and pf n kvs s arbitrary: v r and vs r and kvs' r
    rule: parse_value_parse_items_parse_members.induct)
  case (2 pf n s)
  then obtain c cs where s: "s = c # cs" by (cases s) auto
  have ws: "length ds < length cs" if "skip_ws cs = d # ds" for d ds
    using skip_ws_length[of cs] that by simp
  consider (str) "c = CHR 0x22" | (obj) "c = CHR ''{''" | (list) "c = CHR ''[''"
    | (other) "c \<noteq> CHR 0x22" "c \<noteq> CHR ''{''" "c \<noteq> CHR ''[''" by blast
  then show ?case
  proof cases
    case str
    then show ?thesis using 2(3) s by (auto dest: scan_string_shrinks)
  next
    case obj
    show ?thesis
    proof (cases "skip_ws cs")
      case (Cons d ds)
      then show ?thesis using 2(1)[OF s _ obj Cons] 2(3) s obj ws[OF Cons] by (fastforce split: if_splits)
    qed (use 2(3) s obj in simp)
  next
    case list
    show ?thesis
    proof (cases "skip_ws cs")
      case (Cons d ds)
      then show ?thesis using 2(2)[OF s _ _ list Cons] 2(3) s list ws[OF Cons] by (fastforce split: if_splits)
    qed (use 2(3) s list in simp)
  next
    case other
    then show ?thesis using 2(3) s
      by (auto split: option.splits dest: scan_literal_shrinks scan_number_shrinks)
  qed
next
  case (4 pf n s)
  obtain x r1 where x: "parse_value pf n s = Ok (x, r1)" using 4(3) by auto
  obtain d ds where d: "skip_ws r1 = d # ds" using 4(3) x by (cases "skip_ws r1") auto
  have "length ds < length s" using 4(1)[OF x] skip_ws_length[of r1] d by simp
  then have small: "length (skip_ws ds) < length s" using skip_ws_length[of ds] by linarith
  show ?case
  proof (cases "d = CHR '']''")
    case True
    then show ?thesis using 4(3) x d \<open>length ds < length s\<close> by simp
  next
    case False
    then have c: "d = CHR '',''" using 4(3) x d by (auto split: if_splits)
    obtain ys where "parse_items pf n (skip_ws ds) = Ok (ys, r)" using 4(3) x d c by auto
    then have "length r < length (skip_ws ds)" by (rule 4(2)[OF d False c])
    then show ?thesis using small by simp
  qed
next
  case (6 pf n kvs s)
  obtain c cs where s: "s = c # cs" using 6(3) by (cases s) auto
  obtain k r1 where k: "scan_string cs = Ok (k, r1)" using 6(3) s by (auto split: if_splits)
  have c: "\<not> c \<noteq> CHR 0x22" using 6(3) s by (auto split: if_splits)
  obtain d ds where d: "skip_ws r1 = d # ds" using 6(3) s k c by (cases "skip_ws r1") auto
  have dc: "\<not> d \<noteq> CHR '':''" using 6(3) s k c d by (auto split: if_splits)
  obtain x r2 where x: "parse_value pf n (skip_ws ds) = Ok (x, r2)" using 6(3) s k c d dc by auto
  obtain e es where e: "skip_ws r2 = e # es" using 6(3) s k c d dc x by (cases "skip_ws r2") auto
  have "length r2 < length (skip_ws ds)" by (rule 6(1)[OF s c d dc x])
  moreover have "length s = Suc (length cs)" "Suc (length ds) = length (skip_ws r1)" "Suc (length es) = length (skip_ws r2)"
    by (simp_all add: s d e)
  ultimately have small: "length es < length s"
    using scan_string_shrinks[OF k] skip_ws_length[of r1] skip_ws_length[of ds] skip_ws_length[of r2] by linarith
  show ?case
  proof (cases "e = CHR ''}''")
    case True
    then show ?thesis using 6(3) s k d x e c dc small by simp
  next
    case False
    then have "e = CHR '',''" using 6(3) s k d x e c dc by (auto split: if_splits)
    then have "parse_members pf n (AList.update k x kvs) (skip_ws es) = Ok (kvs', r)"
      using 6(3) s k d x e c dc by simp
    then have "length r < length (skip_ws es)" by (rule 6(2)[OF s c d dc e False \<open>e = CHR '',''\<close>])
    then show ?thesis using skip_ws_length[of es] small by linarith
  qed
qed (simp_all)

lemma bindE_same: "(\<And>x. m = Ok x \<Longrightarrow> f x = g x) \<Longrightarrow> bindE m f = bindE m g"
  by (cases m) auto

text \<open>More fuel than twice the length of the text changes nothing.\<close>

lemma parse_fuel:
  "(2 * length s \<le> n \<longrightarrow> parse_value pf (Suc n) s = parse_value pf n s) \<and>
   (2 * length t + 1 \<le> n \<longrightarrow> parse_items pf (Suc n) t = parse_items pf n t) \<and>
   (2 * length u + 1 \<le> n \<longrightarrow> parse_members pf (Suc n) kvs u = parse_members pf n kvs u)"
proof (induction n arbitrary: s t u kvs)
  case 0
  then show ?case by (cases s) auto
next
  case (Suc k)
  note value_eq = Suc[THEN conjunct1, rule_format]
    and items_eq = Suc[THEN conjunct2, THEN conjunct1, rule_format]
    and members_eq = Suc[THEN conjunct2, THEN conjunct2, rule_format]
  have v: "parse_value pf (Suc (Suc k)) s = parse_value pf (Suc k) s" if b: "2 * length s \<le> Suc k"
  proof (cases s)
    case (Cons c cs)
    have small: "2 * length (d # ds) + 1 \<le> k" if "skip_ws cs = d # ds" for d ds
    proof -
      have "length (d # ds) \<le> length cs" using skip_ws_length[of cs] that by simp
      then show ?thesis using b Cons by simp
    qed
    have "parse_members pf (Suc k) [] (d # ds) = parse_members pf k [] (d # ds)"
        "parse_items pf (Suc k) (d # ds) = parse_items pf k (d # ds)" if "skip_ws cs = d # ds" for d ds
      by (rule members_eq[OF small[OF that]], rule items_eq[OF small[OF that]])
    then show ?thesis using Cons
      by (subst (1 2) parse_value.simps) (auto simp del: parse_items.simps parse_members.simps split: list.splits)
  qed simp
  have i: "parse_items pf (Suc (Suc k)) t = parse_items pf (Suc k) t" if b: "2 * length t + 1 \<le> Suc k"
  proof -
    have "parse_value pf (Suc k) t = parse_value pf k t" using b by (intro value_eq) simp
    moreover have "parse_items pf (Suc k) (skip_ws ds) = parse_items pf k (skip_ws ds)"
      if "parse_value pf k t = Ok (x, r)" and "skip_ws r = d # ds" for x r d ds
    proof (rule items_eq)
      have "Suc (length ds) \<le> length r" using skip_ws_length[of r] that(2) by simp
      then show "2 * length (skip_ws ds) + 1 \<le> k"
        using parse_shrinks(1)[OF that(1)] skip_ws_length[of ds] b by linarith
    qed
    ultimately show ?thesis
      by (cases "parse_value pf k t")
        (auto simp del: parse_value.simps simp: parse_items.simps(2) split: list.splits)
  qed
  have m: "parse_members pf (Suc (Suc k)) kvs u = parse_members pf (Suc k) kvs u" if b: "2 * length u + 1 \<le> Suc k"
  proof (cases u)
    case (Cons c cs)
    have "parse_value pf (Suc k) (skip_ws ds) = parse_value pf k (skip_ws ds) \<and>
        (\<forall>x r2 e es l. parse_value pf k (skip_ws ds) = Ok (x, r2) \<longrightarrow> skip_ws r2 = e # es \<longrightarrow>
          parse_members pf (Suc k) l (skip_ws es) = parse_members pf k l (skip_ws es))"
      if k: "scan_string cs = Ok (q, r1)" and d: "skip_ws r1 = d # ds" for q r1 d ds
    proof -
      have "Suc (length ds) \<le> length r1" using skip_ws_length[of r1] d by simp
      then have ds: "length (skip_ws ds) < length cs"
        using scan_string_shrinks[OF k] skip_ws_length[of ds] by linarith
      have "2 * length (skip_ws es) + 1 \<le> k" if "parse_value pf k (skip_ws ds) = Ok (x, r2)" "skip_ws r2 = e # es" for x r2 e es
      proof -
        have "Suc (length es) \<le> length r2" using skip_ws_length[of r2] that(2) by simp
        moreover have "length u = Suc (length cs)" using Cons by simp
        ultimately show ?thesis using parse_shrinks(1)[OF that(1)] skip_ws_length[of es] ds b by linarith
      qed
      then show ?thesis using ds b Cons
        by (auto simp del: parse_value.simps parse_members.simps intro!: value_eq members_eq)
    qed
    then show ?thesis
      unfolding Cons parse_members.simps(2)[of pf "Suc k" kvs "c # cs"] parse_members.simps(2)[of pf k kvs "c # cs"]
      by (auto simp del: parse_value.simps parse_members.simps intro!: bindE_same split: list.splits)
  qed simp
  show ?case using v i m by blast
qed

section \<open>Canonical texts read back\<close>

lemma hex_value_digit: "k < 16 \<Longrightarrow> hex_value (hex_digit k) = Some k"
  by (simp add: hex_value_def of_char_hex_digit)

lemma char_code: "(of_char c :: nat) = n \<Longrightarrow> c = char_of n"
  by auto

lemma simple_escapes:
  "simple_escape (char_of (34 :: nat)) = Some (char_of (34 :: nat))"
  "simple_escape (char_of (92 :: nat)) = Some (char_of (92 :: nat))"
  "simple_escape (CHR ''n'') = Some (char_of (10 :: nat))" "simple_escape (CHR ''r'') = Some (char_of (13 :: nat))"
  "simple_escape (CHR ''t'') = Some (char_of (9 :: nat))" "simple_escape (CHR ''b'') = Some (char_of (8 :: nat))"
  "simple_escape (CHR ''f'') = Some (char_of (12 :: nat))"
  by (simp_all add: simple_escape_def)

lemma unicode_control:
  assumes "n < 32"
  shows "unicode_escape (''00'' @ hex_digit (n div 16) # hex_digit (n mod 16) # t) = Some ([char_of n], t)"
proof -
  have z: "hex_value (CHR ''0'') = Some 0" by (simp add: hex_value_def)
  have "hex_value (hex_digit (n div 16)) = Some (n div 16)" "hex_value (hex_digit (n mod 16)) = Some (n mod 16)"
    using assms by (intro hex_value_digit, simp)+
  moreover have "n div 16 * 16 + n mod 16 = n" by simp
  ultimately show ?thesis using assms by (simp add: unicode_escape_def z utf8_of_def)
qed

lemma char_names: "char_of (34 :: nat) = CHR 0x22" "char_of (92 :: nat) = CHR 0x5C"
  by (simp_all add: char_of_def bit_0)

lemma scan_escaped: "scan_string (escape_char c @ t) = bindE (scan_string t) (\<lambda>(s, r). Ok (c # s, r))"
proof -
  define n where "n = (of_char c :: nat)"
  have c: "c = char_of n" and n256: "n < 256" by (simp_all add: n_def)
  consider "n \<in> {34, 92, 10, 13, 9, 8, 12}" | (control) "n < 32" "n \<notin> {10, 13, 9, 8, 12}"
    | (plain) "32 \<le> n" "n \<noteq> 34" "n \<noteq> 92" by force
  then show ?thesis
  proof cases
    case 1
    then show ?thesis using simple_escapes by (auto simp: escape_char_def c char_names split: if_splits)
  next
    case control
    have "escape_char c = [char_of (92 :: nat)] @ ''u00'' @ [hex_digit (n div 16), hex_digit (n mod 16)]"
      using control by (simp add: escape_char_def n_def[symmetric] Let_def)
    then show ?thesis using unicode_control[OF control(1), of t] by (simp add: c char_names)
  next
    case plain
    have "escape_char c = [c]" using plain by (simp add: escape_char_def n_def[symmetric] Let_def)
    moreover have "c \<noteq> CHR 0x22" "c \<noteq> CHR 0x5C" using plain by (auto simp: n_def)
    ultimately show ?thesis using plain by (simp add: n_def)
  qed
qed

lemma scan_quoted: "scan_string (concat (map escape_char s) @ CHR 0x22 # rest) = Ok (s, rest)"
  by (induction s) (simp_all add: scan_escaped)

lemma quote_shape: "quote s = CHR 0x22 # concat (map escape_char s) @ [CHR 0x22]"
  by (simp add: quote_def char_names)

text \<open>What may follow a number without being read as part of it.\<close>

definition number_end :: "string \<Rightarrow> bool" where
  "number_end rest \<longleftrightarrow>
     (case rest of [] \<Rightarrow> True | c # _ \<Rightarrow> \<not> is_digit c \<and> c \<notin> set ''.eE+-'')"

lemma span_digits_append:
  assumes "number_end rest"
  shows "span_digits (s @ rest) = (fst (span_digits s), snd (span_digits s) @ rest)"
  using assms by (induction s) (auto simp: span_digits_def number_end_def split: list.splits)

lemma int_part_append:
  "\<lbrakk>int_part s = Some (d, r); number_end rest\<rbrakk> \<Longrightarrow> int_part (s @ rest) = Some (d, r @ rest)"
  using span_digits_append[of rest s] by (auto simp: int_part_def split: list.splits if_splits)

lemma frac_part_append:
  "number_end rest \<Longrightarrow> frac_part (s @ rest) = (fst (frac_part s), snd (frac_part s) @ rest)"
  by (cases s) (auto simp: frac_part_def span_digits_append number_end_def split: list.splits)

lemma exp_part_append:
  assumes "number_end rest"
  shows "exp_part (s @ rest) = (fst (exp_part s), snd (exp_part s) @ rest)"
proof (cases s)
  case Nil
  then show ?thesis using assms by (auto simp: exp_part_def number_end_def split: list.splits)
next
  case (Cons c cs)
  show ?thesis
  proof (cases cs)
    case Nil
    have "fst (span_digits rest) = []" using assms by (auto simp: span_digits_def number_end_def split: list.splits)
    then show ?thesis using assms Cons Nil
      by (auto simp: exp_part_def number_end_def span_digits_def Let_def split: list.splits prod.splits)
  next
    case (Cons d ds)
    then show ?thesis using span_digits_append[OF assms, of "d # ds"] span_digits_append[OF assms, of ds] \<open>s = c # cs\<close>
      by (auto simp: exp_part_def Let_def split: prod.splits)
  qed
qed

lemma scan_number_append:
  assumes "scan_number pf s = Ok (v, r)" and "number_end rest"
  shows "scan_number pf (s @ rest) = Ok (v, r @ rest)"
proof -
  let ?b = "if take 1 s = ''-'' then drop 1 s else s"
  obtain d r1 where i: "int_part ?b = Some (d, r1)"
    using assms(1) by (auto simp: scan_number_def Let_def split: option.splits)
  have "s \<noteq> []" using i by (auto simp: int_part_def)
  then have t: "take 1 (s @ rest) = take 1 s" "drop 1 (s @ rest) = drop 1 s @ rest" by (cases s; simp)+
  have "int_part (?b @ rest) = Some (d, r1 @ rest)" by (rule int_part_append[OF i assms(2)])
  then show ?thesis using assms i t
    by (auto simp: scan_number_def Let_def frac_part_append exp_part_append split: prod.splits if_splits)
qed

text \<open>The value a canonical text stands for: the members of every object in key order.\<close>

function canon :: "json \<Rightarrow> json" where
  "canon JNull = JNull"
| "canon (JBool b) = JBool b"
| "canon (JInt i) = JInt i"
| "canon (JFloat r) = JFloat r"
| "canon JNaN = JNaN"
| "canon (JStr s) = JStr s"
| "canon (JList xs) = JList (map canon xs)"
| "canon (JObj kvs) = JObj (map (\<lambda>kv. (fst kv, canon (snd kv))) (sort_key fst kvs))"
| "canon JOpaque = JOpaque"
  by pat_completeness auto

termination
  by (relation "measure size") (auto simp: json_element_size dest: json_member_size)

text \<open>A value \<open>json.dumps\<close> can write and \<open>json.loads\<close> read: its integers have at most 4300 digits and
  its floats are written as \<open>parse_float\<close> reads them.\<close>

function readable :: "(string \<Rightarrow> json) \<Rightarrow> json \<Rightarrow> bool" where
  "readable pf JNull \<longleftrightarrow> True"
| "readable pf (JBool b) \<longleftrightarrow> True"
| "readable pf (JInt i) \<longleftrightarrow> length (dec_nat (nat \<bar>i\<bar>)) \<le> MAX_STR_DIGITS"
| "readable pf (JFloat r) \<longleftrightarrow> scan_number pf r = Ok (JFloat r, [])"
| "readable pf JNaN \<longleftrightarrow> False"
| "readable pf (JStr s) \<longleftrightarrow> True"
| "readable pf (JList xs) \<longleftrightarrow> (\<forall>x \<in> set xs. readable pf x)"
| "readable pf (JObj kvs) \<longleftrightarrow> distinct_keys kvs \<and> (\<forall>kv \<in> set kvs. readable pf (snd kv))"
| "readable pf JOpaque \<longleftrightarrow> False"
  by pat_completeness auto

termination
  by (relation "measure (\<lambda>(pf, v). size v)") (auto simp: json_element_size dest: json_member_size)

lemma dec_nat_head: "hd (dec_nat n) = CHR ''0'' \<longleftrightarrow> n = 0"
proof (induction n rule: dec_nat.induct)
  case (1 n)
  show ?case
  proof (cases "n < 10")
    case True
    have "digit_char n = CHR ''0'' \<longleftrightarrow> (of_char (digit_char n) :: nat) = of_char (CHR ''0'')" by (simp only: of_char_eq_iff)
    then have "digit_char n = CHR ''0'' \<longleftrightarrow> n = 0" using True by (simp add: of_char_digit)
    then show ?thesis using True by (subst dec_nat.simps) simp
  next
    case False
    then show ?thesis using 1 by (subst dec_nat.simps) (auto simp: hd_append)
  qed
qed

lemma int_part_dec: "int_part (dec_nat n) = Some (dec_nat n, [])"
proof (cases "n = 0")
  case True
  then show ?thesis by (simp add: dec_nat.simps[of 0] int_part_def digit_char_def char_of_def bit_0)
next
  case False
  obtain c cs where d: "dec_nat n = c # cs" using dec_nat_not_Nil by (cases "dec_nat n") auto
  have "c \<noteq> CHR ''0''" using dec_nat_head[of n] False d by simp
  moreover have "\<forall>x \<in> set (dec_nat n). is_digit x" using dec_nat_digits by blast
  ultimately show ?thesis unfolding int_part_def span_digits_def d by simp
qed

lemma dec_nat_not_minus: "take 1 (dec_nat n) \<noteq> ''-''"
  using dec_nat_no_minus[of n] by (cases "dec_nat n") auto

lemma scan_dec:
  assumes "length (dec_nat (nat \<bar>i\<bar>)) \<le> MAX_STR_DIGITS"
  shows "scan_number pf (dec i) = Ok (JInt i, [])"
proof (cases "i < 0")
  case True
  then show ?thesis using assms
    by (simp add: scan_number_def dec_def int_part_dec frac_part_def exp_part_def read_dec_nat Let_def)
next
  case False
  then show ?thesis using assms dec_nat_not_minus[of "nat i"]
    by (simp add: scan_number_def dec_def int_part_dec frac_part_def exp_part_def read_dec_nat Let_def)
qed

lemma scan_number_head:
  assumes "scan_number pf s = Ok (v, r)"
  obtains c cs where "s = c # cs" "is_digit c" | c cs where "s = CHR ''-'' # c # cs" "is_digit c"
proof -
  let ?b = "if take 1 s = ''-'' then drop 1 s else s"
  obtain d r1 where "int_part ?b = Some (d, r1)"
    using assms by (auto simp: scan_number_def Let_def split: option.splits)
  then obtain c cs where b: "?b = c # cs" "is_digit c"
    by (auto simp: int_part_def is_digit_def split: list.splits if_splits)
  show ?thesis
  proof (cases "take 1 s = ''-''")
    case True
    then have "s = CHR ''-'' # c # cs" using b(1) by (cases s) auto
    then show ?thesis using that(2) b(2) by blast
  next
    case False
    then show ?thesis using that(1) b by simp
  qed
qed

lemma digit_not:
  "is_digit c \<Longrightarrow> c \<noteq> CHR 0x22 \<and> c \<noteq> CHR ''{'' \<and> c \<noteq> CHR ''['' \<and> c \<noteq> CHR ''n'' \<and> c \<noteq> CHR ''t'' \<and> c \<noteq> CHR ''f'' \<and>
    c \<noteq> CHR ''N'' \<and> c \<noteq> CHR ''I'' \<and> c \<noteq> CHR '']'' \<and> c \<noteq> CHR ''}'' \<and> c \<noteq> CHR ''-'' \<and> \<not> is_json_space c"
  by (auto simp: is_digit_def is_json_space_def Let_def)

lemma scan_literal_head:
  "c \<notin> set ''ntfNI-'' \<Longrightarrow> scan_literal (c # s) = None"
  "c \<noteq> CHR ''I'' \<Longrightarrow> scan_literal (CHR ''-'' # c # s) = None"
  by (auto simp: scan_literal_def literals_def)

lemma parse_number_text:
  assumes "scan_number pf s = Ok (v, [])" and "number_end rest" and "2 * length s \<le> n"
  shows "parse_value pf n (s @ rest) = Ok (v, rest)"
proof -
  obtain m where n: "n = Suc m" using assms(1,3) scan_number_shrinks[OF assms(1)] by (cases n) auto
  have sc: "scan_number pf (s @ rest) = Ok (v, rest)" using scan_number_append[OF assms(1,2)] by simp
  show ?thesis
  proof (rule scan_number_head[OF assms(1)])
    fix c cs assume s: "s = c # cs" and c: "is_digit c"
    have "scan_literal (c # cs @ rest) = None" using digit_not[OF c] by (intro scan_literal_head) simp
    then show ?thesis using digit_not[OF c] sc by (simp add: n s)
  next
    fix c cs assume s: "s = CHR ''-'' # c # cs" and c: "is_digit c"
    have "scan_literal (CHR ''-'' # c # cs @ rest) = None" using digit_not[OF c] by (intro scan_literal_head) simp
    then show ?thesis using sc by (simp add: n s)
  qed
qed

definition value_text :: "(string \<Rightarrow> json) \<Rightarrow> json \<Rightarrow> string \<Rightarrow> bool" where
  "value_text pf v d \<longleftrightarrow>
     (\<forall>rest n. number_end rest \<longrightarrow> 2 * length d \<le> n \<longrightarrow> parse_value pf n (d @ rest) = Ok (v, rest)) \<and>
     (\<exists>c cs. d = c # cs \<and> \<not> is_json_space c \<and> c \<noteq> CHR '']'' \<and> c \<noteq> CHR ''}'' \<and> (of_char c :: nat) < 128)"

lemma value_text_ws: "value_text pf v d \<Longrightarrow> skip_ws (d @ rest) = d @ rest"
  by (auto simp: value_text_def skip_ws_def)

lemma number_end_seps [simp]: "number_end (CHR '','' # t)" "number_end (CHR '']'' # t)" "number_end (CHR ''}'' # t)" "number_end []"
  by (simp_all add: number_end_def is_digit_def)

lemma parse_items_text:
  "\<lbrakk>list_all2 (value_text pf) vs ds; ds \<noteq> []; 2 * length (intercalate '','' ds) + 1 \<le> n\<rbrakk>
   \<Longrightarrow> parse_items pf n (intercalate '','' ds @ CHR '']'' # rest) = Ok (vs, rest)"
proof (induction vs ds arbitrary: n rule: list_all2_induct)
  case (Cons v vs d ds)
  obtain m where n: "n = Suc m" using Cons.prems(2) by (cases n) auto
  have ws: "skip_ws (CHR '']'' # t) = CHR '']'' # t" "skip_ws (CHR '','' # t) = CHR '','' # t" for t
    by (simp_all add: skip_ws_def is_json_space_def)
  show ?case
  proof (cases ds)
    case Nil
    then have "parse_value pf m (d @ CHR '']'' # rest) = Ok (v, CHR '']'' # rest)"
      using Cons(1) Cons.prems(2) n unfolding value_text_def by simp
    then show ?thesis using Nil Cons(2) n ws by simp
  next
    case (Cons e es)
    have "parse_value pf m (d @ CHR '','' # intercalate '','' ds @ CHR '']'' # rest) =
        Ok (v, CHR '','' # intercalate '','' ds @ CHR '']'' # rest)"
      using \<open>value_text pf v d\<close> Cons.prems(2) n Cons unfolding value_text_def by simp
    moreover obtain w ws' where "vs = w # ws'" "value_text pf w e" using \<open>list_all2 _ vs ds\<close> Cons by (cases vs) auto
    then have "skip_ws (intercalate '','' ds @ t) = intercalate '','' ds @ t" for t
      using value_text_ws[of pf w e] Cons by (cases es) simp_all
    moreover have "parse_items pf m (intercalate '','' ds @ CHR '']'' # rest) = Ok (vs, rest)"
      using Cons.prems(2) n Cons by (intro Cons.IH) auto
    ultimately show ?thesis using Cons n ws by simp
  qed
qed simp

definition member_text :: "(string \<Rightarrow> json) \<Rightarrow> string \<times> json \<Rightarrow> string \<Rightarrow> bool" where
  "member_text pf kv m \<longleftrightarrow> (\<exists>d. m = quote (fst kv) @ '':'' @ d \<and> value_text pf (snd kv) d)"

lemma parse_members_text:
  "\<lbrakk>list_all2 (member_text pf) kvs ms; ms \<noteq> []; distinct_keys (acc @ kvs); 2 * length (intercalate '','' ms) + 1 \<le> n\<rbrakk>
   \<Longrightarrow> parse_members pf n acc (intercalate '','' ms @ CHR ''}'' # rest) = Ok (acc @ kvs, rest)"
proof (induction kvs ms arbitrary: n acc rule: list_all2_induct)
  case (Cons kv kvs m ms)
  obtain k v where kv: "kv = (k, v)" by (cases kv)
  obtain d where m: "m = CHR 0x22 # concat (map escape_char k) @ CHR 0x22 # CHR '':'' # d" and d: "value_text pf v d"
    using Cons(1) kv by (auto simp: member_text_def quote_shape)
  obtain l where n: "n = Suc l" using Cons.prems(3) by (cases n) auto
  have ws: "skip_ws (CHR ''}'' # t) = CHR ''}'' # t" "skip_ws (CHR '','' # t) = CHR '','' # t"
    "skip_ws (CHR '':'' # t) = CHR '':'' # t" for t by (simp_all add: skip_ws_def is_json_space_def)
  have upd: "AList.update k v acc = acc @ [(k, v)]" using Cons.prems(2) kv by (intro update_absent) auto
  have key: "scan_string (concat (map escape_char k) @ CHR 0x22 # t) = Ok (k, t)" for t by (rule scan_quoted)
  show ?case
  proof (cases ms)
    case Nil
    have "parse_value pf l (d @ CHR ''}'' # rest) = Ok (v, CHR ''}'' # rest)"
      using d Cons.prems(3) n Nil m unfolding value_text_def by simp
    then show ?thesis using Nil Cons(2) n ws m key upd kv value_text_ws[OF d] by simp
  next
    case (Cons e es)
    have "parse_value pf l (d @ CHR '','' # intercalate '','' ms @ CHR ''}'' # rest) =
        Ok (v, CHR '','' # intercalate '','' ms @ CHR ''}'' # rest)"
      using d Cons.prems(3) n Cons m unfolding value_text_def by simp
    moreover have "\<exists>t'. e = CHR 0x22 # t'" using \<open>list_all2 _ kvs ms\<close> Cons
      by (cases kvs) (auto simp: member_text_def quote_shape)
    then have "skip_ws (intercalate '','' ms @ t) = intercalate '','' ms @ t" for t
      using Cons by (cases es) (auto simp: skip_ws_def is_json_space_def)
    moreover have "parse_members pf l (acc @ [(k, v)]) (intercalate '','' ms @ CHR ''}'' # rest) = Ok ((acc @ [(k, v)]) @ kvs, rest)"
      using Cons.prems(2,3) n Cons kv by (intro Cons.IH) auto
    ultimately show ?thesis using Cons n ws m key upd kv value_text_ws[OF d] by simp
  qed
qed simp

lemma value_text_member:
  "\<lbrakk>json_dumps (snd kv) = Ok d; value_text pf (canon (snd kv)) d\<rbrakk>
   \<Longrightarrow> member_text pf (fst kv, canon (snd kv)) (quote (fst kv) @ '':'' @ d)"
  by (auto simp: member_text_def)

lemma value_text_number:
  assumes "scan_number pf d = Ok (v, [])"
  shows "value_text pf v d"
proof -
  have "\<exists>c cs. d = c # cs \<and> \<not> is_json_space c \<and> c \<noteq> CHR '']'' \<and> c \<noteq> CHR ''}'' \<and> (of_char c :: nat) < 128"
    by (rule scan_number_head[OF assms]) (use digit_not in \<open>auto simp: is_json_space_def is_digit_def\<close>)
  then show ?thesis using parse_number_text[OF assms] by (simp add: value_text_def)
qed

lemma value_text_literal:
  "value_text pf JNull ''null''" "value_text pf (JBool True) ''true''" "value_text pf (JBool False) ''false''"
proof -
  have "parse_value pf n (''null'' @ rest) = Ok (JNull, rest)" "parse_value pf n (''true'' @ rest) = Ok (JBool True, rest)"
      "parse_value pf n (''false'' @ rest) = Ok (JBool False, rest)" if "1 \<le> n" for n rest
    using that by (cases n; simp add: scan_literal_def literals_def)+
  then show "value_text pf JNull ''null''" "value_text pf (JBool True) ''true''" "value_text pf (JBool False) ''false''"
    by (simp_all add: value_text_def is_json_space_def)
qed

lemma mapE_list_all2_Ok: "mapE f xs = Ok ys \<longleftrightarrow> list_all2 (\<lambda>x y. f x = Ok y) xs ys"
  by (induction xs arbitrary: ys) (auto simp: list_all2_Cons1)

lemma list_all2_mono_in:
  "\<lbrakk>list_all2 P xs ys; \<And>x y. \<lbrakk>x \<in> set xs; P x y\<rbrakk> \<Longrightarrow> Q x y\<rbrakk> \<Longrightarrow> list_all2 Q xs ys"
  by (auto simp: list_all2_conv_all_nth)

lemma parse_list_text:
  assumes "list_all2 (value_text pf) vs ds"
  shows "value_text pf (JList vs) (''['' @ intercalate '','' ds @ '']'')"
proof -
  have "parse_value pf n (''['' @ intercalate '','' ds @ CHR '']'' # rest) = Ok (JList vs, rest)"
    if n: "2 * length (''['' @ intercalate '','' ds @ '']'') \<le> n" for n rest
  proof -
    obtain m where m: "n = Suc m" "2 * length (intercalate '','' ds) + 1 \<le> m" using n by (cases n) auto
    show ?thesis
    proof (cases ds)
      case Nil
      then show ?thesis using assms m by (simp add: skip_ws_def is_json_space_def)
    next
      case (Cons d es)
      then obtain v where d: "value_text pf v d" using assms by (auto simp: list_all2_Cons2)
      then obtain c cs where h: "d = c # cs" "\<not> is_json_space c" "c \<noteq> CHR '']''" by (auto simp: value_text_def)
      have "\<exists>t. intercalate '','' ds = c # t" using Cons h by (cases es) auto
      then obtain t where t: "intercalate '','' ds = c # t" by blast
      show ?thesis using parse_items_text[OF assms _ m(2), of rest] Cons h t m(1) by (simp add: skip_ws_def)
    qed
  qed
  then show ?thesis by (simp add: value_text_def is_json_space_def)
qed

lemma parse_object_text:
  assumes "list_all2 (member_text pf) kvs ms" and "distinct_keys kvs"
  shows "value_text pf (JObj kvs) (''{'' @ intercalate '','' ms @ ''}'')"
proof -
  have "parse_value pf n (''{'' @ intercalate '','' ms @ CHR ''}'' # rest) = Ok (JObj kvs, rest)"
    if n: "2 * length (''{'' @ intercalate '','' ms @ ''}'') \<le> n" for n rest
  proof -
    obtain m where m: "n = Suc m" "2 * length (intercalate '','' ms) + 1 \<le> m" using n by (cases n) auto
    show ?thesis
    proof (cases ms)
      case Nil
      then show ?thesis using assms m by (simp add: skip_ws_def is_json_space_def)
    next
      case (Cons d es)
      then obtain kv where d: "member_text pf kv d" using assms(1) by (auto simp: list_all2_Cons2)
      have "\<exists>t. intercalate '','' ms = CHR 0x22 # t"
        using d Cons by (cases es) (auto simp: member_text_def quote_shape)
      then obtain t where t: "intercalate '','' ms = CHR 0x22 # t" by blast
      show ?thesis using parse_members_text[OF assms(1) _ _ m(2), of "[]" rest] assms(2) Cons t m(1)
        by (simp add: skip_ws_def is_json_space_def)
    qed
  qed
  then show ?thesis by (simp add: value_text_def is_json_space_def)
qed

lemma dumps_text: "\<lbrakk>json_dumps v = Ok d; readable pf v\<rbrakk> \<Longrightarrow> value_text pf (canon v) d"
proof (induction v arbitrary: d rule: json_dumps.induct)
  case (2 b)
  then show ?case using value_text_literal(2,3)[of pf] by (cases b) auto
next
  case (6 s)
  have "parse_value pf n (quote s @ rest) = Ok (JStr s, rest)" if "2 * length (quote s) \<le> n" for n rest
    using that scan_quoted[of s rest] by (cases n) (auto simp: quote_shape)
  moreover have "\<exists>cs. quote s = CHR 0x22 # cs" by (simp add: quote_shape)
  ultimately have "value_text pf (JStr s) (quote s)" by (auto simp: value_text_def is_json_space_def)
  then show ?case using 6(1) by simp
next
  case (7 xs)
  then obtain ys where ys: "mapE json_dumps xs = Ok ys" and d: "d = ''['' @ intercalate '','' ys @ '']''" by auto
  have "list_all2 (value_text pf) (map canon xs) ys"
    using ys 7(1,3) unfolding mapE_list_all2_Ok by (auto simp: list_all2_conv_all_nth)
  then show ?case using parse_list_text d by simp
next
  case (8 kvs)
  let ?kvs = "sort_key fst kvs"
  let ?f = "\<lambda>kv. bindE (json_dumps (snd kv)) (\<lambda>d. Ok (quote (fst kv) @ '':'' @ d))"
  obtain ms where ms: "mapE ?f ?kvs = Ok ms" and d: "d = ''{'' @ intercalate '','' ms @ ''}''" using 8(2) by auto
  have set: "set ?kvs = set kvs" and dist: "distinct_keys ?kvs" using 8(3) by (simp_all add: distinct_map)
  have one: "member_text pf (fst kv, canon (snd kv)) m" if kv: "kv \<in> set ?kvs" and m: "?f kv = Ok m" for kv m
  proof -
    obtain e where e: "json_dumps (snd kv) = Ok e" and m: "m = quote (fst kv) @ '':'' @ e" using m by auto
    have "value_text pf (canon (snd kv)) e" using 8(1)[OF kv e] 8(3) kv set by auto
    then show ?thesis by (auto simp: member_text_def m)
  qed
  have "list_all2 (member_text pf) (map (\<lambda>kv. (fst kv, canon (snd kv))) ?kvs) ms"
    unfolding list_all2_map1 using ms[unfolded mapE_list_all2_Ok] by (rule list_all2_mono_in) (rule one)
  then show ?case using parse_object_text dist d by (simp add: comp_def)
qed (auto intro: value_text_literal value_text_number scan_dec)

text \<open>Reading back a canonical text yields the value, its objects in key order.\<close>

lemma loads_dumps: "\<lbrakk>json_dumps v = Ok d; readable pf v\<rbrakk> \<Longrightarrow> json_loads pf d = Ok (canon v)"
proof -
  assume a: "json_dumps v = Ok d" "readable pf v"
  note t = dumps_text[OF a]
  have p: "parse_value pf (2 * length d) (d @ []) = Ok (canon v, [])"
    using t number_end_seps(4) unfolding value_text_def by blast
  have "skip_ws (d @ []) = d @ []" by (rule value_text_ws[OF t])
  moreover have "\<not> prefix BOM d"
    using t by (auto simp: value_text_def BOM_def utf8_of_def)
  ultimately show ?thesis using p by (simp add: json_loads_def skip_ws_def)
qed

section \<open>Properties\<close>

lemma parse_value_fuel: "2 * length s \<le> n \<Longrightarrow> parse_value pf n s = parse_value pf (2 * length s) s"
proof (induction n rule: dec_induct)
  case (step n)
  then show ?case using parse_fuel[of s n pf] by metis
qed simp

text \<open>
  Decoding ends on every text: the parser's recursion never needs more depth than twice the
  length of what is left to read, so running it with more changes no answer.
\<close>

theorem decoding_ends:
  assumes "2 * length s \<le> n"
  shows "json_loads pf s =
    (if prefix BOM s then Err JSONDecodeError
     else bindE (parse_value pf n (skip_ws s)) (\<lambda>(v, r). if skip_ws r = [] then Ok v else Err JSONDecodeError))"
proof -
  have "2 * length (skip_ws s) \<le> 2 * length s" using skip_ws_length[of s] by simp
  then have "parse_value pf n (skip_ws s) = parse_value pf (2 * length s) (skip_ws s)"
    using parse_value_fuel[of "skip_ws s"] assms by (metis order_trans)
  then show ?thesis by (simp add: json_loads_def)
qed

theorem decoding_ends_witness:
  "json_loads JFloat ''[]'' = bindE (parse_value JFloat 100 ''[]'') (\<lambda>(v, r). if skip_ws r = [] then Ok v else Err JSONDecodeError)"
  using decoding_ends[of "''[]''" 100 JFloat] by (simp add: BOM_def skip_ws_def is_json_space_def del: parse_value.simps)

end
