(* ===== verification/Effector_Runner.thy ===== *)
theory Effector_Runner
  imports Tools Json_Loads Hitl
begin

text \<open>
  Executing one intent (\<open>effector/runner.py\<close>, \<open>tools/intent_info.py\<close>): the runner that requires a
  side effect, and the mapping of every outcome to a \<open>ToolResult\<close>. \<open>prepare\<close> is the code up to
  \<open>on_invoke\<close>, the point from which the effect may have happened; \<open>settle\<close> is the code behind the
  call. The text of an exception, its class name and \<open>repr\<close> of a name are parameters. Cancellation
  is not an outcome of a call; it is a step of the service.
\<close>

record runner_ext =
  rx_text :: "exn \<Rightarrow> string"
  rx_type_name :: "exn \<Rightarrow> string"
  rx_repr :: "string \<Rightarrow> string"
  rx_parse_float :: "string \<Rightarrow> json"

record intent_info =
  ii_id :: string
  ii_key :: bytes
  ii_seq :: int
  ii_step :: int
  ii_attempt :: int

definition info_of :: "tool_intent \<Rightarrow> intent_info" where
  "info_of i = \<lparr>ii_id = ti_id i, ii_key = ti_key i, ii_seq = ti_seq i, ii_step = ti_step i, ii_attempt = ti_attempt i\<rparr>"

definition tool_result_of :: "tool_intent \<Rightarrow> result_status \<Rightarrow> msec \<Rightarrow> bytes \<Rightarrow> string \<Rightarrow> tool_result" where
  "tool_result_of intent status now_ms payload error_message =
     \<lparr>tr_id = ti_id intent, tr_key = ti_key intent, tr_seq = ti_seq intent, tr_status = status,
      tr_payload = payload, tr_error = error_message, tr_completed = now_ms\<rparr>"

definition parse_arguments :: "runner_ext \<Rightarrow> tool_intent \<Rightarrow> (string, json) dict res" where
  "parse_arguments ext intent =
     bindE (json_loads (rx_parse_float ext) (ti_args intent)) (\<lambda>decoded.
       case decoded of JObj kvs \<Rightarrow> Ok kvs | _ \<Rightarrow> Err (ToolArgumentError (ti_tool intent)))"

definition encode_payload :: "json \<Rightarrow> bytes res" where
  "encode_payload value = bindE (json_dumps value) (\<lambda>s. Ok (utf8 s))"

text \<open>What reaches the callable: the tool, the validated arguments, and the injected identity.\<close>

record 'w tool_plan =
  tp_tool :: "'w tool"
  tp_arguments :: json
  tp_info :: "intent_info option"

definition run_guarded :: "'w tool \<Rightarrow> (string, json) dict \<Rightarrow> intent_info option \<Rightarrow> 'w tool_plan res" where
  "run_guarded t arguments info =
     (if \<not> tl_side_effect t then Err (ReadOnlyToolError (tl_name t))
      else (case tool_validate t (JObj arguments) of
              None \<Rightarrow> Err (ToolArgumentError (tl_name t))
            | Some validated \<Rightarrow>
                Ok \<lparr>tp_tool = t, tp_arguments = validated,
                    tp_info = (if tl_accepts_intent t then info else None)\<rparr>))"

datatype 'w prepared = Refused tool_result | EscapedError exn | Call "'w tool_plan"

definition not_invoked :: "exn \<Rightarrow> bool" where
  "not_invoked e \<longleftrightarrow> (case e of ReadOnlyToolError _ \<Rightarrow> True | ToolArgumentError _ \<Rightarrow> True | _ \<Rightarrow> False)"

definition bad_arguments :: "exn \<Rightarrow> bool" where
  "bad_arguments e \<longleftrightarrow> (case e of JSONDecodeError \<Rightarrow> True | ToolArgumentError _ \<Rightarrow> True | _ \<Rightarrow> False)"

definition rejected :: "runner_ext \<Rightarrow> tool_intent \<Rightarrow> msec \<Rightarrow> exn \<Rightarrow> tool_result" where
  "rejected ext intent now_ms e = tool_result_of intent StatusRejected now_ms [] (rx_text ext e)"

definition prepare :: "runner_ext \<Rightarrow> 'w registry \<Rightarrow> tool_intent \<Rightarrow> msec \<Rightarrow> 'w prepared" where
  "prepare ext reg intent now_ms =
     (case registry_get reg (ti_tool intent) of
        Err e \<Rightarrow> Refused (rejected ext intent now_ms e)
      | Ok t \<Rightarrow>
          (case parse_arguments ext intent of
             Err e \<Rightarrow> if bad_arguments e then Refused (rejected ext intent now_ms e) else EscapedError e
           | Ok arguments \<Rightarrow>
               (case run_guarded t arguments (if tl_accepts_intent t then Some (info_of intent) else None) of
                  Err e \<Rightarrow> Refused (rejected ext intent now_ms e)
                | Ok plan \<Rightarrow> Call plan)))"

definition encode_result :: "runner_ext \<Rightarrow> tool_intent \<Rightarrow> json \<Rightarrow> msec \<Rightarrow> tool_result" where
  "encode_result ext intent value now_ms =
     (case encode_payload value of
        Err e \<Rightarrow>
          tool_result_of intent StatusError now_ms []
            (''tool '' @ rx_repr ext (ti_tool intent) @
             '' succeeded but its return value could not be encoded: '' @ rx_type_name ext e @ '': '' @ rx_text ext e)
      | Ok payload \<Rightarrow> tool_result_of intent StatusOk now_ms payload [])"

definition settle :: "runner_ext \<Rightarrow> int \<Rightarrow> tool_intent \<Rightarrow> msec \<Rightarrow> json res \<Rightarrow> tool_result" where
  "settle ext timeout_ms intent now_ms outcome =
     (case outcome of
        Ok value \<Rightarrow> encode_result ext intent value now_ms
      | Err e \<Rightarrow>
          if not_invoked e then rejected ext intent now_ms e
          else if e = TimeoutError then
            tool_result_of intent StatusError now_ms []
              (''tool '' @ rx_repr ext (ti_tool intent) @ '' timed out after '' @ dec timeout_ms @ ''ms; its effect is unknown'')
          else tool_result_of intent StatusError now_ms [] (rx_type_name ext e @ '': '' @ rx_text ext e))"

text \<open>
  The whole routine: \<open>invoke\<close> is the callable under its wall-clock budget, on the world of the
  tools. The flag says whether \<open>on_invoke\<close> fired.
\<close>

definition execute_intent ::
  "runner_ext \<Rightarrow> 'w registry \<Rightarrow> int \<Rightarrow> ('w tool_plan \<Rightarrow> 'w \<Rightarrow> json res \<times> 'w) \<Rightarrow> tool_intent \<Rightarrow> msec \<Rightarrow> 'w \<Rightarrow>
   tool_result res \<times> bool \<times> 'w" where
  "execute_intent ext reg timeout_ms invoke intent now_ms w =
     (case prepare ext reg intent now_ms of
        Refused r \<Rightarrow> (Ok r, False, w)
      | EscapedError e \<Rightarrow> (Err e, False, w)
      | Call plan \<Rightarrow>
          (let (outcome, w') = invoke plan w in
           (Ok (settle ext timeout_ms intent now_ms outcome), True, w')))"

section \<open>Lemmas\<close>

lemma tool_result_of_simps [simp]:
  "tr_id (tool_result_of i st now p e) = ti_id i" "tr_key (tool_result_of i st now p e) = ti_key i"
  "tr_seq (tool_result_of i st now p e) = ti_seq i" "tr_status (tool_result_of i st now p e) = st"
  "tr_payload (tool_result_of i st now p e) = p" "tr_completed (tool_result_of i st now p e) = now"
  by (simp_all add: tool_result_of_def)

definition answers :: "tool_intent \<Rightarrow> tool_result \<Rightarrow> bool" where
  "answers i r \<longleftrightarrow> tr_id r = ti_id i \<and> tr_key r = ti_key i \<and> tr_seq r = ti_seq i"

lemma rejected_simps [simp]: "answers i (rejected ext i now e)" "tr_status (rejected ext i now e) = StatusRejected"
  by (simp_all add: rejected_def answers_def)

lemma encode_result_simps [simp]:
  "answers i (encode_result ext i v now)"
  "tr_status (encode_result ext i v now) = StatusOk \<or> tr_status (encode_result ext i v now) = StatusError"
  by (auto simp: encode_result_def answers_def split: sum.splits)

lemma settle_answers: "answers i (settle ext timeout i now out)"
  by (auto simp: settle_def answers_def[of i "tool_result_of i st now p e" for st p e] split: sum.splits)

lemma settle_status:
  "tr_status (settle ext timeout i now out) =
     (case out of
        Ok v \<Rightarrow> (case json_dumps v of Ok _ \<Rightarrow> StatusOk | Err _ \<Rightarrow> StatusError)
      | Err e \<Rightarrow> if not_invoked e then StatusRejected else StatusError)"
  by (cases out) (auto simp: settle_def encode_result_def encode_payload_def split: sum.splits)

lemma prepare_refused: "prepare ext reg i now = Refused r \<Longrightarrow> answers i r \<and> tr_status r = StatusRejected"
  by (auto simp: prepare_def split: sum.splits if_splits)

lemma prepare_call:
  "prepare ext reg i now = Call p \<Longrightarrow>
   tl_side_effect (tp_tool p) \<and> registry_get reg (ti_tool i) = Ok (tp_tool p) \<and>
   (\<exists>args. parse_arguments ext i = Ok args \<and> tool_validate (tp_tool p) (JObj args) = Some (tp_arguments p)) \<and>
   tp_info p = (if tl_accepts_intent (tp_tool p) then Some (info_of i) else None)"
  by (auto simp: prepare_def run_guarded_def split: sum.splits if_splits option.splits)

text \<open>Only a text whose integers overflow Python's digit limit escapes the routine.\<close>

lemma scan_string_error: "scan_string s = Err e \<Longrightarrow> e = JSONDecodeError"
proof (induction s rule: scan_string.induct)
  case (2 c cs)
  then show ?case by (auto simp: bindE_Err_iff split: if_splits list.splits option.splits)
qed simp

lemma scan_number_error: "scan_number pf s = Err e \<Longrightarrow> e = JSONDecodeError \<or> e = ValueError"
  by (auto simp: scan_number_def Let_def split: option.splits prod.splits if_splits)

lemma parse_error:
  "(parse_value pf n s = Err e \<longrightarrow> e = JSONDecodeError \<or> e = ValueError) \<and>
   (parse_items pf n s = Err e \<longrightarrow> e = JSONDecodeError \<or> e = ValueError) \<and>
   (parse_members pf n kvs s = Err e \<longrightarrow> e = JSONDecodeError \<or> e = ValueError)"
proof (induction n arbitrary: s kvs)
  case (Suc n)
  note value_err = Suc[THEN conjunct1, rule_format]
    and items_err = Suc[THEN conjunct2, THEN conjunct1, rule_format]
    and members_err = Suc[THEN conjunct2, THEN conjunct2, rule_format]
  have "parse_value pf (Suc n) s = Err e \<Longrightarrow> e = JSONDecodeError \<or> e = ValueError"
    using scan_string_error scan_number_error
    by (cases s) (auto simp del: parse_items.simps parse_members.simps simp: bindE_Err_iff
        dest: items_err members_err split: if_splits list.splits option.splits)
  moreover have "e = JSONDecodeError \<or> e = ValueError" if items: "parse_items pf (Suc n) s = Err e"
  proof (cases "parse_value pf n s")
    case (Inl d)
    then show ?thesis using items value_err by simp
  next
    case (Inr p)
    then obtain v r where p: "parse_value pf n s = Ok (v, r)" by (cases p) simp
    show ?thesis
    proof (cases "skip_ws r")
      case (Cons d ds)
      then show ?thesis using items p by (auto simp: bindE_Err_iff dest: items_err split: if_splits)
    qed (use items p in simp)
  qed
  moreover have "e = JSONDecodeError \<or> e = ValueError" if members: "parse_members pf (Suc n) kvs s = Err e"
  proof (cases s)
    case (Cons c cs)
    show ?thesis
    proof (cases "scan_string cs")
      case (Inl d)
      then show ?thesis using members Cons scan_string_error by (auto split: if_splits)
    next
      case (Inr kr)
      then obtain k r where k: "scan_string cs = Ok (k, r)" by (cases kr) simp
      show ?thesis
      proof (cases "skip_ws r")
        case r: (Cons d ds)
        show ?thesis
        proof (cases "parse_value pf n (skip_ws ds)")
          case (Inl d)
          then show ?thesis using members Cons k r value_err by (auto split: if_splits)
        next
          case (Inr vr)
          then obtain v r2 where v: "parse_value pf n (skip_ws ds) = Ok (v, r2)" by (cases vr) simp
          show ?thesis using members Cons k r v
            by (cases "skip_ws r2") (auto dest: members_err split: if_splits)
        qed
      qed (use members Cons k in \<open>auto split: if_splits\<close>)
    qed
  qed (use members in simp)
  ultimately show ?case by blast
qed simp

lemma json_loads_error: "json_loads pf s = Err e \<Longrightarrow> e = JSONDecodeError \<or> e = ValueError"
  using parse_error by (auto simp: json_loads_def bindE_Err_iff split: if_splits)

lemma parse_arguments_error:
  "parse_arguments ext i = Err e \<Longrightarrow>
   bad_arguments e \<or> e = ValueError \<and> json_loads (rx_parse_float ext) (ti_args i) = Err ValueError"
proof (cases "json_loads (rx_parse_float ext) (ti_args i)")
  case (Inl d)
  then show "parse_arguments ext i = Err e \<Longrightarrow> ?thesis"
    using json_loads_error[OF Inl] by (auto simp: parse_arguments_def bad_arguments_def)
next
  case (Inr v)
  then show "parse_arguments ext i = Err e \<Longrightarrow> ?thesis"
    by (cases v) (auto simp: parse_arguments_def bad_arguments_def)
qed

lemma prepare_escaped:
  assumes "prepare ext reg i now = EscapedError e"
  shows "e = ValueError \<and> json_loads (rx_parse_float ext) (ti_args i) = Err ValueError"
proof -
  obtain t where t: "registry_get reg (ti_tool i) = Ok t"
    using assms by (cases "registry_get reg (ti_tool i)") (auto simp: prepare_def)
  have "parse_arguments ext i = Err e \<and> \<not> bad_arguments e"
    using assms t by (auto simp: prepare_def split: sum.splits if_splits)
  then show ?thesis using parse_arguments_error by blast
qed

lemma json_loads_digits:
  assumes "MAX_STR_DIGITS < n"
  shows "json_loads pf (replicate n (CHR ''1'')) = Err ValueError"
proof -
  obtain m where n: "n = Suc m" using assms by (cases n) auto
  let ?s = "replicate n (CHR ''1'')"
  have d: "is_digit (CHR ''1'')" by (simp add: is_digit_def)
  have span: "span_digits ?s = (?s, [])" using d by (simp add: span_digits_def takeWhile_replicate)
  then have "int_part ?s = Some (?s, [])" using d n by (simp add: int_part_def)
  then have "scan_number pf ?s = Err ValueError"
    using assms n by (simp add: scan_number_def frac_part_def exp_part_def)
  moreover have "scan_literal ?s = None" using scan_literal_head(1)[of "CHR ''1''" "replicate m (CHR ''1'')"] n by simp
  moreover have "skip_ws ?s = ?s" using n by (simp add: skip_ws_def is_json_space_def)
  moreover have "\<not> prefix BOM ?s" using n by (simp add: BOM_def utf8_of_def char_of_def bit_0)
  ultimately show ?thesis by (simp add: json_loads_def n del: replicate.simps) (simp add: n)
qed

section \<open>Properties\<close>


definition sample_ext :: runner_ext where
  "sample_ext = \<lparr>rx_text = (\<lambda>_. ''failed''), rx_type_name = (\<lambda>_. ''E''), rx_repr = (\<lambda>s. s), rx_parse_float = (\<lambda>s. JFloat s)\<rparr>"

definition sample_tool :: "int tool" where
  "sample_tool =
     \<lparr>tl_name = ''pay'', tl_description = [], tl_side_effect = True, tl_accepts_intent = False, tl_fields = [],
      tl_func = \<lparr>fn_params = [], fn_validate = Some, fn_body = (\<lambda>_ w. (Ok JNull, w + 1))\<rparr>\<rparr>"

definition sample_intent :: "string \<Rightarrow> tool_intent" where
  "sample_intent args =
     \<lparr>ti_id = ''i1'', ti_key = [7], ti_seq = 4, ti_step = 0, ti_tool = ''pay'', ti_args = args, ti_created = 5,
      ti_expires = 65, ti_attempt = 0, ti_kind = ToolKind, ti_trace = [], ti_scheme = SchemeUnspecified,
      ti_key_id = [], ti_sig = []\<rparr>"

lemma loads_empty: "json_loads pf ''{}'' = Ok (JObj [])"
  by (simp add: json_loads_def BOM_def skip_ws_def is_json_space_def numeral_nat)

lemma sample_prepare:
  "prepare sample_ext [(''pay'', sample_tool)] (sample_intent ''{}'') 9 =
   Call \<lparr>tp_tool = sample_tool, tp_arguments = JObj [], tp_info = None\<rparr>"
  by (simp add: prepare_def registry_get_def parse_arguments_def loads_empty run_guarded_def tool_validate_def
      sample_intent_def sample_tool_def)


text \<open>
  The routine documented never to raise raises in exactly one way: a registered tool's argument
  text holds an integer beyond Python's digit limit, whose \<open>ValueError\<close> is not the decoder's own.
  Nothing has run then.
\<close>

theorem only_digits_escape:
  assumes "execute_intent ext reg timeout invoke i now w = (Err e, started, w')"
  shows "e = ValueError \<and> \<not> started \<and> w' = w \<and> json_loads (rx_parse_float ext) (ti_args i) = Err ValueError"
  using assms by (auto simp: execute_intent_def Let_def dest: prepare_escaped split: prepared.splits prod.splits)

theorem only_digits_escape_witness:
  "\<exists>started w'. execute_intent sample_ext [(''pay'', sample_tool)] 50 (\<lambda>_ w. (Ok JNull, w)) (sample_intent (replicate 4301 (CHR ''1''))) 9 (0::int) =
    (Err ValueError, started, w') \<and> \<not> started"
proof -
  let ?i = "sample_intent (replicate 4301 (CHR ''1''))"
  have args: "ti_args ?i = replicate 4301 (CHR ''1'')" "ti_tool ?i = ''pay''" unfolding sample_intent_def by (simp_all only: tool_intent.simps)
  have "json_loads (rx_parse_float sample_ext) (ti_args ?i) = Err ValueError"
    unfolding args by (rule json_loads_digits) (simp add: MAX_STR_DIGITS_def)
  then have "parse_arguments sample_ext ?i = Err ValueError" by (simp add: parse_arguments_def)
  then have "prepare sample_ext [(''pay'', sample_tool)] ?i 9 = EscapedError ValueError"
    using args(2) by (simp add: prepare_def registry_get_def bad_arguments_def)
  then have "execute_intent sample_ext [(''pay'', sample_tool)] 50 (\<lambda>_ w. (Ok JNull, w)) ?i 9 (0::int) = (Err ValueError, False, 0)"
    by (simp add: execute_intent_def)
  from this only_digits_escape[OF this] show ?thesis by blast
qed

text \<open>
  C26: The arguments an intent was minted with reach the tool: where the argument text is the
  canonical encoding of a readable object, the callable is handed what validation makes of that very
  object.
\<close>

theorem arguments_reach_tool:
  assumes "json_dumps (JObj kvs) = Ok (ti_args i)" and "readable (rx_parse_float ext) (JObj kvs)"
    and "registry_get reg (ti_tool i) = Ok t" and "tl_side_effect t" and "tool_validate t (canon (JObj kvs)) = Some a"
  shows "prepare ext reg i now =
    Call \<lparr>tp_tool = t, tp_arguments = a, tp_info = (if tl_accepts_intent t then Some (info_of i) else None)\<rparr>"
proof -
  obtain kvs' where c: "canon (JObj kvs) = JObj kvs'" by simp
  then have "parse_arguments ext i = Ok kvs'" using loads_dumps[OF assms(1,2)] by (simp add: parse_arguments_def)
  then show ?thesis using assms(3,4,5) c by (simp add: prepare_def run_guarded_def)
qed

theorem arguments_reach_tool_witness:
  "prepare sample_ext [(''pay'', sample_tool)] (sample_intent ''{}'') 9 =
   Call \<lparr>tp_tool = sample_tool, tp_arguments = JObj [], tp_info = None\<rparr>"
proof -
  have d: "json_dumps (JObj []) = Ok (ti_args (sample_intent ''{}''))" by (simp add: sample_intent_def)
  have "registry_get [(''pay'', sample_tool)] (ti_tool (sample_intent ''{}'')) = Ok sample_tool" "tl_side_effect sample_tool"
      "tool_validate sample_tool (canon (JObj [])) = Some (JObj [])" "readable (rx_parse_float sample_ext) (JObj [])"
    by (simp_all add: registry_get_def sample_intent_def sample_tool_def tool_validate_def)
  from arguments_reach_tool[OF d this(4,1,2,3)] show ?thesis by (simp add: sample_tool_def)
qed

end
