(* ===== verification/Intent_Signing.thy ===== *)
theory Intent_Signing
  imports Wire
begin

text \<open>
  Intent provenance (\<open>intent_signing.py\<close>): the signing input, signing and verification, and the
  secret references and keyrings they are configured with. HMAC-SHA256, the deterministic
  protobuf serialisation, base64 decoding, the process environment and the file system are
  parameters. Keyring text is ASCII, so \<open>strip\<close> and \<open>splitlines\<close> are modelled on ASCII whitespace.
\<close>

section \<open>Signing and verifying\<close>

datatype verification_result = VerOk | VerUnsigned | VerBadSignature | VerUnknownKey

definition verification_reason :: "verification_result \<Rightarrow> string" where
  "verification_reason v =
     (case v of
        VerOk \<Rightarrow> ''ok''
      | VerUnsigned \<Rightarrow> ''unsigned_intent''
      | VerBadSignature \<Rightarrow> ''bad_signature''
      | VerUnknownKey \<Rightarrow> ''unknown_signing_key'')"

type_synonym keyring = "(string, bytes) dict"

definition unsigned_part :: "tool_intent \<Rightarrow> tool_intent" where
  "unsigned_part intent = intent\<lparr>ti_scheme := SchemeUnspecified, ti_key_id := [], ti_sig := []\<rparr>"

definition signing_input :: "(tool_intent \<Rightarrow> bytes) \<Rightarrow> tool_intent \<Rightarrow> bytes" where
  "signing_input serialize intent = serialize (unsigned_part intent)"

definition sign_intent ::
  "(bytes \<Rightarrow> bytes \<Rightarrow> bytes) \<Rightarrow> (tool_intent \<Rightarrow> bytes) \<Rightarrow> string \<Rightarrow> bytes \<Rightarrow> tool_intent \<Rightarrow> tool_intent" where
  "sign_intent hmac serialize key_id key intent =
     (let signed = intent\<lparr>ti_scheme := HmacSha256, ti_key_id := key_id\<rparr> in
      signed\<lparr>ti_sig := hmac key (signing_input serialize signed)\<rparr>)"

definition verify_intent ::
  "(bytes \<Rightarrow> bytes \<Rightarrow> bytes) \<Rightarrow> (tool_intent \<Rightarrow> bytes) \<Rightarrow> keyring \<Rightarrow> tool_intent \<Rightarrow> verification_result" where
  "verify_intent hmac serialize keyring intent =
     (if ti_sig intent = [] then VerUnsigned
      else if ti_scheme intent \<noteq> HmacSha256 then VerBadSignature
      else (case map_of keyring (ti_key_id intent) of
              None \<Rightarrow> VerUnknownKey
            | Some key \<Rightarrow>
                (if hmac key (signing_input serialize intent) = ti_sig intent
                 then VerOk else VerBadSignature)))"

section \<open>Secret references and keyrings\<close>

definition is_space :: "char \<Rightarrow> bool" where
  "is_space c \<longleftrightarrow> (let n = (of_char c :: nat) in n = 32 \<or> 9 \<le> n \<and> n \<le> 13 \<or> 28 \<le> n \<and> n \<le> 31)"

definition strip :: "string \<Rightarrow> string" where
  "strip s = rev (dropWhile is_space (rev (dropWhile is_space s)))"

definition is_line_break :: "char \<Rightarrow> bool" where
  "is_line_break c \<longleftrightarrow> (let n = (of_char c :: nat) in 10 \<le> n \<and> n \<le> 13 \<or> 28 \<le> n \<and> n \<le> 30)"

fun splitlines_from :: "string \<Rightarrow> string \<Rightarrow> string list" where
  "splitlines_from acc [] = (if acc = [] then [] else [rev acc])"
| "splitlines_from acc [c] = (if is_line_break c then [rev acc] else [rev (c # acc)])"
| "splitlines_from acc (c # d # ds) =
     (if c = char_of (13 :: nat) \<and> d = char_of (10 :: nat) then rev acc # splitlines_from [] ds
      else if is_line_break c then rev acc # splitlines_from [] (d # ds)
      else splitlines_from (c # acc) (d # ds))"

definition splitlines :: "string \<Rightarrow> string list" where
  "splitlines s = splitlines_from [] s"

text \<open>\<open>str.partition\<close>: before the first separator, whether it occurs, and the rest.\<close>

definition partition_at :: "char \<Rightarrow> string \<Rightarrow> string \<times> bool \<times> string" where
  "partition_at c s =
     (case dropWhile (\<lambda>d. d \<noteq> c) s of
        [] \<Rightarrow> (s, False, [])
      | _ # rest \<Rightarrow> (takeWhile (\<lambda>d. d \<noteq> c) s, True, rest))"

definition validate_secret_reference :: "string \<Rightarrow> unit res" where
  "validate_secret_reference reference =
     (if \<not> (prefix ''env:'' reference \<or> prefix ''file:'' reference) then Err ValueError
      else if snd (snd (partition_at (CHR '':'') reference)) = [] then Err ValueError
      else Ok ())"

record secrets_env =
  os_environ :: "string \<Rightarrow> string option"
  read_file :: "string \<Rightarrow> string option"

definition resolve_secret_reference :: "secrets_env \<Rightarrow> string \<Rightarrow> string res" where
  "resolve_secret_reference sys reference =
     bindE (validate_secret_reference reference) (\<lambda>_.
       let (kind, _, target) = partition_at (CHR '':'') reference in
       if kind = ''env'' then
         (case os_environ sys target of None \<Rightarrow> Err ValueError | Some v \<Rightarrow> Ok (strip v))
       else
         (case read_file sys target of None \<Rightarrow> Err ValueError | Some v \<Rightarrow> Ok (strip v)))"

fun keyring_lines ::
  "(string \<Rightarrow> bytes option) \<Rightarrow> string list \<Rightarrow> keyring \<Rightarrow> keyring res" where
  "keyring_lines b64decode [] keyring = Ok keyring"
| "keyring_lines b64decode (line # rest) keyring =
     (let entry = strip line in
      if entry = [] \<or> prefix ''#'' entry then keyring_lines b64decode rest keyring
      else
        (let (key_id, separator, encoded) = partition_at (CHR ''='') entry in
         if \<not> separator \<or> strip key_id = [] then Err ValueError
         else (case b64decode (strip encoded) of
                 None \<Rightarrow> Err ValueError
               | Some material \<Rightarrow>
                   keyring_lines b64decode rest (AList.update (strip key_id) material keyring))))"

definition load_keyring :: "(string \<Rightarrow> bytes option) \<Rightarrow> secrets_env \<Rightarrow> string \<Rightarrow> keyring res" where
  "load_keyring b64decode sys reference =
     bindE (resolve_secret_reference sys reference) (\<lambda>raw.
     bindE (keyring_lines b64decode (splitlines raw) []) (\<lambda>keyring.
       if keyring = [] then Err ValueError else Ok keyring))"

record intent_signer =
  is_key_id :: string
  is_key_reference :: string
  is_scheme :: sig_scheme

definition signer_validate :: "intent_signer \<Rightarrow> unit res" where
  "signer_validate s =
     (if is_key_id s = [] then Err ValueError
      else bindE (validate_secret_reference (is_key_reference s)) (\<lambda>_.
        if is_scheme s \<noteq> HmacSha256 then Err ValueError else Ok ()))"

definition resolve_key :: "(string \<Rightarrow> bytes option) \<Rightarrow> secrets_env \<Rightarrow> intent_signer \<Rightarrow> bytes res" where
  "resolve_key b64decode sys s =
     bindE (load_keyring b64decode sys (is_key_reference s)) (\<lambda>keyring.
       (case map_of keyring (is_key_id s) of None \<Rightarrow> Err ValueError | Some key \<Rightarrow> Ok key))"

section \<open>Lemmas\<close>

lemma unsigned_part_idem [simp]: "unsigned_part (unsigned_part i) = unsigned_part i"
  by (simp add: unsigned_part_def)

lemma unsigned_sign [simp]: "unsigned_part (sign_intent hmac ser kid key i) = unsigned_part i"
  by (simp add: sign_intent_def unsigned_part_def Let_def)

lemma signing_input_sign [simp]:
  "signing_input ser (sign_intent hmac ser kid key i) = signing_input ser i"
  by (simp add: signing_input_def)

lemma sign_fields [simp]:
  "ti_scheme (sign_intent hmac ser kid key i) = HmacSha256"
  "ti_key_id (sign_intent hmac ser kid key i) = kid"
  by (simp_all add: sign_intent_def Let_def)

lemma sign_sig: "ti_sig (sign_intent hmac ser kid key i) = hmac key (signing_input ser i)"
  by (simp add: sign_intent_def Let_def signing_input_def unsigned_part_def)

lemma verify_Ok_iff:
  "verify_intent hmac ser ring i = VerOk \<longleftrightarrow>
     ti_sig i \<noteq> [] \<and> ti_scheme i = HmacSha256 \<and>
     (\<exists>key. map_of ring (ti_key_id i) = Some key \<and> hmac key (signing_input ser i) = ti_sig i)"
  by (auto simp: verify_intent_def split: option.splits)

lemma keyring_lines_distinct:
  "\<lbrakk>keyring_lines b64 ls kr = Ok kr'; distinct_keys kr\<rbrakk> \<Longrightarrow> distinct_keys kr'"
  by (induction b64 ls kr rule: keyring_lines.induct)
    (auto simp: Let_def distinct_update split: if_splits prod.splits option.splits)

lemma load_keyring_ok:
  "load_keyring b64 sys ref = Ok kr \<Longrightarrow> kr \<noteq> [] \<and> distinct_keys kr"
  by (auto simp: load_keyring_def dest: keyring_lines_distinct split: if_splits)

definition demo_intent :: tool_intent where
  "demo_intent =
     \<lparr>ti_id = ''i1'', ti_key = [7], ti_seq = 4, ti_step = 0, ti_tool = ''pay'', ti_args = ''{}'', ti_created = 5,
      ti_expires = 65, ti_attempt = 0, ti_kind = ToolKind, ti_trace = [1], ti_scheme = SchemeUnspecified,
      ti_key_id = [], ti_sig = []\<rparr>"

section \<open>Properties\<close>

text \<open>
  A signed intent verifies against a keyring exactly when the keyring holds, under the signing
  key's identifier, a key with the same code for it, and signing changes only the provenance
  fields.
\<close>

theorem signed_intent_verifies:
  assumes "hmac key (signing_input ser i) \<noteq> []"
  shows "(verify_intent hmac ser ring (sign_intent hmac ser kid key i) = VerOk \<longleftrightarrow>
      (\<exists>key'. map_of ring kid = Some key' \<and> hmac key' (signing_input ser i) = hmac key (signing_input ser i))) \<and>
    unsigned_part (sign_intent hmac ser kid key i) = unsigned_part i"
  using assms by (simp_all add: verify_Ok_iff sign_sig)

theorem signed_intent_verifies_witness:
  "verify_intent (\<lambda>k b. k @ b) (\<lambda>_. []) [(''k1'', [9])] (sign_intent (\<lambda>k b. k @ b) (\<lambda>_. []) ''k1'' [9] demo_intent) = VerOk"
  using signed_intent_verifies[of "\<lambda>k b. k @ b" "[9]" "\<lambda>_. []" demo_intent "[(''k1'', [9])]" "''k1''"] by simp

end
