(* ===== verification/Uris.thy ===== *)
theory Uris
  imports Intent_Signing
begin

text \<open>
  The part of \<open>urllib.parse.urlparse\<close> the configuration code uses (scheme, authority, path, query
  and the host of the authority), on ASCII text, and the two URI grammars every bus URI of the
  repository follows (\<open>effector/config.py\<close>, \<open>actions/write_intents.py\<close>). Whether a bracketed
  host is a valid IPv6 literal is the parameter \<open>brackets_ok\<close>.
\<close>

section \<open>Splitting a URI\<close>

record uri =
  ur_scheme :: string
  ur_netloc :: string
  ur_path :: string
  ur_query :: string

definition code :: "char \<Rightarrow> nat" where
  "code c = of_char c"

definition is_upper :: "char \<Rightarrow> bool" where
  "is_upper c \<longleftrightarrow> 65 \<le> code c \<and> code c \<le> 90"

definition is_lower :: "char \<Rightarrow> bool" where
  "is_lower c \<longleftrightarrow> 97 \<le> code c \<and> code c \<le> 122"

definition lower :: "string \<Rightarrow> string" where
  "lower s = map (\<lambda>c. if is_upper c then char_of (code c + 32) else c) s"

definition scheme_char :: "char \<Rightarrow> bool" where
  "scheme_char c \<longleftrightarrow> is_upper c \<or> is_lower c \<or> is_digit c \<or> c \<in> set ''+-.''"

text \<open>Leading control characters and blanks go, tabs and line breaks go everywhere.\<close>

definition sanitize :: "string \<Rightarrow> string" where
  "sanitize url = filter (\<lambda>c. code c \<notin> {9, 10, 13}) (dropWhile (\<lambda>c. code c \<le> 32) url)"

definition split_scheme :: "string \<Rightarrow> string \<times> string" where
  "split_scheme url =
     (case partition_at (CHR '':'') url of
        (before, found, rest) \<Rightarrow>
          if found \<and> before \<noteq> [] \<and> (is_upper (hd before) \<or> is_lower (hd before)) \<and> list_all scheme_char before
          then (lower before, rest) else ([], url))"

definition ends_netloc :: "char \<Rightarrow> bool" where
  "ends_netloc c \<longleftrightarrow> c \<in> set ''/?#''"

definition urlparse :: "(string \<Rightarrow> bool) \<Rightarrow> string \<Rightarrow> uri res" where
  "urlparse brackets_ok text =
     (let (scheme, rest) = split_scheme (sanitize text);
          has_netloc = prefix ''//'' rest;
          netloc = (if has_netloc then takeWhile (\<lambda>c. \<not> ends_netloc c) (drop 2 rest) else []);
          tail = (if has_netloc then dropWhile (\<lambda>c. \<not> ends_netloc c) (drop 2 rest) else rest);
          opens = (CHR ''['' \<in> set netloc); closes = (CHR '']'' \<in> set netloc) in
      if opens \<noteq> closes then Err ValueError
      else if opens \<and> closes \<and> \<not> brackets_ok netloc then Err ValueError
      else
        (let no_fragment = takeWhile (\<lambda>c. c \<noteq> CHR ''#'') tail;
             (path, _, query) = partition_at (CHR ''?'') no_fragment in
         Ok \<lparr>ur_scheme = scheme, ur_netloc = netloc, ur_path = path, ur_query = query\<rparr>))"

text \<open>\<open>str.rpartition("@")[2]\<close>: what follows the last separator.\<close>

definition after_last :: "char \<Rightarrow> string \<Rightarrow> string" where
  "after_last c s = rev (takeWhile (\<lambda>d. d \<noteq> c) (rev s))"

definition hostinfo :: "uri \<Rightarrow> string \<times> string" where
  "hostinfo u =
     (let info = after_last (CHR ''@'') (ur_netloc u);
          (_, bracket, bracketed) = partition_at (CHR ''['') info in
      if bracket then
        (let (host, _, after) = partition_at (CHR '']'') bracketed in
         (host, snd (snd (partition_at (CHR '':'') after))))
      else
        (let (host, _, port) = partition_at (CHR '':'') info in (host, port)))"

definition hostname :: "uri \<Rightarrow> string option" where
  "hostname u =
     (case fst (hostinfo u) of
        [] \<Rightarrow> None
      | host \<Rightarrow>
          (let (name, percent, zone) = partition_at (CHR ''%'') host in
           Some (lower name @ (if percent then CHR ''%'' # zone else []))))"

definition port :: "uri \<Rightarrow> int option res" where
  "port u =
     (let p = snd (hostinfo u) in
      if p = [] then Ok None
      else if list_all is_digit p \<and> read_nat p 0 \<le> 65535 then Ok (Some (int (read_nat p 0)))
      else Err ValueError)"

text \<open>\<open>[s for s in path.split("/") if s]\<close>.\<close>

fun segments_from :: "string \<Rightarrow> string \<Rightarrow> string list" where
  "segments_from acc [] = (if acc = [] then [] else [rev acc])"
| "segments_from acc (c # cs) =
     (if c = CHR ''/'' then (if acc = [] then [] else [rev acc]) @ segments_from [] cs
      else segments_from (c # acc) cs)"

definition segments :: "string \<Rightarrow> string list" where
  "segments path = segments_from [] path"

section \<open>Bus and store URIs\<close>

definition TRANSPORT_SCHEMES :: "string list" where "TRANSPORT_SCHEMES = [''kafka'', ''pubsub'']"
definition DEDUP_SCHEMES :: "string list" where "DEDUP_SCHEMES = [''bigtable'', ''memory'', ''redis'']"
definition BIGTABLE_URI_SEGMENTS :: nat where "BIGTABLE_URI_SEGMENTS = 3"

definition parse_transport_uri :: "(string \<Rightarrow> bool) \<Rightarrow> string \<Rightarrow> (string \<times> string list) res" where
  "parse_transport_uri brackets_ok text =
     bindE (urlparse brackets_ok text) (\<lambda>u.
       if ur_scheme u \<notin> set TRANSPORT_SCHEMES then Err EffectorConfigError
       else if ur_netloc u = [] \<or> length (segments (ur_path u)) \<noteq> 1 then Err EffectorConfigError
       else Ok (ur_scheme u, [ur_netloc u, hd (segments (ur_path u))]))"

definition parse_dedup_uri :: "(string \<Rightarrow> bool) \<Rightarrow> string \<Rightarrow> (string \<times> string list) res" where
  "parse_dedup_uri brackets_ok text =
     bindE (urlparse brackets_ok text) (\<lambda>u.
       if ur_scheme u \<notin> set DEDUP_SCHEMES then Err EffectorConfigError
       else if ur_scheme u = ''memory'' then Ok (ur_scheme u, [])
       else if ur_scheme u = ''redis'' then
         (if hostname u = None then Err EffectorConfigError else Ok (ur_scheme u, [text]))
       else if ur_netloc u = [] \<or> length (segments (ur_path u)) \<noteq> BIGTABLE_URI_SEGMENTS - 1
         then Err EffectorConfigError
       else Ok (ur_scheme u, ur_netloc u # segments (ur_path u)))"

definition parse_intents_uri :: "(string \<Rightarrow> bool) \<Rightarrow> string \<Rightarrow> (string \<times> string \<times> string) res" where
  "parse_intents_uri brackets_ok text =
     bindE (urlparse brackets_ok text) (\<lambda>u.
       if ur_scheme u \<notin> set TRANSPORT_SCHEMES then Err UnknownSchemeError
       else if ur_netloc u = [] \<or> length (segments (ur_path u)) \<noteq> 1 then Err UnknownSchemeError
       else Ok (ur_scheme u, ur_netloc u, hd (segments (ur_path u))))"

section \<open>Redaction\<close>

text \<open>
  \<open>redact_uri\<close> substitutes every match of \<open>(?<=//)[^/@\s]*@\<close>: from a position behind two slashes,
  the run of characters that are no slash, at sign or blank, when an at sign ends it.
\<close>

definition userinfo_char :: "char \<Rightarrow> bool" where
  "userinfo_char c \<longleftrightarrow> c \<noteq> CHR ''/'' \<and> c \<noteq> CHR ''@'' \<and> \<not> is_space c"

lemma dropWhile_pred_less: "take (Suc 0) (dropWhile p xs) = [a] \<Longrightarrow> length (dropWhile p xs) - Suc 0 < length xs"
  using length_dropWhile_le[of p xs] by (cases "dropWhile p xs") auto

function redact_from :: "string \<Rightarrow> string \<Rightarrow> string" where
  "redact_from seen rest =
     (if take 2 seen = ''//'' \<and> take 1 (dropWhile userinfo_char rest) = ''@'' then
        ''***@'' @ redact_from ''@'' (tl (dropWhile userinfo_char rest))
      else
        (case rest of [] \<Rightarrow> [] | c # cs \<Rightarrow> c # redact_from (c # seen) cs))"
  by pat_completeness auto

termination
  by (relation "measure (\<lambda>(seen, rest). length rest)") (auto intro: dropWhile_pred_less)

declare redact_from.simps [simp del]

definition redact_uri :: "string \<Rightarrow> string" where
  "redact_uri text = redact_from [] text"

section \<open>Lemmas\<close>

text \<open>The separators a rendered URI is put together with are found again.\<close>

lemma partition_at_found: "c \<notin> set xs \<Longrightarrow> partition_at c (xs @ c # ys) = (xs, True, ys)"
  by (induction xs) (auto simp: partition_at_def split: list.splits)

lemma partition_at_absent: "c \<notin> set xs \<Longrightarrow> partition_at c xs = (xs, False, [])"
proof -
  assume "c \<notin> set xs"
  then have "dropWhile (\<lambda>d. d \<noteq> c) xs = []" by auto
  then show ?thesis by (simp only: partition_at_def list.case)
qed

lemma segments_one: "\<lbrakk>CHR ''/'' \<notin> set xs; xs \<noteq> []\<rbrakk> \<Longrightarrow> segments (CHR ''/'' # xs) = [xs]"
proof -
  have "CHR ''/'' \<notin> set xs \<Longrightarrow> segments_from acc xs = (if acc = [] \<and> xs = [] then [] else [rev acc @ xs])" for acc
    by (induction xs arbitrary: acc) auto
  then show "\<lbrakk>CHR ''/'' \<notin> set xs; xs \<noteq> []\<rbrakk> \<Longrightarrow> segments (CHR ''/'' # xs) = [xs]" by (simp add: segments_def)
qed

lemma segments_no_slash: "s \<in> set (segments_from acc p) \<Longrightarrow> CHR ''/'' \<notin> set acc \<Longrightarrow> CHR ''/'' \<notin> set s \<and> s \<noteq> []"
  by (induction acc p rule: segments_from.induct) (auto split: if_splits)

definition uri_char :: "char \<Rightarrow> bool" where
  "uri_char c \<longleftrightarrow> 32 < code c \<and> c \<notin> set ''/?#[]''"

lemma sanitize_id: "\<lbrakk>\<forall>c \<in> set s. 32 < code c\<rbrakk> \<Longrightarrow> sanitize s = s"
  by (cases s) (auto simp: sanitize_def filter_id_conv)

lemma takeWhile_netloc:
  assumes "\<forall>c \<in> set a. uri_char c"
  shows "takeWhile (\<lambda>c. \<not> ends_netloc c) (a @ CHR ''/'' # t) = a"
    and "dropWhile (\<lambda>c. \<not> ends_netloc c) (a @ CHR ''/'' # t) = CHR ''/'' # t"
proof -
  have "\<forall>c \<in> set a. \<not> ends_netloc c" using assms by (auto simp: uri_char_def ends_netloc_def)
  then show "takeWhile (\<lambda>c. \<not> ends_netloc c) (a @ CHR ''/'' # t) = a"
    and "dropWhile (\<lambda>c. \<not> ends_netloc c) (a @ CHR ''/'' # t) = CHR ''/'' # t"
    by (simp_all add: takeWhile_append2 dropWhile_append2 ends_netloc_def)
qed

lemma parse_transport_render:
  assumes "scheme \<in> set TRANSPORT_SCHEMES" and "\<forall>c \<in> set authority \<union> set topic. uri_char c"
    and "authority \<noteq> []" and "topic \<noteq> []"
  shows "parse_transport_uri brackets_ok (scheme @ ''://'' @ authority @ ''/'' @ topic) = Ok (scheme, [authority, topic])"
proof -
  let ?t = "scheme @ ''://'' @ authority @ ''/'' @ topic"
  have sch: "scheme = ''kafka'' \<or> scheme = ''pubsub''" using assms(1) by (auto simp: TRANSPORT_SCHEMES_def)
  have "\<forall>c \<in> set scheme. 32 < code c" "32 < code (CHR '':'')" "32 < code (CHR ''/'')"
    using sch by (elim disjE; simp add: code_def)+
  then have visible: "\<forall>c \<in> set ?t. 32 < code c" using assms(2) unfolding uri_char_def set_append by auto
  have "CHR '':'' \<notin> set scheme" "list_all scheme_char scheme" "is_lower (hd scheme)" "scheme \<noteq> []" "lower scheme = scheme"
    using sch by (elim disjE; simp add: scheme_char_def is_lower_def is_upper_def lower_def code_def)+
  then have split: "split_scheme (sanitize ?t) = (scheme, ''//'' @ authority @ ''/'' @ topic)"
    using partition_at_found[of "CHR '':''" scheme "''//'' @ authority @ ''/'' @ topic"] sanitize_id[OF visible]
    by (simp add: split_scheme_def)
  have frag: "CHR ''#'' \<notin> set topic" "CHR ''?'' \<notin> set topic" "CHR ''/'' \<notin> set topic"
      "CHR ''['' \<notin> set authority" "CHR '']'' \<notin> set authority"
    using assms(2) by (auto simp: uri_char_def)
  have "takeWhile (\<lambda>c. c \<noteq> CHR ''#'') topic = topic"
    unfolding takeWhile_eq_all_conv using frag(1) by blast
  moreover have "partition_at (CHR ''?'') (CHR ''/'' # topic) = (CHR ''/'' # topic, False, [])"
    using frag by (intro partition_at_absent) simp
  ultimately have "urlparse brackets_ok ?t =
      Ok \<lparr>ur_scheme = scheme, ur_netloc = authority, ur_path = CHR ''/'' # topic, ur_query = []\<rparr>"
    using split takeWhile_netloc[of authority topic] assms(2) frag
    by (simp add: urlparse_def takeWhile_eq_all_conv[THEN iffD2])
  then show ?thesis using assms segments_one[OF frag(3)] by (simp add: parse_transport_uri_def)
qed

lemma parse_transport_parts:
  "parse_transport_uri brackets_ok text = Ok (scheme, parts) \<Longrightarrow>
   scheme \<in> set TRANSPORT_SCHEMES \<and> (\<exists>authority topic. parts = [authority, topic] \<and> authority \<noteq> [] \<and>
     topic \<noteq> [] \<and> CHR ''/'' \<notin> set topic)"
proof -
  assume p: "parse_transport_uri brackets_ok text = Ok (scheme, parts)"
  then obtain u :: uri where u: "(if ur_scheme u \<notin> set TRANSPORT_SCHEMES then Err EffectorConfigError
       else if ur_netloc u = [] \<or> length (segments (ur_path u)) \<noteq> 1 then Err EffectorConfigError
       else Ok (ur_scheme u, [ur_netloc u, hd (segments (ur_path u))])) = Ok (scheme, parts)"
    unfolding parse_transport_uri_def bindE_Ok_iff by blast
  then have "length (segments (ur_path u)) = 1" by (simp split: if_splits)
  then have "hd (segments (ur_path u)) \<in> set (segments (ur_path u))" by (cases "segments (ur_path u)") auto
  then have "CHR ''/'' \<notin> set (hd (segments (ur_path u))) \<and> hd (segments (ur_path u)) \<noteq> []"
    unfolding segments_def by (rule segments_no_slash) simp
  then show ?thesis using u by (auto split: if_splits)
qed

text \<open>Redaction replaces the user information of a URI, wherever it stands in the text.\<close>

lemma redact_Nil [simp]: "redact_from seen [] = []"
  by (subst redact_from.simps) simp

lemma redact_step:
  "\<not> (take 2 seen = ''//'' \<and> take 1 (dropWhile userinfo_char (c # cs)) = ''@'') \<Longrightarrow>
   redact_from seen (c # cs) = c # redact_from (c # seen) cs"
  by (subst redact_from.simps) (simp only: if_False list.case)

lemma redact_userinfo:
  "\<forall>c \<in> set user. userinfo_char c \<Longrightarrow>
   redact_from (CHR ''/'' # CHR ''/'' # seen) (user @ CHR ''@'' # rest) = ''***@'' @ redact_from ''@'' rest"
  by (subst redact_from.simps) (simp add: dropWhile_append2 userinfo_char_def)

lemma redact_plain: "\<lbrakk>CHR ''/'' \<notin> set xs; take 2 seen \<noteq> ''//''\<rbrakk> \<Longrightarrow> redact_from seen xs = xs"
proof (induction xs arbitrary: seen)
  case (Cons c cs)
  have "redact_from seen (c # cs) = c # redact_from (c # seen) cs" by (rule redact_step) (use Cons.prems in auto)
  moreover have "take 2 (c # seen) \<noteq> ''//''" using Cons.prems(1) by (cases seen) auto
  ultimately show ?case using Cons by simp
qed simp

text \<open>
  \<open>redact_uri\<close> masks the user information of a store URI up to its first \<open>@\<close>; behind that, the
  text is shown as it is, so the rest of a password that itself contains an \<open>@\<close> is not masked.
\<close>

theorem redact_masks_to_first_at:
  assumes "\<forall>c \<in> set user. userinfo_char c" and "CHR ''/'' \<notin> set rest"
  shows "redact_uri (''redis://'' @ user @ ''@'' @ rest) = ''redis://***@'' @ rest"
proof -
  let ?t = "user @ CHR ''@'' # rest"
  have plain: "redact_from ''@'' rest = rest" by (rule redact_plain[OF assms(2)]) simp
  have step: "take 2 seen \<noteq> ''//'' \<Longrightarrow> redact_from seen (c # cs) = c # redact_from (c # seen) cs" for seen c cs
    by (rule redact_step) simp
  have "redact_from ''//:sider'' ?t = ''***@'' @ rest" using redact_userinfo[OF assms(1), of "'':sider''" rest] plain by simp
  moreover have "redact_from [] (''redis://'' @ ?t) = ''redis://'' @ redact_from ''//:sider'' ?t"
    by (simp add: step)
  ultimately show ?thesis by (simp add: redact_uri_def)
qed

theorem redact_masks_to_first_at_witness:
  "redact_uri ''redis://:hunter@2@cache:6379'' = ''redis://***@2@cache:6379''"
  using redact_masks_to_first_at[of "'':hunter''" "''2@cache:6379''"] by (simp add: userinfo_char_def is_space_def)

end
