(* ===== verification/Effector_Config.thy ===== *)
theory Effector_Config
  imports Uris
begin

text \<open>
  The effector's configuration (\<open>effector/config.py\<close>) and the part of its command line that builds
  one (\<open>effector/__main__.py\<close>): eager validation that imports no client, broker credentials held
  as references, and the client settings those resolve to. The warning a verifying mode without a
  dead-letter channel logs is not modelled.
\<close>

section \<open>Defaults\<close>

definition DEFAULT_LEASE_MS :: int where "DEFAULT_LEASE_MS = 300000"
definition DEFAULT_RESULT_TTL_MS :: int where "DEFAULT_RESULT_TTL_MS = 86400000"
definition DEFAULT_TOOL_TIMEOUT_MS :: int where "DEFAULT_TOOL_TIMEOUT_MS = 60000"

definition VERIFICATION_MODES :: "string list" where
  "VERIFICATION_MODES = [''off'', ''permissive'', ''require'']"

definition SASL_PROTOCOLS :: "string list" where
  "SASL_PROTOCOLS = [''SASL_PLAINTEXT'', ''SASL_SSL'']"

definition SECURITY_PROTOCOLS :: "string list" where
  "SECURITY_PROTOCOLS = [''PLAINTEXT'', ''SSL''] @ SASL_PROTOCOLS"

section \<open>Transport security\<close>

record transport_security =
  ts_protocol :: "string option"
  ts_mechanism :: "string option"
  ts_username_reference :: "string option"
  ts_password_reference :: "string option"
  ts_ca :: "string option"
  ts_cert :: "string option"
  ts_key :: "string option"

definition validate_reference_opt :: "string option \<Rightarrow> unit res" where
  "validate_reference_opt reference =
     (case reference of None \<Rightarrow> Ok () | Some r \<Rightarrow> validate_secret_reference r)"

definition security_validate :: "transport_security \<Rightarrow> unit res" where
  "security_validate ts =
     (if ts_protocol ts \<noteq> None \<and> the (ts_protocol ts) \<notin> set SECURITY_PROTOCOLS then Err ValueError
      else if ts_mechanism ts \<noteq> None \<and> ts_protocol ts \<notin> Some ` set SASL_PROTOCOLS then Err ValueError
      else bindE (validate_reference_opt (ts_username_reference ts)) (\<lambda>_.
           bindE (validate_reference_opt (ts_password_reference ts)) (\<lambda>_.
             if ts_mechanism ts \<noteq> None \<and>
                (ts_username_reference ts = None \<or> ts_password_reference ts = None)
             then Err ValueError else Ok ())))"

text \<open>A TLS context is the files it is made of; \<open>ssl\<close> loads them.\<close>

datatype client_arg =
    Text string
  | SslContext "string option" "(string \<times> string option) option"

definition ssl_context :: "transport_security \<Rightarrow> client_arg option" where
  "ssl_context ts =
     (if ts_protocol ts \<notin> {Some ''SSL'', Some ''SASL_SSL''} then None
      else Some (SslContext (ts_ca ts) (map_option (\<lambda>c. (c, ts_key ts)) (ts_cert ts))))"

definition text_arg :: "string \<Rightarrow> string option \<Rightarrow> (string \<times> client_arg) list" where
  "text_arg name v = (case v of None \<Rightarrow> [] | Some s \<Rightarrow> [(name, Text s)])"

definition resolve_opt :: "secrets_env \<Rightarrow> string option \<Rightarrow> string option res" where
  "resolve_opt sys reference =
     (case reference of
        None \<Rightarrow> Ok None
      | Some r \<Rightarrow> bindE (resolve_secret_reference sys r) (\<lambda>v. Ok (Some v)))"

definition client_kwargs :: "secrets_env \<Rightarrow> transport_security \<Rightarrow> (string, client_arg) dict res" where
  "client_kwargs sys ts =
     bindE (resolve_opt sys (ts_username_reference ts)) (\<lambda>username.
     bindE (resolve_opt sys (ts_password_reference ts)) (\<lambda>password.
       Ok (text_arg ''security_protocol'' (ts_protocol ts) @
           text_arg ''sasl_mechanism'' (ts_mechanism ts) @
           text_arg ''sasl_plain_username'' username @
           text_arg ''sasl_plain_password'' password @
           (case ssl_context ts of None \<Rightarrow> [] | Some c \<Rightarrow> [(''ssl_context'', c)]))))"

definition jaas_login_module :: "string \<Rightarrow> string" where
  "jaas_login_module mechanism =
     (if prefix ''SCRAM-'' mechanism then ''org.apache.kafka.common.security.scram.ScramLoginModule''
      else ''org.apache.kafka.common.security.plain.PlainLoginModule'')"

definition entry_opt :: "string \<Rightarrow> string option \<Rightarrow> (string \<times> string) list" where
  "entry_opt name v = (case v of None \<Rightarrow> [] | Some s \<Rightarrow> [(name, s)])"

definition sasl_properties :: "secrets_env \<Rightarrow> transport_security \<Rightarrow> (string, string) dict res" where
  "sasl_properties sys ts =
     (case ts_mechanism ts of
        None \<Rightarrow> Ok []
      | Some mechanism \<Rightarrow>
          (case (ts_username_reference ts, ts_password_reference ts) of
             (Some u, Some p) \<Rightarrow>
               bindE (resolve_secret_reference sys u) (\<lambda>username.
               bindE (resolve_secret_reference sys p) (\<lambda>password.
                 Ok [(''sasl.mechanism'', mechanism),
                     (''sasl.jaas.config'',
                      jaas_login_module mechanism @ '' required username='' @ [CHR 0x22] @ username @ [CHR 0x22] @
                      '' password='' @ [CHR 0x22] @ password @ [CHR 0x22] @ '';'')]))
           | _ \<Rightarrow> Err AssertionError))"

definition java_producer_config :: "secrets_env \<Rightarrow> transport_security \<Rightarrow> (string, string) dict res" where
  "java_producer_config sys ts =
     bindE (sasl_properties sys ts) (\<lambda>sasl.
       Ok (entry_opt ''security.protocol'' (ts_protocol ts) @ sasl @
           entry_opt ''ssl.truststore.location'' (ts_ca ts) @
           entry_opt ''ssl.keystore.location'' (ts_cert ts)))"

section \<open>The effector's configuration\<close>

record effector_config =
  ec_intents_from :: string
  ec_results_to :: string
  ec_approvals_to :: string
  ec_dedup :: string
  ec_consumer_group :: string
  ec_lease :: int
  ec_result_ttl :: int
  ec_tool_timeout :: int
  ec_publish_attempts :: int
  ec_publish_backoff :: int
  ec_wait_backoff :: int
  ec_wait_backoff_max :: int
  ec_partitions :: int
  ec_verify :: string
  ec_signing_keys :: "string option"
  ec_dead_letters_to :: "string option"
  ec_security :: "transport_security option"

definition unit_of :: "'a res \<Rightarrow> unit res" where
  "unit_of r = bindE r (\<lambda>_. Ok ())"

definition require_positive_setting :: "int \<Rightarrow> unit res" where
  "require_positive_setting v = (if v \<le> 0 then Err ValueError else Ok ())"

definition validate_verification :: "effector_config \<Rightarrow> unit res" where
  "validate_verification c =
     (if ec_verify c \<notin> set VERIFICATION_MODES then Err ValueError
      else if ec_verify c = ''off'' then Ok ()
      else (case ec_signing_keys c of
              None \<Rightarrow> Err ValueError
            | Some reference \<Rightarrow>
                if reference = [] then Err ValueError else validate_secret_reference reference))"

definition budgets :: "effector_config \<Rightarrow> int list" where
  "budgets c =
     [ec_lease c, ec_result_ttl c, ec_tool_timeout c, ec_publish_attempts c, ec_publish_backoff c,
      ec_wait_backoff c, ec_wait_backoff_max c, ec_partitions c]"

definition config_validate :: "(string \<Rightarrow> bool) \<Rightarrow> effector_config \<Rightarrow> unit res" where
  "config_validate brackets_ok c =
     bindE (unit_of (parse_transport_uri brackets_ok (ec_intents_from c))) (\<lambda>_.
     bindE (unit_of (parse_transport_uri brackets_ok (ec_results_to c))) (\<lambda>_.
     bindE (unit_of (parse_transport_uri brackets_ok (ec_approvals_to c))) (\<lambda>_.
     bindE (unit_of (parse_dedup_uri brackets_ok (ec_dedup c))) (\<lambda>_.
     bindE (case ec_dead_letters_to c of
              None \<Rightarrow> Ok () | Some u \<Rightarrow> unit_of (parse_transport_uri brackets_ok u)) (\<lambda>_.
     bindE (if ec_consumer_group c = [] then Err ValueError else Ok ()) (\<lambda>_.
     bindE (validate_verification c) (\<lambda>_.
     bindE (case ec_security c of None \<Rightarrow> Ok () | Some ts \<Rightarrow> security_validate ts) (\<lambda>_.
     bindE (unit_of (mapE require_positive_setting (budgets c))) (\<lambda>_.
       if ec_lease c \<le> ec_tool_timeout c then Err ValueError else Ok ())))))))))"

section \<open>The command line\<close>

text \<open>
  The parsed arguments, after the environment fallbacks of the flags. The attempts and the
  backoffs have no flag and keep their defaults.
\<close>

record effector_args =
  ea_registry :: "string option"
  ea_intents_from :: "string option"
  ea_results_to :: "string option"
  ea_approvals_to :: "string option"
  ea_dedup :: string
  ea_consumer_group :: string
  ea_lease :: int
  ea_result_ttl :: int
  ea_tool_timeout :: int
  ea_partitions :: int
  ea_verify :: string
  ea_signing_keys :: "string option"
  ea_dead_letters_to :: "string option"
  ea_security :: transport_security

definition transport_security_from_args :: "effector_args \<Rightarrow> transport_security option res" where
  "transport_security_from_args args =
     (let ts = ea_security args in
      if list_all (\<lambda>v. v = None)
           [ts_protocol ts, ts_mechanism ts, ts_username_reference ts, ts_password_reference ts,
            ts_ca ts, ts_cert ts, ts_key ts]
      then Ok None
      else bindE (security_validate ts) (\<lambda>_. Ok (Some ts)))"

definition config_from_args :: "(string \<Rightarrow> bool) \<Rightarrow> effector_args \<Rightarrow> effector_config res" where
  "config_from_args brackets_ok args =
     (case (ea_registry args, ea_intents_from args, ea_results_to args, ea_approvals_to args) of
        (Some registry, Some intents_from, Some results_to, Some approvals_to) \<Rightarrow>
          bindE (transport_security_from_args args) (\<lambda>security.
            let c = \<lparr>ec_intents_from = intents_from, ec_results_to = results_to, ec_approvals_to = approvals_to,
              ec_dedup = ea_dedup args, ec_consumer_group = ea_consumer_group args, ec_lease = ea_lease args,
              ec_result_ttl = ea_result_ttl args, ec_tool_timeout = ea_tool_timeout args,
              ec_publish_attempts = 5, ec_publish_backoff = 100, ec_wait_backoff = 250,
              ec_wait_backoff_max = 5000, ec_partitions = ea_partitions args, ec_verify = ea_verify args,
              ec_signing_keys = ea_signing_keys args, ec_dead_letters_to = ea_dead_letters_to args,
              ec_security = security\<rparr> in
            bindE (config_validate brackets_ok c) (\<lambda>_. Ok c))
      | _ \<Rightarrow> Err ValueError)"

definition registry_path :: "string \<Rightarrow> (string \<times> string) res" where
  "registry_path path =
     (let (module_name, _, attribute) = partition_at (CHR '':'') path in
      if module_name = [] \<or> attribute = [] then Err ValueError else Ok (module_name, attribute))"

definition load_verification_keyring ::
  "(string \<Rightarrow> bytes option) \<Rightarrow> secrets_env \<Rightarrow> effector_config \<Rightarrow> keyring option res" where
  "load_verification_keyring b64decode sys c =
     (if ec_verify c = ''off'' then Ok None
      else (case ec_signing_keys c of
              None \<Rightarrow> Err AssertionError
            | Some reference \<Rightarrow> bindE (load_keyring b64decode sys reference) (\<lambda>kr. Ok (Some kr))))"

text \<open>Which adapters a validated configuration names (\<open>_build_service\<close>).\<close>

record adapters =
  ad_source :: "string \<times> string list"
  ad_results :: "string \<times> string list"
  ad_approvals :: "string \<times> string list"
  ad_dedup :: "string \<times> string list"
  ad_dead_letters :: "(string \<times> string list) option"
  ad_keyring :: "keyring option"

definition build_service ::
  "(string \<Rightarrow> bool) \<Rightarrow> (string \<Rightarrow> bytes option) \<Rightarrow> secrets_env \<Rightarrow> effector_config \<Rightarrow> adapters res" where
  "build_service brackets_ok b64decode sys c =
     bindE (load_verification_keyring b64decode sys c) (\<lambda>keyring.
     bindE (parse_transport_uri brackets_ok (ec_intents_from c)) (\<lambda>src.
     bindE (parse_transport_uri brackets_ok (ec_results_to c)) (\<lambda>results.
     bindE (parse_transport_uri brackets_ok (ec_approvals_to c)) (\<lambda>approvals.
     bindE (parse_dedup_uri brackets_ok (ec_dedup c)) (\<lambda>dedup.
     bindE (case ec_dead_letters_to c of
              None \<Rightarrow> Ok None
            | Some u \<Rightarrow> bindE (parse_transport_uri brackets_ok u) (\<lambda>d. Ok (Some d))) (\<lambda>dead.
       Ok \<lparr>ad_source = src, ad_results = results, ad_approvals = approvals, ad_dedup = dedup,
           ad_dead_letters = dead, ad_keyring = keyring\<rparr>))))))"

section \<open>Lemmas\<close>

lemma unit_of_Ok [simp]: "unit_of r = Ok () \<longleftrightarrow> (\<exists>x. r = Ok x)"
  by (cases r) (auto simp: unit_of_def)

lemma mapE_unit: "(\<exists>us. mapE f xs = Ok us) \<longleftrightarrow> (\<forall>x \<in> set xs. \<exists>u. f x = Ok u)"
  by (induction xs) auto

lemma require_positive_setting_Ok [simp]: "require_positive_setting v = Ok u \<longleftrightarrow> 0 < v"
  by (cases u) (simp add: require_positive_setting_def)

text \<open>The budgets a validated configuration guarantees.\<close>

definition budgets_ok :: "effector_config \<Rightarrow> bool" where
  "budgets_ok c \<longleftrightarrow> (\<forall>v \<in> set (budgets c). 0 < v) \<and> ec_tool_timeout c < ec_lease c"

definition verification_ok :: "effector_config \<Rightarrow> bool" where
  "verification_ok c \<longleftrightarrow>
     ec_verify c = ''off'' \<or>
     (ec_verify c = ''permissive'' \<or> ec_verify c = ''require'') \<and>
     (\<exists>reference. ec_signing_keys c = Some reference \<and> validate_secret_reference reference = Ok ())"

lemma validate_secret_nonempty: "validate_secret_reference reference = Ok () \<Longrightarrow> reference \<noteq> []"
  by (auto simp: validate_secret_reference_def split: if_splits)

lemma validate_verification_iff: "validate_verification c = Ok () \<longleftrightarrow> verification_ok c"
  using validate_secret_nonempty
  by (auto simp: validate_verification_def verification_ok_def VERIFICATION_MODES_def split: option.splits)

lemma config_validate_iff:
  "config_validate b c = Ok () \<longleftrightarrow>
     (\<exists>x. parse_transport_uri b (ec_intents_from c) = Ok x) \<and>
     (\<exists>x. parse_transport_uri b (ec_results_to c) = Ok x) \<and>
     (\<exists>x. parse_transport_uri b (ec_approvals_to c) = Ok x) \<and>
     (\<exists>x. parse_dedup_uri b (ec_dedup c) = Ok x) \<and>
     (\<forall>u. ec_dead_letters_to c = Some u \<longrightarrow> (\<exists>x. parse_transport_uri b u = Ok x)) \<and>
     ec_consumer_group c \<noteq> [] \<and> verification_ok c \<and>
     (\<forall>ts. ec_security c = Some ts \<longrightarrow> security_validate ts = Ok ()) \<and> budgets_ok c"
  by (auto simp: config_validate_def budgets_ok_def validate_verification_iff mapE_unit not_le split: option.splits)

text \<open>Validation is what makes the assertions behind it hold.\<close>

lemma security_validate_sasl:
  "\<lbrakk>security_validate ts = Ok (); ts_mechanism ts = Some m\<rbrakk> \<Longrightarrow>
   (\<exists>p \<in> set SASL_PROTOCOLS. ts_protocol ts = Some p) \<and>
   (\<exists>u p. ts_username_reference ts = Some u \<and> ts_password_reference ts = Some p \<and>
     validate_secret_reference u = Ok () \<and> validate_secret_reference p = Ok ())"
  by (auto simp: security_validate_def validate_reference_opt_def split: if_splits option.splits)

lemma validated_sasl_no_assertion:
  "security_validate ts = Ok () \<Longrightarrow> java_producer_config sys ts \<noteq> Err AssertionError"
proof -
  assume ok: "security_validate ts = Ok ()"
  have ref: "resolve_secret_reference sys r \<noteq> Err AssertionError" for r
    by (auto simp: resolve_secret_reference_def validate_secret_reference_def bindE_Err_iff Let_def
        split: if_splits prod.splits option.splits)
  show ?thesis
  proof (cases "ts_mechanism ts")
    case None
    then show ?thesis by (simp add: java_producer_config_def sasl_properties_def)
  next
    case (Some m)
    then obtain u p where "ts_username_reference ts = Some u" "ts_password_reference ts = Some p"
      using security_validate_sasl[OF ok Some] by blast
    then show ?thesis using Some ref
      by (auto simp: java_producer_config_def sasl_properties_def bindE_Err_iff)
  qed
qed

section \<open>Properties\<close>

text \<open>
  A configuration the command line accepts is sound: its transports name an authority and a
  topic, the tool budget is positive and shorter than the lease, every lifetime and retry budget is
  positive, a keyring reference is there whenever verification is on, and its security settings
  trip no assertion of the client configuration.
\<close>

theorem accepted_config_sound:
  assumes "config_from_args b args = Ok c" and "u \<in> {ec_intents_from c, ec_results_to c, ec_approvals_to c}"
  shows "(\<exists>scheme authority topic. parse_transport_uri b u = Ok (scheme, [authority, topic]) \<and>
      scheme \<in> set TRANSPORT_SCHEMES \<and> authority \<noteq> [] \<and> topic \<noteq> []) \<and>
    0 < ec_tool_timeout c \<and> ec_tool_timeout c < ec_lease c \<and> 0 < ec_result_ttl c \<and>
    0 < ec_publish_attempts c \<and> 0 < ec_partitions c \<and>
    (ec_verify c = ''off'' \<or> (\<exists>r. ec_signing_keys c = Some r \<and> validate_secret_reference r = Ok ())) \<and>
    (case ec_security c of None \<Rightarrow> True | Some ts \<Rightarrow> java_producer_config sys ts \<noteq> Err AssertionError)"
proof -
  have ok: "config_validate b c = Ok ()" and sec: "\<And>ts. ec_security c = Some ts \<Longrightarrow> security_validate ts = Ok ()"
    using assms(1) config_validate_iff[of b c]
    by (auto simp: config_from_args_def Let_def bindE_Ok_iff split: option.splits)
  obtain scheme parts where "parse_transport_uri b u = Ok (scheme, parts)" using ok assms(2) by (auto simp: config_validate_iff)
  then show ?thesis using parse_transport_parts[of b u scheme parts] ok validated_sasl_no_assertion[OF sec]
    by (auto simp: config_validate_iff budgets_ok_def budgets_def verification_ok_def split: option.splits)
qed

definition sample_args :: effector_args where
  "sample_args =
     \<lparr>ea_registry = Some ''app:tools'', ea_intents_from = Some ''kafka://b/i'', ea_results_to = Some ''kafka://b/r'',
      ea_approvals_to = Some ''kafka://b/a'', ea_dedup = ''memory://'', ea_consumer_group = ''g'', ea_lease = 60,
      ea_result_ttl = 900, ea_tool_timeout = 30, ea_partitions = 4, ea_verify = ''off'', ea_signing_keys = None,
      ea_dead_letters_to = None,
      ea_security = \<lparr>ts_protocol = None, ts_mechanism = None, ts_username_reference = None, ts_password_reference = None,
        ts_ca = None, ts_cert = None, ts_key = None\<rparr>\<rparr>"

lemma sample_config: "map_sum id ec_results_to (config_from_args (\<lambda>_. True) sample_args) = Ok ''kafka://b/r''"
  by code_simp

theorem accepted_config_sound_witness:
  "\<exists>c. config_from_args (\<lambda>_. True) sample_args = Ok c \<and> ec_tool_timeout c < ec_lease c"
proof -
  obtain c where c: "config_from_args (\<lambda>_. True) sample_args = Ok c"
    using sample_config by (cases "config_from_args (\<lambda>_. True) sample_args") auto
  then show ?thesis using accepted_config_sound[OF c, of "ec_results_to c"] by auto
qed

end
