(* ===== verification/Effector_Service.thy ===== *)
theory Effector_Service
  imports Dedup Effector_Runner Effector_Config
begin

text \<open>
  The effector loop (\<open>effector/service.py\<close>, \<open>effector/sources.py\<close>): what one process keeps, and one
  function per stretch of code between two awaits. A worker's \<open>task\<close> is the await it stands at with
  its locals; the environment's answer to that await (a broker, the dedup store, a tool) is the
  argument of the function that runs on from there. Clock readings between two awaits coincide.
  A finite source and the drain behind it, and the log lines, are not modelled.
\<close>

section \<open>State\<close>

record delivered =
  dl_intent :: tool_intent
  dl_partition :: string
  dl_handle :: nat
  dl_payload :: bytes
  dl_key :: bytes

definition raw_payload :: "(tool_intent \<Rightarrow> bytes) \<Rightarrow> delivered \<Rightarrow> bytes" where
  "raw_payload serialize d = (if dl_payload d \<noteq> [] then dl_payload d else serialize (dl_intent d))"

definition raw_key :: "delivered \<Rightarrow> bytes" where
  "raw_key d = (if dl_key d \<noteq> [] then dl_key d else ti_key (dl_intent d))"

abbreviation intent_id_of :: "delivered \<Rightarrow> string" where
  "intent_id_of d \<equiv> ti_id (dl_intent d)"

record active_claim =
  cl_intent :: string
  cl_token :: string
  cl_executing :: bool

datatype publication = ResultMessage tool_result | ApprovalMessage tool_intent | DeadLetterMessage bytes bytes

text \<open>One call of \<open>process\<close>: its delivery, and the token once it owns the claim.\<close>

record job =
  jb_delivered :: delivered
  jb_token :: "string option"

datatype task =
    Getting
  | Acquiring delivered
  | Claiming delivered int bool
  | Waiting delivered int bool
  | Invoking delivered string msec msec
  | Completing delivered string "tool_result option"
  | Publishing job publication int int
  | Pausing job publication int int
  | Committing job
  | Crashed exn

record proc =
  pr_queues :: "string \<Rightarrow> delivered list option"
  pr_tasks :: "string \<Rightarrow> task option"
  pr_claims :: "string \<Rightarrow> active_claim option"
  pr_blocked :: "(delivered \<times> bool) option"
  pr_slots :: int
  pr_counters :: "(string, int) dict"
  pr_observations :: "(string \<times> int) list"
  pr_open :: bool

text \<open>What the outside world has seen, newest first.\<close>

datatype obs =
    Granted delivered string msec
  | Invoked delivered string msec
  | Stored delivered string "tool_result option"
  | Released string string
  | PublishedResult tool_result
  | PostedApproval tool_intent
  | DeadLettered bytes bytes
  | Committed delivered

record 's shared =
  sh_clock :: msec
  sh_store :: 's
  sh_tokens :: "string list"
  sh_log :: "obs list"

record ('s, 'w) service =
  sv_config :: effector_config
  sv_ops :: "'s dedup_ops"
  sv_registry :: "'w registry"
  sv_runner :: runner_ext
  sv_hmac :: "bytes \<Rightarrow> bytes \<Rightarrow> bytes"
  sv_serialize :: "tool_intent \<Rightarrow> bytes"
  sv_keyring :: keyring
  sv_dead_letters :: bool

definition init_proc :: "effector_config \<Rightarrow> proc" where
  "init_proc c =
     \<lparr>pr_queues = (\<lambda>_. None), pr_tasks = (\<lambda>_. None), pr_claims = (\<lambda>_. None), pr_blocked = None,
      pr_slots = ec_partitions c, pr_counters = [], pr_observations = [], pr_open = True\<rparr>"

section \<open>Metrics and bookkeeping\<close>

definition bump :: "string \<Rightarrow> proc \<Rightarrow> proc" where
  "bump name pr =
     pr\<lparr>pr_counters :=
       AList.update name ((case map_of (pr_counters pr) name of None \<Rightarrow> 0 | Some n \<Rightarrow> n) + 1) (pr_counters pr)\<rparr>"

definition bump_if :: "bool \<Rightarrow> string \<Rightarrow> proc \<Rightarrow> proc" where
  "bump_if b name pr = (if b then bump name pr else pr)"

definition goto :: "string \<Rightarrow> task \<Rightarrow> proc \<Rightarrow> proc" where
  "goto p t pr = pr\<lparr>pr_tasks := (pr_tasks pr)(p := Some t)\<rparr>"

definition emit :: "obs \<Rightarrow> 's shared \<Rightarrow> 's shared" where
  "emit ob sh = sh\<lparr>sh_log := ob # sh_log sh\<rparr>"

definition job_claim :: "string \<Rightarrow> job \<Rightarrow> proc \<Rightarrow> bool" where
  "job_claim p j pr \<longleftrightarrow>
     (case (jb_token j, pr_claims pr p) of (Some t, Some c) \<Rightarrow> cl_token c = t | _ \<Rightarrow> False)"

definition finish :: "string \<Rightarrow> job \<Rightarrow> proc \<Rightarrow> proc" where
  "finish p j pr =
     (goto p Getting pr)
       \<lparr>pr_claims := (if job_claim p j pr then (pr_claims pr)(p := None) else pr_claims pr),
        pr_slots := pr_slots pr + 1\<rparr>"

definition crash :: "string \<Rightarrow> exn \<Rightarrow> proc \<Rightarrow> proc" where
  "crash p e pr = (goto p (Crashed e) pr)\<lparr>pr_slots := pr_slots pr + 1\<rparr>"

definition publish :: "('s, 'w) service \<Rightarrow> string \<Rightarrow> job \<Rightarrow> publication \<Rightarrow> proc \<Rightarrow> proc" where
  "publish svc p j pub pr = goto p (Publishing j pub 1 (ec_publish_backoff (sv_config svc))) pr"

definition status_counter :: "result_status \<Rightarrow> string option" where
  "status_counter st =
     (case st of
        StatusOk \<Rightarrow> Some ''results_ok''
      | StatusError \<Rightarrow> Some ''results_error''
      | StatusExpired \<Rightarrow> Some ''results_expired''
      | StatusRejected \<Rightarrow> Some ''results_rejected''
      | _ \<Rightarrow> None)"

definition count_status :: "result_status \<Rightarrow> proc \<Rightarrow> proc" where
  "count_status st pr = (case status_counter st of None \<Rightarrow> pr | Some name \<Rightarrow> bump name pr)"

section \<open>The dispatcher\<close>

definition ensure_worker :: "string \<Rightarrow> proc \<Rightarrow> proc" where
  "ensure_worker p pr =
     (case pr_queues pr p of
        Some _ \<Rightarrow> pr
      | None \<Rightarrow> pr\<lparr>pr_queues := (pr_queues pr)(p := Some []), pr_tasks := (pr_tasks pr)(p := Some Getting)\<rparr>)"

definition put :: "delivered \<Rightarrow> proc \<Rightarrow> proc" where
  "put d pr =
     (case pr_queues pr (dl_partition d) of
        Some [] \<Rightarrow> pr\<lparr>pr_queues := (pr_queues pr)(dl_partition d := Some [d]), pr_blocked := None\<rparr>
      | _ \<Rightarrow> pr\<lparr>pr_blocked := Some (d, False)\<rparr>)"

definition dispatch :: "delivered \<Rightarrow> proc \<Rightarrow> proc option" where
  "dispatch d pr =
     (if pr_open pr \<and> pr_blocked pr = None then Some (put d (ensure_worker (dl_partition d) pr)) else None)"

text \<open>A blocked \<open>put\<close> goes on when its queue, the one it was started on, has room again.\<close>

definition resume_put :: "proc \<Rightarrow> proc option" where
  "resume_put pr =
     (case pr_blocked pr of
        Some (d, False) \<Rightarrow> if pr_queues pr (dl_partition d) = Some [] then Some (put d pr) else None
      | _ \<Rightarrow> None)"

section \<open>One intent\<close>

text \<open>Phase 0: the verdict on a delivery and the counters it bumps.\<close>

definition verified :: "('s, 'w) service \<Rightarrow> delivered \<Rightarrow> verification_result option \<times> string list" where
  "verified svc d =
     (let mode = ec_verify (sv_config svc) in
      if mode = ''off'' then (None, [])
      else (case verify_intent (sv_hmac svc) (sv_serialize svc) (sv_keyring svc) (dl_intent d) of
              VerOk \<Rightarrow> (None, [])
            | reason \<Rightarrow>
                if reason = VerUnsigned \<and> mode = ''permissive'' then (None, [''unsigned_intents_accepted''])
                else (Some reason, [verification_reason reason, ''intents_dead_lettered''])))"

definition unclaimed :: "delivered \<Rightarrow> job" where
  "unclaimed d = \<lparr>jb_delivered = d, jb_token = None\<rparr>"

definition owned :: "delivered \<Rightarrow> string \<Rightarrow> job" where
  "owned d tok = \<lparr>jb_delivered = d, jb_token = Some tok\<rparr>"

text \<open>Phases 0 and 1: authenticity, then expiry, before the store is touched.\<close>

definition begin_process :: "('s, 'w) service \<Rightarrow> string \<Rightarrow> delivered \<Rightarrow> msec \<Rightarrow> proc \<Rightarrow> proc" where
  "begin_process svc p d now pr =
     (let (refusal, names) = verified svc d; pr1 = fold bump names pr in
      case refusal of
        Some _ \<Rightarrow>
          if sv_dead_letters svc
          then publish svc p (unclaimed d) (DeadLetterMessage (raw_key d) (raw_payload (sv_serialize svc) d)) pr1
          else goto p (Committing (unclaimed d)) pr1
      | None \<Rightarrow>
          (case refuse_expired (dl_intent d) now of
             Some r \<Rightarrow> publish svc p (unclaimed d) (ResultMessage r) (bump ''intents_expired'' pr1)
           | None \<Rightarrow> goto p (Claiming d (ec_wait_backoff (sv_config svc)) False) pr1))"

definition executed :: "string \<Rightarrow> delivered \<Rightarrow> string \<Rightarrow> msec \<Rightarrow> msec \<Rightarrow> tool_result \<Rightarrow> proc \<Rightarrow> proc" where
  "executed p d tok started_ms now r pr =
     goto p (Completing d tok (Some r))
       (count_status (tr_status r)
         (pr\<lparr>pr_observations := (''tool_latency_ms.'' @ ti_tool (dl_intent d), now - started_ms) # pr_observations pr\<rparr>))"

definition set_claim :: "string \<Rightarrow> delivered \<Rightarrow> string \<Rightarrow> bool \<Rightarrow> proc \<Rightarrow> proc" where
  "set_claim p d tok executing pr =
     pr\<lparr>pr_claims := (pr_claims pr)(p := Some \<lparr>cl_intent = intent_id_of d, cl_token = tok, cl_executing = executing\<rparr>)\<rparr>"

text \<open>Behind a granted claim: an approval is routed, anything else executes up to the call.\<close>

definition start_owned ::
  "('s, 'w) service \<Rightarrow> string \<Rightarrow> delivered \<Rightarrow> string \<Rightarrow> msec \<Rightarrow> proc \<Rightarrow> 's shared \<Rightarrow> proc \<times> 's shared" where
  "start_owned svc p d tok granted_ms pr sh =
     (if ti_kind (dl_intent d) = ApprovalKind
      then (publish svc p (owned d tok) (ApprovalMessage (dl_intent d)) (set_claim p d tok True pr), sh)
      else
        (case prepare (sv_runner svc) (sv_registry svc) (dl_intent d) (sh_clock sh) of
           Refused r \<Rightarrow> (executed p d tok (sh_clock sh) (sh_clock sh) r (set_claim p d tok False pr), sh)
         | EscapedError e \<Rightarrow> (crash p e (set_claim p d tok False pr), sh)
         | Call plan \<Rightarrow>
             (goto p (Invoking d tok (sh_clock sh) (sh_clock sh)) (set_claim p d tok True pr),
              emit (Invoked d tok granted_ms) sh)))"

text \<open>Phase 2: the store's answer to a claim.\<close>

definition on_claim ::
  "('s, 'w) service \<Rightarrow> string \<Rightarrow> delivered \<Rightarrow> int \<Rightarrow> bool \<Rightarrow> msec \<Rightarrow> string \<Rightarrow> proc \<Rightarrow> 's shared \<Rightarrow> proc \<times> 's shared" where
  "on_claim svc p d backoff waited later tok pr sh =
     (let now = sh_clock sh;
          (outcome, store) = dd_claim (sv_ops svc) now later tok (intent_id_of d) (ec_lease (sv_config svc)) (sh_store sh);
          sh1 = sh\<lparr>sh_clock := later, sh_store := store, sh_tokens := tok # sh_tokens sh\<rparr>;
          pr1 = bump_if waited ''in_flight_waits_resolved'' pr in
      case outcome of
        Err e \<Rightarrow> (crash p e pr, sh1)
      | Ok InFlight \<Rightarrow> (goto p (Waiting d backoff True) (bump_if (\<not> waited) ''in_flight_waits'' pr), sh1)
      | Ok (Done result) \<Rightarrow>
          (case result of
             Some r \<Rightarrow> (publish svc p (unclaimed d) (ResultMessage r) (bump ''intents_deduped'' pr1), sh1)
           | None \<Rightarrow> (goto p (Committing (unclaimed d)) (bump ''intents_deduped'' pr1), sh1))
      | Ok (Claimed t) \<Rightarrow> start_owned svc p d t now pr1 (emit (Granted d t now) sh1))"

definition on_backoff :: "('s, 'w) service \<Rightarrow> string \<Rightarrow> delivered \<Rightarrow> int \<Rightarrow> bool \<Rightarrow> proc \<Rightarrow> proc" where
  "on_backoff svc p d backoff waited pr =
     goto p (Claiming d (min (backoff * 2) (ec_wait_backoff_max (sv_config svc))) waited) pr"

definition on_tool ::
  "('s, 'w) service \<Rightarrow> string \<Rightarrow> delivered \<Rightarrow> string \<Rightarrow> msec \<Rightarrow> msec \<Rightarrow> msec \<Rightarrow> json res \<Rightarrow> proc \<Rightarrow> proc" where
  "on_tool svc p d tok started_ms now_ms now outcome pr =
     executed p d tok started_ms now
       (settle (sv_runner svc) (ec_tool_timeout (sv_config svc)) (dl_intent d) now_ms outcome) pr"

text \<open>Phase 3: durable before published (a result), or routed before marked (an approval).\<close>

definition on_complete ::
  "('s, 'w) service \<Rightarrow> string \<Rightarrow> delivered \<Rightarrow> string \<Rightarrow> tool_result option \<Rightarrow> msec \<Rightarrow> proc \<Rightarrow> 's shared \<Rightarrow> proc \<times> 's shared" where
  "on_complete svc p d tok result later pr sh =
     (let (stored, store) = dd_complete (sv_ops svc) (sh_clock sh) later tok (intent_id_of d) result
            (ec_result_ttl (sv_config svc)) (sh_store sh);
          sh1 = sh\<lparr>sh_clock := later, sh_store := store\<rparr> in
      if \<not> stored then (finish p (owned d tok) (bump ''claims_lost'' pr), sh1)
      else (case result of
              Some r \<Rightarrow> (publish svc p (owned d tok) (ResultMessage r) pr, emit (Stored d tok result) sh1)
            | None \<Rightarrow> (goto p (Committing (owned d tok)) (bump ''approvals_routed'' pr), emit (Stored d tok result) sh1)))"

text \<open>
  A store call whose answer never arrives (a broken connection, a cancellation) may still have
  taken effect; the worker that awaited it is gone.
\<close>

definition lost_claim ::
  "('s, 'w) service \<Rightarrow> string \<Rightarrow> delivered \<Rightarrow> msec \<Rightarrow> string \<Rightarrow> exn \<Rightarrow> proc \<Rightarrow> 's shared \<Rightarrow> proc \<times> 's shared" where
  "lost_claim svc p d later tok e pr sh =
     (let (outcome, store) = dd_claim (sv_ops svc) (sh_clock sh) later tok (intent_id_of d)
            (ec_lease (sv_config svc)) (sh_store sh);
          sh1 = sh\<lparr>sh_clock := later, sh_store := store, sh_tokens := tok # sh_tokens sh\<rparr> in
      (crash p e pr,
       case outcome of Ok (Claimed t) \<Rightarrow> emit (Granted d t (sh_clock sh)) sh1 | _ \<Rightarrow> sh1))"

definition lost_complete ::
  "('s, 'w) service \<Rightarrow> string \<Rightarrow> delivered \<Rightarrow> string \<Rightarrow> tool_result option \<Rightarrow> msec \<Rightarrow> exn \<Rightarrow> proc \<Rightarrow> 's shared \<Rightarrow>
   proc \<times> 's shared" where
  "lost_complete svc p d tok result later e pr sh =
     (let (stored, store) = dd_complete (sv_ops svc) (sh_clock sh) later tok (intent_id_of d) result
            (ec_result_ttl (sv_config svc)) (sh_store sh);
          sh1 = sh\<lparr>sh_clock := later, sh_store := store\<rparr> in
      (crash p e pr, if stored then emit (Stored d tok result) sh1 else sh1))"

text \<open>
  One attempt of \<open>_with_retry\<close>. A publication that raised may have reached the channel or not.
\<close>

datatype sink_reply = Acked | SinkFailed exn | SentUnacked exn

definition publication_obs :: "publication \<Rightarrow> obs" where
  "publication_obs pub =
     (case pub of
        ResultMessage r \<Rightarrow> PublishedResult r
      | ApprovalMessage i \<Rightarrow> PostedApproval i
      | DeadLetterMessage k m \<Rightarrow> DeadLettered k m)"

definition after_publish :: "job \<Rightarrow> publication \<Rightarrow> task" where
  "after_publish j pub =
     (case (pub, jb_token j) of
        (ApprovalMessage _, Some tok) \<Rightarrow> Completing (jb_delivered j) tok None
      | _ \<Rightarrow> Committing j)"

definition publish_failed ::
  "('s, 'w) service \<Rightarrow> string \<Rightarrow> job \<Rightarrow> publication \<Rightarrow> int \<Rightarrow> int \<Rightarrow> proc \<Rightarrow> proc" where
  "publish_failed svc p j pub attempt backoff pr =
     (let pr1 = bump ''publish_retries'' pr in
      if attempt < ec_publish_attempts (sv_config svc) then goto p (Pausing j pub attempt backoff) pr1
      else crash p PublishFailedError (bump ''publish_failures'' pr1))"

definition on_publish ::
  "('s, 'w) service \<Rightarrow> string \<Rightarrow> job \<Rightarrow> publication \<Rightarrow> int \<Rightarrow> int \<Rightarrow> sink_reply \<Rightarrow> proc \<Rightarrow> 's shared \<Rightarrow> proc \<times> 's shared" where
  "on_publish svc p j pub attempt backoff reply pr sh =
     (case reply of
        Acked \<Rightarrow> (goto p (after_publish j pub) pr, emit (publication_obs pub) sh)
      | SinkFailed e \<Rightarrow> (publish_failed svc p j pub attempt backoff pr, sh)
      | SentUnacked e \<Rightarrow> (publish_failed svc p j pub attempt backoff pr, emit (publication_obs pub) sh))"

definition on_pause :: "string \<Rightarrow> job \<Rightarrow> publication \<Rightarrow> int \<Rightarrow> int \<Rightarrow> proc \<Rightarrow> proc" where
  "on_pause p j pub attempt backoff pr = goto p (Publishing j pub (attempt + 1) (backoff * 2)) pr"

text \<open>Phase 4.\<close>

definition on_commit :: "string \<Rightarrow> job \<Rightarrow> exn option \<Rightarrow> proc \<Rightarrow> 's shared \<Rightarrow> proc \<times> 's shared" where
  "on_commit p j err pr sh =
     (case err of
        Some e \<Rightarrow> (crash p e pr, sh)
      | None \<Rightarrow> (finish p j pr, emit (Committed (jb_delivered j)) sh))"

section \<open>Revocation and shutdown\<close>

definition release_claim ::
  "('s, 'w) service \<Rightarrow> string \<Rightarrow> msec \<Rightarrow> proc \<Rightarrow> 's shared \<Rightarrow> proc \<times> 's shared" where
  "release_claim svc p later pr sh =
     (case pr_claims pr p of
        None \<Rightarrow> (pr, sh)
      | Some c \<Rightarrow>
          (let pr1 = pr\<lparr>pr_claims := (pr_claims pr)(p := None)\<rparr> in
           if cl_executing c then (pr1, sh)
           else
             (let (released, store) = dd_release (sv_ops svc) (sh_clock sh) later (cl_token c) (cl_intent c) (sh_store sh);
                  sh1 = sh\<lparr>sh_clock := later, sh_store := store\<rparr> in
              (bump ''claims_released'' pr1,
               if released then emit (Released (cl_intent c) (cl_token c)) sh1 else sh1))))"

definition holds_slot :: "task option \<Rightarrow> bool" where
  "holds_slot t = (case t of None \<Rightarrow> False | Some Getting \<Rightarrow> False | Some (Acquiring _) \<Rightarrow> False
     | Some (Crashed _) \<Rightarrow> False | _ \<Rightarrow> True)"

definition abandon_put :: "string \<Rightarrow> (delivered \<times> bool) option \<Rightarrow> (delivered \<times> bool) option" where
  "abandon_put p blocked =
     (case blocked of Some (d, stale) \<Rightarrow> Some (d, stale \<or> dl_partition d = p) | None \<Rightarrow> None)"

text \<open>
  \<open>_on_revoked\<close>: the worker is cancelled and awaited; one that had died raises its exception
  again, before the claim is handed back.
\<close>

definition drop_worker :: "string \<Rightarrow> proc \<Rightarrow> proc" where
  "drop_worker p pr =
     pr\<lparr>pr_tasks := (pr_tasks pr)(p := None), pr_queues := (pr_queues pr)(p := None),
        pr_blocked := (if pr_queues pr p = None then pr_blocked pr else abandon_put p (pr_blocked pr)),
        pr_slots := (if holds_slot (pr_tasks pr p) then pr_slots pr + 1 else pr_slots pr)\<rparr>"

definition on_revoked ::
  "('s, 'w) service \<Rightarrow> string \<Rightarrow> msec \<Rightarrow> proc \<Rightarrow> 's shared \<Rightarrow> proc \<times> 's shared" where
  "on_revoked svc p later pr sh =
     (case pr_tasks pr p of
        Some (Crashed e) \<Rightarrow> (drop_worker p pr, sh)
      | _ \<Rightarrow>
          (let (pr1, sh1) = release_claim svc p later (drop_worker p pr) sh in
           (bump ''partitions_revoked'' pr1, sh1)))"

definition abort :: "('s, 'w) service \<Rightarrow> proc \<Rightarrow> proc" where
  "abort svc pr =
     pr\<lparr>pr_tasks := (\<lambda>_. None), pr_queues := (\<lambda>_. None), pr_blocked := None,
        pr_slots := ec_partitions (sv_config svc), pr_open := False\<rparr>"

section \<open>Workers\<close>

text \<open>The environment's answer to the await a worker stands at.\<close>

datatype reply =
    Item
  | Slot
  | Elapsed
  | StoreClaim msec string
  | StoreComplete msec
  | StoreFailed exn
  | ClaimLost msec string exn
  | CompleteLost msec exn
  | ToolReturned "json res"
  | Sink sink_reply
  | CommitDone "exn option"

definition advance ::
  "('s, 'w) service \<Rightarrow> string \<Rightarrow> reply \<Rightarrow> proc \<Rightarrow> 's shared \<Rightarrow> (proc \<times> 's shared) option" where
  "advance svc p reply pr sh =
     (case (pr_tasks pr p, reply) of
        (Some Getting, Item) \<Rightarrow>
          (case pr_queues pr p of
             Some (d # q) \<Rightarrow> Some (goto p (Acquiring d) (pr\<lparr>pr_queues := (pr_queues pr)(p := Some q)\<rparr>), sh)
           | _ \<Rightarrow> None)
      | (Some (Acquiring d), Slot) \<Rightarrow>
          if 0 < pr_slots pr
          then Some (begin_process svc p d (sh_clock sh) (pr\<lparr>pr_slots := pr_slots pr - 1\<rparr>), sh) else None
      | (Some (Claiming d backoff waited), StoreClaim later tok) \<Rightarrow>
          if sh_clock sh \<le> later \<and> tok \<notin> set (sh_tokens sh)
          then Some (on_claim svc p d backoff waited later tok pr sh) else None
      | (Some (Claiming d backoff waited), StoreFailed e) \<Rightarrow> Some (crash p e pr, sh)
      | (Some (Claiming d backoff waited), ClaimLost later tok e) \<Rightarrow>
          if sh_clock sh \<le> later \<and> tok \<notin> set (sh_tokens sh)
          then Some (lost_claim svc p d later tok e pr sh) else None
      | (Some (Waiting d backoff waited), Elapsed) \<Rightarrow> Some (on_backoff svc p d backoff waited pr, sh)
      | (Some (Invoking d tok started now_ms), ToolReturned outcome) \<Rightarrow>
          Some (on_tool svc p d tok started now_ms (sh_clock sh) outcome pr, sh)
      | (Some (Completing d tok result), StoreComplete later) \<Rightarrow>
          if sh_clock sh \<le> later then Some (on_complete svc p d tok result later pr sh) else None
      | (Some (Completing d tok result), StoreFailed e) \<Rightarrow> Some (crash p e pr, sh)
      | (Some (Completing d tok result), CompleteLost later e) \<Rightarrow>
          if sh_clock sh \<le> later then Some (lost_complete svc p d tok result later e pr sh) else None
      | (Some (Publishing j pub attempt backoff), Sink r) \<Rightarrow> Some (on_publish svc p j pub attempt backoff r pr sh)
      | (Some (Pausing j pub attempt backoff), Elapsed) \<Rightarrow> Some (on_pause p j pub attempt backoff pr, sh)
      | (Some (Committing j), CommitDone err) \<Rightarrow> Some (on_commit p j err pr sh)
      | _ \<Rightarrow> None)"

section \<open>A fleet of processes over one store\<close>

record 's fleet =
  fl_shared :: "'s shared"
  fl_procs :: "nat \<Rightarrow> proc"

datatype action =
    Tick int
  | Deliver nat delivered
  | Unblock nat
  | Work nat string reply
  | Revoke nat string msec
  | Shutdown nat
  | CloseClaim nat string msec
  | Kill nat

definition with_proc :: "nat \<Rightarrow> (proc \<times> 's shared) \<Rightarrow> 's fleet \<Rightarrow> 's fleet" where
  "with_proc n r fl = fl\<lparr>fl_procs := (fl_procs fl)(n := fst r), fl_shared := snd r\<rparr>"

definition fleet_step :: "('s, 'w) service \<Rightarrow> action \<Rightarrow> 's fleet \<Rightarrow> 's fleet option" where
  "fleet_step svc a fl =
     (let sh = fl_shared fl in
      case a of
        Tick dt \<Rightarrow> if 0 \<le> dt then Some (fl\<lparr>fl_shared := sh\<lparr>sh_clock := sh_clock sh + dt\<rparr>\<rparr>) else None
      | Deliver n d \<Rightarrow> map_option (\<lambda>pr. with_proc n (pr, sh) fl) (dispatch d (fl_procs fl n))
      | Unblock n \<Rightarrow> map_option (\<lambda>pr. with_proc n (pr, sh) fl) (resume_put (fl_procs fl n))
      | Work n p r \<Rightarrow> map_option (\<lambda>x. with_proc n x fl) (advance svc p r (fl_procs fl n) sh)
      | Revoke n p later \<Rightarrow>
          if sh_clock sh \<le> later then Some (with_proc n (on_revoked svc p later (fl_procs fl n) sh) fl) else None
      | Shutdown n \<Rightarrow> Some (with_proc n (abort svc (fl_procs fl n), sh) fl)
      | CloseClaim n p later \<Rightarrow>
          if sh_clock sh \<le> later \<and> \<not> pr_open (fl_procs fl n)
          then Some (with_proc n (release_claim svc p later (fl_procs fl n) sh) fl) else None
      | Kill n \<Rightarrow> Some (with_proc n (init_proc (sv_config svc), sh) fl))"

definition init_fleet :: "('s, 'w) service \<Rightarrow> msec \<Rightarrow> 's \<Rightarrow> 's fleet" where
  "init_fleet svc now store =
     \<lparr>fl_shared = \<lparr>sh_clock = now, sh_store = store, sh_tokens = [], sh_log = []\<rparr>,
      fl_procs = (\<lambda>_. init_proc (sv_config svc))\<rparr>"

inductive fleet_run :: "('s, 'w) service \<Rightarrow> 's fleet \<Rightarrow> 's fleet \<Rightarrow> bool" for svc fl0 where
  start: "fleet_run svc fl0 fl0"
| step: "\<lbrakk>fleet_run svc fl0 fl; fleet_step svc a fl = Some fl'\<rbrakk> \<Longrightarrow> fleet_run svc fl0 fl'"

end
