(* ===== verification/Effector_Log.thy ===== *)
theory Effector_Log
  imports Effector_Service
begin

text \<open>
  What the log of a fleet may hold: each observation is justified by older ones (\<open>entry_ok\<close>), and
  what a worker's await, a registered claim and the live records of the store say about the log.
  The lemmas show the parts of these conditions no store operation is involved in.
\<close>

definition authentic :: "('s, 'w) service \<Rightarrow> delivered \<Rightarrow> bool" where
  "authentic svc d \<longleftrightarrow> fst (verified svc d) = None"

definition unreleased :: "obs list \<Rightarrow> string \<Rightarrow> bool" where
  "unreleased log tok \<longleftrightarrow> (\<forall>i. Released i tok \<notin> set log)"

text \<open>The terminal outcome a worker is about to store.\<close>

definition outcome_ok :: "obs list \<Rightarrow> delivered \<Rightarrow> string \<Rightarrow> tool_result option \<Rightarrow> bool" where
  "outcome_ok log d tok result \<longleftrightarrow>
     (case result of
        None \<Rightarrow> ti_kind (dl_intent d) = ApprovalKind \<and> PostedApproval (dl_intent d) \<in> set log
      | Some r \<Rightarrow> ti_kind (dl_intent d) \<noteq> ApprovalKind \<and> answers (dl_intent d) r \<and>
          ((\<exists>c. Invoked d tok c \<in> set log) \<or> tr_status r = StatusRejected) \<and>
          tr_status r \<in> {StatusOk, StatusError, StatusRejected})"

definition result_ok :: "('s, 'w) service \<Rightarrow> obs list \<Rightarrow> string \<Rightarrow> tool_result \<Rightarrow> bool" where
  "result_ok svc log i r \<longleftrightarrow>
     (\<exists>d. authentic svc d \<and> intent_id_of d = i \<and> answers (dl_intent d) r \<and>
       ((\<exists>tok. Stored d tok (Some r) \<in> set log) \<or> (\<exists>now. refuse_expired (dl_intent d) now = Some r)))"

definition resolved :: "('s, 'w) service \<Rightarrow> obs list \<Rightarrow> delivered \<Rightarrow> bool" where
  "resolved svc log d \<longleftrightarrow>
     (if authentic svc d
      then (\<exists>r. PublishedResult r \<in> set log \<and> tr_id r = intent_id_of d) \<or>
        (\<exists>d' tok. intent_id_of d' = intent_id_of d \<and> Stored d' tok None \<in> set log)
      else sv_dead_letters svc \<longrightarrow> DeadLettered (raw_key d) (raw_payload (sv_serialize svc) d) \<in> set log)"

fun entry_ok :: "('s, 'w) service \<Rightarrow> int \<Rightarrow> obs list \<Rightarrow> obs \<Rightarrow> bool" where
  "entry_ok svc K log (Granted d tok c) \<longleftrightarrow>
     authentic svc d \<and>
     (\<forall>d' y c'. Granted d' y c' \<in> set log \<and> intent_id_of d' = intent_id_of d \<and> unreleased log y \<longrightarrow> c' + K \<le> c)"
| "entry_ok svc K log (Invoked d tok c) \<longleftrightarrow>
     Granted d tok c \<in> set log \<and> unreleased log tok \<and> ti_kind (dl_intent d) \<noteq> ApprovalKind \<and>
     (\<exists>now plan. prepare (sv_runner svc) (sv_registry svc) (dl_intent d) now = Call plan) \<and>
     (\<forall>d' y c'. Invoked d' y c' \<in> set log \<and> intent_id_of d' = intent_id_of d \<longrightarrow> y \<noteq> tok \<and> c' + K \<le> c)"
| "entry_ok svc K log (Stored d tok result) \<longleftrightarrow>
     (\<exists>c. Granted d tok c \<in> set log) \<and> outcome_ok log d tok result"
| "entry_ok svc K log (Released i tok) \<longleftrightarrow>
     (\<exists>d c. Granted d tok c \<in> set log \<and> intent_id_of d = i) \<and> (\<forall>d c. Invoked d tok c \<notin> set log)"
| "entry_ok svc K log (PublishedResult r) \<longleftrightarrow> result_ok svc log (tr_id r) r"
| "entry_ok svc K log (PostedApproval i) \<longleftrightarrow>
     (\<exists>d tok c. dl_intent d = i \<and> ti_kind i = ApprovalKind \<and> Granted d tok c \<in> set log)"
| "entry_ok svc K log (DeadLettered k m) \<longleftrightarrow>
     (\<exists>d. \<not> authentic svc d \<and> k = raw_key d \<and> m = raw_payload (sv_serialize svc) d)"
| "entry_ok svc K log (Committed d) \<longleftrightarrow> resolved svc log d"

fun log_ok :: "('s, 'w) service \<Rightarrow> int \<Rightarrow> obs list \<Rightarrow> bool" where
  "log_ok svc K [] \<longleftrightarrow> True"
| "log_ok svc K (ob # log) \<longleftrightarrow> entry_ok svc K log ob \<and> log_ok svc K log"

fun token_of :: "obs \<Rightarrow> string option" where
  "token_of (Granted d tok c) = Some tok"
| "token_of (Invoked d tok c) = Some tok"
| "token_of (Stored d tok r) = Some tok"
| "token_of (Released i tok) = Some tok"
| "token_of _ = None"

definition tokens_known :: "'s shared \<Rightarrow> bool" where
  "tokens_known sh \<longleftrightarrow> (\<forall>ob \<in> set (sh_log sh). \<forall>tok. token_of ob = Some tok \<longrightarrow> tok \<in> set (sh_tokens sh))"

section \<open>Workers and claims\<close>

definition granted_to :: "('s, 'w) service \<Rightarrow> obs list \<Rightarrow> delivered \<Rightarrow> string \<Rightarrow> bool" where
  "granted_to svc log d tok \<longleftrightarrow> authentic svc d \<and> (\<exists>c. Granted d tok c \<in> set log)"

fun publication_ok :: "('s, 'w) service \<Rightarrow> obs list \<Rightarrow> job \<Rightarrow> publication \<Rightarrow> bool" where
  "publication_ok svc log j (ResultMessage r) \<longleftrightarrow>
     authentic svc (jb_delivered j) \<and> result_ok svc log (intent_id_of (jb_delivered j)) r"
| "publication_ok svc log j (ApprovalMessage i) \<longleftrightarrow>
     i = dl_intent (jb_delivered j) \<and> ti_kind i = ApprovalKind \<and>
     (\<exists>tok. jb_token j = Some tok \<and> granted_to svc log (jb_delivered j) tok)"
| "publication_ok svc log j (DeadLetterMessage k m) \<longleftrightarrow>
     \<not> authentic svc (jb_delivered j) \<and> k = raw_key (jb_delivered j) \<and> m = raw_payload (sv_serialize svc) (jb_delivered j)"

fun task_ok :: "('s, 'w) service \<Rightarrow> obs list \<Rightarrow> task \<Rightarrow> bool" where
  "task_ok svc log (Claiming d b w) \<longleftrightarrow> authentic svc d"
| "task_ok svc log (Waiting d b w) \<longleftrightarrow> authentic svc d"
| "task_ok svc log (Invoking d tok s n) \<longleftrightarrow>
     granted_to svc log d tok \<and> ti_kind (dl_intent d) \<noteq> ApprovalKind \<and> (\<exists>c. Invoked d tok c \<in> set log)"
| "task_ok svc log (Completing d tok result) \<longleftrightarrow> granted_to svc log d tok \<and> outcome_ok log d tok result"
| "task_ok svc log (Publishing j pub a b) \<longleftrightarrow> publication_ok svc log j pub"
| "task_ok svc log (Pausing j pub a b) \<longleftrightarrow> publication_ok svc log j pub"
| "task_ok svc log (Committing j) \<longleftrightarrow> resolved svc log (jb_delivered j)"
| "task_ok svc log _ \<longleftrightarrow> True"

definition claim_ok :: "obs list \<Rightarrow> active_claim \<Rightarrow> bool" where
  "claim_ok log c \<longleftrightarrow>
     (\<exists>d t. Granted d (cl_token c) t \<in> set log \<and> intent_id_of d = cl_intent c) \<and>
     (\<not> cl_executing c \<longrightarrow> (\<forall>d t. Invoked d (cl_token c) t \<notin> set log))"

definition proc_ok :: "('s, 'w) service \<Rightarrow> obs list \<Rightarrow> proc \<Rightarrow> bool" where
  "proc_ok svc log pr \<longleftrightarrow>
     (\<forall>p t. pr_tasks pr p = Some t \<longrightarrow> task_ok svc log t) \<and>
     (\<forall>p c. pr_claims pr p = Some c \<longrightarrow> claim_ok log c)"

text \<open>How the shared state may move on while another process looks away.\<close>

definition extends :: "'s shared \<Rightarrow> 's shared \<Rightarrow> bool" where
  "extends sh sh' \<longleftrightarrow>
     (\<exists>new. sh_log sh' = new @ sh_log sh \<and> (\<forall>d tok c. Invoked d tok c \<in> set new \<longrightarrow> tok \<notin> set (sh_tokens sh)))"

lemma outcome_ok_mono: "\<lbrakk>outcome_ok log d tok r; set log \<subseteq> set log'\<rbrakk> \<Longrightarrow> outcome_ok log' d tok r"
  by (auto simp: outcome_ok_def split: option.splits)

lemma result_ok_mono: "\<lbrakk>result_ok svc log i r; set log \<subseteq> set log'\<rbrakk> \<Longrightarrow> result_ok svc log' i r"
  unfolding result_ok_def by blast

lemma resolved_mono: "\<lbrakk>resolved svc log d; set log \<subseteq> set log'\<rbrakk> \<Longrightarrow> resolved svc log' d"
  unfolding resolved_def by (auto split: if_splits)

lemma granted_to_mono: "\<lbrakk>granted_to svc log d tok; set log \<subseteq> set log'\<rbrakk> \<Longrightarrow> granted_to svc log' d tok"
  unfolding granted_to_def by blast

lemma publication_ok_mono: "\<lbrakk>publication_ok svc log j pub; set log \<subseteq> set log'\<rbrakk> \<Longrightarrow> publication_ok svc log' j pub"
  by (cases pub) (auto intro: result_ok_mono granted_to_mono)

lemma task_ok_mono: "\<lbrakk>task_ok svc log t; set log \<subseteq> set log'\<rbrakk> \<Longrightarrow> task_ok svc log' t"
  by (cases t) (auto intro: resolved_mono granted_to_mono publication_ok_mono outcome_ok_mono)

lemma proc_ok_same: "proc_ok svc log pr \<Longrightarrow> set log = set log' \<Longrightarrow> proc_ok svc log' pr"
  by (auto simp: proc_ok_def claim_ok_def intro: task_ok_mono)

lemma extends_refl [simp]: "extends sh sh"
  by (simp add: extends_def)

lemma proc_ok_extends:
  assumes "proc_ok svc (sh_log sh) pr" and "extends sh sh'" and "tokens_known sh"
  shows "proc_ok svc (sh_log sh') pr"
proof -
  obtain new where new: "sh_log sh' = new @ sh_log sh"
    and fresh: "\<forall>d tok c. Invoked d tok c \<in> set new \<longrightarrow> tok \<notin> set (sh_tokens sh)"
    using assms(2) by (auto simp: extends_def)
  have known: "tok \<in> set (sh_tokens sh)" if "Granted d tok c \<in> set (sh_log sh)" for d tok c
    using assms(3) that by (fastforce simp: tokens_known_def)
  have "claim_ok (sh_log sh') c" if "claim_ok (sh_log sh) c" for c
  proof -
    have "Invoked d (cl_token c) t \<notin> set new" for d t using that fresh known unfolding claim_ok_def by blast
    then show ?thesis using that by (auto simp: claim_ok_def new)
  qed
  moreover have "set (sh_log sh) \<subseteq> set (sh_log sh')" by (simp add: new)
  ultimately show ?thesis using assms(1) task_ok_mono unfolding proc_ok_def by blast
qed

section \<open>Entries of a lawful log\<close>

lemma log_ok_split: "log_ok svc K (as @ ob # bs) \<Longrightarrow> entry_ok svc K bs ob \<and> log_ok svc K bs"
  by (induction as) auto

lemma log_okD: "\<lbrakk>log_ok svc K log; ob \<in> set log\<rbrakk> \<Longrightarrow> \<exists>as bs. log = as @ ob # bs \<and> entry_ok svc K bs ob"
  using log_ok_split by (fastforce dest: split_list)

lemma log_ok_granted:
  assumes "log_ok svc K log" and "Invoked d tok c \<in> set log"
  shows "Granted d tok c \<in> set log \<and> authentic svc d"
proof -
  obtain as bs where s: "log = as @ Invoked d tok c # bs" "Granted d tok c \<in> set bs"
    using log_okD[OF assms] by auto
  have "log_ok svc K bs" using log_ok_split assms(1) s(1) by blast
  then show ?thesis using log_okD[of svc K bs] s by fastforce
qed

lemma log_ok_stored:
  assumes "log_ok svc K log" and "Stored d tok r \<in> set log"
  shows "granted_to svc log d tok \<and> outcome_ok log d tok r"
proof -
  obtain as bs c where s: "log = as @ Stored d tok r # bs" and g: "Granted d tok c \<in> set bs" and o: "outcome_ok bs d tok r"
    using log_okD[OF assms] by auto
  have "log_ok svc K bs" using log_ok_split assms(1) s by blast
  then have "authentic svc d" using log_okD g by fastforce
  then show ?thesis using s g outcome_ok_mono[OF o, of log] by (auto simp: granted_to_def)
qed

lemma invoked_unreleased:
  "\<lbrakk>log_ok svc K log; Invoked d tok c \<in> set log\<rbrakk> \<Longrightarrow> unreleased log tok"
  by (induction log) (auto simp: unreleased_def)

end
