(* ===== verification/Effector_Store.thy ===== *)
theory Effector_Store
  imports Effector_Log
begin

text \<open>
  The live records of the dedup store against the log: \<open>store_ok\<close>, and what each store operation
  does to it for any store that keeps the contract \<open>dedup_store\<close>.
\<close>

definition grants_kept ::
  "('s \<Rightarrow> msec \<Rightarrow> string \<Rightarrow> slot option) \<Rightarrow> int \<Rightarrow> msec \<Rightarrow> 's \<Rightarrow> obs list \<Rightarrow> bool" where
  "grants_kept live K now store log \<longleftrightarrow>
     (\<forall>d y c t. Granted d y c \<in> set log \<and> unreleased log y \<and> now \<le> t \<and> t < c + K \<longrightarrow>
        live store t (intent_id_of d) = Some (Held y) \<or> (\<exists>r. live store t (intent_id_of d) = Some (Terminal r)))"

definition terminals_logged ::
  "('s \<Rightarrow> msec \<Rightarrow> string \<Rightarrow> slot option) \<Rightarrow> msec \<Rightarrow> 's \<Rightarrow> obs list \<Rightarrow> bool" where
  "terminals_logged live now store log \<longleftrightarrow>
     (\<forall>t \<ge> now. \<forall>i r. live store t i = Some (Terminal r) \<longrightarrow> (\<exists>d tok. intent_id_of d = i \<and> Stored d tok r \<in> set log))"

definition grants_past :: "msec \<Rightarrow> obs list \<Rightarrow> bool" where
  "grants_past now log \<longleftrightarrow> (\<forall>d y c. Granted d y c \<in> set log \<longrightarrow> c \<le> now)"

text \<open>No record outlives the longest lifetime the service asks for.\<close>

definition lifetimes_end :: "('s \<Rightarrow> msec \<Rightarrow> string \<Rightarrow> slot option) \<Rightarrow> int \<Rightarrow> msec \<Rightarrow> 's \<Rightarrow> bool" where
  "lifetimes_end live M now store \<longleftrightarrow> (\<forall>t i. now + M \<le> t \<and> now \<le> t \<longrightarrow> live store t i = None)"

definition store_ok ::
  "('s \<Rightarrow> msec \<Rightarrow> string \<Rightarrow> slot option) \<Rightarrow> (msec \<Rightarrow> 's \<Rightarrow> bool) \<Rightarrow> int \<Rightarrow> int \<Rightarrow> msec \<Rightarrow> 's \<Rightarrow> obs list \<Rightarrow> bool" where
  "store_ok live sinv K M now store log \<longleftrightarrow>
     sinv now store \<and> grants_kept live K now store log \<and> terminals_logged live now store log \<and>
     grants_past now log \<and> lifetimes_end live M now store"

text \<open>Observations the store has no part in.\<close>

definition neutral :: "obs \<Rightarrow> bool" where
  "neutral ob \<longleftrightarrow> (case ob of Granted d t c \<Rightarrow> False | Released i t \<Rightarrow> False | _ \<Rightarrow> True)"

lemma unreleased_Cons [simp]:
  "unreleased (Granted d t c # log) y = unreleased log y" "unreleased (Invoked d t c # log) y = unreleased log y"
  "unreleased (Stored d t r # log) y = unreleased log y"
  "unreleased (PublishedResult q # log) y = unreleased log y" "unreleased (PostedApproval ti # log) y = unreleased log y"
  "unreleased (DeadLettered k m # log) y = unreleased log y" "unreleased (Committed d # log) y = unreleased log y"
  "unreleased (Released i t # log) y = (y \<noteq> t \<and> unreleased log y)"
  by (auto simp: unreleased_def)

lemma store_ok_neutral: "\<lbrakk>neutral ob; store_ok live sinv K M now store log\<rbrakk> \<Longrightarrow> store_ok live sinv K M now store (ob # log)"
  unfolding store_ok_def
proof (intro conjI; elim conjE)
  assume n: "neutral ob"
  have g: "Granted d y c \<in> set (ob # log) \<longleftrightarrow> Granted d y c \<in> set log" for d y c
    using n by (auto simp: neutral_def)
  have u: "unreleased (ob # log) y \<longleftrightarrow> unreleased log y" for y
    using n by (cases ob) (auto simp: neutral_def)
  show "grants_kept live K now store log \<Longrightarrow> grants_kept live K now store (ob # log)"
    unfolding grants_kept_def g u .
  show "terminals_logged live now store log \<Longrightarrow> terminals_logged live now store (ob # log)"
    unfolding terminals_logged_def by (meson list.set_intros(2))
  show "grants_past now log \<Longrightarrow> grants_past now (ob # log)"
    unfolding grants_past_def g .
qed

lemma grants_expired:
  "\<lbrakk>grants_kept live K now store log; live store now i = None; Granted d y c \<in> set log; intent_id_of d = i; unreleased log y\<rbrakk>
   \<Longrightarrow> c + K \<le> now"
  unfolding grants_kept_def by (metis leI option.distinct(1) order_refl)

text \<open>A store operation that replaces the record of one intent.\<close>

lemma terminals_step:
  assumes "terminals_logged live now s log" and le: "now \<le> later" and upd: "\<forall>t \<ge> later. live s' t = (live s t)(i := x t)"
    and new: "\<And>t r. x t = Some (Terminal r) \<Longrightarrow> \<exists>d tok. intent_id_of d = i \<and> Stored d tok r \<in> set log'"
    and sub: "set log \<subseteq> set log'"
  shows "terminals_logged live later s' log'"
  unfolding terminals_logged_def
proof (intro allI impI)
  fix t j r assume t: "later \<le> t" and l: "live s' t j = Some (Terminal r)"
  show "\<exists>d tok. intent_id_of d = j \<and> Stored d tok r \<in> set log'"
  proof (cases "j = i")
    case True
    then have "x t = Some (Terminal r)" using upd t l by simp
    then show ?thesis using new True by blast
  next
    case False
    then have "live s t j = Some (Terminal r)" using upd t l by simp
    then show ?thesis using assms(1) le t sub unfolding terminals_logged_def by (meson order_trans subsetD)
  qed
qed

lemma grants_step:
  assumes kept: "grants_kept live K now s log" and le: "now \<le> later" and upd: "\<forall>t \<ge> later. live s' t = (live s t)(i := x t)"
    and new: "\<And>d y c t. \<lbrakk>Granted d y c \<in> set log'; unreleased log' y; intent_id_of d = i; later \<le> t; t < c + K\<rbrakk>
      \<Longrightarrow> x t = Some (Held y) \<or> (\<exists>r. x t = Some (Terminal r))"
    and old: "\<And>d y c. \<lbrakk>Granted d y c \<in> set log'; unreleased log' y; intent_id_of d \<noteq> i\<rbrakk>
      \<Longrightarrow> Granted d y c \<in> set log \<and> unreleased log y"
  shows "grants_kept live K later s' log'"
  unfolding grants_kept_def
proof (intro allI impI, elim conjE)
  fix d y c t assume g: "Granted d y c \<in> set log'" "unreleased log' y" and t: "later \<le> t" "t < c + K"
  show "live s' t (intent_id_of d) = Some (Held y) \<or> (\<exists>r. live s' t (intent_id_of d) = Some (Terminal r))"
  proof (cases "intent_id_of d = i")
    case True
    then show ?thesis using new[OF g True t] upd t by simp
  next
    case False
    have "now \<le> t" using t le by simp
    then show ?thesis using old[OF g False] kept t False upd unfolding grants_kept_def by auto
  qed
qed

context dedup_store
begin

lemma store_ok_later: "\<lbrakk>store_ok live inv K M now s log; now \<le> later\<rbrakk> \<Longrightarrow> store_ok live inv K M later s log"
proof -
  assume ok: "store_ok live inv K M now s log" and le: "now \<le> later"
  have "lifetimes_end live M later s" using ok le by (auto simp: store_ok_def lifetimes_end_def)
  then show ?thesis using ok le inv_later
    unfolding store_ok_def grants_kept_def terminals_logged_def grants_past_def by (meson order_trans)
qed

lemma store_ok_unchanged:
  "\<lbrakk>store_ok live inv K M now s log; now \<le> later; unchanged live later s s'; inv later s'\<rbrakk>
   \<Longrightarrow> store_ok live inv K M later s' log"
  using store_ok_later[of K M now s log later]
  unfolding store_ok_def grants_kept_def terminals_logged_def lifetimes_end_def unchanged_def
  by (intro conjI; metis)

lemma claim_store_ok:
  assumes ok: "store_ok live inv K M now s log" and le: "now \<le> later" and K: "K \<le> lease" and M: "lease \<le> M"
    and run: "dd_claim ops now later tok i lease s = (out, s')"
  shows "live s now i = None \<and> out = Ok (Claimed tok) \<and>
      (\<forall>d. intent_id_of d = i \<longrightarrow> store_ok live inv K M later s' (Granted d tok now # log)) \<or>
    (out = Ok InFlight \<or> (\<exists>r d y. out = Ok (Done r) \<and> intent_id_of d = i \<and> Stored d y r \<in> set log)) \<and>
      store_ok live inv K M later s' log"
proof (cases "live s now i")
  case None
  have inv: "inv now s" and kept: "grants_kept live K now s log" and logged: "terminals_logged live now s log"
    and past: "grants_past now log" and ends: "lifetimes_end live M now s" using ok by (simp_all add: store_ok_def)
  obtain e where out: "out = Ok (Claimed tok)" and e: "now + lease \<le> e" and e': "e \<le> later + lease" and inv': "inv later s'"
    and s': "\<forall>t \<ge> later. live s' t = (live s t)(i := if t < e then Some (Held tok) else None)"
    using claim_free[OF inv le run None] by (auto simp: granted_def)
  have "store_ok live inv K M later s' (Granted d tok now # log)" if d: "intent_id_of d = i" for d
    unfolding store_ok_def
  proof (intro conjI)
    show "inv later s'" by (fact inv')
    show "lifetimes_end live M later s'" using ends s' le e' M by (auto simp: lifetimes_end_def)
    show "grants_past later (Granted d tok now # log)" using past le by (force simp: grants_past_def)
    show "terminals_logged live later s' (Granted d tok now # log)"
      by (rule terminals_step[OF logged le s']) (auto split: if_splits)
    show "grants_kept live K later s' (Granted d tok now # log)"
    proof (rule grants_step[OF kept le s'])
      fix d' y c t
      assume a: "Granted d' y c \<in> set (Granted d tok now # log)" "unreleased (Granted d tok now # log) y"
        "intent_id_of d' = i" "later \<le> t" "t < c + K"
      show "(if t < e then Some (Held tok) else None) = Some (Held y) \<or>
          (\<exists>r. (if t < e then Some (Held tok) else None) = Some (Terminal r))"
      proof (cases "Granted d' y c = Granted d tok now")
        case False
        then show ?thesis using grants_expired[OF kept None, of d' y c] a le by auto
      qed (use a e K in auto)
    qed (use d in auto)
  qed
  then show ?thesis using None out by blast
next
  case (Some x)
  have inv: "inv now s" and logged: "terminals_logged live now s log" using ok by (simp_all add: store_ok_def)
  note taken = claim_taken[OF inv le run Some]
  have "store_ok live inv K M later s' log" using store_ok_unchanged[OF ok le] taken by blast
  moreover have "out = Ok InFlight \<or> (\<exists>r d y. out = Ok (Done r) \<and> intent_id_of d = i \<and> Stored d y r \<in> set log)"
    using taken logged Some unfolding terminals_logged_def by blast
  ultimately show ?thesis by blast
qed

lemma complete_store_ok:
  assumes ok: "store_ok live inv K M now s log" and le: "now \<le> later" and K: "K \<le> ttl" and M: "ttl \<le> M" and st: "storable r"
    and run: "dd_complete ops now later tok (intent_id_of d) r ttl s = (b, s')"
  shows "b \<and> live s now (intent_id_of d) = Some (Held tok) \<and> store_ok live inv K M later s' (Stored d tok r # log) \<or>
    \<not> b \<and> store_ok live inv K M later s' log"
proof (cases "live s now (intent_id_of d) = Some (Held tok)")
  case True
  have inv: "inv now s" and kept: "grants_kept live K now s log" and logged: "terminals_logged live now s log"
    and past: "grants_past now log" and ends: "lifetimes_end live M now s" using ok by (simp_all add: store_ok_def)
  obtain e where b: b and e: "now + ttl \<le> e" and e': "e \<le> later + ttl" and inv': "inv later s'"
    and s': "\<forall>t \<ge> later. live s' t = (live s t)(intent_id_of d := if t < e then Some (Terminal r) else None)"
    using complete_owner[OF inv le st run True] by (auto simp: granted_def)
  have "store_ok live inv K M later s' (Stored d tok r # log)"
    unfolding store_ok_def
  proof (intro conjI)
    show "inv later s'" by (fact inv')
    show "lifetimes_end live M later s'" using ends s' le e' M by (auto simp: lifetimes_end_def)
    show "grants_past later (Stored d tok r # log)" using past le by (force simp: grants_past_def)
    show "terminals_logged live later s' (Stored d tok r # log)"
      by (rule terminals_step[OF logged le s']) (auto split: if_splits)
    show "grants_kept live K later s' (Stored d tok r # log)"
      by (rule grants_step[OF kept le s']) (use past e K in \<open>auto simp: grants_past_def, force\<close>)
  qed
  then show ?thesis using b True by blast
next
  case False
  have inv: "inv now s" using ok by (simp add: store_ok_def)
  show ?thesis using complete_other[OF inv le run False] store_ok_unchanged[OF ok le] by blast
qed

lemma release_store_ok:
  assumes ok: "store_ok live inv K M now s log" and le: "now \<le> later"
    and run: "dd_release ops now later tok i s = (b, s')"
  shows "b \<and> store_ok live inv K M later s' (Released i tok # log) \<or> \<not> b \<and> store_ok live inv K M later s' log"
proof (cases "live s now i = Some (Held tok)")
  case True
  have inv: "inv now s" and kept: "grants_kept live K now s log" and logged: "terminals_logged live now s log"
    and past: "grants_past now log" and ends: "lifetimes_end live M now s" using ok by (simp_all add: store_ok_def)
  have b: b and inv': "inv later s'" and s': "\<forall>t \<ge> later. live s' t = (live s t)(i := None)"
    using release_owner[OF inv le run True] by auto
  have "store_ok live inv K M later s' (Released i tok # log)"
    unfolding store_ok_def
  proof (intro conjI)
    show "inv later s'" by (fact inv')
    show "lifetimes_end live M later s'" using ends s' le by (auto simp: lifetimes_end_def)
    show "grants_past later (Released i tok # log)" using past le by (force simp: grants_past_def)
    show "terminals_logged live later s' (Released i tok # log)"
      by (rule terminals_step[OF logged le, where i = i and x = "\<lambda>_. None"]) (use s' in auto)
    show "grants_kept live K later s' (Released i tok # log)"
    proof (rule grants_step[OF kept le, where i = i and x = "\<lambda>_. None"])
      fix d' y c t
      assume a: "Granted d' y c \<in> set (Released i tok # log)" "unreleased (Released i tok # log) y"
        "intent_id_of d' = i" "later \<le> t" "t < c + K"
      then have "\<not> now < c + K" using kept True unfolding grants_kept_def by fastforce
      then show "None = Some (Held y) \<or> (\<exists>r. None = Some (Terminal r))" using a le by simp
    qed (use s' in auto)
  qed
  then show ?thesis using b by blast
next
  case False
  have inv: "inv now s" using ok by (simp add: store_ok_def)
  show ?thesis using release_other[OF inv le run False] store_ok_unchanged[OF ok le] by blast
qed

end

end
