(* ===== verification/Effector_Invariants.thy ===== *)
theory Effector_Invariants
  imports Effector_Store
begin

text \<open>
  Every step of a fleet keeps its log lawful, its store in agreement with the log, and its workers
  and claims justified by it. \<open>keeps\<close> is the contract of one function of the service; the lemmas
  inside \<open>dedup_store\<close> hold for any store that keeps the documented laws.
\<close>

text \<open>The shortest and the longest lifetime a record is asked to have.\<close>

definition shortest :: "('s, 'w) service \<Rightarrow> int" where
  "shortest svc = min (ec_lease (sv_config svc)) (ec_result_ttl (sv_config svc))"

definition longest :: "('s, 'w) service \<Rightarrow> int" where
  "longest svc = max (ec_lease (sv_config svc)) (ec_result_ttl (sv_config svc))"

lemma lifetimes [simp]:
  "shortest svc \<le> ec_lease (sv_config svc)" "shortest svc \<le> ec_result_ttl (sv_config svc)"
  "ec_lease (sv_config svc) \<le> longest svc" "ec_result_ttl (sv_config svc) \<le> longest svc"
  by (simp_all add: shortest_def longest_def)

definition shared_ok ::
  "('s, 'w) service \<Rightarrow> ('s \<Rightarrow> msec \<Rightarrow> string \<Rightarrow> slot option) \<Rightarrow> (msec \<Rightarrow> 's \<Rightarrow> bool) \<Rightarrow> int \<Rightarrow> 's shared \<Rightarrow> bool" where
  "shared_ok svc live sinv K sh \<longleftrightarrow>
     store_ok live sinv K (longest svc) (sh_clock sh) (sh_store sh) (sh_log sh) \<and> log_ok svc K (sh_log sh) \<and> tokens_known sh"

definition keeps ::
  "('s, 'w) service \<Rightarrow> ('s \<Rightarrow> msec \<Rightarrow> string \<Rightarrow> slot option) \<Rightarrow> (msec \<Rightarrow> 's \<Rightarrow> bool) \<Rightarrow> int \<Rightarrow> 's shared \<Rightarrow>
   proc \<times> 's shared \<Rightarrow> bool" where
  "keeps svc live sinv K sh x \<longleftrightarrow>
     shared_ok svc live sinv K (snd x) \<and> proc_ok svc (sh_log (snd x)) (fst x) \<and> extends sh (snd x)"

definition fleet_ok ::
  "('s, 'w) service \<Rightarrow> ('s \<Rightarrow> msec \<Rightarrow> string \<Rightarrow> slot option) \<Rightarrow> (msec \<Rightarrow> 's \<Rightarrow> bool) \<Rightarrow> int \<Rightarrow> 's fleet \<Rightarrow> bool" where
  "fleet_ok svc live sinv K fl \<longleftrightarrow>
     shared_ok svc live sinv K (fl_shared fl) \<and> (\<forall>n. proc_ok svc (sh_log (fl_shared fl)) (fl_procs fl n))"

section \<open>Bookkeeping\<close>

lemma bump_simps [simp]:
  "pr_tasks (bump name pr) = pr_tasks pr" "pr_claims (bump name pr) = pr_claims pr"
  "pr_tasks (bump_if b name pr) = pr_tasks pr" "pr_claims (bump_if b name pr) = pr_claims pr"
  "pr_tasks (count_status st pr) = pr_tasks pr" "pr_claims (count_status st pr) = pr_claims pr"
  by (auto simp: bump_def bump_if_def count_status_def split: option.splits)

lemma fold_bump_simps [simp]:
  "pr_tasks (fold bump names pr) = pr_tasks pr" "pr_claims (fold bump names pr) = pr_claims pr"
  by (induction names arbitrary: pr) simp_all

lemma goto_simps [simp]:
  "pr_tasks (goto p t pr) = (pr_tasks pr)(p := Some t)" "pr_claims (goto p t pr) = pr_claims pr"
  by (simp_all add: goto_def)

lemma emit_simps [simp]:
  "sh_log (emit ob sh) = ob # sh_log sh" "sh_clock (emit ob sh) = sh_clock sh" "sh_store (emit ob sh) = sh_store sh"
  "sh_tokens (emit ob sh) = sh_tokens sh"
  by (simp_all add: emit_def)

lemma proc_ok_task: "\<lbrakk>proc_ok svc log pr; pr_tasks pr p = Some t\<rbrakk> \<Longrightarrow> task_ok svc log t"
  by (auto simp: proc_ok_def)

lemma proc_okI:
  assumes "proc_ok svc log pr" and "pr_tasks pr' = (pr_tasks pr)(p := Some t)" and "task_ok svc log t"
    and "\<And>q c. pr_claims pr' q = Some c \<Longrightarrow> pr_claims pr q = Some c \<or> claim_ok log c"
  shows "proc_ok svc log pr'"
  using assms unfolding proc_ok_def by (metis fun_upd_apply option.inject)

lemma proc_ok_goto: "\<lbrakk>proc_ok svc log pr; task_ok svc log t\<rbrakk> \<Longrightarrow> proc_ok svc log (goto p t pr)"
  by (rule proc_okI[of svc log pr _ p t]) auto

lemma proc_ok_bump [simp]:
  "proc_ok svc log (bump name pr) = proc_ok svc log pr" "proc_ok svc log (bump_if b name pr) = proc_ok svc log pr"
  "proc_ok svc log (count_status st pr) = proc_ok svc log pr" "proc_ok svc log (fold bump names pr) = proc_ok svc log pr"
  "proc_ok svc log (pr\<lparr>pr_slots := n\<rparr>) = proc_ok svc log pr"
  "proc_ok svc log (pr\<lparr>pr_observations := obss\<rparr>) = proc_ok svc log pr"
  "proc_ok svc log (pr\<lparr>pr_queues := qs\<rparr>) = proc_ok svc log pr"
  "proc_ok svc log (pr\<lparr>pr_blocked := b2\<rparr>) = proc_ok svc log pr"
  by (simp_all add: proc_ok_def)

lemma proc_ok_crash: "proc_ok svc log pr \<Longrightarrow> proc_ok svc log (crash p e pr)"
  by (simp add: crash_def proc_ok_goto)

lemma proc_ok_finish: "proc_ok svc log pr \<Longrightarrow> proc_ok svc log (finish p j pr)"
  by (rule proc_okI[of svc log pr _ p Getting]) (auto simp: finish_def split: if_splits)

lemma proc_ok_publish: "\<lbrakk>proc_ok svc log pr; publication_ok svc log j pub\<rbrakk> \<Longrightarrow> proc_ok svc log (publish svc p j pub pr)"
  by (simp add: publish_def proc_ok_goto)

lemma proc_ok_set_claim:
  assumes "proc_ok svc log pr" and "Granted d tok c \<in> set log" and "e \<or> (\<forall>d t. Invoked d tok t \<notin> set log)"
  shows "proc_ok svc log (set_claim p d tok e pr)"
  using assms by (auto simp: proc_ok_def set_claim_def claim_ok_def)

lemma proc_ok_executed:
  "\<lbrakk>proc_ok svc log pr; granted_to svc log d tok; outcome_ok log d tok (Some r)\<rbrakk>
   \<Longrightarrow> proc_ok svc log (executed p d tok s now r pr)"
  by (simp add: executed_def proc_ok_goto)

lemma proc_ok_init: "proc_ok svc log (init_proc c)"
  by (simp add: proc_ok_def init_proc_def)

section \<open>Emitting an observation\<close>

lemma extends_emit:
  "\<lbrakk>\<And>d t c. ob = Invoked d t c \<Longrightarrow> t \<notin> set (sh_tokens sh0); extends sh0 sh; sh_tokens sh0 = sh_tokens sh0\<rbrakk>
   \<Longrightarrow> extends sh0 (emit ob sh)"
  unfolding extends_def by (metis append_Cons emit_simps(1) set_ConsD)

lemma emit_neutral:
  assumes "shared_ok svc live sinv K sh" and "neutral ob" and "entry_ok svc K (sh_log sh) ob"
    and "\<And>tok. token_of ob = Some tok \<Longrightarrow> tok \<in> set (sh_tokens sh)"
  shows "shared_ok svc live sinv K (emit ob sh)"
  using assms store_ok_neutral[of ob live sinv K "longest svc"] by (auto simp: shared_ok_def tokens_known_def)

lemma granted_token: "\<lbrakk>tokens_known sh; Granted d tok c \<in> set (sh_log sh)\<rbrakk> \<Longrightarrow> tok \<in> set (sh_tokens sh)"
  by (fastforce simp: tokens_known_def)

lemma fresh_token:
  assumes "tokens_known sh" and "tok \<notin> set (sh_tokens sh)"
  shows "unreleased (sh_log sh) tok" and "Invoked d tok c \<notin> set (sh_log sh)" and "Granted d tok c \<notin> set (sh_log sh)"
  using assms by (fastforce simp: tokens_known_def unreleased_def)+

section \<open>The stretches of code without the store\<close>

lemma refuse_expired_answers: "refuse_expired i now = Some r \<Longrightarrow> answers i r"
  by (auto simp: refuse_expired_def answers_def split: if_splits)

lemma proc_ok_begin: "proc_ok svc log pr \<Longrightarrow> proc_ok svc log (begin_process svc p d now pr)"
proof -
  assume pr: "proc_ok svc log pr"
  obtain refusal names where v: "verified svc d = (refusal, names)" by (cases "verified svc d")
  have a: "authentic svc d \<longleftrightarrow> refusal = None" by (simp add: authentic_def v)
  show ?thesis
  proof (cases refusal)
    case (Some x)
    then show ?thesis using pr a
      by (simp add: begin_process_def v Let_def proc_ok_publish proc_ok_goto unclaimed_def resolved_def)
  next
    case None
    have "result_ok svc log (intent_id_of d) r" if "refuse_expired (dl_intent d) now = Some r" for r
      using that a None refuse_expired_answers by (force simp: result_ok_def)
    then show ?thesis using pr a None
      by (auto simp: begin_process_def v Let_def unclaimed_def intro!: proc_ok_publish proc_ok_goto split: option.splits)
  qed
qed

lemma proc_ok_tool:
  assumes "proc_ok svc log pr" and "task_ok svc log (Invoking d tok s n)"
  shows "proc_ok svc log (on_tool svc p d tok s n now out pr)"
proof -
  let ?r = "settle (sv_runner svc) (ec_tool_timeout (sv_config svc)) (dl_intent d) n out"
  have "tr_status ?r \<in> {StatusOk, StatusError, StatusRejected}"
    by (simp add: settle_status split: sum.splits)
  then have "outcome_ok log d tok (Some ?r)" using assms(2) settle_answers by (auto simp: outcome_ok_def)
  then show ?thesis using assms by (auto simp: on_tool_def intro: proc_ok_executed)
qed

lemma proc_ok_publish_failed:
  "\<lbrakk>proc_ok svc log pr; publication_ok svc log j pub\<rbrakk> \<Longrightarrow> proc_ok svc log (publish_failed svc p j pub a b pr)"
  by (simp add: publish_failed_def Let_def proc_ok_goto proc_ok_crash)

lemma publication_entry:
  assumes "publication_ok svc (sh_log sh) j pub"
  shows "entry_ok svc K (sh_log sh) (publication_obs pub)" and "neutral (publication_obs pub)"
    and "token_of (publication_obs pub) = None" and "publication_obs pub \<noteq> Invoked d t c"
proof -
  show "entry_ok svc K (sh_log sh) (publication_obs pub)"
    using assms
    by (cases pub) (auto simp: publication_obs_def result_ok_def granted_to_def answers_def)
qed (cases pub; simp add: publication_obs_def neutral_def)+

lemma after_publish_ok:
  assumes "publication_ok svc log j pub"
  shows "task_ok svc (publication_obs pub # log) (after_publish j pub)"
proof (cases pub)
  case (ResultMessage r)
  then show ?thesis using assms
    by (auto simp: after_publish_def publication_obs_def resolved_def result_ok_def answers_def)
next
  case (ApprovalMessage i)
  then show ?thesis using assms
    by (auto simp: after_publish_def publication_obs_def granted_to_def outcome_ok_def)
next
  case (DeadLetterMessage k m)
  then show ?thesis using assms by (auto simp: after_publish_def publication_obs_def resolved_def)
qed

lemma publish_keeps:
  assumes ok: "shared_ok svc live sinv K sh" and pr: "proc_ok svc (sh_log sh) pr" and pub: "publication_ok svc (sh_log sh) j pub"
  shows "keeps svc live sinv K sh (on_publish svc p j pub a b reply pr sh)"
proof -
  have e: "shared_ok svc live sinv K (emit (publication_obs pub) sh)"
    by (rule emit_neutral[OF ok publication_entry(2)[OF pub] publication_entry(1)[OF pub]])
      (simp add: publication_entry(3)[OF pub])
  have x: "extends sh (emit (publication_obs pub) sh)"
    using publication_entry(4)[OF pub] by (intro extends_emit) auto
  have tk: "tokens_known sh" using ok by (simp add: shared_ok_def)
  have pr': "proc_ok svc (publication_obs pub # sh_log sh) pr" using proc_ok_extends[OF pr x tk] by simp
  have pub': "publication_ok svc (publication_obs pub # sh_log sh) j pub" by (rule publication_ok_mono[OF pub]) auto
  show ?thesis
    by (cases reply) (use ok pr pub e x pr' pub' after_publish_ok[OF pub] in
      \<open>auto simp: keeps_def on_publish_def intro!: proc_ok_goto proc_ok_publish_failed\<close>)
qed

lemma commit_keeps:
  assumes ok: "shared_ok svc live sinv K sh" and pr: "proc_ok svc (sh_log sh) pr" and r: "resolved svc (sh_log sh) (jb_delivered j)"
  shows "keeps svc live sinv K sh (on_commit p j err pr sh)"
proof -
  let ?ob = "Committed (jb_delivered j)"
  have e: "shared_ok svc live sinv K (emit ?ob sh)"
    using emit_neutral[OF ok, of ?ob] r by (auto simp: neutral_def)
  have x: "extends sh (emit ?ob sh)" by (intro extends_emit) auto
  have "proc_ok svc (?ob # sh_log sh) pr"
    using proc_ok_extends[OF pr x] ok by (simp add: shared_ok_def)
  then show ?thesis
    using ok pr e x by (cases err) (auto simp: keeps_def on_commit_def intro: proc_ok_finish proc_ok_crash)
qed

lemma keeps_same: "\<lbrakk>shared_ok svc live sinv K sh; proc_ok svc (sh_log sh) pr\<rbrakk> \<Longrightarrow> keeps svc live sinv K sh (pr, sh)"
  by (simp add: keeps_def)

text \<open>Behind a grant: the claim is registered, and the tool's start is logged right behind it.\<close>

lemma start_owned_keeps:
  assumes ok: "shared_ok svc live sinv K sh" and pr0: "proc_ok svc (sh_log sh0) pr" and tk: "tokens_known sh0"
    and a: "authentic svc d" and g: "Granted d tok c \<in> set (sh_log sh)"
    and fresh: "unreleased (sh_log sh) tok" "\<And>d t. Invoked d tok t \<notin> set (sh_log sh)"
    and spaced: "\<And>d' y c'. \<lbrakk>Invoked d' y c' \<in> set (sh_log sh); intent_id_of d' = intent_id_of d\<rbrakk> \<Longrightarrow> c' + K \<le> c"
    and x: "extends sh0 sh" and new: "tok \<notin> set (sh_tokens sh0)"
  shows "keeps svc live sinv K sh0 (start_owned svc p d tok c pr sh)"
proof -
  have pr: "proc_ok svc (sh_log sh) pr" by (rule proc_ok_extends[OF pr0 x tk])
  have gt: "granted_to svc (sh_log sh) d tok" using a g by (auto simp: granted_to_def)
  have claim: "proc_ok svc (sh_log sh) (set_claim p d tok False pr)"
    using proc_ok_set_claim[OF pr g] fresh(2) by blast
  show ?thesis
  proof (cases "ti_kind (dl_intent d) = ApprovalKind")
    case True
    have "proc_ok svc (sh_log sh) (set_claim p d tok True pr)" using proc_ok_set_claim[OF pr g] by blast
    then show ?thesis using True ok gt x by (auto simp: start_owned_def keeps_def owned_def intro: proc_ok_publish)
  next
    case tool: False
    show ?thesis
    proof (cases "prepare (sv_runner svc) (sv_registry svc) (dl_intent d) (sh_clock sh)")
      case (Refused r)
      have "outcome_ok (sh_log sh) d tok (Some r)" using prepare_refused[OF Refused] tool by (simp add: outcome_ok_def)
      then show ?thesis using tool Refused ok x claim gt by (simp add: start_owned_def keeps_def proc_ok_executed)
    next
      case (EscapedError e)
      then show ?thesis using tool ok x claim by (simp add: start_owned_def keeps_def proc_ok_crash)
    next
      case (Call plan)
      let ?ob = "Invoked d tok c"
      have "entry_ok svc K (sh_log sh) ?ob" using g fresh spaced tool Call by auto
      moreover have "tok \<in> set (sh_tokens sh)" using granted_token g ok by (auto simp: shared_ok_def)
      ultimately have e: "shared_ok svc live sinv K (emit ?ob sh)" using emit_neutral[OF ok, of ?ob] by (auto simp: neutral_def)
      have x': "extends sh0 (emit ?ob sh)" using x new by (intro extends_emit) auto
      have "proc_ok svc (?ob # sh_log sh) pr" using proc_ok_extends[OF pr0 x' tk] by simp
      then have "proc_ok svc (?ob # sh_log sh) (set_claim p d tok True pr)"
        using proc_ok_set_claim[of svc "?ob # sh_log sh" pr d tok c True p] g by simp
      moreover have "granted_to svc (?ob # sh_log sh) d tok" by (rule granted_to_mono[OF gt]) auto
      ultimately have "proc_ok svc (?ob # sh_log sh) (goto p (Invoking d tok s n) (set_claim p d tok True pr))" for s n
        using tool by (intro proc_ok_goto) auto
      then show ?thesis using tool Call e x' by (simp add: start_owned_def keeps_def)
    qed
  qed
qed

section \<open>The stretches of code behind a store operation\<close>

definition moved :: "msec \<Rightarrow> 's \<Rightarrow> string list \<Rightarrow> 's shared \<Rightarrow> 's shared" where
  "moved later store toks sh = sh\<lparr>sh_clock := later, sh_store := store, sh_tokens := toks\<rparr>"

lemma moved_simps [simp]:
  "sh_clock (moved later store toks sh) = later" "sh_store (moved later store toks sh) = store"
  "sh_tokens (moved later store toks sh) = toks" "sh_log (moved later store toks sh) = sh_log sh"
  by (simp_all add: moved_def)

lemma moved_fold:
  "(moved later store old sh)\<lparr>sh_tokens := toks\<rparr> = moved later store toks sh"
  "sh\<lparr>sh_clock := later, sh_store := store\<rparr> = moved later store (sh_tokens sh) sh"
  by (simp_all add: moved_def)

lemma extends_moved [simp]: "extends sh (moved later store toks sh)"
  by (simp add: extends_def)

lemma tokens_known_moved: "\<lbrakk>tokens_known sh; set (sh_tokens sh) \<subseteq> set toks\<rbrakk> \<Longrightarrow> tokens_known (moved later store toks sh)"
  by (fastforce simp: tokens_known_def)

lemma extends_granted: "extends sh (emit (Granted d tok c) (moved later store toks sh))"
  by (rule extends_emit) auto

lemma done_ok:
  assumes "log_ok svc K log" and "Stored d' y r \<in> set log" and "intent_id_of d' = intent_id_of d" and "authentic svc d"
  shows "case r of None \<Rightarrow> resolved svc log d | Some q \<Rightarrow> result_ok svc log (intent_id_of d) q"
proof (cases r)
  case None
  then show ?thesis using assms by (auto simp: resolved_def)
next
  case (Some q)
  then show ?thesis using assms log_ok_stored[OF assms(1,2)]
    by (auto simp: result_ok_def granted_to_def outcome_ok_def)
qed

context dedup_store
begin

lemma granted_entry:
  assumes "grants_kept live K now s log" and "live s now (intent_id_of d) = None" and "authentic svc d"
  shows "entry_ok svc K log (Granted d tok now)"
  using assms(3) grants_expired[OF assms(1,2)] by auto

lemma claim_keeps:
  assumes ops: "sv_ops svc = ops" and K: "K \<le> ec_lease (sv_config svc)"
    and ok: "shared_ok svc live inv K sh" and pr: "proc_ok svc (sh_log sh) pr" and a: "authentic svc d"
    and le: "sh_clock sh \<le> later" and fresh: "tok \<notin> set (sh_tokens sh)"
  shows "keeps svc live inv K sh (on_claim svc p d b w later tok pr sh)"
    and "keeps svc live inv K sh (lost_claim svc p d later tok e pr sh)"
proof -
  obtain out s' where run: "dd_claim ops (sh_clock sh) later tok (intent_id_of d) (ec_lease (sv_config svc)) (sh_store sh) = (out, s')"
    by fastforce
  let ?sh = "moved later s' (tok # sh_tokens sh) sh"
  have st: "store_ok live inv K (longest svc) (sh_clock sh) (sh_store sh) (sh_log sh)" and log: "log_ok svc K (sh_log sh)" and tk: "tokens_known sh"
    using ok by (simp_all add: shared_ok_def)
  have tk': "tokens_known ?sh" using tk by (rule tokens_known_moved) auto
  note folds = run moved_fold ops
  have "keeps svc live inv K sh (on_claim svc p d b w later tok pr sh) \<and>
    keeps svc live inv K sh (lost_claim svc p d later tok e pr sh)"
    using claim_store_ok[OF st le K lifetimes(3) run]
  proof (elim disjE conjE)
    assume free: "live (sh_store sh) (sh_clock sh) (intent_id_of d) = None" and out: "out = Ok (Claimed tok)"
      and st': "\<forall>d'. intent_id_of d' = intent_id_of d \<longrightarrow> store_ok live inv K (longest svc) later s' (Granted d' tok (sh_clock sh) # sh_log sh)"
    let ?sg = "emit (Granted d tok (sh_clock sh)) ?sh"
    have kept: "grants_kept live K (sh_clock sh) (sh_store sh) (sh_log sh)" using st by (simp add: store_ok_def)
    have ok': "shared_ok svc live inv K ?sg"
      using st' granted_entry[OF kept free a] log tk' by (auto simp: shared_ok_def tokens_known_def)
    have spaced: "c' + K \<le> sh_clock sh" if "Invoked d' y c' \<in> set (sh_log ?sg)" "intent_id_of d' = intent_id_of d" for d' y c'
    proof -
      have i: "Invoked d' y c' \<in> set (sh_log sh)" using that(1) by simp
      show ?thesis using grants_expired[OF kept free] log_ok_granted[OF log i] invoked_unreleased[OF log i] that(2) by blast
    qed
    have un: "unreleased (sh_log ?sg) tok" "Invoked d'' tok t \<notin> set (sh_log ?sg)" for d'' t
      using fresh_token[OF tk fresh] by auto
    have "keeps svc live inv K sh (start_owned svc p d tok (sh_clock sh) (bump_if w ''in_flight_waits_resolved'' pr) ?sg)"
    proof (rule start_owned_keeps[OF ok' _ tk a])
      show "proc_ok svc (sh_log sh) (bump_if w ''in_flight_waits_resolved'' pr)" using pr by simp
      show "Granted d tok (sh_clock sh) \<in> set (sh_log ?sg)" by simp
    qed (fact un spaced extends_granted fresh)+
    moreover have "proc_ok svc (sh_log ?sg) pr" by (rule proc_ok_extends[OF pr extends_granted tk])
    ultimately show ?thesis using ok' extends_granted
      by (auto simp: on_claim_def lost_claim_def Let_def folds out keeps_def proc_ok_crash)
  next
    assume st': "store_ok live inv K (longest svc) later s' (sh_log sh)" and out: "out = Ok InFlight"
    have "shared_ok svc live inv K ?sh" using st' log tk' by (simp add: shared_ok_def)
    then show ?thesis using pr a by (simp add: on_claim_def lost_claim_def Let_def folds out keeps_def proc_ok_crash proc_ok_goto)
  next
    assume st': "store_ok live inv K (longest svc) later s' (sh_log sh)"
      and "\<exists>r d' y. out = Ok (Done r) \<and> intent_id_of d' = intent_id_of d \<and> Stored d' y r \<in> set (sh_log sh)"
    then obtain r d' y where out: "out = Ok (Done r)" and d': "intent_id_of d' = intent_id_of d" "Stored d' y r \<in> set (sh_log sh)"
      by blast
    have "shared_ok svc live inv K ?sh" using st' log tk' by (simp add: shared_ok_def)
    then show ?thesis using pr a done_ok[OF log d'(2,1) a]
      by (auto simp: on_claim_def lost_claim_def Let_def folds out keeps_def unclaimed_def
          intro!: proc_ok_crash proc_ok_goto proc_ok_publish split: option.splits)
  qed
  then show "keeps svc live inv K sh (on_claim svc p d b w later tok pr sh)"
    and "keeps svc live inv K sh (lost_claim svc p d later tok e pr sh)" by blast+
qed

lemma complete_keeps:
  assumes ops: "sv_ops svc = ops" and K: "K \<le> ec_result_ttl (sv_config svc)"
    and ok: "shared_ok svc live inv K sh" and pr: "proc_ok svc (sh_log sh) pr"
    and t: "task_ok svc (sh_log sh) (Completing d tok r)" and le: "sh_clock sh \<le> later"
  shows "keeps svc live inv K sh (on_complete svc p d tok r later pr sh)"
    and "keeps svc live inv K sh (lost_complete svc p d tok r later e pr sh)"
proof -
  obtain b s' where run: "dd_complete ops (sh_clock sh) later tok (intent_id_of d) r (ec_result_ttl (sv_config svc)) (sh_store sh) = (b, s')"
    by fastforce
  let ?sh = "moved later s' (sh_tokens sh) sh"
  have st: "store_ok live inv K (longest svc) (sh_clock sh) (sh_store sh) (sh_log sh)" and log: "log_ok svc K (sh_log sh)" and tk: "tokens_known sh"
    using ok by (simp_all add: shared_ok_def)
  have tk': "tokens_known ?sh" using tk by (rule tokens_known_moved) auto
  have g: "granted_to svc (sh_log sh) d tok" and out: "outcome_ok (sh_log sh) d tok r" using t by simp_all
  have sto: "storable r" using out by (cases r) (auto simp: outcome_ok_def storable_def)
  note folds = run moved_fold ops
  have "keeps svc live inv K sh (on_complete svc p d tok r later pr sh) \<and>
    keeps svc live inv K sh (lost_complete svc p d tok r later e pr sh)"
    using complete_store_ok[OF st le K lifetimes(4) sto run]
  proof (elim disjE conjE)
    assume b: b and st': "store_ok live inv K (longest svc) later s' (Stored d tok r # sh_log sh)"
    let ?sg = "emit (Stored d tok r) ?sh"
    have "tok \<in> set (sh_tokens sh)" using g granted_token[OF tk] by (auto simp: granted_to_def)
    then have ok': "shared_ok svc live inv K ?sg"
      using st' log tk' g out by (auto simp: shared_ok_def tokens_known_def granted_to_def)
    have x: "extends sh ?sg" by (rule extends_emit) auto
    have pr': "proc_ok svc (sh_log ?sg) pr" by (rule proc_ok_extends[OF pr x tk])
    have a: "authentic svc d" using g by (simp add: granted_to_def)
    have "case r of None \<Rightarrow> resolved svc (sh_log ?sg) d | Some q \<Rightarrow> result_ok svc (sh_log ?sg) (intent_id_of d) q"
      using done_ok[of svc K "sh_log ?sg" d tok r d] ok' a by (simp add: shared_ok_def)
    then show ?thesis using ok' x pr' b a
      by (auto simp: on_complete_def lost_complete_def folds keeps_def owned_def
          intro!: proc_ok_crash proc_ok_goto proc_ok_publish split: option.splits)
  next
    assume b: "\<not> b" and st': "store_ok live inv K (longest svc) later s' (sh_log sh)"
    have "shared_ok svc live inv K ?sh" using st' log tk' by (simp add: shared_ok_def)
    then show ?thesis using pr b
      by (simp add: on_complete_def lost_complete_def folds keeps_def proc_ok_crash proc_ok_finish)
  qed
  then show "keeps svc live inv K sh (on_complete svc p d tok r later pr sh)"
    and "keeps svc live inv K sh (lost_complete svc p d tok r later e pr sh)" by blast+
qed

lemma release_keeps:
  assumes ops: "sv_ops svc = ops" and ok: "shared_ok svc live inv K sh" and pr: "proc_ok svc (sh_log sh) pr"
    and le: "sh_clock sh \<le> later"
  shows "keeps svc live inv K sh (release_claim svc p later pr sh)"
proof (cases "pr_claims pr p")
  case None
  then show ?thesis using ok pr by (simp add: release_claim_def keeps_same)
next
  case (Some c)
  let ?pr = "pr\<lparr>pr_claims := (pr_claims pr)(p := None)\<rparr>"
  have pr1: "proc_ok svc log ?pr" if "proc_ok svc log pr" for log using that by (auto simp: proc_ok_def)
  show ?thesis
  proof (cases "cl_executing c")
    case True
    then show ?thesis using Some ok pr1[OF pr] by (simp add: release_claim_def keeps_same)
  next
    case False
    obtain b s' where run: "dd_release ops (sh_clock sh) later (cl_token c) (cl_intent c) (sh_store sh) = (b, s')" by fastforce
    let ?sh = "moved later s' (sh_tokens sh) sh" and ?ob = "Released (cl_intent c) (cl_token c)"
    have st: "store_ok live inv K (longest svc) (sh_clock sh) (sh_store sh) (sh_log sh)" and log: "log_ok svc K (sh_log sh)" and tk: "tokens_known sh"
      using ok by (simp_all add: shared_ok_def)
    have tk': "tokens_known ?sh" using tk by (rule tokens_known_moved) auto
    have cl: "claim_ok (sh_log sh) c" using pr Some by (simp add: proc_ok_def)
    note folds = run moved_fold ops
    show ?thesis using release_store_ok[OF st le run]
    proof (elim disjE conjE)
      assume b: b and st': "store_ok live inv K (longest svc) later s' (?ob # sh_log sh)"
      have "cl_token c \<in> set (sh_tokens sh)" using cl granted_token[OF tk] by (auto simp: claim_ok_def)
      moreover have "entry_ok svc K (sh_log sh) ?ob" using cl False by (auto simp: claim_ok_def)
      ultimately have ok': "shared_ok svc live inv K (emit ?ob ?sh)"
        using st' log tk' by (auto simp: shared_ok_def tokens_known_def)
      have x: "extends sh (emit ?ob ?sh)" by (rule extends_emit) auto
      show ?thesis using Some False b ok' x pr1[OF proc_ok_extends[OF pr x tk]]
        by (simp add: release_claim_def folds Let_def keeps_def)
    next
      assume b: "\<not> b" and st': "store_ok live inv K (longest svc) later s' (sh_log sh)"
      have "shared_ok svc live inv K ?sh" using st' log tk' by (simp add: shared_ok_def)
      then show ?thesis using Some False b pr1[OF pr] by (simp add: release_claim_def folds Let_def keeps_def)
    qed
  qed
qed

lemma advance_keeps:
  assumes ops: "sv_ops svc = ops" and K: "K \<le> ec_lease (sv_config svc)" "K \<le> ec_result_ttl (sv_config svc)"
    and ok: "shared_ok svc live inv K sh" and pr: "proc_ok svc (sh_log sh) pr"
    and step: "advance svc p r pr sh = Some x"
  shows "keeps svc live inv K sh x"
proof -
  obtain t where t: "pr_tasks pr p = Some t" using step by (cases "pr_tasks pr p") (auto simp: advance_def)
  note task = proc_ok_task[OF pr t]
  show ?thesis
  proof (cases t)
    case Getting
    then show ?thesis using step t ok pr
      by (cases r) (auto simp: advance_def intro!: keeps_same proc_ok_goto split: option.splits list.splits)
  next
    case (Acquiring d)
    then show ?thesis using step t ok pr
      by (cases r) (auto simp: advance_def intro!: keeps_same proc_ok_begin split: if_splits)
  next
    case (Claiming d b w)
    then show ?thesis using step t ok pr task claim_keeps[OF ops K(1) ok pr, of d]
      by (cases r) (auto simp: advance_def intro!: keeps_same proc_ok_crash split: if_splits)
  next
    case (Waiting d b w)
    then show ?thesis using step t ok pr task
      by (cases r) (auto simp: advance_def on_backoff_def intro!: keeps_same proc_ok_goto)
  next
    case (Invoking d tok s n)
    then show ?thesis using step t ok pr task
      by (cases r) (auto simp del: task_ok.simps simp: advance_def intro!: keeps_same proc_ok_tool)
  next
    case (Completing d tok res)
    then show ?thesis using step t ok pr task complete_keeps[OF ops K(2) ok pr, of d tok res]
      by (cases r) (auto simp del: task_ok.simps simp: advance_def intro!: keeps_same proc_ok_crash split: if_splits)
  next
    case (Publishing j pub a b)
    then show ?thesis using step t ok pr task by (cases r) (auto simp: advance_def intro!: publish_keeps)
  next
    case (Pausing j pub a b)
    then show ?thesis using step t ok pr task
      by (cases r) (auto simp: advance_def on_pause_def intro!: keeps_same proc_ok_goto)
  next
    case (Committing j)
    then show ?thesis using step t ok pr task by (cases r) (auto simp: advance_def intro!: commit_keeps)
  next
    case (Crashed e)
    then show ?thesis using step t by (cases r) (auto simp: advance_def)
  qed
qed

end

end
