(* ===== verification/Effector_Runs.thy ===== *)
theory Effector_Runs
  imports Effector_Invariants
begin

text \<open>
  The invariant over whole runs of a fleet, and what it says of any log a run can produce. The
  facts are proved inside \<open>dedup_store\<close> for any store that keeps the contract and are used on the
  in-memory and the Redis store through their interpretations.
\<close>

lemma proc_ok_tasks:
  assumes "proc_ok svc log pr" and "\<And>p t. pr_tasks pr' p = Some t \<Longrightarrow> pr_tasks pr p = Some t \<or> t = Getting"
    and "pr_claims pr' = pr_claims pr"
  shows "proc_ok svc log pr'"
  using assms unfolding proc_ok_def by (metis task_ok.simps(8))

lemma put_simps [simp]: "pr_tasks (put d pr) = pr_tasks pr" "pr_claims (put d pr) = pr_claims pr"
  by (auto simp: put_def split: option.splits list.splits)

lemma proc_ok_dispatch: "\<lbrakk>proc_ok svc log pr; dispatch d pr = Some pr'\<rbrakk> \<Longrightarrow> proc_ok svc log pr'"
  by (erule proc_ok_tasks) (auto simp: dispatch_def ensure_worker_def split: if_splits option.splits)

lemma proc_ok_resume: "\<lbrakk>proc_ok svc log pr; resume_put pr = Some pr'\<rbrakk> \<Longrightarrow> proc_ok svc log pr'"
  by (erule proc_ok_tasks) (auto simp: resume_put_def split: if_splits option.splits prod.splits bool.splits)

lemma proc_ok_drop: "proc_ok svc log pr \<Longrightarrow> proc_ok svc log (drop_worker p pr)"
  by (erule proc_ok_tasks) (auto simp: drop_worker_def split: if_splits)

lemma proc_ok_abort: "proc_ok svc log pr \<Longrightarrow> proc_ok svc log (abort svc pr)"
  by (erule proc_ok_tasks) (auto simp: abort_def)

lemma fleet_ok_with:
  assumes "fleet_ok svc live sinv K fl" and "keeps svc live sinv K (fl_shared fl) x"
  shows "fleet_ok svc live sinv K (with_proc n x fl)"
  using assms proc_ok_extends[of svc "fl_shared fl" _ "snd x"]
  by (auto simp: fleet_ok_def keeps_def with_proc_def shared_ok_def)

lemma keeps_fst:
  "\<lbrakk>keeps svc live sinv K sh (pr, sh'); proc_ok svc (sh_log sh') pr'\<rbrakk> \<Longrightarrow> keeps svc live sinv K sh (pr', sh')"
  by (simp add: keeps_def)

context dedup_store
begin

lemma revoke_keeps:
  assumes ops: "sv_ops svc = ops" and ok: "shared_ok svc live inv K sh" and pr: "proc_ok svc (sh_log sh) pr"
    and le: "sh_clock sh \<le> later"
  shows "keeps svc live inv K sh (on_revoked svc p later pr sh)"
proof -
  note dropped = proc_ok_drop[OF pr, of p]
  have "keeps svc live inv K sh (let (pr1, sh1) = release_claim svc p later (drop_worker p pr) sh in
      (bump ''partitions_revoked'' pr1, sh1))"
    using release_keeps[OF ops ok dropped le, of p] by (auto simp: keeps_def split: prod.splits)
  then show ?thesis using keeps_same[OF ok dropped] by (auto simp: on_revoked_def split: option.splits task.splits)
qed

lemma fleet_step_ok:
  assumes ops: "sv_ops svc = ops" and K: "K \<le> ec_lease (sv_config svc)" "K \<le> ec_result_ttl (sv_config svc)"
    and ok: "fleet_ok svc live inv K fl" and step: "fleet_step svc a fl = Some fl'"
  shows "fleet_ok svc live inv K fl'"
proof -
  have sh: "shared_ok svc live inv K (fl_shared fl)" and pr: "proc_ok svc (sh_log (fl_shared fl)) (fl_procs fl n)" for n
    using ok by (simp_all add: fleet_ok_def)
  note same = fleet_ok_with[OF ok keeps_same[OF sh]]
  show ?thesis
  proof (cases a)
    case (Tick dt)
    have "store_ok live inv K (longest svc) (sh_clock (fl_shared fl) + dt) (sh_store (fl_shared fl)) (sh_log (fl_shared fl))" if "0 \<le> dt"
      using that sh store_ok_later[of K "longest svc" "sh_clock (fl_shared fl)" "sh_store (fl_shared fl)"]
      by (simp add: shared_ok_def)
    then show ?thesis using step Tick ok
      by (auto simp: fleet_step_def Let_def fleet_ok_def shared_ok_def tokens_known_def split: if_splits)
  next
    case (Deliver n d)
    then show ?thesis using step same proc_ok_dispatch[OF pr] by (fastforce simp: fleet_step_def)
  next
    case (Unblock n)
    then show ?thesis using step same proc_ok_resume[OF pr] by (fastforce simp: fleet_step_def)
  next
    case (Work n p r)
    then show ?thesis using step fleet_ok_with[OF ok advance_keeps[OF ops K sh pr]] by (fastforce simp: fleet_step_def)
  next
    case (Revoke n p later)
    then show ?thesis using step fleet_ok_with[OF ok revoke_keeps[OF ops sh pr]]
      by (auto simp: fleet_step_def Let_def split: if_splits)
  next
    case (Shutdown n)
    then show ?thesis using step same proc_ok_abort[OF pr] by (auto simp: fleet_step_def)
  next
    case (CloseClaim n p later)
    then show ?thesis using step fleet_ok_with[OF ok release_keeps[OF ops sh pr]]
      by (auto simp: fleet_step_def Let_def split: if_splits)
  next
    case (Kill n)
    then show ?thesis using step same[OF proc_ok_init, of n] by (auto simp: fleet_step_def)
  qed
qed

lemma fleet_run_ok:
  assumes "fleet_run svc (init_fleet svc now s0) fl" and "sv_ops svc = ops"
    and "inv now s0" and "\<And>t i. now \<le> t \<Longrightarrow> live s0 t i = None"
  shows "fleet_ok svc live inv (shortest svc) fl"
  using assms(1)
proof induction
  case start
  then show ?case using assms(3,4)
    by (auto simp: init_fleet_def fleet_ok_def shared_ok_def store_ok_def grants_kept_def terminals_logged_def
        grants_past_def lifetimes_end_def tokens_known_def proc_ok_init)
qed (rule fleet_step_ok[OF assms(2) lifetimes(1,2)])

lemmas fleet_log_ok = fleet_run_ok[unfolded fleet_ok_def shared_ok_def, THEN conjunct1, THEN conjunct2, THEN conjunct1]

text \<open>Whoever holds an intent, its claim is free once the longest lifetime has passed.\<close>

lemma claim_comes_free:
  assumes ok: "fleet_ok svc live inv K fl" and ops: "sv_ops svc = ops"
    and t: "sh_clock (fl_shared fl) + longest svc \<le> t" "sh_clock (fl_shared fl) \<le> t"
  shows "fst (dd_claim ops t t tok i lease (sh_store (fl_shared fl))) = Ok (Claimed tok)"
proof -
  have "inv (sh_clock (fl_shared fl)) (sh_store (fl_shared fl))" "live (sh_store (fl_shared fl)) t i = None"
    using ok t by (auto simp: fleet_ok_def shared_ok_def store_ok_def lifetimes_end_def)
  then show ?thesis using claim_free[of t "sh_store (fl_shared fl)" t tok i lease] inv_later t(2)
    by (cases "dd_claim ops t t tok i lease (sh_store (fl_shared fl))") auto
qed

end

end
