(* ===== verification/Effector.thy ===== *)
theory Effector
  imports Effector_Runs
begin

text \<open>
  What the effector promises, stated of a fleet of processes over one Redis store that behaves as
  documented, from a store without records: any deliveries, answers of the brokers and tools,
  revocations, shutdowns and crashes, in any order.
\<close>

definition no_records :: "'r redis_server \<Rightarrow> msec \<Rightarrow> 'r \<Rightarrow> bool" where
  "no_records srv now w \<longleftrightarrow> (\<forall>t i. now \<le> t \<longrightarrow> rd_get srv t (redis_key i) w = None)"

definition redis_fleet ::
  "'r redis_server \<Rightarrow> result_codec \<Rightarrow> ('r, 'w) service \<Rightarrow> msec \<Rightarrow> 'r \<Rightarrow> 'r fleet \<Rightarrow> bool" where
  "redis_fleet srv codec svc now w0 fl \<longleftrightarrow>
     redis_documented srv \<and> result_codec_ok codec \<and> sv_ops svc = redis_dedup srv codec \<and>
     no_records srv now w0 \<and> fleet_run svc (init_fleet svc now w0) fl"

abbreviation fleet_log :: "'s fleet \<Rightarrow> obs list" where
  "fleet_log fl \<equiv> sh_log (fl_shared fl)"

lemma no_records_start:
  assumes "no_records srv now w0" and "result_codec_ok codec"
  shows "redis_inv srv codec now w0" and "now \<le> t \<Longrightarrow> redis_view srv codec w0 t i = None"
  using assms by (auto simp: no_records_def redis_inv_def redis_view_def)

context redis_documented
begin

lemma redis_run_ok:
  assumes "redis_fleet srv codec svc now w0 fl"
  shows "fleet_ok svc (redis_view srv codec) (redis_inv srv codec) (shortest svc) fl"
  using assms redis.fleet_run_ok[of svc now w0 fl codec] no_records_start[of srv now w0 codec]
  by (simp add: redis_fleet_def)

lemma redis_claims:
  assumes "redis_fleet srv codec svc now w0 fl"
  shows "redis_view srv codec (sh_store (fl_shared fl)) (sh_clock (fl_shared fl)) i = None \<Longrightarrow>
      fst (dd_claim (sv_ops svc) (sh_clock (fl_shared fl)) (sh_clock (fl_shared fl)) tok i lease (sh_store (fl_shared fl))) =
      Ok (Claimed tok)"
    and "\<lbrakk>sh_clock (fl_shared fl) + longest svc \<le> t; sh_clock (fl_shared fl) \<le> t\<rbrakk> \<Longrightarrow>
      fst (dd_claim (sv_ops svc) t t tok i lease (sh_store (fl_shared fl))) = Ok (Claimed tok)"
proof -
  have ok: "fleet_ok svc (redis_view srv codec) (redis_inv srv codec) (shortest svc) fl" by (rule redis_run_ok[OF assms])
  have ops: "sv_ops svc = redis_dedup srv codec" using assms by (simp add: redis_fleet_def)
  show "\<lbrakk>sh_clock (fl_shared fl) + longest svc \<le> t; sh_clock (fl_shared fl) \<le> t\<rbrakk> \<Longrightarrow>
      fst (dd_claim (sv_ops svc) t t tok i lease (sh_store (fl_shared fl))) = Ok (Claimed tok)"
    using redis.claim_comes_free[OF ok ops] by (simp add: ops)
  have "redis_inv srv codec (sh_clock (fl_shared fl)) (sh_store (fl_shared fl))"
    using ok by (simp add: fleet_ok_def shared_ok_def store_ok_def)
  then show "redis_view srv codec (sh_store (fl_shared fl)) (sh_clock (fl_shared fl)) i = None \<Longrightarrow>
      fst (dd_claim (sv_ops svc) (sh_clock (fl_shared fl)) (sh_clock (fl_shared fl)) tok i lease (sh_store (fl_shared fl))) =
      Ok (Claimed tok)"
    using redis.claim_free[of codec "sh_clock (fl_shared fl)" "sh_store (fl_shared fl)" "sh_clock (fl_shared fl)" tok i lease]
    by (cases "dd_claim (sv_ops svc) (sh_clock (fl_shared fl)) (sh_clock (fl_shared fl)) tok i lease (sh_store (fl_shared fl))")
      (simp add: ops)
qed

end

lemma redis_fleet_ok:
  "redis_fleet srv codec svc now w0 fl \<Longrightarrow> fleet_ok svc (redis_view srv codec) (redis_inv srv codec) (shortest svc) fl"
proof -
  assume a: "redis_fleet srv codec svc now w0 fl"
  then have "redis_documented srv" by (simp add: redis_fleet_def)
  from redis_documented.redis_run_ok[OF this a] show ?thesis .
qed

lemma redis_claim_now:
  assumes "redis_fleet srv codec svc now w0 fl"
    and "redis_view srv codec (sh_store (fl_shared fl)) (sh_clock (fl_shared fl)) i = None"
  shows "fst (dd_claim (sv_ops svc) (sh_clock (fl_shared fl)) (sh_clock (fl_shared fl)) tok i lease (sh_store (fl_shared fl))) =
    Ok (Claimed tok)"
  using redis_documented.redis_claims[of srv codec svc now w0 fl] assms by (auto simp: redis_fleet_def)

lemma redis_claim_free:
  assumes "redis_fleet srv codec svc now w0 fl"
    and "sh_clock (fl_shared fl) + longest svc \<le> t" and "sh_clock (fl_shared fl) \<le> t"
  shows "fst (dd_claim (sv_ops svc) t t tok i lease (sh_store (fl_shared fl))) = Ok (Claimed tok)"
  using redis_documented.redis_claims[of srv codec svc now w0 fl] assms by (auto simp: redis_fleet_def)

lemma redis_fleet_log:
  "redis_fleet srv codec svc now w0 fl \<Longrightarrow> log_ok svc (shortest svc) (fleet_log fl)"
  using redis_fleet_ok[of srv codec svc now w0 fl] by (simp add: fleet_ok_def shared_ok_def)

section \<open>Executable runs\<close>

fun run_actions :: "('s, 'w) service \<Rightarrow> action list \<Rightarrow> 's fleet \<Rightarrow> 's fleet option" where
  "run_actions svc [] fl = Some fl"
| "run_actions svc (a # as) fl = (case fleet_step svc a fl of None \<Rightarrow> None | Some fl' \<Rightarrow> run_actions svc as fl')"

lemma run_actions_run: "\<lbrakk>run_actions svc as fl = Some fl'; fleet_run svc fl0 fl\<rbrakk> \<Longrightarrow> fleet_run svc fl0 fl'"
  by (induction as arbitrary: fl) (auto split: option.splits intro: fleet_run.step)

text \<open>A service on the map server with one tool, and a run of it: two deliveries of one intent.\<close>

definition demo_config :: effector_config where
  "demo_config =
     \<lparr>ec_intents_from = ''kafka://b/intents'', ec_results_to = ''kafka://b/results'', ec_approvals_to = ''kafka://b/approvals'',
      ec_dedup = ''redis://r/0'', ec_consumer_group = ''g'', ec_lease = 100, ec_result_ttl = 200, ec_tool_timeout = 50,
      ec_publish_attempts = 2, ec_publish_backoff = 1, ec_wait_backoff = 5, ec_wait_backoff_max = 20, ec_partitions = 4,
      ec_verify = ''require'', ec_signing_keys = Some ''env:K'', ec_dead_letters_to = None, ec_security = None\<rparr>"

definition demo_tool :: "unit tool" where
  "demo_tool =
     \<lparr>tl_name = ''pay'', tl_description = [], tl_side_effect = True, tl_accepts_intent = False, tl_fields = [],
      tl_func = \<lparr>fn_params = [], fn_validate = Some, fn_body = (\<lambda>_ w. (Ok JNull, w))\<rparr>\<rparr>"

definition demo_runner :: runner_ext where
  "demo_runner = \<lparr>rx_text = (\<lambda>_. ''failed''), rx_type_name = (\<lambda>_. ''E''), rx_repr = (\<lambda>s. s), rx_parse_float = (\<lambda>s. JFloat s)\<rparr>"

definition demo_service :: "(redis_rows, unit) service" where
  "demo_service =
     \<lparr>sv_config = demo_config, sv_ops = redis_dedup map_server demo_codec, sv_registry = [(''pay'', demo_tool)],
      sv_runner = demo_runner, sv_hmac = (\<lambda>k b. k @ b), sv_serialize = (\<lambda>_. []), sv_keyring = [(''k1'', [9])],
      sv_dead_letters = True\<rparr>"

definition demo_delivery :: "nat \<Rightarrow> delivered" where
  "demo_delivery handle =
     \<lparr>dl_intent = sign_intent (\<lambda>k b. k @ b) (\<lambda>_. []) ''k1'' [9] (demo_intent\<lparr>ti_expires := 150\<rparr>), dl_partition = ''p'', dl_handle = handle,
      dl_payload = [], dl_key = []\<rparr>"

definition demo_forged :: delivered where
  "demo_forged = (demo_delivery 9)\<lparr>dl_intent := demo_intent\<rparr>"

text \<open>
  Process 0 starts the tool and dies; process 1 waits the lease out, starts it again, and carries
  the intent to its commit; a redelivery is answered from the store.
\<close>

definition demo_actions :: "action list" where
  "demo_actions =
     [Deliver 0 (demo_delivery 1), Work 0 ''p'' Item, Work 0 ''p'' Slot, Work 0 ''p'' (StoreClaim 0 ''t1''), Kill 0,
      Deliver 1 (demo_delivery 2), Work 1 ''p'' Item, Work 1 ''p'' Slot, Work 1 ''p'' (StoreClaim 0 ''t2''), Tick 100,
      Work 1 ''p'' Elapsed, Work 1 ''p'' (StoreClaim 100 ''t3''), Work 1 ''p'' (ToolReturned (Ok JNull)),
      Work 1 ''p'' (StoreComplete 100), Work 1 ''p'' (Sink Acked), Work 1 ''p'' (CommitDone None),
      Deliver 1 demo_forged, Work 1 ''p'' Item, Work 1 ''p'' Slot, Work 1 ''p'' (Sink Acked), Work 1 ''p'' (CommitDone None),
      Deliver 1 (demo_delivery 3), Work 1 ''p'' Item, Work 1 ''p'' Slot, Work 1 ''p'' (StoreClaim 101 ''t4''),
      Work 1 ''p'' (Sink Acked), Work 1 ''p'' (CommitDone None)]"

definition demo_fleet :: "redis_rows fleet" where
  "demo_fleet = the (run_actions demo_service demo_actions (init_fleet demo_service 0 []))"

definition demo_result :: tool_result where
  "demo_result =
     \<lparr>tr_id = ''i1'', tr_key = [7], tr_seq = 4, tr_status = StatusOk, tr_payload = [110, 117, 108, 108], tr_error = [],
      tr_completed = 100\<rparr>"

lemma demo_run:
  "map_option fleet_log (run_actions demo_service demo_actions (init_fleet demo_service 0 [])) =
   Some [Committed (demo_delivery 3), PublishedResult demo_result, Committed demo_forged, DeadLettered [7] [],
     Committed (demo_delivery 2), PublishedResult demo_result, Stored (demo_delivery 2) ''t3'' (Some demo_result),
     Invoked (demo_delivery 2) ''t3'' 100, Granted (demo_delivery 2) ''t3'' 100,
     Invoked (demo_delivery 1) ''t1'' 0, Granted (demo_delivery 1) ''t1'' 0]"
  by code_simp

lemma demo_start: "redis_fleet map_server demo_codec demo_service 0 [] fl \<longleftrightarrow> fleet_run demo_service (init_fleet demo_service 0 []) fl"
  using demo_codec_ok redis_map.redis_documented_axioms
  by (simp add: redis_fleet_def no_records_def demo_service_def map_server_def row_at_def)

lemma demo_fleet:
  "redis_fleet map_server demo_codec demo_service 0 [] demo_fleet"
  "fleet_log demo_fleet =
   [Committed (demo_delivery 3), PublishedResult demo_result, Committed demo_forged, DeadLettered [7] [],
     Committed (demo_delivery 2), PublishedResult demo_result, Stored (demo_delivery 2) ''t3'' (Some demo_result),
     Invoked (demo_delivery 2) ''t3'' 100, Granted (demo_delivery 2) ''t3'' 100,
     Invoked (demo_delivery 1) ''t1'' 0, Granted (demo_delivery 1) ''t1'' 0]"
proof -
  obtain fl where fl: "run_actions demo_service demo_actions (init_fleet demo_service 0 []) = Some fl"
    using demo_run by (cases "run_actions demo_service demo_actions (init_fleet demo_service 0 [])") auto
  then have d: "demo_fleet = fl" by (simp add: demo_fleet_def)
  show "redis_fleet map_server demo_codec demo_service 0 [] demo_fleet"
    using run_actions_run[OF fl fleet_run.start] by (simp add: d demo_start)
  show "fleet_log demo_fleet =
   [Committed (demo_delivery 3), PublishedResult demo_result, Committed demo_forged, DeadLettered [7] [],
     Committed (demo_delivery 2), PublishedResult demo_result, Stored (demo_delivery 2) ''t3'' (Some demo_result),
     Invoked (demo_delivery 2) ''t3'' 100, Granted (demo_delivery 2) ''t3'' 100,
     Invoked (demo_delivery 1) ''t1'' 0, Granted (demo_delivery 1) ''t1'' 0]"
    using demo_run fl d by simp
qed

section \<open>Properties\<close>

text \<open>
  C7: The tool of an intent is started again only under a new claim, at least the shorter of the
  lease and the result lifetime after the claim of the earlier start; a claim under which a tool
  was started is never handed back.
\<close>

theorem executions_spaced:
  assumes "redis_fleet srv codec svc now w0 fl"
    and "fleet_log fl = as @ Invoked d y c # bs" and "Invoked d' x c' \<in> set bs" and "intent_id_of d' = intent_id_of d"
  shows "x \<noteq> y \<and> c' + min (ec_lease (sv_config svc)) (ec_result_ttl (sv_config svc)) \<le> c \<and>
    (\<forall>i. Released i y \<notin> set (fleet_log fl))"
proof -
  have log: "log_ok svc (shortest svc) (fleet_log fl)" by (rule redis_fleet_log[OF assms(1)])
  then have "entry_ok svc (shortest svc) bs (Invoked d y c)" using log_ok_split assms(2) by metis
  moreover have "unreleased (fleet_log fl) y" using invoked_unreleased[OF log, of d y c] assms(2) by simp
  ultimately show ?thesis using assms(3,4) by (auto simp: shortest_def unreleased_def)
qed

theorem executions_spaced_witness: "(0::int) + min 100 200 \<le> 100 \<and> ''t1'' \<noteq> ''t3''"
proof -
  have "fleet_log demo_fleet = take 7 (fleet_log demo_fleet) @ Invoked (demo_delivery 2) ''t3'' 100 #
      [Granted (demo_delivery 2) ''t3'' 100, Invoked (demo_delivery 1) ''t1'' 0, Granted (demo_delivery 1) ''t1'' 0]"
    by (simp add: demo_fleet)
  from executions_spaced[OF demo_fleet(1) this, of "demo_delivery 1" "''t1''" 0] show ?thesis
    by (simp add: demo_delivery_def demo_service_def demo_config_def)
qed



text \<open>
  C9: A published result was made durable before, as the outcome of its intent under a claim: its
  tool was started under that claim, or the intent was rejected. The one exception is the expiry
  refusal, which is computed from the intent.
\<close>

theorem results_durable_first:
  assumes "redis_fleet srv codec svc now w0 fl" and "fleet_log fl = as @ PublishedResult r # bs"
  shows "(\<exists>d tok. Stored d tok (Some r) \<in> set bs \<and> answers (dl_intent d) r \<and>
      ((\<exists>c. Invoked d tok c \<in> set bs) \<or> tr_status r = StatusRejected)) \<or>
    (\<exists>(d :: delivered) t. refuse_expired (dl_intent d) t = Some r)"
proof -
  have log: "log_ok svc (shortest svc) (fleet_log fl)" by (rule redis_fleet_log[OF assms(1)])
  have bs: "log_ok svc (shortest svc) bs" and "entry_ok svc (shortest svc) bs (PublishedResult r)"
    using log_ok_split log assms(2) by metis+
  then obtain d where d: "answers (dl_intent d) r"
    "(\<exists>tok. Stored d tok (Some r) \<in> set bs) \<or> (\<exists>now. refuse_expired (dl_intent d) now = Some r)"
    by (auto simp: result_ok_def)
  moreover have "(\<exists>c. Invoked d tok c \<in> set bs) \<or> tr_status r = StatusRejected" if "Stored d tok (Some r) \<in> set bs" for tok
    using log_ok_stored[OF bs that] by (auto simp: outcome_ok_def)
  ultimately show ?thesis by blast
qed

theorem results_durable_first_witness:
  "(\<exists>d tok. Stored d tok (Some demo_result) \<in> set (drop 6 (fleet_log demo_fleet)) \<and> answers (dl_intent d) demo_result \<and>
      ((\<exists>c. Invoked d tok c \<in> set (drop 6 (fleet_log demo_fleet))) \<or> tr_status demo_result = StatusRejected)) \<or>
    (\<exists>(d :: delivered) t. refuse_expired (dl_intent d) t = Some demo_result)"
  by (rule results_durable_first[OF demo_fleet(1), of "take 5 (fleet_log demo_fleet)"]) (simp add: demo_fleet)




text \<open>
  Expiry is decided before the claim only: a worker that waited for its claim past the expiry
  of the intent starts its tool all the same.
\<close>

theorem wait_outlives_expiry:
  assumes "redis_fleet srv codec svc now w0 fl" and "pr_tasks (fl_procs fl n) p = Some (Claiming d b w)"
    and "redis_view srv codec (sh_store (fl_shared fl)) (sh_clock (fl_shared fl)) (intent_id_of d) = None"
    and "refuse_expired (dl_intent d) (sh_clock (fl_shared fl)) \<noteq> None"
    and "prepare (sv_runner svc) (sv_registry svc) (dl_intent d) (sh_clock (fl_shared fl)) = Call plan"
    and "ti_kind (dl_intent d) = ToolKind" and "tok \<notin> set (sh_tokens (fl_shared fl))"
  shows "\<exists>fl'. fleet_step svc (Work n p (StoreClaim (sh_clock (fl_shared fl)) tok)) fl = Some fl' \<and>
    fleet_log fl' = Invoked d tok (sh_clock (fl_shared fl)) # Granted d tok (sh_clock (fl_shared fl)) # fleet_log fl"
proof -
  let ?t = "sh_clock (fl_shared fl)"
  let ?c = "dd_claim (sv_ops svc) ?t ?t tok (intent_id_of d) (ec_lease (sv_config svc)) (sh_store (fl_shared fl))"
  have "fst ?c = Ok (Claimed tok)" by (rule redis_claim_now[OF assms(1,3)])
  then obtain s' where c: "?c = (Ok (Claimed tok), s')" by (cases ?c) auto
  show ?thesis using assms(2,5,6,7) c
    by (simp add: fleet_step_def Let_def advance_def with_proc_def on_claim_def start_owned_def)
qed

text \<open>A worker that waits for a claim another process died with, and the same past the expiry.\<close>

definition demo_wait :: "action list" where
  "demo_wait = take 9 demo_actions @ [Work 1 ''p'' Elapsed]"

lemma demo_waiting:
  "map_option (\<lambda>fl. (pr_tasks (fl_procs fl 1) ''p'', sh_tokens (fl_shared fl), sh_clock (fl_shared fl)))
     (run_actions demo_service demo_wait (init_fleet demo_service 0 [])) =
   Some (Some (Claiming (demo_delivery 2) 10 True), [''t2'', ''t1''], 0)"
  by code_simp

lemma demo_overdue:
  "map_option (\<lambda>fl. (pr_tasks (fl_procs fl 1) ''p'', sh_tokens (fl_shared fl), sh_clock (fl_shared fl),
      redis_view map_server demo_codec (sh_store (fl_shared fl)) 150 ''i1''))
     (run_actions demo_service (demo_wait @ [Tick 150]) (init_fleet demo_service 0 [])) =
   Some (Some (Claiming (demo_delivery 2) 10 True), [''t2'', ''t1''], 150, None)"
  by code_simp

lemma demo_reached: "run_actions demo_service as (init_fleet demo_service 0 []) = Some fl \<Longrightarrow> redis_fleet map_server demo_codec demo_service 0 [] fl"
  using run_actions_run[OF _ fleet_run.start] by (simp add: demo_start)


theorem wait_outlives_expiry_witness:
  "\<exists>fl fl'. fleet_step demo_service (Work 1 ''p'' (StoreClaim 150 ''t3'')) fl = Some fl' \<and>
    hd (fleet_log fl') = Invoked (demo_delivery 2) ''t3'' 150 \<and> ti_expires (dl_intent (demo_delivery 2)) = 150"
proof -
  obtain fl where fl: "run_actions demo_service (demo_wait @ [Tick 150]) (init_fleet demo_service 0 []) = Some fl"
    and at: "pr_tasks (fl_procs fl 1) ''p'' = Some (Claiming (demo_delivery 2) 10 True)"
      "sh_tokens (fl_shared fl) = [''t2'', ''t1'']" "sh_clock (fl_shared fl) = 150"
      "redis_view map_server demo_codec (sh_store (fl_shared fl)) 150 ''i1'' = None"
    using demo_overdue by (auto simp: map_option_case split: option.splits)
  have i: "intent_id_of (demo_delivery 2) = ''i1''" "ti_kind (dl_intent (demo_delivery 2)) = ToolKind"
      "refuse_expired (dl_intent (demo_delivery 2)) 150 \<noteq> None" "ti_expires (dl_intent (demo_delivery 2)) = 150"
    by code_simp+
  have c: "prepare (sv_runner demo_service) (sv_registry demo_service) (dl_intent (demo_delivery 2)) 150 =
      Call \<lparr>tp_tool = demo_tool, tp_arguments = JObj [], tp_info = None\<rparr>"
    by (simp add: prepare_def demo_service_def demo_delivery_def demo_intent_def registry_get_def parse_arguments_def
        loads_empty run_guarded_def demo_tool_def tool_validate_def sign_intent_def)
  have "\<exists>fl'. fleet_step demo_service (Work 1 ''p'' (StoreClaim 150 ''t3'')) fl = Some fl' \<and>
      fleet_log fl' = Invoked (demo_delivery 2) ''t3'' 150 # Granted (demo_delivery 2) ''t3'' 150 # fleet_log fl"
    using wait_outlives_expiry[OF demo_reached[OF fl] at(1), of _ "''t3''"] at i c by simp
  then show ?thesis using i(4) by (metis list.sel(1))
qed

end
