(* ===== verification/Effector_Dispatch.thy ===== *)
theory Effector_Dispatch
  imports Effector
begin

text \<open>
  The dispatcher of one process against its workers: a step of a worker touches only its own
  partition, and a \<open>put\<close> on a queue nobody will drain blocks the process for good.
\<close>

section \<open>A dispatcher that never dispatches again\<close>

text \<open>
  The dispatcher stands in a \<open>put\<close> nobody will drain: on the full queue of a worker that died, or
  on a queue its partition's revocation dropped.
\<close>

definition wedged :: "proc \<Rightarrow> bool" where
  "wedged pr \<longleftrightarrow>
     (case pr_blocked pr of
        None \<Rightarrow> False
      | Some (d, stale) \<Rightarrow> stale \<or>
          ((\<exists>e. pr_tasks pr (dl_partition d) = Some (Crashed e)) \<and> (\<exists>q qs. pr_queues pr (dl_partition d) = Some (q # qs))))"

fun rescues :: "nat \<Rightarrow> action \<Rightarrow> bool" where
  "rescues n (Shutdown m) \<longleftrightarrow> m = n"
| "rescues n (Kill m) \<longleftrightarrow> m = n"
| "rescues n _ \<longleftrightarrow> False"

fun hands_over :: "nat \<Rightarrow> action \<Rightarrow> bool" where
  "hands_over n (Deliver m d) \<longleftrightarrow> m = n"
| "hands_over n _ \<longleftrightarrow> False"

definition elsewhere :: "string \<Rightarrow> proc \<Rightarrow> proc \<Rightarrow> bool" where
  "elsewhere p pr pr' \<longleftrightarrow>
     pr_blocked pr' = pr_blocked pr \<and> (\<forall>q. q \<noteq> p \<longrightarrow> pr_tasks pr' q = pr_tasks pr q \<and> pr_queues pr' q = pr_queues pr q)"

lemma queue_simps [simp]:
  "pr_queues (bump name pr) = pr_queues pr" "pr_blocked (bump name pr) = pr_blocked pr"
  "pr_queues (bump_if c name pr) = pr_queues pr" "pr_blocked (bump_if c name pr) = pr_blocked pr"
  "pr_queues (count_status st pr) = pr_queues pr" "pr_blocked (count_status st pr) = pr_blocked pr"
  "pr_queues (goto p t pr) = pr_queues pr" "pr_blocked (goto p t pr) = pr_blocked pr"
  by (auto simp: bump_def bump_if_def count_status_def goto_def split: option.splits)

lemma fold_bump_queues [simp]:
  "pr_queues (fold bump names pr) = pr_queues pr" "pr_blocked (fold bump names pr) = pr_blocked pr"
  by (induction names arbitrary: pr) simp_all

lemma elsewhere_simps [simp]:
  "elsewhere p pr (goto p t pr') = elsewhere p pr pr'" "elsewhere p pr (bump name pr') = elsewhere p pr pr'"
  "elsewhere p pr (bump_if c name pr') = elsewhere p pr pr'" "elsewhere p pr (fold bump names pr') = elsewhere p pr pr'"
  "elsewhere p pr (publish svc p j pub pr') = elsewhere p pr pr'" "elsewhere p pr (crash p e pr') = elsewhere p pr pr'"
  "elsewhere p pr (finish p j pr') = elsewhere p pr pr'" "elsewhere p pr (executed p d tok s now r pr') = elsewhere p pr pr'"
  "elsewhere p pr (set_claim p d tok x pr') = elsewhere p pr pr'"
  "elsewhere p pr (pr'\<lparr>pr_slots := k\<rparr>) = elsewhere p pr pr'" "elsewhere p pr pr"
  by (auto simp: elsewhere_def publish_def crash_def finish_def executed_def set_claim_def)

lemma elsewhere_parts [simp]:
  "elsewhere p pr (begin_process svc p d now pr') = elsewhere p pr pr'"
  "elsewhere p pr (fst (start_owned svc p d tok c pr' sh)) = elsewhere p pr pr'"
  "elsewhere p pr (publish_failed svc p j pub a b pr') = elsewhere p pr pr'"
  by (auto simp: begin_process_def start_owned_def publish_failed_def Let_def split: prod.splits option.splits prepared.splits)

lemma elsewhere_claim: "elsewhere p pr (fst (on_claim svc p d b w later tok pr sh))"
  unfolding on_claim_def Let_def by (auto split: prod.splits sum.splits claim_outcome.splits option.splits)

lemma advance_elsewhere: "advance svc p r pr sh = Some x \<Longrightarrow> elsewhere p pr (fst x)"
proof (cases "pr_tasks pr p")
  case (Some t)
  assume step: "advance svc p r pr sh = Some x"
  show ?thesis
  proof (cases t)
    case Getting
    then show ?thesis using step Some
      by (cases r) (auto simp: advance_def elsewhere_def split: option.splits list.splits)
  next
    case (Claiming d b w)
    then show ?thesis using step Some
      by (cases r) (auto simp: advance_def elsewhere_claim lost_claim_def Let_def split: if_splits prod.splits)
  next
    case (Completing d tok res)
    then show ?thesis using step Some
      by (cases r) (auto simp: advance_def on_complete_def lost_complete_def Let_def split: if_splits prod.splits option.splits)
  next
    case (Publishing j pub a b)
    then show ?thesis using step Some by (cases r) (auto simp: advance_def on_publish_def split: sink_reply.splits)
  next
    case (Committing j)
    then show ?thesis using step Some by (cases r) (auto simp: advance_def on_commit_def split: option.splits)
  qed (use step Some in \<open>cases r; auto simp: advance_def on_backoff_def on_tool_def on_pause_def split: if_splits\<close>)+
qed (simp add: advance_def)

lemma advance_crashed: "pr_tasks pr p = Some (Crashed e) \<Longrightarrow> advance svc p r pr sh = None"
  by (cases r) (simp_all add: advance_def)

lemma wedged_elsewhere:
  assumes "wedged pr" and "advance svc p r pr sh = Some x"
  shows "wedged (fst x)"
proof -
  have e: "elsewhere p pr (fst x)" by (rule advance_elsewhere[OF assms(2)])
  obtain d stale where b: "pr_blocked pr = Some (d, stale)" using assms(1) by (auto simp: wedged_def split: option.splits)
  have "dl_partition d \<noteq> p" if "\<not> stale"
    using assms b that advance_crashed[of pr p _ svc r sh] by (auto simp: wedged_def)
  then show ?thesis using assms(1) b e by (auto simp: wedged_def elsewhere_def)
qed

lemma release_claim_simps [simp]:
  "pr_blocked (fst (release_claim svc p later pr sh)) = pr_blocked pr" "pr_tasks (fst (release_claim svc p later pr sh)) = pr_tasks pr"
  "pr_queues (fst (release_claim svc p later pr sh)) = pr_queues pr"
  by (auto simp: release_claim_def Let_def split: option.splits prod.splits)

lemma wedged_cong:
  "\<lbrakk>pr_blocked pr' = pr_blocked pr; pr_tasks pr' = pr_tasks pr; pr_queues pr' = pr_queues pr\<rbrakk> \<Longrightarrow> wedged pr' = wedged pr"
  by (auto simp: wedged_def split: option.splits)

lemma wedged_drop: "wedged pr \<Longrightarrow> wedged (drop_worker p pr)"
  by (auto simp: wedged_def drop_worker_def abandon_put_def split: option.splits)

lemma wedged_revoked: "wedged pr \<Longrightarrow> wedged (fst (on_revoked svc p later pr sh))"
proof -
  assume w: "wedged pr"
  obtain pr1 sh1 where r: "release_claim svc p later (drop_worker p pr) sh = (pr1, sh1)" by fastforce
  have "wedged (bump ''partitions_revoked'' pr1)"
    using wedged_drop[OF w, of p] release_claim_simps[of svc p later "drop_worker p pr" sh] r
      wedged_cong[of "bump ''partitions_revoked'' pr1" "drop_worker p pr"] by simp
  then show ?thesis using wedged_drop[OF w] by (auto simp: on_revoked_def r split: option.splits task.splits)
qed

lemma wedged_step:
  assumes w: "wedged (fl_procs fl n)" and step: "fleet_step svc a fl = Some fl'" and r: "\<not> rescues n a"
  shows "wedged (fl_procs fl' n) \<and> \<not> hands_over n a"
proof -
  have blocked: "pr_blocked (fl_procs fl n) \<noteq> None" using w
    by (cases "pr_blocked (fl_procs fl n)") (auto simp: wedged_def)
  have noput: "resume_put (fl_procs fl n) = None" using w
    by (auto simp: wedged_def resume_put_def split: option.splits prod.splits bool.splits)
  show ?thesis
  proof (cases a)
    case (Work m p q)
    then show ?thesis using step w wedged_elsewhere[of "fl_procs fl n" svc p q]
      by (cases "m = n") (auto simp: fleet_step_def with_proc_def Let_def)
  next
    case (Revoke m p later)
    then show ?thesis using step w wedged_revoked[of "fl_procs fl n" svc p later]
      by (cases "m = n") (auto simp: fleet_step_def with_proc_def Let_def split: if_splits)
  next
    case (CloseClaim m p later)
    then show ?thesis using step w wedged_cong[of "fst (release_claim svc p later (fl_procs fl n) (fl_shared fl))" "fl_procs fl n"]
      by (cases "m = n") (auto simp: fleet_step_def with_proc_def Let_def split: if_splits)
  qed (use step w r blocked noput in \<open>auto simp: fleet_step_def with_proc_def Let_def dispatch_def split: if_splits\<close>)
qed

text \<open>
  C37: A wedged dispatcher stays wedged: whatever the brokers, the store, the tools and the other
  processes do, revoking its partitions included, the process takes no delivery of any partition
  any more until it is shut down or dies.
\<close>

theorem wedged_forever:
  assumes "wedged (fl_procs fl n)" and "run_actions svc as fl = Some fl'" and "\<forall>a \<in> set as. \<not> rescues n a"
  shows "wedged (fl_procs fl' n) \<and> (\<forall>a \<in> set as. \<not> hands_over n a)"
  using assms
proof (induction as arbitrary: fl)
  case (Cons a as)
  then obtain fl1 where "fleet_step svc a fl = Some fl1" "run_actions svc as fl1 = Some fl'"
    by (auto split: option.splits)
  with Cons.IH[of fl1] wedged_step[of fl n svc a fl1] Cons.prems show ?case by simp
qed simp

text \<open>A publication that fails twice kills the worker; two more deliveries of the partition wedge the process.\<close>

definition demo_wedge :: "action list" where
  "demo_wedge =
     [Deliver 0 (demo_delivery 1), Work 0 ''p'' Item, Work 0 ''p'' Slot, Work 0 ''p'' (StoreClaim 0 ''t1''),
      Work 0 ''p'' (ToolReturned (Ok JNull)), Work 0 ''p'' (StoreComplete 0), Work 0 ''p'' (Sink (SinkFailed TimeoutError)),
      Work 0 ''p'' Elapsed, Work 0 ''p'' (Sink (SinkFailed TimeoutError)), Deliver 0 (demo_delivery 2), Deliver 0 (demo_delivery 3)]"

lemma demo_wedged:
  "map_option (\<lambda>fl. (pr_blocked (fl_procs fl 0), pr_tasks (fl_procs fl 0) ''p'', pr_queues (fl_procs fl 0) ''p'', sh_clock (fl_shared fl)))
     (run_actions demo_service demo_wedge (init_fleet demo_service 0 [])) =
   Some (Some (demo_delivery 3, False), Some (Crashed PublishFailedError), Some [demo_delivery 2], 0)"
  by code_simp

theorem wedged_forever_witness:
  "\<exists>fl fl'. run_actions demo_service demo_wedge (init_fleet demo_service 0 []) = Some fl \<and>
    run_actions demo_service [Tick 5, Revoke 0 ''p'' 5, Tick 1] fl = Some fl' \<and> wedged (fl_procs fl' 0)"
proof -
  obtain fl where fl: "run_actions demo_service demo_wedge (init_fleet demo_service 0 []) = Some fl"
    and b: "pr_blocked (fl_procs fl 0) = Some (demo_delivery 3, False)" "pr_tasks (fl_procs fl 0) ''p'' = Some (Crashed PublishFailedError)"
      "pr_queues (fl_procs fl 0) ''p'' = Some [demo_delivery 2]" and clock: "sh_clock (fl_shared fl) = 0"
    using demo_wedged by (auto simp: map_option_case split: option.splits)
  have w: "wedged (fl_procs fl 0)" using b by (simp add: wedged_def demo_delivery_def)
  obtain fl' where fl': "run_actions demo_service [Tick 5, Revoke 0 ''p'' 5, Tick 1] fl = Some fl'"
    by (simp add: fleet_step_def Let_def with_proc_def on_revoked_def b clock)
  have "wedged (fl_procs fl' 0)" using wedged_forever[OF w fl'] by simp
  then show ?thesis using fl fl' by blast
qed

end
