(* ===== verification/Outbox.thy ===== *)
theory Outbox
  imports Effector Dofn
begin

text \<open>
  The way of an intent out of the pipeline and into the effector: \<open>WriteIntents\<close>
  (\<open>actions/write_intents.py\<close>), what the Kafka and Pub/Sub sources make of a message
  (\<open>effector/sources.py\<close>), and the records that make \<open>.errors\<close> and \<open>.dead_letter\<close> deliverable
  (\<open>core/error_records.py\<close>). The protobuf codec and HMAC are parameters; a publish future ends as the
  broker decides. Beam's graph around the two functions is not modelled.
\<close>

section \<open>Construction\<close>

record outbox_ext =
  ob_serialize :: "tool_intent \<Rightarrow> bytes res"
  ob_parse :: "bytes \<Rightarrow> tool_intent option"
  ob_hmac :: "bytes \<Rightarrow> bytes \<Rightarrow> bytes"
  ob_text :: "exn \<Rightarrow> string"

record write_intents =
  wi_uri :: string
  wi_scheme :: string
  wi_authority :: string
  wi_topic :: string
  wi_writer_factory :: "string option"
  wi_signer :: "intent_signer option"
  wi_security :: "transport_security option"

definition write_intents_init ::
  "(string \<Rightarrow> bool) \<Rightarrow> string \<Rightarrow> string option \<Rightarrow> intent_signer option \<Rightarrow> transport_security option \<Rightarrow> write_intents res" where
  "write_intents_init brackets_ok text factory signer security =
     bindE (parse_intents_uri brackets_ok text) (\<lambda>(scheme, authority, topic).
     bindE (case signer of None \<Rightarrow> Ok () | Some s \<Rightarrow> signer_validate s) (\<lambda>_.
     bindE (case security of None \<Rightarrow> Ok () | Some ts \<Rightarrow> security_validate ts) (\<lambda>_.
       Ok \<lparr>wi_uri = text, wi_scheme = scheme, wi_authority = authority, wi_topic = topic,
           wi_writer_factory = factory, wi_signer = signer, wi_security = security\<rparr>)))"

definition dict_update :: "(string, 'v) dict \<Rightarrow> (string, 'v) dict \<Rightarrow> (string, 'v) dict" where
  "dict_update d new = foldl (\<lambda>acc (k, v). AList.update k v acc) d new"

definition kafka_producer_config :: "secrets_env \<Rightarrow> string \<Rightarrow> transport_security option \<Rightarrow> (string, string) dict res" where
  "kafka_producer_config sys brokers security =
     (let config = [(''bootstrap.servers'', brokers), (''enable.idempotence'', ''true'')] in
      case security of
        None \<Rightarrow> Ok config
      | Some ts \<Rightarrow> bindE (java_producer_config sys ts) (\<lambda>extra. Ok (dict_update config extra)))"

datatype outbox_writer =
    KafkaWriter "(string, string) dict" string
  | PubsubWriter string string
  | SuppliedWriter string string

definition build_writer :: "secrets_env \<Rightarrow> write_intents \<Rightarrow> outbox_writer res" where
  "build_writer sys wi =
     (case wi_writer_factory wi of
        Some f \<Rightarrow> Ok (SuppliedWriter f (wi_uri wi))
      | None \<Rightarrow>
          (if wi_scheme wi = ''kafka'' then
             bindE (kafka_producer_config sys (wi_authority wi) (wi_security wi)) (\<lambda>c. Ok (KafkaWriter c (wi_topic wi)))
           else Ok (PubsubWriter (wi_authority wi) (wi_topic wi))))"

datatype element_type = ErasedType | AnyType | TupleType nat | OtherType

definition is_kv_shaped :: "element_type \<Rightarrow> bool" where
  "is_kv_shaped t \<longleftrightarrow> (case t of ErasedType \<Rightarrow> True | AnyType \<Rightarrow> True | TupleType n \<Rightarrow> n = 2 | OtherType \<Rightarrow> False)"

definition outbox_expand :: "secrets_env \<Rightarrow> write_intents \<Rightarrow> element_type \<Rightarrow> outbox_writer res" where
  "outbox_expand sys wi t = (if \<not> is_kv_shaped t then Err ValueError else build_writer sys wi)"

section \<open>Serialization\<close>

definition signer_setup ::
  "(string \<Rightarrow> bytes option) \<Rightarrow> secrets_env \<Rightarrow> intent_signer option \<Rightarrow> bytes option res" where
  "signer_setup b64decode sys signer =
     (case signer of None \<Rightarrow> Ok None | Some s \<Rightarrow> bindE (resolve_key b64decode sys s) (\<lambda>k. Ok (Some k)))"

definition plain_bytes :: "outbox_ext \<Rightarrow> tool_intent \<Rightarrow> bytes" where
  "plain_bytes ext i = (case ob_serialize ext i of Ok b \<Rightarrow> b | Err _ \<Rightarrow> [])"

definition stamp :: "outbox_ext \<Rightarrow> intent_signer option \<Rightarrow> bytes option \<Rightarrow> tool_intent \<Rightarrow> tool_intent res" where
  "stamp ext signer key intent =
     (case signer of
        None \<Rightarrow> Ok intent
      | Some s \<Rightarrow>
          (case key of
             None \<Rightarrow> Err AssertionError
           | Some k \<Rightarrow>
               bindE (ob_serialize ext (unsigned_part intent)) (\<lambda>_.
                 Ok (sign_intent (ob_hmac ext) (plain_bytes ext) (is_key_id s) k intent))))"

datatype serialized = Serialized bytes bytes | DeadLetter bytes tool_intent string

definition serialize_intent ::
  "outbox_ext \<Rightarrow> intent_signer option \<Rightarrow> bytes option \<Rightarrow> bytes \<times> tool_intent \<Rightarrow> serialized" where
  "serialize_intent ext signer key element =
     (case bindE (stamp ext signer key (snd element)) (ob_serialize ext) of
        Ok payload \<Rightarrow> Serialized (fst element) payload
      | Err e \<Rightarrow> DeadLetter (fst element) (snd element) (ob_text ext e))"

section \<open>Publishing to Pub/Sub\<close>

definition ORDERING_KEY_LIMIT :: nat where "ORDERING_KEY_LIMIT = 1024"

text \<open>
  The client keeps the ordering keys it has paused. A message on a paused key fails; a message
  the broker refuses for good pauses its key. A bundle's futures are awaited in order.
\<close>

definition ordering_key :: "bytes \<Rightarrow> string res" where
  "ordering_key key = (if ORDERING_KEY_LIMIT < length (hex_bytes key) then Err ValueError else Ok (hex_bytes key))"

fun publish_elements ::
  "(string \<Rightarrow> bytes \<Rightarrow> bool) \<Rightarrow> (bytes \<times> bytes) list \<Rightarrow> string list \<Rightarrow> (string \<times> bool) list res \<times> string list" where
  "publish_elements accepts [] paused = (Ok [], paused)"
| "publish_elements accepts ((key, payload) # es) paused =
     (case ordering_key key of
        Err e \<Rightarrow> (Err e, paused)
      | Ok k \<Rightarrow>
          (let ok = k \<notin> set paused \<and> accepts k payload;
               (futures, paused') = publish_elements accepts es (if ok \<or> k = [] \<or> k \<in> set paused then paused else k # paused) in
           (bindE futures (\<lambda>fs. Ok ((k, ok) # fs)), paused')))"

fun finish_bundle :: "(string \<times> bool) list \<Rightarrow> string list \<Rightarrow> unit res \<times> string list" where
  "finish_bundle [] paused = (Ok (), paused)"
| "finish_bundle ((k, ok) # futures) paused =
     (if ok then finish_bundle futures paused else (Err TransportError, removeAll k paused))"

definition publish_bundle ::
  "(string \<Rightarrow> bytes \<Rightarrow> bool) \<Rightarrow> (bytes \<times> bytes) list \<Rightarrow> string list \<Rightarrow> unit res \<times> string list" where
  "publish_bundle accepts es paused =
     (case publish_elements accepts es paused of
        (Err e, paused') \<Rightarrow> (Err e, paused')
      | (Ok futures, paused') \<Rightarrow> finish_bundle futures paused')"

text \<open>A runner retries a failed bundle on the same client, at most \<open>n\<close> times.\<close>

fun retry_bundle ::
  "nat \<Rightarrow> (string \<Rightarrow> bytes \<Rightarrow> bool) \<Rightarrow> (bytes \<times> bytes) list \<Rightarrow> string list \<Rightarrow> unit res \<times> string list" where
  "retry_bundle 0 accepts es paused = (Err TransportError, paused)"
| "retry_bundle (Suc n) accepts es paused =
     (case publish_bundle accepts es paused of
        (Ok u, paused') \<Rightarrow> (Ok u, paused')
      | (Err e, paused') \<Rightarrow> retry_bundle n accepts es paused')"

section \<open>The effector's sinks\<close>

text \<open>
  \<open>PubSubMessageSink.publish\<close> against the same client, which nothing here resumes; \<open>with_retry\<close> is the
  effector's retry loop around it, whose pauses are the caller's. A message the broker refuses on
  an ordering key pauses it.
\<close>

definition sink_publish :: "(string \<Rightarrow> bytes \<Rightarrow> bool) \<Rightarrow> bytes \<Rightarrow> bytes \<Rightarrow> string list \<Rightarrow> unit res \<times> string list" where
  "sink_publish accepts key payload paused =
     (let k = hex_bytes key in
      if k \<in> set paused then (Err TransportError, paused)
      else if accepts k payload then (Ok (), paused)
      else (Err TransportError, if k = [] then paused else k # paused))"

fun with_retry :: "nat \<Rightarrow> (nat \<Rightarrow> string \<Rightarrow> bytes \<Rightarrow> bool) \<Rightarrow> bytes \<Rightarrow> bytes \<Rightarrow> string list \<Rightarrow> unit res \<times> string list" where
  "with_retry 0 broker key payload paused = (Err PublishFailedError, paused)"
| "with_retry (Suc n) broker key payload paused =
     (case sink_publish (broker n) key payload paused of
        (Ok u, paused') \<Rightarrow> (Ok u, paused')
      | (Err e, paused') \<Rightarrow> with_retry n broker key payload paused')"

definition result_message :: "(tool_result \<Rightarrow> bytes) \<Rightarrow> tool_result \<Rightarrow> bytes \<times> bytes" where
  "result_message serialize r = (tr_key r, serialize r)"

section \<open>Reading the outbox\<close>

definition parse_intent :: "outbox_ext \<Rightarrow> bytes \<Rightarrow> tool_intent res" where
  "parse_intent ext payload = (case ob_parse ext payload of None \<Rightarrow> Err DecodeError | Some i \<Rightarrow> Ok i)"

definition ascii_space :: "char \<Rightarrow> bool" where
  "ascii_space c \<longleftrightarrow> (let n = (of_char c :: nat) in n = 32 \<or> 9 \<le> n \<and> n \<le> 13)"

fun from_hex :: "string \<Rightarrow> bytes option" where
  "from_hex [] = Some []"
| "from_hex (c # cs) =
     (if ascii_space c then from_hex cs
      else (case cs of
              [] \<Rightarrow> None
            | d # ds \<Rightarrow>
                (case (hex_value c, hex_value d) of
                   (Some h, Some l) \<Rightarrow> map_option ((#) (word_of_nat (16 * h + l))) (from_hex ds)
                 | _ \<Rightarrow> None)))"

definition ordering_key_bytes :: "string \<Rightarrow> bytes" where
  "ordering_key_bytes k = (case from_hex k of None \<Rightarrow> [] | Some bs \<Rightarrow> bs)"

record kafka_message =
  km_topic :: string
  km_partition :: int
  km_offset :: nat
  km_key :: "bytes option"
  km_value :: bytes

definition kafka_delivery :: "outbox_ext \<Rightarrow> kafka_message \<Rightarrow> delivered res" where
  "kafka_delivery ext msg =
     bindE (parse_intent ext (km_value msg)) (\<lambda>intent.
       Ok \<lparr>dl_intent = intent, dl_partition = km_topic msg @ '':'' @ dec (km_partition msg), dl_handle = km_offset msg,
           dl_payload = km_value msg, dl_key = (case km_key msg of None \<Rightarrow> [] | Some k \<Rightarrow> k)\<rparr>)"

definition pubsub_delivery :: "outbox_ext \<Rightarrow> nat \<Rightarrow> string \<Rightarrow> bytes \<Rightarrow> delivered res" where
  "pubsub_delivery ext handle k payload =
     bindE (parse_intent ext payload) (\<lambda>intent.
       Ok \<lparr>dl_intent = intent, dl_partition = k, dl_handle = handle, dl_payload = payload,
           dl_key = ordering_key_bytes k\<rparr>)"

text \<open>The consumer loop of the Kafka source: what it yields before it ends, and how it ends.\<close>

fun kafka_deliveries :: "outbox_ext \<Rightarrow> kafka_message list \<Rightarrow> delivered list \<times> unit res" where
  "kafka_deliveries ext [] = ([], Ok ())"
| "kafka_deliveries ext (msg # msgs) =
     (case kafka_delivery ext msg of
        Err e \<Rightarrow> ([], Err e)
      | Ok d \<Rightarrow> (let (ds, r) = kafka_deliveries ext msgs in (d # ds, r)))"

section \<open>Error records\<close>

text \<open>
  \<open>json.dumps\<close> with its defaults: members in insertion order, \<open>, \<close> and \<open>: \<close> between them, and every
  character that is not printable ASCII escaped, beyond the basic plane as a surrogate pair. The
  code points are read back from the UTF-8 bytes of the text.
\<close>

fun code_points :: "nat list \<Rightarrow> nat list" where
  "code_points [] = []"
| "code_points (a # rest) =
     (if a < 192 then a # code_points rest
      else if a < 224 then
        (case rest of b # r \<Rightarrow> ((a - 192) * 64 + (b - 128)) # code_points r | _ \<Rightarrow> [])
      else if a < 240 then
        (case rest of b # c # r \<Rightarrow> (((a - 224) * 64 + (b - 128)) * 64 + (c - 128)) # code_points r | _ \<Rightarrow> [])
      else
        (case rest of b # c # d # r \<Rightarrow>
           ((((a - 240) * 64 + (b - 128)) * 64 + (c - 128)) * 64 + (d - 128)) # code_points r | _ \<Rightarrow> []))"

definition unit16 :: "nat \<Rightarrow> string" where
  "unit16 n =
     [CHR 0x5C, CHR ''u'', hex_digit (n div 4096 mod 16), hex_digit (n div 256 mod 16), hex_digit (n div 16 mod 16),
      hex_digit (n mod 16)]"

definition escape_point :: "nat \<Rightarrow> string" where
  "escape_point n =
     (if n \<in> {34, 92, 10, 13, 9, 8, 12} then escape_char (char_of n)
      else if 32 \<le> n \<and> n < 127 then [char_of n]
      else if n < 65536 then unit16 n
      else unit16 (55296 + (n - 65536) div 1024) @ unit16 (56320 + (n - 65536) mod 1024))"

definition quote_ascii :: "string \<Rightarrow> string" where
  "quote_ascii s = CHR 0x22 # concat (map escape_point (code_points (map of_char s))) @ [CHR 0x22]"

definition REASON_INTENT_DEAD_LETTER :: string where "REASON_INTENT_DEAD_LETTER = ''intent_dead_letter''"

definition dead_letter_detail :: "string \<Rightarrow> tool_intent \<Rightarrow> string" where
  "dead_letter_detail reason i =
     ''{'' @ quote_ascii ''reason'' @ '': '' @ quote_ascii reason @ '', '' @
     quote_ascii ''intent_id'' @ '': '' @ quote_ascii (ti_id i) @ '', '' @
     quote_ascii ''seq'' @ '': '' @ dec (ti_seq i) @ '', '' @
     quote_ascii ''tool_name'' @ '': '' @ quote_ascii (ti_tool i) @ ''}''"

definition intent_dead_letter_to_error :: "bytes \<Rightarrow> tool_intent \<Rightarrow> string \<Rightarrow> activation_error_record" where
  "intent_dead_letter_to_error key i reason =
     \<lparr>er_key = key, er_reason = REASON_INTENT_DEAD_LETTER, er_detail = dead_letter_detail reason i, er_time = ti_created i\<rparr>"

definition error_envelope :: "(activation_error_record \<Rightarrow> bytes) \<Rightarrow> activation_error_record \<Rightarrow> envelope" where
  "error_envelope serialize e =
     \<lparr>env_key = er_key e, env_time = er_time e, env_payload = Some (ExternalEvent (serialize e))\<rparr>"

definition serialize_error_envelope ::
  "(activation_error_record \<Rightarrow> bytes) \<Rightarrow> (envelope \<Rightarrow> bytes) \<Rightarrow> activation_error_record \<Rightarrow> bytes \<times> bytes" where
  "serialize_error_envelope serialize serialize_envelope e = (er_key e, serialize_envelope (error_envelope serialize e))"

record error_row =
  eo_key :: string
  eo_reason :: string
  eo_detail :: string
  eo_time :: msec

definition activation_error_to_row :: "activation_error_record \<Rightarrow> error_row" where
  "activation_error_to_row e =
     \<lparr>eo_key = hex_bytes (er_key e), eo_reason = er_reason e, eo_detail = er_detail e, eo_time = er_time e\<rparr>"

section \<open>Lemmas\<close>

lemma hex_digit_plain: "k < 16 \<Longrightarrow> \<not> ascii_space (hex_digit k)"
  by (simp add: ascii_space_def of_char_hex_digit)

lemma from_hex_bytes [simp]: "from_hex (hex_bytes bs) = Some bs"
proof (induction bs)
  case (Cons b bs)
  have d: "unat b div 16 < 16" "unat b mod 16 < 16" using unsigned_less[of b, where 'a = nat] by auto
  have "hex_bytes (b # bs) = hex_digit (unat b div 16) # hex_digit (unat b mod 16) # hex_bytes bs"
    by (simp add: hex_bytes_def hex_byte_def)
  moreover have "16 * (unat b div 16) + unat b mod 16 = unat b" by simp
  ultimately show ?case using Cons d by (simp add: hex_digit_plain hex_value_digit)
qed (simp add: hex_bytes_def)

lemma ordering_key_bytes_hex [simp]: "ordering_key_bytes (hex_bytes key) = key"
  by (simp add: ordering_key_bytes_def)

lemma stamp_signed:
  "stamp ext (Some s) (Some k) i = Ok j \<Longrightarrow> j = sign_intent (ob_hmac ext) (plain_bytes ext) (is_key_id s) k i"
  by (auto simp: stamp_def)

lemma serialize_intent_Serialized:
  "serialize_intent ext signer key (k, i) = Serialized k' p \<longleftrightarrow>
   k' = k \<and> (\<exists>j. stamp ext signer key i = Ok j \<and> ob_serialize ext j = Ok p)"
  by (auto simp: serialize_intent_def split: sum.splits)

text \<open>On text below \<open>DEL\<close> the two quotations agree.\<close>

definition plain_text :: "string \<Rightarrow> bool" where
  "plain_text s \<longleftrightarrow> (\<forall>c \<in> set s. (of_char c :: nat) < 127)"

lemma code_points_plain: "plain_text s \<Longrightarrow> code_points (map of_char s) = map of_char s"
  by (induction s) (auto simp: plain_text_def)

lemma escape_point_plain: "(of_char c :: nat) < 127 \<Longrightarrow> escape_point (of_char c) = escape_char c"
proof -
  assume c: "(of_char c :: nat) < 127"
  define n where "n = (of_char c :: nat)"
  have cn: "c = char_of n" by (simp add: n_def)
  show ?thesis
  proof (cases "n < 32 \<and> n \<notin> {10, 13, 9, 8, 12}")
    case True
    then have "n div 4096 mod 16 = 0" "n div 256 mod 16 = 0" "n div 16 mod 16 = n div 16" by auto
    moreover have "hex_digit 0 = CHR ''0''" by (simp add: hex_digit_def char_of_def bit_0)
    ultimately show ?thesis using True by (simp add: escape_point_def escape_char_def unit16_def char_names flip: n_def)
  next
    case False
    have "n = 34 \<Longrightarrow> c = char_of (34 :: nat)" "n = 92 \<Longrightarrow> c = char_of (92 :: nat)" using cn by simp_all
    then show ?thesis using False c by (auto simp: escape_point_def escape_char_def simp flip: n_def cn)
  qed
qed

lemma quote_ascii_plain: "plain_text s \<Longrightarrow> quote_ascii s = quote s"
proof -
  assume s: "plain_text s"
  then have "map escape_point (map of_char s) = map escape_char s"
    using escape_point_plain by (auto simp: plain_text_def)
  then show ?thesis using s by (simp only: quote_ascii_def code_points_plain quote_shape)
qed

lemma value_text_basic:
  "value_text pf (JStr s) (quote s)"
  "length (dec_nat (nat \<bar>i\<bar>)) \<le> MAX_STR_DIGITS \<Longrightarrow> value_text pf (JInt i) (dec i)"
  using dumps_text[of "JStr s" "quote s" pf] dumps_text[of "JInt i" "dec i" pf] by simp_all

lemma member_text_spaced:
  assumes v: "value_text pf v d" and n: "2 * length d \<le> n"
  shows "parse_members pf (Suc n) acc (quote k @ '': '' @ d @ '', '' @ CHR 0x22 # t) =
      parse_members pf n (AList.update k v acc) (CHR 0x22 # t)"
    and "parse_members pf (Suc n) acc (quote k @ '': '' @ d @ ''}'' @ u) = Ok (AList.update k v acc, u)"
proof -
  have ws: "skip_ws (CHR '' '' # d @ r) = d @ r" for r
    using value_text_ws[OF v, of r] by (simp add: skip_ws_def is_json_space_def)
  have sep: "skip_ws (CHR '':'' # r) = CHR '':'' # r" "skip_ws (CHR '','' # r) = CHR '','' # r" "skip_ws (CHR ''}'' # r) = CHR ''}'' # r"
    "skip_ws (CHR '' '' # CHR 0x22 # r) = CHR 0x22 # r" for r
    by (simp_all add: skip_ws_def is_json_space_def)
  have run: "parse_value pf n (d @ CHR '','' # r) = Ok (v, CHR '','' # r)" "parse_value pf n (d @ CHR ''}'' # r) = Ok (v, CHR ''}'' # r)" for r
    using v n by (simp_all add: value_text_def)
  show "parse_members pf (Suc n) acc (quote k @ '': '' @ d @ '', '' @ CHR 0x22 # t) =
      parse_members pf n (AList.update k v acc) (CHR 0x22 # t)"
    by (simp add: quote_shape scan_quoted sep ws run del: append_assoc) (simp add: scan_quoted sep ws run)
  show "parse_members pf (Suc n) acc (quote k @ '': '' @ d @ ''}'' @ u) = Ok (AList.update k v acc, u)"
    by (simp add: quote_shape scan_quoted sep ws run)
qed

lemma member_step:
  assumes "value_text pf v d" and "2 * length d \<le> n" and "\<exists>t. rest = CHR 0x22 # t"
  shows "parse_members pf (Suc n) acc (quote k @ '': '' @ d @ '', '' @ rest) =
    parse_members pf n (AList.update k v acc) rest"
  using assms(3) member_text_spaced(1)[OF assms(1,2)] by auto

lemma parse_object_open:
  "\<lbrakk>\<exists>t. s = CHR 0x22 # t; parse_members pf n [] s = Ok (kvs, r)\<rbrakk> \<Longrightarrow>
    parse_value pf (Suc n) (''{'' @ s) = Ok (JObj kvs, r)"
  by (auto simp: skip_ws_def is_json_space_def simp del: parse_members.simps)

lemma detail_names: "plain_text ''reason''" "plain_text ''intent_id''" "plain_text ''seq''" "plain_text ''tool_name''"
  by (simp_all add: plain_text_def)

text \<open>A bundle on a broker that accepts everything: only the client's own paused keys fail.\<close>

definition short_keys :: "(bytes \<times> bytes) list \<Rightarrow> bool" where
  "short_keys es \<longleftrightarrow> (\<forall>e \<in> set es. 2 * length (fst e) \<le> ORDERING_KEY_LIMIT)"

definition stuck_keys :: "(bytes \<times> bytes) list \<Rightarrow> string list \<Rightarrow> string set" where
  "stuck_keys es paused = (\<lambda>e. hex_bytes (fst e)) ` set es \<inter> set paused"

lemma length_hex_bytes [simp]: "length (hex_bytes bs) = 2 * length bs"
  by (induction bs) (simp_all add: hex_bytes_def)

lemma publish_healthy:
  "short_keys es \<Longrightarrow> publish_elements (\<lambda>_ _. True) es paused =
     (Ok (map (\<lambda>e. (hex_bytes (fst e), hex_bytes (fst e) \<notin> set paused)) es), paused)"
proof (induction es)
  case (Cons e es)
  then have "publish_elements (\<lambda>_ _. True) es paused =
      (Ok (map (\<lambda>e. (hex_bytes (fst e), hex_bytes (fst e) \<notin> set paused)) es), paused)"
    by (simp add: short_keys_def)
  then show ?case using Cons.prems by (cases e) (simp add: short_keys_def ordering_key_def Let_def)
qed simp

lemma finish_bundle_first:
  "finish_bundle (map (\<lambda>e. (f e, f e \<notin> P)) es) paused =
     (case filter (\<lambda>k. k \<in> P) (map f es) of [] \<Rightarrow> (Ok (), paused) | k # ks \<Rightarrow> (Err TransportError, removeAll k paused))"
  by (induction es) auto

lemma bundle_healthy:
  assumes "short_keys es"
  shows "stuck_keys es paused = {} \<Longrightarrow> publish_bundle (\<lambda>_ _. True) es paused = (Ok (), paused)"
    and "stuck_keys es paused \<noteq> {} \<Longrightarrow>
      \<exists>k \<in> stuck_keys es paused. publish_bundle (\<lambda>_ _. True) es paused = (Err TransportError, removeAll k paused)"
proof -
  let ?f = "\<lambda>e. hex_bytes (fst (e :: bytes \<times> bytes))"
  have b: "publish_bundle (\<lambda>_ _. True) es paused =
      (case filter (\<lambda>k. k \<in> set paused) (map ?f es) of [] \<Rightarrow> (Ok (), paused)
       | k # ks \<Rightarrow> (Err TransportError, removeAll k paused))"
    using finish_bundle_first[of ?f "set paused" es paused] publish_healthy[OF assms, of paused] by (simp add: publish_bundle_def)
  have s: "set (filter (\<lambda>k. k \<in> set paused) (map ?f es)) = stuck_keys es paused" by (auto simp: stuck_keys_def)
  show "stuck_keys es paused = {} \<Longrightarrow> publish_bundle (\<lambda>_ _. True) es paused = (Ok (), paused)"
    using b s by (cases "filter (\<lambda>k. k \<in> set paused) (map ?f es)") auto
  show "stuck_keys es paused \<noteq> {} \<Longrightarrow>
      \<exists>k \<in> stuck_keys es paused. publish_bundle (\<lambda>_ _. True) es paused = (Err TransportError, removeAll k paused)"
    using b s by (cases "filter (\<lambda>k. k \<in> set paused) (map ?f es)") auto
qed

lemma stuck_removeAll: "stuck_keys es (removeAll k paused) = stuck_keys es paused - {k}"
  by (auto simp: stuck_keys_def)

lemma long_key_fails:
  "\<lbrakk>(key, payload) \<in> set es; ORDERING_KEY_LIMIT < 2 * length key\<rbrakk> \<Longrightarrow> \<exists>e. fst (publish_elements accepts es paused) = Err e"
proof (induction es arbitrary: paused)
  case (Cons x es)
  obtain k p where x: "x = (k, p)" by fastforce
  show ?case
  proof (cases "ORDERING_KEY_LIMIT < 2 * length k")
    case True
    then show ?thesis by (simp add: x ordering_key_def)
  next
    case False
    then have "(key, payload) \<in> set es" using Cons.prems x by auto
    then show ?thesis using Cons.IH[OF _ Cons.prems(2)] False
      by (auto simp: x ordering_key_def Let_def split: prod.splits) (metis bindE.simps(1) fst_conv)+
  qed
qed simp

section \<open>Properties\<close>

text \<open>
  C38: What the outbox signs, the effector accepts: a serialized intent, read back from either
  transport, passes verification in every mode with no counter bumped, differs from the staged
  intent in provenance only, and keeps its key and its exact bytes for the dead-letter channel.
\<close>

theorem outbox_reaches_effector:
  assumes "serialize_intent ext (Some s) (Some key) (k, i) = Serialized k payload"
    and codec: "\<And>j b. ob_serialize ext j = Ok b \<Longrightarrow> ob_parse ext b = Some j"
    and "sv_hmac svc = ob_hmac ext" and "sv_serialize svc = plain_bytes ext"
    and "map_of (sv_keyring svc) (is_key_id s) = Some key" and "\<And>m. ob_hmac ext key m \<noteq> []"
    and "k \<noteq> []" and "payload \<noteq> []"
  shows "(\<exists>d. kafka_delivery ext \<lparr>km_topic = t, km_partition = n, km_offset = off, km_key = Some k, km_value = payload\<rparr> = Ok d \<and>
      verified svc d = (None, []) \<and> unsigned_part (dl_intent d) = unsigned_part i \<and>
      raw_key d = k \<and> raw_payload (sv_serialize svc) d = payload) \<and>
    (\<exists>d. pubsub_delivery ext h (hex_bytes k) payload = Ok d \<and>
      verified svc d = (None, []) \<and> unsigned_part (dl_intent d) = unsigned_part i \<and>
      raw_key d = k \<and> raw_payload (sv_serialize svc) d = payload \<and> dl_partition d = hex_bytes k)"
proof -
  let ?j = "sign_intent (ob_hmac ext) (plain_bytes ext) (is_key_id s) key i"
  have "ob_serialize ext ?j = Ok payload" using assms(1) stamp_signed by (auto simp: serialize_intent_Serialized)
  then have p: "parse_intent ext payload = Ok ?j" using codec by (simp add: parse_intent_def)
  have v: "verify_intent (ob_hmac ext) (plain_bytes ext) (sv_keyring svc) ?j = VerOk"
    using assms(5,6) by (simp add: verify_Ok_iff sign_sig)
  then have "verified svc d = (None, [])" if "dl_intent d = ?j" for d
    using that assms(3,4) by (simp add: verified_def Let_def)
  then show ?thesis using p assms(7,8)
    by (simp add: kafka_delivery_def pubsub_delivery_def raw_key_def raw_payload_def)
qed

text \<open>A codec that knows an intent and its signed form only.\<close>

definition demo_signed :: tool_intent where
  "demo_signed = demo_intent\<lparr>ti_scheme := HmacSha256, ti_key_id := ''k1'', ti_sig := [9, 1]\<rparr>"

definition pair_codec :: outbox_ext where
  "pair_codec =
     \<lparr>ob_serialize = (\<lambda>j. if j = unsigned_part demo_intent then Ok [1] else if j = demo_signed then Ok [2] else Err ValueError),
      ob_parse = (\<lambda>b. if b = [1] then Some (unsigned_part demo_intent) else if b = [2] then Some demo_signed else None),
      ob_hmac = (\<lambda>key m. key @ m), ob_text = (\<lambda>_. ''no'')\<rparr>"

theorem outbox_reaches_effector_witness:
  "\<exists>d. kafka_delivery pair_codec
      \<lparr>km_topic = ''t'', km_partition = 0, km_offset = 5, km_key = Some [7], km_value = [2]\<rparr> = Ok d \<and>
    verified (demo_service\<lparr>sv_hmac := ob_hmac pair_codec, sv_serialize := plain_bytes pair_codec,
      sv_keyring := [(''k1'', [9])]\<rparr>) d = (None, [])"
proof -
  let ?svc = "demo_service\<lparr>sv_hmac := ob_hmac pair_codec, sv_serialize := plain_bytes pair_codec,
      sv_keyring := [(''k1'', [9])]\<rparr>"
  let ?s = "\<lparr>is_key_id = ''k1'', is_key_reference = ''env:K'', is_scheme = HmacSha256\<rparr>"
  have u: "unsigned_part demo_signed = unsigned_part demo_intent" "demo_signed \<noteq> unsigned_part demo_intent"
    by (simp_all add: demo_signed_def unsigned_part_def demo_intent_def)
  have sign: "sign_intent (ob_hmac pair_codec) (plain_bytes pair_codec) ''k1'' [9] demo_intent = demo_signed"
    by (simp add: sign_intent_def signing_input_def plain_bytes_def pair_codec_def demo_signed_def unsigned_part_def
        demo_intent_def)
  have ser: "serialize_intent pair_codec (Some ?s) (Some [9]) ([7], demo_intent) = Serialized [7] [2]"
    using u by (simp add: serialize_intent_def stamp_def sign) (simp add: pair_codec_def)
  have codec: "ob_serialize pair_codec j = Ok b \<Longrightarrow> ob_parse pair_codec b = Some j" for j b
    by (auto simp: pair_codec_def split: if_splits)
  have mac: "ob_hmac pair_codec [9] m \<noteq> []" for m by (simp add: pair_codec_def)
  show ?thesis
    using outbox_reaches_effector[OF ser codec, where svc = ?svc and t = "''t''" and n = 0 and off = 5 and h = 0, simplified]
      mac by auto
qed

text \<open>
  The error record of an intent the outbox could not serialize is readable: its detail decodes
  to the reason and the identifying fields, in order.
\<close>

theorem dead_letter_detail_readable:
  assumes "plain_text reason" and "plain_text (ti_id i)" and "plain_text (ti_tool i)"
    and "length (dec_nat (nat \<bar>ti_seq i\<bar>)) \<le> MAX_STR_DIGITS"
  shows "json_loads pf (er_detail (intent_dead_letter_to_error key i reason)) =
    Ok (JObj [(''reason'', JStr reason), (''intent_id'', JStr (ti_id i)), (''seq'', JInt (ti_seq i)),
      (''tool_name'', JStr (ti_tool i))])"
proof -
  let ?tool = "quote ''tool_name'' @ '': '' @ quote (ti_tool i) @ ''}''"
  let ?seq = "quote ''seq'' @ '': '' @ dec (ti_seq i) @ '', '' @ ?tool"
  let ?id = "quote ''intent_id'' @ '': '' @ quote (ti_id i) @ '', '' @ ?seq"
  let ?all = "quote ''reason'' @ '': '' @ quote reason @ '', '' @ ?id"
  let ?d = "er_detail (intent_dead_letter_to_error key i reason)"
  have d: "?d = ''{'' @ ?all"
    using assms by (simp add: intent_dead_letter_to_error_def dead_letter_detail_def quote_ascii_plain detail_names)
  obtain m where m: "2 * length ?d = Suc (Suc (Suc (Suc (Suc m))))" and
    l: "2 * length (quote reason) \<le> Suc (Suc (Suc m))" "2 * length (quote (ti_id i)) \<le> Suc (Suc m)"
    "2 * length (dec (ti_seq i)) \<le> Suc m" "2 * length (quote (ti_tool i)) \<le> m"
  proof
    show "2 * length ?d = Suc (Suc (Suc (Suc (Suc (2 * length ?d - 5)))))" by (simp add: d)
  qed (simp_all add: d)
  have heads: "\<exists>t. ?id = CHR 0x22 # t" "\<exists>t. ?seq = CHR 0x22 # t" "\<exists>t. ?tool = CHR 0x22 # t" "\<exists>t. ?all = CHR 0x22 # t"
    by (simp_all add: quote_shape)
  have "parse_members pf (Suc (Suc (Suc (Suc m)))) [] ?all =
      Ok ([(''reason'', JStr reason), (''intent_id'', JStr (ti_id i)), (''seq'', JInt (ti_seq i)),
        (''tool_name'', JStr (ti_tool i))], [])"
  proof -
    note step = member_step[OF value_text_basic(1) l(1) heads(1)] member_step[OF value_text_basic(1) l(2) heads(2)]
      member_step[OF value_text_basic(2)[OF assms(4)] l(3) heads(3)]
      member_text_spaced(2)[OF value_text_basic(1) l(4), where u = "[]", simplified append_Nil2]
    show ?thesis unfolding step by simp
  qed
  then have "parse_value pf (2 * length ?d) ?d = Ok (JObj [(''reason'', JStr reason), (''intent_id'', JStr (ti_id i)),
      (''seq'', JInt (ti_seq i)), (''tool_name'', JStr (ti_tool i))], [])"
    unfolding m unfolding d by (rule parse_object_open[OF heads(4)])
  then show ?thesis by (simp add: json_loads_def d BOM_def skip_ws_def is_json_space_def)
qed

theorem dead_letter_detail_readable_witness:
  "json_loads JFloat (er_detail (intent_dead_letter_to_error [7] demo_intent ''no'')) =
    Ok (JObj [(''reason'', JStr ''no''), (''intent_id'', JStr ''i1''), (''seq'', JInt 4), (''tool_name'', JStr ''pay'')])"
  using dead_letter_detail_readable[of "''no''" demo_intent JFloat "[7]"]
  by (simp add: demo_intent_def plain_text_def dec_nat.simps MAX_STR_DIGITS_def)

text \<open>
  On a broker that accepts every message, a retried bundle gets through exactly when it has
  more attempts than paused keys: an attempt resumes one key only, the first that fails.
\<close>

theorem retries_resume_one_key:
  assumes "short_keys es"
  shows "fst (retry_bundle n (\<lambda>_ _. True) es paused) = Ok () \<longleftrightarrow> card (stuck_keys es paused) < n"
proof (induction n arbitrary: paused)
  case (Suc n)
  have fin: "finite (stuck_keys es paused)" for paused by (simp add: stuck_keys_def)
  show ?case
  proof (cases "stuck_keys es paused = {}")
    case True
    then show ?thesis using bundle_healthy(1)[OF assms] by simp
  next
    case False
    then obtain k where k: "k \<in> stuck_keys es paused"
      "publish_bundle (\<lambda>_ _. True) es paused = (Err TransportError, removeAll k paused)"
      using bundle_healthy(2)[OF assms] by blast
    then have "card (stuck_keys es paused) = Suc (card (stuck_keys es (removeAll k paused)))"
      using card_Suc_Diff1[OF fin k(1)] by (simp add: stuck_removeAll)
    then show ?thesis using k Suc.IH[of "removeAll k paused"] by simp
  qed
qed simp

theorem retries_resume_one_key_witness:
  "fst (retry_bundle 2 (\<lambda>_ _. True) [([1], [7]), ([2], [8])] [''01'', ''02'']) \<noteq> Ok () \<and>
   fst (retry_bundle 3 (\<lambda>_ _. True) [([1], [7]), ([2], [8])] [''01'', ''02'']) = Ok ()"
proof -
  have s: "short_keys [([1], [7]), ([2], [8])]" by (simp add: short_keys_def ORDERING_KEY_LIMIT_def)
  have "stuck_keys [([1], [7]), ([2], [8])] [''01'', ''02''] = {''01'', ''02''}" by code_simp
  then show ?thesis using retries_resume_one_key[OF s, of _ "[''01'', ''02'']"] by simp
qed

text \<open>
  An entity key whose hex form exceeds the ordering-key limit fails its whole bundle on every
  retry, whatever the broker does: it is not dead-lettered.
\<close>

theorem long_key_blocks_bundle:
  assumes "(key, payload) \<in> set es" and "ORDERING_KEY_LIMIT < 2 * length key"
  shows "\<exists>e. fst (retry_bundle n accepts es paused) = Err e"
proof (induction n arbitrary: paused)
  case (Suc n)
  obtain e p where "publish_elements accepts es paused = (Err e, p)"
    using long_key_fails[OF assms, of accepts paused] by (metis prod.collapse)
  then show ?case using Suc by (simp add: publish_bundle_def)
qed simp

theorem long_key_blocks_bundle_witness:
  "\<exists>e. fst (retry_bundle 3 (\<lambda>_ _. True) [([1], [7]), (replicate 513 0, [8])] []) = Err e"
  by (rule long_key_blocks_bundle[of "replicate 513 0" "[8]"]) (simp_all add: ORDERING_KEY_LIMIT_def)

lemma paused_fails: "hex_bytes key \<in> set paused \<Longrightarrow> with_retry n broker key payload paused = (Err PublishFailedError, paused)"
  by (induction n) (simp_all add: sink_publish_def)

lemma with_retry_own_key:
  "(hex_bytes key \<in> set P \<longleftrightarrow> hex_bytes key \<in> set Q) \<Longrightarrow>
    fst (with_retry n broker key payload P) = fst (with_retry n broker key payload Q)"
proof (induction n arbitrary: P Q)
  case (Suc n)
  let ?k = "hex_bytes key"
  show ?case
  proof (cases "?k \<in> set P")
    case True
    then show ?thesis using Suc.prems by (simp only: paused_fails fst_conv)
  next
    case False
    then have "?k \<notin> set Q" using Suc.prems by simp
    then show ?thesis using False Suc.IH[of P Q] Suc.IH[of "?k # P" "?k # Q"] by (simp add: sink_publish_def Let_def)
  qed
qed simp

text \<open>
  A refused publish pauses its ordering key in the effector's client for good: the retries of
  that publish fail even on a broker that accepts again, and so does every later publish of the
  process under the key. Other keys are not affected.
\<close>

theorem refused_key_stays_paused:
  assumes "\<not> broker n (hex_bytes key) payload" and "key \<noteq> []" and "hex_bytes key \<notin> set paused"
  shows "with_retry (Suc n) broker key payload paused = (Err PublishFailedError, hex_bytes key # paused) \<and>
    with_retry m later key payload' (hex_bytes key # paused) = (Err PublishFailedError, hex_bytes key # paused) \<and>
    (\<forall>other. other \<noteq> key \<longrightarrow>
      fst (with_retry m later other payload' (hex_bytes key # paused)) = fst (with_retry m later other payload' paused))"
proof -
  have ne: "hex_bytes key \<noteq> []" using assms(2) by (metis length_0_conv length_hex_bytes mult_is_0 zero_neq_numeral)
  have "hex_bytes other \<noteq> hex_bytes key" if "other \<noteq> key" for other
    using that from_hex_bytes by (metis option.inject)
  then have "fst (with_retry m later other payload' (hex_bytes key # paused)) = fst (with_retry m later other payload' paused)"
    if "other \<noteq> key" for other
    using that by (intro with_retry_own_key) auto
  then show ?thesis using assms ne paused_fails[of key "hex_bytes key # paused"]
    by (auto simp: sink_publish_def)
qed

theorem refused_key_stays_paused_witness:
  "with_retry 5 (\<lambda>n _ _. n \<noteq> 4) [7] [1] [] = (Err PublishFailedError, [''07''])"
  using refused_key_stays_paused[of "\<lambda>n _ _. n \<noteq> 4" 4 "[7]" "[1]" "[]"]
  by (simp add: hex_bytes_def hex_byte_def hex_digit_def char_of_def bit_0) 

text \<open>
  A message that does not decode ends the Kafka consumer loop with its error: what follows it
  is never delivered, and a consumer restarted at it delivers nothing.
\<close>

theorem malformed_message_stops_source:
  assumes "\<forall>msg \<in> set pre. ob_parse ext (km_value msg) \<noteq> None" and "ob_parse ext (km_value bad) = None"
  shows "length (fst (kafka_deliveries ext (pre @ bad # post))) = length pre \<and>
    snd (kafka_deliveries ext (pre @ bad # post)) = Err DecodeError \<and>
    kafka_deliveries ext (bad # post) = ([], Err DecodeError)"
proof -
  have bad: "kafka_deliveries ext (bad # post) = ([], Err DecodeError)"
    using assms(2) by (simp add: kafka_delivery_def parse_intent_def)
  have "length (fst (kafka_deliveries ext (pre @ bad # post))) = length pre \<and>
      snd (kafka_deliveries ext (pre @ bad # post)) = Err DecodeError"
    using assms(1)
  proof (induction pre)
    case (Cons msg pre)
    then show ?case by (auto simp: kafka_delivery_def parse_intent_def split: prod.splits option.splits)
  qed (simp only: bad append_Nil fst_conv snd_conv list.size simp_thms)
  then show ?thesis using bad by blast
qed

theorem malformed_message_stops_source_witness:
  "kafka_deliveries pair_codec
     [\<lparr>km_topic = ''t'', km_partition = 0, km_offset = 5, km_key = None, km_value = [3]\<rparr>,
      \<lparr>km_topic = ''t'', km_partition = 0, km_offset = 6, km_key = Some [7], km_value = [2]\<rparr>] = ([], Err DecodeError)"
  using malformed_message_stops_source[of "[]" pair_codec
      "\<lparr>km_topic = ''t'', km_partition = 0, km_offset = 5, km_key = None, km_value = [3]\<rparr>"
      "[\<lparr>km_topic = ''t'', km_partition = 0, km_offset = 6, km_key = Some [7], km_value = [2]\<rparr>]"]
  by (simp add: pair_codec_def)

end
