(* ===== verification/Replay.thy ===== *)
theory Replay
  imports Dofn
begin

text \<open>
  Offline replay: the framed trace stream, the fail-closed loading of a snapshot, the
  reconstruction of an activation's inputs (\<open>replay/bundle.py\<close>) and its re-run against a provider
  that can only fail (\<open>replay/provider.py\<close>). Positions in a byte string are the bytes that remain
  from them; the protobuf codecs and the chain of an exception are parameters.
\<close>

section \<open>Framing\<close>

function varint :: "nat \<Rightarrow> bytes" where
  "varint n =
     (if n div 128 \<noteq> 0 then word_of_nat (n mod 128 + 128) # varint (n div 128) else [word_of_nat (n mod 128)])"
  by pat_completeness auto
termination
  by (relation "measure id") (auto simp: div_greater_zero_iff)

declare varint.simps [simp del]

fun read_varint :: "nat \<Rightarrow> nat \<Rightarrow> bytes \<Rightarrow> (nat \<times> bytes) res" where
  "read_varint val shift [] = Err ReplayUsageError"
| "read_varint val shift (b # bs) =
     (let val' = or val (push_bit shift (unat b mod 128)) in
      if unat b < 128 then Ok (val', bs) else read_varint val' (shift + 7) bs)"

lemma read_varint_shrinks: "read_varint v s bs = Ok (n, rest) \<Longrightarrow> length rest < length bs"
  by (induction v s bs rule: read_varint.induct) (auto simp: Let_def split: if_splits)

definition frame_trace_events :: "(trace_event \<Rightarrow> bytes) \<Rightarrow> trace_event list \<Rightarrow> bytes" where
  "frame_trace_events serialize events =
     concat (map (\<lambda>e. varint (length (serialize e)) @ serialize e) events)"

function parse_trace_stream :: "(bytes \<Rightarrow> trace_event option) \<Rightarrow> bytes \<Rightarrow> trace_event list res" where
  "parse_trace_stream parse data =
     (if data = [] then Ok []
      else
        (case read_varint 0 0 data of
           Inl e \<Rightarrow> Err e
         | Inr (n, rest) \<Rightarrow>
             (if length rest < n then Err ReplayUsageError
              else
                (case parse (take n rest) of
                   None \<Rightarrow> Err ReplayUsageError
                 | Some e \<Rightarrow> bindE (parse_trace_stream parse (drop n rest)) (\<lambda>es. Ok (e # es))))))"
  by pat_completeness auto
termination
  by (relation "measure (length \<circ> snd)") (auto dest!: read_varint_shrinks)

declare parse_trace_stream.simps [simp del]

section \<open>Loading\<close>

record replay_ext =
  rp_snapshot :: "bytes \<Rightarrow> state_snapshot option"
  rp_envelope :: "bytes \<Rightarrow> envelope option"
  rp_event :: "bytes \<Rightarrow> trace_event option"
  rp_causes :: "exn \<Rightarrow> exn list"
  rp_type_name :: "exn \<Rightarrow> string"

text \<open>A blob runs through the engine's own migrations; the errors are told apart by their remedy.\<close>

definition replay_migrate :: "('m option \<Rightarrow> 'm option res) \<Rightarrow> 'm option \<Rightarrow> 'm option res" where
  "replay_migrate migrate blob =
     (case migrate blob of
        Inr m \<Rightarrow> Ok m
      | Inl e \<Rightarrow>
          Err (case e of
                 SchemaFromFuture _ _ \<Rightarrow> ReplayUsageError
               | MissingMigration _ _ \<Rightarrow> ReplayIrreproducibleError
               | MigrationStep _ _ \<Rightarrow> ReplayIrreproducibleError
               | _ \<Rightarrow> e))"

definition load_snapshot :: "replay_ext \<Rightarrow> bytes \<Rightarrow> state_snapshot res" where
  "load_snapshot ext data =
     (case rp_snapshot ext data of
        None \<Rightarrow> Err ReplayUsageError
      | Some sn \<Rightarrow>
          (let version = (if sn_version sn = 0 then BASELINE_VERSION else sn_version sn) in
           if version > CURRENT_STATE_SCHEMA_VERSION then Err ReplayUsageError
           else
             bindE (replay_migrate migrate_memory (sn_memory sn)) (\<lambda>m.
             bindE (replay_migrate migrate_cache (sn_cache sn)) (\<lambda>cb.
             bindE (replay_migrate migrate_continuation (sn_continuation sn)) (\<lambda>co.
               Ok (sn\<lparr>sn_version := CURRENT_STATE_SCHEMA_VERSION, sn_memory := m, sn_cache := cb,
                      sn_continuation := co\<rparr>))))))"

definition load_envelope :: "replay_ext \<Rightarrow> bytes \<Rightarrow> envelope res" where
  "load_envelope ext data = (case rp_envelope ext data of None \<Rightarrow> Err ReplayUsageError | Some env \<Rightarrow> Ok env)"

section \<open>Reconstruction\<close>

record replay_bundle =
  rb_snapshot :: state_snapshot
  rb_envelope :: envelope
  rb_key :: bytes
  rb_seq :: int
  rb_now :: msec
  rb_traced :: "trace_event list"
  rb_is_resume :: bool
  rb_step :: int
  rb_adapter :: bytes

text \<open>
  Attempts begin at an \<open>ACTIVATION_START\<close>; what precedes the first one is an attempt too. The
  groups are kept in order, the open one last.
\<close>

fun group_attempts :: "trace_event list list \<Rightarrow> trace_event list \<Rightarrow> trace_event list list" where
  "group_attempts attempts [] = attempts"
| "group_attempts attempts (e # es) =
     group_attempts
       (if te_type e = ActivationStart \<or> attempts = [] then attempts @ [[e]]
        else butlast attempts @ [last attempts @ [e]]) es"

definition wanted_attempt :: "string \<Rightarrow> trace_event list \<Rightarrow> bool" where
  "wanted_attempt wanted attempt \<longleftrightarrow>
     te_type (hd attempt) = ActivationStart \<and> map_of (te_attrs (hd attempt)) ACTIVATION_KIND = Some wanted"

definition select_attempt :: "trace_event list \<Rightarrow> bool \<Rightarrow> trace_event list" where
  "select_attempt events resuming =
     (let attempts = group_attempts [] events;
          matching = filter (wanted_attempt (if resuming then ''resume'' else ''start'')) attempts in
      if matching \<noteq> [] then last matching else last attempts)"

definition recover_now_ms :: "trace_event list \<Rightarrow> msec" where
  "recover_now_ms attempt =
     (case filter (\<lambda>e. te_type e = ActivationStart) attempt of e # _ \<Rightarrow> te_start e | [] \<Rightarrow> te_start (hd attempt))"

definition resumes :: "envelope \<Rightarrow> string option" where
  "resumes env =
     (case env_payload env of
        Some (ResultPayload r) \<Rightarrow> Some (tr_id r) | Some (ApprovalPayload a) \<Rightarrow> Some (ap_id a) | _ \<Rightarrow> None)"

definition resume_inputs :: "state_snapshot \<Rightarrow> envelope \<Rightarrow> (int \<times> bytes) res" where
  "resume_inputs snapshot envelope =
     (case resumes envelope of
        None \<Rightarrow> Ok (0, [])
      | Some intent_id \<Rightarrow>
          (case sn_continuation snapshot of
             None \<Rightarrow> Err ReplayUsageError
           | Some c \<Rightarrow>
               (if intent_id \<notin> set (co_pending c) then Err ReplayUsageError
                else Ok (co_step c, co_snapshot c))))"

definition build_bundle ::
  "state_snapshot \<Rightarrow> trace_event list \<Rightarrow> envelope \<Rightarrow> int option \<Rightarrow> replay_bundle res" where
  "build_bundle snapshot traces envelope seq =
     (let entity_key = sn_key snapshot;
          scoped = filter (\<lambda>e. te_key e = entity_key) traces in
      if env_key envelope \<noteq> entity_key then Err ReplayUsageError
      else if scoped = [] then Err ReplayUsageError
      else
        (let target_seq = (case seq of Some n \<Rightarrow> n | None \<Rightarrow> Max (set (map te_seq scoped)));
             attempt_events = filter (\<lambda>e. te_seq e = target_seq) scoped;
             resuming = (resumes envelope \<noteq> None) in
         if attempt_events = [] then Err ReplayUsageError
         else
           (let attempt = select_attempt attempt_events resuming in
            bindE (resume_inputs snapshot envelope) (\<lambda>(step_index, adapter_snapshot).
              Ok \<lparr>rb_snapshot = snapshot, rb_envelope = envelope, rb_key = entity_key, rb_seq = target_seq,
                  rb_now = recover_now_ms attempt, rb_traced = attempt, rb_is_resume = resuming,
                  rb_step = step_index, rb_adapter = adapter_snapshot\<rparr>))))"

section \<open>The tripwire\<close>

definition digest_only_digests :: "llm_cache_blob option \<Rightarrow> (string, bytes) dict" where
  "digest_only_digests blob =
     (case blob of
        None \<Rightarrow> []
      | Some b \<Rightarrow> foldl (\<lambda>d e. AList.update (lc_key e) (lc_digest e) d) [] (filter lc_digest_only (cb_entries b)))"

text \<open>The replay's world is the operator's with the number of calls that reached the provider.\<close>

definition cache_only_complete ::
  "rc_ext \<Rightarrow> bytes \<Rightarrow> int \<Rightarrow> (string, bytes) dict \<Rightarrow> llm_request \<Rightarrow> 'w \<times> int \<Rightarrow> bytes res \<times> 'w \<times> int" where
  "cache_only_complete ext entity_key seq digests rq world =
     (Err (case request_key ext rq entity_key seq of
             Inl e \<Rightarrow> e
           | Inr k \<Rightarrow> ReplayCacheMissError k (case map_of digests k of None \<Rightarrow> [] | Some dg \<Rightarrow> dg)),
      fst world, snd world + 1)"

definition lift_world :: "('w \<Rightarrow> 'a \<times> 'w) \<Rightarrow> 'w \<times> int \<Rightarrow> 'a \<times> 'w \<times> int" where
  "lift_world f world = (let (x, w) = f (fst world) in (x, w, snd world))"

definition lift_tool :: "'w tool \<Rightarrow> ('w \<times> int) tool" where
  "lift_tool t =
     \<lparr>tl_name = tl_name t, tl_description = tl_description t, tl_side_effect = tl_side_effect t,
      tl_accepts_intent = tl_accepts_intent t, tl_fields = tl_fields t,
      tl_func = \<lparr>fn_params = fn_params (tl_func t), fn_validate = fn_validate (tl_func t),
                 fn_body = (\<lambda>args. lift_world (fn_body (tl_func t) args))\<rparr>\<rparr>"

text \<open>
  What \<open>run_replay\<close> passes to \<open>run_activation\<close>: the operator's registry and decoder, the tripwire, and
  no compactor, summarizer, long-term store or token limit.
\<close>

definition replay_surface :: "'w act_ext \<Rightarrow> replay_bundle \<Rightarrow> ('w \<times> int) act_ext" where
  "replay_surface ext b =
     \<lparr>ax_uuid = ax_uuid ext, ax_trace_uuid = ax_trace_uuid ext, ax_cache = ax_cache ext,
      ax_provider =
        cache_only_complete (ax_cache ext) (rb_key b) (rb_seq b) (digest_only_digests (sn_cache (rb_snapshot b))),
      ax_clock = lift_world (ax_clock ext), ax_decode = ax_decode ext, ax_compactor = None, ax_store = None,
      ax_tools = map (\<lambda>(n, t). (n, lift_tool t)) (ax_tools ext)\<rparr>"

definition replay_input :: "replay_bundle \<Rightarrow> activation_input" where
  "replay_input b =
     \<lparr>ai_key = rb_key b, ai_seq = rb_seq b, ai_now = rb_now b, ai_memory = sn_memory (rb_snapshot b),
      ai_cache = sn_cache (rb_snapshot b), ai_event = payload_event (rb_envelope b), ai_events = None,
      ai_trigger = [],
      ai_resume_result = (case env_payload (rb_envelope b) of Some (ResultPayload r) \<Rightarrow> Some r | _ \<Rightarrow> None),
      ai_resume_approval = (case env_payload (rb_envelope b) of Some (ApprovalPayload a) \<Rightarrow> Some a | _ \<Rightarrow> None),
      ai_snapshot = rb_adapter b, ai_step = rb_step b, ai_intent_ttl = DEFAULT_INTENT_TTL_MS,
      ai_channel = DEFAULT_APPROVAL_CHANNEL, ai_default_timeout = DEFAULT_HITL_TIMEOUT_MS, ai_max_tokens = None\<rparr>"

section \<open>The re-run\<close>

record replay_outcome =
  ro_status :: string
  ro_traces :: "trace_event list"
  ro_intents :: "tool_intent list"
  ro_outputs :: "bytes list"
  ro_memory :: memory_blob
  ro_calls :: int
  ro_failure :: "failure_context option"
  ro_error :: string

definition is_cache_miss :: "exn \<Rightarrow> bool" where
  "is_cache_miss e \<longleftrightarrow> (case e of ReplayCacheMissError _ _ \<Rightarrow> True | _ \<Rightarrow> False)"

definition cache_miss_in :: "replay_ext \<Rightarrow> exn \<Rightarrow> exn option" where
  "cache_miss_in ext e = List.find is_cache_miss (e # rp_causes ext e)"

definition failed_outcome :: "replay_ext \<Rightarrow> 'w act_ext \<Rightarrow> replay_bundle \<Rightarrow> exn \<Rightarrow> failure_context \<Rightarrow> int \<Rightarrow> replay_outcome" where
  "failed_outcome rx ext b e fx calls =
     \<lparr>ro_status = ''failed'',
      ro_traces =
        [error_event (ax_trace_uuid ext) (trace_init (ax_trace_uuid ext) (rb_key b) (rb_seq b) (rb_now b) 0 False)
           REASON_ERROR (rp_type_name rx e) None (Some fx)],
      ro_intents = [], ro_outputs = [], ro_memory = \<lparr>mb_version = 0, mb_entries = [], mb_total = 0\<rparr>,
      ro_calls = calls, ro_failure = Some fx, ro_error = rp_type_name rx e\<rparr>"

definition run_replay ::
  "replay_ext \<Rightarrow> 'w act_ext \<Rightarrow> agent \<Rightarrow> replay_bundle \<Rightarrow> 'w \<Rightarrow> replay_outcome res \<times> 'w" where
  "run_replay rx ext agent b w =
     (let (result, w', calls) = run_activation (replay_surface ext b) None agent (replay_input b) (w, 0) in
      (case result of
         RunInitError e \<Rightarrow> Err e
       | RunFailed e fx \<Rightarrow>
           (if cache_miss_in rx e \<noteq> None then Err ReplayIrreproducibleError
            else Ok (failed_outcome rx ext b e fx calls))
       | RunOk ar \<Rightarrow>
           Ok \<lparr>ro_status = (if ar_suspended ar then ''suspended'' else ''completed''), ro_traces = ar_traces ar,
               ro_intents = ar_intents ar, ro_outputs = ar_outputs ar, ro_memory = ar_memory ar, ro_calls = calls,
               ro_failure = None, ro_error = []\<rparr>, w'))"

section \<open>The stream is read safely\<close>

lemma or_low: "a < 2 ^ s \<Longrightarrow> or a (push_bit s m) = a + push_bit s (m :: nat)"
proof -
  assume "a < 2 ^ s"
  then have "take_bit s a = a" by (simp add: take_bit_nat_eq_self)
  moreover have "and (take_bit s a) (push_bit s m) = 0" by (rule bit_eqI) (simp add: bit_simps)
  ultimately show ?thesis by (simp add: disjunctive_add_eq_or)
qed

lemma read_varint_append:
  "val < 2 ^ s \<Longrightarrow> read_varint val s (varint n @ rest) = Ok (val + n * 2 ^ s, rest)"
proof (induction n arbitrary: val s rule: varint.induct)
  case (1 n)
  let ?v = "val + push_bit s (n mod 128)"
  have low: "or val (push_bit s (n mod 128)) = ?v" by (rule or_low[OF 1(2)])
  show ?case
  proof (cases "n div 128 = 0")
    case True
    then have "n < 128" by simp
    then show ?thesis using low True
      by (subst varint.simps) (simp add: unat_of_nat push_bit_eq_mult)
  next
    case False
    have "n mod 128 * 2 ^ s \<le> 127 * 2 ^ s" by (intro mult_right_mono) (auto simp: less_Suc_eq_le[symmetric])
    moreover have "?v = val + n mod 128 * 2 ^ s" "(2::nat) ^ (s + 7) = 128 * 2 ^ s" by (simp_all add: push_bit_eq_mult power_add)
    ultimately have "?v < 2 ^ (s + 7)" using 1(2) by linarith
    from 1(1)[OF False this] have "read_varint ?v (s + 7) (varint (n div 128) @ rest) = Ok (?v + n div 128 * 2 ^ (s + 7), rest)" .
    moreover have "?v + n div 128 * 2 ^ (s + 7) = val + n * 2 ^ s"
    proof -
      have "n * 2 ^ s = (n div 128 * 128 + n mod 128) * 2 ^ s" by simp
      also have "\<dots> = n div 128 * 2 ^ (s + 7) + n mod 128 * 2 ^ s" by (simp only: distrib_right power_add) simp
      finally show ?thesis by (simp add: push_bit_eq_mult)
    qed
    moreover have "unat (word_of_nat (n mod 128 + 128) :: 8 word) = n mod 128 + 128"
    proof -
      have "n mod 128 + 128 < 256" by (simp add: add.commute)
      then show ?thesis by (simp add: unat_of_nat del: of_nat_add)
    qed
    ultimately show ?thesis using False low
      by (subst varint.simps) (simp add: Let_def del: of_nat_add)
  qed
qed

lemma varint_nonempty [simp]: "varint n \<noteq> []"
  by (subst varint.simps) simp

lemma varint_cut: "m < length (varint n) \<Longrightarrow> read_varint val s (take m (varint n)) = Err ReplayUsageError"
proof (induction n arbitrary: val s m rule: varint.induct)
  case (1 n)
  show ?case
  proof (cases m)
    case (Suc m')
    have "n div 128 \<noteq> 0"
    proof
      assume "n div 128 = 0"
      then have "length (varint n) = 1" by (subst varint.simps) simp
      then show False using 1(2) Suc by simp
    qed
    moreover from this have "m' < length (varint (n div 128))" using 1(2) Suc by (subst (asm) varint.simps) simp
    moreover have "unat (word_of_nat (n mod 128 + 128) :: 8 word) = n mod 128 + 128"
    proof -
      have "n mod 128 + 128 < 256" by (simp add: add.commute)
      then show ?thesis by (simp add: unat_of_nat del: of_nat_add)
    qed
    ultimately show ?thesis using Suc 1(1) by (subst varint.simps) (simp add: Let_def del: of_nat_add)
  qed simp
qed

lemma parse_frame:
  "parse (serialize e) = Some e \<Longrightarrow>
   parse_trace_stream parse (varint (length (serialize e)) @ serialize e @ rest) =
     bindE (parse_trace_stream parse rest) (\<lambda>es. Ok (e # es))"
  by (subst parse_trace_stream.simps) (simp add: read_varint_append varint_nonempty)

lemma parse_cut:
  "m < length (varint (length (serialize e)) @ serialize e) \<Longrightarrow>
   parse_trace_stream parse (take m (varint (length (serialize e)) @ serialize e @ rest)) = (if m = 0 then Ok [] else Err ReplayUsageError)"
proof -
  let ?v = "varint (length (serialize e))"
  assume m: "m < length (?v @ serialize e)"
  show ?thesis
  proof (cases "m < length ?v")
    case True
    then show ?thesis using varint_cut[OF True, of 0 0]
      by (subst parse_trace_stream.simps) (auto simp: varint_nonempty)
  next
    case False
    then have "take m (?v @ serialize e @ rest) = ?v @ take (m - length ?v) (serialize e)" using m by simp
    moreover have "m - length ?v < length (serialize e)" using m False by simp
    moreover have "m \<noteq> 0" using False varint_nonempty[of "length (serialize e)"] by (metis length_greater_0_conv)
    ultimately show ?thesis by (subst parse_trace_stream.simps) (simp add: read_varint_append)
  qed
qed

text \<open>
  A framed stream of events reads back as those events, and a stream cut anywhere is never
  misread: it is refused as a usage error or yields an initial segment of the events.
\<close>

theorem framed_stream_safe:
  assumes "\<And>e. e \<in> set es \<Longrightarrow> parse (serialize e) = Some e"
  shows "parse_trace_stream parse (frame_trace_events serialize es) = Ok es \<and>
    (parse_trace_stream parse (take m (frame_trace_events serialize es)) = Err ReplayUsageError \<or>
     (\<exists>k. parse_trace_stream parse (take m (frame_trace_events serialize es)) = Ok (take k es)))"
  using assms
proof (induction es arbitrary: m)
  case Nil
  then show ?case by (simp add: frame_trace_events_def parse_trace_stream.simps)
next
  case (Cons e es)
  let ?f = "varint (length (serialize e)) @ serialize e"
  let ?s = "frame_trace_events serialize es"
  have f: "frame_trace_events serialize (e # es) = varint (length (serialize e)) @ serialize e @ ?s"
    by (simp add: frame_trace_events_def)
  have e: "parse (serialize e) = Some e" using Cons.prems by simp
  have IH: "parse_trace_stream parse ?s = Ok es"
    "parse_trace_stream parse (take m ?s) = Err ReplayUsageError \<or> (\<exists>k. parse_trace_stream parse (take m ?s) = Ok (take k es))" for m
    using Cons by auto
  have "parse_trace_stream parse (take m (frame_trace_events serialize (e # es))) = Err ReplayUsageError \<or>
      (\<exists>k. parse_trace_stream parse (take m (frame_trace_events serialize (e # es))) = Ok (take k (e # es)))"
  proof (cases "m < length ?f")
    case True
    then show ?thesis using parse_cut[where serialize = serialize and e = e, OF True] f by (auto intro: exI[of _ 0])
  next
    case False
    then have t: "take m (frame_trace_events serialize (e # es)) = varint (length (serialize e)) @ serialize e @ take (m - length ?f) ?s"
      using f by simp
    have "e # take k es = take (Suc k) (e # es)" for k by simp
    then show ?thesis using IH(2)[of "m - length ?f"]
      unfolding t parse_frame[where parse = parse and serialize = serialize, OF e]
      by (metis bindE.simps)
  qed
  then show ?case using IH(1) f parse_frame[where parse = parse and serialize = serialize, OF e] by simp
qed

definition sample_event :: trace_event where
  "sample_event = plain_event [1] 0 5 ActivationStart 0 [(ACTIVATION_KIND, ''start'')]"

theorem framed_stream_safe_witness:
  "frame_trace_events (\<lambda>_. [5, 6]) [sample_event, sample_event] = [2, 5, 6, 2, 5, 6] \<and>
   parse_trace_stream (\<lambda>b. if b = [5, 6] then Some sample_event else None) [2, 5, 6, 2, 5, 6] = Ok [sample_event, sample_event]"
proof -
  have f: "frame_trace_events (\<lambda>_. [5, 6]) [sample_event, sample_event] = [2, 5, 6, 2, 5, 6]"
    by (simp add: frame_trace_events_def numeral_2_eq_2) (simp add: varint.simps)
  then show ?thesis
    using framed_stream_safe[of "[sample_event, sample_event]" "\<lambda>b. if b = [5, 6] then Some sample_event else None" "\<lambda>_. [5, 6]"]
    by simp
qed

end
