(* ===== verification/Replay_Diff.thy ===== *)
theory Replay_Diff
  imports Replay Effector_Config
begin

text \<open>
  Comparing a re-run with its traced record (\<open>replay/diff.py\<close>) and the command line around it
  (\<open>replay/__main__.py\<close>). A difference is kept as the values it names, not as its rendered text;
  serialization and \<open>sha256\<close> are parameters. Printed output other than the report is left out.
\<close>

section \<open>Normalization\<close>

definition normalize_event :: "trace_event \<Rightarrow> trace_event" where
  "normalize_event e =
     (if te_type e = LlmCall
      then e\<lparr>te_attrs := AList.update BILLED ''false'' (AList.update CACHE_HIT ''true'' (te_attrs e))\<rparr>
      else e)"

section \<open>Differences\<close>

datatype field_difference =
    TypeDiffers event_type event_type
  | NumberDiffers string int int
  | IdDiffers string bytes bytes
  | AttributeDiffers string "string option" "string option"
  | Unrepresented

datatype difference =
    StatusDiffers string string
  | EventCountDiffers nat nat
  | FirstDivergence nat event_type "field_difference list"
  | IntentCountDiffers nat nat
  | IntentDiffers nat "(string \<times> string \<times> string) list"

definition traced_status :: "trace_event list \<Rightarrow> string" where
  "traced_status traced =
     (if list_ex (\<lambda>e. te_type e = ErrorEvent) traced then ''failed''
      else (case filter (\<lambda>e. te_type e = ActivationEnd) traced of
              [] \<Rightarrow> []
            | e # _ \<Rightarrow> (case map_of (te_attrs e) ACTIVATION_STATUS of None \<Rightarrow> [] | Some s \<Rightarrow> s)))"

definition status_differences :: "trace_event list \<Rightarrow> string \<Rightarrow> difference list" where
  "status_differences traced status =
     (let expected = traced_status traced in
      if expected = [] \<or> expected = status then [] else [StatusDiffers expected status])"

definition number_difference :: "string \<Rightarrow> (trace_event \<Rightarrow> int) \<Rightarrow> trace_event \<Rightarrow> trace_event \<Rightarrow> field_difference list" where
  "number_difference name f l r = (if f l \<noteq> f r then [NumberDiffers name (f l) (f r)] else [])"

definition id_difference :: "string \<Rightarrow> (trace_event \<Rightarrow> bytes) \<Rightarrow> trace_event \<Rightarrow> trace_event \<Rightarrow> field_difference list" where
  "id_difference name f l r = (if f l \<noteq> f r then [IdDiffers name (f l) (f r)] else [])"

definition attribute_differences :: "trace_event \<Rightarrow> trace_event \<Rightarrow> field_difference list" where
  "attribute_differences l r =
     concat (map (\<lambda>k. let a = map_of (te_attrs l) k; b = map_of (te_attrs r) k in
                      if a \<noteq> b then [AttributeDiffers k a b] else [])
       (sort (remdups (map fst (te_attrs l) @ map fst (te_attrs r)))))"

definition field_differences :: "trace_event \<Rightarrow> trace_event \<Rightarrow> field_difference list" where
  "field_differences l r =
     (let parts =
        (if te_type l \<noteq> te_type r then [TypeDiffers (te_type l) (te_type r)] else [])
        @ number_difference ''step_index'' te_step l r
        @ number_difference ''start_ms'' te_start l r
        @ number_difference ''end_ms'' te_end l r
        @ id_difference ''trace_id'' te_trace l r
        @ id_difference ''span_id'' te_span l r
        @ id_difference ''parent_span_id'' te_parent l r
        @ attribute_differences l r in
      if parts = [] then [Unrepresented] else parts)"

fun first_divergence ::
  "(trace_event \<Rightarrow> bytes) \<Rightarrow> nat \<Rightarrow> trace_event list \<Rightarrow> trace_event list \<Rightarrow> difference list" where
  "first_divergence serialize i (l # ls) (r # rs) =
     (let nl = normalize_event l; nr = normalize_event r in
      if serialize nl = serialize nr then first_divergence serialize (Suc i) ls rs
      else [FirstDivergence i (te_type l) (field_differences nl nr)])"
| "first_divergence serialize i _ _ = []"

definition event_differences ::
  "(trace_event \<Rightarrow> bytes) \<Rightarrow> trace_event list \<Rightarrow> trace_event list \<Rightarrow> difference list" where
  "event_differences serialize traced replayed =
     (if length traced \<noteq> length replayed then [EventCountDiffers (length traced) (length replayed)] else [])
     @ first_divergence serialize 0 traced replayed"

definition attribute :: "string \<Rightarrow> trace_event \<Rightarrow> string" where
  "attribute name e = (case map_of (te_attrs e) name of None \<Rightarrow> [] | Some v \<Rightarrow> v)"

definition traced_intent :: "trace_event \<Rightarrow> string list" where
  "traced_intent e = [attribute INTENT_ID e, attribute TOOL_NAME e, attribute INTENT_KIND e, attribute EXPIRES_AT_MS e]"

definition replayed_intent :: "tool_intent \<Rightarrow> string list" where
  "replayed_intent i = [ti_id i, ti_tool i, kind_name (ti_kind i), dec (ti_expires i)]"

definition mismatched :: "string list \<Rightarrow> string list \<Rightarrow> (string \<times> string \<times> string) list" where
  "mismatched l r =
     filter (\<lambda>(_, a, b). a \<noteq> b) (zip [''intent_id'', ''tool_name'', ''kind'', ''expires_at_ms''] (zip l r))"

definition intent_differences :: "trace_event list \<Rightarrow> tool_intent list \<Rightarrow> difference list" where
  "intent_differences traced intents =
     (let ls = map traced_intent (filter (\<lambda>e. te_type e = IntentEmitted) traced); rs = map replayed_intent intents in
      if length ls \<noteq> length rs then [IntentCountDiffers (length ls) (length rs)]
      else concat (map (\<lambda>(i, l, r). if mismatched l r \<noteq> [] then [IntentDiffers i (mismatched l r)] else [])
             (enumerate 0 (zip ls rs))))"

record diff_report =
  dr_differences :: "difference list"
  dr_calls :: int
  dr_outputs :: "(nat \<times> bytes) list"
  dr_memory :: "nat \<times> bytes"

record diff_ext =
  dx_event :: "trace_event \<Rightarrow> bytes"
  dx_memory :: "memory_blob \<Rightarrow> bytes"
  dx_sha256 :: "bytes \<Rightarrow> bytes"

definition compare :: "diff_ext \<Rightarrow> replay_bundle \<Rightarrow> replay_outcome \<Rightarrow> diff_report" where
  "compare ext b o1 =
     (let blob = dx_memory ext (ro_memory o1) in
      \<lparr>dr_differences =
         status_differences (rb_traced b) (ro_status o1)
         @ event_differences (dx_event ext) (rb_traced b) (ro_traces o1)
         @ intent_differences (rb_traced b) (ro_intents o1),
       dr_calls = ro_calls o1,
       dr_outputs = map (\<lambda>payload. (length payload, dx_sha256 ext payload)) (ro_outputs o1),
       dr_memory = (length blob, dx_sha256 ext blob)\<rparr>)"

definition reproduced :: "diff_report \<Rightarrow> bool" where
  "reproduced r \<longleftrightarrow> dr_differences r = []"

section \<open>The command line\<close>

definition EXIT_REPRODUCED :: int where "EXIT_REPRODUCED = 0"
definition EXIT_DIVERGED :: int where "EXIT_DIVERGED = 1"
definition EXIT_USAGE :: int where "EXIT_USAGE = 2"
definition EXIT_IRREPRODUCIBLE :: int where "EXIT_IRREPRODUCIBLE = 3"

record replay_args =
  ra_snapshot :: string
  ra_traces :: string
  ra_event :: string
  ra_agent :: string
  ra_registry :: "string option"
  ra_decode :: "string option"
  ra_seq :: "int option"

text \<open>The operator's machine: its files, its modules with what they define, and its codecs.\<close>

record 'w replay_host =
  rh_files :: "string \<Rightarrow> bytes res"
  rh_import :: "string \<Rightarrow> unit res"
  rh_agent :: "string \<Rightarrow> string \<Rightarrow> agent res"
  rh_registry :: "string \<Rightarrow> string \<Rightarrow> 'w registry res"
  rh_decode :: "string \<Rightarrow> string \<Rightarrow> (bytes \<Rightarrow> decoded_response res) res"
  rh_surface :: "'w act_ext"
  rh_replay :: replay_ext
  rh_diff :: diff_ext

definition as_value_error :: "exn \<Rightarrow> 'a res \<Rightarrow> 'a res" where
  "as_value_error caught r = (case r of Inl e \<Rightarrow> Err (if e = caught then ValueError else e) | Inr x \<Rightarrow> Ok x)"

definition import_object :: "(string \<Rightarrow> unit res) \<Rightarrow> (string \<Rightarrow> string \<Rightarrow> 'o res) \<Rightarrow> string \<Rightarrow> 'o res" where
  "import_object import_module getattr path =
     (let (module_name, _, attribute) = partition_at (CHR '':'') path in
      if module_name = [] \<or> attribute = [] then Err ValueError
      else
        bindE (as_value_error ImportError (import_module module_name)) (\<lambda>_.
          as_value_error AttributeError (getattr module_name attribute)))"

definition read_file :: "(string \<Rightarrow> bytes res) \<Rightarrow> string \<Rightarrow> bytes res" where
  "read_file files path = as_value_error OSError (files path)"

definition import_opt :: "(string \<Rightarrow> 'o res) \<Rightarrow> string option \<Rightarrow> 'o option res" where
  "import_opt load path = (case path of None \<Rightarrow> Ok None | Some p \<Rightarrow> bindE (load p) (\<lambda>x. Ok (Some x)))"

definition load_bundle :: "'w replay_host \<Rightarrow> replay_args \<Rightarrow> replay_bundle res" where
  "load_bundle host args =
     bindE (bindE (read_file (rh_files host) (ra_snapshot args)) (load_snapshot (rh_replay host))) (\<lambda>snapshot.
     bindE (bindE (read_file (rh_files host) (ra_traces args)) (parse_trace_stream (rp_event (rh_replay host)))) (\<lambda>traces.
     bindE (bindE (read_file (rh_files host) (ra_event args)) (load_envelope (rh_replay host))) (\<lambda>envelope.
       build_bundle snapshot traces envelope (ra_seq args))))"

definition replay_inputs ::
  "'w replay_host \<Rightarrow> replay_args \<Rightarrow> (agent \<times> 'w registry option \<times> (bytes \<Rightarrow> decoded_response res) option \<times> replay_bundle) res" where
  "replay_inputs host args =
     bindE (import_object (rh_import host) (rh_agent host) (ra_agent args)) (\<lambda>agent.
     bindE (import_opt (import_object (rh_import host) (rh_registry host)) (ra_registry args)) (\<lambda>registry.
     bindE (import_opt (import_object (rh_import host) (rh_decode host)) (ra_decode args)) (\<lambda>decode.
     bindE (load_bundle host args) (\<lambda>bundle. Ok (agent, registry, decode, bundle)))))"

definition is_value_error :: "exn \<Rightarrow> bool" where
  "is_value_error e \<longleftrightarrow> e = ValueError \<or> e = JSONDecodeError"

text \<open>The exit status and the report, or the exception that escapes.\<close>

definition replay_main :: "'w replay_host \<Rightarrow> replay_args \<Rightarrow> 'w \<Rightarrow> (int \<times> diff_report option) res \<times> 'w" where
  "replay_main host args w =
     (case replay_inputs host args of
        Inl e \<Rightarrow> (if is_value_error e \<or> e = ReplayUsageError then Ok (EXIT_USAGE, None) else Err e, w)
      | Inr (agent, registry, decode, bundle) \<Rightarrow>
          (let ext = (rh_surface host)\<lparr>ax_tools := (case registry of None \<Rightarrow> [] | Some r \<Rightarrow> r), ax_decode := decode\<rparr> in
           case run_replay (rh_replay host) ext agent bundle w of
             (Inl e, w') \<Rightarrow>
               (if e = ReplayIrreproducibleError then Ok (EXIT_IRREPRODUCIBLE, None)
                else if e = ReplayUsageError then Ok (EXIT_USAGE, None) else Err e, w')
           | (Inr outcome, w') \<Rightarrow>
               (let report = compare (rh_diff host) bundle outcome in
                (Ok (if reproduced report then EXIT_REPRODUCED else EXIT_DIVERGED, Some report), w'))))"

end
