(* ===== verification/Dofn_Invariants.thy ===== *)
theory Dofn_Invariants
  imports Dofn_Steps
begin

text \<open>
  What stays true of one key under every sequence of deliveries: the shape of a suspension, the
  buffer's bound and its guaranteed flush, the committed blobs, and, with the intents emitted so
  far as a ghost, that no \<open>(seq, step)\<close> is ever minted twice.
\<close>

section \<open>The invariant\<close>

definition intents_in :: "emission list \<Rightarrow> tool_intent list" where
  "intents_in es = concat (map (\<lambda>e. case e of IntentOut i \<Rightarrow> [i] | _ \<Rightarrow> []) es)"

lemma intents_in_simps [simp]:
  "intents_in [] = []"
  "intents_in (xs @ ys) = intents_in xs @ intents_in ys"
  "intents_in (map MainOut bs) = []"
  "intents_in (map IntentOut is) = is"
  "intents_in (map TraceOut ts) = []"
  by (induction bs; induction "is"; induction ts; simp add: intents_in_def)+

text \<open>A suspension is of an earlier sequence number, its pending list is exactly the intents it
  waits for, it leaves room for the next step, and it escalated within the policy's bound.\<close>

definition suspension_ok :: "'w dofn \<Rightarrow> bytes \<Rightarrow> kstate \<Rightarrow> bool" where
  "suspension_ok d key ks \<longleftrightarrow>
     (\<forall>c. ks_continuation ks = Some c \<longrightarrow>
        co_seq c < ks_seq ks \<and> co_pending c = map ti_id (ks_pending ks) \<and>
        (\<forall>i \<in> set (ks_pending ks). ti_key i = key \<and> ti_seq i = co_seq c \<and> ti_step i < co_step c \<and>
           ti_id i = intent_id_for (ax_uuid (df_ext d)) key (co_seq c) (ti_step i)) \<and>
        sorted_wrt (<) (map ti_step (ks_pending ks)) \<and>
        0 \<le> co_escalations c \<and> co_escalations c \<le> max 0 (hp_max_escalations (df_policy d)) \<and>
        co_version c = CURRENT_STATE_SCHEMA_VERSION)"

text \<open>A live suspension has its timeout armed at its deadline.\<close>

definition armed_ok :: "kstate \<Rightarrow> bool" where
  "armed_ok ks \<longleftrightarrow> (\<forall>c. ks_continuation ks = Some c \<longrightarrow> ks_hitl ks = Some (co_deadline c))"

text \<open>Without batching, working memory outlives the wait by the configured time to live.\<close>

definition outlives_wait :: "'w dofn \<Rightarrow> kstate \<Rightarrow> bool" where
  "outlives_wait d ks \<longleftrightarrow>
     (df_batch d = None \<longrightarrow>
        (\<forall>c. ks_continuation ks = Some c \<longrightarrow> (\<exists>m. ks_ttl ks = Some m \<and> co_deadline c + df_ttl_ms d \<le> m)))"

definition buffer_ok :: "'w dofn \<Rightarrow> kstate \<Rightarrow> bool" where
  "buffer_ok d ks \<longleftrightarrow>
     (case df_batch d of
        None \<Rightarrow> ks_batch ks = [] \<and> ks_flush ks = None
      | Some b \<Rightarrow>
          int (length (ks_batch ks)) \<le> bs_max_buffered b \<and>
          (ks_continuation ks = None \<longrightarrow> ks_batch ks \<noteq> [] \<longrightarrow> ks_flush ks \<noteq> None))"

definition blobs_ok :: "kstate \<Rightarrow> bool" where
  "blobs_ok ks \<longleftrightarrow>
     (\<forall>b. ks_memory ks = Some b \<longrightarrow> committed_memory_ok b) \<and>
     (\<forall>b. ks_cache ks = Some b \<longrightarrow> cache_blob_ok b)"

text \<open>The ghost \<open>h\<close> is what was emitted on \<open>.intents\<close> since the last wipe.\<close>

definition minted_ok :: "'w dofn \<Rightarrow> bytes \<Rightarrow> tool_intent list \<Rightarrow> kstate \<Rightarrow> bool" where
  "minted_ok d key h ks \<longleftrightarrow>
     0 \<le> ks_seq ks \<and>
     distinct (map (\<lambda>i. (ti_seq i, ti_step i)) h) \<and>
     (\<forall>i \<in> set h. ti_seq i < ks_seq ks \<and> ti_key i = key \<and>
        ti_id i = intent_id_for (ax_uuid (df_ext d)) key (ti_seq i) (ti_step i)) \<and>
     (\<forall>c. ks_continuation ks = Some c \<longrightarrow>
        0 \<le> co_seq c \<and> co_seq c < ks_seq ks \<and> (\<forall>i \<in> set h. ti_seq i = co_seq c \<longrightarrow> ti_step i < co_step c))"

section \<open>Commits\<close>

lemma commits_run:
  assumes "commits d si key seq step now handles flushed ks ar so"
  obtains inp w0 w0' where
    "run_activation (df_ext d) (df_summarizer d) (df_agent d) inp w0 = (RunOk ar, w0')"
    "ai_key inp = key" "ai_seq inp = seq" "ai_step inp = step" "ai_now inp = now"
    "ai_memory inp = ks_memory ks" "ai_cache inp = ks_cache ks"
    "so_state so = commit_state d si ar now handles flushed ks"
    "so_emits so = map MainOut (ar_outputs ar) @ map IntentOut (ar_intents ar) @ map TraceOut (ar_traces ar)"
  using assms by (auto simp: commits_def)

lemma rearm_flush_fields [simp]:
  "ks_memory (rearm_flush d si ks) = ks_memory ks"
  "ks_continuation (rearm_flush d si ks) = ks_continuation ks"
  "ks_cache (rearm_flush d si ks) = ks_cache ks"
  "ks_pending (rearm_flush d si ks) = ks_pending ks"
  "ks_seq (rearm_flush d si ks) = ks_seq ks"
  "ks_batch (rearm_flush d si ks) = ks_batch ks"
  "ks_ttl (rearm_flush d si ks) = ks_ttl ks"
  "ks_hitl (rearm_flush d si ks) = ks_hitl ks"
  by (simp_all add: rearm_flush_def)

lemma rearm_flush_flush:
  "ks_flush (rearm_flush d si ks) =
     (if df_batch d \<noteq> None \<and> ks_batch ks \<noteq> [] then Some (si_wall si) else ks_flush ks)"
  by (simp add: rearm_flush_def)

lemma commit_state_fields [simp]:
  "ks_memory (commit_state d si ar now h f ks) = Some (ar_memory ar)"
  "ks_cache (commit_state d si ar now h f ks) = Some (ar_cache ar)"
  "ks_continuation (commit_state d si ar now h f ks) = ar_continuation ar"
  "ks_pending (commit_state d si ar now h f ks) = ar_intents ar"
  "ks_seq (commit_state d si ar now h f ks) = ks_seq ks + 1"
  "ks_batch (commit_state d si ar now h f ks) = (if f = None then ks_batch ks else [])"
  by (simp_all add: commit_state_def Let_def)

lemma commit_state_timers:
  "ks_hitl (commit_state d si ar now h f ks) = (if ar_suspended ar then ar_deadline ar else None)"
  "ks_ttl (commit_state d si ar now h f ks) =
     Some ((if ar_suspended ar then (case ar_deadline ar of Some t \<Rightarrow> max now t | None \<Rightarrow> now) else now) + df_ttl_ms d)"
  "ks_flush (commit_state d si ar now h f ks) =
     (if f \<noteq> None then None
      else if ar_continuation ar = None \<and> h \<and> df_batch d \<noteq> None \<and> ks_batch ks \<noteq> [] then Some (si_wall si)
      else ks_flush ks)"
  by (auto simp: commit_state_def Let_def rearm_flush_flush split: option.splits bool.splits)

lemma commits_suspension:
  assumes "commits d si key seq step now handles flushed ks ar so" and "seq \<le> ks_seq ks"
  shows "suspension_ok d key (so_state so)"
proof -
  obtain inp w0 w0' where r: "run_activation (df_ext d) (df_summarizer d) (df_agent d) inp w0 = (RunOk ar, w0')"
    and i: "ai_key inp = key" "ai_seq inp = seq" "ai_step inp = step" "ai_now inp = now"
      "ai_memory inp = ks_memory ks" "ai_cache inp = ks_cache ks"
    and st: "so_state so = commit_state d si ar now handles flushed ks"
    and em: "so_emits so = map MainOut (ar_outputs ar) @ map IntentOut (ar_intents ar) @ map TraceOut (ar_traces ar)"
    by (rule commits_run[OF assms(1)])
  note ri = run_intents[OF r]
  show ?thesis unfolding suspension_ok_def
  proof (intro allI impI)
    fix c assume "ks_continuation (so_state so) = Some c"
    then have c: "ar_continuation ar = Some c" by (simp add: st)
    note k = ri(3)[rule_format, OF c]
    have "\<forall>x \<in> set (ar_intents ar). ti_key x = key \<and> ti_seq x = seq \<and>
        ti_id x = intent_id_for (ax_uuid (df_ext d)) key seq (ti_step x)"
      using ri(1) i by (auto simp: intent_of_run_def)
    then show "co_seq c < ks_seq (so_state so) \<and> co_pending c = map ti_id (ks_pending (so_state so)) \<and>
        (\<forall>i \<in> set (ks_pending (so_state so)). ti_key i = key \<and> ti_seq i = co_seq c \<and> ti_step i < co_step c \<and>
           ti_id i = intent_id_for (ax_uuid (df_ext d)) key (co_seq c) (ti_step i)) \<and>
        sorted_wrt (<) (map ti_step (ks_pending (so_state so))) \<and>
        0 \<le> co_escalations c \<and> co_escalations c \<le> max 0 (hp_max_escalations (df_policy d)) \<and>
        co_version c = CURRENT_STATE_SCHEMA_VERSION"
      using k ri(2,5) c i assms(2) by (simp add: st commit_state_timers)
  qed
qed

lemma commits_armed:
  assumes "commits d si key seq step now handles flushed ks ar so"
  shows "armed_ok (so_state so)" and "outlives_wait d (so_state so)"
proof -
  obtain inp w0 w0' where r: "run_activation (df_ext d) (df_summarizer d) (df_agent d) inp w0 = (RunOk ar, w0')"
    and i: "ai_key inp = key" "ai_seq inp = seq" "ai_step inp = step" "ai_now inp = now"
      "ai_memory inp = ks_memory ks" "ai_cache inp = ks_cache ks"
    and st: "so_state so = commit_state d si ar now handles flushed ks"
    and em: "so_emits so = map MainOut (ar_outputs ar) @ map IntentOut (ar_intents ar) @ map TraceOut (ar_traces ar)"
    by (rule commits_run[OF assms(1)])
  note ri = run_intents[OF r]
  show "armed_ok (so_state so)" using ri(3,5) by (auto simp: armed_ok_def st commit_state_timers)
  show "outlives_wait d (so_state so)" using ri(3,5) by (auto simp: outlives_wait_def st commit_state_timers)
qed

lemma commits_blobs:
  assumes "commits d si key seq step now handles flushed ks ar so"
    and "compactor_good (ax_compactor (df_ext d))" and "blobs_ok ks"
  shows "blobs_ok (so_state so)"
proof -
  obtain inp w0 w0' where r: "run_activation (df_ext d) (df_summarizer d) (df_agent d) inp w0 = (RunOk ar, w0')"
    and i: "ai_key inp = key" "ai_seq inp = seq" "ai_step inp = step" "ai_now inp = now"
      "ai_memory inp = ks_memory ks" "ai_cache inp = ks_cache ks"
    and st: "so_state so = commit_state d si ar now handles flushed ks"
    and em: "so_emits so = map MainOut (ar_outputs ar) @ map IntentOut (ar_intents ar) @ map TraceOut (ar_traces ar)"
    by (rule commits_run[OF assms(1)])
  have "input_ok inp" using assms(3) i by (simp add: input_ok_def blobs_ok_def)
  from run_blobs(1,2)[OF r assms(2) this] show ?thesis by (simp add: blobs_ok_def st)
qed

lemma commits_intents:
  assumes "commits d si key seq step now handles flushed ks ar so"
  shows "intents_in (so_emits so) = ar_intents ar"
  using assms by (auto simp: commits_def)

text \<open>
  The only obligation on the sequence number and step an activation starts at: they are fresh
  for the history.
\<close>

lemma commits_minted:
  assumes "commits d si key seq step now handles flushed ks ar so"
    and "minted_ok d key h ks" and "seq \<le> ks_seq ks" and "0 \<le> seq"
    and fresh: "\<forall>i \<in> set h. ti_seq i = seq \<longrightarrow> ti_step i < step"
  shows "minted_ok d key (h @ intents_in (so_emits so)) (so_state so)"
proof -
  obtain inp w0 w0' where r: "run_activation (df_ext d) (df_summarizer d) (df_agent d) inp w0 = (RunOk ar, w0')"
    and i: "ai_key inp = key" "ai_seq inp = seq" "ai_step inp = step" "ai_now inp = now"
      "ai_memory inp = ks_memory ks" "ai_cache inp = ks_cache ks"
    and st: "so_state so = commit_state d si ar now handles flushed ks"
    and em: "so_emits so = map MainOut (ar_outputs ar) @ map IntentOut (ar_intents ar) @ map TraceOut (ar_traces ar)"
    by (rule commits_run[OF assms(1)])
  note ri = run_intents[OF r]
  have new: "\<forall>x \<in> set (ar_intents ar). ti_key x = key \<and> ti_seq x = seq \<and> step \<le> ti_step x \<and>
      ti_id x = intent_id_for (ax_uuid (df_ext d)) key seq (ti_step x)"
    using ri(1) i by (auto simp: intent_of_run_def)
  have ds: "distinct (map ti_step (ar_intents ar))" using ri(2) by (simp add: strict_sorted_iff)
  have "distinct (map (\<lambda>i. (ti_seq i, ti_step i)) (ar_intents ar))"
    by (rule distinct_map[THEN iffD1, THEN conjunct1, of snd]) (use ds in \<open>simp add: comp_def\<close>)
  moreover have "set (map (\<lambda>i. (ti_seq i, ti_step i)) h) \<inter> set (map (\<lambda>i. (ti_seq i, ti_step i)) (ar_intents ar)) = {}"
    using new fresh by fastforce
  ultimately have "distinct (map (\<lambda>i. (ti_seq i, ti_step i)) (h @ ar_intents ar))"
    using assms(2) by (simp add: minted_ok_def)
  moreover have "co_seq c = seq \<and> (\<forall>x \<in> set (ar_intents ar). ti_step x < co_step c) \<and> step \<le> co_step c"
    if "ar_continuation ar = Some c" for c
    using ri(3) that i by auto
  ultimately show ?thesis
    using assms(2-4) new fresh commits_intents[OF assms(1)]
    by (fastforce simp: minted_ok_def st)
qed

section \<open>Every delivery preserves the invariant\<close>

lemma enqueue_fields:
  assumes "enqueue d ks ks1"
  shows "ks_memory ks1 = ks_memory ks" "ks_cache ks1 = ks_cache ks" "ks_seq ks1 = ks_seq ks"
    "ks_continuation ks1 = ks_continuation ks" "ks_pending ks1 = ks_pending ks" "ks_hitl ks1 = ks_hitl ks"
  using assms by (cases rule: enqueue.cases; simp add: buffered_state_def)+

lemma buffered_state_fields [simp]:
  "ks_memory (buffered_state d si b env ks) = ks_memory ks"
  "ks_cache (buffered_state d si b env ks) = ks_cache ks"
  "ks_seq (buffered_state d si b env ks) = ks_seq ks"
  "ks_continuation (buffered_state d si b env ks) = ks_continuation ks"
  "ks_pending (buffered_state d si b env ks) = ks_pending ks"
  "ks_hitl (buffered_state d si b env ks) = ks_hitl ks"
  "ks_batch (buffered_state d si b env ks) = ks_batch ks @ [env]"
  "ks_ttl (buffered_state d si b env ks) = Some (env_time env + df_ttl_ms d)"
  "ks_flush (buffered_state d si b env ks) = (if ks_batch ks = [] then Some (si_wall si + bs_max_wait_ms b) else ks_flush ks)"
  by (simp_all add: buffered_state_def)

lemma wait_ended_fields [simp]:
  "ks_memory (wait_ended d si ks) = ks_memory ks"
  "ks_cache (wait_ended d si ks) = ks_cache ks"
  "ks_seq (wait_ended d si ks) = ks_seq ks"
  "ks_continuation (wait_ended d si ks) = None"
  "ks_pending (wait_ended d si ks) = []"
  "ks_hitl (wait_ended d si ks) = None"
  "ks_batch (wait_ended d si ks) = ks_batch ks"
  "ks_ttl (wait_ended d si ks) = ks_ttl ks"
  "ks_flush (wait_ended d si ks) =
     (if df_batch d \<noteq> None \<and> ks_batch ks \<noteq> [] then Some (si_wall si) else ks_flush ks)"
  by (simp_all add: wait_ended_def rearm_flush_flush)

lemma wipe_fields [simp]:
  "ks_memory (wipe d ks) = None"
  "ks_cache (wipe d ks) = None"
  "ks_seq (wipe d ks) = 0"
  "ks_continuation (wipe d ks) = None"
  "ks_pending (wipe d ks) = []"
  "ks_batch (wipe d ks) = (if df_batch d = None then ks_batch ks else [])"
  "ks_flush (wipe d ks) = (if df_batch d = None then ks_flush ks else None)"
  "ks_ttl (wipe d ks) = ks_ttl ks"
  "ks_hitl (wipe d ks) = ks_hitl ks"
  by (simp_all add: wipe_def Let_def)

lemma escalate_fields [simp]:
  "ks_memory (so_state (escalate d key c t tool args ms ks)) = ks_memory ks"
  "ks_cache (so_state (escalate d key c t tool args ms ks)) = ks_cache ks"
  "ks_seq (so_state (escalate d key c t tool args ms ks)) = ks_seq ks"
  "ks_batch (so_state (escalate d key c t tool args ms ks)) = ks_batch ks"
  "ks_flush (so_state (escalate d key c t tool args ms ks)) = ks_flush ks"
  "ks_hitl (so_state (escalate d key c t tool args ms ks)) = Some (t + ms)"
  "ks_ttl (so_state (escalate d key c t tool args ms ks)) = Some (t + ms + df_ttl_ms d)"
  "ks_pending (so_state (escalate d key c t tool args ms ks)) =
     ks_pending ks @ [escalation_intent d key c t tool args ms]"
  "ks_continuation (so_state (escalate d key c t tool args ms ks)) =
     Some (c\<lparr>co_step := co_step c + 1, co_deadline := t + ms, co_escalations := co_escalations c + 1,
             co_pending := co_pending c @ [ti_id (escalation_intent d key c t tool args ms)]\<rparr>)"
  "intents_in (so_emits (escalate d key c t tool args ms ks)) = [escalation_intent d key c t tool args ms]"
  by (simp_all add: escalate_def emit_only_def Let_def intents_in_def)

lemma fails_flush_fields:
  "fails_flush key now es ks so \<Longrightarrow> so_state so = ks\<lparr>ks_batch := [], ks_flush := None\<rparr>"
  by (simp add: fails_flush_def)

lemma delivers_suspension:
  assumes "delivers d key ks es ks'" and "suspension_ok d key ks"
  shows "suspension_ok d key ks'"
  using assms
proof (cases rule: delivers.cases)
  case (start si now ar so)
  then show ?thesis using commits_suspension by blast
next
  case (flushed ks1 si trigger ar so)
  then show ?thesis using commits_suspension enqueue_fields(3) by (metis order_refl)
next
  case (resumed c i now si ar so)
  then show ?thesis using commits_suspension assms(2) by (fastforce simp: suspension_ok_def)
next
  case (failed_flush ks1 now so)
  then show ?thesis by (simp add: suspension_ok_def fails_flush_fields enqueue_fields)
next
  case (escalated c t tool args ms)
  then show ?thesis using assms(2)
    by (auto simp: suspension_ok_def escalation_intent_def sorted_wrt_append less_Suc_eq_le intro: less_trans)
qed (use assms(2) in \<open>auto simp: suspension_ok_def\<close>)

lemma delivers_blobs:
  assumes "delivers d key ks es ks'" and "blobs_ok ks" and "compactor_good (ax_compactor (df_ext d))"
  shows "blobs_ok ks'"
  using assms(1)
proof (cases rule: delivers.cases)
  case (start si now ar so)
  then show ?thesis using commits_blobs assms by blast
next
  case (flushed ks1 si trigger ar so)
  then have "blobs_ok ks1" using assms(2) by (simp add: blobs_ok_def enqueue_fields)
  then show ?thesis using commits_blobs flushed assms by blast
next
  case (resumed c i now si ar so)
  then show ?thesis using commits_blobs assms by blast
next
  case (failed_flush ks1 now so)
  then show ?thesis using assms(2) by (simp add: blobs_ok_def fails_flush_fields enqueue_fields)
qed (use assms(2) in \<open>auto simp: blobs_ok_def\<close>)

lemma no_intents: "list_all (\<lambda>e. case e of IntentOut _ \<Rightarrow> False | _ \<Rightarrow> True) es \<Longrightarrow> intents_in es = []"
  by (induction es) (auto simp: intents_in_def split: emission.splits)

lemma no_effects_no_intents:
  "effect_free es \<Longrightarrow> intents_in es = []"
  by (rule no_intents) (auto simp: effect_free_def list_all_iff split: emission.splits)

lemma dead_letters_intents [simp]:
  "intents_in (dead_letter key r x t # es) = intents_in es"
  "intents_in (TraceOut tr # es) = intents_in es"
  "intents_in (map (\<lambda>_. dead_letter key r x t) vs) = []"
  by (induction vs; simp add: intents_in_def dead_letter_def)+

lemma minted_same:
  "\<lbrakk>minted_ok d key h ks; ks_seq ks' = ks_seq ks; ks_continuation ks' = ks_continuation ks\<rbrakk> \<Longrightarrow> minted_ok d key h ks'"
  by (simp add: minted_ok_def)

lemma minted_no_continuation:
  "\<lbrakk>minted_ok d key h ks; ks_seq ks' = ks_seq ks; ks_continuation ks' = None\<rbrakk> \<Longrightarrow> minted_ok d key h ks'"
  by (simp add: minted_ok_def)

lemma minted_seq: "minted_ok d key h ks \<Longrightarrow> 0 \<le> ks_seq ks"
  by (simp add: minted_ok_def)

lemma minted_fresh_seq: "minted_ok d key h ks \<Longrightarrow> \<forall>i \<in> set h. ti_seq i = ks_seq ks \<longrightarrow> ti_step i < s"
  by (force simp: minted_ok_def)

lemma minted_fresh_step:
  "\<lbrakk>minted_ok d key h ks; ks_continuation ks = Some c\<rbrakk> \<Longrightarrow>
   0 \<le> co_seq c \<and> co_seq c \<le> ks_seq ks \<and> (\<forall>i \<in> set h. ti_seq i = co_seq c \<longrightarrow> ti_step i < co_step c)"
  by (simp add: minted_ok_def)

lemma delivers_minted:
  assumes "delivers d key ks es ks'" and "minted_ok d key h ks"
  shows "minted_ok d key (h @ intents_in es) ks'"
  using assms(1)
proof (cases rule: delivers.cases)
  case (start si now ar so)
  show ?thesis unfolding start(1,2)
    by (rule commits_minted[OF start(4) assms(2) order_refl minted_seq[OF assms(2)] minted_fresh_seq[OF assms(2)]])
next
  case (flushed ks1 si trigger ar so)
  note q = enqueue_fields(3)[OF flushed(4)]
  have m: "minted_ok d key h ks1" using minted_same[OF assms(2)] enqueue_fields[OF flushed(4)] by blast
  show ?thesis unfolding flushed(1,2)
    by (rule commits_minted[OF flushed(7) m]) (use minted_seq[OF m] minted_fresh_seq[OF m] q in simp_all)
next
  case (resumed c i now si ar so)
  show ?thesis unfolding resumed(1,2)
    by (rule commits_minted[OF resumed(5) assms(2)]) (use minted_fresh_step[OF assms(2) resumed(3)] in simp_all)
next
  case (failed now so)
  then have "intents_in es = []" by (auto simp: fails_def)
  then show ?thesis using assms(2) failed by simp
next
  case (failed_flush ks1 now so)
  then have "intents_in es = []" by (auto simp: fails_flush_def)
  then show ?thesis using minted_same[OF assms(2)] failed_flush
    by (simp add: fails_flush_fields enqueue_fields)
next
  case (escalated c t tool args ms)
  let ?i = "escalation_intent d key c t tool args ms"
  have i: "ti_seq ?i = co_seq c" "ti_step ?i = co_step c" "ti_key ?i = key"
    "ti_id ?i = intent_id_for (ax_uuid (df_ext d)) key (co_seq c) (co_step c)"
    by (simp_all add: escalation_intent_def)
  have "(ti_seq ?i, ti_step ?i) \<notin> (\<lambda>i. (ti_seq i, ti_step i)) ` set h"
    using minted_fresh_step[OF assms(2) escalated(3)] i by force
  moreover have "\<forall>x \<in> set h. ti_seq x = co_seq c \<longrightarrow> ti_step x < co_step c + 1"
    using minted_fresh_step[OF assms(2) escalated(3)] by force
  ultimately show ?thesis using assms(2) i unfolding escalated(1,2)
    by (simp add: minted_ok_def escalated(3))
next
  case (wait_over c t si)
  then show ?thesis using minted_no_continuation[OF assms(2)] no_intents by simp
qed (use assms(2) minted_same[OF assms(2)] no_effects_no_intents in auto)

lemma minted_wipe: "minted_ok d key [] (wipe d ks)"
  by (simp add: minted_ok_def)

lemma delivers_buffer:
  assumes "delivers d key ks es ks'" and "buffer_ok d ks"
  shows "buffer_ok d ks'"
  using assms(1)
proof (cases rule: delivers.cases)
  case (start si now ar so)
  then show ?thesis using assms(2) by (auto simp: commits_def buffer_ok_def commit_state_timers)
next
  case (flushed ks1 si trigger ar so)
  then show ?thesis using assms(2) by (auto simp: commits_def buffer_ok_def split: option.splits)
next
  case (resumed c i now si ar so)
  then show ?thesis using assms(2) by (auto simp: commits_def buffer_ok_def commit_state_timers split: option.splits)
next
  case (failed_flush ks1 now so)
  then show ?thesis using assms(2) by (auto simp: fails_flush_fields buffer_ok_def split: option.splits)
next
  case (buffered settings si env)
  then show ?thesis using assms(2) by (auto simp: buffer_ok_def)
next
  case (wait_over c t si)
  then show ?thesis using assms(2) by (auto simp: buffer_ok_def split: option.splits)
qed (use assms(2) in \<open>auto simp: buffer_ok_def split: option.splits\<close>)

lemma delivers_armed:
  assumes "delivers d key ks es ks'" and "armed_ok ks"
  shows "armed_ok ks'"
  using assms(1)
proof (cases rule: delivers.cases)
  case (start si now ar so)
  then show ?thesis using commits_armed(1) by blast
next
  case (flushed ks1 si trigger ar so)
  then show ?thesis using commits_armed(1) by blast
next
  case (resumed c i now si ar so)
  then show ?thesis using commits_armed(1) by blast
next
  case (failed_flush ks1 now so)
  then show ?thesis using assms(2) by (simp add: fails_flush_fields armed_ok_def enqueue_fields)
qed (use assms(2) in \<open>auto simp: armed_ok_def\<close>)

lemma delivers_outlives:
  assumes "delivers d key ks es ks'" and "outlives_wait d ks"
  shows "outlives_wait d ks'"
  using assms(1)
proof (cases rule: delivers.cases)
  case (start si now ar so)
  then show ?thesis using commits_armed(2) by blast
next
  case (resumed c i now si ar so)
  then show ?thesis using commits_armed(2) by blast
qed (use assms(2) in \<open>auto simp: outlives_wait_def\<close>)

text \<open>Under a collision-free \<open>uuid5\<close> the identifiers themselves are distinct.\<close>

lemma minted_ids_distinct:
  assumes "minted_ok d key h ks" and "inj (ax_uuid (df_ext d))"
  shows "distinct (map ti_id h)"
proof -
  have "\<forall>i \<in> set h. ti_id i = intent_id_for (ax_uuid (df_ext d)) key (ti_seq i) (ti_step i)"
    using assms(1) by (simp add: minted_ok_def)
  then have "map ti_id h = map ((\<lambda>(q, s). intent_id_for (ax_uuid (df_ext d)) key q s) \<circ> (\<lambda>i. (ti_seq i, ti_step i))) h"
    by simp
  moreover have "inj_on (\<lambda>(q, s). intent_id_for (ax_uuid (df_ext d)) key q s) A" for A
    by (rule inj_onI) (auto simp: intent_id_inject[OF assms(2)])
  ultimately show ?thesis
    using assms(1) by (simp add: minted_ok_def distinct_map comp_inj_on flip: map_map)
qed

end
