(* ===== verification/Dofn_Runs.thy ===== *)
theory Dofn_Runs
  imports Dofn_Invariants
begin

text \<open>
  The life of a key: which deliveries the runner may make in a state, and the states and intents
  that any sequence of them reaches. A due timer is consumed before its callback runs; a HITL or
  flush mark that was superseded may still be delivered; a bundle whose handler raises commits
  nothing; and between two deliveries the rest of the pipeline may change the world.
\<close>

inductive deliverable :: "stimulus \<Rightarrow> kstate \<Rightarrow> kstate \<Rightarrow> bool" where
  element: "deliverable (Element env) ks ks"
| ttl_due: "\<lbrakk>ks_ttl ks = Some m; m \<le> t\<rbrakk> \<Longrightarrow> deliverable (TtlFires t) ks (ks\<lparr>ks_ttl := None\<rparr>)"
| hitl_due: "\<lbrakk>ks_hitl ks = Some m; m \<le> t\<rbrakk> \<Longrightarrow> deliverable (HitlFires t) ks (ks\<lparr>ks_hitl := None\<rparr>)"
| flush_due: "ks_flush ks = Some m \<Longrightarrow> deliverable FlushFires ks (ks\<lparr>ks_flush := None\<rparr>)"
| hitl_superseded: "deliverable (HitlFires t) ks ks"
| flush_superseded: "deliverable FlushFires ks ks"

inductive_cases deliverable_ttl: "deliverable (TtlFires t) ks ks1"
inductive_cases deliverable_hitl: "deliverable (HitlFires t) ks ks1"
inductive_cases deliverable_flush: "deliverable FlushFires ks ks1"
inductive_simps deliverable_element: "deliverable (Element env) ks ks1"

definition era :: "stimulus \<Rightarrow> tool_intent list \<Rightarrow> emission list \<Rightarrow> tool_intent list" where
  "era st h es = (case st of TtlFires _ \<Rightarrow> [] | _ \<Rightarrow> h @ intents_in es)"

inductive key_run :: "'w dofn \<Rightarrow> bytes \<Rightarrow> tool_intent list \<Rightarrow> kstate \<Rightarrow> 'w \<Rightarrow> bool"
  for d :: "'w dofn" and key :: bytes where
  fresh: "key_run d key [] empty_kstate w"
| delivery: "\<lbrakk>key_run d key h ks w; deliverable st ks ks1; handle d si key st ks1 w = (Ok so, w')\<rbrakk>
    \<Longrightarrow> key_run d key (era st h (so_emits so)) (so_state so) w'"
| bundle_failed: "\<lbrakk>key_run d key h ks w; deliverable st ks ks1; handle d si key st ks1 w = (Err e, w')\<rbrakk>
    \<Longrightarrow> key_run d key h ks w'"
| elsewhere: "key_run d key h ks w \<Longrightarrow> key_run d key h ks w'"

section \<open>Induction over the deliveries\<close>

text \<open>
  A property of the cells and the history that no timer mark influences is preserved by a run if
  the step relation and the wipe preserve it.
\<close>

lemma deliverable_cells:
  assumes "deliverable st ks ks1"
  shows "ks_memory ks1 = ks_memory ks" "ks_cache ks1 = ks_cache ks" "ks_continuation ks1 = ks_continuation ks"
    "ks_pending ks1 = ks_pending ks" "ks_seq ks1 = ks_seq ks" "ks_batch ks1 = ks_batch ks"
  using assms by (cases rule: deliverable.cases; simp)+

lemma key_run_invariant:
  assumes "key_run d key h ks w"
    and init: "P [] empty_kstate"
    and frame: "\<And>h ks ks1. \<lbrakk>P h ks; ks_memory ks1 = ks_memory ks; ks_cache ks1 = ks_cache ks;
        ks_continuation ks1 = ks_continuation ks; ks_pending ks1 = ks_pending ks; ks_seq ks1 = ks_seq ks\<rbrakk> \<Longrightarrow> P h ks1"
    and step: "\<And>h ks es ks'. \<lbrakk>P h ks; delivers d key ks es ks'\<rbrakk> \<Longrightarrow> P (h @ intents_in es) ks'"
    and wiped: "\<And>h ks. P h ks \<Longrightarrow> P [] (wipe d ks)"
  shows "P h ks"
  using assms(1)
proof (induction rule: key_run.induct)
  case (delivery h ks w st ks1 si so w')
  have p: "P h ks1" using frame[OF delivery.IH] deliverable_cells[OF delivery.hyps(2)] by blast
  show ?case
  proof (cases "\<exists>t. st = TtlFires t")
    case True
    then show ?thesis using wiped[OF p] ttl_wipes delivery.hyps(3) by (fastforce simp: era_def)
  next
    case False
    then have "delivers d key ks1 (so_emits so) (so_state so)" using handle_delivers[OF delivery.hyps(3)] by blast
    then have "P (h @ intents_in (so_emits so)) (so_state so)" by (rule step[OF p])
    then show ?thesis using False by (cases st) (auto simp: era_def)
  qed
qed (use init in auto)

lemma run_minted: "key_run d key h ks w \<Longrightarrow> minted_ok d key h ks"
proof (erule key_run_invariant)
  show "minted_ok d key [] empty_kstate" by (simp add: minted_ok_def empty_kstate_def)
qed (auto intro: delivers_minted minted_same minted_wipe)

lemma suspension_same:
  "\<lbrakk>suspension_ok d key ks; ks_continuation ks1 = ks_continuation ks; ks_pending ks1 = ks_pending ks;
    ks_seq ks1 = ks_seq ks\<rbrakk> \<Longrightarrow> suspension_ok d key ks1"
  by (simp add: suspension_ok_def)

lemma suspension_wipe: "suspension_ok d key (wipe d ks)"
  by (simp add: suspension_ok_def)

lemma blobs_same: "\<lbrakk>blobs_ok ks; ks_memory ks1 = ks_memory ks; ks_cache ks1 = ks_cache ks\<rbrakk> \<Longrightarrow> blobs_ok ks1"
  by (simp add: blobs_ok_def)

lemma blobs_wipe: "blobs_ok (wipe d ks)"
  by (simp add: blobs_ok_def)

lemma run_suspension: "key_run d key h ks w \<Longrightarrow> suspension_ok d key ks"
proof (erule key_run_invariant)
  show "suspension_ok d key empty_kstate" by (simp add: suspension_ok_def empty_kstate_def)
qed (auto intro: delivers_suspension simp: suspension_same suspension_wipe)

lemma run_blobs_ok:
  assumes "compactor_good (ax_compactor (df_ext d))" and "key_run d key h ks w"
  shows "blobs_ok ks"
  using assms(2)
proof (rule key_run_invariant)
  show "blobs_ok empty_kstate" by (simp add: blobs_ok_def empty_kstate_def)
qed (auto intro: delivers_blobs assms(1) simp: blobs_same blobs_wipe)

section \<open>Timers\<close>

text \<open>A due HITL mark of a live suspension is never swallowed.\<close>

lemma hitl_due_resolves:
  assumes "armed_ok ks" and "ks_hitl ks = Some m" and "m \<le> t"
    and "on_hitl d si key t (ks\<lparr>ks_hitl := None\<rparr>) = Ok so"
  shows "armed_ok (so_state so)"
    and "ks_continuation ks = Some c \<Longrightarrow>
      ks_continuation (so_state so) = None \<or>
      (\<exists>c'. ks_continuation (so_state so) = Some c' \<and> co_escalations c' = co_escalations c + 1)"
  using on_hitl_cases[OF assms(4)] assms(1-3)
  by (auto simp: armed_ok_def emit_only_def)

lemma run_armed:
  assumes "key_run d key h ks w"
  shows "armed_ok ks"
  using assms
proof (induction rule: key_run.induct)
  case fresh
  then show ?case by (simp add: armed_ok_def empty_kstate_def)
next
  case (delivery h ks w st ks1 si so w')
  show ?case
  proof (cases st)
    case (TtlFires t)
    then show ?thesis using ttl_wipes delivery.hyps(3) by (fastforce simp: armed_ok_def)
  next
    case (HitlFires t)
    from delivery.hyps(2)[unfolded HitlFires]
    consider (due) m where "ks_hitl ks = Some m" "m \<le> t" "ks1 = ks\<lparr>ks_hitl := None\<rparr>" | (superseded) "ks1 = ks"
      by (auto elim: deliverable_hitl)
    then show ?thesis
    proof cases
      case due
      have "on_hitl d si key t (ks\<lparr>ks_hitl := None\<rparr>) = Ok so"
        using delivery.hyps(3) HitlFires due(3) by (simp add: handle_def)
      then show ?thesis by (rule hitl_due_resolves(1)[OF delivery.IH due(1,2)])
    next
      case superseded
      then show ?thesis using delivers_armed[OF handle_delivers[OF delivery.hyps(3)]] delivery.IH HitlFires by simp
    qed
  next
    case (Element env)
    then show ?thesis using delivers_armed[OF handle_delivers[OF delivery.hyps(3)]] delivery
      by (simp add: deliverable_element)
  next
    case FlushFires
    have "armed_ok ks1" using delivery.IH delivery.hyps(2) unfolding FlushFires
      by (auto simp: armed_ok_def elim: deliverable_flush)
    then show ?thesis using delivers_armed[OF handle_delivers[OF delivery.hyps(3)]] FlushFires by simp
  qed
qed auto

lemma run_outlives:
  assumes "key_run d key h ks w"
  shows "outlives_wait d ks"
  using assms
proof (induction rule: key_run.induct)
  case fresh
  then show ?case by (simp add: outlives_wait_def empty_kstate_def)
next
  case (delivery h ks w st ks1 si so w')
  show ?case
  proof (cases "\<exists>t. st = TtlFires t")
    case True
    then show ?thesis using ttl_wipes delivery.hyps(3) by (fastforce simp: outlives_wait_def)
  next
    case False
    then have "outlives_wait d ks1" using delivery.IH delivery.hyps(2)
      by (auto simp: outlives_wait_def elim!: deliverable.cases)
    then show ?thesis using delivers_outlives[OF handle_delivers[OF delivery.hyps(3)]] False by blast
  qed
qed auto

text \<open>A due flush mark over a non-empty buffer flushes it unless a suspension defers it.\<close>

lemma flush_due_buffer:
  assumes "buffer_ok d ks" and "on_flush d si key (ks\<lparr>ks_flush := None\<rparr>) w = (Ok so, w')"
  shows "buffer_ok d (so_state so)"
  using on_flush_cases[OF assms(2)]
proof (elim disjE conjE)
  assume b: "df_batch d \<noteq> None" and f: "flush d si key (ks_batch (ks\<lparr>ks_flush := None\<rparr>)) TRIGGER_TIMER (ks\<lparr>ks_flush := None\<rparr>) w = (Ok so, w')"
  have "ks_batch (so_state so) = []" using flush_cases[OF f] by (auto simp: commits_def fails_flush_fields)
  moreover obtain s where "df_batch d = Some s" "0 \<le> bs_max_buffered s"
    using b assms(1) by (auto simp: buffer_ok_def)
  ultimately show ?thesis by (simp add: buffer_ok_def)
qed (use assms(1) in \<open>auto simp: buffer_ok_def emit_only_def split: option.splits\<close>)

lemma run_buffer:
  assumes "key_run d key h ks w" and cap: "\<forall>b. df_batch d = Some b \<longrightarrow> 0 \<le> bs_max_buffered b"
  shows "buffer_ok d ks"
  using assms(1)
proof (induction rule: key_run.induct)
  case fresh
  then show ?case using cap by (simp add: buffer_ok_def empty_kstate_def split: option.splits)
next
  case (delivery h ks w st ks1 si so w')
  show ?case
  proof (cases st)
    case (TtlFires t)
    have "buffer_ok d (wipe d ks1)" using delivery.IH delivery.hyps(2) cap
      by (auto simp: buffer_ok_def TtlFires elim: deliverable_ttl split: option.splits)
    then show ?thesis using ttl_wipes delivery.hyps(3) TtlFires by fastforce
  next
    case FlushFires
    from delivery.hyps(2)[unfolded FlushFires]
    consider (due) "ks1 = ks\<lparr>ks_flush := None\<rparr>" | (superseded) "ks1 = ks"
      by (auto elim: deliverable_flush)
    then show ?thesis
    proof cases
      case due
      then show ?thesis using flush_due_buffer[OF delivery.IH] delivery.hyps(3) FlushFires by (simp add: handle_def)
    next
      case superseded
      then show ?thesis using delivers_buffer[OF handle_delivers[OF delivery.hyps(3)]] delivery.IH FlushFires by simp
    qed
  next
    case (Element env)
    then show ?thesis using delivers_buffer[OF handle_delivers[OF delivery.hyps(3)]] delivery
      by (simp add: deliverable_element)
  next
    case (HitlFires t)
    have "buffer_ok d ks1" using delivery.IH delivery.hyps(2) unfolding HitlFires
      by (auto simp: buffer_ok_def elim: deliverable_hitl split: option.splits)
    then show ?thesis using delivers_buffer[OF handle_delivers[OF delivery.hyps(3)]] HitlFires by simp
  qed
qed auto

end
