(* ===== verification/Dofn_Metrics.thy ===== *)
theory Dofn_Metrics
  imports Dofn_Steps
begin

text \<open>
  The counters against the outputs: every element on \<open>.errors\<close> is counted once, as an agent error
  or as an orphaned result, and every element on \<open>.intents\<close> once as an emitted intent, whichever
  handler put it there.
\<close>

definition counted :: "counter \<Rightarrow> metric list \<Rightarrow> int" where
  "counted c ms = sum_list (map (\<lambda>m. case m of Incr c' n \<Rightarrow> (if c' = c then n else 0) | Observe _ _ \<Rightarrow> 0) ms)"

definition errors_in :: "emission list \<Rightarrow> int" where
  "errors_in es = int (length (filter (\<lambda>e. case e of ErrorOut _ \<Rightarrow> True | _ \<Rightarrow> False) es))"

definition intent_count :: "emission list \<Rightarrow> int" where
  "intent_count es = int (length (filter (\<lambda>e. case e of IntentOut _ \<Rightarrow> True | _ \<Rightarrow> False) es))"

definition accounted :: "step_out \<Rightarrow> bool" where
  "accounted so \<longleftrightarrow>
     counted AgentErrorsC (so_metrics so) + counted OrphanedResultsC (so_metrics so) = errors_in (so_emits so) \<and>
     counted IntentsEmittedC (so_metrics so) = intent_count (so_emits so)"

lemma counted_simps [simp]:
  "counted c [] = 0"
  "counted c (Incr c' n # ms) = (if c' = c then n else 0) + counted c ms"
  "counted c (Observe x v # ms) = counted c ms"
  "counted c (ms @ ms') = counted c ms + counted c ms'"
  "counted c (map (Observe x) vs) = 0"
  by (induction vs; simp add: counted_def)+

lemma emission_counts [simp]:
  "errors_in [] = 0" "intent_count [] = 0"
  "errors_in (es @ es') = errors_in es + errors_in es'"
  "intent_count (es @ es') = intent_count es + intent_count es'"
  "errors_in (dead_letter key r x t # es) = 1 + errors_in es"
  "intent_count (dead_letter key r x t # es) = intent_count es"
  "errors_in (TraceOut tr # es) = errors_in es"
  "intent_count (TraceOut tr # es) = intent_count es"
  "errors_in (MainOut b # es) = errors_in es"
  "intent_count (MainOut b # es) = intent_count es"
  "errors_in (IntentOut i # es) = errors_in es"
  "intent_count (IntentOut i # es) = 1 + intent_count es"
  "errors_in (SnapshotOut s # es) = errors_in es"
  "intent_count (SnapshotOut s # es) = intent_count es"
  by (simp_all add: errors_in_def intent_count_def dead_letter_def)

lemma emission_map_counts [simp]:
  "errors_in (map MainOut bs) = 0" "intent_count (map MainOut bs) = 0"
  "errors_in (map IntentOut is) = 0" "intent_count (map IntentOut is) = int (length is)"
  "errors_in (map TraceOut ts) = 0" "intent_count (map TraceOut ts) = 0"
  "errors_in (map (\<lambda>x. dead_letter key r (f x) t) vs) = int (length vs)"
  "intent_count (map (\<lambda>x. dead_letter key r (f x) t) vs) = 0"
  by (induction bs; simp) (induction bs; induction "is"; induction ts; induction vs; simp)+

lemma counted_dead_letter [simp]:
  "counted AgentErrorsC (dead_letter_metric r # ms) + counted OrphanedResultsC (dead_letter_metric r # ms) =
   1 + (counted AgentErrorsC ms + counted OrphanedResultsC ms)"
  "counted IntentsEmittedC (dead_letter_metric r # ms) = counted IntentsEmittedC ms"
  by (simp_all add: dead_letter_metric_def)

lemma counted_dead_letters [simp]:
  "counted AgentErrorsC (map (\<lambda>_. dead_letter_metric r) vs) + counted OrphanedResultsC (map (\<lambda>_. dead_letter_metric r) vs) =
   int (length vs)"
  "counted IntentsEmittedC (map (\<lambda>_. dead_letter_metric r) vs) = 0"
  by (induction vs) simp_all

lemma record_commit_counted [simp]:
  "counted AgentErrorsC (record_commit ar ams f) = 0"
  "counted OrphanedResultsC (record_commit ar ams f) = 0"
  "counted IntentsEmittedC (record_commit ar ams f) = int (length (ar_intents ar))"
  "counted ActivationsC (record_commit ar ams f) = 1"
  by (auto simp: record_commit_def Let_def split: option.splits)

lemma accounted_commits: "commits d si key seq step now h f ks ar so \<Longrightarrow> accounted so"
  by (auto simp: commits_def accounted_def)

lemma accounted_fails: "fails key now ks so \<Longrightarrow> accounted so"
  by (auto simp: fails_def accounted_def)

lemma accounted_fails_flush: "fails_flush key now es ks so \<Longrightarrow> accounted so"
  by (auto simp: fails_flush_def accounted_def)

lemma accounted_prepend: "accounted (prepend_metrics [Incr EventsBufferedC 1] so) = accounted so"
  by (simp add: accounted_def prepend_metrics_def)

lemma accounted_escalate: "accounted (escalate d key c t tool args ms ks)"
  by (simp add: accounted_def escalate_def emit_only_def Let_def)

lemma accounted_flush: "flush d si key es trigger ks w = (Ok so, w') \<Longrightarrow> accounted so"
  by (drule flush_cases) (auto dest: accounted_commits accounted_fails_flush)

lemma accounted_resume: "resume d si key now i r a ks w = (Ok so, w') \<Longrightarrow> accounted so"
  by (drule resume_cases) (auto dest: accounted_commits accounted_fails simp: orphans_def accounted_def)

lemma accounted_start: "start_activation d si key now ev ks w = (Ok so, w') \<Longrightarrow> accounted so"
  by (drule start_cases) (auto dest: accounted_commits accounted_fails)

lemma accounted_buffer: "buffer_event d si b key env ks w = (Ok so, w') \<Longrightarrow> accounted so"
  by (drule buffer_cases)
    (auto dest: accounted_flush simp: accounted_prepend, simp_all add: accounted_def emit_only_def)

lemma accounted_process:
  assumes "process d si key env ks w = (Ok so, w')"
  shows "accounted so"
proof -
  have ev: "accounted so"
    if "(case df_batch d of
          Some settings \<Rightarrow> buffer_event d si settings key env ks w
        | None \<Rightarrow> start_activation d si key (env_time env) (payload_event env) ks w) = (Ok so, w')"
    using that accounted_buffer accounted_start by (auto split: option.splits)
  have ex: "accounted so" if "so = emit_only ks [SnapshotOut s] []" for s
    using that by (simp add: accounted_def emit_only_def)
  show ?thesis
  proof (cases "env_payload env")
    case None
    then show ?thesis using assms ev by (simp add: process_split)
  next
    case (Some pl)
    then show ?thesis
      by (cases pl) (use assms ev ex accounted_resume in \<open>auto simp: process_split\<close>)
  qed
qed

lemma accounted_ttl:
  assumes "on_ttl d key t ks w = (Ok so, w')"
  shows "accounted so"
proof -
  note so = on_ttl_Ok[OF assms, THEN conjunct1]
  show ?thesis
    by (cases "ks_continuation ks")
      (simp_all add: so accounted_def emit_only_def wiped_suspension_def wiped_batch_def error_trace_def Let_def
        dead_letter_metric_def REASON_TTL_WIPED_SUSPENSION_def REASON_ORPHANED_def REASON_TTL_WIPED_BATCH_def
        sum_list_triv counted_def comp_def)
qed

lemma accounted_hitl: "on_hitl d si key t ks = Ok so \<Longrightarrow> accounted so"
  by (drule on_hitl_cases) (auto simp: accounted_escalate, simp_all add: accounted_def emit_only_def error_trace_def Let_def)

lemma accounted_on_flush: "on_flush d si key ks w = (Ok so, w') \<Longrightarrow> accounted so"
  by (drule on_flush_cases) (auto dest: accounted_flush simp: accounted_def emit_only_def)

lemma handle_accounted: "handle d si key st ks w = (Ok so, w') \<Longrightarrow> accounted so"
  by (cases st) (auto simp: handle_def dest: accounted_process accounted_ttl accounted_hitl accounted_on_flush)

end
