(* ===== verification/Scenario.thy ===== *)
theory Scenario
  imports Dofn_Runs Dofn_Metrics
begin

text \<open>
  A concrete key with a concrete agent, used by the witnesses of the engine's properties: an agent
  that asks for one payment and suspends, and completes when it is resumed. The identifiers are
  the names themselves, which is an injective choice of \<open>uuid5\<close>.
\<close>

definition demo_ext :: "unit act_ext" where
  "demo_ext =
     \<lparr>ax_uuid = (\<lambda>s. s), ax_trace_uuid = utf8,
      ax_cache = \<lparr>rx_sha256 = (\<lambda>b. b), rx_byte_size = (\<lambda>_. 1)\<rparr>,
      ax_provider = (\<lambda>rq w. (Ok [1], w)), ax_clock = (\<lambda>w. (0, w)), ax_decode = None,
      ax_compactor = Some (drop_oldest_compact default_compactor), ax_store = None, ax_tools = []\<rparr>"

definition demo_agent :: agent where
  "demo_agent =
     Inspect (\<lambda>c. if is_resume c then Return (Complete [2])
                  else Act ''pay'' ''{}'' None (\<lambda>_. Return (Suspend [7] ''fn'' None)))"

definition demo_policy :: hitl_policy where
  "demo_policy = default_policy\<lparr>hp_max_escalations := 1, hp_on_timeout := (\<lambda>_. Ok (Escalate ''page'' ''{}'' 50))\<rparr>"

definition demo :: "batch_settings option \<Rightarrow> unit dofn" where
  "demo batching =
     \<lparr>df_agent = demo_agent, df_ext = demo_ext, df_summarizer = None, df_ttl_ms = 1000,
      df_policy = demo_policy, df_batch = batching, df_on_expire = None, df_max_tokens = None,
      df_repr = (\<lambda>_. []), df_type_name = (\<lambda>_. [])\<rparr>"

definition demo_batching :: batch_settings where
  "demo_batching = \<lparr>bs_max_batch_size = 2, bs_max_wait_ms = 500, bs_max_buffered = 4\<rparr>"

definition demo_event :: "msec \<Rightarrow> envelope" where
  "demo_event t = \<lparr>env_key = [1], env_time = t, env_payload = Some (ExternalEvent [9])\<rparr>"

definition tick :: "unit step_input" where
  "tick = \<lparr>si_wall = 5, si_timeout = None\<rparr>"

definition stalled :: "unit step_input" where
  "stalled = \<lparr>si_wall = 5, si_timeout = Some ()\<rparr>"

definition payment :: "int \<Rightarrow> tool_intent" where
  "payment q =
     \<lparr>ti_id = intent_id_for (\<lambda>s. s) [1] q 0, ti_key = [1], ti_seq = q, ti_step = 0, ti_tool = ''pay'',
      ti_args = ''{}'', ti_created = 5, ti_expires = 3600005, ti_attempt = 0, ti_kind = ToolKind,
      ti_trace = trace_id_for utf8 [1] q, ti_scheme = SchemeUnspecified, ti_key_id = [], ti_sig = []\<rparr>"

definition waiting :: "int \<Rightarrow> kstate" where
  "waiting q =
     \<lparr>ks_memory = Some \<lparr>mb_version = 1, mb_entries = [], mb_total = 0\<rparr>,
      ks_continuation = Some \<lparr>co_version = 1, co_seq = q, co_step = 1, co_pending = [ti_id (payment q)],
        co_adapter = ''fn'', co_snapshot = [7], co_suspended = 5, co_deadline = 3600005, co_escalations = 0\<rparr>,
      ks_cache = Some \<lparr>cb_version = 1, cb_entries = [], cb_total = 0\<rparr>,
      ks_pending = [payment q], ks_seq = q + 1, ks_batch = [], ks_ttl = Some 3601005,
      ks_hitl = Some 3600005, ks_flush = None\<rparr>"

lemmas engine_defs = handle_def process_def start_activation_def activate_def after_def commit_def commit_state_def
  base_input_def migrate_memory_def migrate_cache_def migrate_continuation_def migrate_v1
  run_activation_def context_init_def after_agent_def conclude_def flush_longterm_def result_of_def
  act_def stage_intent_def advance_step_def mint_intent_def stage_trace_def ctx_tally_def ctx_upserts_def
  suspend_deadline_def build_continuation_def memory_init_def memory_to_blob_def cache_init_def cache_to_blob_def
  longterm_staged_def budget_of_def start_event_def is_resume_def is_batch_def iterations_def
  empty_tally_def Let_def

lemmas demo_defs = demo_def demo_ext_def demo_agent_def demo_event_def tick_def demo_policy_def default_policy_def
  DEFAULT_INTENT_TTL_MS_def DEFAULT_HITL_TIMEOUT_MS_def CURRENT_STATE_SCHEMA_VERSION_def

lemma demo_fields [simp]:
  "df_batch (demo b) = b" "inj (ax_uuid (df_ext (demo b)))" "df_ttl_ms (demo b) = 1000"
  "df_policy (demo b) = demo_policy" "ax_compactor (df_ext (demo b)) = Some (drop_oldest_compact default_compactor)"
  by (simp_all add: demo_def demo_ext_def)

lemma demo_activation:
  "\<exists>ar. run_activation (df_ext (demo None)) (df_summarizer (demo None)) (df_agent (demo None))
      ((base_input (demo None) [1] (ks_seq empty_kstate) 5 None None)\<lparr>ai_event := [9]\<rparr>)
      (snd (ax_clock (df_ext (demo None)) ())) = (RunOk ar, ()) \<and> ar_intents ar = [payment 0]"
  by (simp add: engine_defs demo_defs empty_kstate_def payment_def)

text \<open>Two deliveries: an event that suspends, and a second event under \<open>NONE\<close>.\<close>

lemma demo_first:
  "\<exists>so. handle (demo None) tick [1] (Element (demo_event 5)) empty_kstate () = (Ok so, ()) \<and>
     so_state so = waiting 0 \<and> intents_in (so_emits so) = [payment 0]"
  by (simp add: engine_defs demo_defs empty_kstate_def waiting_def payment_def intents_in_def)

lemma demo_again:
  "\<exists>so. handle (demo None) tick [1] (Element (demo_event 5)) (waiting 0) () = (Ok so, ()) \<and>
     so_state so = waiting 1 \<and> intents_in (so_emits so) = [payment 1]"
  by (simp add: engine_defs demo_defs waiting_def payment_def intents_in_def load_cache_entry_def)

lemma demo_run1: "key_run (demo None) [1] [payment 0] (waiting 0) ()"
proof -
  obtain so where so: "handle (demo None) tick [1] (Element (demo_event 5)) empty_kstate () = (Ok so, ())"
    "so_state so = waiting 0" "intents_in (so_emits so) = [payment 0]"
    using demo_first by blast
  show ?thesis
    using key_run.delivery[OF key_run.fresh deliverable.element so(1)] so(2,3) by (simp add: era_def)
qed

lemma demo_run2: "key_run (demo None) [1] [payment 0, payment 1] (waiting 1) ()"
proof -
  obtain so where so: "handle (demo None) tick [1] (Element (demo_event 5)) (waiting 0) () = (Ok so, ())"
    "so_state so = waiting 1" "intents_in (so_emits so) = [payment 1]"
    using demo_again by blast
  show ?thesis
    using key_run.delivery[OF demo_run1 deliverable.element so(1)] so(2,3) by (simp add: era_def)
qed

text \<open>A batch of one element, waiting for its flush.\<close>

definition one_buffered :: kstate where
  "one_buffered = empty_kstate\<lparr>ks_batch := [demo_event 5], ks_ttl := Some 1005, ks_flush := Some 505\<rparr>"

lemma demo_buffered:
  "\<exists>so. handle (demo (Some demo_batching)) tick [1] (Element (demo_event 5)) empty_kstate () = (Ok so, ()) \<and>
     so_state so = one_buffered \<and> intents_in (so_emits so) = []"
  by (simp add: engine_defs demo_defs empty_kstate_def one_buffered_def buffer_event_def demo_batching_def emit_only_def
      buffer_is_full_def should_flush_on_size_def)

lemma demo_run_batch: "key_run (demo (Some demo_batching)) [1] [] one_buffered ()"
proof -
  obtain so where so: "handle (demo (Some demo_batching)) tick [1] (Element (demo_event 5)) empty_kstate () = (Ok so, ())"
    "so_state so = one_buffered" "intents_in (so_emits so) = []"
    using demo_buffered by blast
  show ?thesis
    using key_run.delivery[OF key_run.fresh deliverable.element so(1)] so(2,3) by (simp add: era_def)
qed

lemma demo_resolved: "resolve_batch_settings PolicyAdaptive (Some 2) (Some 500) (Some 4) = Ok (Some demo_batching)"
  by (simp add: resolve_batch_settings_def with_default_def require_positive_def demo_batching_def)

text \<open>A result that arrives when the deadline has just passed.\<close>

definition late_result :: envelope where
  "late_result = \<lparr>env_key = [1], env_time = 3600005,
     env_payload = Some (ResultPayload \<lparr>tr_id = ti_id (payment 0), tr_key = [1], tr_seq = 0, tr_status = StatusOk,
       tr_payload = [], tr_error = [], tr_completed = 3600005\<rparr>)\<rparr>"

text \<open>An agent whose token budget trips.\<close>

definition broke :: "unit dofn" where
  "broke = (demo None)\<lparr>df_agent := Raise (BudgetExceeded 1 2)\<rparr>"

text \<open>The buffered element is flushed by its due timer, and the batch's activation suspends.\<close>

lemma demo_flushed:
  "\<exists>so. handle (demo (Some demo_batching)) tick [1] FlushFires (one_buffered\<lparr>ks_flush := None\<rparr>) () = (Ok so, ()) \<and>
     so_state so = waiting 0 \<and> intents_in (so_emits so) = [payment 0]"
  by (simp add: engine_defs demo_defs empty_kstate_def one_buffered_def waiting_def payment_def intents_in_def
      on_flush_def flush_def should_flush_on_timer_def)

lemma demo_run_flushed: "key_run (demo (Some demo_batching)) [1] [payment 0] (waiting 0) ()"
proof -
  obtain so where so: "handle (demo (Some demo_batching)) tick [1] FlushFires (one_buffered\<lparr>ks_flush := None\<rparr>) () = (Ok so, ())"
    "so_state so = waiting 0" "intents_in (so_emits so) = [payment 0]"
    using demo_flushed by blast
  have "deliverable FlushFires one_buffered (one_buffered\<lparr>ks_flush := None\<rparr>)"
    by (rule deliverable.flush_due) (simp add: one_buffered_def)
  from key_run.delivery[OF demo_run_batch this so(1)] so(2,3) show ?thesis by (simp add: era_def)
qed

end
