(* ===== verification/Replay_Faithful.thy ===== *)
theory Replay_Faithful
  imports Replay_Diff Scenario
begin

text \<open>
  When a replay reproduces: a simulation between the activation that ran in the pipeline and its
  re-run against the tripwire. The two see the same context except for the cache, the tally, the
  two normalized trace attributes and, for an agent that keeps off its memory, the memory.
\<close>

section \<open>What the re-run may differ in\<close>

definition same_view :: "bool \<Rightarrow> activation_ctx \<Rightarrow> activation_ctx \<Rightarrow> bool" where
  "same_view mem c c' \<longleftrightarrow>
     c' = c\<lparr>ac_memory := ac_memory c', ac_cache := ac_cache c', ac_traces := ac_traces c', ac_tally := ac_tally c'\<rparr> \<and>
     (mem \<longrightarrow> ac_memory c' = ac_memory c) \<and>
     map normalize_event (ac_traces c') = map normalize_event (ac_traces c)"

lemma same_viewI:
  "\<lbrakk>c' = c\<lparr>ac_memory := m, ac_cache := ca, ac_traces := tr, ac_tally := ta\<rparr>; mem \<longrightarrow> m = ac_memory c;
    map normalize_event tr = map normalize_event (ac_traces c)\<rbrakk> \<Longrightarrow> same_view mem c c'"
  by (simp add: same_view_def)

lemma same_viewE:
  assumes "same_view mem c c'"
  obtains m ca tr ta where "c' = c\<lparr>ac_memory := m, ac_cache := ca, ac_traces := tr, ac_tally := ta\<rparr>"
    and "mem \<longrightarrow> m = ac_memory c" and "map normalize_event tr = map normalize_event (ac_traces c)"
  using assms by (auto simp: same_view_def)

text \<open>
  The agents the simulation covers: they do not branch on the cache, the tally or the normalized
  attributes, stage no event of the driver's own types, use no long-term memory, and stay off the
  working memory when \<open>mem\<close> is false.
\<close>

primrec replayable :: "bool \<Rightarrow> agent \<Rightarrow> bool" where
  "replayable mem (Return out) \<longleftrightarrow> True"
| "replayable mem (Raise e) \<longleftrightarrow> True"
| "replayable mem (Inspect k) \<longleftrightarrow> (\<forall>c. replayable mem (k c)) \<and> (\<forall>c c'. same_view mem c c' \<longrightarrow> k c' = k c)"
| "replayable mem (Act tool args ttl k) \<longleftrightarrow> (\<forall>i. replayable mem (k i))"
| "replayable mem (RequestApproval args channel ttl k) \<longleftrightarrow> (\<forall>i. replayable mem (k i))"
| "replayable mem (CallModel rq k) \<longleftrightarrow> (\<forall>r. replayable mem (k r))"
| "replayable mem (RunTool tool args k) \<longleftrightarrow> (\<forall>r. replayable mem (k r))"
| "replayable mem (MemGet key k) \<longleftrightarrow> mem \<and> (\<forall>r. replayable mem (k r))"
| "replayable mem (MemSet key v k) \<longleftrightarrow> mem \<and> (\<forall>r. replayable mem (k r))"
| "replayable mem (MemDelete key a) \<longleftrightarrow> mem \<and> replayable mem a"
| "replayable mem (MemAppend key item n k) \<longleftrightarrow> mem \<and> (\<forall>r. replayable mem (k r))"
| "replayable mem (MemRing key k) \<longleftrightarrow> mem \<and> (\<forall>r. replayable mem (k r))"
| "replayable mem (LongtermSave key v k) \<longleftrightarrow> False"
| "replayable mem (LongtermLoad key k) \<longleftrightarrow> False"
| "replayable mem (LongtermSearch pre limit k) \<longleftrightarrow> False"
| "replayable mem (StageTrace ev a) \<longleftrightarrow> te_type ev \<in> {LlmCall, ToolCall} \<and> replayable mem a"
| "replayable mem (AccumulateUsage u a) \<longleftrightarrow> replayable mem a"

text \<open>A read-only tool answers the same in any world.\<close>

definition pure_tools :: "'w act_ext \<Rightarrow> bool" where
  "pure_tools ext \<longleftrightarrow>
     (\<forall>t \<in> snd ` set (ax_tools ext). \<forall>args w w'. fst (tool_run t args w) = fst (tool_run t args w'))"

section \<open>Responses the snapshot holds\<close>

definition cached_response :: "replay_cache \<Rightarrow> string \<Rightarrow> bytes option" where
  "cached_response c k =
     (case map_of (rc_entries c) k of
        None \<Rightarrow> None
      | Some e \<Rightarrow> (if is_expired c e \<or> ce_digest_only e then None else Some (ce_response e)))"

definition model_answer :: "'w act_ext \<Rightarrow> llm_request \<Rightarrow> string \<Rightarrow> activation_ctx \<Rightarrow> 'w \<Rightarrow> bytes res" where
  "model_answer ext rq k c w =
     (case cached_response (ac_cache c) k of
        Some response \<Rightarrow> Ok response
      | None \<Rightarrow> fst (ax_provider ext rq (snd (ax_clock ext w))))"

text \<open>Every model call of a run got an answer, and the one that \<open>look\<close> holds for its key.\<close>

primrec served :: "'w act_ext \<Rightarrow> (string \<Rightarrow> bytes option) \<Rightarrow> agent \<Rightarrow> activation_ctx \<Rightarrow> 'w \<Rightarrow> bool" where
  "served ext look (Return out) c w \<longleftrightarrow> True"
| "served ext look (Raise e) c w \<longleftrightarrow> True"
| "served ext look (Inspect k) c w \<longleftrightarrow> served ext look (k c) c w"
| "served ext look (Act tool args ttl k) c w \<longleftrightarrow>
     (let (i, c1) = act ext tool args ttl c in served ext look (k i) c1 w)"
| "served ext look (RequestApproval args channel ttl k) c w \<longleftrightarrow>
     (let (i, c1) = request_approval ext args channel ttl c in served ext look (k i) c1 w)"
| "served ext look (CallModel rq k) c w \<longleftrightarrow>
     (case request_key (ax_cache ext) rq (ac_key c) (ac_seq c) of
        Inl e \<Rightarrow> True
      | Inr ck \<Rightarrow> (\<exists>response. look ck = Some response \<and> model_answer ext rq ck c w = Ok response)) \<and>
     (let (r, c1, w1) = call_model ext rq c w in served ext look (k r) c1 w1)"
| "served ext look (RunTool tool args k) c w \<longleftrightarrow>
     (let (r, c1, w1) = run_tool ext tool args c w in served ext look (k r) c1 w1)"
| "served ext look (MemGet key k) c w \<longleftrightarrow>
     (let (r, m) = memory_get key (ac_memory c) in served ext look (k r) (with_memory m c) w)"
| "served ext look (MemSet key v k) c w \<longleftrightarrow>
     (let (r, m) = memory_set (ax_compactor ext) key v (ac_memory c) in served ext look (k r) (with_memory m c) w)"
| "served ext look (MemDelete key a) c w \<longleftrightarrow> served ext look a (with_memory (memory_delete key (ac_memory c)) c) w"
| "served ext look (MemAppend key item n k) c w \<longleftrightarrow>
     (let (r, m) = memory_append (ax_compactor ext) key item n (ac_memory c) in
      served ext look (k r) (with_memory m c) w)"
| "served ext look (MemRing key k) c w \<longleftrightarrow>
     (let (r, m) = memory_ring key (ac_memory c) in served ext look (k r) (with_memory m c) w)"
| "served ext look (LongtermSave key v k) c w \<longleftrightarrow> True"
| "served ext look (LongtermLoad key k) c w \<longleftrightarrow> True"
| "served ext look (LongtermSearch pre limit k) c w \<longleftrightarrow> True"
| "served ext look (StageTrace ev a) c w \<longleftrightarrow> served ext look a (stage_trace ext ev c) w"
| "served ext look (AccumulateUsage u a) c w \<longleftrightarrow> served ext look a (accumulate_usage u c) w"

definition offers :: "(string \<Rightarrow> bytes option) \<Rightarrow> replay_cache \<Rightarrow> bool" where
  "offers look c \<longleftrightarrow> (\<forall>k response. look k = Some response \<longrightarrow> cached_response c k = Some response)"

lemma cached_get:
  assumes "cached_response c k = Some response"
  shows "\<exists>hit c'. cache_get k c = (Some hit, c') \<and> re_response hit = response \<and> \<not> re_digest_only hit \<and>
    (\<forall>j. cached_response c' j = cached_response c j)"
proof -
  obtain e where e: "map_of (rc_entries c) k = Some e" "\<not> is_expired c e" "\<not> ce_digest_only e" "ce_response e = response"
    using assms by (auto simp: cached_response_def split: option.splits if_splits)
  have "cached_response (cache_touch k e c) j = cached_response c j" for j
    using e by (auto simp: cached_response_def cache_touch_def is_expired_def alist_facts split: option.splits)
  then show ?thesis using e by (simp add: cache_get_def)
qed


section \<open>Each call is answered alike\<close>

lemma replay_surface_sel [simp]:
  "ax_uuid (replay_surface ext b) = ax_uuid ext"
  "ax_trace_uuid (replay_surface ext b) = ax_trace_uuid ext"
  "ax_cache (replay_surface ext b) = ax_cache ext"
  "ax_decode (replay_surface ext b) = ax_decode ext"
  "ax_compactor (replay_surface ext b) = None"
  "ax_store (replay_surface ext b) = None"
  "ax_clock (replay_surface ext b) = lift_world (ax_clock ext)"
  "ax_tools (replay_surface ext b) = map (\<lambda>(n, t). (n, lift_tool t)) (ax_tools ext)"
  by (simp_all add: replay_surface_def)

lemma stage_intent_sim:
  assumes "same_view mem c c'"
  shows "\<exists>c1'. stage_intent (replay_surface ext b) tool args kind ttl c' = (fst (stage_intent ext tool args kind ttl c), c1') \<and>
    same_view mem (snd (stage_intent ext tool args kind ttl c)) c1' \<and> ac_cache c1' = ac_cache c'"
proof -
  obtain m ca tr ta where c': "c' = c\<lparr>ac_memory := m, ac_cache := ca, ac_traces := tr, ac_tally := ta\<rparr>"
    and m: "mem \<longrightarrow> m = ac_memory c" and tr: "map normalize_event tr = map normalize_event (ac_traces c)"
    using assms by (rule same_viewE)
  show ?thesis using m tr
    by (cases ttl) (auto simp: c' stage_intent_def advance_step_def mint_intent_def same_view_def)
qed

lemma stage_trace_sim:
  assumes "same_view mem c c'" and "normalize_event (stamp (ax_trace_uuid ext) (ac_trace c) ev') =
      normalize_event (stamp (ax_trace_uuid ext) (ac_trace c) ev)"
  shows "same_view mem (stage_trace ext ev c) (stage_trace (replay_surface ext b) ev' c') \<and>
    ac_cache (stage_trace (replay_surface ext b) ev' c') = ac_cache c'"
proof -
  obtain m ca tr ta where c': "c' = c\<lparr>ac_memory := m, ac_cache := ca, ac_traces := tr, ac_tally := ta\<rparr>"
    and m: "mem \<longrightarrow> m = ac_memory c" and tr: "map normalize_event tr = map normalize_event (ac_traces c)"
    using assms(1) by (rule same_viewE)
  show ?thesis using m tr assms(2) by (simp add: c' stage_trace_def same_view_def)
qed

lemma same_view_fields:
  assumes "same_view mem c c'"
  shows "ac_key c' = ac_key c" "ac_seq c' = ac_seq c" "ac_budget c' = ac_budget c" "ac_step c' = ac_step c"
    "ac_trace c' = ac_trace c" "ac_intents c' = ac_intents c" "ac_now c' = ac_now c" "ac_tool_index c' = ac_tool_index c"
proof -
  obtain m ca tr ta where "c' = c\<lparr>ac_memory := m, ac_cache := ca, ac_traces := tr, ac_tally := ta\<rparr>"
    using assms by (rule same_viewE)
  then show "ac_key c' = ac_key c" "ac_seq c' = ac_seq c" "ac_budget c' = ac_budget c" "ac_step c' = ac_step c"
    "ac_trace c' = ac_trace c" "ac_intents c' = ac_intents c" "ac_now c' = ac_now c" "ac_tool_index c' = ac_tool_index c"
    by simp_all
qed

lemma same_view_cache: "same_view mem c c' \<Longrightarrow> same_view mem (c\<lparr>ac_cache := x, ac_tally := t\<rparr>) (c'\<lparr>ac_cache := y\<rparr>)"
  by (cases c; cases c') (auto simp: same_view_def)

lemma same_view_step: "same_view mem c c' \<Longrightarrow> same_view mem (c\<lparr>ac_step := n\<rparr>) (c'\<lparr>ac_step := n\<rparr>)"
  by (cases c; cases c') (auto simp: same_view_def)

lemma llm_event_normal:
  "normalize_event (stamp u tr (plain_event k s t LlmCall n
      ([(OPERATION_NAME, OPERATION_CHAT), (REQUEST_MODEL, model), (CACHE_HIT, bool_text hit)] @ usage_attributes us (\<not> hit)))) =
   normalize_event (stamp u tr (plain_event k s t LlmCall n
      ([(OPERATION_NAME, OPERATION_CHAT), (REQUEST_MODEL, model), (CACHE_HIT, bool_text True)] @ usage_attributes us False)))"
  by (simp add: normalize_event_def stamp_def stamp_role_def plain_event_def usage_attributes_def Let_def
      OPERATION_NAME_def REQUEST_MODEL_def CACHE_HIT_def BILLED_def)

lemma consume_sim:
  assumes "same_view mem c c'" and "ac_budget c = None"
  shows "\<exists>c1'. consume_response (replay_surface ext b) step True model response c' =
      (fst (consume_response ext step hit model response c), c1') \<and>
    same_view mem (snd (consume_response ext step hit model response c)) c1' \<and> ac_cache c1' = ac_cache c'"
proof (cases "decoded_usage ext response")
  case (Inl e)
  then have "decoded_usage (replay_surface ext b) response = Inl e" by (simp add: decoded_usage_def)
  then show ?thesis using Inl assms(1) by (simp add: consume_response_def)
next
  case (Inr us)
  have d: "decoded_usage (replay_surface ext b) response = Inr us" using Inr by (simp add: decoded_usage_def)
  let ?o = "stage_llm_trace ext step hit model us c" and ?r = "stage_llm_trace (replay_surface ext b) step True model us c'"
  have v: "same_view mem ?o ?r \<and> ac_cache ?r = ac_cache c'"
    unfolding stage_llm_trace_def same_view_fields[OF assms(1)] by (rule stage_trace_sim[OF assms(1)]) (use llm_event_normal[of "ax_trace_uuid ext" "ac_trace c" "ac_key c" "ac_seq c" "ac_now c" step model hit us] in simp)
  have "ac_budget ?o = None" "ac_budget ?r = None" using assms same_view_fields(3)[OF assms(1)]
    by (simp_all add: stage_llm_trace_def stage_trace_def)
  then show ?thesis using v Inr d by (simp add: consume_response_def ctx_charge_def)
qed

lemma call_model_answered:
  assumes budget: "ac_budget c = None" and key: "request_key (ax_cache ext) rq (ac_key c) (ac_seq c) = Ok ck"
    and answer: "model_answer ext rq ck c w = Ok response"
  shows "\<exists>hit x t w1. call_model ext rq c w =
    (let (r, c3) = consume_response ext (ac_step c) hit (rq_model rq) response
        (c\<lparr>ac_step := ac_step c + 1, ac_cache := x, ac_tally := t\<rparr>) in (r, c3, w1))"
proof (cases "cached_response (ac_cache c) ck")
  case (Some r)
  then obtain hit x where "cache_get ck (ac_cache c) = (Some hit, x)" "re_response hit = response" "\<not> re_digest_only hit"
    using cached_get[OF Some] answer by (auto simp: model_answer_def)
  then show ?thesis using budget key
    by (intro exI[of _ True] exI[of _ x] exI[of _ "ac_tally c"] exI[of _ w])
       (simp add: call_model_def check_opt_def advance_step_def Let_def)
next
  case None
  obtain s w1 where clock: "ax_clock ext w = (s, w1)" by (cases "ax_clock ext w")
  obtain w2 where p: "ax_provider ext rq w1 = (Ok response, w2)"
    using answer None clock by (cases "ax_provider ext rq w1") (auto simp: model_answer_def)
  obtain e w3 where clock2: "ax_clock ext w2 = (e, w3)" by (cases "ax_clock ext w2")
  obtain hit x where g: "cache_get ck (ac_cache c) = (hit, x)" by (cases "cache_get ck (ac_cache c)")
  have "hit = None \<or> (\<exists>h. hit = Some h \<and> re_digest_only h)"
    using None g by (auto simp: cached_response_def cache_get_def split: option.splits if_splits)
  then have call: "call_model ext rq c w =
      call_provider ext rq ck (ac_step c) (c\<lparr>ac_step := ac_step c + 1, ac_cache := x\<rparr>) w"
    using budget key g by (auto simp: call_model_def check_opt_def advance_step_def Let_def)
  show ?thesis
    by (intro exI[of _ False] exI[of _ "cache_put (ax_cache ext) ck response x"]
          exI[of _ "(ac_tally c)\<lparr>ty_llm_calls := ty_llm_calls (ac_tally c) + 1,
            ty_llm_ms := ty_llm_ms (ac_tally c) @ [(e - s) div NS_PER_MS]\<rparr>"] exI[of _ w3])
       (simp add: call call_provider_def clock p clock2 Let_def)
qed

lemma call_model_sim:
  assumes v: "same_view mem c c'" and budget: "ac_budget c = None" and o: "offers look (ac_cache c')"
    and answered: "case request_key (ax_cache ext) rq (ac_key c) (ac_seq c) of Inl e \<Rightarrow> True
      | Inr ck \<Rightarrow> (\<exists>response. look ck = Some response \<and> model_answer ext rq ck c w = Ok response)"
  shows "\<exists>c1'. call_model (replay_surface ext b) rq c' W = (fst (call_model ext rq c w), c1', W) \<and>
    same_view mem (fst (snd (call_model ext rq c w))) c1' \<and> offers look (ac_cache c1')"
proof -
  note fs = same_view_fields[OF v]
  let ?n = "ac_step c" and ?R = "replay_surface ext b"
  have v1: "same_view mem (c\<lparr>ac_step := ?n + 1\<rparr>) (c'\<lparr>ac_step := ?n + 1\<rparr>)" by (rule same_view_step[OF v])
  show ?thesis
  proof (cases "request_key (ax_cache ext) rq (ac_key c) (ac_seq c)")
    case (Inl e)
    then show ?thesis using v1 o fs budget by (simp add: call_model_def check_opt_def advance_step_def)
  next
    case (Inr ck)
    then obtain response where resp: "look ck = Some response" "model_answer ext rq ck c w = Ok response"
      using answered by auto
    obtain hit ca where hit: "cache_get ck (ac_cache c') = (Some hit, ca)" "re_response hit = response" "\<not> re_digest_only hit"
      "\<forall>j. cached_response ca j = cached_response (ac_cache c') j"
      using cached_get[of "ac_cache c'" ck response] o resp(1) by (auto simp: offers_def)
    have R: "call_model ?R rq c' W =
        (let (r, c3) = consume_response ?R ?n True (rq_model rq) response (c'\<lparr>ac_step := ?n + 1, ac_cache := ca\<rparr>) in (r, c3, W))"
      using Inr hit fs budget by (simp add: call_model_def check_opt_def advance_step_def Let_def)
    obtain h x t w1 where O: "call_model ext rq c w =
        (let (r, c3) = consume_response ext ?n h (rq_model rq) response (c\<lparr>ac_step := ?n + 1, ac_cache := x, ac_tally := t\<rparr>) in (r, c3, w1))"
      using call_model_answered[OF budget Inr resp(2)] by metis
    have v2: "same_view mem (c\<lparr>ac_step := ?n + 1, ac_cache := x, ac_tally := t\<rparr>) (c'\<lparr>ac_step := ?n + 1, ac_cache := ca\<rparr>)"
      by (rule same_view_cache[OF v1])
    have "ac_budget (c\<lparr>ac_step := ?n + 1, ac_cache := x, ac_tally := t\<rparr>) = None" using budget by simp
    from consume_sim[OF v2 this, of ext b ?n "rq_model rq" response h] show ?thesis
      using hit(4) o R O by (auto simp: offers_def split: prod.splits)
  qed
qed

lemma lift_registry [simp]:
  "registry_get (map (\<lambda>(n, t). (n, lift_tool t)) reg) name =
     (case registry_get reg name of Inl e \<Rightarrow> Err e | Inr t \<Rightarrow> Ok (lift_tool t))"
  by (simp add: registry_get_def map_of_map split: option.split)

lemma lift_tool_run [simp]:
  "tool_run (lift_tool t) args (w, n) = (fst (tool_run t args w), snd (tool_run t args w), n)"
  by (auto simp: tool_run_def lift_tool_def tool_call_def tool_validate_def lift_world_def split: option.splits prod.splits)

lemma lift_world_pair [simp]: "lift_world f (w, n) = (fst (f w), snd (f w), n)"
  by (simp add: lift_world_def split: prod.split)

lemma run_tool_sim:
  assumes v: "same_view mem c c'" and pure: "pure_tools ext"
  shows "\<exists>c1' w1'. run_tool (replay_surface ext b) tool args c' (w', n) = (fst (run_tool ext tool args c w), c1', w1', n) \<and>
    same_view mem (fst (snd (run_tool ext tool args c w))) c1' \<and> ac_cache c1' = ac_cache c'"
proof (cases "registry_get (ax_tools ext) tool")
  case (Inl e)
  then show ?thesis using v by (simp add: run_tool_def)
next
  case (Inr t)
  have "t \<in> snd ` set (ax_tools ext)" using Inr by (force simp: registry_get_def dest!: map_of_SomeD split: option.splits)
  then have same: "fst (tool_run t args a) = fst (tool_run t args a')" for a a' using pure by (auto simp: pure_tools_def)
  let ?r = "fst (tool_run t args (snd (ax_clock ext w)))"
  have r': "fst (tool_run t args (snd (ax_clock ext w'))) = ?r" by (rule same)
  obtain m ca tr ta where c': "c' = c\<lparr>ac_memory := m, ac_cache := ca, ac_traces := tr, ac_tally := ta\<rparr>"
    and m: "mem \<longrightarrow> m = ac_memory c" and tr: "map normalize_event tr = map normalize_event (ac_traces c)"
    using v by (rule same_viewE)
  show ?thesis
  proof (cases ?r)
    case (Inl e)
    then show ?thesis using Inr v r' by (simp add: run_tool_def Let_def split_beta)
  next
    case (Inr x)
    then show ?thesis using \<open>registry_get (ax_tools ext) tool = Inr t\<close> r' m tr
      by (simp add: run_tool_def c' same_view_def Let_def split_beta)
  qed
qed

lemma with_memory_sim: "same_view True c c' \<Longrightarrow> same_view True (with_memory m c) (with_memory m c') \<and> ac_cache (with_memory m c') = ac_cache c'"
  by (cases c; cases c') (auto simp: same_view_def with_memory_def)

lemma accumulate_sim: "same_view mem c c' \<Longrightarrow> same_view mem (accumulate_usage u c) (accumulate_usage u c') \<and> ac_cache (accumulate_usage u c') = ac_cache c'"
  by (cases c; cases c') (auto simp: same_view_def accumulate_usage_def Let_def)

section \<open>Budgets and traces of the original\<close>

lemma budget_kept [simp]:
  "ac_budget (with_memory m c) = ac_budget c"
  "ac_budget (accumulate_usage u c) = ac_budget c"
  "ac_budget (stage_trace ext ev c) = ac_budget c"
  "ac_budget (snd (stage_intent ext tool args kind ttl c)) = ac_budget c"
  "ac_budget (fst (snd (run_tool ext tool arguments c w))) = ac_budget c"
  by (auto simp: with_memory_def accumulate_usage_def stage_trace_def stage_intent_def advance_step_def run_tool_def Let_def
      split: sum.splits prod.splits)

lemma consume_budget: "ac_budget c = None \<Longrightarrow> ac_budget (snd (consume_response ext step hit model response c)) = None"
  by (auto simp: consume_response_def ctx_charge_def stage_llm_trace_def stage_trace_def Let_def split: sum.splits prod.splits)

lemma call_budget: "ac_budget c = None \<Longrightarrow> ac_budget (fst (snd (call_model ext rq c w))) = None"
  by (simp add: call_model_def call_provider_def check_opt_def advance_step_def Let_def split_beta consume_budget
      split: sum.split option.split)

section \<open>The simulation\<close>

lemma drive_sim:
  assumes pure: "pure_tools ext" and co: "mem \<longrightarrow> ax_compactor ext = None"
  shows "\<lbrakk>replayable mem ag; same_view mem c c'; ac_budget c = None; offers look (ac_cache c'); served ext look ag c w\<rbrakk> \<Longrightarrow>
    \<exists>c1' w1'. drive (replay_surface ext b) ag c' (w', n) = (fst (drive ext ag c w), c1', w1', n) \<and>
      same_view mem (fst (snd (drive ext ag c w))) c1'"
proof (induction ag arbitrary: c c' w w')
  case (Inspect k)
  have "k c' = k c" using Inspect.prems by simp
  then show ?case using Inspect.IH[of "k c" c c' w w'] Inspect.prems by auto
next
  case (Act tool args ttl k)
  obtain c1' where "stage_intent (replay_surface ext b) tool args ToolKind ttl c' = (fst (stage_intent ext tool args ToolKind ttl c), c1')"
    "same_view mem (snd (stage_intent ext tool args ToolKind ttl c)) c1'" "ac_cache c1' = ac_cache c'"
    using stage_intent_sim[OF Act.prems(2)] by blast
  then show ?case using Act.IH[OF rangeI, of "fst (stage_intent ext tool args ToolKind ttl c)" "snd (stage_intent ext tool args ToolKind ttl c)" c1' w w']
      Act.prems by (simp add: act_def split_beta)
next
  case (RequestApproval args channel ttl k)
  define t where "t = (case channel of Some ch \<Rightarrow> ch | None \<Rightarrow> ac_channel c)"
  have "ac_channel c' = ac_channel c" using RequestApproval.prems(2) by (auto elim: same_viewE)
  then have t: "request_approval ext args channel ttl c = stage_intent ext t args ApprovalKind ttl c"
    "request_approval (replay_surface ext b) args channel ttl c' = stage_intent (replay_surface ext b) t args ApprovalKind ttl c'"
    by (cases channel; simp add: request_approval_def t_def)+
  obtain c1' where "stage_intent (replay_surface ext b) t args ApprovalKind ttl c' = (fst (stage_intent ext t args ApprovalKind ttl c), c1')"
    "same_view mem (snd (stage_intent ext t args ApprovalKind ttl c)) c1'" "ac_cache c1' = ac_cache c'"
    using stage_intent_sim[OF RequestApproval.prems(2)] by blast
  then show ?case
    using RequestApproval.IH[OF rangeI, of "fst (stage_intent ext t args ApprovalKind ttl c)" "snd (stage_intent ext t args ApprovalKind ttl c)" c1' w w']
      RequestApproval.prems by (simp add: t split_beta)
next
  case (CallModel rq k)
  have served: "case request_key (ax_cache ext) rq (ac_key c) (ac_seq c) of Inl e \<Rightarrow> True
      | Inr ck \<Rightarrow> (\<exists>response. look ck = Some response \<and> model_answer ext rq ck c w = Ok response)"
    using CallModel.prems(5) by simp
  obtain c1' where "call_model (replay_surface ext b) rq c' (w', n) = (fst (call_model ext rq c w), c1', w', n)"
    "same_view mem (fst (snd (call_model ext rq c w))) c1'" "offers look (ac_cache c1')"
    using call_model_sim[OF CallModel.prems(2,3,4) served, of b "(w', n)"] by blast
  then show ?case
    using CallModel.IH[OF rangeI, of "fst (call_model ext rq c w)" "fst (snd (call_model ext rq c w))" c1' "snd (snd (call_model ext rq c w))" w']
      CallModel.prems call_budget[OF CallModel.prems(3), of ext rq w] by (simp add: split_beta)
next
  case (RunTool tool args k)
  obtain c1' w1' where "run_tool (replay_surface ext b) tool args c' (w', n) = (fst (run_tool ext tool args c w), c1', w1', n)"
    "same_view mem (fst (snd (run_tool ext tool args c w))) c1'" "ac_cache c1' = ac_cache c'"
    using run_tool_sim[OF RunTool.prems(2) pure] by blast
  then show ?case
    using RunTool.IH[OF rangeI, of "fst (run_tool ext tool args c w)" "fst (snd (run_tool ext tool args c w))" c1' "snd (snd (run_tool ext tool args c w))" w1']
      RunTool.prems by (simp add: split_beta)
next
  case (MemGet key k)
  then have v: "mem" "same_view True c c'" "ac_memory c' = ac_memory c" by (auto simp: same_view_def)
  show ?case
    using MemGet.IH[OF rangeI, of "fst (memory_get key (ac_memory c))" "with_memory (snd (memory_get key (ac_memory c))) c"
        "with_memory (snd (memory_get key (ac_memory c))) c'" w w'] MemGet.prems with_memory_sim[OF v(2)] v(1,3)
    by (simp add: split_beta)
next
  case (MemSet key x k)
  then have v: "mem" "same_view True c c'" "ac_memory c' = ac_memory c" by (auto simp: same_view_def)
  show ?case
    using MemSet.IH[OF rangeI, of "fst (memory_set None key x (ac_memory c))" "with_memory (snd (memory_set None key x (ac_memory c))) c"
        "with_memory (snd (memory_set None key x (ac_memory c))) c'" w w'] MemSet.prems with_memory_sim[OF v(2)] v(1,3) co
    by (simp add: split_beta)
next
  case (MemDelete key a)
  then have v: "mem" "same_view True c c'" "ac_memory c' = ac_memory c" by (auto simp: same_view_def)
  show ?case
    using MemDelete.IH[of "with_memory (memory_delete key (ac_memory c)) c" "with_memory (memory_delete key (ac_memory c)) c'" w w']
      MemDelete.prems with_memory_sim[OF v(2)] v(1,3)
    by simp
next
  case (MemAppend key item m k)
  then have v: "mem" "same_view True c c'" "ac_memory c' = ac_memory c" by (auto simp: same_view_def)
  show ?case
    using MemAppend.IH[OF rangeI, of "fst (memory_append None key item m (ac_memory c))"
        "with_memory (snd (memory_append None key item m (ac_memory c))) c"
        "with_memory (snd (memory_append None key item m (ac_memory c))) c'" w w'] MemAppend.prems with_memory_sim[OF v(2)] v(1,3) co
    by (simp add: split_beta)
next
  case (MemRing key k)
  then have v: "mem" "same_view True c c'" "ac_memory c' = ac_memory c" by (auto simp: same_view_def)
  show ?case
    using MemRing.IH[OF rangeI, of "fst (memory_ring key (ac_memory c))" "with_memory (snd (memory_ring key (ac_memory c))) c"
        "with_memory (snd (memory_ring key (ac_memory c))) c'" w w'] MemRing.prems with_memory_sim[OF v(2)] v(1,3)
    by (simp add: split_beta)
next
  case (StageTrace ev a)
  have tr: "ac_trace c' = ac_trace c" using same_view_fields(5)[OF StageTrace.prems(2)] .
  have "same_view mem (stage_trace ext ev c) (stage_trace (replay_surface ext b) ev c') \<and>
      ac_cache (stage_trace (replay_surface ext b) ev c') = ac_cache c'"
    by (rule stage_trace_sim[OF StageTrace.prems(2) refl])
  then show ?case using StageTrace.IH[of "stage_trace ext ev c" "stage_trace (replay_surface ext b) ev c'" w w'] StageTrace.prems by simp
next
  case (AccumulateUsage u a)
  then show ?case
    using AccumulateUsage.IH[of "accumulate_usage u c" "accumulate_usage u c'" w w'] accumulate_sim[OF AccumulateUsage.prems(2), of u] by simp
qed auto

section \<open>The trace of a run\<close>

definition traced_by :: "trace_event \<Rightarrow> activation_ctx \<Rightarrow> bool" where
  "traced_by start c \<longleftrightarrow>
     (\<exists>rest. ac_traces c = start # rest \<and> (\<forall>e \<in> set rest. te_type e \<in> {LlmCall, ToolCall, IntentEmitted}) \<and>
        map traced_intent (filter (\<lambda>e. te_type e = IntentEmitted) rest) = map replayed_intent (ac_intents c))"

lemma traced_same: "\<lbrakk>traced_by start c; ac_traces c' = ac_traces c; ac_intents c' = ac_intents c\<rbrakk> \<Longrightarrow> traced_by start c'"
  by (simp add: traced_by_def)

lemma traced_with_memory [simp]: "traced_by start (with_memory m c) = traced_by start c"
  by (simp add: traced_by_def with_memory_def)

lemma traced_add:
  "\<lbrakk>traced_by start c; ac_traces c' = ac_traces c @ [e]; ac_intents c' = ac_intents c; te_type e \<in> {LlmCall, ToolCall}\<rbrakk>
   \<Longrightarrow> traced_by start c'"
  by (auto simp: traced_by_def)

lemma event_of_intent: "traced_intent (intent_emitted u tr step i tool kind expires) = [i, tool, kind, dec expires]"
  by (simp add: traced_intent_def attribute_def intent_emitted_def trace_event_of_def stamp_role_def plain_event_def Let_def
      INTENT_ID_def TOOL_NAME_def INTENT_KIND_def EXPIRES_AT_MS_def)

lemma intent_emitted_type [simp]: "te_type (intent_emitted u tr step i tool kind expires) = IntentEmitted"
  by (simp add: intent_emitted_def trace_event_of_def plain_event_def)

lemma traced_stage_intent: "traced_by start c \<Longrightarrow> traced_by start (snd (stage_intent ext tool args kind ttl c))"
  by (auto simp: traced_by_def stage_intent_def advance_step_def event_of_intent replayed_intent_def mint_intent_def Let_def)

lemma traced_stage_trace:
  "\<lbrakk>traced_by start c; te_type ev \<in> {LlmCall, ToolCall}\<rbrakk> \<Longrightarrow> traced_by start (stage_trace ext ev c)"
  by (rule traced_add[where e = "stamp (ax_trace_uuid ext) (ac_trace c) ev"]) (auto simp: stage_trace_def stamp_def)

lemma consume_frame:
  "ac_intents (snd (consume_response ext step hit model response c)) = ac_intents c"
  "ac_memory (snd (consume_response ext step hit model response c)) = ac_memory c"
  "traced_by start c \<Longrightarrow> traced_by start (snd (consume_response ext step hit model response c))"
proof -
  show "ac_intents (snd (consume_response ext step hit model response c)) = ac_intents c"
    "ac_memory (snd (consume_response ext step hit model response c)) = ac_memory c"
    by (auto simp: consume_response_def ctx_charge_def stage_llm_trace_def stage_trace_def Let_def split_beta split: sum.splits option.splits)
  assume t: "traced_by start c"
  have "traced_by start (stage_llm_trace ext step hit model us c)" for us
    unfolding stage_llm_trace_def by (rule traced_stage_trace[OF t]) (simp add: plain_event_def)
  moreover have "traced_by start d \<Longrightarrow> traced_by start (snd (ctx_charge us d))" for us d
    by (auto simp: ctx_charge_def split_beta split: option.splits elim: traced_same)
  ultimately show "traced_by start (snd (consume_response ext step hit model response c))"
    using t by (auto simp: consume_response_def split_beta split: sum.splits)
qed

lemma call_frame:
  "ac_memory (fst (snd (call_model ext rq c w))) = ac_memory c"
  "traced_by start c \<Longrightarrow> traced_by start (fst (snd (call_model ext rq c w)))"
  by (auto simp: call_model_def call_provider_def advance_step_def Let_def split_beta consume_frame
      split: sum.split option.split intro!: consume_frame(3) elim: traced_same)

lemma tool_frame:
  "ac_memory (fst (snd (run_tool ext tool arguments c w))) = ac_memory c"
  "traced_by start c \<Longrightarrow> traced_by start (fst (snd (run_tool ext tool arguments c w)))"
  by (auto simp: run_tool_def Let_def split_beta tool_call_event_def trace_event_of_def plain_event_def
      split: sum.split elim: traced_same elim!: traced_add)

lemma drive_traced:
  "\<lbrakk>replayable mem ag; traced_by start c\<rbrakk> \<Longrightarrow> traced_by start (fst (snd (drive ext ag c w)))"
proof (induction ag arbitrary: c w)
  case (Act tool args ttl k)
  then show ?case using traced_stage_intent[OF Act.prems(2), of ext] by (simp add: act_def split_beta)
next
  case (RequestApproval args channel ttl k)
  then show ?case using traced_stage_intent[OF RequestApproval.prems(2), of ext] by (simp add: request_approval_def split_beta)
next
  case (CallModel rq k)
  then show ?case using call_frame(2)[OF CallModel.prems(2), of ext rq w] by (simp add: split_beta)
next
  case (RunTool tool args k)
  then show ?case using tool_frame(2)[OF RunTool.prems(2), of ext tool args w] by (simp add: split_beta)
next
  case (StageTrace ev a)
  then show ?case using traced_stage_trace[OF StageTrace.prems(2), of ev ext] by simp
next
  case (AccumulateUsage u a)
  then have "traced_by start (accumulate_usage u c)" by (auto simp: accumulate_usage_def Let_def elim: traced_same)
  then show ?case using AccumulateUsage by simp
qed (auto simp: split_beta)

lemma drive_memory: "replayable False ag \<Longrightarrow> ac_memory (fst (snd (drive ext ag c w))) = ac_memory c"
proof (induction ag arbitrary: c w)
  case (Act tool args ttl k)
  then show ?case by (simp add: act_def split_beta stage_intent_def advance_step_def Let_def)
next
  case (RequestApproval args channel ttl k)
  then show ?case by (simp add: request_approval_def split_beta stage_intent_def advance_step_def Let_def)
next
  case (CallModel rq k)
  then show ?case by (simp add: split_beta call_frame)
next
  case (RunTool tool args k)
  then show ?case by (simp add: split_beta tool_frame)
next
  case (StageTrace ev a)
  then show ?case by (simp add: stage_trace_def)
next
  case (AccumulateUsage u a)
  then show ?case by (simp add: accumulate_usage_def Let_def)
qed auto

text \<open>The tail the driver adds: the suspension, and the end with its status.\<close>

lemma conclude_shape:
  assumes "conclude ext inp out c w = (RunOk ar, w1)" and "traced_by start c"
  shows "\<exists>rest e. ar_traces ar = start # rest @ [e] \<and> te_type e = ActivationEnd \<and>
    map_of (te_attrs e) ACTIVATION_STATUS = Some (if ar_suspended ar then ''suspended'' else ''completed'') \<and>
    (\<forall>e \<in> set rest. te_type e \<in> {LlmCall, ToolCall, IntentEmitted, SuspendedEvent}) \<and>
    map traced_intent (filter (\<lambda>e. te_type e = IntentEmitted) rest) = map replayed_intent (ar_intents ar)"
proof -
  obtain rest where r: "ac_traces c = start # rest" "\<forall>e \<in> set rest. te_type e \<in> {LlmCall, ToolCall, IntentEmitted}"
    "map traced_intent (filter (\<lambda>e. te_type e = IntentEmitted) rest) = map replayed_intent (ac_intents c)"
    using assms(2) by (auto simp: traced_by_def)
  show ?thesis
  proof (cases out)
    case (Complete payload)
    then show ?thesis using assms(1) r
      by (intro exI[of _ rest])
         (auto simp: conclude_def result_of_def stage_trace_def stamp_def activation_end_def trace_event_of_def plain_event_def
          Let_def split: prod.splits sum.splits)
  next
    case (Suspend snapshot adapter timeout)
    then show ?thesis using assms(1) r
      by (auto simp: conclude_def result_of_def stage_trace_def stamp_def activation_end_def suspended_event_def
          trace_event_of_def plain_event_def Let_def split: prod.splits sum.splits)
  qed
qed

lemma conclude_sim:
  assumes v: "same_view mem c c'" and "ax_store ext = None" and "conclude ext inp out c w = (RunOk ar, w1)"
    and lt: "\<not> mem \<longrightarrow> ctx_upserts c' = []"
    and same: "ai_now inp' = ai_now inp" "ai_default_timeout inp' = ai_default_timeout inp"
  shows "\<exists>ar'. conclude (replay_surface ext b) inp' out c' W = (RunOk ar', W) \<and> ar_suspended ar' = ar_suspended ar \<and>
    ar_intents ar' = ar_intents ar \<and> ar_outputs ar' = ar_outputs ar \<and>
    map normalize_event (ar_traces ar') = map normalize_event (ar_traces ar)"
proof -
  obtain m ca tr ta where c': "c' = c\<lparr>ac_memory := m, ac_cache := ca, ac_traces := tr, ac_tally := ta\<rparr>"
    and m: "mem \<longrightarrow> m = ac_memory c" and tr: "map normalize_event tr = map normalize_event (ac_traces c)"
    using v by (rule same_viewE)
  have "ctx_upserts c = []" using assms(2,3)
    by (auto simp: conclude_def flush_longterm_def ctx_upserts_def stage_trace_def Let_def split: outcome.splits if_splits)
  then have u: "longterm_staged m = []" using m lt by (cases mem) (auto simp: ctx_upserts_def c')
  show ?thesis
  proof (cases out)
    case (Complete payload)
    then show ?thesis using assms(2,3) u tr
      by (auto simp: conclude_def flush_longterm_def ctx_upserts_def stage_trace_def result_of_def c' Let_def split: if_splits)
  next
    case (Suspend snapshot adapter timeout)
    have dl: "suspend_deadline inp' timeout c' = suspend_deadline inp timeout c" using same by (cases timeout) (simp_all add: suspend_deadline_def c')
    show ?thesis using assms(2,3) u tr Suspend dl
      by (auto simp: conclude_def flush_longterm_def ctx_upserts_def stage_trace_def result_of_def build_continuation_def c' Let_def
          split: if_splits)
  qed
qed

section \<open>A run and its re-run\<close>

definition run_served ::
  "'w act_ext \<Rightarrow> (string \<Rightarrow> bytes option) \<Rightarrow> agent \<Rightarrow> activation_input \<Rightarrow> 'w \<Rightarrow> bool" where
  "run_served ext look agent inp w \<longleftrightarrow>
     (case context_init ext inp of
        Inl e \<Rightarrow> True
      | Inr c0 \<Rightarrow> served ext look agent (stage_trace ext (start_event ext (ai_trigger inp) c0) c0) w)"

definition snapshot_responses :: "rc_ext \<Rightarrow> state_snapshot \<Rightarrow> msec \<Rightarrow> string \<Rightarrow> bytes option" where
  "snapshot_responses ext sn now_ms = cached_response (cache_init ext (sn_cache sn) now_ms)"

lemma rerun_same:
  assumes run: "run_activation ext None agent inp w = (RunOk ar, w1)"
    and inp: "inp = (replay_input b)\<lparr>ai_memory := m, ai_cache := cb\<rparr>"
    and store: "ax_store ext = None" and pure: "pure_tools ext" and co: "mem \<longrightarrow> ax_compactor ext = None"
    and agent: "replayable mem agent" and mem: "mem \<longrightarrow> m = sn_memory (rb_snapshot b)"
    and served: "run_served ext (snapshot_responses (ax_cache ext) (rb_snapshot b) (rb_now b)) agent inp w"
  shows "\<exists>ar' w''. run_activation (replay_surface ext b) None agent (replay_input b) (w', 0) = (RunOk ar', w'', 0) \<and>
      ar_suspended ar' = ar_suspended ar \<and> ar_intents ar' = ar_intents ar \<and> ar_outputs ar' = ar_outputs ar \<and>
      map normalize_event (ar_traces ar') = map normalize_event (ar_traces ar)"
    and "\<exists>s rest e. ar_traces ar = s # rest @ [e] \<and> te_type s = ActivationStart \<and> te_start s = rb_now b \<and> te_type e = ActivationEnd \<and>
      map_of (te_attrs e) ACTIVATION_STATUS = Some (if ar_suspended ar then ''suspended'' else ''completed'') \<and>
      (\<forall>e \<in> set rest. te_type e \<in> {LlmCall, ToolCall, IntentEmitted, SuspendedEvent}) \<and>
      map traced_intent (filter (\<lambda>e. te_type e = IntentEmitted) rest) = map replayed_intent (ar_intents ar)"
proof -
  let ?R = "replay_surface ext b"
  obtain c0 where c0: "context_init ext inp = Ok c0" using run by (auto simp: run_activation_def split: sum.splits)
  obtain c0' where c0': "context_init ?R (replay_input b) = Ok c0'"
    by (simp add: context_init_def replay_input_def budget_of_def)
  have v0: "same_view mem c0 c0'" and budget: "ac_budget c0 = None" and longterm: "ctx_upserts c0' = []"
    and cache: "ac_cache c0' = cache_init (ax_cache ext) (sn_cache (rb_snapshot b)) (rb_now b)"
    and plain: "ac_events c0 = None" "ac_traces c0 = []" "ac_intents c0 = []" "at_now (ac_trace c0) = rb_now b"
    using c0 c0' mem store
    by (auto simp: context_init_def inp replay_input_def budget_of_def same_view_def ctx_upserts_def longterm_staged_def
        memory_init_def trace_init_def split_beta)
  let ?e = "start_event ext (ai_trigger inp) c0"
  let ?c = "stage_trace ext ?e c0" and ?c' = "stage_trace ?R (start_event ?R (ai_trigger (replay_input b)) c0') c0'"
  have ev: "start_event ?R (ai_trigger (replay_input b)) c0' = ?e"
    using v0 plain(1) same_view_fields(5)[OF v0] by (auto simp: start_event_def is_batch_def elim: same_viewE)
  have v: "same_view mem ?c ?c'" "ac_cache ?c' = ac_cache c0'" unfolding ev
    using stage_trace_sim[OF v0 refl] same_view_fields(5)[OF v0] by auto
  have o: "offers (snapshot_responses (ax_cache ext) (rb_snapshot b) (rb_now b)) (ac_cache ?c')"
    by (simp add: offers_def v(2) cache snapshot_responses_def)
  have sv: "served ext (snapshot_responses (ax_cache ext) (rb_snapshot b) (rb_now b)) agent ?c w"
    using served c0 by (simp add: run_served_def)
  obtain out c1 w2 where d: "drive ext agent ?c w = (Ok out, c1, w2)" and k: "conclude ext inp out c1 w2 = (RunOk ar, w1)"
    using run c0 by (auto simp: run_activation_def after_agent_def split: prod.splits sum.splits)
  obtain c1' w1' where d': "drive ?R agent ?c' (w', 0) = (Ok out, c1', w1', 0)" and v1: "same_view mem c1 c1'"
    using drive_sim[OF pure co agent v(1) _ o sv, of b w' 0] budget d by auto
  have "\<not> mem \<longrightarrow> ctx_upserts c1' = []"
  proof
    assume "\<not> mem"
    then have "ac_memory c1' = ac_memory ?c'" using drive_memory[of agent ?R ?c' "(w', 0)"] agent d' by simp
    then show "ctx_upserts c1' = []" using longterm by (simp add: ctx_upserts_def stage_trace_def)
  qed
  from conclude_sim[OF v1 store k this, of "replay_input b" b "(w1', 0)"]
  obtain ar' where "conclude ?R (replay_input b) out c1' (w1', 0) = (RunOk ar', w1', 0)" "ar_suspended ar' = ar_suspended ar"
    "ar_intents ar' = ar_intents ar" "ar_outputs ar' = ar_outputs ar"
    "map normalize_event (ar_traces ar') = map normalize_event (ar_traces ar)"
    by (auto simp: inp)
  then show "\<exists>ar' w''. run_activation ?R None agent (replay_input b) (w', 0) = (RunOk ar', w'', 0) \<and>
      ar_suspended ar' = ar_suspended ar \<and> ar_intents ar' = ar_intents ar \<and> ar_outputs ar' = ar_outputs ar \<and>
      map normalize_event (ar_traces ar') = map normalize_event (ar_traces ar)"
    using c0' d' by (simp add: run_activation_def after_agent_def)
  let ?s = "stamp (ax_trace_uuid ext) (ac_trace c0) ?e"
  have "traced_by ?s ?c" using plain by (simp add: traced_by_def stage_trace_def)
  then have "traced_by ?s c1" using drive_traced[OF agent, of ?s ?c ext w] d by simp
  moreover have "te_type ?s = ActivationStart" "te_start ?s = rb_now b"
    using plain by (simp_all add: start_event_def is_batch_def activation_start_def trace_event_of_def plain_event_def
        stamp_def stamp_role_def Let_def)
  ultimately show "\<exists>s rest e. ar_traces ar = s # rest @ [e] \<and> te_type s = ActivationStart \<and> te_start s = rb_now b \<and> te_type e = ActivationEnd \<and>
      map_of (te_attrs e) ACTIVATION_STATUS = Some (if ar_suspended ar then ''suspended'' else ''completed'') \<and>
      (\<forall>e \<in> set rest. te_type e \<in> {LlmCall, ToolCall, IntentEmitted, SuspendedEvent}) \<and>
      map traced_intent (filter (\<lambda>e. te_type e = IntentEmitted) rest) = map replayed_intent (ar_intents ar)"
    using conclude_shape[OF k] by blast
qed

section \<open>A clean comparison\<close>

lemma no_divergence:
  "map normalize_event rs = map normalize_event ls \<Longrightarrow> first_divergence serialize i ls rs = []"
  by (induction serialize i ls rs rule: first_divergence.induct) auto

lemma mismatched_self [simp]: "mismatched l l = []"
proof -
  have "filter (\<lambda>(_, a, b). a \<noteq> b) (zip ns (zip l l)) = []" for ns :: "string list"
    by (auto simp: filter_empty_conv zip_same_conv_map dest!: set_zip_rightD)
  then show ?thesis by (simp add: mismatched_def)
qed

lemma no_intent_differences:
  "map traced_intent (filter (\<lambda>e. te_type e = IntentEmitted) traced) = map replayed_intent intents \<Longrightarrow>
   intent_differences traced intents = []"
  by (auto simp: intent_differences_def Let_def zip_same_conv_map enumerate_eq_zip dest!: set_zip_rightD)

lemma compare_clean:
  assumes "rb_traced b = s # rest @ [e]" and "te_type s = ActivationStart" and "te_type e = ActivationEnd"
    and "map_of (te_attrs e) ACTIVATION_STATUS = Some (ro_status o1)"
    and "\<forall>e \<in> set rest. te_type e \<in> {LlmCall, ToolCall, IntentEmitted, SuspendedEvent}"
    and "map traced_intent (filter (\<lambda>e. te_type e = IntentEmitted) rest) = map replayed_intent (ro_intents o1)"
    and "map normalize_event (ro_traces o1) = map normalize_event (rb_traced b)"
  shows "reproduced (compare dx b o1)"
proof -
  have none: "\<not> list_ex (\<lambda>e. te_type e = ErrorEvent) (rb_traced b)" "filter (\<lambda>e. te_type e = ActivationEnd) (rb_traced b) = [e]"
    using assms(1-3,5) by (fastforce simp: list_ex_iff filter_empty_conv)+
  have "status_differences (rb_traced b) (ro_status o1) = []"
    using none assms(4) by (simp add: status_differences_def traced_status_def)
  moreover have "length (ro_traces o1) = length (rb_traced b)" using arg_cong[OF assms(7), of length] by simp
  then have "event_differences (dx_event dx) (rb_traced b) (ro_traces o1) = []"
    using no_divergence[OF assms(7)] by (simp add: event_differences_def)
  moreover have "intent_differences (rb_traced b) (ro_intents o1) = []"
    using assms(1-3,6) by (intro no_intent_differences) simp
  ultimately show ?thesis by (simp add: reproduced_def compare_def Let_def)
qed

lemma one_attempt:
  assumes "te_type s = ActivationStart" and "\<forall>e \<in> set rest. te_type e \<noteq> ActivationStart"
  shows "select_attempt (s # rest) resuming = s # rest"
proof -
  have "group_attempts [pre] es = [pre @ es]" if "\<forall>e \<in> set es. te_type e \<noteq> ActivationStart" for pre es
    using that by (induction es arbitrary: pre) auto
  then have "group_attempts [] (s # rest) = [s # rest]" using assms by simp
  then show ?thesis by (simp add: select_attempt_def)
qed

section \<open>Faithful replay\<close>

definition traces_in :: "emission list \<Rightarrow> trace_event list" where
  "traces_in es = concat (map (\<lambda>e. case e of TraceOut t \<Rightarrow> [t] | _ \<Rightarrow> []) es)"

definition outputs_in :: "emission list \<Rightarrow> bytes list" where
  "outputs_in es = concat (map (\<lambda>e. case e of MainOut b \<Rightarrow> [b] | _ \<Rightarrow> []) es)"

text \<open>The configuration a replay assumes, since its command line carries none.\<close>

definition replay_config :: "'w dofn \<Rightarrow> bool" where
  "replay_config d \<longleftrightarrow>
     df_batch d = None \<and> df_summarizer d = None \<and> df_max_tokens d = None \<and> ax_store (df_ext d) = None \<and>
     hp_intent_ttl (df_policy d) = DEFAULT_INTENT_TTL_MS \<and> hp_channel (df_policy d) = DEFAULT_APPROVAL_CHANNEL \<and>
     hp_timeout (df_policy d) = DEFAULT_HITL_TIMEOUT_MS \<and> pure_tools (df_ext d)"

definition event_input :: "'w dofn \<Rightarrow> bytes \<Rightarrow> msec \<Rightarrow> bytes \<Rightarrow> memory_blob option \<Rightarrow> llm_cache_blob option \<Rightarrow> kstate \<Rightarrow> activation_input" where
  "event_input d key t ev m cb ks = (base_input d key (ks_seq ks) t m cb)\<lparr>ai_event := ev\<rparr>"

lemma commits_only_success:
  assumes "df_batch d = None" and "si_timeout si = None"
    and "migrate_memory (ks_memory ks) = Ok m" and "migrate_cache (ks_cache ks) = Ok cb"
    and "process d si key \<lparr>env_key = key, env_time = t, env_payload = Some (ExternalEvent ev)\<rparr> ks w = (Ok so, w1)"
    and "ks_seq (so_state so) = ks_seq ks + 1"
  shows "\<exists>ar. fst (run_activation (df_ext d) (df_summarizer d) (df_agent d) (event_input d key t ev m cb ks)
      (snd (ax_clock (df_ext d) w))) = RunOk ar \<and>
    so_emits so = map MainOut (ar_outputs ar) @ map IntentOut (ar_intents ar) @ map TraceOut (ar_traces ar)"
  using assms
  by (auto simp: process_def payload_event_def start_activation_def activate_def after_def commit_def emit_only_def
      event_input_def Let_def split_beta split: run_result.splits prod.splits)

lemma emits_of [simp]:
  "traces_in (map MainOut os @ map IntentOut is @ map TraceOut ts) = ts"
  "outputs_in (map MainOut os @ map IntentOut is @ map TraceOut ts) = os"
  "intents_in (map MainOut os @ map IntentOut is @ map TraceOut ts) = is"
  by (induction os; induction "is"; induction ts; simp add: traces_in_def outputs_in_def intents_in_def)+

text \<open>Any bundle that holds the element's inputs re-runs to the same effects, whatever its traced record.\<close>

lemma rerun_effects:
  assumes "replay_config d" and "si_timeout si = None"
    and "migrate_memory (ks_memory ks) = Ok m" and "migrate_cache (ks_cache ks) = Ok cb"
    and env: "env = \<lparr>env_key = key, env_time = t, env_payload = Some (ExternalEvent ev)\<rparr>"
    and "process d si key env ks w = (Ok so, w1)" and "ks_seq (so_state so) = ks_seq ks + 1"
    and agent: "replayable mem (df_agent d)" and mem: "mem \<longrightarrow> sn_memory sn = m \<and> ax_compactor (df_ext d) = None"
    and served: "run_served (df_ext d) (snapshot_responses (ax_cache (df_ext d)) sn t) (df_agent d)
      (event_input d key t ev m cb ks) (snd (ax_clock (df_ext d) w))"
    and b: "b = \<lparr>rb_snapshot = sn, rb_envelope = env, rb_key = key, rb_seq = ks_seq ks, rb_now = t,
      rb_traced = traced, rb_is_resume = False, rb_step = 0, rb_adapter = []\<rparr>"
  shows "\<exists>o1 w'' s rest e. run_replay rx (df_ext d) (df_agent d) b w' = (Ok o1, w'') \<and> ro_calls o1 = 0 \<and>
    ro_intents o1 = intents_in (so_emits so) \<and> ro_outputs o1 = outputs_in (so_emits so) \<and>
    map normalize_event (ro_traces o1) = map normalize_event (traces_in (so_emits so)) \<and>
    traces_in (so_emits so) = s # rest @ [e] \<and> te_type s = ActivationStart \<and> te_start s = t \<and> te_type e = ActivationEnd \<and>
    map_of (te_attrs e) ACTIVATION_STATUS = Some (ro_status o1) \<and> ro_status o1 \<noteq> ''failed'' \<and>
    (\<forall>e \<in> set rest. te_type e \<in> {LlmCall, ToolCall, IntentEmitted, SuspendedEvent}) \<and>
    map traced_intent (filter (\<lambda>e. te_type e = IntentEmitted) rest) = map replayed_intent (ro_intents o1)"
proof -
  note cfg = assms(1)[unfolded replay_config_def]
  obtain ar where ar: "fst (run_activation (df_ext d) None (df_agent d) (event_input d key t ev m cb ks)
      (snd (ax_clock (df_ext d) w))) = RunOk ar"
    and emits: "so_emits so = map MainOut (ar_outputs ar) @ map IntentOut (ar_intents ar) @ map TraceOut (ar_traces ar)"
    using commits_only_success[of d si ks m cb key t ev w so w1] assms(2-4,6,7) cfg env by auto
  obtain w2 where run: "run_activation (df_ext d) None (df_agent d) (event_input d key t ev m cb ks)
      (snd (ax_clock (df_ext d) w)) = (RunOk ar, w2)"
    using ar by (metis prod.collapse)
  have inp: "event_input d key t ev m cb ks = (replay_input b)\<lparr>ai_memory := m, ai_cache := cb\<rparr>"
    using cfg by (simp add: event_input_def base_input_def replay_input_def b env payload_event_def)
  have sel: "rb_snapshot b = sn" "rb_now b = t" by (simp_all add: b)
  have pre: "ax_store (df_ext d) = None" "pure_tools (df_ext d)" "mem \<longrightarrow> ax_compactor (df_ext d) = None" "mem \<longrightarrow> m = sn_memory sn"
    using cfg mem by auto
  note same = rerun_same[OF run inp pre(1-3) agent, unfolded sel, OF pre(4) served]
  obtain ar' w'' where re: "run_activation (replay_surface (df_ext d) b) None (df_agent d) (replay_input b) (w', 0) = (RunOk ar', w'', 0)"
    "ar_suspended ar' = ar_suspended ar" "ar_intents ar' = ar_intents ar" "ar_outputs ar' = ar_outputs ar"
    "map normalize_event (ar_traces ar') = map normalize_event (ar_traces ar)"
    using same(1) by blast
  define o1 where "o1 = \<lparr>ro_status = (if ar_suspended ar' then ''suspended'' else ''completed''), ro_traces = ar_traces ar',
      ro_intents = ar_intents ar', ro_outputs = ar_outputs ar', ro_memory = ar_memory ar', ro_calls = 0, ro_failure = None, ro_error = []\<rparr>"
  have "run_replay rx (df_ext d) (df_agent d) b w' = (Ok o1, w'')" using re(1) by (simp add: run_replay_def o1_def)
  moreover obtain s rest e where "ar_traces ar = s # rest @ [e]" "te_type s = ActivationStart" "te_start s = t" "te_type e = ActivationEnd"
    "map_of (te_attrs e) ACTIVATION_STATUS = Some (if ar_suspended ar then ''suspended'' else ''completed'')"
    "\<forall>e \<in> set rest. te_type e \<in> {LlmCall, ToolCall, IntentEmitted, SuspendedEvent}"
    "map traced_intent (filter (\<lambda>e. te_type e = IntentEmitted) rest) = map replayed_intent (ar_intents ar)"
    using same(2) by blast
  moreover have "traces_in (so_emits so) = ar_traces ar" "outputs_in (so_emits so) = ar_outputs ar" "intents_in (so_emits so) = ar_intents ar"
    using emits by simp_all
  ultimately show ?thesis using re(2-5)
    by (intro exI[of _ o1] exI[of _ w''] exI[of _ s] exI[of _ rest] exI[of _ e]) (simp add: o1_def)
qed

text \<open>The bundle of an element whose events the stream holds, followed by events of no new attempt.\<close>

lemma bundle_of_start:
  assumes "filter (\<lambda>e. te_key e = key \<and> te_seq e = q) stream = s # later" and "sn_key sn = key"
    and "te_type s = ActivationStart" and "te_start s = t" and "\<forall>e \<in> set later. te_type e \<noteq> ActivationStart"
  shows "build_bundle sn stream \<lparr>env_key = key, env_time = t, env_payload = Some (ExternalEvent ev)\<rparr> (Some q) =
    Ok \<lparr>rb_snapshot = sn, rb_envelope = \<lparr>env_key = key, env_time = t, env_payload = Some (ExternalEvent ev)\<rparr>, rb_key = key,
      rb_seq = q, rb_now = t, rb_traced = s # later, rb_is_resume = False, rb_step = 0, rb_adapter = []\<rparr>"
proof -
  have scoped: "filter (\<lambda>e. te_seq e = q) (filter (\<lambda>e. te_key e = key) stream) = s # later"
    using assms(1) by (simp add: conj_commute)
  then have "filter (\<lambda>e. te_key e = key) stream \<noteq> []" by (metis filter.simps(1) list.discI)
  then show ?thesis using scoped one_attempt[OF assms(3,5)] assms(2-4)
    by (simp add: build_bundle_def resumes_def resume_inputs_def recover_now_ms_def)
qed

end
