(* ===== verification/Replay_Scenario.thy ===== *)
theory Replay_Scenario
  imports Replay_Faithful
begin

text \<open>
  What replay promises, on a concrete element replayed end to end: an agent that asks the model,
  requests a payment and completes, its committed trace and the snapshot exported after it. Then
  an attempt that a later error joins, and verdicts without a provider.
\<close>

definition asking_request :: llm_request where
  "asking_request = \<lparr>rq_model = ''m'', rq_messages = JList [JStr ''hi''], rq_tools = JList [], rq_params = JObj []\<rparr>"

definition asking_agent :: agent where
  "asking_agent = CallModel asking_request (\<lambda>r. case r of
       Inl e \<Rightarrow> Raise e | Inr x \<Rightarrow> Act ''pay'' ''{}'' None (\<lambda>i. Return (Complete [2])))"

definition asking :: "unit dofn" where
  "asking = (demo None)\<lparr>df_agent := asking_agent\<rparr>"

lemma asking_key: "\<exists>ck. request_key (ax_cache demo_ext) asking_request [1] 0 = Ok ck"
  by (simp add: request_key_def compute_cache_key_def cache_document_def asking_request_def)

definition asking_key_text :: string where
  "asking_key_text = projr (request_key (ax_cache demo_ext) asking_request [1] 0)"

lemma asking_key_ok: "request_key (ax_cache demo_ext) asking_request [1] 0 = Ok asking_key_text"
  using asking_key by (auto simp: asking_key_text_def)

definition asking_cache :: llm_cache_blob where
  "asking_cache =
     \<lparr>cb_version = 1,
      cb_entries = [\<lparr>lc_key = asking_key_text, lc_response = [1], lc_digest = [1], lc_created = 5, lc_access = 5,
                     lc_digest_only = False\<rparr>],
      cb_total = 1\<rparr>"

lemma asking_put:
  "cache_to_blob (cache_put (ax_cache demo_ext) asking_key_text [1]
     \<lparr>rc_now = 5, rc_entries = [], rc_response_total = 0, rc_wire_total = 0, rc_dirty = False\<rparr>) = asking_cache"
  by (simp add: cache_put_def purge_expired_def choose_entry_def fresh_entry_def with_wire_def entry_wire_size_def
      blob_header_size_def varint_len.simps demo_ext_def cache_insert_def cache_remove_def evict_over_count.simps
      evict_over_bytes.simps prospective_blob_size_def cache_to_blob_def to_proto_def asking_cache_def
      CURRENT_STATE_SCHEMA_VERSION_def BLOB_CAP_BYTES_def MAX_ENTRIES_def Let_def)

lemmas asking_defs = asking_def asking_agent_def call_model_def call_provider_def consume_response_def decoded_usage_def
  ctx_charge_def stage_llm_trace_def check_opt_def cache_get_def plain_event_def

lemma asking_commits:
  "\<exists>so. process asking tick [1] (demo_event 5) empty_kstate () = (Ok so, ()) \<and> ks_seq (so_state so) = 1 \<and>
     ks_cache (so_state so) = Some asking_cache \<and> intents_in (so_emits so) = [payment 1 \<lparr>ti_id := intent_id_for (\<lambda>s. s) [1] 0 1, ti_seq := 0, ti_step := 1, ti_trace := trace_id_for utf8 [1] 0\<rparr>] \<and>
     (\<forall>e \<in> set (traces_in (so_emits so)). te_key e = [1] \<and> te_seq e = 0)"
  using asking_key_ok asking_put
  by (simp add: engine_defs asking_defs demo_defs empty_kstate_def asking_request_def payment_def intents_in_def traces_in_def
      activation_start_def activation_end_def intent_emitted_def trace_event_of_def stamp_def plain_event_def)

definition asking_snapshot :: state_snapshot where
  "asking_snapshot = build_snapshot [1] 1 6 ''r'' None (Some asking_cache) None []"

lemma asking_config: "replay_config asking"
  by (simp add: replay_config_def asking_def demo_def demo_ext_def demo_policy_def default_policy_def pure_tools_def)

lemma asking_agent_replayable: "replayable False (df_agent asking)"
  by (auto simp: asking_def asking_agent_def split: sum.split)

lemma asking_served:
  "run_served (df_ext asking) (snapshot_responses (ax_cache (df_ext asking)) asking_snapshot 5) (df_agent asking)
     (event_input asking [1] 5 [9] None None empty_kstate) (snd (ax_clock (df_ext asking) ()))"
proof -
  have "snapshot_responses (ax_cache demo_ext) asking_snapshot 5 asking_key_text = Some [1]"
    by (simp add: snapshot_responses_def asking_snapshot_def build_snapshot_def asking_cache_def cache_init_def
        load_cache_entry_def cached_response_def is_expired_def with_wire_def TTL_MS_def Let_def)
  then show ?thesis using asking_key_ok
    by (simp add: run_served_def event_input_def asking_def asking_agent_def demo_def engine_defs empty_kstate_def model_answer_def
        cached_response_def split_beta) (simp add: demo_ext_def split_beta split: sum.split)
qed

section \<open>Properties\<close>


definition no_replay_ext :: replay_ext where
  "no_replay_ext = \<lparr>rp_snapshot = (\<lambda>_. None), rp_envelope = (\<lambda>_. None), rp_event = (\<lambda>_. None), rp_causes = (\<lambda>_. []),
     rp_type_name = (\<lambda>_. ''E'')\<rparr>"

definition span_diff_ext :: diff_ext where
  "span_diff_ext = \<lparr>dx_event = te_span, dx_memory = (\<lambda>_. []), dx_sha256 = (\<lambda>b. b)\<rparr>"


text \<open>
  C40: An error event that a later step of the key recorded at the same sequence number, such as the
  expiry of the suspension's own wait, joins the attempt of the start: the re-run reproduces every
  effect without reaching a provider, and is still reported as diverged.
\<close>

theorem late_error_diverges:
  assumes "replay_config d" and "si_timeout si = None"
    and "migrate_memory (ks_memory ks) = Ok m" and "migrate_cache (ks_cache ks) = Ok cb"
    and env: "env = \<lparr>env_key = key, env_time = t, env_payload = Some (ExternalEvent ev)\<rparr>"
    and "process d si key env ks w = (Ok so, w1)" and "ks_seq (so_state so) = ks_seq ks + 1"
    and agent: "replayable mem (df_agent d)" and mem: "mem \<longrightarrow> sn_memory sn = m \<and> ax_compactor (df_ext d) = None"
    and served: "run_served (df_ext d) (snapshot_responses (ax_cache (df_ext d)) sn t) (df_agent d)
      (event_input d key t ev m cb ks) (snd (ax_clock (df_ext d) w))"
    and key: "sn_key sn = key"
    and stream: "filter (\<lambda>e. te_key e = key \<and> te_seq e = ks_seq ks) stream = traces_in (so_emits so) @ [err]"
    and err: "te_type err = ErrorEvent"
  shows "\<exists>b o1 w''. build_bundle sn stream env (Some (ks_seq ks)) = Ok b \<and>
    run_replay rx (df_ext d) (df_agent d) b w' = (Ok o1, w'') \<and> ro_calls o1 = 0 \<and>
    ro_intents o1 = intents_in (so_emits so) \<and> ro_outputs o1 = outputs_in (so_emits so) \<and>
    \<not> reproduced (compare dx b o1)"
proof -
  define b where "b = \<lparr>rb_snapshot = sn, rb_envelope = env, rb_key = key, rb_seq = ks_seq ks, rb_now = t,
    rb_traced = traces_in (so_emits so) @ [err], rb_is_resume = False, rb_step = 0, rb_adapter = []\<rparr>"
  obtain o1 w'' s rest e where o1: "run_replay rx (df_ext d) (df_agent d) b w' = (Ok o1, w'')" "ro_calls o1 = 0"
    "ro_intents o1 = intents_in (so_emits so)" "ro_outputs o1 = outputs_in (so_emits so)"
    and shape: "traces_in (so_emits so) = s # rest @ [e]" "te_type s = ActivationStart" "te_start s = t" "te_type e = ActivationEnd"
    "ro_status o1 \<noteq> ''failed''" "\<forall>e \<in> set rest. te_type e \<in> {LlmCall, ToolCall, IntentEmitted, SuspendedEvent}"
    using rerun_effects[OF assms(1-10) b_def] by metis
  have "\<forall>e \<in> set (rest @ [e, err]). te_type e \<noteq> ActivationStart" using shape(4,6) err by force
  then have "build_bundle sn stream env (Some (ks_seq ks)) = Ok b"
    using bundle_of_start[of key "ks_seq ks" stream s "rest @ [e, err]" sn t ev] stream key shape(1-3) by (simp add: b_def env)
  moreover have "\<not> reproduced (compare dx b o1)"
    using err shape(5) by (simp add: reproduced_def compare_def status_differences_def traced_status_def b_def Let_def)
  ultimately show ?thesis using o1 by blast
qed

lemma demo_agent_replayable: "replayable False (df_agent (demo None))"
  by (auto simp: demo_def demo_agent_def is_resume_def elim!: same_viewE)

theorem late_error_diverges_witness:
  "\<exists>so err b o1. process (demo None) tick [1] (demo_event 5) empty_kstate () = (Ok so, ()) \<and>
     error_trace (demo None) [1] 0 3600005 REASON_HITL_TIMEOUT [] (Some ROLE_TIMER) None = TraceOut err \<and>
     build_bundle asking_snapshot (traces_in (so_emits so) @ [err]) (demo_event 5) (Some 0) = Ok b \<and>
     run_replay no_replay_ext (df_ext (demo None)) (df_agent (demo None)) b () = (Ok o1, ()) \<and>
     length (ro_intents o1) = 1 \<and> \<not> reproduced (compare span_diff_ext b o1)"
proof -
  obtain so where so: "process (demo None) tick [1] (demo_event 5) empty_kstate () = (Ok so, ())" "ks_seq (so_state so) = 1"
    "length (intents_in (so_emits so)) = 1" "\<forall>e \<in> set (traces_in (so_emits so)). te_key e = [1] \<and> te_seq e = 0"
    by (simp add: engine_defs demo_defs empty_kstate_def intents_in_def traces_in_def activation_start_def activation_end_def
        intent_emitted_def suspended_event_def trace_event_of_def stamp_def plain_event_def)
  have m: "migrate_memory (ks_memory empty_kstate) = Ok None" "migrate_cache (ks_cache empty_kstate) = Ok None"
    by (simp_all add: empty_kstate_def migrate_memory_def migrate_cache_def)
  obtain err where err: "error_trace (demo None) [1] 0 3600005 REASON_HITL_TIMEOUT [] (Some ROLE_TIMER) None = TraceOut err"
    "te_type err = ErrorEvent" "te_key err = [1]" "te_seq err = 0"
    by (simp add: error_trace_def error_event_def trace_event_of_def plain_event_def trace_init_def Let_def)
  have s: "filter (\<lambda>e. te_key e = [1] \<and> te_seq e = ks_seq empty_kstate) (traces_in (so_emits so) @ [err]) = traces_in (so_emits so) @ [err]"
    using so(4) err by (simp add: filter_id_conv empty_kstate_def)
  have cfg: "replay_config (demo None)"
    by (simp add: replay_config_def demo_def demo_ext_def demo_policy_def default_policy_def pure_tools_def)
  have served: "run_served (df_ext (demo None)) (snapshot_responses (ax_cache (df_ext (demo None))) asking_snapshot 5) (df_agent (demo None))
     (event_input (demo None) [1] 5 [9] None None empty_kstate) (snd (ax_clock (df_ext (demo None)) ()))"
    by (simp add: run_served_def event_input_def demo_def demo_agent_def engine_defs empty_kstate_def split_beta)
  have "si_timeout tick = None" by (simp add: tick_def)
  from late_error_diverges[OF cfg this m demo_event_def so(1) _ demo_agent_replayable _ served _ s err(2),
      where rx = no_replay_ext and w' = "()" and dx = span_diff_ext] so err(1)
  show ?thesis by (force simp: empty_kstate_def asking_snapshot_def build_snapshot_def)
qed

section \<open>Verdicts without a provider\<close>

text \<open>An agent that lets the exception of a model call through.\<close>

primrec lets_through :: "agent \<Rightarrow> bool" where
  "lets_through (Return out) \<longleftrightarrow> True"
| "lets_through (Raise e) \<longleftrightarrow> True"
| "lets_through (Inspect k) \<longleftrightarrow> (\<forall>c. lets_through (k c))"
| "lets_through (Act tool args ttl k) \<longleftrightarrow> (\<forall>i. lets_through (k i))"
| "lets_through (RequestApproval args channel ttl k) \<longleftrightarrow> (\<forall>i. lets_through (k i))"
| "lets_through (CallModel rq k) \<longleftrightarrow> (\<forall>e. k (Inl e) = Raise e) \<and> (\<forall>r. lets_through (k r))"
| "lets_through (RunTool tool args k) \<longleftrightarrow> (\<forall>r. lets_through (k r))"
| "lets_through (MemGet key k) \<longleftrightarrow> (\<forall>r. lets_through (k r))"
| "lets_through (MemSet key v k) \<longleftrightarrow> (\<forall>r. lets_through (k r))"
| "lets_through (MemDelete key a) \<longleftrightarrow> lets_through a"
| "lets_through (MemAppend key item n k) \<longleftrightarrow> (\<forall>r. lets_through (k r))"
| "lets_through (MemRing key k) \<longleftrightarrow> (\<forall>r. lets_through (k r))"
| "lets_through (LongtermSave key v k) \<longleftrightarrow> (\<forall>r. lets_through (k r))"
| "lets_through (LongtermLoad key k) \<longleftrightarrow> (\<forall>r. lets_through (k r))"
| "lets_through (LongtermSearch pre limit k) \<longleftrightarrow> (\<forall>r. lets_through (k r))"
| "lets_through (StageTrace ev a) \<longleftrightarrow> lets_through a"
| "lets_through (AccumulateUsage u a) \<longleftrightarrow> lets_through a"

definition in_scope :: "replay_bundle \<Rightarrow> activation_ctx \<Rightarrow> bool" where
  "in_scope b c \<longleftrightarrow> ac_key c = rb_key b \<and> ac_seq c = rb_seq b"

lemma in_scope_grows: "\<lbrakk>in_scope b c; grows ext c c'\<rbrakk> \<Longrightarrow> in_scope b c'"
  by (simp add: in_scope_def grows_def scope_of_def)

lemma in_scope_frame [simp]:
  "in_scope b (with_memory m c) = in_scope b c"
  "in_scope b (accumulate_usage u c) = in_scope b c"
  "in_scope b (stage_trace ext ev c) = in_scope b c"
  "in_scope b (snd (stage_intent ext tool args kind ttl c)) = in_scope b c"
  "in_scope b (fst (snd (run_tool ext tool arguments c w))) = in_scope b c"
  "in_scope b (snd (ctx_longterm_save key v c)) = in_scope b c"
  by (simp_all add: in_scope_def with_memory_def accumulate_usage_def stage_trace_def stage_intent_def advance_step_def
      run_tool_def ctx_longterm_save_def Let_def split_beta split: sum.split)

lemma consume_scope: "in_scope b (snd (consume_response ext step hit model response c)) = in_scope b c"
  by (auto simp: in_scope_def consume_response_def ctx_charge_def stage_llm_trace_def stage_trace_def Let_def split_beta
      split: sum.split option.split)

lemma call_scope: "in_scope b c \<Longrightarrow> in_scope b (fst (snd (call_model ext rq c w)))"
  by (simp add: call_model_def call_provider_def advance_step_def Let_def split_beta consume_scope
      split: sum.split option.split) (simp add: in_scope_def)

lemma call_counts:
  assumes "in_scope b c"
  shows "snd (snd (snd (call_model (replay_surface ext b) rq c (w, n)))) = n \<or>
    (\<exists>k dg. fst (call_model (replay_surface ext b) rq c (w, n)) = Err (ReplayCacheMissError k dg))"
  using assms
  by (auto simp: call_model_def call_provider_def advance_step_def in_scope_def Let_def split_beta replay_surface_def
      cache_only_complete_def split: sum.split option.split)

lemma tool_counts: "snd (snd (snd (run_tool (replay_surface ext b) tool arguments c (w, n)))) = n"
  by (simp add: run_tool_def Let_def split_beta split: sum.split)

lemma drive_counts:
  "\<lbrakk>lets_through ag; in_scope b c\<rbrakk> \<Longrightarrow>
   snd (snd (snd (drive (replay_surface ext b) ag c (w, n)))) = n \<or>
   (\<exists>k dg. fst (drive (replay_surface ext b) ag c (w, n)) = Err (ReplayCacheMissError k dg))"
proof (induction ag arbitrary: c w)
  case (CallModel rq k)
  let ?m = "call_model (replay_surface ext b) rq c (w, n)"
  obtain r c1 w1 n1 where m: "?m = (r, c1, w1, n1)" by (metis prod_cases4)
  have sc: "in_scope b c1" using call_scope[OF CallModel.prems(2), of "replay_surface ext b" rq "(w, n)"] m by simp
  consider "n1 = n" | k dg where "r = Err (ReplayCacheMissError k dg)"
    using call_counts[OF CallModel.prems(2), of ext rq w n] m by auto
  then show ?case
  proof cases
    case 1
    then show ?thesis using CallModel.IH[OF rangeI _ sc, of r w1] CallModel.prems m by simp
  next
    case 2
    then show ?thesis using CallModel.prems m by simp
  qed
next
  case (RunTool tool args k)
  let ?m = "run_tool (replay_surface ext b) tool args c (w, n)"
  obtain r c1 w1 n1 where m: "?m = (r, c1, w1, n1)" by (metis prod_cases4)
  have "n1 = n" using tool_counts[of ext b tool args c w n] m by simp
  moreover have "in_scope b c1" using in_scope_frame(5)[of b "replay_surface ext b" tool args c "(w, n)"] RunTool.prems m by simp
  ultimately show ?case using RunTool.IH[OF rangeI, of r c1 w1] RunTool.prems m by simp
next
  case (Act tool args ttl k)
  then show ?case by (simp add: act_def split_beta)
next
  case (RequestApproval args channel ttl k)
  then show ?case by (simp add: request_approval_def split_beta)
qed (auto simp: split_beta)

text \<open>
  For an agent that lets the exceptions of its model calls through, a replay reaches a verdict only
  if it never reached the provider: a call the snapshot cannot serve ends it as irreproducible.
\<close>

theorem verdict_needs_no_provider:
  assumes "lets_through agent" and "run_replay rx ext agent b w = (Ok o1, w')"
  shows "ro_calls o1 = 0"
proof -
  let ?R = "replay_surface ext b"
  obtain c0 where c0: "context_init ?R (replay_input b) = Ok c0"
    by (simp add: context_init_def replay_input_def budget_of_def)
  have sc: "in_scope b (stage_trace ?R (start_event ?R (ai_trigger (replay_input b)) c0) c0)"
    using c0 by (auto simp: context_init_def replay_input_def budget_of_def in_scope_def stage_trace_def)
  obtain r c1 w1 n1 where d: "drive ?R agent (stage_trace ?R (start_event ?R (ai_trigger (replay_input b)) c0) c0) (w, 0) = (r, c1, w1, n1)"
    by (metis prod_cases4)
  have counts: "n1 = 0 \<or> (\<exists>k dg. r = Err (ReplayCacheMissError k dg))"
    using drive_counts[OF assms(1) sc, of ext w 0] d by simp
  have tail: "snd (conclude ?R inp out c W) = W" for inp out c W
    by (auto simp: conclude_def flush_longterm_def Let_def split: outcome.split sum.split prod.split)
  show ?thesis
  proof (cases r)
    case (Inl e)
    then have "run_activation ?R None agent (replay_input b) (w, 0) = (RunFailed e (failure_of c1), w1, n1)"
      using c0 d by (simp add: run_activation_def)
    then show ?thesis using assms(2) counts Inl
      by (auto simp: run_replay_def cache_miss_in_def is_cache_miss_def failed_outcome_def split: if_splits)
  next
    case (Inr out)
    then have n1: "n1 = 0" using counts by simp
    obtain res where "conclude ?R (replay_input b) out c1 (w1, n1) = (res, w1, n1)"
      using tail by (metis prod.collapse)
    then have run: "run_activation ?R None agent (replay_input b) (w, 0) = (res, w1, n1)"
      using c0 d Inr by (simp add: run_activation_def after_agent_def)
    then show ?thesis using assms(2) n1
      by (auto simp: run_replay_def failed_outcome_def split: run_result.splits if_splits)
  qed
qed

text \<open>An agent that swallows the exception gets its verdict all the same, here that it reproduced.\<close>

definition swallowing_agent :: agent where
  "swallowing_agent = CallModel asking_request (\<lambda>r. Return (Complete [2]))"

definition empty_bundle :: replay_bundle where
  "empty_bundle =
     \<lparr>rb_snapshot = build_snapshot [1] 1 6 ''r'' None None None [], rb_envelope = demo_event 5, rb_key = [1], rb_seq = 0, rb_now = 5,
      rb_traced = [], rb_is_resume = False, rb_step = 0, rb_adapter = []\<rparr>"

theorem verdict_needs_no_provider_witness:
  "run_replay no_replay_ext demo_ext asking_agent empty_bundle () = (Err ReplayIrreproducibleError, ()) \<and>
   (\<exists>o1. run_replay no_replay_ext demo_ext demo_agent empty_bundle () = (Ok o1, ()) \<and> ro_calls o1 = 0) \<and>
   (\<exists>o1. run_replay no_replay_ext demo_ext swallowing_agent empty_bundle () = (Ok o1, ()) \<and> ro_calls o1 = 1)"
proof -
  note defs = empty_bundle_def build_snapshot_def run_replay_def replay_input_def replay_surface_def
  have 1: "run_replay no_replay_ext demo_ext asking_agent empty_bundle () = (Err ReplayIrreproducibleError, ())"
    using asking_key_ok by (simp add: defs engine_defs asking_defs cache_only_complete_def cache_miss_in_def is_cache_miss_def demo_ext_def)
  obtain o1 where 2: "run_replay no_replay_ext demo_ext demo_agent empty_bundle () = (Ok o1, ())"
    by (simp add: defs engine_defs demo_defs)
  have "lets_through demo_agent" by (simp add: demo_agent_def)
  then have "ro_calls o1 = 0" using verdict_needs_no_provider[OF _ 2] by blast
  moreover have "\<exists>o1. run_replay no_replay_ext demo_ext swallowing_agent empty_bundle () = (Ok o1, ()) \<and> ro_calls o1 = 1"
    using asking_key_ok by (simp add: defs engine_defs asking_defs swallowing_agent_def cache_only_complete_def demo_ext_def)
  ultimately show ?thesis using 1 2 by blast
qed

end
