(* ===== verification/Row_Store.thy ===== *)
theory Row_Store
  imports Stores
begin

text \<open>
  The contract a long-term store owes its callers, over the rows it holds: what every backend of
  \<open>memory/stores/\<close> is proved to keep. A backend is seen through the row of each key of each
  entity (its sequence number and envelope); loading reads the row, saving puts it under the
  sequence guard, searching lists the matching rows in key order. The locale \<open>row_store\<close> gives
  the flush contract \<open>longterm_store\<close>; \<open>search_store\<close> adds the search, and its runs are the
  runs of the rows themselves, so any two backends answer alike.
\<close>

lemma mapE_map: "mapE f (map g xs) = mapE (\<lambda>x. f (g x)) xs"
  by (induction xs) simp_all

text \<open>The second components of the keys of a table on pairs, for one first component.\<close>

definition keys_under :: "'a \<Rightarrow> ('b \<Rightarrow> bool) \<Rightarrow> (('a \<times> 'b) \<times> 'c) list \<Rightarrow> 'b list" where
  "keys_under e P w = remdups (map (snd \<circ> fst) (filter (\<lambda>row. fst (fst row) = e \<and> P (snd (fst row))) w))"

lemma set_keys_under: "set (keys_under e P w) = {k. map_of w (e, k) \<noteq> None \<and> P k}"
proof -
  have "map_of w (e, k) \<noteq> None \<longleftrightarrow> (e, k) \<in> fst ` set w" for k by (simp add: map_of_eq_None_iff)
  then show ?thesis by (force simp: keys_under_def image_iff)
qed

lemma distinct_keys_under: "distinct (keys_under e P w)"
  by (simp add: keys_under_def)

section \<open>Byte order\<close>

text \<open>\<open>_encode_seq\<close>: on strings of one length the order of the bytes is the order of the numbers.\<close>

lemma uint_bounds: "0 \<le> uint (b :: 8 word)" "uint (b :: 8 word) \<le> 255"
  using uint_lt2p[of b] by simp_all

lemma from_be_Cons: "from_be (b # bs) = 256 ^ length bs * uint b + from_be bs"
proof (induction bs rule: rev_induct)
  case (snoc c cs)
  have "from_be ((b # cs) @ [c]) = 256 * from_be (b # cs) + uint c" by (rule from_be_append)
  with snoc show ?case by (simp add: from_be_append algebra_simps)
qed (simp add: from_be_def)

lemma from_be_bound: "from_be bs < 256 ^ length bs"
proof (induction bs)
  case (Cons b bs)
  have "(256::int) ^ length bs * uint b \<le> 256 ^ length bs * 255" using uint_bounds[of b] by (intro mult_left_mono) simp_all
  with Cons show ?case unfolding from_be_Cons by (simp only: list.size power_add power_Suc0_right)
qed (simp add: from_be_def)

lemma from_be_less: "\<lbrakk>length xs = length ys; xs < ys\<rbrakk> \<Longrightarrow> from_be xs < from_be ys"
proof (induction xs ys rule: list_induct2)
  case (Cons x xs y ys)
  show ?case
  proof (cases "x = y")
    case True
    with Cons show ?thesis by (simp add: from_be_Cons)
  next
    case False
    then have "x < y" using Cons.prems by simp
    then have "uint x + 1 \<le> uint y" by (simp add: word_less_def)
    then have "(256::int) ^ length ys * (uint x + 1) \<le> 256 ^ length ys * uint y" by (intro mult_left_mono) simp_all
    moreover have "from_be xs < 256 ^ length ys" using from_be_bound[of xs] Cons.hyps by simp
    moreover have "0 \<le> from_be ys" by simp
    ultimately show ?thesis using Cons.hyps
      by (simp only: from_be_Cons distrib_left mult_1_right)
  qed
qed simp

lemma from_be_order:
  assumes "length xs = length ys"
  shows "xs < ys \<longleftrightarrow> from_be xs < from_be ys" and "xs \<le> ys \<longleftrightarrow> from_be xs \<le> from_be ys"
proof -
  consider "xs < ys" | "xs = ys" | "ys < xs" by (metis linorder_less_linear)
  then have "(xs < ys \<longleftrightarrow> from_be xs < from_be ys) \<and> (xs \<le> ys \<longleftrightarrow> from_be xs \<le> from_be ys)"
    using from_be_less[OF assms] from_be_less[OF assms[symmetric]] by cases auto
  then show "xs < ys \<longleftrightarrow> from_be xs < from_be ys" and "xs \<le> ys \<longleftrightarrow> from_be xs \<le> from_be ys"
    by simp_all
qed

definition seq_storable :: "int \<Rightarrow> bool" where
  "seq_storable q \<longleftrightarrow> 0 \<le> q \<and> q < 2 ^ 64"

lemma encode_seq_ok: "seq_storable q \<Longrightarrow> encode_seq q = Ok (to_be 8 q)"
  by (simp add: encode_seq_def seq_storable_def)

lemma to_be_order:
  assumes "seq_storable p" and "seq_storable q"
  shows "to_be 8 p < to_be 8 q \<longleftrightarrow> p < q" and "to_be 8 p \<le> to_be 8 q \<longleftrightarrow> p \<le> q"
proof -
  have "from_be (to_be 8 n) = n" if "seq_storable n" for n
    using that by (intro from_to_be) (simp_all add: seq_storable_def)
  then show "to_be 8 p < to_be 8 q \<longleftrightarrow> p < q" and "to_be 8 p \<le> to_be 8 q \<longleftrightarrow> p \<le> q"
    using assms from_be_order[of "to_be 8 p" "to_be 8 q"] by simp_all
qed

text \<open>The keys a prefix selects are an interval of the order.\<close>

lemma prefix_greater_eq: "prefix p s \<Longrightarrow> p \<le> (s :: 'a::linorder list)"
proof -
  have "p \<le> p @ r" for r :: "'a list" by (induction p) simp_all
  then show "prefix p s \<Longrightarrow> p \<le> s" by (auto elim: prefixE)
qed

lemma append_le_append [simp]: "p @ s \<le> p @ t \<longleftrightarrow> s \<le> (t :: 'a::linorder list)"
  and append_less_append [simp]: "p @ s < p @ t \<longleftrightarrow> s < (t :: 'a::linorder list)"
  by (induction p) simp_all

section \<open>Rows\<close>

type_synonym row_view = "bytes \<Rightarrow> string \<Rightarrow> (int \<times> bytes) option"

definition put_row :: "lt_codec \<Rightarrow> memory_record \<Rightarrow> row_view \<Rightarrow> row_view" where
  "put_row codec r v = v(mr_entity r := (v (mr_entity r))(mr_key r \<mapsto> (mr_seq r, encode_envelope codec r)))"

definition guard_holds :: "memory_record \<Rightarrow> row_view \<Rightarrow> bool" where
  "guard_holds r v \<longleftrightarrow> seq_guard_applies (mr_seq r) (map_option fst (v (mr_entity r) (mr_key r)))"

definition save_row :: "lt_codec \<Rightarrow> memory_record \<Rightarrow> row_view \<Rightarrow> row_view" where
  "save_row codec r v = (if guard_holds r v then put_row codec r v else v)"

definition read_row :: "lt_codec \<Rightarrow> row_view \<Rightarrow> bytes \<Rightarrow> string \<Rightarrow> memory_record option res" where
  "read_row codec v e k =
     (case v e k of None \<Rightarrow> Ok None | Some row \<Rightarrow> bindE (decode_envelope codec e (snd row)) (\<lambda>r. Ok (Some r)))"

definition matching_keys :: "row_view \<Rightarrow> bytes \<Rightarrow> string \<Rightarrow> string list" where
  "matching_keys v e p = sorted_list_of_set {k \<in> dom (v e). prefix p k}"

definition find_rows :: "lt_codec \<Rightarrow> row_view \<Rightarrow> bytes \<Rightarrow> string \<Rightarrow> int \<Rightarrow> memory_record list res" where
  "find_rows codec v e p limit =
     mapE (\<lambda>k. decode_envelope codec e (snd (the (v e k)))) (take (nat limit) (matching_keys v e p))"

lemma matching_keys_eqI:
  assumes "sorted ks" and "distinct ks" and "set ks = {k \<in> dom (v e). prefix p k}"
  shows "matching_keys v e p = ks"
  using sorted_list_of_set_sort_remdups[of ks] assms
  by (simp add: matching_keys_def distinct_remdups_id sorted_sort_id)

text \<open>Every row is the envelope of a record of its own identity.\<close>

definition rows_wf :: "lt_codec \<Rightarrow> row_view \<Rightarrow> bool" where
  "rows_wf codec v \<longleftrightarrow> (\<forall>e k q b. v e k = Some (q, b) \<longrightarrow>
     k \<noteq> [] \<and> (\<exists>r. row_id r = (e, k) \<and> mr_seq r = q \<and> b = encode_envelope codec r))"

lemma rows_wf_empty [simp]: "rows_wf codec (\<lambda>_ _. None)"
  by (simp add: rows_wf_def)

lemma rows_wf_save: "\<lbrakk>rows_wf codec v; mr_key r \<noteq> []\<rbrakk> \<Longrightarrow> rows_wf codec (save_row codec r v)"
  by (auto simp: rows_wf_def save_row_def put_row_def row_id_def)

lemma save_row_at:
  "save_row codec r v e k =
     (if guard_holds r v \<and> (e, k) = row_id r then Some (mr_seq r, encode_envelope codec r) else v e k)"
  by (auto simp: save_row_def put_row_def row_id_def)

lemma read_row_cases:
  assumes "codec_ok codec" and "rows_wf codec v"
  obtains "v e k = None" "read_row codec v e k = Ok None"
  | r where "v e k = Some (mr_seq r, encode_envelope codec r)" "row_id r = (e, k)" "read_row codec v e k = Ok (Some r)"
proof (cases "v e k")
  case None
  then show ?thesis using that(1) by (simp add: read_row_def)
next
  case (Some row)
  then obtain r where r: "row_id r = (e, k)" "row = (mr_seq r, encode_envelope codec r)"
    using assms(2) unfolding rows_wf_def by (metis surj_pair)
  then have "read_row codec v e k = Ok (Some r)"
    using Some decode_encode[OF assms(1), of r] by (simp add: read_row_def row_id_def)
  then show ?thesis using that(2) r Some by simp
qed

section \<open>Runs of store calls\<close>

datatype store_op = OpLoad bytes string | OpSave memory_record | OpSearch bytes string int

datatype store_answer =
    Loaded "memory_record option res"
  | Saved "bool res"
  | Found "memory_record list res"

fun run_op :: "'s backend \<Rightarrow> 's \<Rightarrow> store_op \<Rightarrow> store_answer \<times> 's" where
  "run_op bk s (OpLoad e k) = (Loaded (store_load bk s e k), s)"
| "run_op bk s (OpSave r) =
     (case store_save bk s r of Inl err \<Rightarrow> (Saved (Err err), s) | Inr (b, s') \<Rightarrow> (Saved (Ok b), s'))"
| "run_op bk s (OpSearch e p limit) = (Found (store_search bk s e p limit), s)"

fun run_ops :: "'s backend \<Rightarrow> 's \<Rightarrow> store_op list \<Rightarrow> store_answer list" where
  "run_ops bk s [] = []"
| "run_ops bk s (op # ops) = (case run_op bk s op of (a, s') \<Rightarrow> a # run_ops bk s' ops)"

text \<open>The same calls on the rows: the reference every backend is compared with.\<close>

fun spec_op :: "lt_codec \<Rightarrow> row_view \<Rightarrow> store_op \<Rightarrow> store_answer \<times> row_view" where
  "spec_op codec v (OpLoad e k) = (Loaded (if k = [] then Err ValueError else read_row codec v e k), v)"
| "spec_op codec v (OpSave r) =
     (if record_ok r then (Saved (Ok (guard_holds r v)), save_row codec r v) else (Saved (Err ValueError), v))"
| "spec_op codec v (OpSearch e p limit) =
     (Found (if limit \<le> 0 then Err ValueError else find_rows codec v e p limit), v)"

fun spec_ops :: "lt_codec \<Rightarrow> row_view \<Rightarrow> store_op list \<Rightarrow> store_answer list" where
  "spec_ops codec v [] = []"
| "spec_ops codec v (op # ops) = (case spec_op codec v op of (a, v') \<Rightarrow> a # spec_ops codec v' ops)"

definition op_admitted :: "(memory_record \<Rightarrow> bool) \<Rightarrow> store_op \<Rightarrow> bool" where
  "op_admitted admits op \<longleftrightarrow> (\<forall>r. op = OpSave r \<longrightarrow> record_ok r \<longrightarrow> admits r)"

section \<open>The contracts\<close>

locale row_store =
  fixes bk :: "'s backend"
    and codec :: lt_codec
    and admits :: "memory_record \<Rightarrow> bool"
    and inv :: "'s \<Rightarrow> bool"
    and view :: "'s \<Rightarrow> row_view"
  assumes codec_reads: "inv s \<Longrightarrow> codec_ok codec"
    and rows: "inv s \<Longrightarrow> rows_wf codec (view s)"
    and row_load: "\<lbrakk>inv s; k \<noteq> []\<rbrakk> \<Longrightarrow> bk_load bk s e k = read_row codec (view s) e k"
    and row_save: "\<lbrakk>inv s; record_ok r; admits r\<rbrakk> \<Longrightarrow>
      \<exists>s'. bk_save bk s r = Ok (guard_holds r (view s), s') \<and> inv s' \<and> view s' = save_row codec r (view s)"
begin

lemma load_view: "inv s \<Longrightarrow> store_load bk s e k = (if k = [] then Err ValueError else read_row codec (view s) e k)"
  using row_load by (simp add: store_load_def require_key_def)

lemma save_view:
  "\<lbrakk>inv s; record_ok r; admits r\<rbrakk> \<Longrightarrow>
   \<exists>s'. store_save bk s r = Ok (guard_holds r (view s), s') \<and> inv s' \<and> view s' = save_row codec r (view s)"
  using row_save[of s r] by (simp add: store_save_def require_key_def record_ok_def)

lemma save_invalid: "\<not> record_ok r \<Longrightarrow> store_save bk s r = Err ValueError"
  by (auto simp: store_save_def require_key_def record_ok_def)

end

sublocale row_store \<subseteq> flush: longterm_store bk "\<lambda>r. record_ok r \<and> admits r" inv
proof unfold_locales
  fix s r assume a: "inv s" "record_ok r \<and> admits r"
  show "\<exists>b s'. store_save bk s r = Ok (b, s') \<and> inv s'" using save_view[of s r] a by blast
next
  fix s e and k :: string assume "inv s" "k \<noteq> []"
  then show "\<exists>x. store_load bk s e k = Ok x"
    using codec_reads[of s] rows[of s] by (auto simp: load_view elim: read_row_cases[of codec "view s" e k])
next
  fix s r b s' old
  assume a: "inv s" "record_ok r \<and> admits r" "store_save bk s r = Ok (b, s')"
    "store_load bk s (mr_entity r) (mr_key r) = Ok old"
  have "b = guard_holds r (view s)" using save_view[of s r] a by auto
  moreover have "read_row codec (view s) (mr_entity r) (mr_key r) = Ok old"
    using a by (simp add: load_view record_ok_def)
  ultimately show "b = seq_guard_applies (mr_seq r) (map_option mr_seq old)"
    by (cases rule: read_row_cases[OF codec_reads[OF a(1)] rows[OF a(1)], of "mr_entity r" "mr_key r"])
      (auto simp: guard_holds_def)
next
  fix s r b s' e k
  assume a: "inv s" "record_ok r \<and> admits r" "store_save bk s r = Ok (b, s')"
  obtain s1 where "store_save bk s r = Ok (guard_holds r (view s), s1)" "inv s1" "view s1 = save_row codec r (view s)"
    using save_view[of s r] a by blast
  then have s': "inv s'" "view s' = save_row codec r (view s)" "b = guard_holds r (view s)" using a(3) by auto
  show "store_load bk s' e k = (if b \<and> (e, k) = row_id r then Ok (Some r) else store_load bk s e k)"
    using a(2) decode_encode[OF codec_reads[OF a(1)], of r]
    by (auto simp: load_view s' a(1) read_row_def save_row_at row_id_def record_ok_def)
qed

locale search_store = row_store +
  assumes row_search: "\<lbrakk>inv s; 0 < limit\<rbrakk> \<Longrightarrow> bk_search bk s e p limit = find_rows codec (view s) e p limit"
begin

lemma search_view:
  "inv s \<Longrightarrow> store_search bk s e p limit = (if limit \<le> 0 then Err ValueError else find_rows codec (view s) e p limit)"
  using row_search by (simp add: store_search_def)

lemma op_view:
  assumes "inv s" and "op_admitted admits op"
  shows "\<exists>s'. run_op bk s op = (fst (spec_op codec (view s) op), s') \<and> inv s' \<and> view s' = snd (spec_op codec (view s) op)"
proof (cases op)
  case (OpSave r)
  show ?thesis
  proof (cases "record_ok r")
    case True
    then show ?thesis using save_view[OF assms(1), of r] assms(2) OpSave by (auto simp: op_admitted_def)
  next
    case False
    then show ?thesis using OpSave assms(1) by (simp add: save_invalid)
  qed
qed (use assms(1) in \<open>simp_all add: load_view search_view\<close>)

lemma runs_are_spec: "\<lbrakk>inv s; \<forall>op \<in> set ops. op_admitted admits op\<rbrakk> \<Longrightarrow> run_ops bk s ops = spec_ops codec (view s) ops"
proof (induction ops arbitrary: s)
  case (Cons op ops)
  obtain s' where "run_op bk s op = (fst (spec_op codec (view s) op), s')" "inv s'" "view s' = snd (spec_op codec (view s) op)"
    using op_view[OF Cons.prems(1), of op] Cons.prems(2) by auto
  then show ?case using Cons by (simp add: split_beta)
qed simp

end

section \<open>The in-memory backend\<close>

definition im_view :: "im_rows \<Rightarrow> row_view" where
  "im_view rows e k = map_of (im_entity rows e) k"

definition im_rows_ok :: "lt_codec \<Rightarrow> im_rows \<Rightarrow> bool" where
  "im_rows_ok codec rows \<longleftrightarrow> codec_ok codec \<and> rows_wf codec (im_view rows) \<and> (\<forall>e. distinct_keys (im_entity rows e))"

lemma im_rows_ok_empty: "codec_ok codec \<Longrightarrow> im_rows_ok codec []"
  by (simp add: im_rows_ok_def rows_wf_def im_view_def im_entity_def)

lemma sort_filter_keys:
  assumes "distinct (map fst kvs)"
  shows "sort (filter P (map fst kvs)) = sorted_list_of_set {k \<in> dom (map_of kvs). P k}"
proof -
  have "set (filter P (map fst kvs)) = {k \<in> dom (map_of kvs). P k}" by (auto simp: dom_map_of_conv_image_fst)
  then show ?thesis using assms by (metis distinct_filter sorted_list_of_set_sort_remdups distinct_remdups_id)
qed

interpretation im_rows: search_store "in_memory codec" codec "\<lambda>_. True" "im_rows_ok codec" im_view for codec
proof unfold_locales
  fix s :: im_rows and e k assume "im_rows_ok codec s"
  show "bk_load (in_memory codec) s e k = read_row codec (im_view s) e k"
    by (simp add: in_memory_def im_load_def read_row_def im_view_def)
next
  fix s :: im_rows and r assume ok: "im_rows_ok codec s" and r: "record_ok r"
  obtain b s' where sv: "im_save codec s r = Ok (b, s')" using im_save_total by blast
  note upd = im_save_rows[OF sv]
  have b: "b = guard_holds r (im_view s)" using upd by (simp add: guard_holds_def im_view_def)
  have v: "im_view s' = save_row codec r (im_view s)"
    using upd by (auto simp: fun_eq_iff im_view_def save_row_at b)
  have "distinct_keys (im_entity s' e)" for e
    using sv ok by (auto simp: im_save_def Let_def im_entity_update im_rows_ok_def distinct_update split: if_splits)
  then show "\<exists>s'. bk_save (in_memory codec) s r = Ok (guard_holds r (im_view s), s') \<and> im_rows_ok codec s' \<and>
      im_view s' = save_row codec r (im_view s)"
    using sv b v ok r rows_wf_save[of codec "im_view s" r] by (simp add: in_memory_def im_rows_ok_def record_ok_def)
next
  fix s :: im_rows and e p limit assume "im_rows_ok codec s"
  then show "bk_search (in_memory codec) s e p limit = find_rows codec (im_view s) e p limit"
    using sort_filter_keys[of "im_entity s e" "prefix p"]
    by (simp add: in_memory_def im_search_def find_rows_def matching_keys_def Let_def im_rows_ok_def im_view_def[abs_def])
qed (simp_all add: im_rows_ok_def)

end
