(* ===== verification/Store_Sql.thy ===== *)
theory Store_Sql
  imports Row_Store
begin

text \<open>
  The SQL backend (\<open>memory/stores/sql.py\<close>): the transactional guarded upsert and the
  escaped-\<open>LIKE\<close> search, over a database whose statements are parameters. \<open>sql_documented\<close> states
  what the SQL standard and the dialects document of the five statements, with the dialect's
  character comparison and collation left open; \<open>sql_binary\<close> is a dialect that compares
  characters and orders strings by their code points, where the store is a \<open>search_store\<close>.
\<close>

section \<open>The store\<close>

record 'w sql_server =
  sq_select_seq :: "'w \<Rightarrow> bytes \<Rightarrow> string \<Rightarrow> int option"
  sq_select_rec :: "'w \<Rightarrow> bytes \<Rightarrow> string \<Rightarrow> bytes option"
  sq_insert :: "bytes \<Rightarrow> string \<Rightarrow> int \<Rightarrow> bytes \<Rightarrow> msec \<Rightarrow> 'w \<Rightarrow> 'w res"
  sq_update :: "bytes \<Rightarrow> string \<Rightarrow> int \<Rightarrow> bytes \<Rightarrow> msec \<Rightarrow> 'w \<Rightarrow> 'w res"
  sq_select_like :: "'w \<Rightarrow> bytes \<Rightarrow> string \<Rightarrow> char \<Rightarrow> int \<Rightarrow> bytes list"

definition LIKE_ESCAPE :: char where "LIKE_ESCAPE = CHR 0x5C"

text \<open>\<open>str.replace\<close> of a one-character pattern.\<close>

definition replace_char :: "char \<Rightarrow> string \<Rightarrow> string \<Rightarrow> string" where
  "replace_char c new s = concat (map (\<lambda>x. if x = c then new else [x]) s)"

definition escape_like_prefix :: "string \<Rightarrow> string" where
  "escape_like_prefix p =
     replace_char (CHR ''_'') [LIKE_ESCAPE, CHR ''_'']
       (replace_char (CHR ''%'') [LIKE_ESCAPE, CHR ''%'']
         (replace_char LIKE_ESCAPE [LIKE_ESCAPE, LIKE_ESCAPE] p))"

definition sql_load :: "'w sql_server \<Rightarrow> lt_codec \<Rightarrow> 'w \<Rightarrow> bytes \<Rightarrow> string \<Rightarrow> memory_record option res" where
  "sql_load srv codec w entity_key key =
     (case sq_select_rec srv w entity_key key of
        None \<Rightarrow> Ok None
      | Some envelope \<Rightarrow> bindE (decode_envelope codec entity_key envelope) (\<lambda>r. Ok (Some r)))"

text \<open>One transaction: a failing statement rolls it back.\<close>

definition sql_save :: "'w sql_server \<Rightarrow> lt_codec \<Rightarrow> 'w \<Rightarrow> memory_record \<Rightarrow> (bool \<times> 'w) res" where
  "sql_save srv codec w r =
     (let stored_seq = sq_select_seq srv w (mr_entity r) (mr_key r) in
      if \<not> seq_guard_applies (mr_seq r) stored_seq then Ok (False, w)
      else bindE
        (if stored_seq = None
         then sq_insert srv (mr_entity r) (mr_key r) (mr_seq r) (encode_envelope codec r) (mr_updated r) w
         else sq_update srv (mr_entity r) (mr_key r) (mr_seq r) (encode_envelope codec r) (mr_updated r) w)
        (\<lambda>w'. Ok (True, w')))"

definition sql_search ::
  "'w sql_server \<Rightarrow> lt_codec \<Rightarrow> 'w \<Rightarrow> bytes \<Rightarrow> string \<Rightarrow> int \<Rightarrow> memory_record list res" where
  "sql_search srv codec w entity_key p limit =
     mapE (decode_envelope codec entity_key)
       (sq_select_like srv w entity_key (escape_like_prefix p @ ''%'') LIKE_ESCAPE limit)"

definition sql_store :: "'w sql_server \<Rightarrow> lt_codec \<Rightarrow> 'w backend" where
  "sql_store srv codec =
     \<lparr>bk_load = sql_load srv codec, bk_save = sql_save srv codec, bk_search = sql_search srv codec\<rparr>"

section \<open>The \<open>LIKE\<close> pattern\<close>

text \<open>
  What \<open>LIKE ... ESCAPE\<close> matches, for a dialect's comparison of characters. (\<open>_\<close> stands for one
  character; the code never sends it unescaped.)
\<close>

fun like_match :: "(char \<Rightarrow> char \<Rightarrow> bool) \<Rightarrow> char \<Rightarrow> string \<Rightarrow> string \<Rightarrow> bool" where
  "like_match same esc [] s \<longleftrightarrow> s = []"
| "like_match same esc (c # p) s \<longleftrightarrow>
     (if c = esc then
        (case (p, s) of (d # p', x # s') \<Rightarrow> same d x \<and> like_match same esc p' s' | _ \<Rightarrow> False)
      else if c = CHR ''%'' then
        like_match same esc p s \<or> (case s of [] \<Rightarrow> False | x # s' \<Rightarrow> like_match same esc (c # p) s')
      else
        (case s of [] \<Rightarrow> False | x # s' \<Rightarrow> (c = CHR ''_'' \<or> same c x) \<and> like_match same esc p s'))"

lemma like_escape_distinct [simp]:
  "CHR ''%'' \<noteq> LIKE_ESCAPE" "CHR ''_'' \<noteq> LIKE_ESCAPE" "LIKE_ESCAPE \<noteq> CHR ''%''" "LIKE_ESCAPE \<noteq> CHR ''_''"
  by (simp_all add: LIKE_ESCAPE_def)

lemma like_any: "like_match same LIKE_ESCAPE ''%'' s"
  by (induction s) simp_all

definition escape_char_like :: "char \<Rightarrow> string" where
  "escape_char_like c =
     (if c = LIKE_ESCAPE \<or> c = CHR ''%'' \<or> c = CHR ''_'' then [LIKE_ESCAPE, c] else [c])"

lemma escape_like_chars: "escape_like_prefix p = concat (map escape_char_like p)"
  by (induction p) (auto simp: escape_like_prefix_def replace_char_def escape_char_like_def)

text \<open>The escaped prefix is a literal: the pattern matches what begins with it, character by character.\<close>

definition begins :: "(char \<Rightarrow> char \<Rightarrow> bool) \<Rightarrow> string \<Rightarrow> string \<Rightarrow> bool" where
  "begins same p s \<longleftrightarrow> length p \<le> length s \<and> list_all2 same p (take (length p) s)"

lemma begins_Cons: "begins same (c # p) s \<longleftrightarrow> (case s of [] \<Rightarrow> False | x # s' \<Rightarrow> same c x \<and> begins same p s')"
  by (auto simp: begins_def split: list.split)

lemma begins_eq: "begins (=) p s \<longleftrightarrow> prefix p s"
  by (auto simp: begins_def list_all2_eq[symmetric] prefix_def) (metis append_take_drop_id)

lemma like_escaped: "like_match same LIKE_ESCAPE (escape_like_prefix p @ ''%'') s \<longleftrightarrow> begins same p s"
proof (induction p arbitrary: s)
  case Nil
  show ?case using like_any[of same s] by (simp add: escape_like_chars begins_def del: like_match.simps)
next
  case (Cons c p)
  then show ?case
    by (auto simp: escape_like_chars escape_char_like_def begins_Cons split: list.splits)
qed

section \<open>The documented database\<close>

definition sql_admits :: "memory_record \<Rightarrow> bool" where
  "sql_admits r \<longleftrightarrow> mr_seq r < 2 ^ 63 \<and> - (2 ^ 63) \<le> mr_updated r \<and> mr_updated r < 2 ^ 63"

locale sql_documented =
  fixes srv :: "'w sql_server"
    and table :: "'w \<Rightarrow> row_view"
    and same :: "char \<Rightarrow> char \<Rightarrow> bool"
    and collate :: "string \<Rightarrow> string"
  assumes select_seq: "sq_select_seq srv w e k = map_option fst (table w e k)"
    and select_rec: "sq_select_rec srv w e k = map_option snd (table w e k)"
    and inserts: "\<lbrakk>table w e k = None; 0 \<le> q; q < 2 ^ 63; - (2 ^ 63) \<le> t; t < 2 ^ 63\<rbrakk> \<Longrightarrow>
      \<exists>w'. sq_insert srv e k q b t w = Ok w' \<and> table w' = (table w)(e := (table w e)(k \<mapsto> (q, b)))"
    and updates: "\<lbrakk>table w e k \<noteq> None; 0 \<le> q; q < 2 ^ 63; - (2 ^ 63) \<le> t; t < 2 ^ 63\<rbrakk> \<Longrightarrow>
      \<exists>w'. sq_update srv e k q b t w = Ok w' \<and> table w' = (table w)(e := (table w e)(k \<mapsto> (q, b)))"
    and select_like: "\<exists>ks. distinct ks \<and> set ks = {k \<in> dom (table w e). like_match same esc pat k} \<and>
      sorted (map collate ks) \<and>
      sq_select_like srv w e pat esc limit = map (\<lambda>k. snd (the (table w e k))) (take (nat limit) ks)"

definition sql_inv :: "('w \<Rightarrow> row_view) \<Rightarrow> lt_codec \<Rightarrow> 'w \<Rightarrow> bool" where
  "sql_inv table codec w \<longleftrightarrow> codec_ok codec \<and> rows_wf codec (table w)"

sublocale sql_documented \<subseteq> sql_rows: row_store "sql_store srv codec" codec sql_admits "sql_inv table codec" table
  for codec
proof unfold_locales
  fix s e k assume "sql_inv table codec s" "k \<noteq> ([] :: string)"
  show "bk_load (sql_store srv codec) s e k = read_row codec (table s) e k"
    by (auto simp: sql_store_def sql_load_def read_row_def select_rec split: option.splits)
next
  fix s r assume a: "sql_inv table codec s" "record_ok r" "sql_admits r"
  let ?e = "mr_entity r" and ?k = "mr_key r"
  let ?put = "\<lambda>w. table w = put_row codec r (table s)"
  have inv: "sql_inv table codec w" if "table w = save_row codec r (table s)" for w
    using a that rows_wf_save[of codec "table s" r] by (simp add: sql_inv_def record_ok_def)
  show "\<exists>s'. bk_save (sql_store srv codec) s r = Ok (guard_holds r (table s), s') \<and> sql_inv table codec s' \<and>
      table s' = save_row codec r (table s)"
  proof (cases "guard_holds r (table s)")
    case False
    then have "sql_save srv codec s r = Ok (False, s)"
      by (simp add: sql_save_def select_seq guard_holds_def Let_def)
    then show ?thesis using False a(1) by (simp add: sql_store_def save_row_def)
  next
    case True
    have "\<exists>w'. sql_save srv codec s r = Ok (True, w') \<and> ?put w'"
      using a(2,3) True inserts[of s ?e ?k "mr_seq r" "mr_updated r" "encode_envelope codec r"]
        updates[of s ?e ?k "mr_seq r" "mr_updated r" "encode_envelope codec r"]
      by (cases "table s ?e ?k = None")
        (auto simp: sql_save_def select_seq guard_holds_def put_row_def record_ok_def sql_admits_def Let_def)
    then obtain w' where "sql_save srv codec s r = Ok (True, w')" "table w' = save_row codec r (table s)"
      using True by (auto simp: save_row_def)
    then show ?thesis using inv True by (auto simp: sql_store_def)
  qed
qed (simp_all add: sql_inv_def)

context sql_documented
begin

text \<open>What the search returns on any dialect: rows whose key begins with the prefix as the dialect compares.\<close>

lemma sql_search_rows:
  "\<exists>ks. distinct ks \<and> set ks = {k \<in> dom (table w e). begins same p k} \<and> sorted (map collate ks) \<and>
     sql_search srv codec w e p limit =
       mapE (\<lambda>k. decode_envelope codec e (snd (the (table w e k)))) (take (nat limit) ks)"
proof -
  obtain ks where "distinct ks" "set ks = {k \<in> dom (table w e). begins same p k}" "sorted (map collate ks)"
      "sq_select_like srv w e (escape_like_prefix p @ ''%'') LIKE_ESCAPE limit =
        map (\<lambda>k. snd (the (table w e k))) (take (nat limit) ks)"
    using select_like[of w e LIKE_ESCAPE "escape_like_prefix p @ ''%''" limit] by (auto simp: like_escaped)
  then show ?thesis by (auto simp: sql_search_def mapE_map)
qed

end

locale sql_binary = sql_documented srv table "(=)" "\<lambda>k. k" for srv :: "'w sql_server" and table

sublocale sql_binary \<subseteq> sql: search_store "sql_store srv codec" codec sql_admits "sql_inv table codec" table for codec
proof unfold_locales
  fix s e p limit
  obtain ks where ks: "distinct ks" "set ks = {k \<in> dom (table s e). begins (=) p k}" "sorted ks"
      "sql_search srv codec s e p limit = mapE (\<lambda>k. decode_envelope codec e (snd (the (table s e k)))) (take (nat limit) ks)"
    using sql_search_rows[of s e p codec limit] by auto
  have "matching_keys (table s) e p = ks"
    using ks(1-3) by (intro matching_keys_eqI) (simp_all add: begins_eq)
  then show "bk_search (sql_store srv codec) s e p limit = find_rows codec (table s) e p limit"
    using ks(4) by (simp add: sql_store_def find_rows_def)
qed

context sql_binary
begin

lemma sql_runs:
  "\<lbrakk>sql_inv table codec w; \<forall>op \<in> set ops. op_admitted sql_admits op\<rbrakk> \<Longrightarrow>
   run_ops (sql_store srv codec) w ops = spec_ops codec (table w) ops"
  by (rule sql.runs_are_spec)

end

section \<open>A table of rows has the documented behaviour\<close>

type_synonym sql_rows = "(bytes \<times> string, int \<times> bytes) dict"

definition sql_map :: "(char \<Rightarrow> char \<Rightarrow> bool) \<Rightarrow> sql_rows sql_server" where
  "sql_map same =
     \<lparr>sq_select_seq = (\<lambda>w e k. map_option fst (map_of w (e, k))),
      sq_select_rec = (\<lambda>w e k. map_option snd (map_of w (e, k))),
      sq_insert = (\<lambda>e k q b t w. Ok (AList.update (e, k) (q, b) w)),
      sq_update = (\<lambda>e k q b t w. Ok (AList.update (e, k) (q, b) w)),
      sq_select_like = (\<lambda>w e pat esc limit.
        map (\<lambda>k. snd (the (map_of w (e, k))))
          (take (nat limit) (sort (keys_under e (like_match same esc pat) w))))\<rparr>"

definition sql_table :: "sql_rows \<Rightarrow> row_view" where
  "sql_table w e k = map_of w (e, k)"

interpretation sql_any: sql_documented "sql_map same" sql_table same "\<lambda>k. k" for same
proof unfold_locales
  fix w :: sql_rows and e esc pat limit
  have "set (sort (keys_under e (like_match same esc pat) w)) = {k \<in> dom (sql_table w e). like_match same esc pat k}"
    by (auto simp: set_keys_under sql_table_def)
  then show "\<exists>ks. distinct ks \<and> set ks = {k \<in> dom (sql_table w e). like_match same esc pat k} \<and>
      sorted (map (\<lambda>k. k) ks) \<and>
      sq_select_like (sql_map same) w e pat esc limit = map (\<lambda>k. snd (the (sql_table w e k))) (take (nat limit) ks)"
    by (intro exI[of _ "sort (keys_under e (like_match same esc pat) w)"])
      (auto simp: sql_map_def sql_table_def distinct_keys_under)
qed (auto simp: sql_map_def sql_table_def update_conv' fun_eq_iff)

interpretation sql_bin: sql_binary "sql_map (=)" sql_table
  by unfold_locales

text \<open>SQLite: \<open>LIKE\<close> ignores the case of ASCII letters unless \<open>PRAGMA case_sensitive_like\<close> is set.\<close>

definition ascii_lower :: "char \<Rightarrow> char" where
  "ascii_lower c = (let n = (of_char c :: nat) in if 65 \<le> n \<and> n \<le> 90 then char_of (n + 32) else c)"

definition sqlite :: "sql_rows sql_server" where
  "sqlite = sql_map (\<lambda>c d. ascii_lower c = ascii_lower d)"

end
