(* ===== verification/Store_Redis.thy ===== *)
theory Store_Redis
  imports Row_Store
begin

text \<open>
  The Redis backend (\<open>memory/stores/redis.py\<close>): one hash per entity, values framed by the
  big-endian sequence number, the compare-and-set script, and the scan-and-sort search, over a
  server whose commands are parameters. \<open>hash_documented\<close> states what \<open>HGET\<close>, \<open>HSET\<close>, a Lua
  string comparison under the C collation and \<open>HSCAN\<close> are documented to do; a scan may return a
  field several times, so the search meets the \<open>search_store\<close> contract only where it does not
  (\<open>hash_scan_once\<close>).
\<close>

section \<open>The store\<close>

record 'w hash_server =
  hs_hget :: "'w \<Rightarrow> string \<Rightarrow> string \<Rightarrow> bytes option"
  hs_hset :: "string \<Rightarrow> string \<Rightarrow> bytes \<Rightarrow> 'w \<Rightarrow> 'w"
  hs_string_ge :: "bytes \<Rightarrow> bytes \<Rightarrow> bool"
  hs_hscan :: "'w \<Rightarrow> string \<Rightarrow> string \<Rightarrow> (bytes \<times> bytes) list"

definition LTM_PREFIX :: string where "LTM_PREFIX = ''beam-agents:ltm:''"

definition redis_hash_key :: "bytes \<Rightarrow> string" where
  "redis_hash_key entity_key = LTM_PREFIX @ hex_bytes entity_key"

definition GLOB_SPECIALS :: string where "GLOB_SPECIALS = [CHR 0x5C, CHR ''?'', CHR ''*'', CHR ''['', CHR '']'']"

definition literal_glob_prefix :: "string \<Rightarrow> string" where
  "literal_glob_prefix p =
     concat (map (\<lambda>ch. if ch \<in> set GLOB_SPECIALS then [CHR 0x5C, ch] else [ch]) p) @ ''*''"

text \<open>The script runs as one command; a string is sliced as bytes.\<close>

definition save_script ::
  "'w hash_server \<Rightarrow> string \<Rightarrow> string \<Rightarrow> bytes \<Rightarrow> bytes \<Rightarrow> 'w \<Rightarrow> bool \<times> 'w" where
  "save_script srv key field sq envelope w =
     (let stored = hs_hget srv w key field in
      if stored = None \<or> hs_string_ge srv sq (take 8 (the stored))
      then (True, hs_hset srv key field (sq @ envelope) w)
      else (False, w))"

definition redis_load :: "'w hash_server \<Rightarrow> lt_codec \<Rightarrow> 'w \<Rightarrow> bytes \<Rightarrow> string \<Rightarrow> memory_record option res" where
  "redis_load srv codec w entity_key key =
     (case hs_hget srv w (redis_hash_key entity_key) key of
        None \<Rightarrow> Ok None
      | Some framed \<Rightarrow> bindE (decode_envelope codec entity_key (drop 8 framed)) (\<lambda>r. Ok (Some r)))"

definition redis_save :: "'w hash_server \<Rightarrow> lt_codec \<Rightarrow> 'w \<Rightarrow> memory_record \<Rightarrow> (bool \<times> 'w) res" where
  "redis_save srv codec w r =
     bindE (encode_seq (mr_seq r)) (\<lambda>sq.
       Ok (save_script srv (redis_hash_key (mr_entity r)) (mr_key r) sq (encode_envelope codec r) w))"

definition redis_search ::
  "'w hash_server \<Rightarrow> lt_codec \<Rightarrow> 'w \<Rightarrow> bytes \<Rightarrow> string \<Rightarrow> int \<Rightarrow> memory_record list res" where
  "redis_search srv codec w entity_key p limit =
     (let scan = hs_hscan srv w (redis_hash_key entity_key) (literal_glob_prefix p);
          matched = filter (\<lambda>m. prefix p (fst m)) (map (\<lambda>(field, framed). (of_utf8 field, framed)) scan) in
      mapE (\<lambda>m. decode_envelope codec entity_key (drop 8 (snd m))) (take (nat limit) (sort_key fst matched)))"

definition redis_store :: "'w hash_server \<Rightarrow> lt_codec \<Rightarrow> 'w backend" where
  "redis_store srv codec =
     \<lparr>bk_load = redis_load srv codec, bk_save = redis_save srv codec, bk_search = redis_search srv codec\<rparr>"

section \<open>The \<open>MATCH\<close> pattern\<close>

text \<open>A glob pattern without character classes: \<open>*\<close>, \<open>?\<close> and the escaping backslash.\<close>

fun glob_match :: "string \<Rightarrow> string \<Rightarrow> bool" where
  "glob_match [] s \<longleftrightarrow> s = []"
| "glob_match (c # p) s \<longleftrightarrow>
     (if c = CHR ''*'' then glob_match p s \<or> (case s of [] \<Rightarrow> False | x # s' \<Rightarrow> glob_match (c # p) s')
      else if c = CHR 0x5C then
        (case (p, s) of (d # p', x # s') \<Rightarrow> x = d \<and> glob_match p' s' | _ \<Rightarrow> False)
      else (case s of [] \<Rightarrow> False | x # s' \<Rightarrow> (c = CHR ''?'' \<or> x = c) \<and> glob_match p s'))"

fun classless :: "string \<Rightarrow> bool" where
  "classless [] \<longleftrightarrow> True"
| "classless (c # p) \<longleftrightarrow>
     (if c = CHR 0x5C then (case p of [] \<Rightarrow> False | d # p' \<Rightarrow> classless p') else c \<noteq> CHR ''['' \<and> classless p)"

lemma glob_any: "glob_match ''*'' s"
  by (induction s) simp_all

lemma literal_glob_Cons:
  "literal_glob_prefix (c # p) = (if c \<in> set GLOB_SPECIALS then [CHR 0x5C, c] else [c]) @ literal_glob_prefix p"
  by (simp add: literal_glob_prefix_def)

lemma glob_literal: "glob_match (literal_glob_prefix p) s \<longleftrightarrow> prefix p s"
proof (induction p arbitrary: s)
  case Nil
  show ?case using glob_any[of s] by (simp add: literal_glob_prefix_def del: glob_match.simps)
next
  case (Cons c p)
  then show ?case unfolding literal_glob_Cons by (cases s) (auto simp: GLOB_SPECIALS_def)
qed

lemma classless_literal: "classless (literal_glob_prefix p)"
proof (induction p)
  case (Cons c p)
  then show ?case unfolding literal_glob_Cons by (auto simp: GLOB_SPECIALS_def)
qed (simp add: literal_glob_prefix_def)

section \<open>The documented server\<close>

locale hash_documented =
  fixes srv :: "'w hash_server"
    and hash :: "'w \<Rightarrow> string \<Rightarrow> string \<Rightarrow> bytes option"
  assumes hget: "hs_hget srv w k f = hash w k f"
    and hset: "hash (hs_hset srv k f b w) = (hash w)(k := (hash w k)(f \<mapsto> b))"
    and string_ge: "length a = length b \<Longrightarrow> hs_string_ge srv a b \<longleftrightarrow> b \<le> a"
    and hscan: "classless pat \<Longrightarrow>
      set (hs_hscan srv w k pat) = {(utf8 f, b) | f b. hash w k f = Some b \<and> glob_match pat f}"

definition unframe :: "bytes \<Rightarrow> int \<times> bytes" where
  "unframe framed = (from_be (take 8 framed), drop 8 framed)"

definition hash_view :: "('w \<Rightarrow> string \<Rightarrow> string \<Rightarrow> bytes option) \<Rightarrow> 'w \<Rightarrow> row_view" where
  "hash_view hash w e k = map_option unframe (hash w (redis_hash_key e) k)"

definition hash_inv :: "('w \<Rightarrow> string \<Rightarrow> string \<Rightarrow> bytes option) \<Rightarrow> lt_codec \<Rightarrow> 'w \<Rightarrow> bool" where
  "hash_inv hash codec w \<longleftrightarrow> codec_ok codec \<and> rows_wf codec (hash_view hash w) \<and>
     (\<forall>e k framed. hash w (redis_hash_key e) k = Some framed \<longrightarrow>
        (\<exists>q b. seq_storable q \<and> framed = to_be 8 q @ b))"

definition redis_admits :: "memory_record \<Rightarrow> bool" where
  "redis_admits r \<longleftrightarrow> mr_seq r < 2 ^ 64"

lemma redis_hash_key_eq [simp]: "redis_hash_key e = redis_hash_key e' \<longleftrightarrow> e = e'"
  by (simp add: redis_hash_key_def)

lemma unframe_framed [simp]: "seq_storable q \<Longrightarrow> unframe (to_be 8 q @ b) = (q, b)"
  by (simp add: unframe_def seq_storable_def from_to_be)

text \<open>What the client makes of a scan that returns each matching field of a hash \<open>h\<close> once.\<close>

definition decoded :: "(bytes \<times> bytes) list \<Rightarrow> (string \<times> bytes) list" where
  "decoded scan = map (\<lambda>(field, framed). (of_utf8 field, framed)) scan"

lemma set_decoded:
  assumes "set scan = {(utf8 f, b) | f b. h f = Some b \<and> P f}"
  shows "set (decoded scan) = {(f, b). h f = Some b \<and> P f}"
proof -
  have "set (decoded scan) = (\<lambda>(field, framed). (of_utf8 field, framed)) ` {(utf8 f, b) | f b. h f = Some b \<and> P f}"
    by (simp add: decoded_def assms)
  also have "\<dots> = {(f, b). h f = Some b \<and> P f}" by (force simp: image_iff)
  finally show ?thesis .
qed

lemma distinct_decoded:
  assumes scan: "set scan = {(utf8 f, b) | f b. h f = Some b \<and> P f}" and once: "distinct (map fst scan)"
  shows "distinct (map fst (decoded scan))"
proof -
  have "inj_on of_utf8 (fst ` set scan)" unfolding scan by (rule inj_onI) auto
  moreover have "map fst (decoded scan) = map of_utf8 (map fst scan)"
    by (simp add: decoded_def comp_def split_beta)
  ultimately show ?thesis using once by (metis distinct_map set_map)
qed

lemma sorted_decoded:
  assumes scan: "set scan = {(utf8 f, b) | f b. h f = Some b \<and> prefix p f}" and once: "distinct (map fst scan)"
    and ms: "ms = sort_key fst (filter (\<lambda>m. prefix p (fst m)) (decoded scan))"
  shows "sorted (map fst ms)" and "distinct (map fst ms)" and "set (map fst ms) = {k \<in> dom h. prefix p k}"
    and "\<And>m. m \<in> set ms \<Longrightarrow> h (fst m) = Some (snd m)"
proof -
  have same: "ms = sort_key fst (decoded scan)"
    unfolding ms by (subst filter_True) (auto simp: set_decoded[OF scan])
  show "sorted (map fst ms)" by (simp add: same)
  have "distinct (map fst (sort_key fst (decoded scan)))"
    using distinct_decoded[OF scan once] by (simp add: distinct_map)
  then show "distinct (map fst ms)" by (simp add: same)
  have set: "set ms = {(f, b). h f = Some b \<and> prefix p f}" by (simp add: same set_decoded[OF scan])
  then show "set (map fst ms) = {k \<in> dom h. prefix p k}" by (force simp: image_iff)
  show "\<And>m. m \<in> set ms \<Longrightarrow> h (fst m) = Some (snd m)" using set by auto
qed

context hash_documented
begin

lemma hset_view:
  "seq_storable q \<Longrightarrow>
   hash_view hash (hs_hset srv (redis_hash_key e) k (to_be 8 q @ b) w) =
     (hash_view hash w)(e := (hash_view hash w e)(k \<mapsto> (q, b)))"
  by (auto simp: fun_eq_iff hash_view_def hset)

lemma script_view:
  assumes inv: "hash_inv hash codec w" and r: "record_ok r" "redis_admits r"
  shows "\<exists>w'. redis_save srv codec w r = Ok (guard_holds r (hash_view hash w), w') \<and>
    hash_inv hash codec w' \<and> hash_view hash w' = save_row codec r (hash_view hash w)"
proof -
  let ?key = "redis_hash_key (mr_entity r)"
  let ?v = "to_be 8 (mr_seq r) @ encode_envelope codec r"
  have q: "seq_storable (mr_seq r)" using r by (simp add: seq_storable_def record_ok_def redis_admits_def)
  have cond: "(hash w ?key (mr_key r) = None \<or> hs_string_ge srv (to_be 8 (mr_seq r)) (take 8 (the (hash w ?key (mr_key r)))))
      \<longleftrightarrow> guard_holds r (hash_view hash w)"
  proof (cases "hash w ?key (mr_key r)")
    case (Some framed)
    then obtain p b where "seq_storable p" "framed = to_be 8 p @ b" using inv unfolding hash_inv_def by metis
    then show ?thesis using Some q
      by (simp add: guard_holds_def seq_guard_applies_def hash_view_def string_ge to_be_order)
  qed (simp add: guard_holds_def seq_guard_applies_def hash_view_def)
  show ?thesis
  proof (cases "guard_holds r (hash_view hash w)")
    case True
    let ?w = "hs_hset srv ?key (mr_key r) ?v w"
    have sv: "redis_save srv codec w r = Ok (True, ?w)"
      using True cond by (simp add: redis_save_def encode_seq_ok q save_script_def hget Let_def)
    have v: "hash_view hash ?w = save_row codec r (hash_view hash w)"
      using True q by (simp add: hset_view save_row_def put_row_def)
    have "hash_inv hash codec ?w"
      using inv q r rows_wf_save[of codec "hash_view hash w" r]
      by (auto simp: hash_inv_def v record_ok_def hset)
    then show ?thesis using sv v True by auto
  next
    case False
    then have "redis_save srv codec w r = Ok (False, w)"
      using cond by (simp add: redis_save_def encode_seq_ok q save_script_def hget Let_def)
    then show ?thesis using False inv by (simp add: save_row_def)
  qed
qed

end

sublocale hash_documented \<subseteq>
  redis_rows: row_store "redis_store srv codec" codec redis_admits "hash_inv hash codec" "hash_view hash" for codec
proof unfold_locales
  fix s e and k :: string
  show "bk_load (redis_store srv codec) s e k = read_row codec (hash_view hash s) e k"
    by (auto simp: redis_store_def redis_load_def read_row_def hget hash_view_def unframe_def split: option.splits)
next
  fix s r assume "hash_inv hash codec s" "record_ok r" "redis_admits r"
  from script_view[OF this] show "\<exists>s'. bk_save (redis_store srv codec) s r = Ok (guard_holds r (hash_view hash s), s') \<and>
      hash_inv hash codec s' \<and> hash_view hash s' = save_row codec r (hash_view hash s)"
    by (simp add: redis_store_def)
qed (simp_all add: hash_inv_def)

locale hash_scan_once = hash_documented +
  assumes once: "distinct (map fst (hs_hscan srv w k pat))"

sublocale hash_scan_once \<subseteq>
  redis: search_store "redis_store srv codec" codec redis_admits "hash_inv hash codec" "hash_view hash" for codec
proof unfold_locales
  fix s e p limit
  let ?scan = "hs_hscan srv s (redis_hash_key e) (literal_glob_prefix p)"
  let ?ms = "sort_key fst (filter (\<lambda>m. prefix p (fst m)) (decoded ?scan))"
  have "set ?scan = {(utf8 f, b) | f b. hash s (redis_hash_key e) f = Some b \<and> prefix p f}"
    using hscan[OF classless_literal, of s "redis_hash_key e" p] by (simp only: glob_literal)
  note ms = sorted_decoded[OF this once refl]
  have "dom (hash s (redis_hash_key e)) = dom (hash_view hash s e)" by (auto simp: hash_view_def)
  then have keys: "matching_keys (hash_view hash s) e p = map fst ?ms"
    using ms(1-3) by (intro matching_keys_eqI) simp_all
  have "mapE (\<lambda>m. decode_envelope codec e (drop 8 (snd m))) (take (nat limit) ?ms) =
      mapE (\<lambda>m. decode_envelope codec e (snd (the (hash_view hash s e (fst m))))) (take (nat limit) ?ms)"
  proof (rule mapE_cong[OF refl])
    fix m assume m: "m \<in> set (take (nat limit) ?ms)"
    have "hash s (redis_hash_key e) (fst m) = Some (snd m)" by (rule ms(4)[OF in_set_takeD[OF m]])
    then show "decode_envelope codec e (drop 8 (snd m)) = decode_envelope codec e (snd (the (hash_view hash s e (fst m))))"
      by (simp add: hash_view_def unframe_def)
  qed
  then show "bk_search (redis_store srv codec) s e p limit = find_rows codec (hash_view hash s) e p limit"
    by (simp add: redis_store_def redis_search_def find_rows_def keys take_map mapE_map Let_def flip: decoded_def)
qed

context hash_scan_once
begin

lemma redis_runs:
  "\<lbrakk>hash_inv hash codec w; \<forall>op \<in> set ops. op_admitted redis_admits op\<rbrakk> \<Longrightarrow>
   run_ops (redis_store srv codec) w ops = spec_ops codec (hash_view hash w) ops"
  by (rule redis.runs_are_spec)

end

section \<open>A table of hashes has the documented behaviour\<close>

text \<open>A scan that returns each field \<open>1 + extra\<close> times, as a scan across a rehash may.\<close>

type_synonym hash_rows = "(string \<times> string, bytes) dict"

definition hash_map :: "nat \<Rightarrow> hash_rows hash_server" where
  "hash_map extra =
     \<lparr>hs_hget = (\<lambda>w k f. map_of w (k, f)),
      hs_hset = (\<lambda>k f b w. AList.update (k, f) b w),
      hs_string_ge = (\<lambda>a b. b \<le> a),
      hs_hscan = (\<lambda>w k pat.
        concat (replicate (Suc extra) (map (\<lambda>f. (utf8 f, the (map_of w (k, f)))) (keys_under k (glob_match pat) w))))\<rparr>"

definition hash_of :: "hash_rows \<Rightarrow> string \<Rightarrow> string \<Rightarrow> bytes option" where
  "hash_of w k f = map_of w (k, f)"

interpretation hash_any: hash_documented "hash_map extra" hash_of for extra
proof unfold_locales
  fix w :: hash_rows and k pat
  show "set (hs_hscan (hash_map extra) w k pat) = {(utf8 f, b) | f b. hash_of w k f = Some b \<and> glob_match pat f}"
    by (auto simp: hash_map_def hash_of_def set_keys_under image_iff)
qed (auto simp: hash_map_def hash_of_def update_conv' fun_eq_iff)

interpretation hash_once: hash_scan_once "hash_map 0" hash_of
proof unfold_locales
  fix w :: hash_rows and k pat
  have "inj_on utf8 A" for A by (rule inj_onI) simp
  then show "distinct (map fst (hs_hscan (hash_map 0) w k pat))"
    by (simp add: hash_map_def comp_def distinct_map distinct_keys_under)
qed

end
