(* ===== verification/Bigtable_Server.thy ===== *)
theory Bigtable_Server
  imports Row_Store
begin

text \<open>
  The part of the Bigtable data API the two Bigtable stores use (\<open>memory/stores/bigtable.py\<close> and
  \<open>BigtableDedupStore\<close> of \<open>effector/dedup.py\<close>): row filters and mutations as the code builds
  them, and the documented meaning of \<open>check_and_mutate_row\<close> and \<open>read_rows\<close> over a table whose
  columns keep their versions, newest first. The client stamps a \<open>SetCell\<close> with its own clock,
  so the clock reading is an argument of the call. The server itself is a parameter.
\<close>

section \<open>Bytes of a string\<close>

lemma unat_byte: "unat (b :: 8 word) < 256"
proof -
  have "unat b < 2 ^ LENGTH(8)" by (rule unsigned_less)
  then show ?thesis by simp
qed

lemma utf8_of_utf8 [simp]: "utf8 (of_utf8 bs) = bs"
proof -
  have "(of_char (char_of (unat b)) :: 8 word) = b" for b :: "8 word"
  proof -
    have "(of_char (char_of (unat b)) :: 8 word) = word_of_nat (of_char (char_of (unat b) :: char))" by (metis of_nat_of_char)
    also have "\<dots> = word_of_nat (unat b mod 256)" by simp
    also have "\<dots> = b" using unat_byte[of b] by simp
    finally show ?thesis .
  qed
  then show ?thesis by (simp add: utf8_def of_utf8_def comp_def map_idI)
qed

section \<open>Filters and mutations\<close>

record cell =
  c_family :: string
  c_qualifier :: bytes
  c_value :: bytes

datatype row_filter =
    FamilyNameRegexFilter string
  | ColumnQualifierRegexFilter bytes
  | CellsColumnLimitFilter nat
  | ValueRangeFilter bytes bool
  | ValueRegexFilter bytes
  | RowFilterChain "row_filter list"
  | RowFilterUnion "row_filter list"

datatype mutation = SetCell string bytes bytes | DeleteRangeFromColumn string bytes

datatype row_set = RowKeys "bytes list" | RowRange bytes "bytes option"

type_synonym column = "string \<times> bytes"

type_synonym bt_row = "column \<Rightarrow> (int \<times> bytes) list"

definition column_of :: "cell \<Rightarrow> column" where
  "column_of c = (c_family c, c_qualifier c)"

fun limit_from :: "nat \<Rightarrow> column list \<Rightarrow> cell list \<Rightarrow> cell list" where
  "limit_from n seen [] = []"
| "limit_from n seen (c # cs) =
     (if count_list seen (column_of c) < n then [c] else []) @ limit_from n (column_of c # seen) cs"

text \<open>The cells of a row a filter lets through; \<open>re\<close> is the full match of the RE2 library.\<close>

fun apply_filter :: "(bytes \<Rightarrow> bytes \<Rightarrow> bool) \<Rightarrow> row_filter \<Rightarrow> cell list \<Rightarrow> cell list" where
  "apply_filter re (FamilyNameRegexFilter p) cs = filter (\<lambda>c. re (utf8 p) (utf8 (c_family c))) cs"
| "apply_filter re (ColumnQualifierRegexFilter p) cs = filter (\<lambda>c. re p (c_qualifier c)) cs"
| "apply_filter re (CellsColumnLimitFilter n) cs = limit_from n [] cs"
| "apply_filter re (ValueRangeFilter lo incl) cs = filter (\<lambda>c. if incl then lo \<le> c_value c else lo < c_value c) cs"
| "apply_filter re (ValueRegexFilter p) cs = filter (\<lambda>c. re p (c_value c)) cs"
| "apply_filter re (RowFilterChain fs) cs = fold (\<lambda>f cells. apply_filter re f cells) fs cs"
| "apply_filter re (RowFilterUnion fs) cs = concat (map (\<lambda>f. apply_filter re f cs) fs)"

fun put_version :: "int \<Rightarrow> bytes \<Rightarrow> (int \<times> bytes) list \<Rightarrow> (int \<times> bytes) list" where
  "put_version ts v [] = [(ts, v)]"
| "put_version ts v ((t, x) # vs) =
     (if t < ts then (ts, v) # (t, x) # vs else if t = ts then (ts, v) # vs else (t, x) # put_version ts v vs)"

fun apply_mutation :: "int \<Rightarrow> mutation \<Rightarrow> bt_row \<Rightarrow> bt_row" where
  "apply_mutation ts (SetCell family qual v) row = row((family, qual) := put_version ts v (row (family, qual)))"
| "apply_mutation ts (DeleteRangeFromColumn family qual) row = row((family, qual) := [])"

definition apply_mutations :: "int \<Rightarrow> mutation list \<Rightarrow> bt_row \<Rightarrow> bt_row" where
  "apply_mutations ts ms row = fold (apply_mutation ts) ms row"

text \<open>A reading of a row: the versions of each column, newest first, columns in any order.\<close>

definition presents :: "cell list \<Rightarrow> (column \<Rightarrow> (int \<times> bytes) list) \<Rightarrow> bool" where
  "presents cells row \<longleftrightarrow>
     (\<forall>col. map c_value (filter (\<lambda>c. column_of c = col) cells) = map snd (row col))"

fun in_row_set :: "row_set \<Rightarrow> bytes \<Rightarrow> bool" where
  "in_row_set (RowKeys ks) k \<longleftrightarrow> k \<in> set ks"
| "in_row_set (RowRange lo None) k \<longleftrightarrow> lo \<le> k"
| "in_row_set (RowRange lo (Some hi)) k \<longleftrightarrow> lo \<le> k \<and> k < hi"

section \<open>The documented server\<close>

record 'w bigtable_server =
  bt_check_and_mutate :: "int \<Rightarrow> bytes \<Rightarrow> row_filter \<Rightarrow> mutation list \<Rightarrow> mutation list \<Rightarrow> 'w \<Rightarrow> bool \<times> 'w"
  bt_read_rows :: "'w \<Rightarrow> row_set \<Rightarrow> int option \<Rightarrow> row_filter \<Rightarrow> (bytes \<times> cell list) list"
  bt_full_match :: "bytes \<Rightarrow> bytes \<Rightarrow> bool"
  bt_client_clock :: "'w \<Rightarrow> int"

definition plain_pattern :: "bytes \<Rightarrow> bool" where
  "plain_pattern p \<longleftrightarrow> list_all (\<lambda>b. (48 \<le> b \<and> b \<le> 57) \<or> (97 \<le> b \<and> b \<le> 122)) p"

locale bigtable_documented =
  fixes srv :: "'w bigtable_server"
    and table :: "'w \<Rightarrow> bytes \<Rightarrow> bt_row"
  assumes full_match: "plain_pattern p \<Longrightarrow> bt_full_match srv p s \<longleftrightarrow> s = p"
    and check_and_mutate: "bt_check_and_mutate srv ts k f hit miss w = (matched, w') \<Longrightarrow>
      \<exists>cells. presents cells (table w k) \<and> matched = (apply_filter (bt_full_match srv) f cells \<noteq> []) \<and>
        table w' = (table w)(k := apply_mutations ts (if matched then hit else miss) (table w k))"
    and read_rows: "\<exists>ks cells. (\<forall>k. presents (cells k) (table w k)) \<and> sorted ks \<and> distinct ks \<and>
        set ks = {k. in_row_set rs k \<and> apply_filter (bt_full_match srv) f (cells k) \<noteq> []} \<and>
        bt_read_rows srv w rs limit f =
          map (\<lambda>k. (k, apply_filter (bt_full_match srv) f (cells k)))
            (case limit of None \<Rightarrow> ks | Some n \<Rightarrow> take (nat n) ks)"
    and clock_runs_on: "bt_client_clock srv w \<le> bt_client_clock srv (snd (bt_check_and_mutate srv ts k f hit miss w))"

text \<open>The latest version of a column, which is what every predicate of the stores is about.\<close>

definition latest :: "bt_row \<Rightarrow> column \<Rightarrow> bytes option" where
  "latest row col = (case row col of [] \<Rightarrow> None | (_, v) # _ \<Rightarrow> Some v)"

definition stamped_by :: "int \<Rightarrow> bt_row \<Rightarrow> bool" where
  "stamped_by now row \<longleftrightarrow> (\<forall>col. \<forall>tv \<in> set (row col). fst tv \<le> now)"

lemma latest_put:
  assumes "stamped_by now row"
  shows "latest (row(col := put_version now v (row col))) c = (if c = col then Some v else latest row c)"
    and "stamped_by now (row(col := put_version now v (row col)))"
proof -
  have le: "\<forall>tv \<in> set (row c). fst tv \<le> now" for c using assms unfolding stamped_by_def by blast
  have "\<exists>vs. put_version now v (row col) = (now, v) # vs"
    using le[of col] by (cases "row col") (auto simp: less_le)
  then show "latest (row(col := put_version now v (row col))) c = (if c = col then Some v else latest row c)"
    by (auto simp: latest_def)
  have "set (put_version now v vs) \<subseteq> insert (now, v) (set vs)" for vs
    by (induction now v vs rule: put_version.induct) auto
  then have "\<forall>tv \<in> set (put_version now v (row col)). fst tv \<le> now" using le[of col] by fastforce
  then show "stamped_by now (row(col := put_version now v (row col)))"
    using le unfolding stamped_by_def by (metis fun_upd_apply)
qed

lemma latest_delete:
  "latest (row(col := [])) c = (if c = col then None else latest row c)"
  "stamped_by now row \<Longrightarrow> stamped_by now (row(col := []))"
  by (auto simp: latest_def stamped_by_def)

lemma stamped_by_later: "\<lbrakk>stamped_by now row; now \<le> t\<rbrakk> \<Longrightarrow> stamped_by t row"
  unfolding stamped_by_def by (metis order_trans)

section \<open>Limiting a column to its latest cell\<close>

lemma limit_column:
  "filter (\<lambda>c. column_of c = col) (limit_from n seen cs) =
     take (n - count_list seen col) (filter (\<lambda>c. column_of c = col) cs)"
proof (induction n seen cs rule: limit_from.induct)
  case (2 n seen c cs)
  have "n - count_list seen col = Suc (n - Suc (count_list seen col))" if "count_list seen col < n" using that by simp
  with 2 show ?case by (auto simp: take_Cons')
qed simp

lemma limit_one_column:
  "\<forall>c \<in> set cs. column_of c = col \<Longrightarrow> limit_from 1 [] cs = take 1 cs"
proof -
  assume all: "\<forall>c \<in> set cs. column_of c = col"
  have "set (limit_from n seen xs) \<subseteq> set xs" for n seen xs
    by (induction n seen xs rule: limit_from.induct) auto
  then have "\<forall>c \<in> set (limit_from 1 [] cs). column_of c = col" using all by (meson subsetD)
  then show ?thesis using limit_column[of col 1 "[]" cs] all by simp
qed

lemma presents_latest:
  assumes "presents cells row"
  shows "map c_value (take 1 (filter (\<lambda>c. column_of c = col) cells)) = (case latest row col of None \<Rightarrow> [] | Some v \<Rightarrow> [v])"
proof -
  have "map c_value (filter (\<lambda>c. column_of c = col) cells) = map snd (row col)" using assms unfolding presents_def by blast
  then have "map c_value (take 1 (filter (\<lambda>c. column_of c = col) cells)) = take 1 (map snd (row col))"
    by (metis take_map)
  then show ?thesis by (auto simp: latest_def split: list.split)
qed

context bigtable_documented
begin

text \<open>A predicate on the value of the latest cell of one column.\<close>

lemma latest_predicate:
  assumes cells: "presents cells row" and pat: "plain_pattern (utf8 family)" "plain_pattern qual"
    and val: "\<And>cs. apply_filter (bt_full_match srv) f cs = filter (\<lambda>c. P (c_value c)) cs"
  shows "apply_filter (bt_full_match srv)
      (RowFilterChain [FamilyNameRegexFilter family, ColumnQualifierRegexFilter qual, CellsColumnLimitFilter 1, f]) cells \<noteq> []
    \<longleftrightarrow> (\<exists>v. latest row (family, qual) = Some v \<and> P v)"
proof -
  have col: "filter (\<lambda>c. bt_full_match srv qual (c_qualifier c))
      (filter (\<lambda>c. bt_full_match srv (utf8 family) (utf8 (c_family c))) cells) =
    filter (\<lambda>c. column_of c = (family, qual)) cells"
    by (auto simp: full_match pat column_of_def intro: filter_cong)
  have one: "limit_from 1 [] (filter (\<lambda>c. column_of c = (family, qual)) cells) =
      take 1 (filter (\<lambda>c. column_of c = (family, qual)) cells)"
    by (rule limit_one_column[of _ "(family, qual)"]) simp
  let ?one = "take 1 (filter (\<lambda>c. column_of c = (family, qual)) cells)"
  have "apply_filter (bt_full_match srv)
      (RowFilterChain [FamilyNameRegexFilter family, ColumnQualifierRegexFilter qual, CellsColumnLimitFilter 1, f]) cells =
    filter (\<lambda>c. P (c_value c)) ?one"
    by (simp only: apply_filter.simps fold.simps comp_apply id_apply val col one)
  moreover have "filter (\<lambda>c. P (c_value c)) ?one \<noteq> [] \<longleftrightarrow> filter P (map c_value ?one) \<noteq> []"
    by (auto simp: filter_empty_conv)
  moreover have "filter P (map c_value ?one) \<noteq> [] \<longleftrightarrow> (\<exists>v. latest row (family, qual) = Some v \<and> P v)"
    unfolding presents_latest[OF cells] by (simp split: option.split)
  ultimately show ?thesis by simp
qed

text \<open>The latest cells of one family.\<close>

lemma latest_of_family:
  assumes cells: "presents cells row" and pat: "plain_pattern (utf8 family)"
    and out: "out = apply_filter (bt_full_match srv)
      (RowFilterChain [FamilyNameRegexFilter family, CellsColumnLimitFilter 1]) cells"
  shows "map c_value (filter (\<lambda>c. column_of c = (family, qual)) out) =
      (case latest row (family, qual) of None \<Rightarrow> [] | Some v \<Rightarrow> [v])"
    and "\<forall>c \<in> set out. c_family c = family"
    and "c \<in> set out \<Longrightarrow> latest row (column_of c) \<noteq> None"
proof -
  have sub: "set (limit_from n seen xs) \<subseteq> set xs" for n seen xs
    by (induction n seen xs rule: limit_from.induct) auto
  have out': "out = limit_from 1 [] (filter (\<lambda>c. c_family c = family) cells)"
    by (simp add: out full_match pat eq_commute)
  have "filter (\<lambda>c. column_of c = (family, qual)) (filter (\<lambda>c. c_family c = family) cells) =
      filter (\<lambda>c. column_of c = (family, qual)) cells"
    by (auto simp: column_of_def intro: filter_cong)
  then show "map c_value (filter (\<lambda>c. column_of c = (family, qual)) out) =
      (case latest row (family, qual) of None \<Rightarrow> [] | Some v \<Rightarrow> [v])"
    using limit_column[of "(family, qual)" 1 "[]" "filter (\<lambda>c. c_family c = family) cells"]
      presents_latest[OF cells, of "(family, qual)"] by (simp add: out')
  show "\<forall>c \<in> set out. c_family c = family" using sub[of 1 "[]" "filter (\<lambda>c. c_family c = family) cells"] by (auto simp: out')
  assume "c \<in> set out"
  then have "c \<in> set cells" using sub[of 1 "[]" "filter (\<lambda>c. c_family c = family) cells"] by (auto simp: out')
  then have "map c_value (filter (\<lambda>d. column_of d = column_of c) cells) \<noteq> []" by (auto simp: filter_empty_conv)
  then have "row (column_of c) \<noteq> []" using cells unfolding presents_def by (metis map_is_Nil_conv)
  then show "latest row (column_of c) \<noteq> None" by (auto simp: latest_def split: list.split)
qed

end

section \<open>A table of rows has the documented behaviour\<close>

text \<open>The server's state: the clients' clock, which ticks at each mutation, and the rows.\<close>

type_synonym bt_rows = "int \<times> (bytes, (column, (int \<times> bytes) list) dict) dict"

definition bt_table :: "bt_rows \<Rightarrow> bytes \<Rightarrow> bt_row" where
  "bt_table w k col =
     (case map_of (snd w) k of None \<Rightarrow> [] | Some row \<Rightarrow> (case map_of row col of None \<Rightarrow> [] | Some vs \<Rightarrow> vs))"

definition cells_of :: "(column, (int \<times> bytes) list) dict \<Rightarrow> cell list" where
  "cells_of row = concat (map (\<lambda>col.
     map (\<lambda>v. \<lparr>c_family = fst col, c_qualifier = snd col, c_value = snd v\<rparr>) (the (map_of row col))) (remdups (map fst row)))"

definition row_dict :: "bt_rows \<Rightarrow> bytes \<Rightarrow> (column, (int \<times> bytes) list) dict" where
  "row_dict w k = (case map_of (snd w) k of None \<Rightarrow> [] | Some row \<Rightarrow> row)"

fun mutate_dict :: "int \<Rightarrow> mutation \<Rightarrow> (column, (int \<times> bytes) list) dict \<Rightarrow> (column, (int \<times> bytes) list) dict" where
  "mutate_dict ts (SetCell family qual v) row =
     AList.update (family, qual) (put_version ts v (case map_of row (family, qual) of None \<Rightarrow> [] | Some vs \<Rightarrow> vs)) row"
| "mutate_dict ts (DeleteRangeFromColumn family qual) row = AList.update (family, qual) [] row"

definition bt_map :: "bt_rows bigtable_server" where
  "bt_map =
     \<lparr>bt_check_and_mutate = (\<lambda>ts k f hit miss w.
        let matched = apply_filter (\<lambda>p s. s = p) f (cells_of (row_dict w k)) \<noteq> [] in
        (matched, (fst w + 1, AList.update k (fold (mutate_dict ts) (if matched then hit else miss) (row_dict w k)) (snd w)))),
      bt_read_rows = (\<lambda>w rs limit f.
        let ks = filter (\<lambda>k. in_row_set rs k \<and> apply_filter (\<lambda>p s. s = p) f (cells_of (row_dict w k)) \<noteq> [])
              (sort (remdups (map fst (snd w)))) in
        map (\<lambda>k. (k, apply_filter (\<lambda>p s. s = p) f (cells_of (row_dict w k))))
          (case limit of None \<Rightarrow> ks | Some n \<Rightarrow> take (nat n) ks)),
      bt_full_match = (\<lambda>p s. s = p),
      bt_client_clock = fst\<rparr>"

definition dict_row :: "(column, (int \<times> bytes) list) dict \<Rightarrow> bt_row" where
  "dict_row row col = (case map_of row col of None \<Rightarrow> [] | Some vs \<Rightarrow> vs)"

lemma bt_table_dict: "bt_table w k = dict_row (row_dict w k)"
  by (auto simp: fun_eq_iff bt_table_def row_dict_def dict_row_def split: option.split)

lemma cells_of_presents: "presents (cells_of row) (dict_row row)"
proof -
  have one: "map c_value (filter (\<lambda>c. column_of c = col)
      (map (\<lambda>v. \<lparr>c_family = fst d, c_qualifier = snd d, c_value = snd v\<rparr>) vs)) = (if d = col then map snd vs else [])"
    for d col :: column and vs :: "(int \<times> bytes) list"
    by (induction vs) (auto simp: column_of_def)
  have cols: "map c_value (filter (\<lambda>c. column_of c = col) (concat (map (\<lambda>col.
      map (\<lambda>v. \<lparr>c_family = fst col, c_qualifier = snd col, c_value = snd v\<rparr>) (g col)) cols))) =
    (if col \<in> set cols then map snd (g col) else [])" if "distinct cols" for cols col and g :: "column \<Rightarrow> (int \<times> bytes) list"
    using that by (induction cols) (auto simp: one)
  have key: "map_of row col = None \<longleftrightarrow> col \<notin> set (map fst row)" for col by (simp add: map_of_eq_None_iff)
  have "(if col \<in> set (remdups (map fst row)) then map snd (the (map_of row col)) else []) = map snd (dict_row row col)" for col
    using key[of col] by (cases "map_of row col") (simp_all add: dict_row_def)
  then show ?thesis unfolding presents_def cells_of_def by (simp only: cols distinct_remdups simp_thms)
qed

lemma dict_row_mutate: "dict_row (mutate_dict ts m row) = apply_mutation ts m (dict_row row)"
  by (cases m) (auto simp: fun_eq_iff dict_row_def update_conv')

lemma dict_row_mutates: "dict_row (fold (mutate_dict ts) ms row) = apply_mutations ts ms (dict_row row)"
  unfolding apply_mutations_def by (induction ms arbitrary: row) (simp_all add: dict_row_mutate)

lemma apply_filter_Nil: "apply_filter re f [] = []"
proof (induction re f "[] :: cell list" rule: apply_filter.induct)
  case (6 re fs)
  have "fold g fs [] = []" if "\<And>x. x \<in> set fs \<Longrightarrow> g x [] = ([] :: cell list)" for g
    using that by (induction fs) auto
  with 6 show ?case by simp
qed auto

interpretation bt_any: bigtable_documented bt_map bt_table
proof unfold_locales
  fix p s show "plain_pattern p \<Longrightarrow> bt_full_match bt_map p s = (s = p)" by (simp add: bt_map_def)
next
  fix ts k f hit miss matched and w w' :: bt_rows
  assume run: "bt_check_and_mutate bt_map ts k f hit miss w = (matched, w')"
  have "bt_table w' = (bt_table w)(k := apply_mutations ts (if matched then hit else miss) (bt_table w k))"
    using run unfolding bt_table_dict fun_eq_iff
    by (auto simp: bt_map_def row_dict_def update_conv' Let_def bt_table_dict dict_row_mutates split: option.splits)
  then show "\<exists>cells. presents cells (bt_table w k) \<and> matched = (apply_filter (bt_full_match bt_map) f cells \<noteq> []) \<and>
      bt_table w' = (bt_table w)(k := apply_mutations ts (if matched then hit else miss) (bt_table w k))"
    using run cells_of_presents[of "row_dict w k"]
    by (intro exI[of _ "cells_of (row_dict w k)"]) (auto simp: bt_map_def bt_table_dict Let_def)
next
  fix w :: bt_rows and rs limit f
  let ?ks = "filter (\<lambda>k. in_row_set rs k \<and> apply_filter (\<lambda>p s. s = p) f (cells_of (row_dict w k)) \<noteq> []) (sort (remdups (map fst (snd w))))"
  have "row_dict w k = []" if "k \<notin> set (map fst (snd w))" for k
    using that by (simp add: row_dict_def map_of_eq_None_iff[THEN iffD2])
  then have "apply_filter re f (cells_of (row_dict w k)) = []" if "k \<notin> set (map fst (snd w))" for k re
    using that by (simp add: cells_of_def apply_filter_Nil)
  then have "set ?ks = {k. in_row_set rs k \<and> apply_filter (bt_full_match bt_map) f (cells_of (row_dict w k)) \<noteq> []}"
    by (auto simp: bt_map_def)
  then show "\<exists>ks cells. (\<forall>k. presents (cells k) (bt_table w k)) \<and> sorted ks \<and> distinct ks \<and>
      set ks = {k. in_row_set rs k \<and> apply_filter (bt_full_match bt_map) f (cells k) \<noteq> []} \<and>
      bt_read_rows bt_map w rs limit f = map (\<lambda>k. (k, apply_filter (bt_full_match bt_map) f (cells k)))
        (case limit of None \<Rightarrow> ks | Some n \<Rightarrow> take (nat n) ks)"
    by (intro exI[of _ ?ks] exI[of _ "\<lambda>k. cells_of (row_dict w k)"])
      (simp add: bt_table_dict cells_of_presents sorted_filter[of "\<lambda>x. x", simplified] bt_map_def Let_def)
qed (simp add: bt_map_def Let_def)


end
