(* ===== verification/Store_Bigtable.thy ===== *)
theory Store_Bigtable
  imports Bigtable_Server
begin

text \<open>
  The Bigtable backend (\<open>memory/stores/bigtable.py\<close>): one row per key under \<open>hex(entity)#key\<close>, the
  conditional mutation that writes unless the latest stored sequence number is greater, and the
  prefix scan over a row range. On a documented server whose clients' clocks do not run behind
  its cells (\<open>stamped_by\<close>) it is a \<open>search_store\<close>.
\<close>

section \<open>The store\<close>

definition LTM_FAMILY :: string where "LTM_FAMILY = ''m''"
definition SEQ_COLUMN :: bytes where "SEQ_COLUMN = utf8 ''seq''"
definition RECORD_COLUMN :: bytes where "RECORD_COLUMN = utf8 ''rec''"

definition rstrip_ff :: "bytes \<Rightarrow> bytes" where
  "rstrip_ff bs = rev (dropWhile (\<lambda>b. b = 255) (rev bs))"

definition prefix_successor :: "bytes \<Rightarrow> bytes option" where
  "prefix_successor p =
     (let trimmed = rstrip_ff p in
      if trimmed = [] then None else Some (butlast trimmed @ [last trimmed + 1]))"

definition bt_row_key :: "bytes \<Rightarrow> string \<Rightarrow> bytes" where
  "bt_row_key entity_key key = utf8 (hex_bytes entity_key) @ utf8 ''#'' @ utf8 key"

definition stored_newer_filter :: "int \<Rightarrow> row_filter res" where
  "stored_newer_filter incoming_seq =
     bindE (encode_seq incoming_seq) (\<lambda>sq.
       Ok (RowFilterChain
         [FamilyNameRegexFilter LTM_FAMILY, ColumnQualifierRegexFilter SEQ_COLUMN, CellsColumnLimitFilter 1,
          ValueRangeFilter sq False]))"

definition latest_cells_filter :: row_filter where
  "latest_cells_filter = RowFilterChain [FamilyNameRegexFilter LTM_FAMILY, CellsColumnLimitFilter 1]"

definition record_cell :: "cell list \<Rightarrow> bytes option" where
  "record_cell cells = map_option c_value (List.find (\<lambda>c. c_qualifier c = RECORD_COLUMN) cells)"

definition bt_load :: "'w bigtable_server \<Rightarrow> lt_codec \<Rightarrow> 'w \<Rightarrow> bytes \<Rightarrow> string \<Rightarrow> memory_record option res" where
  "bt_load srv codec w entity_key key =
     (let rows = bt_read_rows srv w (RowKeys [bt_row_key entity_key key]) None latest_cells_filter in
      case List.map_filter (\<lambda>row. record_cell (snd row)) rows of
        [] \<Rightarrow> Ok None
      | envelope # _ \<Rightarrow> bindE (decode_envelope codec entity_key envelope) (\<lambda>r. Ok (Some r)))"

definition bt_save :: "'w bigtable_server \<Rightarrow> lt_codec \<Rightarrow> 'w \<Rightarrow> memory_record \<Rightarrow> (bool \<times> 'w) res" where
  "bt_save srv codec w r =
     bindE (stored_newer_filter (mr_seq r)) (\<lambda>newer.
     bindE (encode_seq (mr_seq r)) (\<lambda>sq.
       let (stored_is_newer, w') =
         bt_check_and_mutate srv (bt_client_clock srv w) (bt_row_key (mr_entity r) (mr_key r)) newer []
           [SetCell LTM_FAMILY SEQ_COLUMN sq, SetCell LTM_FAMILY RECORD_COLUMN (encode_envelope codec r)] w in
       Ok (\<not> stored_is_newer, w')))"

definition bt_search ::
  "'w bigtable_server \<Rightarrow> lt_codec \<Rightarrow> 'w \<Rightarrow> bytes \<Rightarrow> string \<Rightarrow> int \<Rightarrow> memory_record list res" where
  "bt_search srv codec w entity_key p limit =
     (let start = bt_row_key entity_key p;
          rows = bt_read_rows srv w (RowRange start (prefix_successor start)) (Some limit) latest_cells_filter in
      mapE (decode_envelope codec entity_key) (List.map_filter (\<lambda>row. record_cell (snd row)) rows))"

definition bt_store :: "'w bigtable_server \<Rightarrow> lt_codec \<Rightarrow> 'w backend" where
  "bt_store srv codec =
     \<lparr>bk_load = bt_load srv codec, bk_save = bt_save srv codec, bk_search = bt_search srv codec\<rparr>"

section \<open>The row range of a prefix\<close>

lemma word_succ_less: "x \<noteq> (255 :: 8 word) \<Longrightarrow> y < x + 1 \<longleftrightarrow> y \<le> x"
proof -
  assume "x \<noteq> 255"
  then have "uint x \<noteq> 255" by (metis uint_word_of_int_eq word_of_int_uint word_of_int_numeral)
  then have "uint x < 255" using uint_bounds[of x] by simp
  then have "uint (x + 1) = uint x + 1" by (simp add: uint_word_ariths(1))
  then show ?thesis by (simp add: word_less_def word_le_def)
qed

lemma below_ff: "x \<le> (255 :: 8 word)"
  using uint_bounds[of x] by (simp add: word_le_def)

lemma all_ff_prefix: "replicate n (255 :: 8 word) \<le> k \<longleftrightarrow> prefix (replicate n 255) k"
proof (induction n arbitrary: k)
  case (Suc n)
  have "\<not> 255 < y" for y :: "8 word" using below_ff[of y] by simp
  with Suc show ?case by (cases k) auto
qed simp

lemma successor_between:
  assumes "x \<noteq> (255 :: 8 word)"
  shows "t @ [x] @ replicate n 255 \<le> k \<and> k < t @ [x + 1] \<longleftrightarrow> prefix (t @ [x] @ replicate n 255) k"
proof (induction t arbitrary: k)
  case Nil
  show ?case
  proof (cases k)
    case (Cons y r)
    have "replicate n 255 \<le> r \<longleftrightarrow> prefix (replicate n 255) r" by (rule all_ff_prefix)
    moreover have "y < x + 1 \<longleftrightarrow> y \<le> x" by (rule word_succ_less[OF assms])
    moreover have "y = x + 1 \<and> r < [] \<longleftrightarrow> False" by simp
    ultimately show ?thesis unfolding Cons append_Nil append_Cons Cons_le_Cons Cons_less_Cons Cons_prefix_Cons
      by (metis linorder_not_le order_le_less)
  qed simp
next
  case (Cons a t)
  show ?case
  proof (cases k)
    case (Cons y r)
    then show ?thesis using Cons.IH[of r] by (metis Cons_le_Cons Cons_less_Cons Cons_prefix_Cons append_Cons less_asym)
  qed simp
qed

lemma rstrip_ff_split: "p = rstrip_ff p @ replicate (length p - length (rstrip_ff p)) 255"
proof -
  have "rev p = takeWhile (\<lambda>b. b = 255) (rev p) @ dropWhile (\<lambda>b. b = 255) (rev p)" by simp
  moreover have "takeWhile (\<lambda>b. b = 255) (rev p) = replicate (length (takeWhile (\<lambda>b. b = 255) (rev p))) 255"
    by (rule replicate_length_same[symmetric]) (auto dest: set_takeWhileD)
  ultimately have "p = rstrip_ff p @ rev (replicate (length (takeWhile (\<lambda>b. b = 255) (rev p))) 255)"
    unfolding rstrip_ff_def by (metis rev_append rev_rev_ident)
  then have p: "p = rstrip_ff p @ replicate (length (takeWhile (\<lambda>b. b = 255) (rev p))) 255" by simp
  then have "length (takeWhile (\<lambda>b. b = 255) (rev p)) = length p - length (rstrip_ff p)"
    by (metis add_diff_cancel_left' length_append length_replicate)
  then show ?thesis using p by simp
qed

lemma rstrip_ff_last: "rstrip_ff p \<noteq> [] \<Longrightarrow> last (rstrip_ff p) \<noteq> 255"
  unfolding rstrip_ff_def by (metis (mono_tags, lifting) hd_dropWhile last_rev rev.simps(1))

lemma prefix_range: "in_row_set (RowRange p (prefix_successor p)) k \<longleftrightarrow> prefix p k"
proof (cases "rstrip_ff p = []")
  case True
  then have "p = replicate (length p) 255" using rstrip_ff_split[of p] by simp
  then have "p \<le> k \<longleftrightarrow> prefix p k" using all_ff_prefix[of "length p" k] by simp
  then show ?thesis using True by (simp add: prefix_successor_def)
next
  case False
  let ?t = "rstrip_ff p"
  let ?n = "length p - length ?t"
  have p: "butlast ?t @ last ?t # replicate ?n 255 = p"
    using rstrip_ff_split[of p] append_butlast_last_id[OF False] by (metis append.assoc append_Cons append_Nil)
  show ?thesis
    using successor_between[OF rstrip_ff_last[OF False], of "butlast ?t" ?n k] False
    by (simp add: prefix_successor_def Let_def p)
qed

section \<open>Row keys\<close>

lemma utf8_less [simp]: "utf8 s < utf8 t \<longleftrightarrow> s < t" and utf8_le [simp]: "utf8 s \<le> utf8 t \<longleftrightarrow> s \<le> t"
  and utf8_prefix [simp]: "prefix (utf8 s) (utf8 t) \<longleftrightarrow> prefix s t"
proof -
  have num: "unat (of_char c :: 8 word) = of_char c" for c :: char
  proof -
    have "(of_char c :: 8 word) = word_of_nat (of_char c)" by (metis of_nat_of_char)
    moreover have "(of_char c :: nat) < 256" by simp
    ultimately show ?thesis by (simp add: unat_of_nat)
  qed
  have ord: "(of_char c :: 8 word) < of_char d \<longleftrightarrow> c < d" "(of_char c :: 8 word) = of_char d \<longleftrightarrow> c = d" for c d :: char
    by (simp_all add: less_char_def word_less_nat_alt word_unat_eq_iff num)
  have "(utf8 s < utf8 t \<longleftrightarrow> s < t) \<and> (utf8 s \<le> utf8 t \<longleftrightarrow> s \<le> t) \<and> (prefix (utf8 s) (utf8 t) \<longleftrightarrow> prefix s t)"
  proof (induction s arbitrary: t)
    case (Cons c s)
    then show ?case by (cases t) (simp_all add: utf8_def ord)
  next
    case Nil
    then show ?case by (cases t) (simp_all add: utf8_def)
  qed
  then show "utf8 s < utf8 t \<longleftrightarrow> s < t" "utf8 s \<le> utf8 t \<longleftrightarrow> s \<le> t" "prefix (utf8 s) (utf8 t) \<longleftrightarrow> prefix s t"
    by simp_all
qed

lemma hex_hash_prefix:
  "hex_bytes e @ ''#'' @ k = hex_bytes e' @ ''#'' @ k' \<longleftrightarrow> e = e' \<and> k = k'"
  "prefix (hex_bytes e @ ''#'' @ p) (hex_bytes e' @ ''#'' @ k) \<longleftrightarrow> e = e' \<and> prefix p k"
proof -
  have nohash: "CHR ''#'' \<notin> set (hex_bytes e)" for e
  proof -
    have "hex_digit n \<noteq> CHR ''#''" if "n < 16" for n
    proof
      assume "hex_digit n = CHR ''#''"
      then have "(of_char (hex_digit n) :: nat) = 35" by simp
      then show False using that by (simp add: hex_digit_def split: if_splits)
    qed
    moreover have "unat x div 16 < 16" for x :: "8 word" using unat_byte[of x] by simp
    ultimately have "CHR ''#'' \<notin> set (hex_byte x)" for x by (simp add: hex_byte_def eq_commute[of "CHR ''#''"])
    then show ?thesis by (simp add: hex_bytes_def)
  qed
  have upto: "takeWhile (\<lambda>c. c \<noteq> CHR ''#'') (hex_bytes e @ CHR ''#'' # k) = hex_bytes e" for e k
    using nohash[of e] by (subst takeWhile_append2) auto
  show "hex_bytes e @ ''#'' @ k = hex_bytes e' @ ''#'' @ k' \<longleftrightarrow> e = e' \<and> k = k'"
    using upto[of e k] upto[of e' k'] by auto
  show "prefix (hex_bytes e @ ''#'' @ p) (hex_bytes e' @ ''#'' @ k) \<longleftrightarrow> e = e' \<and> prefix p k"
    using upto[of e "p @ q" for q] upto[of e' k] by (auto simp: prefix_def)
qed

lemma bt_row_key_as_string: "bt_row_key e k = utf8 (hex_bytes e @ ''#'' @ k)"
  by (simp only: bt_row_key_def utf8_append)

lemma bt_row_key_eq [simp]: "bt_row_key e k = bt_row_key e' k' \<longleftrightarrow> e = e' \<and> k = k'"
  using hex_hash_prefix(1)[of e k e' k'] by (simp add: bt_row_key_as_string del: append.simps utf8_append)

lemma bt_row_key_le [simp]: "bt_row_key e k \<le> bt_row_key e k' \<longleftrightarrow> k \<le> k'"
  by (simp add: bt_row_key_def)

lemma bt_row_key_prefix: "prefix (bt_row_key e p) rk \<longleftrightarrow> (\<exists>k. rk = bt_row_key e k \<and> prefix p k)"
proof
  assume "prefix (bt_row_key e p) rk"
  then obtain r where "rk = bt_row_key e p @ r" by (rule prefixE)
  then have "rk = bt_row_key e (p @ of_utf8 r)" by (simp add: bt_row_key_def)
  then show "\<exists>k. rk = bt_row_key e k \<and> prefix p k" by auto
next
  assume "\<exists>k. rk = bt_row_key e k \<and> prefix p k"
  then show "prefix (bt_row_key e p) rk" by (auto simp: bt_row_key_def prefix_def)
qed

section \<open>The rows of a table\<close>

definition seq_cell :: "bt_row \<Rightarrow> bytes option" where
  "seq_cell row = latest row (LTM_FAMILY, SEQ_COLUMN)"

definition rec_cell :: "bt_row \<Rightarrow> bytes option" where
  "rec_cell row = latest row (LTM_FAMILY, RECORD_COLUMN)"

definition bt_entry :: "bt_row \<Rightarrow> (int \<times> bytes) option" where
  "bt_entry row = (case rec_cell row of None \<Rightarrow> None | Some b \<Rightarrow> Some (from_be (the (seq_cell row)), b))"

definition bt_view :: "('w \<Rightarrow> bytes \<Rightarrow> bt_row) \<Rightarrow> 'w \<Rightarrow> row_view" where
  "bt_view table w e k = bt_entry (table w (bt_row_key e k))"

text \<open>A row holds both cells or no cell of the family.\<close>

definition bt_row_ok :: "int \<Rightarrow> bt_row \<Rightarrow> bool" where
  "bt_row_ok now row \<longleftrightarrow> stamped_by now row \<and>
     ((\<forall>qual. latest row (LTM_FAMILY, qual) = None) \<or>
      (\<exists>q b. seq_storable q \<and> seq_cell row = Some (to_be 8 q) \<and> rec_cell row = Some b))"

definition bt_inv :: "'w bigtable_server \<Rightarrow> ('w \<Rightarrow> bytes \<Rightarrow> bt_row) \<Rightarrow> lt_codec \<Rightarrow> 'w \<Rightarrow> bool" where
  "bt_inv srv table codec w \<longleftrightarrow> codec_ok codec \<and> rows_wf codec (bt_view table w) \<and>
     (\<forall>rk. bt_row_ok (bt_client_clock srv w) (table w rk))"

definition bt_admits :: "memory_record \<Rightarrow> bool" where
  "bt_admits r \<longleftrightarrow> mr_seq r < 2 ^ 64"

lemma columns [simp]:
  "plain_pattern (utf8 LTM_FAMILY)" "plain_pattern SEQ_COLUMN" "SEQ_COLUMN \<noteq> RECORD_COLUMN" "RECORD_COLUMN \<noteq> SEQ_COLUMN"
  by (simp_all add: plain_pattern_def LTM_FAMILY_def SEQ_COLUMN_def RECORD_COLUMN_def utf8_def)

lemma bt_entry_cases:
  assumes "bt_row_ok now row"
  obtains "seq_cell row = None" "rec_cell row = None" "bt_entry row = None" "\<forall>qual. latest row (LTM_FAMILY, qual) = None"
  | q b where "seq_storable q" "seq_cell row = Some (to_be 8 q)" "rec_cell row = Some b" "bt_entry row = Some (q, b)"
proof -
  have "from_be (to_be 8 q) = q" if "seq_storable q" for q
    using that by (intro from_to_be) (simp_all add: seq_storable_def)
  then show ?thesis using assms that by (auto simp: bt_row_ok_def bt_entry_def seq_cell_def rec_cell_def)
qed

lemma save_mutations:
  assumes row: "stamped_by now row" and q: "seq_storable q"
  shows "bt_entry (apply_mutations now [SetCell LTM_FAMILY SEQ_COLUMN (to_be 8 q), SetCell LTM_FAMILY RECORD_COLUMN b] row)
      = Some (q, b)" (is "bt_entry ?row = _")
    and "bt_row_ok now (apply_mutations now [SetCell LTM_FAMILY SEQ_COLUMN (to_be 8 q), SetCell LTM_FAMILY RECORD_COLUMN b] row)"
proof -
  let ?one = "row((LTM_FAMILY, SEQ_COLUMN) := put_version now (to_be 8 q) (row (LTM_FAMILY, SEQ_COLUMN)))"
  note one = latest_put[OF row, of "(LTM_FAMILY, SEQ_COLUMN)" "to_be 8 q"]
  note two = latest_put[OF one(2), of "(LTM_FAMILY, RECORD_COLUMN)" b]
  have eq: "?row = ?one((LTM_FAMILY, RECORD_COLUMN) := put_version now b (?one (LTM_FAMILY, RECORD_COLUMN)))"
    by (simp add: apply_mutations_def)
  have cells: "seq_cell ?row = Some (to_be 8 q)" "rec_cell ?row = Some b"
    unfolding seq_cell_def rec_cell_def eq two(1) one(1) by simp_all
  show "bt_row_ok now ?row" unfolding bt_row_ok_def using cells q two(2) unfolding eq by blast
  have "from_be (to_be 8 q) = q" using q by (intro from_to_be) (simp_all add: seq_storable_def)
  then show "bt_entry ?row = Some (q, b)" by (simp add: bt_entry_def cells)
qed

lemma bt_row_ok_later: "\<lbrakk>bt_row_ok now row; now \<le> t\<rbrakk> \<Longrightarrow> bt_row_ok t row"
  using stamped_by_later unfolding bt_row_ok_def by blast

context bigtable_documented
begin

lemma record_cell_latest:
  assumes "presents cells row"
  shows "record_cell (apply_filter (bt_full_match srv) latest_cells_filter cells) = rec_cell row"
proof -
  let ?out = "apply_filter (bt_full_match srv) latest_cells_filter cells"
  note fam = latest_of_family[OF assms columns(1), of ?out, folded latest_cells_filter_def, OF refl]
  have "c_qualifier c = RECORD_COLUMN \<longleftrightarrow> column_of c = (LTM_FAMILY, RECORD_COLUMN)" if "c \<in> set ?out" for c
    using fam(2) that by (auto simp: column_of_def)
  then have "filter (\<lambda>c. c_qualifier c = RECORD_COLUMN) ?out = filter (\<lambda>c. column_of c = (LTM_FAMILY, RECORD_COLUMN)) ?out"
    by (rule filter_cong[OF refl])
  then have "map c_value (filter (\<lambda>c. c_qualifier c = RECORD_COLUMN) ?out) = (case rec_cell row of None \<Rightarrow> [] | Some v \<Rightarrow> [v])"
    using fam(1)[of RECORD_COLUMN] by (simp add: rec_cell_def)
  moreover have "map_option f (List.find P xs) = (case map f (filter P xs) of [] \<Rightarrow> None | y # _ \<Rightarrow> Some y)" for f :: "cell \<Rightarrow> bytes" and P xs
    by (induction xs) simp_all
  ultimately show ?thesis by (simp add: record_cell_def split: option.split)
qed

lemma filtered_rows:
  assumes "presents cells row" and "bt_row_ok now row"
  shows "apply_filter (bt_full_match srv) latest_cells_filter cells \<noteq> [] \<longleftrightarrow> bt_entry row \<noteq> None"
proof -
  let ?out = "apply_filter (bt_full_match srv) latest_cells_filter cells"
  note fam = latest_of_family[OF assms(1) columns(1), of ?out, folded latest_cells_filter_def, OF refl]
  show ?thesis using assms(2)
  proof (cases rule: bt_entry_cases)
    case 1
    have "\<not> c \<in> set ?out" for c
      using fam(2) fam(3)[of c] 1(4) by (auto simp: column_of_def)
    then have "?out = []" by (metis list.set_intros(1) neq_Nil_conv)
    then show ?thesis using 1(3) by simp
  next
    case (2 q b)
    then have "filter (\<lambda>c. column_of c = (LTM_FAMILY, RECORD_COLUMN)) ?out \<noteq> []"
      using fam(1)[of RECORD_COLUMN] by (auto simp: rec_cell_def)
    then have "?out \<noteq> []" by auto
    then show ?thesis using 2 by simp
  qed
qed

text \<open>The rows a query returns, and what the client reads off them.\<close>

lemma read_envelopes:
  assumes ok: "\<forall>rk. bt_row_ok now (table w rk)"
  obtains ks where "sorted ks" "distinct ks" "set ks = {k. in_row_set rs k \<and> bt_entry (table w k) \<noteq> None}"
    "List.map_filter (\<lambda>row. record_cell (snd row)) (bt_read_rows srv w rs limit latest_cells_filter) =
      map (\<lambda>k. snd (the (bt_entry (table w k)))) (case limit of None \<Rightarrow> ks | Some n \<Rightarrow> take (nat n) ks)"
proof -
  obtain ks cells where c: "\<forall>k. presents (cells k) (table w k)" and ks: "sorted ks" "distinct ks"
      "set ks = {k. in_row_set rs k \<and> apply_filter (bt_full_match srv) latest_cells_filter (cells k) \<noteq> []}"
    and rows: "bt_read_rows srv w rs limit latest_cells_filter =
        map (\<lambda>k. (k, apply_filter (bt_full_match srv) latest_cells_filter (cells k)))
          (case limit of None \<Rightarrow> ks | Some n \<Rightarrow> take (nat n) ks)"
    using read_rows[of w rs latest_cells_filter limit] by blast
  have set: "set ks = {k. in_row_set rs k \<and> bt_entry (table w k) \<noteq> None}"
    using ks(3) filtered_rows[OF c[rule_format] ok[rule_format]] by blast
  have entry: "record_cell (apply_filter (bt_full_match srv) latest_cells_filter (cells k)) = Some (snd (the (bt_entry (table w k))))"
    if "k \<in> set ks" for k
    using record_cell_latest[OF c[rule_format, of k]] that set by (auto simp: bt_entry_def split: option.splits)
  let ?got = "case limit of None \<Rightarrow> ks | Some n \<Rightarrow> take (nat n) ks"
  have got: "set ?got \<subseteq> set ks" by (auto dest: in_set_takeD split: option.splits)
  have "List.map_filter (\<lambda>row. record_cell (snd row)) (map (\<lambda>k. (k, apply_filter (bt_full_match srv) latest_cells_filter (cells k))) xs) =
      map (\<lambda>k. snd (the (bt_entry (table w k)))) xs" if "set xs \<subseteq> set ks" for xs
    using that entry by (induction xs) (auto simp: map_filter_simps)
  then show ?thesis using that[OF ks(1,2) set] rows got by simp
qed

end

section \<open>The store keeps the contract\<close>

context bigtable_documented
begin

lemma bt_load_view:
  assumes inv: "bt_inv srv table codec w"
  shows "bt_load srv codec w e k = read_row codec (bt_view table w) e k"
proof -
  have "\<forall>rk. bt_row_ok (bt_client_clock srv w) (table w rk)" using inv by (simp add: bt_inv_def)
  then obtain ks where "sorted ks" and ks: "distinct ks" "set ks = {rk. in_row_set (RowKeys [bt_row_key e k]) rk \<and> bt_entry (table w rk) \<noteq> None}"
    and got: "List.map_filter (\<lambda>row. record_cell (snd row))
        (bt_read_rows srv w (RowKeys [bt_row_key e k]) None latest_cells_filter) =
      map (\<lambda>k. snd (the (bt_entry (table w k)))) (case None of None \<Rightarrow> ks | Some n \<Rightarrow> take (nat n) ks)"
    by (rule read_envelopes)
  have "ks = (if bt_entry (table w (bt_row_key e k)) = None then [] else [bt_row_key e k])"
  proof (cases "bt_entry (table w (bt_row_key e k)) = None")
    case True
    then have "set ks = {}" using ks(2) by auto
    then show ?thesis using True by simp
  next
    case False
    then have "set ks = {bt_row_key e k}" using ks(2) by auto
    moreover from this have "length ks = 1" using distinct_card[OF ks(1)] by simp
    ultimately show ?thesis using False by (cases ks) auto
  qed
  then show ?thesis by (auto simp: bt_load_def got read_row_def bt_view_def Let_def)
qed

lemma bt_save_view:
  assumes inv: "bt_inv srv table codec w" and r: "record_ok r" "bt_admits r"
  shows "\<exists>w'. bt_save srv codec w r = Ok (guard_holds r (bt_view table w), w') \<and> bt_inv srv table codec w' \<and>
    bt_view table w' = save_row codec r (bt_view table w)"
proof -
  let ?rk = "bt_row_key (mr_entity r) (mr_key r)" and ?now = "bt_client_clock srv w"
  let ?sq = "to_be 8 (mr_seq r)"
  let ?newer = "RowFilterChain [FamilyNameRegexFilter LTM_FAMILY, ColumnQualifierRegexFilter SEQ_COLUMN,
    CellsColumnLimitFilter 1, ValueRangeFilter ?sq False]"
  let ?puts = "[SetCell LTM_FAMILY SEQ_COLUMN ?sq, SetCell LTM_FAMILY RECORD_COLUMN (encode_envelope codec r)]"
  have q: "seq_storable (mr_seq r)" using r by (simp add: seq_storable_def record_ok_def bt_admits_def)
  obtain newer w' where cam: "bt_check_and_mutate srv ?now ?rk ?newer [] ?puts w = (newer, w')" by fastforce
  have ok: "bt_row_ok ?now (table w rk)" for rk using inv by (simp add: bt_inv_def)
  obtain cells where cells: "presents cells (table w ?rk)"
      and hit: "newer = (apply_filter (bt_full_match srv) ?newer cells \<noteq> [])"
      and tab: "table w' = (table w)(?rk := apply_mutations ?now (if newer then [] else ?puts) (table w ?rk))"
    using check_and_mutate[OF cam] by blast
  have "newer = (\<exists>v. seq_cell (table w ?rk) = Some v \<and> ?sq < v)"
    unfolding hit seq_cell_def by (rule latest_predicate[OF cells columns(1,2)]) simp
  then have newer: "newer = (\<not> guard_holds r (bt_view table w))"
    by (cases rule: bt_entry_cases[OF ok[of ?rk]])
      (auto simp: guard_holds_def bt_view_def seq_guard_applies_def to_be_order(1)[OF q])
  have sv: "bt_save srv codec w r = Ok (\<not> newer, w')"
    by (simp add: bt_save_def stored_newer_filter_def encode_seq_ok[OF q] cam del: One_nat_def)
  have clock: "?now \<le> bt_client_clock srv w'"
    using clock_runs_on[of w ?now ?rk ?newer "[]" ?puts] by (simp add: cam del: One_nat_def)
  note wr = save_mutations[of ?now "table w ?rk" "mr_seq r" "encode_envelope codec r", OF _ q]
  have stamped: "stamped_by ?now (table w ?rk)" using ok[of ?rk] by (simp add: bt_row_ok_def)
  have view: "bt_view table w' = save_row codec r (bt_view table w)"
    using wr(1)[OF stamped]
    by (auto simp: fun_eq_iff bt_view_def tab save_row_at newer row_id_def apply_mutations_def)
  have "bt_row_ok (bt_client_clock srv w') (table w' rk)" for rk
    using bt_row_ok_later[OF ok clock, of rk] bt_row_ok_later[OF wr(2)[OF stamped] clock]
    by (auto simp: tab apply_mutations_def)
  then show ?thesis
    using sv newer view inv rows_wf_save[of codec "bt_view table w" r] r by (simp add: bt_inv_def record_ok_def)
qed

lemma bt_search_view:
  assumes inv: "bt_inv srv table codec w"
  shows "bt_search srv codec w e p limit = find_rows codec (bt_view table w) e p limit"
proof -
  let ?start = "bt_row_key e p"
  let ?rs = "RowRange ?start (prefix_successor ?start)"
  obtain rks where rks: "sorted rks" "distinct rks" "set rks = {rk. in_row_set ?rs rk \<and> bt_entry (table w rk) \<noteq> None}"
    and got: "List.map_filter (\<lambda>row. record_cell (snd row)) (bt_read_rows srv w ?rs (Some limit) latest_cells_filter) =
        map (\<lambda>k. snd (the (bt_entry (table w k)))) (take (nat limit) rks)"
    using read_envelopes[of "bt_client_clock srv w" w ?rs "Some limit"] inv unfolding bt_inv_def by auto
  have "\<forall>rk \<in> set rks. \<exists>k. rk = bt_row_key e k" using rks(3) by (auto simp only: prefix_range bt_row_key_prefix)
  then obtain key where key: "\<And>rk. rk \<in> set rks \<Longrightarrow> rk = bt_row_key e (key rk)" by metis
  define ks where "ks = map key rks"
  have map_ks: "rks = map (bt_row_key e) ks"
    unfolding ks_def using key by (simp add: map_idI)
  have "sorted ks" "distinct ks" using rks(1,2) unfolding map_ks by (simp_all add: sorted_map distinct_map)
  moreover have "set ks = {k \<in> dom (bt_view table w e). prefix p k}"
  proof -
    have "k \<in> set ks \<longleftrightarrow> bt_row_key e k \<in> set rks" for k unfolding map_ks by auto
    then show ?thesis unfolding rks(3) prefix_range bt_row_key_prefix by (auto simp: bt_view_def)
  qed
  ultimately have "matching_keys (bt_view table w) e p = ks" by (rule matching_keys_eqI)
  then show ?thesis
    by (simp add: bt_search_def got find_rows_def map_ks take_map mapE_map bt_view_def Let_def)
qed

end

sublocale bigtable_documented \<subseteq>
  bigtable: search_store "bt_store srv codec" codec bt_admits "bt_inv srv table codec" "bt_view table" for codec
  by unfold_locales (simp_all add: bt_store_def bt_load_view bt_save_view bt_search_view, simp_all add: bt_inv_def)

context bigtable_documented
begin

lemma bigtable_runs:
  "\<lbrakk>bt_inv srv table codec w; \<forall>op \<in> set ops. op_admitted bt_admits op\<rbrakk> \<Longrightarrow>
   run_ops (bt_store srv codec) w ops = spec_ops codec (bt_view table w) ops"
  by (rule bigtable.runs_are_spec)

end

end
