(* ===== verification/Store_Firestore.thy ===== *)
theory Store_Firestore
  imports Store_Bigtable
begin

text \<open>
  The Firestore backend (\<open>memory/stores/firestore.py\<close>): one document per key under
  \<open>hex(entity)#quote(key)\<close>, the guarded upsert of a transaction, and the ordered range query
  bounded above by the prefix followed by U+FFFF. On a documented server it is a \<open>row_store\<close>; it
  is a \<open>search_store\<close> where no key has a character from U+FFFF on (\<open>low_key\<close>).
\<close>

section \<open>The store\<close>

record fs_doc =
  fd_entity :: string
  fd_key :: string
  fd_seq :: int
  fd_rec :: bytes

record 'w firestore_server =
  fs_get :: "'w \<Rightarrow> string \<Rightarrow> fs_doc option"
  fs_set :: "string \<Rightarrow> fs_doc \<Rightarrow> 'w \<Rightarrow> 'w"
  fs_query :: "'w \<Rightarrow> string \<Rightarrow> string \<Rightarrow> string \<Rightarrow> int \<Rightarrow> fs_doc list"

text \<open>\<open>urllib.parse.quote(key, safe="")\<close>: every byte but the unreserved characters becomes \<open>%XX\<close>.\<close>

definition unreserved :: "char \<Rightarrow> bool" where
  "unreserved c = (let n = (of_char c :: nat) in
     (48 \<le> n \<and> n \<le> 57) \<or> (65 \<le> n \<and> n \<le> 90) \<or> (97 \<le> n \<and> n \<le> 122) \<or> c \<in> set ''_.-~'')"

definition upper_hex_digit :: "nat \<Rightarrow> char" where
  "upper_hex_digit n = (if n < 10 then char_of (48 + n) else char_of (55 + n))"

definition quote_char :: "char \<Rightarrow> string" where
  "quote_char c =
     (if unreserved c then [c]
      else [CHR ''%'', upper_hex_digit ((of_char c :: nat) div 16), upper_hex_digit ((of_char c :: nat) mod 16)])"

definition url_quote :: "string \<Rightarrow> string" where
  "url_quote s = concat (map quote_char s)"

definition fs_doc_id :: "bytes \<Rightarrow> string \<Rightarrow> string" where
  "fs_doc_id entity_key key = hex_bytes entity_key @ ''#'' @ url_quote key"

definition MAX_BMP :: string where "MAX_BMP = [CHR 0xEF, CHR 0xBF, CHR 0xBF]"

definition fs_load :: "'w firestore_server \<Rightarrow> lt_codec \<Rightarrow> 'w \<Rightarrow> bytes \<Rightarrow> string \<Rightarrow> memory_record option res" where
  "fs_load srv codec w entity_key key =
     (case fs_get srv w (fs_doc_id entity_key key) of
        None \<Rightarrow> Ok None
      | Some snapshot \<Rightarrow> bindE (decode_envelope codec entity_key (fd_rec snapshot)) (\<lambda>r. Ok (Some r)))"

definition fs_save :: "'w firestore_server \<Rightarrow> lt_codec \<Rightarrow> 'w \<Rightarrow> memory_record \<Rightarrow> (bool \<times> 'w) res" where
  "fs_save srv codec w r =
     (let doc = fs_doc_id (mr_entity r) (mr_key r);
          payload = \<lparr>fd_entity = hex_bytes (mr_entity r), fd_key = mr_key r, fd_seq = mr_seq r,
                     fd_rec = encode_envelope codec r\<rparr> in
      case fs_get srv w doc of
        Some snapshot \<Rightarrow> if mr_seq r < fd_seq snapshot then Ok (False, w) else Ok (True, fs_set srv doc payload w)
      | None \<Rightarrow> Ok (True, fs_set srv doc payload w))"

definition fs_search ::
  "'w firestore_server \<Rightarrow> lt_codec \<Rightarrow> 'w \<Rightarrow> bytes \<Rightarrow> string \<Rightarrow> int \<Rightarrow> memory_record list res" where
  "fs_search srv codec w entity_key p limit =
     mapE (\<lambda>snapshot. decode_envelope codec entity_key (fd_rec snapshot))
       (fs_query srv w (hex_bytes entity_key) p (p @ MAX_BMP) limit)"

definition fs_store :: "'w firestore_server \<Rightarrow> lt_codec \<Rightarrow> 'w backend" where
  "fs_store srv codec =
     \<lparr>bk_load = fs_load srv codec, bk_save = fs_save srv codec, bk_search = fs_search srv codec\<rparr>"

section \<open>Document identifiers\<close>

text \<open>A quoted key unquotes to itself, so distinct keys have distinct documents.\<close>

definition upper_hex_value :: "char \<Rightarrow> nat" where
  "upper_hex_value c = (let n = of_char c in if n < 58 then n - 48 else n - 55)"

fun url_unquote :: "string \<Rightarrow> string" where
  "url_unquote [] = []"
| "url_unquote (c # cs) =
     (if c = CHR ''%'' then
        (case cs of a # b # rest \<Rightarrow> char_of (16 * upper_hex_value a + upper_hex_value b) # url_unquote rest | _ \<Rightarrow> c # cs)
      else c # url_unquote cs)"

lemma upper_hex_value_digit: "n < 16 \<Longrightarrow> upper_hex_value (upper_hex_digit n) = n"
  by (simp add: upper_hex_value_def upper_hex_digit_def Let_def)

lemma unquote_quote: "url_unquote (url_quote s) = s"
proof (induction s)
  case (Cons c s)
  have "(of_char c :: nat) < 256" by simp
  then have "(of_char c :: nat) div 16 < 16" by (simp add: div_less_iff_less_mult)
  then have "char_of (16 * upper_hex_value (upper_hex_digit (of_char c div 16)) +
      upper_hex_value (upper_hex_digit (of_char c mod 16))) = c"
    by (simp only: upper_hex_value_digit) (simp add: upper_hex_value_digit)
  moreover have "\<not> unreserved (CHR ''%'')" by (simp add: unreserved_def)
  ultimately show ?case using Cons by (auto simp: url_quote_def quote_char_def)
qed (simp add: url_quote_def)

lemma url_quote_eq [simp]: "url_quote s = url_quote t \<longleftrightarrow> s = t"
  by (metis unquote_quote)

lemma fs_doc_id_eq [simp]: "fs_doc_id e k = fs_doc_id e' k' \<longleftrightarrow> e = e' \<and> k = k'"
  using hex_hash_prefix(1)[of e "url_quote k" e' "url_quote k'"] by (simp add: fs_doc_id_def)

text \<open>A document identifier has no slash and is none of the reserved ones.\<close>

definition valid_doc_id :: "string \<Rightarrow> bool" where
  "valid_doc_id i \<longleftrightarrow> i \<noteq> [] \<and> CHR ''/'' \<notin> set i \<and> i \<noteq> ''.'' \<and> i \<noteq> ''..'' \<and> \<not> prefix ''__'' i"

lemma no_slash_digit: "n < 16 \<Longrightarrow> upper_hex_digit n \<noteq> CHR ''/''" and hex_digit_plain: "n < 16 \<Longrightarrow> hex_digit n \<notin> set ''/._''"
proof -
  assume n: "n < 16"
  have "upper_hex_digit n = c \<Longrightarrow> (of_char c :: nat) \<in> {48..57} \<union> {65..70}" for c
    using n by (auto simp: upper_hex_digit_def split: if_splits)
  from this[of "CHR ''/''"] show "upper_hex_digit n \<noteq> CHR ''/''" by auto
  have "hex_digit n = c \<Longrightarrow> (of_char c :: nat) \<in> {48..57} \<union> {97..102}" for c
    using n by (auto simp: hex_digit_def split: if_splits)
  from this[of "CHR ''/''"] this[of "CHR ''.''"] this[of "CHR ''_''"] show "hex_digit n \<notin> set ''/._''" by auto
qed

lemma fs_doc_id_valid: "valid_doc_id (fs_doc_id e k)"
proof -
  have "CHR ''/'' \<notin> set (quote_char c)" for c
  proof -
    have "(of_char c :: nat) < 256" by simp
    then have "(of_char c :: nat) div 16 < 16" by (simp add: div_less_iff_less_mult)
    then show ?thesis
      using no_slash_digit[of "of_char c div 16"] no_slash_digit[of "of_char c mod 16"]
      by (auto simp: quote_char_def unreserved_def eq_commute[of "CHR ''/''"])
  qed
  then have q: "CHR ''/'' \<notin> set (url_quote k)" by (simp add: url_quote_def)
  have hex: "c \<in> set (hex_bytes e) \<Longrightarrow> c \<notin> set ''/._''" for c
  proof -
    assume "c \<in> set (hex_bytes e)"
    then obtain b where "c = hex_digit (unat b div 16) \<or> c = hex_digit (unat b mod 16)" and "b \<in> set e"
      by (auto simp: hex_bytes_def hex_byte_def)
    moreover have "unat b div 16 < 16" using unat_byte[of b] by (simp add: div_less_iff_less_mult)
    ultimately show ?thesis using hex_digit_plain[of "unat b div 16"] hex_digit_plain[of "unat b mod 16"] by fastforce
  qed
  show ?thesis
    using hex q by (cases "hex_bytes e") (auto simp: valid_doc_id_def fs_doc_id_def)
qed

section \<open>The range of a prefix\<close>

lemma range_above_prefix:
  "p \<le> k \<and> k < p @ m \<longleftrightarrow> (\<exists>t. k = p @ t \<and> t < (m :: 'a::linorder list))"
proof (induction p arbitrary: k)
  case (Cons a p)
  show ?case
  proof (cases k)
    case (Cons b r)
    have "a < b \<or> a = b \<and> p \<le> r \<Longrightarrow> b < a \<or> b = a \<and> r < p @ m \<Longrightarrow> a = b" by auto
    then show ?thesis using Cons.IH[of r] Cons by auto
  qed simp
qed simp

definition low_key :: "string \<Rightarrow> bool" where
  "low_key k \<longleftrightarrow> list_all (\<lambda>t. t < MAX_BMP) (suffixes k)"

lemma low_key_range: "low_key k \<Longrightarrow> p \<le> k \<and> k < p @ MAX_BMP \<longleftrightarrow> prefix p k"
  unfolding range_above_prefix by (auto simp: low_key_def list_all_iff prefix_def suffix_def)

section \<open>The documented server\<close>

locale firestore_documented =
  fixes srv :: "'w firestore_server"
    and docs :: "'w \<Rightarrow> string \<Rightarrow> fs_doc option"
  assumes get: "fs_get srv w i = docs w i"
    and set_doc: "\<lbrakk>valid_doc_id i; fd_seq d < 2 ^ 63\<rbrakk> \<Longrightarrow> docs (fs_set srv i d w) = (docs w)(i \<mapsto> d)"
    and query: "\<exists>ds. distinct ds \<and>
      set ds = {(i, d). docs w i = Some d \<and> fd_entity d = ent \<and> lo \<le> fd_key d \<and> fd_key d < hi} \<and>
      sorted (map (\<lambda>x. fd_key (snd x)) ds) \<and> fs_query srv w ent lo hi limit = map snd (take (nat limit) ds)"

definition fs_view :: "('w \<Rightarrow> string \<Rightarrow> fs_doc option) \<Rightarrow> 'w \<Rightarrow> row_view" where
  "fs_view docs w e k = map_option (\<lambda>d. (fd_seq d, fd_rec d)) (docs w (fs_doc_id e k))"

definition fs_inv :: "(string \<Rightarrow> bool) \<Rightarrow> ('w \<Rightarrow> string \<Rightarrow> fs_doc option) \<Rightarrow> lt_codec \<Rightarrow> 'w \<Rightarrow> bool" where
  "fs_inv good docs codec w \<longleftrightarrow> codec_ok codec \<and> rows_wf codec (fs_view docs w) \<and>
     (\<forall>i d. docs w i = Some d \<longrightarrow>
        (\<exists>e. i = fs_doc_id e (fd_key d) \<and> fd_entity d = hex_bytes e \<and> good (fd_key d)))"

lemma fs_invD:
  assumes "fs_inv good docs codec w" and "docs w (fs_doc_id e k) = Some d"
  shows "fd_key d = k \<and> fd_entity d = hex_bytes e \<and> good k"
proof -
  obtain e' where "fs_doc_id e k = fs_doc_id e' (fd_key d)" "fd_entity d = hex_bytes e'" "good (fd_key d)"
    using assms unfolding fs_inv_def by blast
  then show ?thesis by simp
qed

definition fs_admits :: "(string \<Rightarrow> bool) \<Rightarrow> memory_record \<Rightarrow> bool" where
  "fs_admits good r \<longleftrightarrow> mr_seq r < 2 ^ 63 \<and> good (mr_key r)"

sublocale firestore_documented \<subseteq>
  fs_rows: row_store "fs_store srv codec" codec "fs_admits good" "fs_inv good docs codec" "fs_view docs" for codec good
proof unfold_locales
  fix s e and k :: string
  show "bk_load (fs_store srv codec) s e k = read_row codec (fs_view docs s) e k"
    by (auto simp: fs_store_def fs_load_def read_row_def get fs_view_def split: option.splits)
next
  fix s r assume a: "fs_inv good docs codec s" "record_ok r" "fs_admits good r"
  let ?id = "fs_doc_id (mr_entity r) (mr_key r)"
  let ?doc = "\<lparr>fd_entity = hex_bytes (mr_entity r), fd_key = mr_key r, fd_seq = mr_seq r, fd_rec = encode_envelope codec r\<rparr>"
  let ?s = "if guard_holds r (fs_view docs s) then fs_set srv ?id ?doc s else s"
  have sv: "fs_save srv codec s r = Ok (guard_holds r (fs_view docs s), ?s)"
    by (auto simp: fs_save_def get guard_holds_def seq_guard_applies_def fs_view_def Let_def split: option.splits)
  have docs: "docs (fs_set srv ?id ?doc s) = (docs s)(?id \<mapsto> ?doc)"
    using a(3) by (intro set_doc fs_doc_id_valid) (simp add: fs_admits_def)
  have view: "fs_view docs ?s = save_row codec r (fs_view docs s)"
    by (auto simp: fun_eq_iff fs_view_def docs save_row_at row_id_def)
  have "fs_inv good docs codec ?s"
    using a rows_wf_save[of codec "fs_view docs s" r] unfolding fs_inv_def view
    by (auto simp: docs record_ok_def fs_admits_def)
  then show "\<exists>s'. bk_save (fs_store srv codec) s r = Ok (guard_holds r (fs_view docs s), s') \<and> fs_inv good docs codec s' \<and>
      fs_view docs s' = save_row codec r (fs_view docs s)"
    using sv view by (auto simp: fs_store_def)
qed (simp_all add: fs_inv_def)

context firestore_documented
begin

text \<open>The keys a search finds: those that continue the prefix by something below U+FFFF.\<close>

lemma fs_search_rows:
  assumes inv: "fs_inv good docs codec w"
  shows "\<exists>ks. sorted ks \<and> distinct ks \<and>
    set ks = {k \<in> dom (fs_view docs w e). \<exists>t. k = p @ t \<and> t < MAX_BMP} \<and>
    fs_search srv codec w e p limit =
      mapE (\<lambda>k. decode_envelope codec e (snd (the (fs_view docs w e k)))) (take (nat limit) ks)"
proof -
  obtain ds where ds: "distinct ds"
      "set ds = {(i, d). docs w i = Some d \<and> fd_entity d = hex_bytes e \<and> p \<le> fd_key d \<and> fd_key d < p @ MAX_BMP}"
      "sorted (map (\<lambda>x. fd_key (snd x)) ds)"
    and got: "fs_query srv w (hex_bytes e) p (p @ MAX_BMP) limit = map snd (take (nat limit) ds)"
    using query[of w "hex_bytes e" p "p @ MAX_BMP" limit] by blast
  define ks where "ks = map (\<lambda>x. fd_key (snd x)) ds"
  have doc: "fst x = fs_doc_id e (fd_key (snd x)) \<and> docs w (fst x) = Some (snd x)" if "x \<in> set ds" for x
    using that ds(2) inv unfolding fs_inv_def by fastforce
  have "inj_on (\<lambda>x. fd_key (snd x)) (set ds)"
    using doc by (intro inj_onI prod_eqI) (metis, metis option.inject)
  then have "distinct ks" using ds(1) by (simp add: ks_def distinct_map)
  moreover have "set ks = {k \<in> dom (fs_view docs w e). \<exists>t. k = p @ t \<and> t < MAX_BMP}"
  proof (intro set_eqI iffI)
    fix k assume "k \<in> set ks"
    then obtain x where x: "x \<in> set ds" "k = fd_key (snd x)" by (auto simp: ks_def)
    then show "k \<in> {k \<in> dom (fs_view docs w e). \<exists>t. k = p @ t \<and> t < MAX_BMP}"
      using doc[OF x(1)] ds(2) range_above_prefix[of p k MAX_BMP] by (auto simp: fs_view_def)
  next
    fix k assume k: "k \<in> {k \<in> dom (fs_view docs w e). \<exists>t. k = p @ t \<and> t < MAX_BMP}"
    then obtain d where d: "docs w (fs_doc_id e k) = Some d" by (auto simp: fs_view_def)
    then have "fd_key d = k" "fd_entity d = hex_bytes e" using fs_invD[OF inv] by blast+
    then have "(fs_doc_id e k, d) \<in> set ds" using k d ds(2) range_above_prefix[of p k MAX_BMP] by auto
    then show "k \<in> set ks" using \<open>fd_key d = k\<close> by (force simp: ks_def)
  qed
  moreover have "fs_search srv codec w e p limit =
      mapE (\<lambda>x. decode_envelope codec e (fd_rec (snd x))) (take (nat limit) ds)"
    by (simp add: fs_search_def got mapE_map)
  moreover have "\<dots> = mapE (\<lambda>x. decode_envelope codec e (snd (the (fs_view docs w e (fd_key (snd x)))))) (take (nat limit) ds)"
  proof (rule mapE_cong[OF refl])
    fix x assume "x \<in> set (take (nat limit) ds)"
    from doc[OF in_set_takeD[OF this]] have "docs w (fs_doc_id e (fd_key (snd x))) = Some (snd x)" by metis
    then show "decode_envelope codec e (fd_rec (snd x)) = decode_envelope codec e (snd (the (fs_view docs w e (fd_key (snd x)))))"
      by (simp add: fs_view_def)
  qed
  ultimately show ?thesis using ds(3) by (intro exI[of _ ks]) (simp add: ks_def take_map mapE_map)
qed

end

sublocale firestore_documented \<subseteq>
  firestore: search_store "fs_store srv codec" codec "fs_admits low_key" "fs_inv low_key docs codec" "fs_view docs" for codec
proof unfold_locales
  fix s e p limit assume inv: "fs_inv low_key docs codec s"
  obtain ks where ks: "sorted ks" "distinct ks" "set ks = {k \<in> dom (fs_view docs s e). \<exists>t. k = p @ t \<and> t < MAX_BMP}"
      "fs_search srv codec s e p limit =
        mapE (\<lambda>k. decode_envelope codec e (snd (the (fs_view docs s e k)))) (take (nat limit) ks)"
    using fs_search_rows[OF inv] by blast
  have "low_key k" if "k \<in> dom (fs_view docs s e)" for k
    using that fs_invD[OF inv] by (auto simp: fs_view_def)
  then have "set ks = {k \<in> dom (fs_view docs s e). prefix p k}"
    using ks(3) low_key_range[of _ p] unfolding range_above_prefix by blast
  then have "matching_keys (fs_view docs s) e p = ks" by (rule matching_keys_eqI[OF ks(1,2)])
  then show "bk_search (fs_store srv codec) s e p limit = find_rows codec (fs_view docs s) e p limit"
    using ks(4) by (simp add: fs_store_def find_rows_def)
qed

context firestore_documented
begin

lemma firestore_runs:
  "\<lbrakk>fs_inv low_key docs codec w; \<forall>op \<in> set ops. op_admitted (fs_admits low_key) op\<rbrakk> \<Longrightarrow>
   run_ops (fs_store srv codec) w ops = spec_ops codec (fs_view docs w) ops"
  by (rule firestore.runs_are_spec)

end

section \<open>A table of documents has the documented behaviour\<close>

type_synonym fs_rows = "(string, fs_doc) dict"

definition fs_map :: "fs_rows firestore_server" where
  "fs_map =
     \<lparr>fs_get = (\<lambda>w i. map_of w i),
      fs_set = (\<lambda>i d w. AList.update i d w),
      fs_query = (\<lambda>w ent lo hi limit.
        map snd (take (nat limit) (sort_key (\<lambda>x. fd_key (snd x))
          (filter (\<lambda>x. fd_entity (snd x) = ent \<and> lo \<le> fd_key (snd x) \<and> fd_key (snd x) < hi)
            (map (\<lambda>i. (i, the (map_of w i))) (remdups (map fst w)))))))\<rparr>"

definition fs_docs :: "fs_rows \<Rightarrow> string \<Rightarrow> fs_doc option" where
  "fs_docs w i = map_of w i"

interpretation fs_any: firestore_documented fs_map fs_docs
proof unfold_locales
  fix w :: fs_rows and ent lo hi limit
  let ?all = "map (\<lambda>i. (i, the (map_of w i))) (remdups (map fst w))"
  let ?ds = "sort_key (\<lambda>x. fd_key (snd x))
    (filter (\<lambda>x. fd_entity (snd x) = ent \<and> lo \<le> fd_key (snd x) \<and> fd_key (snd x) < hi) ?all)"
  have "map_of w i \<noteq> None \<longleftrightarrow> i \<in> fst ` set w" for i by (simp add: map_of_eq_None_iff)
  then have "set ?all = {(i, d). map_of w i = Some d}" by force
  then have "set ?ds = {(i, d). fs_docs w i = Some d \<and> fd_entity d = ent \<and> lo \<le> fd_key d \<and> fd_key d < hi}"
    by (auto simp: fs_docs_def)
  moreover have "distinct ?ds" by (simp add: distinct_map inj_on_def)
  ultimately show "\<exists>ds. distinct ds \<and>
      set ds = {(i, d). fs_docs w i = Some d \<and> fd_entity d = ent \<and> lo \<le> fd_key d \<and> fd_key d < hi} \<and>
      sorted (map (\<lambda>x. fd_key (snd x)) ds) \<and> fs_query fs_map w ent lo hi limit = map snd (take (nat limit) ds)"
    by (intro exI[of _ ?ds]) (simp add: fs_map_def)
qed (auto simp: fs_map_def fs_docs_def update_conv' fun_eq_iff)

end
