(* ===== verification/Store_Backends.thy ===== *)
theory Store_Backends
  imports Store_Sql Store_Redis Store_Firestore
begin

text \<open>
  The long-term store backends side by side: on servers that behave as documented, and for records
  every backend can hold, the SQL, Redis, Bigtable and Firestore stores answer every sequence of
  calls as the in-memory store does. The places where a documented server behaves otherwise are
  stated on concrete servers.
\<close>

section \<open>Records every backend holds\<close>

definition portable :: "memory_record \<Rightarrow> bool" where
  "portable r \<longleftrightarrow> mr_seq r < 2 ^ 63 \<and> - (2 ^ 63) \<le> mr_updated r \<and> mr_updated r < 2 ^ 63 \<and> low_key (mr_key r)"

definition op_portable :: "store_op \<Rightarrow> bool" where
  "op_portable op = (case op of OpSave r \<Rightarrow> record_ok r \<longrightarrow> portable r | _ \<Rightarrow> True)"

lemma portable_admitted:
  assumes "op_portable op"
  shows "op_admitted sql_admits op" and "op_admitted redis_admits op" and "op_admitted bt_admits op"
    and "op_admitted (fs_admits low_key) op" and "op_admitted (\<lambda>_. True) op"
  using assms by (auto simp: op_portable_def op_admitted_def portable_def sql_admits_def redis_admits_def
      bt_admits_def fs_admits_def)

lemma in_memory_runs: "im_rows_ok codec rows \<Longrightarrow> run_ops (in_memory codec) rows ops = spec_ops codec (im_view rows) ops"
  by (erule im_rows.runs_are_spec) (simp add: op_admitted_def)

section \<open>Demonstration data\<close>

definition keyed :: "string \<Rightarrow> int \<Rightarrow> bytes \<Rightarrow> memory_record" where
  "keyed key q v = \<lparr>mr_entity = [7], mr_key = key, mr_value = v, mr_seq = q, mr_updated = 0\<rparr>"

lemma read_back:
  "decode_envelope delimited_codec [7] (encode_envelope delimited_codec (keyed k q v)) = Ok (keyed k q v)"
  using decode_encode[OF delimited_codec_ok, of "keyed k q v"] by (simp add: keyed_def)

lemma keyed_fields [simp]:
  "mr_key (keyed k q v) = k" "mr_entity (keyed k q v) = [7]" "mr_seq (keyed k q v) = q"
  by (simp_all add: keyed_def)

lemmas store_calls = store_save_def store_load_def store_search_def require_key_def seq_guard_applies_def Let_def

lemmas in_memory_calls = in_memory_def im_save_def im_load_def im_search_def im_entity_def

text \<open>A row whose cells are stamped at 9 and a client whose clock reads 5.\<close>

definition behind_rows :: "bytes \<Rightarrow> (int \<times> bytes) list \<Rightarrow> (int \<times> bytes) list \<Rightarrow> (bytes, (column, (int \<times> bytes) list) dict) dict" where
  "behind_rows rk sqs recs = [(rk, [((LTM_FAMILY, SEQ_COLUMN), sqs), ((LTM_FAMILY, RECORD_COLUMN), recs)])]"

lemma behind_dict [simp]:
  "row_dict (t, behind_rows rk sqs recs) rk = [((LTM_FAMILY, SEQ_COLUMN), sqs), ((LTM_FAMILY, RECORD_COLUMN), recs)]"
  by (simp add: row_dict_def behind_rows_def)

lemma behind_cells [simp]:
  "cells_of [((LTM_FAMILY, SEQ_COLUMN), sqs), ((LTM_FAMILY, RECORD_COLUMN), recs)] =
     map (\<lambda>v. \<lparr>c_family = LTM_FAMILY, c_qualifier = SEQ_COLUMN, c_value = snd v\<rparr>) sqs @
     map (\<lambda>v. \<lparr>c_family = LTM_FAMILY, c_qualifier = RECORD_COLUMN, c_value = snd v\<rparr>) recs"
  by (simp add: cells_of_def)

lemma behind_clock_write:
  assumes "\<not> s2 < s1"
  shows "bt_check_and_mutate bt_map 5 rk
     (RowFilterChain [FamilyNameRegexFilter LTM_FAMILY, ColumnQualifierRegexFilter SEQ_COLUMN, CellsColumnLimitFilter 1,
        ValueRangeFilter s2 False]) []
     [SetCell LTM_FAMILY SEQ_COLUMN s2, SetCell LTM_FAMILY RECORD_COLUMN e2] (5, behind_rows rk [(9, s1)] [(9, e1)]) =
   (False, 6, behind_rows rk [(9, s1), (5, s2)] [(9, e1), (5, e2)])"
proof -
  have "apply_filter (\<lambda>p s. s = p) (RowFilterChain [FamilyNameRegexFilter LTM_FAMILY, ColumnQualifierRegexFilter SEQ_COLUMN,
      CellsColumnLimitFilter 1, ValueRangeFilter s2 False])
    (cells_of (row_dict (5, behind_rows rk [(9, s1)] [(9, e1)]) rk)) = []"
    using assms by simp
  then show ?thesis
    by (simp add: bt_map_def Let_def del: apply_filter.simps One_nat_def) (simp add: behind_rows_def)
qed

lemma behind_clock_read:
  "bt_read_rows bt_map (6, behind_rows rk [(9, s1), (5, s2)] [(9, e1), (5, e2)]) (RowKeys [rk]) None latest_cells_filter =
   [(rk, [\<lparr>c_family = LTM_FAMILY, c_qualifier = SEQ_COLUMN, c_value = s1\<rparr>,
          \<lparr>c_family = LTM_FAMILY, c_qualifier = RECORD_COLUMN, c_value = e1\<rparr>])]"
proof -
  have "apply_filter (\<lambda>p s. s = p) latest_cells_filter
      (cells_of (row_dict (6, behind_rows rk [(9, s1), (5, s2)] [(9, e1), (5, e2)]) rk)) =
    [\<lparr>c_family = LTM_FAMILY, c_qualifier = SEQ_COLUMN, c_value = s1\<rparr>,
     \<lparr>c_family = LTM_FAMILY, c_qualifier = RECORD_COLUMN, c_value = e1\<rparr>]"
    by (simp add: latest_cells_filter_def column_of_def)
  moreover have "sort (remdups (map fst (behind_rows rk sqs recs))) = [rk]" for sqs recs by (simp add: behind_rows_def)
  ultimately show ?thesis by (simp add: bt_map_def Let_def)
qed

section \<open>Properties\<close>


definition demo_ops :: "store_op list" where
  "demo_ops = [OpSave (keyed ''b'' 3 [1]), OpSave (keyed ''a'' 3 [2]), OpSave (keyed ''a'' 2 [9]), OpSearch [7] [] 1, OpLoad [7] ''a'']"

lemma demo_ops_in_memory:
  "run_ops (in_memory delimited_codec) [] demo_ops =
     [Saved (Ok True), Saved (Ok True), Saved (Ok False), Found (Ok [keyed ''a'' 3 [2]]), Loaded (Ok (Some (keyed ''a'' 3 [2])))]"
  by (simp add: demo_ops_def store_calls in_memory_calls read_back)


text \<open>
  A Bigtable prefix scan reads exactly the keys that begin with the prefix: the end of its row
  range, the successor of the start, leaves out no matching row and lets in no other.
\<close>

theorem prefix_scan_exact:
  "in_row_set (RowRange (bt_row_key e p) (prefix_successor (bt_row_key e p))) rk \<longleftrightarrow>
     (\<exists>k. rk = bt_row_key e k \<and> take (length p) k = p)"
proof -
  have "prefix p k \<longleftrightarrow> take (length p) k = p" for k by (metis append_eq_conv_conj prefixE prefixI take_is_prefix)
  then show ?thesis by (simp only: prefix_range bt_row_key_prefix)
qed

text \<open>
  On SQLite, whose \<open>LIKE\<close> ignores ASCII case, a search returns a record whose key does not
  begin with the prefix; the in-memory store does not.
\<close>

theorem sqlite_search_folds_case:
  "run_ops (sql_store sqlite delimited_codec) [] [OpSave (keyed ''Case/1'' 1 []), OpSearch [7] ''case/'' 10] =
     [Saved (Ok True), Found (Ok [keyed ''Case/1'' 1 []])] \<and>
   run_ops (in_memory delimited_codec) [] [OpSave (keyed ''Case/1'' 1 []), OpSearch [7] ''case/'' 10] =
     [Saved (Ok True), Found (Ok [])]"
proof -
  have "begins (\<lambda>c d. ascii_lower c = ascii_lower d) ''case/'' ''Case/1''" by code_simp
  then show ?thesis
    by (simp add: store_calls in_memory_calls read_back sql_store_def sql_save_def sql_search_def sqlite_def sql_map_def
        keys_under_def like_escaped)
qed

text \<open>
  A Firestore search misses a key that continues the prefix with a character from U+FFFF on
  (here U+1F600), which the in-memory store returns.
\<close>

theorem firestore_misses_astral_keys:
  "run_ops (fs_store fs_map delimited_codec) []
     [OpSave (keyed (''case/'' @ [CHR 0xF0, CHR 0x9F, CHR 0x98, CHR 0x80]) 1 []), OpSearch [7] ''case/'' 10] =
     [Saved (Ok True), Found (Ok [])] \<and>
   run_ops (in_memory delimited_codec) []
     [OpSave (keyed (''case/'' @ [CHR 0xF0, CHR 0x9F, CHR 0x98, CHR 0x80]) 1 []), OpSearch [7] ''case/'' 10] =
     [Saved (Ok True), Found (Ok [keyed (''case/'' @ [CHR 0xF0, CHR 0x9F, CHR 0x98, CHR 0x80]) 1 []])]"
  by (simp add: store_calls in_memory_calls read_back fs_store_def fs_save_def fs_search_def fs_map_def MAX_BMP_def less_char_def)

text \<open>
  A Redis scan that returns each field twice, which the server documents as possible, makes a
  search return one record twice and leave out another that is within its limit.
\<close>

theorem redis_scan_repeats:
  "run_ops (redis_store (hash_map 1) delimited_codec) []
     [OpSave (keyed ''a'' 1 []), OpSave (keyed ''b'' 1 []), OpSearch [7] [] 2] =
     [Saved (Ok True), Saved (Ok True), Found (Ok [keyed ''a'' 1 [], keyed ''a'' 1 []])]"
  by (simp add: store_calls read_back redis_store_def redis_save_def redis_search_def save_script_def hash_map_def
      encode_seq_def keys_under_def glob_literal)

text \<open>
  A Bigtable save from a client whose clock is behind the stored cells reports that it applied
  and changes nothing a reader sees: the row keeps its older record.
\<close>

theorem behind_clock_save_lost:
  "run_ops (bt_store bt_map delimited_codec)
     (5, [(bt_row_key [7] ''a'',
        [((LTM_FAMILY, SEQ_COLUMN), [(9, to_be 8 1)]),
         ((LTM_FAMILY, RECORD_COLUMN), [(9, encode_envelope delimited_codec (keyed ''a'' 1 [1]))])])])
     [OpSave (keyed ''a'' 2 [2]), OpLoad [7] ''a''] =
     [Saved (Ok True), Loaded (Ok (Some (keyed ''a'' 1 [1])))]"
proof -
  have q: "encode_seq 2 = Ok (to_be 8 2)" "\<not> to_be 8 2 < to_be 8 1"
    by (simp_all add: encode_seq_ok to_be_order seq_storable_def del: to_be.simps)
  let ?e = "encode_envelope delimited_codec"
  note wrote = behind_clock_write[OF q(2)]
  note reads = behind_clock_read[of "bt_row_key [7] ''a''" "to_be 8 1" "to_be 8 2" "?e (keyed ''a'' 1 [1])" "?e (keyed ''a'' 2 [2])"]
  have clock: "bt_client_clock bt_map (5, rows) = 5" for rows by (simp add: bt_map_def)
  have "bt_save bt_map delimited_codec (5, behind_rows (bt_row_key [7] ''a'') [(9, to_be 8 1)] [(9, ?e (keyed ''a'' 1 [1]))])
      (keyed ''a'' 2 [2]) =
    Ok (True, 6, behind_rows (bt_row_key [7] ''a'') [(9, to_be 8 1), (5, to_be 8 2)]
      [(9, ?e (keyed ''a'' 1 [1])), (5, ?e (keyed ''a'' 2 [2]))])"
    by (simp add: bt_save_def stored_newer_filter_def q clock wrote del: One_nat_def to_be.simps)
  moreover have "bt_load bt_map delimited_codec (6, behind_rows (bt_row_key [7] ''a'') [(9, to_be 8 1), (5, to_be 8 2)]
      [(9, ?e (keyed ''a'' 1 [1])), (5, ?e (keyed ''a'' 2 [2]))]) [7] ''a'' = Ok (Some (keyed ''a'' 1 [1]))"
    by (simp add: bt_load_def reads map_filter_simps record_cell_def read_back)
  ultimately show ?thesis by (simp add: store_calls bt_store_def flip: behind_rows_def)
qed

end
