(* ===== verification/Dedup_Bigtable.thy ===== *)
theory Dedup_Bigtable
  imports Dedup Bigtable_Server
begin

text \<open>
  The Bigtable dedup store (\<open>BigtableDedupStore\<close> of \<open>effector/dedup.py\<close>): claims, terminal records
  and their expiries in four columns of one row per intent, decided by conditional mutations whose
  predicates read the latest cell of a column. Against the lease table of the contract
  (\<open>spec_claim\<close>, \<open>spec_complete\<close>, \<open>spec_release\<close>): a claim is the table's; completing and releasing
  ask for the owner cell alone, so they are the table's as long as the caller's lease has not run
  out unnoticed.
\<close>

section \<open>The store\<close>

definition DEDUP_FAMILY :: string where "DEDUP_FAMILY = ''d''"
definition CLAIM_COLUMN :: bytes where "CLAIM_COLUMN = utf8 ''claim''"
definition OWNER_COLUMN :: bytes where "OWNER_COLUMN = utf8 ''owner''"
definition RESULT_COLUMN :: bytes where "RESULT_COLUMN = utf8 ''result''"
definition RESULT_EXPIRY_COLUMN :: bytes where "RESULT_EXPIRY_COLUMN = utf8 ''rexp''"

definition encode_lease_expiry :: "msec \<Rightarrow> bytes res" where
  "encode_lease_expiry expires_at_ms =
     (if expires_at_ms < 0 then Err ValueError
      else if 2 ^ 64 \<le> expires_at_ms then Err OverflowError
      else Ok (to_be 8 expires_at_ms))"

definition decode_lease_expiry :: "bytes \<Rightarrow> msec" where
  "decode_lease_expiry encoded = from_be (take 8 encoded)"

definition live_expiry_filter :: "bytes \<Rightarrow> msec \<Rightarrow> row_filter res" where
  "live_expiry_filter column now_ms =
     bindE (encode_lease_expiry now_ms) (\<lambda>v. Ok (RowFilterChain
       [FamilyNameRegexFilter DEDUP_FAMILY, ColumnQualifierRegexFilter column, CellsColumnLimitFilter 1,
        ValueRangeFilter v False]))"

definition live_claim_filter :: "msec \<Rightarrow> row_filter res" where
  "live_claim_filter now_ms = live_expiry_filter CLAIM_COLUMN now_ms"

definition live_result_filter :: "msec \<Rightarrow> row_filter res" where
  "live_result_filter now_ms = live_expiry_filter RESULT_EXPIRY_COLUMN now_ms"

definition taken_filter :: "msec \<Rightarrow> row_filter res" where
  "taken_filter now_ms =
     bindE (live_claim_filter now_ms) (\<lambda>c. bindE (live_result_filter now_ms) (\<lambda>r. Ok (RowFilterUnion [c, r])))"

definition owner_filter :: "string \<Rightarrow> row_filter" where
  "owner_filter token = RowFilterChain
     [FamilyNameRegexFilter DEDUP_FAMILY, ColumnQualifierRegexFilter OWNER_COLUMN, CellsColumnLimitFilter 1,
      ValueRegexFilter (utf8 token)]"

definition state_filter :: row_filter where
  "state_filter = RowFilterChain [FamilyNameRegexFilter DEDUP_FAMILY, CellsColumnLimitFilter 1]"

text \<open>The cells of a row as a dict by qualifier; a later cell replaces an earlier one.\<close>

definition cell_dict :: "cell list \<Rightarrow> bytes \<Rightarrow> bytes option" where
  "cell_dict cells = map_of (rev (map (\<lambda>c. (c_qualifier c, c_value c)) cells))"

fun scan_state :: "result_codec \<Rightarrow> msec \<Rightarrow> (bytes \<times> cell list) list \<Rightarrow> claim_outcome res" where
  "scan_state codec now_ms [] = Ok InFlight"
| "scan_state codec now_ms ((k, cells) # rows) =
     (case (cell_dict cells RESULT_COLUMN, cell_dict cells RESULT_EXPIRY_COLUMN) of
        (Some stored, Some expiry) \<Rightarrow>
          if now_ms < decode_lease_expiry expiry then decode_done codec stored else scan_state codec now_ms rows
      | _ \<Rightarrow> scan_state codec now_ms rows)"

definition read_state :: "'w bigtable_server \<Rightarrow> result_codec \<Rightarrow> 'w \<Rightarrow> string \<Rightarrow> msec \<Rightarrow> claim_outcome res" where
  "read_state srv codec w intent_id now_ms =
     scan_state codec now_ms (bt_read_rows srv w (RowKeys [utf8 intent_id]) None state_filter)"

definition btd_claim ::
  "'w bigtable_server \<Rightarrow> result_codec \<Rightarrow> msec \<Rightarrow> string \<Rightarrow> string \<Rightarrow> int \<Rightarrow> 'w \<Rightarrow> claim_outcome res \<times> 'w" where
  "btd_claim srv codec now_ms token intent_id lease_ms w =
     (case bindE (taken_filter now_ms) (\<lambda>f. bindE (encode_lease_expiry (now_ms + lease_ms)) (\<lambda>v. Ok (f, v))) of
        Inl err \<Rightarrow> (Err err, w)
      | Inr (f, expiry) \<Rightarrow>
          let (taken, w') = bt_check_and_mutate srv (bt_client_clock srv w) (utf8 intent_id) f []
                [SetCell DEDUP_FAMILY CLAIM_COLUMN expiry, SetCell DEDUP_FAMILY OWNER_COLUMN (utf8 token)] w in
          if taken then (read_state srv codec w' intent_id now_ms, w') else (Ok (Claimed token), w'))"

definition btd_complete ::
  "'w bigtable_server \<Rightarrow> result_codec \<Rightarrow> msec \<Rightarrow> string \<Rightarrow> string \<Rightarrow> tool_result option \<Rightarrow> int \<Rightarrow> 'w \<Rightarrow> bool res \<times> 'w" where
  "btd_complete srv codec now_ms token intent_id result ttl_ms w =
     (let stored = drop (length TAG_DONE) (encode_done codec result) in
      case encode_lease_expiry (now_ms + ttl_ms) of
        Inl err \<Rightarrow> (Err err, w)
      | Inr expiry \<Rightarrow>
          let (owned, w') = bt_check_and_mutate srv (bt_client_clock srv w) (utf8 intent_id) (owner_filter token)
                [SetCell DEDUP_FAMILY RESULT_COLUMN stored, SetCell DEDUP_FAMILY RESULT_EXPIRY_COLUMN expiry,
                 DeleteRangeFromColumn DEDUP_FAMILY CLAIM_COLUMN, DeleteRangeFromColumn DEDUP_FAMILY OWNER_COLUMN] [] w in
          (Ok owned, w'))"

definition btd_release :: "'w bigtable_server \<Rightarrow> string \<Rightarrow> string \<Rightarrow> 'w \<Rightarrow> bool \<times> 'w" where
  "btd_release srv token intent_id w =
     bt_check_and_mutate srv (bt_client_clock srv w) (utf8 intent_id) (owner_filter token)
       [DeleteRangeFromColumn DEDUP_FAMILY CLAIM_COLUMN, DeleteRangeFromColumn DEDUP_FAMILY OWNER_COLUMN] [] w"

section \<open>The record of a row\<close>

definition cell_at :: "bt_row \<Rightarrow> bytes \<Rightarrow> bytes option" where
  "cell_at row qual = latest row (DEDUP_FAMILY, qual)"

text \<open>The owner of a row, whether or not its lease has run out.\<close>

definition owner_of :: "bt_row \<Rightarrow> string option" where
  "owner_of row = map_option of_utf8 (cell_at row OWNER_COLUMN)"

definition expiry_of :: "bt_row \<Rightarrow> bytes \<Rightarrow> msec option" where
  "expiry_of row qual = map_option decode_lease_expiry (cell_at row qual)"

definition past :: "msec \<Rightarrow> msec option \<Rightarrow> bool" where
  "past t e \<longleftrightarrow> (case e of None \<Rightarrow> True | Some x \<Rightarrow> x \<le> t)"

definition row_slot :: "result_codec \<Rightarrow> msec \<Rightarrow> bt_row \<Rightarrow> slot option" where
  "row_slot codec t row =
     (if \<not> past t (expiry_of row RESULT_EXPIRY_COLUMN) then Some (terminal_of codec (the (cell_at row RESULT_COLUMN)))
      else if \<not> past t (expiry_of row CLAIM_COLUMN) then Some (Held (the (owner_of row)))
      else None)"

definition btd_view :: "('w \<Rightarrow> bytes \<Rightarrow> bt_row) \<Rightarrow> result_codec \<Rightarrow> 'w \<Rightarrow> lease_table" where
  "btd_view table codec w t i = row_slot codec t (table w (utf8 i))"

text \<open>
  A row carries its claim and owner together, its result and expiry together, and a claim only
  beside a record that has expired.
\<close>

definition dedup_row_ok :: "result_codec \<Rightarrow> msec \<Rightarrow> int \<Rightarrow> bt_row \<Rightarrow> bool" where
  "dedup_row_ok codec now clock row \<longleftrightarrow> stamped_by clock row \<and>
     (cell_at row CLAIM_COLUMN = None \<longleftrightarrow> cell_at row OWNER_COLUMN = None) \<and>
     (cell_at row RESULT_COLUMN = None \<longleftrightarrow> cell_at row RESULT_EXPIRY_COLUMN = None) \<and>
     (\<forall>v qual. qual \<in> {CLAIM_COLUMN, RESULT_EXPIRY_COLUMN} \<longrightarrow> cell_at row qual = Some v \<longrightarrow>
        (\<exists>x. seq_storable x \<and> v = to_be 8 x)) \<and>
     (\<forall>p. cell_at row RESULT_COLUMN = Some p \<longrightarrow> readable_done codec p) \<and>
     (cell_at row CLAIM_COLUMN \<noteq> None \<longrightarrow> past now (expiry_of row RESULT_EXPIRY_COLUMN))"

definition btd_inv ::
  "'w bigtable_server \<Rightarrow> ('w \<Rightarrow> bytes \<Rightarrow> bt_row) \<Rightarrow> result_codec \<Rightarrow> msec \<Rightarrow> 'w \<Rightarrow> bool" where
  "btd_inv srv table codec now w \<longleftrightarrow> result_codec_ok codec \<and>
     (\<forall>k. dedup_row_ok codec now (bt_client_clock srv w) (table w k))"

lemma dedup_columns [simp]:
  "plain_pattern (utf8 DEDUP_FAMILY)" "plain_pattern CLAIM_COLUMN" "plain_pattern OWNER_COLUMN"
  "plain_pattern RESULT_COLUMN" "plain_pattern RESULT_EXPIRY_COLUMN"
  "CLAIM_COLUMN \<noteq> OWNER_COLUMN" "CLAIM_COLUMN \<noteq> RESULT_COLUMN" "CLAIM_COLUMN \<noteq> RESULT_EXPIRY_COLUMN"
  "OWNER_COLUMN \<noteq> CLAIM_COLUMN" "OWNER_COLUMN \<noteq> RESULT_COLUMN" "OWNER_COLUMN \<noteq> RESULT_EXPIRY_COLUMN"
  "RESULT_COLUMN \<noteq> CLAIM_COLUMN" "RESULT_COLUMN \<noteq> OWNER_COLUMN" "RESULT_COLUMN \<noteq> RESULT_EXPIRY_COLUMN"
  "RESULT_EXPIRY_COLUMN \<noteq> CLAIM_COLUMN" "RESULT_EXPIRY_COLUMN \<noteq> OWNER_COLUMN" "RESULT_EXPIRY_COLUMN \<noteq> RESULT_COLUMN"
  by (simp_all add: plain_pattern_def DEDUP_FAMILY_def CLAIM_COLUMN_def OWNER_COLUMN_def RESULT_COLUMN_def
      RESULT_EXPIRY_COLUMN_def utf8_def)

lemma encode_expiry_ok: "seq_storable x \<Longrightarrow> encode_lease_expiry x = Ok (to_be 8 x)"
  by (simp add: encode_lease_expiry_def seq_storable_def)

lemma decode_expiry: "seq_storable x \<Longrightarrow> decode_lease_expiry (to_be 8 x) = x"
  by (simp add: decode_lease_expiry_def seq_storable_def from_to_be)

section \<open>Mutations of the cells\<close>

definition cell_writes :: "mutation list \<Rightarrow> (bytes \<Rightarrow> bytes option) \<Rightarrow> bytes \<Rightarrow> bytes option" where
  "cell_writes ms = fold (\<lambda>m cells. case m of
       SetCell _ qual v \<Rightarrow> cells(qual \<mapsto> v)
     | DeleteRangeFromColumn _ qual \<Rightarrow> cells(qual := None)) ms"

definition in_family :: "mutation \<Rightarrow> bool" where
  "in_family m = (case m of SetCell f _ _ \<Rightarrow> f = DEDUP_FAMILY | DeleteRangeFromColumn f _ \<Rightarrow> f = DEDUP_FAMILY)"

lemma cells_after:
  "\<lbrakk>stamped_by now row; list_all in_family ms\<rbrakk> \<Longrightarrow>
   cell_at (apply_mutations now ms row) = cell_writes ms (cell_at row) \<and> stamped_by now (apply_mutations now ms row)"
proof (induction ms arbitrary: row)
  case (Cons m ms)
  have "cell_at (apply_mutation now m row) = cell_writes [m] (cell_at row) \<and> stamped_by now (apply_mutation now m row)"
  proof (cases m)
    case (SetCell f q v)
    then show ?thesis using latest_put[OF Cons.prems(1), of "(f, q)" v] Cons.prems(2)
      by (auto simp: cell_at_def fun_eq_iff cell_writes_def in_family_def)
  next
    case (DeleteRangeFromColumn f q)
    then show ?thesis using latest_delete(1)[of row "(f, q)"] latest_delete(2)[OF Cons.prems(1), of "(f, q)"] Cons.prems(2)
      by (auto simp: cell_at_def fun_eq_iff cell_writes_def in_family_def)
  qed
  then show ?case using Cons by (simp add: apply_mutations_def cell_writes_def)
qed (simp add: apply_mutations_def cell_writes_def)


text \<open>The row after the writes of each operation.\<close>

lemma row_facts:
  assumes "dedup_row_ok codec now clock row" and "seq_storable now"
  shows "row_slot codec now row = None \<longleftrightarrow> past now (expiry_of row CLAIM_COLUMN) \<and> past now (expiry_of row RESULT_EXPIRY_COLUMN)"
    and "past now (expiry_of row RESULT_EXPIRY_COLUMN) \<Longrightarrow> t \<ge> now \<Longrightarrow> past t (expiry_of row RESULT_EXPIRY_COLUMN)"
    and "owner_of row = Some tok \<Longrightarrow> past now (expiry_of row RESULT_EXPIRY_COLUMN)"
  using assms(1) by (auto simp: row_slot_def past_def dedup_row_ok_def owner_of_def split: option.splits)

lemma claimed_row:
  assumes ok: "dedup_row_ok codec now clock row" and free: "row_slot codec now row = None" and sn: "seq_storable now"
    and e: "seq_storable (now + lease)"
    and ms: "ms = [SetCell DEDUP_FAMILY CLAIM_COLUMN (to_be 8 (now + lease)), SetCell DEDUP_FAMILY OWNER_COLUMN (utf8 tok)]"
  shows "dedup_row_ok codec now clock (apply_mutations clock ms row)"
    and "t \<ge> now \<Longrightarrow> row_slot codec t (apply_mutations clock ms row) = (if t < now + lease then Some (Held tok) else None)"
    and "owner_of (apply_mutations clock ms row) = Some tok"
proof -
  have st: "stamped_by clock row" using ok by (simp add: dedup_row_ok_def)
  note c = cells_after[OF st, of ms]
  have cells: "cell_at (apply_mutations clock ms row) = (cell_at row)(CLAIM_COLUMN \<mapsto> to_be 8 (now + lease), OWNER_COLUMN \<mapsto> utf8 tok)"
    using c by (simp add: ms in_family_def cell_writes_def)
  have st': "stamped_by clock (apply_mutations clock ms row)" using c by (simp add: ms in_family_def)
  have r: "past now (expiry_of row RESULT_EXPIRY_COLUMN)" using row_facts(1)[OF ok sn] free by simp
  show "dedup_row_ok codec now clock (apply_mutations clock ms row)"
    using ok st' r e by (auto simp: dedup_row_ok_def cells expiry_of_def)
  show "owner_of (apply_mutations clock ms row) = Some tok" by (simp add: owner_of_def cells)
  show "t \<ge> now \<Longrightarrow> row_slot codec t (apply_mutations clock ms row) = (if t < now + lease then Some (Held tok) else None)"
    using row_facts(2)[OF ok sn r, of t] decode_expiry[OF e]
    by (auto simp: row_slot_def expiry_of_def owner_of_def cells past_def)
qed

lemma completed_row:
  assumes ok: "dedup_row_ok codec now clock row" and e: "seq_storable (now + ttl)" and p: "readable_done codec payload"
    and ms: "ms = [SetCell DEDUP_FAMILY RESULT_COLUMN payload, SetCell DEDUP_FAMILY RESULT_EXPIRY_COLUMN (to_be 8 (now + ttl)),
        DeleteRangeFromColumn DEDUP_FAMILY CLAIM_COLUMN, DeleteRangeFromColumn DEDUP_FAMILY OWNER_COLUMN]"
  shows "dedup_row_ok codec now clock (apply_mutations clock ms row)"
    and "row_slot codec t (apply_mutations clock ms row) = (if t < now + ttl then Some (terminal_of codec payload) else None)"
    and "owner_of (apply_mutations clock ms row) = None"
proof -
  have st: "stamped_by clock row" using ok by (simp add: dedup_row_ok_def)
  note c = cells_after[OF st, of ms]
  have cells: "cell_at (apply_mutations clock ms row) = (cell_at row)(RESULT_COLUMN \<mapsto> payload,
      RESULT_EXPIRY_COLUMN \<mapsto> to_be 8 (now + ttl), CLAIM_COLUMN := None, OWNER_COLUMN := None)"
    using c by (simp add: ms in_family_def cell_writes_def)
  have st': "stamped_by clock (apply_mutations clock ms row)" using c by (simp add: ms in_family_def)
  show "dedup_row_ok codec now clock (apply_mutations clock ms row)"
    using st' e p by (auto simp: dedup_row_ok_def cells)
  show "owner_of (apply_mutations clock ms row) = None" by (simp add: owner_of_def cells)
  show "row_slot codec t (apply_mutations clock ms row) = (if t < now + ttl then Some (terminal_of codec payload) else None)"
    using decode_expiry[OF e] by (auto simp: row_slot_def expiry_of_def cells past_def)
qed

lemma released_row:
  assumes ok: "dedup_row_ok codec now clock row" and sn: "seq_storable now" and own: "owner_of row = Some tok"
    and ms: "ms = [DeleteRangeFromColumn DEDUP_FAMILY CLAIM_COLUMN, DeleteRangeFromColumn DEDUP_FAMILY OWNER_COLUMN]"
  shows "dedup_row_ok codec now clock (apply_mutations clock ms row)"
    and "t \<ge> now \<Longrightarrow> row_slot codec t (apply_mutations clock ms row) = None"
    and "owner_of (apply_mutations clock ms row) = None"
proof -
  have st: "stamped_by clock row" using ok by (simp add: dedup_row_ok_def)
  note c = cells_after[OF st, of ms]
  have cells: "cell_at (apply_mutations clock ms row) = (cell_at row)(CLAIM_COLUMN := None, OWNER_COLUMN := None)"
    using c by (simp add: ms in_family_def cell_writes_def)
  have st': "stamped_by clock (apply_mutations clock ms row)" using c by (simp add: ms in_family_def)
  show "dedup_row_ok codec now clock (apply_mutations clock ms row)"
    using ok st' by (auto simp: dedup_row_ok_def cells)
  show "owner_of (apply_mutations clock ms row) = None" by (simp add: owner_of_def cells)
  show "t \<ge> now \<Longrightarrow> row_slot codec t (apply_mutations clock ms row) = None"
    using row_facts(2)[OF ok sn row_facts(3)[OF ok sn own], of t]
    by (auto simp: row_slot_def expiry_of_def cells past_def)
qed

lemma dedup_row_ok_later:
  "\<lbrakk>dedup_row_ok codec now clock row; now \<le> t; clock \<le> c\<rbrakk> \<Longrightarrow> dedup_row_ok codec t c row"
  using stamped_by_later[of clock row c] by (auto simp: dedup_row_ok_def past_def split: option.splits)

section \<open>The predicates and the read\<close>

lemma cell_dict_latest:
  assumes "map c_value (filter (\<lambda>c. c_qualifier c = q) cells) = (case v of None \<Rightarrow> [] | Some x \<Rightarrow> [x])"
  shows "cell_dict cells q = v"
proof -
  have "cell_dict cs q = (case rev (map c_value (filter (\<lambda>c. c_qualifier c = q) cs)) of [] \<Rightarrow> None | x # _ \<Rightarrow> Some x)" for cs
    by (induction cs rule: rev_induct) (simp_all add: cell_dict_def)
  then show ?thesis using assms by (simp split: option.splits)
qed

context bigtable_documented
begin

lemma live_expiry_hit:
  assumes "presents cells row" and "plain_pattern col" and now: "seq_storable now"
    and wf: "\<And>v. cell_at row col = Some v \<Longrightarrow> \<exists>x. seq_storable x \<and> v = to_be 8 x"
    and f: "live_expiry_filter col now = Ok f"
  shows "apply_filter (bt_full_match srv) f cells \<noteq> [] \<longleftrightarrow> \<not> past now (expiry_of row col)"
proof -
  have f: "f = RowFilterChain [FamilyNameRegexFilter DEDUP_FAMILY, ColumnQualifierRegexFilter col, CellsColumnLimitFilter 1,
      ValueRangeFilter (to_be 8 now) False]"
    using f by (simp add: live_expiry_filter_def encode_expiry_ok[OF now])
  have "apply_filter (bt_full_match srv) f cells \<noteq> [] \<longleftrightarrow> (\<exists>v. cell_at row col = Some v \<and> to_be 8 now < v)"
    unfolding f cell_at_def by (rule latest_predicate[OF assms(1) dedup_columns(1) assms(2)]) simp
  also have "\<dots> \<longleftrightarrow> \<not> past now (expiry_of row col)"
    using wf by (cases "cell_at row col") (auto simp: past_def expiry_of_def to_be_order(1)[OF now] decode_expiry)
  finally show ?thesis .
qed

lemma taken_hit:
  assumes "presents cells row" and ok: "dedup_row_ok codec now clock row" and now: "seq_storable now"
    and f: "taken_filter now = Ok f"
  shows "apply_filter (bt_full_match srv) f cells \<noteq> [] \<longleftrightarrow> row_slot codec now row \<noteq> None"
proof -
  obtain c r where cr: "live_expiry_filter CLAIM_COLUMN now = Ok c" "live_expiry_filter RESULT_EXPIRY_COLUMN now = Ok r"
      "f = RowFilterUnion [c, r]"
    using f by (auto simp: taken_filter_def live_claim_filter_def live_result_filter_def)
  have wf: "cell_at row col = Some v \<Longrightarrow> \<exists>x. seq_storable x \<and> v = to_be 8 x" if "col \<in> {CLAIM_COLUMN, RESULT_EXPIRY_COLUMN}" for col v
    using ok that unfolding dedup_row_ok_def by blast
  have "apply_filter (bt_full_match srv) c cells \<noteq> [] \<longleftrightarrow> \<not> past now (expiry_of row CLAIM_COLUMN)"
    by (rule live_expiry_hit[OF assms(1) _ now wf cr(1)]) simp_all
  moreover have "apply_filter (bt_full_match srv) r cells \<noteq> [] \<longleftrightarrow> \<not> past now (expiry_of row RESULT_EXPIRY_COLUMN)"
    by (rule live_expiry_hit[OF assms(1) _ now wf cr(2)]) simp_all
  ultimately show ?thesis using row_facts(1)[OF ok now] by (auto simp: cr(3))
qed

lemma owner_hit:
  assumes "presents cells row" and "plain_pattern (utf8 tok)"
  shows "apply_filter (bt_full_match srv) (owner_filter tok) cells \<noteq> [] \<longleftrightarrow> owner_of row = Some tok"
proof -
  have "apply_filter (bt_full_match srv) (owner_filter tok) cells \<noteq> [] \<longleftrightarrow>
      (\<exists>v. cell_at row OWNER_COLUMN = Some v \<and> v = utf8 tok)"
    unfolding owner_filter_def cell_at_def
    by (rule latest_predicate[OF assms(1) dedup_columns(1) dedup_columns(3)]) (simp add: full_match[OF assms(2)])
  also have "\<dots> \<longleftrightarrow> owner_of row = Some tok"
    by (auto simp: owner_of_def)
  finally show ?thesis .
qed

lemma read_state_row:
  "read_state srv codec w i now =
     (case (cell_at (table w (utf8 i)) RESULT_COLUMN, cell_at (table w (utf8 i)) RESULT_EXPIRY_COLUMN) of
        (Some stored, Some expiry) \<Rightarrow>
          if now < decode_lease_expiry expiry then decode_done codec stored else Ok InFlight
      | _ \<Rightarrow> Ok InFlight)"
proof -
  let ?row = "table w (utf8 i)"
  obtain ks cells where c: "presents (cells (utf8 i)) ?row" and ks: "distinct ks"
      "set ks = {k. in_row_set (RowKeys [utf8 i]) k \<and> apply_filter (bt_full_match srv) state_filter (cells k) \<noteq> []}"
    and rows: "bt_read_rows srv w (RowKeys [utf8 i]) None state_filter =
      map (\<lambda>k. (k, apply_filter (bt_full_match srv) state_filter (cells k))) ks"
    using read_rows[of w "RowKeys [utf8 i]" state_filter None] by auto
  let ?out = "apply_filter (bt_full_match srv) state_filter (cells (utf8 i))"
  note fam = latest_of_family[OF c dedup_columns(1), of ?out, folded state_filter_def, OF refl]
  have "filter (\<lambda>c. c_qualifier c = q) ?out = filter (\<lambda>c. column_of c = (DEDUP_FAMILY, q)) ?out" for q
    using fam(2) by (intro filter_cong[OF refl]) (auto simp: column_of_def)
  then have dict: "cell_dict ?out q = cell_at ?row q" for q
    using fam(1)[of q] by (intro cell_dict_latest) (simp add: cell_at_def)
  show ?thesis
  proof (cases "?out = []")
    case True
    then have "set ks = {}" using ks(2) by auto
    then have "ks = []" by simp
    moreover have "cell_at ?row q = None" for q using dict[of q] True by (simp add: cell_dict_def)
    ultimately show ?thesis by (simp add: read_state_def rows)
  next
    case False
    then have "set ks = {utf8 i}" using ks(2) by auto
    then have "ks = [utf8 i]" using ks(1) by (cases ks) (auto simp: subset_singleton_iff)
    then show ?thesis by (simp add: read_state_def rows dict split: option.splits)
  qed
qed

text \<open>A conditional mutation of one row, as the lease table sees it.\<close>

lemma row_written:
  assumes inv: "btd_inv srv table codec now w"
    and run: "bt_check_and_mutate srv (bt_client_clock srv w) k f hit miss w = (matched, w')"
    and tab: "table w' = (table w)(k := row')"
    and ok: "dedup_row_ok codec now (bt_client_clock srv w) row'"
  shows "btd_inv srv table codec now w'"
proof -
  have clock: "bt_client_clock srv w \<le> bt_client_clock srv w'"
    using clock_runs_on[of w "bt_client_clock srv w" k f hit miss] by (simp add: run)
  show ?thesis
    using inv ok dedup_row_ok_later[OF _ order_refl clock] by (auto simp: btd_inv_def tab)
qed

lemma btd_claim_law:
  assumes inv: "btd_inv srv table codec now w" and now: "seq_storable now" "seq_storable (now + lease)"
    and run: "btd_claim srv codec now tok i lease w = (out, w')"
  shows "out = Ok (fst (spec_claim now tok i lease (btd_view table codec w)))"
    and "agree now (btd_view table codec w') (snd (spec_claim now tok i lease (btd_view table codec w)))"
    and "btd_inv srv table codec now w'"
    and "out = Ok (Claimed tok) \<Longrightarrow> owner_of (table w' (utf8 i)) = Some tok"
proof -
  let ?k = "utf8 i" and ?clock = "bt_client_clock srv w"
  let ?ms = "[SetCell DEDUP_FAMILY CLAIM_COLUMN (to_be 8 (now + lease)), SetCell DEDUP_FAMILY OWNER_COLUMN (utf8 tok)]"
  let ?spec = "spec_claim now tok i lease (btd_view table codec w)"
  have ok: "dedup_row_ok codec now ?clock (table w ?k)" using inv by (simp add: btd_inv_def)
  have slot: "btd_view table codec w now i = row_slot codec now (table w ?k)" by (simp add: btd_view_def)
  obtain f where f: "taken_filter now = Ok f"
    by (simp add: taken_filter_def live_claim_filter_def live_result_filter_def live_expiry_filter_def encode_expiry_ok now)
  obtain taken w1 where cam: "bt_check_and_mutate srv ?clock ?k f [] ?ms w = (taken, w1)" by fastforce
  obtain cells where cells: "presents cells (table w ?k)" and hit: "taken = (apply_filter (bt_full_match srv) f cells \<noteq> [])"
    and tab: "table w1 = (table w)(?k := apply_mutations ?clock (if taken then [] else ?ms) (table w ?k))"
    using check_and_mutate[OF cam] by blast
  have taken: "taken = (row_slot codec now (table w ?k) \<noteq> None)"
    unfolding hit by (rule taken_hit[OF cells ok now(1) f])
  have out: "out = (if taken then read_state srv codec w1 i now else Ok (Claimed tok))" and w': "w' = w1"
    using run by (auto simp: btd_claim_def f encode_expiry_ok[OF now(2)] cam split: if_splits)
  have all: "out = Ok (fst ?spec) \<and> agree now (btd_view table codec w1) (snd ?spec) \<and> btd_inv srv table codec now w1 \<and>
      (out = Ok (Claimed tok) \<longrightarrow> owner_of (table w1 ?k) = Some tok)"
  proof (cases taken)
    case False
    note claimed = claimed_row[OF ok _ now refl, where tok = tok]
    have free: "row_slot codec now (table w ?k) = None" using taken False by simp
    have tab': "table w1 = (table w)(?k := apply_mutations ?clock ?ms (table w ?k))" using tab False by simp
    have "agree now (btd_view table codec w1) (set_slot now lease i (Held tok) (btd_view table codec w))"
      using claimed(2)[OF free] by (auto simp: agree_def btd_view_def tab' set_slot_def fun_eq_iff)
    moreover have "btd_inv srv table codec now w1" by (rule row_written[OF inv cam tab' claimed(1)[OF free]])
    ultimately show ?thesis
      using False claimed(3)[OF free] by (simp add: out spec_claim_def slot free tab')
  next
    case True
    have same: "table w1 = table w" using tab True by (simp add: apply_mutations_def)
    have inv1: "btd_inv srv table codec now w1" using row_written[OF inv cam, of "table w ?k"] ok same by simp
    have rs: "read_state srv codec w1 i now = Ok (case the (row_slot codec now (table w ?k)) of Held _ \<Rightarrow> InFlight | Terminal r \<Rightarrow> Done r)"
    proof (cases "past now (expiry_of (table w ?k) RESULT_EXPIRY_COLUMN)")
      case True
      then have "row_slot codec now (table w ?k) = Some (Held (the (owner_of (table w ?k))))"
        using taken \<open>taken\<close> by (simp add: row_slot_def split: if_splits)
      then show ?thesis using True
        by (auto simp: read_state_row same past_def expiry_of_def split: option.splits)
    next
      case False
      then obtain x where x: "cell_at (table w ?k) RESULT_EXPIRY_COLUMN = Some x" "now < decode_lease_expiry x"
        by (auto simp: past_def expiry_of_def split: option.splits)
      then obtain p where p: "cell_at (table w ?k) RESULT_COLUMN = Some p" "readable_done codec p"
        using ok unfolding dedup_row_ok_def by (metis not_None_eq)
      obtain r where "decode_done codec p = Ok (Done r)" "terminal_of codec p = Terminal r"
        using decode_done_readable[OF p(2)] by blast
      then show ?thesis using False x p by (simp add: read_state_row same row_slot_def)
    qed
    obtain sl where sl: "row_slot codec now (table w ?k) = Some sl" using taken True by auto
    have view: "btd_view table codec w1 = btd_view table codec w" by (simp add: fun_eq_iff btd_view_def same)
    have "out = Ok (fst ?spec)" "snd ?spec = btd_view table codec w"
      using True rs sl by (auto simp: out spec_claim_def slot split: slot.splits)
    moreover have "fst ?spec \<noteq> Claimed tok" using sl by (auto simp: spec_claim_def slot split: slot.splits)
    ultimately show ?thesis using inv1 by (simp add: agree_def view)
  qed
  then show "out = Ok (fst ?spec)" "agree now (btd_view table codec w') (snd ?spec)" "btd_inv srv table codec now w'"
    "out = Ok (Claimed tok) \<Longrightarrow> owner_of (table w' ?k) = Some tok" by (simp_all add: w')
qed

lemma btd_complete_law:
  assumes inv: "btd_inv srv table codec now w" and now: "seq_storable (now + ttl)" and tok: "plain_pattern (utf8 tok)"
    and st: "storable r" and run: "btd_complete srv codec now tok i r ttl w = (out, w')"
  shows "out = Ok (owner_of (table w (utf8 i)) = Some tok)"
    and "btd_view table codec w' = (if owner_of (table w (utf8 i)) = Some tok
      then set_slot now ttl i (Terminal r) (btd_view table codec w) else btd_view table codec w)"
    and "btd_inv srv table codec now w'"
proof -
  let ?k = "utf8 i" and ?clock = "bt_client_clock srv w"
  have ok: "dedup_row_ok codec now ?clock (table w ?k)" using inv by (simp add: btd_inv_def)
  obtain p where p: "encode_done codec r = TAG_DONE @ p" "readable_done codec p" "terminal_of codec p = Terminal r"
    using encode_done_readable[OF _ st, of codec] inv unfolding btd_inv_def by blast
  let ?ms = "[SetCell DEDUP_FAMILY RESULT_COLUMN p, SetCell DEDUP_FAMILY RESULT_EXPIRY_COLUMN (to_be 8 (now + ttl)),
    DeleteRangeFromColumn DEDUP_FAMILY CLAIM_COLUMN, DeleteRangeFromColumn DEDUP_FAMILY OWNER_COLUMN]"
  obtain owned w1 where cam: "bt_check_and_mutate srv ?clock ?k (owner_filter tok) ?ms [] w = (owned, w1)" by fastforce
  obtain cells where cells: "presents cells (table w ?k)"
    and hit: "owned = (apply_filter (bt_full_match srv) (owner_filter tok) cells \<noteq> [])"
    and tab: "table w1 = (table w)(?k := apply_mutations ?clock (if owned then ?ms else []) (table w ?k))"
    using check_and_mutate[OF cam] by blast
  have own: "owned = (owner_of (table w ?k) = Some tok)" unfolding hit by (rule owner_hit[OF cells tok])
  have out: "out = Ok owned" "w' = w1"
    using run by (simp_all add: btd_complete_def p(1) encode_expiry_ok[OF now] cam)
  note finished = completed_row[OF ok now p(2) refl]
  have tab': "table w1 = (table w)(?k := (if owned then apply_mutations ?clock ?ms (table w ?k) else table w ?k))"
    using tab by (simp add: apply_mutations_def)
  have "btd_inv srv table codec now w1" by (rule row_written[OF inv cam tab']) (use ok finished(1) in simp)
  moreover have "btd_view table codec w1 = (if owned then set_slot now ttl i (Terminal r) (btd_view table codec w) else btd_view table codec w)"
    using finished(2) p(3) by (auto simp: fun_eq_iff btd_view_def tab' set_slot_def)
  ultimately show "out = Ok (owner_of (table w ?k) = Some tok)"
    "btd_view table codec w' = (if owner_of (table w (utf8 i)) = Some tok
      then set_slot now ttl i (Terminal r) (btd_view table codec w) else btd_view table codec w)"
    "btd_inv srv table codec now w'" by (simp_all add: out own)
qed

lemma btd_release_law:
  assumes inv: "btd_inv srv table codec now w" and now: "seq_storable now" and tok: "plain_pattern (utf8 tok)"
    and run: "btd_release srv tok i w = (owned, w')"
  shows "owned = (owner_of (table w (utf8 i)) = Some tok)"
    and "agree now (btd_view table codec w') (if owner_of (table w (utf8 i)) = Some tok
      then (\<lambda>t. (btd_view table codec w t)(i := None)) else btd_view table codec w)"
    and "btd_inv srv table codec now w'"
proof -
  let ?k = "utf8 i" and ?clock = "bt_client_clock srv w"
  let ?ms = "[DeleteRangeFromColumn DEDUP_FAMILY CLAIM_COLUMN, DeleteRangeFromColumn DEDUP_FAMILY OWNER_COLUMN]"
  have ok: "dedup_row_ok codec now ?clock (table w ?k)" using inv by (simp add: btd_inv_def)
  have cam: "bt_check_and_mutate srv ?clock ?k (owner_filter tok) ?ms [] w = (owned, w')"
    using run by (simp add: btd_release_def)
  obtain cells where cells: "presents cells (table w ?k)"
    and hit: "owned = (apply_filter (bt_full_match srv) (owner_filter tok) cells \<noteq> [])"
    and tab: "table w' = (table w)(?k := apply_mutations ?clock (if owned then ?ms else []) (table w ?k))"
    using check_and_mutate[OF cam] by blast
  show own: "owned = (owner_of (table w ?k) = Some tok)" unfolding hit by (rule owner_hit[OF cells tok])
  have tab': "table w' = (table w)(?k := (if owned then apply_mutations ?clock ?ms (table w ?k) else table w ?k))"
    using tab by (simp add: apply_mutations_def)
  note freed = released_row[OF ok now _ refl, where tok = tok]
  show "btd_inv srv table codec now w'" by (rule row_written[OF inv cam tab']) (use ok freed(1) own in simp)
  show "agree now (btd_view table codec w') (if owner_of (table w ?k) = Some tok
      then (\<lambda>t. (btd_view table codec w t)(i := None)) else btd_view table codec w)"
    using freed(2) own by (auto simp: agree_def fun_eq_iff btd_view_def tab')
qed

end

section \<open>Demonstration data\<close>

lemma empty_rows:
  "bt_table (c, []) k = (\<lambda>_. [])" "btd_view bt_table codec (c, []) = (\<lambda>_ _. None)"
  "result_codec_ok codec \<Longrightarrow> btd_inv bt_map bt_table codec now (c, [])" "owner_of (bt_table (c, []) k) = None"
  by (simp_all add: fun_eq_iff bt_table_def btd_view_def row_slot_def expiry_of_def owner_of_def cell_at_def latest_def
      past_def btd_inv_def dedup_row_ok_def stamped_by_def)

text \<open>One claim on an empty table, under a token of letters and digits.\<close>

definition claimed_world :: bt_rows where
  "claimed_world = snd (btd_claim bt_map demo_codec 1 ''a1'' ''i1'' 5 (0, []))"

lemma token_a1: "plain_pattern (utf8 ''a1'')" "plain_pattern (utf8 ''b2'')"
  by (simp_all add: plain_pattern_def utf8_def)

lemma claimed_world:
  "btd_inv bt_map bt_table demo_codec 1 claimed_world"
  "owner_of (bt_table claimed_world (utf8 ''i1'')) = Some ''a1''"
  "1 \<le> t \<Longrightarrow> btd_view bt_table demo_codec claimed_world t ''i1'' = (if t < 6 then Some (Held ''a1'') else None)"
proof -
  obtain out w where run: "btd_claim bt_map demo_codec 1 ''a1'' ''i1'' 5 (0, []) = (out, w)" by (rule prod.exhaust)
  note law = bt_any.btd_claim_law[OF empty_rows(3)[OF demo_codec_ok] _ _ run]
  have out: "out = Ok (Claimed ''a1'')" using law(1) by (simp add: seq_storable_def empty_rows spec_claim_def)
  show "btd_inv bt_map bt_table demo_codec 1 claimed_world" "owner_of (bt_table claimed_world (utf8 ''i1'')) = Some ''a1''"
    using law(3,4) out by (simp_all add: claimed_world_def run seq_storable_def)
  show "1 \<le> t \<Longrightarrow> btd_view bt_table demo_codec claimed_world t ''i1'' = (if t < 6 then Some (Held ''a1'') else None)"
    using law(2) by (simp add: claimed_world_def run seq_storable_def empty_rows spec_claim_def agree_def set_slot_def)
qed

lemma btd_inv_later: "\<lbrakk>btd_inv srv table codec now w; now \<le> t\<rbrakk> \<Longrightarrow> btd_inv srv table codec t w"
  unfolding btd_inv_def by (blast intro: dedup_row_ok_later[OF _ _ order_refl])

lemma held_owner:
  assumes "btd_inv srv table codec now w" and "btd_view table codec w now i = Some (Held tok)"
  shows "owner_of (table w (utf8 i)) = Some tok"
proof -
  have "dedup_row_ok codec now (bt_client_clock srv w) (table w (utf8 i))" using assms(1) by (simp add: btd_inv_def)
  then show ?thesis using assms(2)
    by (auto simp: btd_view_def row_slot_def terminal_of_def past_def expiry_of_def owner_of_def dedup_row_ok_def
        split: if_splits option.splits)
qed

section \<open>Properties\<close>

text \<open>
  C34: The Bigtable dedup store, its filters and conditional mutations, is the lease table of the
  contract on a documented server, whenever the caller that owns the row still holds its lease.
\<close>

theorem bigtable_refines_leases:
  assumes srv: "bigtable_documented srv table" and inv: "btd_inv srv table codec now w"
    and bounds: "seq_storable now" "seq_storable (now + lease)" "seq_storable (now + ttl)"
    and tok: "plain_pattern (utf8 tok)" and r: "storable r"
    and holds: "owner_of (table w (utf8 i)) = Some tok \<Longrightarrow> btd_view table codec w now i = Some (Held tok)"
  shows "fst (btd_claim srv codec now tok i lease w) = Ok (fst (spec_claim now tok i lease (btd_view table codec w))) \<and>
      agree now (btd_view table codec (snd (btd_claim srv codec now tok i lease w)))
        (snd (spec_claim now tok i lease (btd_view table codec w))) \<and>
      fst (btd_complete srv codec now tok i r ttl w) = Ok (fst (spec_complete now tok i r ttl (btd_view table codec w))) \<and>
      agree now (btd_view table codec (snd (btd_complete srv codec now tok i r ttl w)))
        (snd (spec_complete now tok i r ttl (btd_view table codec w))) \<and>
      fst (btd_release srv tok i w) = fst (spec_release now tok i (btd_view table codec w)) \<and>
      agree now (btd_view table codec (snd (btd_release srv tok i w)))
        (snd (spec_release now tok i (btd_view table codec w)))"
proof -
  have own: "owner_of (table w (utf8 i)) = Some tok \<longleftrightarrow> btd_view table codec w now i = Some (Held tok)"
    using holds held_owner[OF inv] by blast
  note claim = bigtable_documented.btd_claim_law[OF srv inv bounds(1,2) surjective_pairing]
  note complete = bigtable_documented.btd_complete_law[OF srv inv bounds(3) tok r surjective_pairing]
  note release = bigtable_documented.btd_release_law[OF srv inv bounds(1) tok surjective_pairing]
  show ?thesis
    using claim(1,2)[of tok i] complete(1,2)[of i] release(1,2)[of i]
    by (simp add: own spec_complete_def spec_release_def agree_def)
qed

theorem bigtable_refines_leases_witness:
  "fst (btd_claim bt_map demo_codec 2 ''b2'' ''i1'' 5 claimed_world) = Ok InFlight"
proof -
  have "owner_of (bt_table claimed_world (utf8 ''i1'')) = Some ''b2'' \<Longrightarrow>
      btd_view bt_table demo_codec claimed_world 2 ''i1'' = Some (Held ''b2'')" by (simp add: claimed_world)
  from bigtable_refines_leases[OF bt_any.bigtable_documented_axioms btd_inv_later[OF claimed_world(1)] _ _ _ token_a1(2) _ this,
      of 5 0 None]
  show ?thesis by (simp add: seq_storable_def storable_def spec_claim_def claimed_world)
qed

text \<open>
  A worker whose lease ran out and whose intent another worker has claimed can neither complete
  nor release it at any later time: both are refused and change no record.
\<close>

theorem superseded_worker_locked_out:
  assumes srv: "bigtable_documented srv table" and inv: "btd_inv srv table codec now w"
    and bounds: "seq_storable now" "seq_storable (now + lease)" "now \<le> t" "seq_storable t" "seq_storable (t + ttl)"
    and tok: "plain_pattern (utf8 tok)" "tok \<noteq> tok'" and r: "storable r"
    and claimed: "btd_claim srv codec now tok' i lease w = (Ok (Claimed tok'), w')"
  shows "fst (btd_complete srv codec t tok i r ttl w') = Ok False \<and> \<not> fst (btd_release srv tok i w') \<and>
    agree t (btd_view table codec (snd (btd_complete srv codec t tok i r ttl w'))) (btd_view table codec w') \<and>
    agree t (btd_view table codec (snd (btd_release srv tok i w'))) (btd_view table codec w')"
proof -
  note law = bigtable_documented.btd_claim_law[OF srv inv bounds(1,2) claimed]
  have own: "owner_of (table w' (utf8 i)) \<noteq> Some tok" using law(4) tok(2) by simp
  note inv' = btd_inv_later[OF law(3) bounds(3)]
  show ?thesis
    using bigtable_documented.btd_complete_law(1,2)[OF srv inv' bounds(5) tok(1) r surjective_pairing, of i]
      bigtable_documented.btd_release_law(1,2)[OF srv inv' bounds(4) tok(1) surjective_pairing, of i] own
    by (simp add: agree_def)
qed

theorem superseded_worker_locked_out_witness:
  "fst (btd_complete bt_map demo_codec 8 ''a1'' ''i1'' None 5 (snd (btd_claim bt_map demo_codec 7 ''b2'' ''i1'' 5 claimed_world)))
     = Ok False"
proof -
  obtain out w' where run: "btd_claim bt_map demo_codec 7 ''b2'' ''i1'' 5 claimed_world = (out, w')" by (rule prod.exhaust)
  have inv: "btd_inv bt_map bt_table demo_codec 7 claimed_world" by (rule btd_inv_later[OF claimed_world(1)]) simp
  have "out = Ok (Claimed ''b2'')"
    using bt_any.btd_claim_law(1)[OF inv _ _ run] by (simp add: seq_storable_def claimed_world spec_claim_def)
  with run have run': "btd_claim bt_map demo_codec 7 ''b2'' ''i1'' 5 claimed_world = (Ok (Claimed ''b2''), w')" by simp
  show ?thesis
    using superseded_worker_locked_out[OF bt_any.bigtable_documented_axioms inv _ _ _ _ _ token_a1(1) _ _ run', of 8 5 None]
    by (simp add: seq_storable_def storable_def run')
qed

text \<open>
  A worker whose lease has run out, and whose intent nobody has claimed since, still completes
  it on Bigtable, where the lease table (and with it the in-memory and Redis stores) refuses.
\<close>

theorem late_completion_accepted:
  assumes srv: "bigtable_documented srv table" and inv: "btd_inv srv table codec now w"
    and bounds: "seq_storable (now + ttl)" and tok: "plain_pattern (utf8 tok)" and r: "storable r"
    and expired: "owner_of (table w (utf8 i)) = Some tok" "btd_view table codec w now i = None"
  shows "fst (btd_complete srv codec now tok i r ttl w) = Ok True \<and>
    \<not> fst (spec_complete now tok i r ttl (btd_view table codec w)) \<and>
    btd_view table codec (snd (btd_complete srv codec now tok i r ttl w)) now i = (if 0 < ttl then Some (Terminal r) else None)"
  using bigtable_documented.btd_complete_law(1,2)[OF srv inv bounds tok r surjective_pairing, of i] expired
  by (simp add: spec_complete_def set_slot_def)

theorem late_completion_accepted_witness:
  "fst (btd_complete bt_map demo_codec 9 ''a1'' ''i1'' None 5 claimed_world) = Ok True"
proof -
  have inv: "btd_inv bt_map bt_table demo_codec 9 claimed_world" by (rule btd_inv_later[OF claimed_world(1)]) simp
  show ?thesis
    using late_completion_accepted[OF bt_any.bigtable_documented_axioms inv _ token_a1(1) _ claimed_world(2), of 5 None]
    by (simp add: seq_storable_def storable_def claimed_world)
qed

end
