(* ===== verification/Delivery.thy ===== *)
theory Delivery
  imports Complex_Main "HOL-Library.Multiset" Prelude
begin

text \<open>
  The best-effort delivery shared by the OTLP exporter (\<open>observability/otlp.py\<close>) and the console
  sink (\<open>console/_sink.py\<close>): the Beam thread batches records and puts batches on a bounded queue,
  one sender thread posts them. Each step below is one lock section, one queue operation or one
  post of the code, so every interleaving of the two threads at that grain is a run of the model.
  Times are readings of the monotonic clock in seconds; an HTTP exchange is its outcome.
  The fields \<open>ex_accepted\<close>, \<open>ex_acked\<close> and \<open>ex_lost\<close> are history: no step reads them.
\<close>

section \<open>The state\<close>

datatype 'p item = Batch "'p list" | Stop

datatype answer = Status int | HttpFailure | OtherFailure

datatype 'p beam_pc =
    Outside
  | Putting bool "'p list"
  | Refused bool "'p list"
  | Flushing real
  | Draining
  | Discarding "'p list"
  | Reporting
  | Stopping
  | Joining real
  | TornDown

datatype 'p sender_pc =
    Idle
  | Posting "'p list" real real
  | Awaiting "'p list" real real
  | Deciding "'p list" real real bool
  | Settled "'p list"
  | Stopped
  | Crashed "'p list"

record tallies =
  ta_exported :: int
  ta_dropped :: int
  ta_failures :: int
  ta_batches :: int

record export_config =
  ec_batch_size :: int
  ec_flush_deadline :: real
  ec_queue_batches :: int
  ec_close_live :: bool

record 'p exporter =
  ex_batch :: "'p list"
  ex_queue :: "'p item list"
  ex_tallies :: tallies
  ex_in_flight :: int
  ex_beam :: "'p beam_pc"
  ex_sender :: "'p sender_pc"
  ex_sink :: tallies
  ex_closed :: bool
  ex_accepted :: "'p multiset"
  ex_acked :: "'p multiset"
  ex_lost :: "'p multiset"

definition no_tallies :: tallies where
  "no_tallies = \<lparr>ta_exported = 0, ta_dropped = 0, ta_failures = 0, ta_batches = 0\<rparr>"

definition add_tallies :: "tallies \<Rightarrow> tallies \<Rightarrow> tallies" where
  "add_tallies s t =
     \<lparr>ta_exported = ta_exported s + ta_exported t, ta_dropped = ta_dropped s + ta_dropped t,
      ta_failures = ta_failures s + ta_failures t, ta_batches = ta_batches s + ta_batches t\<rparr>"

definition exp_setup :: "'p exporter" where
  "exp_setup =
     \<lparr>ex_batch = [], ex_queue = [], ex_tallies = no_tallies, ex_in_flight = 0, ex_beam = Outside,
      ex_sender = Idle, ex_sink = no_tallies, ex_closed = False,
      ex_accepted = {#}, ex_acked = {#}, ex_lost = {#}\<rparr>"

definition count_dropped :: "'p list \<Rightarrow> 'p exporter \<Rightarrow> 'p exporter" where
  "count_dropped b st =
     st\<lparr>ex_tallies := (ex_tallies st)\<lparr>ta_dropped := ta_dropped (ex_tallies st) + int (length b)\<rparr>,
        ex_lost := ex_lost st + mset b\<rparr>"

definition unflight :: "'p list \<Rightarrow> 'p exporter \<Rightarrow> 'p exporter" where
  "unflight b st = st\<lparr>ex_in_flight := ex_in_flight st - int (length b)\<rparr>"

section \<open>The Beam thread\<close>

text \<open>\<open>_enqueue\<close>: take the batch over and count it in flight, then \<open>put_nowait\<close>, then, on a full queue,
  count it dropped. The flag says whether \<open>finish_bundle\<close> called it.\<close>

definition exp_enqueue :: "bool \<Rightarrow> 'p exporter \<Rightarrow> 'p exporter" where
  "exp_enqueue flush st =
     st\<lparr>ex_batch := [], ex_in_flight := ex_in_flight st + int (length (ex_batch st)),
        ex_beam := Putting flush (ex_batch st)\<rparr>"

definition resume_after :: "export_config \<Rightarrow> bool \<Rightarrow> real \<Rightarrow> 'p beam_pc" where
  "resume_after cfg flush now = (if flush then Flushing (now + ec_flush_deadline cfg) else Outside)"

definition queue_full :: "export_config \<Rightarrow> 'p exporter \<Rightarrow> bool" where
  "queue_full cfg st \<longleftrightarrow> 0 < ec_queue_batches cfg \<and> ec_queue_batches cfg \<le> int (length (ex_queue st))"

definition put_nowait :: "export_config \<Rightarrow> bool \<Rightarrow> 'p list \<Rightarrow> real \<Rightarrow> 'p exporter \<Rightarrow> 'p exporter" where
  "put_nowait cfg flush b now st =
     (if queue_full cfg st then st\<lparr>ex_beam := Refused flush b\<rparr>
      else st\<lparr>ex_queue := ex_queue st @ [Batch b], ex_beam := resume_after cfg flush now\<rparr>)"

definition exp_process :: "('e \<Rightarrow> 'p option res) \<Rightarrow> export_config \<Rightarrow> 'e \<Rightarrow> 'p exporter \<Rightarrow> 'p exporter res" where
  "exp_process encode cfg e st =
     bindE (encode e) (\<lambda>r.
       (case r of
          None \<Rightarrow> Ok st
        | Some p \<Rightarrow>
            (let st' = st\<lparr>ex_batch := ex_batch st @ [p], ex_accepted := add_mset p (ex_accepted st)\<rparr> in
             Ok (if ec_batch_size cfg \<le> int (length (ex_batch st')) then exp_enqueue False st' else st'))))"

definition exp_finish_bundle :: "export_config \<Rightarrow> real \<Rightarrow> 'p exporter \<Rightarrow> 'p exporter" where
  "exp_finish_bundle cfg now st =
     (if ex_batch st \<noteq> [] then exp_enqueue True st
      else st\<lparr>ex_beam := Flushing (now + ec_flush_deadline cfg)\<rparr>)"

text \<open>\<open>drained.wait\<close>: the loop ends when nothing is in flight or the deadline has passed.\<close>

definition flush_over :: "real \<Rightarrow> real \<Rightarrow> 'p exporter \<Rightarrow> bool" where
  "flush_over deadline now st \<longleftrightarrow> \<not> (0 < ex_in_flight st \<and> 0 < deadline - now)"

text \<open>\<open>_drop_undrained\<close>: one \<open>get_nowait\<close>.\<close>

definition drain_get :: "'p exporter \<Rightarrow> 'p exporter" where
  "drain_get st =
     (case ex_queue st of
        [] \<Rightarrow> st\<lparr>ex_beam := Reporting\<rparr>
      | Batch b # q \<Rightarrow> st\<lparr>ex_queue := q, ex_beam := Discarding b\<rparr>
      | Stop # q \<Rightarrow> st\<lparr>ex_queue := q @ [Stop], ex_beam := Reporting\<rparr>)"

definition take_counts :: "'p exporter \<Rightarrow> 'p exporter" where
  "take_counts st =
     st\<lparr>ex_tallies := no_tallies, ex_sink := add_tallies (ex_sink st) (ex_tallies st), ex_beam := Outside\<rparr>"

text \<open>\<open>teardown\<close>: \<open>put(_STOP)\<close> blocks while the queue is full; \<open>join\<close> returns when the thread has
  ended or the timeout has run out; \<open>ec_close_live\<close> says whether the client is closed even then.\<close>

definition sender_ended :: "'p exporter \<Rightarrow> bool" where
  "sender_ended st \<longleftrightarrow> (case ex_sender st of Stopped \<Rightarrow> True | Crashed _ \<Rightarrow> True | _ \<Rightarrow> False)"

definition join_step :: "export_config \<Rightarrow> real \<Rightarrow> real \<Rightarrow> 'p exporter \<Rightarrow> 'p exporter option" where
  "join_step cfg deadline now st =
     (if sender_ended st \<or> deadline \<le> now
      then Some (st\<lparr>ex_beam := TornDown, ex_closed := (ec_close_live cfg \<or> sender_ended st)\<rparr>)
      else None)"

datatype 'e call = Process 'e | FinishBundle | Teardown

text \<open>A step of the Beam thread at a clock reading: a call from the runner when it is outside the
  DoFn, else the next step of the call it is in; \<open>None\<close> when it is blocked.\<close>

fun beam_step :: "('e \<Rightarrow> 'p option res) \<Rightarrow> export_config \<Rightarrow> 'e call option \<Rightarrow> real \<Rightarrow> 'p exporter \<Rightarrow> 'p exporter option" where
  "beam_step encode cfg call now st =
     (case ex_beam st of
        Outside \<Rightarrow>
          (case call of
             None \<Rightarrow> None
           | Some (Process e) \<Rightarrow> (case exp_process encode cfg e st of Inl err \<Rightarrow> Some st | Inr st' \<Rightarrow> Some st')
           | Some FinishBundle \<Rightarrow> Some (exp_finish_bundle cfg now st)
           | Some Teardown \<Rightarrow> Some (st\<lparr>ex_beam := Stopping\<rparr>))
      | Putting flush b \<Rightarrow> Some (put_nowait cfg flush b now st)
      | Refused flush b \<Rightarrow> Some ((count_dropped b (unflight b st))\<lparr>ex_beam := resume_after cfg flush now\<rparr>)
      | Flushing deadline \<Rightarrow> if flush_over deadline now st then Some (st\<lparr>ex_beam := Draining\<rparr>) else None
      | Draining \<Rightarrow> Some (drain_get st)
      | Discarding b \<Rightarrow> Some ((count_dropped b (unflight b st))\<lparr>ex_beam := Draining\<rparr>)
      | Reporting \<Rightarrow> Some (take_counts st)
      | Stopping \<Rightarrow>
          if queue_full cfg st then None
          else Some (st\<lparr>ex_queue := ex_queue st @ [Stop], ex_beam := Joining (now + ec_flush_deadline cfg)\<rparr>)
      | Joining deadline \<Rightarrow> join_step cfg deadline now st
      | TornDown \<Rightarrow> None)"

section \<open>The sender thread\<close>

definition INITIAL_BACKOFF_S :: real where "INITIAL_BACKOFF_S = 1 / 20"

definition success_status :: "int \<Rightarrow> bool" where
  "success_status code \<longleftrightarrow> 200 \<le> code \<and> code \<le> 299"

definition retryable_status :: "int \<Rightarrow> bool" where
  "retryable_status code \<longleftrightarrow> \<not> (400 \<le> code \<and> code < 500 \<and> code \<noteq> 429)"

definition retryable_answer :: "answer \<Rightarrow> bool" where
  "retryable_answer a = (case a of Status code \<Rightarrow> retryable_status code | _ \<Rightarrow> True)"

definition count_exported :: "'p list \<Rightarrow> 'p exporter \<Rightarrow> 'p exporter" where
  "count_exported b st =
     st\<lparr>ex_tallies := (ex_tallies st)\<lparr>ta_exported := ta_exported (ex_tallies st) + int (length b),
                                    ta_batches := ta_batches (ex_tallies st) + 1\<rparr>,
        ex_acked := ex_acked st + mset b\<rparr>"

definition count_failure :: "'p exporter \<Rightarrow> 'p exporter" where
  "count_failure st = st\<lparr>ex_tallies := (ex_tallies st)\<lparr>ta_failures := ta_failures (ex_tallies st) + 1\<rparr>\<rparr>"

text \<open>\<open>_send\<close>: a post, its answer, then the decision to give up or to sleep and double the backoff. A
  closed client refuses a post with an exception that is not an \<open>HTTPError\<close>, which ends the thread.\<close>

definition answer_success :: "answer \<Rightarrow> bool" where
  "answer_success a = (case a of Status code \<Rightarrow> success_status code | _ \<Rightarrow> False)"

definition post_batch :: "'p list \<Rightarrow> real \<Rightarrow> real \<Rightarrow> 'p exporter \<Rightarrow> 'p exporter" where
  "post_batch b deadline backoff st =
     st\<lparr>ex_sender := (if ex_closed st then Crashed b else Awaiting b deadline backoff)\<rparr>"

definition answered :: "answer \<Rightarrow> 'p list \<Rightarrow> real \<Rightarrow> real \<Rightarrow> 'p exporter \<Rightarrow> 'p exporter" where
  "answered a b deadline backoff st =
     (if a = OtherFailure then st\<lparr>ex_sender := Crashed b\<rparr>
      else if answer_success a then (count_exported b st)\<lparr>ex_sender := Settled b\<rparr>
      else (count_failure st)\<lparr>ex_sender := Deciding b deadline backoff (retryable_answer a)\<rparr>)"

definition gives_up :: "bool \<Rightarrow> real \<Rightarrow> real \<Rightarrow> bool" where
  "gives_up retryable deadline now \<longleftrightarrow> \<not> retryable \<or> deadline - now \<le> 0"

definition decide :: "real \<Rightarrow> 'p list \<Rightarrow> real \<Rightarrow> real \<Rightarrow> bool \<Rightarrow> 'p exporter \<Rightarrow> 'p exporter" where
  "decide now b deadline backoff retryable st =
     (if gives_up retryable deadline now then (count_dropped b st)\<lparr>ex_sender := Settled b\<rparr>
      else st\<lparr>ex_sender := Posting b deadline (backoff * 2)\<rparr>)"

definition sender_get :: "export_config \<Rightarrow> real \<Rightarrow> 'p exporter \<Rightarrow> 'p exporter option" where
  "sender_get cfg now st =
     (case ex_queue st of
        [] \<Rightarrow> None
      | Batch b # q \<Rightarrow>
          Some (st\<lparr>ex_queue := q, ex_sender := Posting b (now + ec_flush_deadline cfg) INITIAL_BACKOFF_S\<rparr>)
      | Stop # q \<Rightarrow> Some (st\<lparr>ex_queue := q, ex_sender := Stopped\<rparr>))"

fun sender_step :: "export_config \<Rightarrow> answer \<Rightarrow> real \<Rightarrow> 'p exporter \<Rightarrow> 'p exporter option" where
  "sender_step cfg a now st =
     (case ex_sender st of
        Idle \<Rightarrow> sender_get cfg now st
      | Posting b deadline backoff \<Rightarrow> Some (post_batch b deadline backoff st)
      | Awaiting b deadline backoff \<Rightarrow> Some (answered a b deadline backoff st)
      | Deciding b deadline backoff retryable \<Rightarrow> Some (decide now b deadline backoff retryable st)
      | Settled b \<Rightarrow> Some ((unflight b st)\<lparr>ex_sender := Idle\<rparr>)
      | Stopped \<Rightarrow> None
      | Crashed b \<Rightarrow> None)"

declare beam_step.simps [simp del] sender_step.simps [simp del]

text \<open>The two threads together.\<close>

inductive export_step :: "('e \<Rightarrow> 'p option res) \<Rightarrow> export_config \<Rightarrow> 'p exporter \<Rightarrow> 'p exporter \<Rightarrow> bool"
  for encode cfg where
  beam: "beam_step encode cfg call now st = Some st' \<Longrightarrow> export_step encode cfg st st'"
| sender: "sender_step cfg a now st = Some st' \<Longrightarrow> export_step encode cfg st st'"

inductive export_reaches :: "('e \<Rightarrow> 'p option res) \<Rightarrow> export_config \<Rightarrow> 'p exporter \<Rightarrow> bool"
  for encode cfg where
  init: "export_reaches encode cfg exp_setup"
| step: "\<lbrakk>export_reaches encode cfg st; export_step encode cfg st st'\<rbrakk> \<Longrightarrow> export_reaches encode cfg st'"

datatype 'e action = Beam "'e call option" real | Sender answer real

fun run_actions :: "('e \<Rightarrow> 'p option res) \<Rightarrow> export_config \<Rightarrow> 'e action list \<Rightarrow> 'p exporter \<Rightarrow> 'p exporter option" where
  "run_actions encode cfg [] st = Some st"
| "run_actions encode cfg (Beam c t # as) st =
     (case beam_step encode cfg c t st of None \<Rightarrow> None | Some st' \<Rightarrow> run_actions encode cfg as st')"
| "run_actions encode cfg (Sender a t # as) st =
     (case sender_step cfg a t st of None \<Rightarrow> None | Some st' \<Rightarrow> run_actions encode cfg as st')"

lemma run_actions_reaches:
  "\<lbrakk>export_reaches encode cfg st; run_actions encode cfg as st = Some st'\<rbrakk> \<Longrightarrow> export_reaches encode cfg st'"
  by (induction encode cfg as st rule: run_actions.induct)
     (auto split: option.splits intro: export_reaches.step export_step.intros)

end
