(* ===== verification/Delivery_Invariants.thy ===== *)
theory Delivery_Invariants
  imports Delivery
begin

text \<open>
  The invariants of the delivery threads: every accepted record is in exactly one place, the
  counters and the in-flight count agree with the places, batches and the queue stay within their
  bounds, the stop sentinel is in the queue only during \<open>teardown\<close>.
\<close>

section \<open>Where a record can be\<close>

primrec item_records :: "'p item \<Rightarrow> 'p list" where
  "item_records (Batch b) = b"
| "item_records Stop = []"

definition queued :: "'p item list \<Rightarrow> 'p list" where
  "queued q = concat (map item_records q)"

lemma queued_simps [simp]:
  "queued [] = []" "queued (i # q) = item_records i @ queued q" "queued (q @ r) = queued q @ queued r"
  by (simp_all add: queued_def)

definition beam_hands :: "'p beam_pc \<Rightarrow> 'p list" where
  "beam_hands pc =
     (case pc of Putting _ b \<Rightarrow> b | Refused _ b \<Rightarrow> b | Discarding b \<Rightarrow> b | _ \<Rightarrow> [])"

definition sender_open :: "'p sender_pc \<Rightarrow> 'p list" where
  "sender_open pc =
     (case pc of Posting b _ _ \<Rightarrow> b | Awaiting b _ _ \<Rightarrow> b | Deciding b _ _ _ \<Rightarrow> b | Crashed b \<Rightarrow> b | _ \<Rightarrow> [])"

definition sender_hands :: "'p sender_pc \<Rightarrow> 'p list" where
  "sender_hands pc = (case pc of Settled b \<Rightarrow> b | _ \<Rightarrow> sender_open pc)"

lemma beam_hands_simps [simp]:
  "beam_hands Outside = []" "beam_hands (Putting f b) = b" "beam_hands (Refused f b) = b"
  "beam_hands (Flushing d) = []" "beam_hands Draining = []" "beam_hands (Discarding b) = b"
  "beam_hands Reporting = []" "beam_hands Stopping = []" "beam_hands (Joining d) = []" "beam_hands TornDown = []"
  by (simp_all add: beam_hands_def)

lemma sender_hands_simps [simp]:
  "sender_open Idle = []" "sender_open (Posting b d r) = b" "sender_open (Awaiting b d r) = b"
  "sender_open (Deciding b d r t) = b" "sender_open (Settled b) = []" "sender_open Stopped = []"
  "sender_open (Crashed b) = b"
  "sender_hands Idle = []" "sender_hands (Posting b d r) = b" "sender_hands (Awaiting b d r) = b"
  "sender_hands (Deciding b d r t) = b" "sender_hands (Settled b) = b" "sender_hands Stopped = []"
  "sender_hands (Crashed b) = b"
  by (simp_all add: sender_open_def sender_hands_def)

section \<open>The invariants\<close>

definition in_flight_ok :: "'p exporter \<Rightarrow> bool" where
  "in_flight_ok st \<longleftrightarrow>
     ex_in_flight st =
       int (length (queued (ex_queue st)) + length (beam_hands (ex_beam st)) + length (sender_hands (ex_sender st)))"

definition conserved :: "'p exporter \<Rightarrow> bool" where
  "conserved st \<longleftrightarrow>
     ex_accepted st =
       mset (ex_batch st) + mset (queued (ex_queue st)) + mset (beam_hands (ex_beam st)) +
       mset (sender_open (ex_sender st)) + ex_acked st + ex_lost st"

definition tallies_ok :: "'p exporter \<Rightarrow> bool" where
  "tallies_ok st \<longleftrightarrow>
     ta_exported (ex_sink st) + ta_exported (ex_tallies st) = int (size (ex_acked st)) \<and>
     ta_dropped (ex_sink st) + ta_dropped (ex_tallies st) = int (size (ex_lost st))"

definition batch_ok :: "export_config \<Rightarrow> 'p list \<Rightarrow> bool" where
  "batch_ok cfg b \<longleftrightarrow> int (length b) \<le> max 1 (ec_batch_size cfg)"

definition sized :: "export_config \<Rightarrow> 'p exporter \<Rightarrow> bool" where
  "sized cfg st \<longleftrightarrow>
     int (length (ex_batch st)) < max 1 (ec_batch_size cfg) \<and>
     list_all (\<lambda>i. batch_ok cfg (item_records i)) (ex_queue st) \<and>
     batch_ok cfg (beam_hands (ex_beam st)) \<and> batch_ok cfg (sender_hands (ex_sender st)) \<and>
     (0 < ec_queue_batches cfg \<longrightarrow> int (length (ex_queue st)) \<le> ec_queue_batches cfg)"

definition tearing_down :: "'p beam_pc \<Rightarrow> bool" where
  "tearing_down pc = (case pc of Joining _ \<Rightarrow> True | TornDown \<Rightarrow> True | _ \<Rightarrow> False)"

definition in_flush :: "'p beam_pc \<Rightarrow> bool" where
  "in_flush pc =
     (case pc of Putting f _ \<Rightarrow> f | Refused f _ \<Rightarrow> f | Flushing _ \<Rightarrow> True | Draining \<Rightarrow> True | Discarding _ \<Rightarrow> True
               | Reporting \<Rightarrow> True | _ \<Rightarrow> False)"

definition phased :: "export_config \<Rightarrow> 'p exporter \<Rightarrow> bool" where
  "phased cfg st \<longleftrightarrow>
     (in_flush (ex_beam st) \<longrightarrow> ex_batch st = []) \<and>
     (ex_beam st = Reporting \<longrightarrow> ex_queue st = []) \<and>
     (Stop \<in> set (ex_queue st) \<longrightarrow> tearing_down (ex_beam st)) \<and>
     (ex_sender st = Stopped \<longrightarrow> tearing_down (ex_beam st)) \<and>
     (ex_closed st \<longrightarrow> ex_beam st = TornDown \<and> (ec_close_live cfg \<or> sender_ended st))"

lemmas delivery_defs =
  in_flight_ok_def conserved_def tallies_ok_def sized_def phased_def

lemmas step_defs =
  exp_enqueue_def resume_after_def put_nowait_def exp_finish_bundle_def drain_get_def take_counts_def
  join_step_def count_dropped_def unflight_def count_exported_def count_failure_def post_batch_def
  answered_def decide_def sender_get_def no_tallies_def add_tallies_def

lemma exp_process_cases:
  assumes "exp_process encode cfg e st = Ok st'"
  obtains (skip) "encode e = Ok None" "st' = st"
    | (keep) p where "encode e = Ok (Some p)"
        "int (length (ex_batch st)) + 1 < ec_batch_size cfg"
        "st' = st\<lparr>ex_batch := ex_batch st @ [p], ex_accepted := add_mset p (ex_accepted st)\<rparr>"
    | (fill) p where "encode e = Ok (Some p)"
        "ec_batch_size cfg \<le> int (length (ex_batch st)) + 1"
        "st' = exp_enqueue False (st\<lparr>ex_batch := ex_batch st @ [p], ex_accepted := add_mset p (ex_accepted st)\<rparr>)"
  using assms by (force simp: exp_process_def Let_def split: option.splits if_splits)

text \<open>The shapes of a Beam step.\<close>

lemma beam_step_cases:
  assumes "beam_step encode cfg call now st = Some st'"
  obtains (process) e where "ex_beam st = Outside" "exp_process encode cfg e st = Ok st'"
    | (refused_element) "ex_beam st = Outside" "st' = st"
    | (finish) "ex_beam st = Outside" "st' = exp_finish_bundle cfg now st"
    | (teardown) "ex_beam st = Outside" "st' = st\<lparr>ex_beam := Stopping\<rparr>"
    | (put_batch) f b where "ex_beam st = Putting f b" "st' = put_nowait cfg f b now st"
    | (full) f b where "ex_beam st = Refused f b"
        "st' = (count_dropped b (unflight b st))\<lparr>ex_beam := resume_after cfg f now\<rparr>"
    | (flush) d where "ex_beam st = Flushing d" "st' = st\<lparr>ex_beam := Draining\<rparr>" "flush_over d now st"
    | (drain) "ex_beam st = Draining" "st' = drain_get st"
    | (discard) b where "ex_beam st = Discarding b"
        "st' = (count_dropped b (unflight b st))\<lparr>ex_beam := Draining\<rparr>"
    | (report) "ex_beam st = Reporting" "st' = take_counts st"
    | (stop) "ex_beam st = Stopping" "\<not> queue_full cfg st"
        "st' = st\<lparr>ex_queue := ex_queue st @ [Stop], ex_beam := Joining (now + ec_flush_deadline cfg)\<rparr>"
    | (join) d where "ex_beam st = Joining d" "join_step cfg d now st = Some st'"
proof (cases "ex_beam st")
  case Outside
  note out = this
  have eq: "(case call of None \<Rightarrow> None
        | Some (Process e) \<Rightarrow> (case exp_process encode cfg e st of Inl err \<Rightarrow> Some st | Inr st' \<Rightarrow> Some st')
        | Some FinishBundle \<Rightarrow> Some (exp_finish_bundle cfg now st)
        | Some Teardown \<Rightarrow> Some (st\<lparr>ex_beam := Stopping\<rparr>)) = Some st'"
    using assms out unfolding beam_step.simps by simp
  show ?thesis
  proof (cases call)
    case (Some c)
    show ?thesis
    proof (cases c)
      case (Process e)
      show ?thesis
      proof (cases "exp_process encode cfg e st")
        case (Inl err)
        with eq Some Process have "st' = st" by simp
        with out show ?thesis by (rule refused_element)
      next
        case (Inr st2)
        with eq Some Process have "exp_process encode cfg e st = Ok st'" by simp
        with out show ?thesis by (rule process)
      qed
    next
      case FinishBundle
      with eq Some have "st' = exp_finish_bundle cfg now st" by simp
      with out show ?thesis by (rule finish)
    next
      case Teardown
      with eq Some have "st' = st\<lparr>ex_beam := Stopping\<rparr>" by simp
      with out show ?thesis by (rule teardown)
    qed
  qed (use eq in simp)
next
  case (Putting f b)
  with assms have "st' = put_nowait cfg f b now st" by (simp add: beam_step.simps)
  with Putting show ?thesis by (rule put_batch)
next
  case (Refused f b)
  with assms have "st' = (count_dropped b (unflight b st))\<lparr>ex_beam := resume_after cfg f now\<rparr>" by (simp add: beam_step.simps)
  with Refused show ?thesis by (rule full)
next
  case (Flushing d)
  with assms have eq: "st' = st\<lparr>ex_beam := Draining\<rparr>" and over: "flush_over d now st"
    by (simp_all add: beam_step.simps split: if_splits)
  show ?thesis using Flushing eq over by (rule flush)
next
  case Draining
  with assms have "st' = drain_get st" by (simp add: beam_step.simps)
  with Draining show ?thesis by (rule drain)
next
  case (Discarding b)
  with assms have "st' = (count_dropped b (unflight b st))\<lparr>ex_beam := Draining\<rparr>" by (simp add: beam_step.simps)
  with Discarding show ?thesis by (rule discard)
next
  case Reporting
  with assms have "st' = take_counts st" by (simp add: beam_step.simps)
  with Reporting show ?thesis by (rule report)
next
  case Stopping
  with assms have free: "\<not> queue_full cfg st"
    and eq: "st' = st\<lparr>ex_queue := ex_queue st @ [Stop], ex_beam := Joining (now + ec_flush_deadline cfg)\<rparr>"
    by (simp_all add: beam_step.simps split: if_splits)
  show ?thesis using Stopping free eq by (rule stop)
next
  case (Joining d)
  with assms have "join_step cfg d now st = Some st'" by (simp add: beam_step.simps)
  with Joining show ?thesis by (rule join)
next
  case TornDown
  with assms show ?thesis unfolding beam_step.simps by simp
qed

lemma sender_step_cases:
  assumes "sender_step cfg a now st = Some st'"
  obtains (get) "ex_sender st = Idle" "sender_get cfg now st = Some st'"
    | (post) b d r where "ex_sender st = Posting b d r" "st' = post_batch b d r st"
    | (ans) b d r where "ex_sender st = Awaiting b d r" "st' = answered a b d r st"
    | (dec) b d r t where "ex_sender st = Deciding b d r t" "st' = decide now b d r t st"
    | (settle) b where "ex_sender st = Settled b" "st' = (unflight b st)\<lparr>ex_sender := Idle\<rparr>"
  using assms unfolding sender_step.simps by (cases "ex_sender st") auto

section \<open>Preservation\<close>

lemma conserved_beam:
  assumes "conserved st" "beam_step encode cfg call now st = Some st'"
  shows "conserved st'"
  using assms(2)
proof (cases rule: beam_step_cases)
  case (process e)
  from process(2) show ?thesis
    by (cases rule: exp_process_cases) (use assms(1) process(1) in \<open>auto simp: conserved_def exp_enqueue_def\<close>)
qed (use assms(1) in \<open>auto simp: conserved_def step_defs split: if_splits list.splits item.splits\<close>)

lemma conserved_sender:
  assumes "conserved st" "sender_step cfg a now st = Some st'"
  shows "conserved st'"
  using assms(2)
  by (cases rule: sender_step_cases)
     (use assms(1) in \<open>auto simp: conserved_def step_defs split: if_splits list.splits item.splits\<close>)

lemma in_flight_beam:
  assumes "in_flight_ok st" "beam_step encode cfg call now st = Some st'"
  shows "in_flight_ok st'"
  using assms(2)
proof (cases rule: beam_step_cases)
  case (process e)
  from process(2) show ?thesis
    by (cases rule: exp_process_cases) (use assms(1) process(1) in \<open>auto simp: in_flight_ok_def exp_enqueue_def\<close>)
qed (use assms(1) in \<open>auto simp: in_flight_ok_def step_defs split: if_splits list.splits item.splits\<close>)

lemma in_flight_sender:
  assumes "in_flight_ok st" "sender_step cfg a now st = Some st'"
  shows "in_flight_ok st'"
  using assms(2)
  by (cases rule: sender_step_cases)
     (use assms(1) in \<open>auto simp: in_flight_ok_def step_defs split: if_splits list.splits item.splits\<close>)

lemma counted_beam:
  assumes "tallies_ok st" "beam_step encode cfg call now st = Some st'"
  shows "tallies_ok st'"
  using assms(2)
proof (cases rule: beam_step_cases)
  case (process e)
  from process(2) show ?thesis
    by (cases rule: exp_process_cases) (use assms(1) process(1) in \<open>auto simp: tallies_ok_def exp_enqueue_def\<close>)
qed (use assms(1) in \<open>auto simp: tallies_ok_def step_defs split: if_splits list.splits item.splits\<close>)

lemma counted_sender:
  assumes "tallies_ok st" "sender_step cfg a now st = Some st'"
  shows "tallies_ok st'"
  using assms(2)
  by (cases rule: sender_step_cases)
     (use assms(1) in \<open>auto simp: tallies_ok_def step_defs split: if_splits list.splits item.splits\<close>)

lemma batch_ok_Nil [simp]: "batch_ok cfg []"
  by (simp add: batch_ok_def)

lemma sized_beam:
  assumes "sized cfg st" "beam_step encode cfg call now st = Some st'"
  shows "sized cfg st'"
  using assms(2)
proof (cases rule: beam_step_cases)
  case (process e)
  from process(2) show ?thesis
    by (cases rule: exp_process_cases)
       (use assms(1) process(1) in \<open>auto simp: sized_def exp_enqueue_def batch_ok_def\<close>)
qed (use assms(1) in \<open>auto simp: sized_def step_defs queue_full_def batch_ok_def split: if_splits list.splits item.splits\<close>)

lemma sized_sender:
  assumes "sized cfg st" "sender_step cfg a now st = Some st'"
  shows "sized cfg st'"
  using assms(2)
  by (cases rule: sender_step_cases)
     (use assms(1) in \<open>auto simp: sized_def step_defs split: if_splits list.splits item.splits\<close>)

lemma pc_preds [simp]:
  "tearing_down (Joining d)" "tearing_down TornDown" "\<not> tearing_down Outside" "\<not> tearing_down (Putting f b)"
  "\<not> tearing_down (Refused f b)" "\<not> tearing_down (Flushing d)" "\<not> tearing_down Draining"
  "\<not> tearing_down (Discarding b)" "\<not> tearing_down Reporting" "\<not> tearing_down Stopping"
  "\<not> in_flush (Joining d)" "\<not> in_flush TornDown" "\<not> in_flush Outside" "in_flush (Putting f b) = f"
  "in_flush (Refused f b) = f" "in_flush (Flushing d)" "in_flush Draining"
  "in_flush (Discarding b)" "in_flush Reporting" "\<not> in_flush Stopping"
  by (simp_all add: tearing_down_def in_flush_def)

lemma phased_beam:
  assumes "phased cfg st" "beam_step encode cfg call now st = Some st'"
  shows "phased cfg st'"
  using assms(2)
proof (cases rule: beam_step_cases)
  case (process e)
  from process(2) show ?thesis
    by (cases rule: exp_process_cases) (use assms(1) process(1) in \<open>auto simp: phased_def exp_enqueue_def\<close>)
qed (use assms(1) in \<open>auto simp: phased_def step_defs sender_ended_def split: if_splits list.splits item.splits sender_pc.splits\<close>)

lemma phased_sender:
  assumes "phased cfg st" "sender_step cfg a now st = Some st'"
  shows "phased cfg st'"
  using assms(2)
  by (cases rule: sender_step_cases)
     (use assms(1) in \<open>auto simp: phased_def step_defs sender_ended_def split: if_splits list.splits item.splits\<close>)

end
