(* ===== verification/Delivery_Runs.thy ===== *)
theory Delivery_Runs
  imports Delivery_Invariants
begin

text \<open>
  What a run of the delivery threads promises: the accounting of every reachable state, the end of
  a flush, the end of a retry loop, and when the client is closed. The contract is a locale over
  the record encoder and the configuration, which the OTLP exporter and the console sink interpret.
\<close>

section \<open>Reachable states\<close>

definition delivery_inv :: "export_config \<Rightarrow> 'p exporter \<Rightarrow> bool" where
  "delivery_inv cfg st \<longleftrightarrow> in_flight_ok st \<and> conserved st \<and> tallies_ok st \<and> sized cfg st \<and> phased cfg st"

lemma delivery_inv_setup: "delivery_inv cfg exp_setup"
  by (simp add: delivery_inv_def delivery_defs exp_setup_def no_tallies_def)

lemma delivery_inv_step: "\<lbrakk>delivery_inv cfg st; export_step encode cfg st st'\<rbrakk> \<Longrightarrow> delivery_inv cfg st'"
  by (erule export_step.cases)
     (auto simp: delivery_inv_def intro: in_flight_beam in_flight_sender conserved_beam conserved_sender
        counted_beam counted_sender sized_beam sized_sender phased_beam phased_sender)

lemma delivery_inv_reaches: "export_reaches encode cfg st \<Longrightarrow> delivery_inv cfg st"
  by (induction rule: export_reaches.induct) (auto intro: delivery_inv_setup delivery_inv_step)

lemma reaches_take_counts:
  "\<lbrakk>export_reaches encode cfg st; ex_beam st = Reporting\<rbrakk> \<Longrightarrow> export_reaches encode cfg (take_counts st)"
  by (rule export_reaches.step, assumption, rule export_step.beam [where call = None and now = 0])
     (simp add: beam_step.simps)

section \<open>The end of a flush\<close>

definition flush_left :: "'p exporter \<Rightarrow> nat" where
  "flush_left st =
     (case ex_beam st of
        Flushing _ \<Rightarrow> 2 * length (ex_queue st) + 3
      | Draining \<Rightarrow> 2 * length (ex_queue st) + 2
      | Discarding _ \<Rightarrow> 2 * length (ex_queue st) + 3
      | Reporting \<Rightarrow> 1
      | _ \<Rightarrow> 0)"

definition flushing :: "real \<Rightarrow> 'p exporter \<Rightarrow> bool" where
  "flushing d st \<longleftrightarrow>
     (case ex_beam st of Flushing d' \<Rightarrow> d' = d | Draining \<Rightarrow> True | Discarding _ \<Rightarrow> True | Reporting \<Rightarrow> True | _ \<Rightarrow> False)"

fun late :: "real \<Rightarrow> 'e action \<Rightarrow> bool" where
  "late d (Beam c t) \<longleftrightarrow> c = None \<and> d \<le> t"
| "late d (Sender a t) \<longleftrightarrow> True"

fun beam_turns :: "'e action list \<Rightarrow> nat" where
  "beam_turns [] = 0"
| "beam_turns (Beam c t # as) = Suc (beam_turns as)"
| "beam_turns (Sender a t # as) = beam_turns as"

lemma flush_progress:
  assumes "flushing d st" "d \<le> t"
  shows "\<exists>st'. beam_step encode cfg None t st = Some st' \<and> flush_left st' < flush_left st \<and>
               (flushing d st' \<or> ex_beam st' = Outside)"
  using assms
  by (cases "ex_beam st"; cases "ex_queue st"; cases "hd (ex_queue st)")
     (auto simp: flushing_def beam_step.simps flush_over_def drain_get_def take_counts_def flush_left_def
        count_dropped_def unflight_def split: item.splits)

lemma sender_keeps_flush:
  assumes "sender_step cfg a t st = Some st'"
  shows "flush_left st' \<le> flush_left st" "ex_beam st' = ex_beam st"
  using assms
  by (cases rule: sender_step_cases;
      auto simp: step_defs flush_left_def split: if_splits list.splits item.splits beam_pc.splits)+

lemma outside_waits: "ex_beam st = Outside \<Longrightarrow> beam_step encode cfg None t st = None"
  by (simp add: beam_step.simps)

lemma flush_bound:
  assumes "run_actions encode cfg as st = Some st'" "flushing d st \<or> ex_beam st = Outside" "list_all (late d) as"
  shows "beam_turns as + flush_left st' \<le> flush_left st \<and> (flushing d st' \<or> ex_beam st' = Outside)"
  using assms
proof (induction encode cfg as st rule: run_actions.induct)
  case (2 encode cfg c t as st)
  then obtain st1 where one: "beam_step encode cfg None t st = Some st1"
    and rest: "run_actions encode cfg as st1 = Some st'" and late: "d \<le> t" "c = None"
    by (auto split: option.splits)
  with 2 outside_waits [of st encode cfg t] have "flushing d st" by auto
  from flush_progress [OF this late(1), of encode cfg] one
  have "flush_left st1 < flush_left st" "flushing d st1 \<or> ex_beam st1 = Outside" by auto
  with 2 one rest late show ?case by fastforce
next
  case (3 encode cfg a t as st)
  then obtain st1 where one: "sender_step cfg a t st = Some st1"
    and rest: "run_actions encode cfg as st1 = Some st'"
    by (auto split: option.splits)
  from sender_keeps_flush [OF one] 3(3)
  have "flush_left st1 \<le> flush_left st" "flushing d st1 \<or> ex_beam st1 = Outside"
    by (auto simp: flushing_def)
  with 3 one rest show ?case by fastforce
qed simp

section \<open>The retry loop of one batch\<close>

text \<open>\<open>_send\<close> for one batch: the answers to its posts and the clock readings after them. \<open>None\<close> is
  only the fuel running out.\<close>

datatype sent = Delivered | GivenUp | Died

fun send_loop :: "nat \<Rightarrow> (nat \<Rightarrow> answer) \<Rightarrow> (nat \<Rightarrow> real) \<Rightarrow> real \<Rightarrow> real \<Rightarrow> nat \<Rightarrow> (sent \<times> nat) option" where
  "send_loop 0 ans clock deadline backoff i = None"
| "send_loop (Suc n) ans clock deadline backoff i =
     (if ans i = OtherFailure then Some (Died, Suc i)
      else if answer_success (ans i) then Some (Delivered, Suc i)
      else if gives_up (retryable_answer (ans i)) deadline (clock i) then Some (GivenUp, Suc i)
      else send_loop n ans clock deadline (backoff * 2) (Suc i))"

definition sleeps :: "(nat \<Rightarrow> real) \<Rightarrow> real \<Rightarrow> bool" where
  "sleeps clock deadline \<longleftrightarrow>
     (\<forall>i. clock i + min (INITIAL_BACKOFF_S * 2 ^ i) (deadline - clock i) \<le> clock (Suc i))"

lemma sleeps_elapsed:
  assumes "sleeps clock deadline"
  shows "clock i \<ge> min (clock 0 + INITIAL_BACKOFF_S * (2 ^ i - 1)) deadline"
proof (induction i)
  case (Suc i)
  have "clock i + min (INITIAL_BACKOFF_S * 2 ^ i) (deadline - clock i) \<le> clock (Suc i)"
    using assms by (simp add: sleeps_def)
  moreover have "INITIAL_BACKOFF_S * (2 ^ Suc i - 1) = INITIAL_BACKOFF_S * (2 ^ i - 1) + INITIAL_BACKOFF_S * 2 ^ i"
    by (simp add: algebra_simps)
  moreover have "(0::real) \<le> INITIAL_BACKOFF_S * 2 ^ i" by (simp add: INITIAL_BACKOFF_S_def)
  ultimately show ?case using Suc by (auto simp: min_def split: if_splits)
qed simp

lemma send_loop_ends:
  assumes "deadline \<le> clock k" "i \<le> k"
  shows "\<exists>r n. send_loop (Suc k - i) ans clock deadline backoff i = Some (r, n) \<and> n \<le> Suc k"
  using assms
proof (induction "k - i" arbitrary: i backoff)
  case 0
  then have "Suc k - i = Suc 0" "i = k" by auto
  with 0 show ?case by (auto simp: gives_up_def)
next
  case (Suc m)
  then have len: "Suc k - i = Suc (Suc k - Suc i)" "Suc i \<le> k" "m = k - Suc i" by auto
  from Suc(1) [OF len(3) Suc(3) len(2), of "backoff * 2"] len show ?case by (auto simp del: diff_Suc_Suc)
qed

lemma send_loop_bound:
  assumes "sleeps clock deadline" "deadline - clock 0 \<le> INITIAL_BACKOFF_S * (2 ^ k - 1)"
  shows "\<exists>r n. send_loop (Suc k) ans clock deadline INITIAL_BACKOFF_S 0 = Some (r, n) \<and> n \<le> Suc k"
proof -
  have "deadline \<le> clock k" using sleeps_elapsed [OF assms(1), of k] assms(2) by (simp add: min_def split: if_splits)
  from send_loop_ends [where clock = clock and deadline = deadline and k = k and i = 0, OF this] show ?thesis by simp
qed

section \<open>The contract\<close>

locale delivery =
  fixes encode :: "'e \<Rightarrow> 'p option res" and cfg :: export_config
  assumes batch_size_pos: "1 \<le> ec_batch_size cfg"
    and queue_bounded: "1 \<le> ec_queue_batches cfg"
begin

lemma accounts:
  assumes "export_reaches encode cfg st"
  shows "ex_accepted st =
           mset (ex_batch st) + mset (queued (ex_queue st)) + mset (beam_hands (ex_beam st)) +
           mset (sender_open (ex_sender st)) + ex_acked st + ex_lost st"
    and "ta_exported (ex_sink st) + ta_exported (ex_tallies st) = int (size (ex_acked st))"
    and "ta_dropped (ex_sink st) + ta_dropped (ex_tallies st) = int (size (ex_lost st))"
    and "ex_in_flight st =
           int (length (queued (ex_queue st)) + length (beam_hands (ex_beam st)) + length (sender_hands (ex_sender st)))"
  using delivery_inv_reaches [OF assms] by (auto simp: delivery_inv_def delivery_defs)

lemma bounded:
  assumes "export_reaches encode cfg st"
  shows "int (length (ex_batch st)) < ec_batch_size cfg" "int (length (ex_queue st)) \<le> ec_queue_batches cfg"
    and "int (length (sender_hands (ex_sender st))) \<le> ec_batch_size cfg"
  using delivery_inv_reaches [OF assms] batch_size_pos queue_bounded
  by (auto simp: delivery_inv_def sized_def batch_ok_def)

lemma sender_open_le: "length (sender_open pc) \<le> length (sender_hands pc)"
  by (cases pc) auto

lemma settles:
  assumes "export_reaches encode cfg st" "ex_beam st = Reporting"
  shows "ex_batch (take_counts st) = []" "ex_queue (take_counts st) = []"
    and "int (size (ex_accepted (take_counts st))) =
           ta_exported (ex_sink (take_counts st)) + ta_dropped (ex_sink (take_counts st)) +
           int (length (sender_open (ex_sender (take_counts st))))"
    and "int (length (sender_open (ex_sender (take_counts st)))) \<le> ec_batch_size cfg"
proof -
  have inv: "delivery_inv cfg st" "delivery_inv cfg (take_counts st)"
    using assms reaches_take_counts delivery_inv_reaches by blast+
  show empty: "ex_batch (take_counts st) = []" "ex_queue (take_counts st) = []"
    using inv(1) assms(2) by (auto simp: delivery_inv_def phased_def take_counts_def)
  have "conserved (take_counts st)" "tallies_ok (take_counts st)"
    using inv(2) by (auto simp: delivery_inv_def)
  with empty show "int (size (ex_accepted (take_counts st))) =
           ta_exported (ex_sink (take_counts st)) + ta_dropped (ex_sink (take_counts st)) +
           int (length (sender_open (ex_sender (take_counts st))))"
    by (auto simp: conserved_def tallies_ok_def take_counts_def no_tallies_def)
  show "int (length (sender_open (ex_sender (take_counts st)))) \<le> ec_batch_size cfg"
    using bounded(3) [OF reaches_take_counts [OF assms]] sender_open_le [of "ex_sender (take_counts st)"] by linarith
qed

lemma flush_returns:
  assumes "export_reaches encode cfg st" "ex_beam st = Flushing d" "list_all (late d) as"
    and "run_actions encode cfg as st = Some st'"
  shows "int (beam_turns as) \<le> 2 * ec_queue_batches cfg + 3"
    and "ex_beam st' \<noteq> Outside \<Longrightarrow> beam_step encode cfg None d st' \<noteq> None"
proof -
  have flush: "flushing d st" using assms(2) by (simp add: flushing_def)
  from flush_bound [OF assms(4) disjI1 [OF flush] assms(3)]
  have turns: "beam_turns as \<le> 2 * length (ex_queue st) + 3" and st': "flushing d st' \<or> ex_beam st' = Outside"
    using assms(2) by (auto simp: flush_left_def)
  show "int (beam_turns as) \<le> 2 * ec_queue_batches cfg + 3" using turns bounded(2) [OF assms(1)] by linarith
  show "beam_step encode cfg None d st' \<noteq> None" if "ex_beam st' \<noteq> Outside"
    using st' that flush_progress [of d st' d encode cfg] by auto
qed

lemma no_early_stop: "export_reaches encode cfg st \<Longrightarrow> ex_beam st = Draining \<Longrightarrow> Stop \<notin> set (ex_queue st)"
  using delivery_inv_reaches [of encode cfg st] by (auto simp: delivery_inv_def phased_def)

lemma close_waits:
  "\<lbrakk>export_reaches encode cfg st; ex_closed st; \<not> ec_close_live cfg\<rbrakk> \<Longrightarrow> sender_ended st"
  using delivery_inv_reaches [of encode cfg st] by (auto simp: delivery_inv_def phased_def)

end

end
