(* ===== verification/Exporters.thy ===== *)
theory Exporters
  imports Delivery_Runs Traces Uris
begin

text \<open>
  The encodings of \<open>.traces\<close> (\<open>observability/exporters.py\<close>, \<open>observability/otlp.py\<close>): the bus message,
  the BigQuery row with its RFC 3339 column, the OTLP span and the batched request, and the OTLP
  exporter as an instance of the delivery threads. Event types are those of this version of the
  proto. Serialised messages are parameters.
\<close>

section \<open>Bus and table encodings\<close>

definition sorted_attributes :: "(string, string) dict \<Rightarrow> (string \<times> string) list" where
  "sorted_attributes attrs = sort_key fst attrs"

definition serialize_trace_event :: "(trace_event \<Rightarrow> bytes) \<Rightarrow> trace_event \<Rightarrow> bytes \<times> bytes" where
  "serialize_trace_event serialize event = (te_key event, serialize event)"

text \<open>\<open>datetime.isoformat\<close> of an instant in UTC, from the days since 1970-01-01 of the proleptic
  Gregorian calendar; a year outside 1 to 9999 is an \<open>OverflowError\<close>.\<close>

definition civil_year_month_day :: "int \<Rightarrow> int \<times> int \<times> int" where
  "civil_year_month_day days =
     (let z = days + 719468;
          era = z div 146097;
          doe = z mod 146097;
          yoe = (doe - doe div 1460 + doe div 36524 - doe div 146096) div 365;
          doy = doe - (365 * yoe + yoe div 4 - yoe div 100);
          mp = (5 * doy + 2) div 153;
          d = doy - (153 * mp + 2) div 5 + 1;
          m = (if mp < 10 then mp + 3 else mp - 9) in
      (yoe + era * 400 + (if m \<le> 2 then 1 else 0), m, d))"

definition zero_pad :: "nat \<Rightarrow> int \<Rightarrow> string" where
  "zero_pad width n = replicate (width - length (dec n)) (CHR ''0'') @ dec n"

definition MS_PER_DAY :: int where "MS_PER_DAY = 86400000"

definition iso_time :: "msec \<Rightarrow> string res" where
  "iso_time ms =
     (if ms < -62135596800000 \<or> 253402300799999 < ms then Err OverflowError
      else
        (let (y, mo, d) = civil_year_month_day (ms div MS_PER_DAY);
             s = ms mod MS_PER_DAY;
             frac = s mod 1000 in
         Ok (zero_pad 4 y @ ''-'' @ zero_pad 2 mo @ ''-'' @ zero_pad 2 d @ ''T'' @
             zero_pad 2 (s div 3600000) @ '':'' @ zero_pad 2 (s div 60000 mod 60) @ '':'' @
             zero_pad 2 (s div 1000 mod 60) @
             (if frac = 0 then [] else ''.'' @ zero_pad 3 frac @ ''000'') @ ''+00:00'')))"

datatype cell = CNull | CText string | CInt int

text \<open>A row as it is read back: a column that is absent or NULL is \<open>CNull\<close>, a key of an attribute
  record that is absent is \<open>None\<close>.\<close>

record trace_row =
  tw_trace :: cell
  tw_span :: cell
  tw_parent :: cell
  tw_key :: cell
  tw_seq :: cell
  tw_step :: cell
  tw_type :: cell
  tw_start :: cell
  tw_end :: cell
  tw_time :: cell
  tw_attrs :: "(cell option \<times> cell) list"

definition trace_event_to_row :: "trace_event \<Rightarrow> trace_row res" where
  "trace_event_to_row event =
     bindE (iso_time (te_start event)) (\<lambda>time.
       Ok \<lparr>tw_trace = CText (hex_bytes (te_trace event)), tw_span = CText (hex_bytes (te_span event)),
           tw_parent = CText (hex_bytes (te_parent event)), tw_key = CText (hex_bytes (te_key event)),
           tw_seq = CInt (te_seq event), tw_step = CInt (te_step event),
           tw_type = CText (event_name (te_type event)),
           tw_start = CInt (te_start event), tw_end = CInt (te_end event), tw_time = CText time,
           tw_attrs = map (\<lambda>kv. (Some (CText (fst kv)), CText (snd kv))) (sorted_attributes (te_attrs event))\<rparr>)"

lemma dec_nat_literals:
  "dec_nat (numeral k) =
     (if (numeral k :: nat) < 10 then [digit_char (numeral k)]
      else dec_nat (numeral k div 10) @ [digit_char (numeral k mod 10)])"
  "dec_nat 0 = [digit_char 0]" "dec_nat (Suc 0) = [digit_char 1]"
  by (subst dec_nat.simps, simp)+

lemma civil_examples:
  "civil_year_month_day 0 = (1970, 1, 1)"
  "civil_year_month_day 19782 = (2024, 2, 29)"
  "civil_year_month_day (-1) = (1969, 12, 31)"
  "civil_year_month_day 2932896 = (9999, 12, 31)"
  unfolding civil_year_month_day_def Let_def by simp_all

lemma iso_examples:
  "iso_time 0 = Ok ''1970-01-01T00:00:00+00:00''"
  "iso_time 1709164800123 = Ok ''2024-02-29T00:00:00.123000+00:00''"
  "iso_time (-1) = Ok ''1969-12-31T23:59:59.999000+00:00''"
  "iso_time 253402300799999 = Ok ''9999-12-31T23:59:59.999000+00:00''"
  unfolding iso_time_def Let_def
  by (simp_all add: MS_PER_DAY_def civil_examples zero_pad_def dec_def dec_nat_literals digit_char_def) code_simp+

section \<open>OTLP spans\<close>

datatype any_value =
    StringValue string
  | BoolValue bool
  | IntValue int
  | DoubleValue real
  | BytesValue bytes
  | OtherValue

datatype span_status = StatusUnset | StatusError string

record span =
  sp_trace :: bytes
  sp_span :: bytes
  sp_parent :: bytes
  sp_name :: string
  sp_start :: int
  sp_end :: int
  sp_attrs :: "(string \<times> any_value) list"
  sp_status :: span_status

definition NANOS_PER_MS :: int where "NANOS_PER_MS = 1000000"

text \<open>A \<open>fixed64\<close> field refuses a number outside its range with a \<open>ValueError\<close>.\<close>

definition fixed64 :: "int \<Rightarrow> int res" where
  "fixed64 n = (if 0 \<le> n \<and> n < 2 ^ 64 then Ok n else Err ValueError)"

definition event_to_span :: "trace_event \<Rightarrow> span option res" where
  "event_to_span event =
     (if te_type event = ActivationStart then Ok None
      else
        bindE (fixed64 (te_start event * NANOS_PER_MS)) (\<lambda>start.
          bindE (fixed64 (te_end event * NANOS_PER_MS)) (\<lambda>finish.
            Ok (Some \<lparr>sp_trace = te_trace event, sp_span = te_span event, sp_parent = te_parent event,
                      sp_name = lower (event_name (te_type event)), sp_start = start, sp_end = finish,
                      sp_attrs = map (\<lambda>kv. (fst kv, StringValue (snd kv))) (sorted_attributes (te_attrs event)),
                      sp_status =
                        (if te_type event = ErrorEvent
                         then StatusError (case map_of (te_attrs event) REASON of None \<Rightarrow> [] | Some r \<Rightarrow> r)
                         else StatusUnset)\<rparr>))))"

text \<open>An export request: per resource its attributes and its scopes, per scope its name and spans.\<close>

type_synonym otlp_request = "((string \<times> any_value) list \<times> (string \<times> span list) list) list"

definition otlp_batch_request :: "string \<Rightarrow> span list \<Rightarrow> otlp_request" where
  "otlp_batch_request service_name spans =
     [([(''service.name'', StringValue service_name)], [(''beam_agents'', spans)])]"

definition encode_otlp_batch :: "(otlp_request \<Rightarrow> bytes) \<Rightarrow> string \<Rightarrow> span list \<Rightarrow> bytes" where
  "encode_otlp_batch serialize service_name spans = serialize (otlp_batch_request service_name spans)"

definition DEFAULT_SERVICE_NAME :: string where "DEFAULT_SERVICE_NAME = ''beam-agents''"
definition OTLP_BATCH_SIZE :: int where "OTLP_BATCH_SIZE = 512"
definition OTLP_FLUSH_DEADLINE_S :: real where "OTLP_FLUSH_DEADLINE_S = 5"
definition OTLP_QUEUE_BATCHES :: int where "OTLP_QUEUE_BATCHES = 8"

definition otlp_config :: "int \<Rightarrow> real \<Rightarrow> int \<Rightarrow> export_config" where
  "otlp_config batch_size flush_deadline queue_batches =
     \<lparr>ec_batch_size = batch_size, ec_flush_deadline = flush_deadline, ec_queue_batches = queue_batches,
      ec_close_live = True\<rparr>"

definition otlp_default :: export_config where
  "otlp_default = otlp_config OTLP_BATCH_SIZE OTLP_FLUSH_DEADLINE_S OTLP_QUEUE_BATCHES"

interpretation otlp: delivery event_to_span otlp_default
  by unfold_locales (simp_all add: otlp_default_def otlp_config_def OTLP_BATCH_SIZE_def OTLP_QUEUE_BATCHES_def)

end
