(* ===== verification/Console_Ingest.thy ===== *)
theory Console_Ingest
  imports Exporters Replay Outbox
begin

text \<open>
  The console's path from bytes to rows: the row vocabulary (\<open>console/_records.py\<close>), the framing, the
  decoders of the five sources and the one normaliser (\<open>console/_ingest.py\<close>). Protobuf parsing and
  serialising are parameters, as is the text of a float. Unicode case mapping and digits are
  modelled on ASCII.
\<close>

section \<open>Rows\<close>

definition PROVENANCE_NATIVE :: string where "PROVENANCE_NATIVE = ''native''"
definition PROVENANCE_OTLP :: string where "PROVENANCE_OTLP = ''otlp''"
definition PROVENANCE_KAFKA :: string where "PROVENANCE_KAFKA = ''kafka''"
definition PROVENANCE_BIGQUERY :: string where "PROVENANCE_BIGQUERY = ''bigquery''"
definition PROVENANCE_BUNDLE :: string where "PROVENANCE_BUNDLE = ''bundle''"

definition PROVENANCE :: "string list" where
  "PROVENANCE = [PROVENANCE_NATIVE, PROVENANCE_OTLP, PROVENANCE_KAFKA, PROVENANCE_BIGQUERY, PROVENANCE_BUNDLE]"

record event_row =
  vr_trace :: string
  vr_span :: string
  vr_parent :: string
  vr_key :: string
  vr_seq :: int
  vr_step :: int
  vr_type :: string
  vr_start :: msec
  vr_end :: msec
  vr_attrs :: "(string, string) dict"
  vr_prov :: string

record failure_row =
  fr_key :: string
  fr_reason :: string
  fr_detail :: string
  fr_time :: msec
  fr_seq :: "int option"
  fr_prov :: string

record snapshot_row =
  nr_key :: string
  nr_seq :: int
  nr_at :: msec
  nr_version :: int
  nr_request :: string
  nr_memory_entries :: int
  nr_memory_bytes :: int
  nr_cache_entries :: int
  nr_pending :: "string list"
  nr_step :: "int option"
  nr_deadline :: "msec option"
  nr_adapter :: string
  nr_raw :: bytes
  nr_prov :: string

record record_batch =
  rb_events :: "event_row list"
  rb_errors :: "failure_row list"
  rb_snapshots :: "snapshot_row list"

definition batch_length :: "record_batch \<Rightarrow> nat" where
  "batch_length b = length (rb_events b) + length (rb_errors b) + length (rb_snapshots b)"

section \<open>Framing\<close>

text \<open>\<open>_read_varint\<close>: \<open>None\<close> when the varint is itself cut short.\<close>

fun cut_varint :: "nat \<Rightarrow> nat \<Rightarrow> bytes \<Rightarrow> (nat \<times> bytes) option" where
  "cut_varint val shift [] = None"
| "cut_varint val shift (b # bs) =
     (let val' = or val (push_bit shift (unat b mod 128)) in
      if unat b < 128 then Some (val', bs) else cut_varint val' (shift + 7) bs)"

lemma cut_varint_read: "cut_varint v s bs = (case read_varint v s bs of Inl _ \<Rightarrow> None | Inr r \<Rightarrow> Some r)"
  by (induction v s bs rule: cut_varint.induct) (auto simp: Let_def)

function bounds_from :: "nat \<Rightarrow> bytes \<Rightarrow> (nat \<times> nat) list" where
  "bounds_from offset data =
     (if data = [] then []
      else
        (case cut_varint 0 0 data of
           None \<Rightarrow> []
         | Some (n, rest) \<Rightarrow>
             (let start = offset + (length data - length rest) in
              if length rest < n then [] else (start, start + n) # bounds_from (start + n) (drop n rest))))"
  by pat_completeness auto
termination
  by (relation "measure (length \<circ> snd)") (auto simp: cut_varint_read dest!: read_varint_shrinks split: sum.splits)

declare bounds_from.simps [simp del]

definition frame_bounds :: "bytes \<Rightarrow> (nat \<times> nat) list" where
  "frame_bounds payload = bounds_from 0 payload"

definition frames_end :: "(nat \<times> nat) list \<Rightarrow> nat" where
  "frames_end bounds = (if bounds = [] then 0 else snd (last bounds))"

definition sliced :: "bytes \<Rightarrow> nat \<times> nat \<Rightarrow> bytes" where
  "sliced payload b = take (snd b - fst b) (drop (fst b) payload)"

definition frame_records :: "('m \<Rightarrow> bytes) \<Rightarrow> 'm list \<Rightarrow> bytes" where
  "frame_records serialize messages =
     concat (map (\<lambda>m. varint (length (serialize m)) @ serialize m) messages)"

section \<open>Decoding\<close>

text \<open>What a decoder returns or raises: the records, a truncated stream with the complete records
  it read, or a plain \<open>ValueError\<close>.\<close>

datatype 'm decoded = Records "'m list" | Truncated "'m list" | Malformed

definition decode_trace_stream :: "(bytes \<Rightarrow> trace_event option) \<Rightarrow> bytes \<Rightarrow> trace_event decoded" where
  "decode_trace_stream parse payload =
     (let consumed = frames_end (frame_bounds payload) in
      case parse_trace_stream parse (take consumed payload) of
        Inl e \<Rightarrow> Malformed
      | Inr events \<Rightarrow> if consumed \<noteq> length payload then Truncated events else Records events)"

fun decode_all :: "('b \<Rightarrow> 'm option) \<Rightarrow> 'b list \<Rightarrow> 'm list option" where
  "decode_all decode_one [] = Some []"
| "decode_all decode_one (b # bs) =
     (case decode_one b of None \<Rightarrow> None | Some m \<Rightarrow> map_option ((#) m) (decode_all decode_one bs))"

definition decode_batch :: "(bytes \<Rightarrow> 'm option) \<Rightarrow> bytes \<Rightarrow> 'm decoded" where
  "decode_batch decode_one payload =
     (if payload = [] then Records []
      else
        (case decode_one payload of
           Some m \<Rightarrow> Records [m]
         | None \<Rightarrow>
             (let bounds = frame_bounds payload in
              case decode_all decode_one (map (sliced payload) bounds) of
                None \<Rightarrow> Malformed
              | Some [] \<Rightarrow> Malformed
              | Some records \<Rightarrow>
                  if frames_end bounds \<noteq> length payload then Truncated records else Records records)))"

definition parse_error_record :: "(bytes \<Rightarrow> activation_error_record option) \<Rightarrow> bytes \<Rightarrow> activation_error_record option" where
  "parse_error_record parse payload =
     (case parse payload of None \<Rightarrow> None | Some r \<Rightarrow> if er_reason r = [] then None else Some r)"

definition decode_one_error ::
  "(bytes \<Rightarrow> envelope option) \<Rightarrow> (bytes \<Rightarrow> activation_error_record option) \<Rightarrow> bytes \<Rightarrow> activation_error_record option" where
  "decode_one_error parse_envelope parse payload =
     (case (case parse_envelope payload of
              None \<Rightarrow> None
            | Some env \<Rightarrow>
                (case env_payload env of Some (ExternalEvent x) \<Rightarrow> parse_error_record parse x | _ \<Rightarrow> None)) of
        Some wrapped \<Rightarrow> Some wrapped
      | None \<Rightarrow> parse_error_record parse payload)"

definition decode_one_snapshot ::
  "(bytes \<Rightarrow> state_snapshot option) \<Rightarrow> (state_snapshot \<Rightarrow> bytes) \<Rightarrow> bytes \<Rightarrow> state_snapshot option" where
  "decode_one_snapshot parse serialize payload =
     (case parse payload of None \<Rightarrow> None | Some s \<Rightarrow> if serialize s = payload then Some s else None)"

definition decode_error_payload ::
  "(bytes \<Rightarrow> envelope option) \<Rightarrow> (bytes \<Rightarrow> activation_error_record option) \<Rightarrow> bytes \<Rightarrow> activation_error_record decoded" where
  "decode_error_payload parse_envelope parse payload = decode_batch (decode_one_error parse_envelope parse) payload"

definition decode_snapshot_payload ::
  "(bytes \<Rightarrow> state_snapshot option) \<Rightarrow> (state_snapshot \<Rightarrow> bytes) \<Rightarrow> bytes \<Rightarrow> state_snapshot decoded" where
  "decode_snapshot_payload parse serialize payload = decode_batch (decode_one_snapshot parse serialize) payload"

section \<open>Encoding reversals\<close>

definition EVENT_TYPES :: "event_type list" where
  "EVENT_TYPES = [EventUnspecified, ActivationStart, LlmCall, ToolCall, IntentEmitted, ActivationEnd, ErrorEvent, SuspendedEvent]"

definition event_of_name :: "string \<Rightarrow> event_type option" where
  "event_of_name name = find (\<lambda>t. event_name t = name) EVENT_TYPES"

definition to_upper :: "string \<Rightarrow> string" where
  "to_upper s = map (\<lambda>c. if is_lower c then char_of (code c - 32) else c) s"

definition event_type_for_span_name :: "string \<Rightarrow> event_type" where
  "event_type_for_span_name name =
     (case event_of_name (to_upper name) of None \<Rightarrow> EventUnspecified | Some t \<Rightarrow> t)"

definition any_value_to_str :: "(real \<Rightarrow> string) \<Rightarrow> any_value \<Rightarrow> string" where
  "any_value_to_str float_text v =
     (case v of
        StringValue s \<Rightarrow> s
      | BoolValue b \<Rightarrow> if b then ''true'' else ''false''
      | IntValue i \<Rightarrow> dec i
      | DoubleValue x \<Rightarrow> float_text x
      | BytesValue bs \<Rightarrow> hex_bytes bs
      | OtherValue \<Rightarrow> [])"

definition dict_of :: "('k \<times> 'v) list \<Rightarrow> ('k, 'v) dict" where
  "dict_of kvs = fold (\<lambda>kv d. AList.update (fst kv) (snd kv) d) kvs []"

definition span_to_event :: "(real \<Rightarrow> string) \<Rightarrow> span \<Rightarrow> trace_event" where
  "span_to_event float_text s =
     \<lparr>te_trace = sp_trace s, te_span = sp_span s, te_parent = sp_parent s, te_key = [], te_seq = 0, te_step = 0,
      te_type = event_type_for_span_name (sp_name s),
      te_attrs = dict_of (map (\<lambda>kv. (fst kv, any_value_to_str float_text (snd kv))) (sp_attrs s)),
      te_start = sp_start s div NANOS_PER_MS, te_end = sp_end s div NANOS_PER_MS\<rparr>"

definition decode_otlp_request :: "(bytes \<Rightarrow> otlp_request option) \<Rightarrow> (real \<Rightarrow> string) \<Rightarrow> bytes \<Rightarrow> trace_event list res" where
  "decode_otlp_request parse float_text payload =
     (case parse payload of
        None \<Rightarrow> Err ValueError
      | Some request \<Rightarrow>
          Ok (concat (map (\<lambda>resource_spans.
                concat (map (\<lambda>scope_spans. map (span_to_event float_text) (snd scope_spans)) (snd resource_spans)))
              request)))"

text \<open>\<open>int(text)\<close>: blanks around, a sign, digits with single underscores between them, at most 4300 digits.\<close>

fun int_digits :: "bool \<Rightarrow> string \<Rightarrow> string option" where
  "int_digits digit [] = (if digit then Some [] else None)"
| "int_digits digit (c # cs) =
     (if is_digit c then map_option ((#) c) (int_digits True cs)
      else if c = CHR ''_'' \<and> digit \<and> cs \<noteq> [] then int_digits False cs
      else None)"

definition int_of_text :: "string \<Rightarrow> int res" where
  "int_of_text text =
     (let s = strip text;
          negative = prefix ''-'' s;
          body = (if negative \<or> prefix ''+'' s then tl s else s) in
      case int_digits False body of
        None \<Rightarrow> Err ValueError
      | Some ds \<Rightarrow>
          if MAX_STR_DIGITS < length ds then Err ValueError
          else Ok (if negative then - int (read_nat ds 0) else int (read_nat ds 0)))"

definition cell_truthy :: "cell \<Rightarrow> bool" where
  "cell_truthy c = (case c of CNull \<Rightarrow> False | CText s \<Rightarrow> s \<noteq> [] | CInt i \<Rightarrow> i \<noteq> 0)"

definition cell_str :: "cell \<Rightarrow> string" where
  "cell_str c = (case c of CNull \<Rightarrow> ''None'' | CText s \<Rightarrow> s | CInt i \<Rightarrow> dec i)"

text \<open>\<open>int(row.get(k) or 0)\<close> and \<open>str(x or "")\<close>.\<close>

definition cell_int :: "cell \<Rightarrow> int res" where
  "cell_int c =
     (if \<not> cell_truthy c then Ok 0
      else case c of CInt i \<Rightarrow> Ok i | CText s \<Rightarrow> int_of_text s | CNull \<Rightarrow> Ok 0)"

definition cell_or_empty :: "cell \<Rightarrow> string" where
  "cell_or_empty c = (if cell_truthy c then cell_str c else [])"

definition cell_hex :: "cell \<Rightarrow> bytes res" where
  "cell_hex c =
     (if \<not> cell_truthy c then Ok []
      else case from_hex (cell_str c) of None \<Rightarrow> Err ValueError | Some bs \<Rightarrow> Ok bs)"

text \<open>Assigning a number outside the range of its proto field is a \<open>ValueError\<close>.\<close>

definition int64 :: "int \<Rightarrow> int res" where
  "int64 n = (if - (2 ^ 63) \<le> n \<and> n < 2 ^ 63 then Ok n else Err ValueError)"

definition uint32 :: "int \<Rightarrow> int res" where
  "uint32 n = (if 0 \<le> n \<and> n < 2 ^ 32 then Ok n else Err ValueError)"

definition row_attribute :: "cell option \<times> cell \<Rightarrow> (string \<times> string) res" where
  "row_attribute kv =
     (case fst kv of None \<Rightarrow> Err KeyError | Some k \<Rightarrow> Ok (cell_str k, cell_or_empty (snd kv)))"

definition row_to_event :: "trace_row \<Rightarrow> trace_event res" where
  "row_to_event row =
     (case event_of_name (if cell_truthy (tw_type row) then cell_str (tw_type row) else ''EVENT_TYPE_UNSPECIFIED'') of
        None \<Rightarrow> Err ValueError
      | Some t \<Rightarrow>
          bindE (cell_hex (tw_trace row)) (\<lambda>trace.
          bindE (cell_hex (tw_span row)) (\<lambda>span.
          bindE (cell_hex (tw_parent row)) (\<lambda>parent.
          bindE (cell_hex (tw_key row)) (\<lambda>key.
          bindE (cell_int (tw_seq row)) (\<lambda>seq.
          bindE (cell_int (tw_step row)) (\<lambda>step.
          bindE (cell_int (tw_start row)) (\<lambda>start.
          bindE (cell_int (tw_end row)) (\<lambda>finish.
          bindE (mapE row_attribute (tw_attrs row)) (\<lambda>attrs.
          bindE (int64 seq) (\<lambda>seq.
          bindE (uint32 step) (\<lambda>step.
          bindE (int64 start) (\<lambda>start.
          bindE (int64 finish) (\<lambda>finish.
            Ok \<lparr>te_trace = trace, te_span = span, te_parent = parent, te_key = key, te_seq = seq, te_step = step,
                te_type = t, te_attrs = dict_of attrs, te_start = start, te_end = finish\<rparr>))))))))))))))"

definition decode_bigquery_rows :: "trace_row list \<Rightarrow> trace_event list res" where
  "decode_bigquery_rows rows = mapE row_to_event rows"

section \<open>Normalising\<close>

text \<open>\<open>_SEQ_IN_DETAIL.search\<close>: the digits of the first \<open>seq=\<close> at the start of the text or after a
  blank, comma or semicolon. The flag says whether a match may start here.\<close>

definition signed_digits :: "string \<Rightarrow> (bool \<times> string) option" where
  "signed_digits s =
     (let negative = prefix ''-'' s; ds = takeWhile is_digit (if negative then tl s else s) in
      if ds = [] then None else Some (negative, ds))"

fun seq_in_detail :: "bool \<Rightarrow> string \<Rightarrow> (bool \<times> string) option" where
  "seq_in_detail ok [] = None"
| "seq_in_detail ok (c # cs) =
     (if ok \<and> prefix ''seq='' (c # cs) \<and> signed_digits (drop 3 cs) \<noteq> None then signed_digits (drop 3 cs)
      else seq_in_detail (is_space c \<or> c \<in> set '',;'') cs)"

definition REASONS_WITH_SCALAR_SEQ :: "string list" where
  "REASONS_WITH_SCALAR_SEQ = [REASON_TTL_WIPED_SUSPENSION, REASON_HITL_TIMEOUT]"

definition seq_from_detail :: "(string \<Rightarrow> json) \<Rightarrow> string \<Rightarrow> string \<Rightarrow> int option res" where
  "seq_from_detail parse_float reason detail =
     (if reason = REASON_INTENT_DEAD_LETTER then
        (case json_loads parse_float detail of
           Inl e \<Rightarrow> Ok None
         | Inr decoded \<Rightarrow>
             Ok (case decoded of
                   JObj kvs \<Rightarrow> (case map_of kvs ''seq'' of Some (JInt i) \<Rightarrow> Some i | _ \<Rightarrow> None)
                 | _ \<Rightarrow> None))
      else if reason \<in> set REASONS_WITH_SCALAR_SEQ then
        (case seq_in_detail True detail of
           None \<Rightarrow> Ok None
         | Some (negative, ds) \<Rightarrow>
             if MAX_STR_DIGITS < length ds then Err ValueError
             else Ok (Some (if negative then - int (read_nat ds 0) else int (read_nat ds 0))))
      else Ok None)"

definition event_row_of :: "string \<Rightarrow> trace_event \<Rightarrow> event_row" where
  "event_row_of provenance event =
     \<lparr>vr_trace = hex_bytes (te_trace event), vr_span = hex_bytes (te_span event),
      vr_parent = hex_bytes (te_parent event), vr_key = hex_bytes (te_key event), vr_seq = te_seq event,
      vr_step = te_step event, vr_type = event_name (te_type event), vr_start = te_start event,
      vr_end = te_end event, vr_attrs = sorted_attributes (te_attrs event), vr_prov = provenance\<rparr>"

definition failure_row_of :: "(string \<Rightarrow> json) \<Rightarrow> string \<Rightarrow> activation_error_record \<Rightarrow> failure_row res" where
  "failure_row_of parse_float provenance e =
     bindE (seq_from_detail parse_float (er_reason e) (er_detail e)) (\<lambda>seq.
       Ok \<lparr>fr_key = hex_bytes (er_key e), fr_reason = er_reason e, fr_detail = er_detail e, fr_time = er_time e,
           fr_seq = seq, fr_prov = provenance\<rparr>)"

definition snapshot_row_of :: "(state_snapshot \<Rightarrow> bytes) \<Rightarrow> string \<Rightarrow> state_snapshot \<Rightarrow> snapshot_row" where
  "snapshot_row_of serialize provenance s =
     (let pending = map ti_id (sn_pending s);
          c = sn_continuation s in
      \<lparr>nr_key = hex_bytes (sn_key s), nr_seq = sn_seq s, nr_at = sn_at s, nr_version = sn_version s,
       nr_request = sn_request s,
       nr_memory_entries = (case sn_memory s of None \<Rightarrow> 0 | Some b \<Rightarrow> int (length (mb_entries b))),
       nr_memory_bytes = (case sn_memory s of None \<Rightarrow> 0 | Some b \<Rightarrow> mb_total b),
       nr_cache_entries = (case sn_cache s of None \<Rightarrow> 0 | Some b \<Rightarrow> int (length (cb_entries b))),
       nr_pending = (if pending \<noteq> [] then pending else case c of None \<Rightarrow> [] | Some k \<Rightarrow> co_pending k),
       nr_step = map_option co_step c, nr_deadline = map_option co_deadline c,
       nr_adapter = (case c of None \<Rightarrow> [] | Some k \<Rightarrow> co_adapter k),
       nr_raw = serialize s, nr_prov = provenance\<rparr>)"

definition normalize ::
  "(string \<Rightarrow> json) \<Rightarrow> (state_snapshot \<Rightarrow> bytes) \<Rightarrow> trace_event list \<Rightarrow> activation_error_record list \<Rightarrow>
   state_snapshot list \<Rightarrow> string \<Rightarrow> record_batch res" where
  "normalize parse_float serialize events errors snapshots provenance =
     (if provenance \<notin> set PROVENANCE then Err ValueError
      else bindE (mapE (failure_row_of parse_float provenance) errors) (\<lambda>failures.
        Ok \<lparr>rb_events = map (event_row_of provenance) events, rb_errors = failures,
            rb_snapshots = map (snapshot_row_of serialize provenance) snapshots\<rparr>))"

end
