(* ===== verification/Console_Paths.thy ===== *)
theory Console_Paths
  imports Console_Ingest
begin

text \<open>
  What survives each path to the console: framed streams cut anywhere, table rows, OTLP spans, the
  sequence number inside a dead letter's detail.
\<close>

section \<open>Framed streams\<close>

lemma frame_trace_records: "frame_trace_events serialize es = frame_records serialize es"
  by (simp add: frame_trace_events_def frame_records_def)

lemma frame_records_Cons [simp]:
  "frame_records ser [] = []"
  "frame_records ser (e # es) = varint (length (ser e)) @ ser e @ frame_records ser es"
  by (simp_all add: frame_records_def)

lemma cut_varint_append [simp]: "cut_varint 0 0 (varint n @ rest) = Some (n, rest)"
  by (simp add: cut_varint_read read_varint_append)

lemma bounds_from_Nil [simp]: "bounds_from off [] = []"
  by (subst bounds_from.simps) simp

lemma bounds_from_frame:
  "bounds_from off (varint (length b) @ b @ rest) =
     (off + length (varint (length b)), off + length (varint (length b)) + length b) #
     bounds_from (off + length (varint (length b)) + length b) rest"
  by (subst bounds_from.simps) (simp add: Let_def)

lemma bounds_from_cut:
  assumes "m < length (varint (length b) @ b)"
  shows "bounds_from off (take m (varint (length b) @ b @ rest)) = []"
proof (cases "m < length (varint (length b))")
  case True
  then have "cut_varint 0 0 (take m (varint (length b) @ b @ rest)) = None"
    using varint_cut [OF True, of 0 0] by (simp add: cut_varint_read)
  then show ?thesis by (subst bounds_from.simps) simp
next
  case False
  then have "take m (varint (length b) @ b @ rest) = varint (length b) @ take (m - length (varint (length b))) b"
    using assms by simp
  then show ?thesis using assms False by (subst bounds_from.simps) (simp add: Let_def)
qed

text \<open>How many frames lie complete within the first \<open>m\<close> bytes.\<close>

fun whole_frames :: "('m \<Rightarrow> bytes) \<Rightarrow> nat \<Rightarrow> 'm list \<Rightarrow> nat" where
  "whole_frames ser m [] = 0"
| "whole_frames ser m (e # es) =
     (let n = length (varint (length (ser e)) @ ser e) in
      if m < n then 0 else Suc (whole_frames ser (m - n) es))"

definition ends_from :: "nat \<Rightarrow> (nat \<times> nat) list \<Rightarrow> nat" where
  "ends_from off bounds = (if bounds = [] then off else snd (last bounds))"

lemma ends_from_Cons [simp]: "ends_from off (b # bs) = ends_from (snd b) bs" "ends_from off [] = off"
  by (simp_all add: ends_from_def)

lemma frames_end_from: "frames_end bounds = ends_from 0 bounds"
  by (simp add: frames_end_def ends_from_def)

lemma cut_bounds:
  "ends_from off (bounds_from off (take m (frame_records ser es))) =
     off + length (frame_records ser (take (whole_frames ser m es) es)) \<and>
   map (sliced (pre @ take m (frame_records ser es))) (bounds_from (length pre) (take m (frame_records ser es))) =
     map ser (take (whole_frames ser m es) es)"
proof (induction es arbitrary: off m pre)
  case (Cons e es)
  let ?v = "varint (length (ser e))"
  show ?case
  proof (cases "m < length (?v @ ser e)")
    case True
    then show ?thesis using bounds_from_cut [OF True] by (auto simp: Let_def)
  next
    case False
    then have t: "take m (frame_records ser (e # es)) =
        ?v @ ser e @ take (m - length (?v @ ser e)) (frame_records ser es)" by simp
    have first: "sliced (pre @ ?v @ ser e @ rest) (length pre + length ?v, length pre + (length ?v + length (ser e))) = ser e" for rest
      by (simp add: sliced_def)
    from Cons.IH [of "off + length ?v + length (ser e)" "m - length (?v @ ser e)" "pre @ ?v @ ser e"] False
    show ?thesis unfolding t bounds_from_frame by (simp add: first Let_def add.assoc)
  qed
qed simp

lemma cut_prefix:
  "take (length (frame_records ser (take (whole_frames ser m es) es))) (take m (frame_records ser es)) =
     frame_records ser (take (whole_frames ser m es) es)"
  by (induction ser m es rule: whole_frames.induct) (auto simp: Let_def min_def)

lemma parse_frames:
  "(\<And>e. e \<in> set es \<Longrightarrow> parse (ser e) = Some e) \<Longrightarrow> parse_trace_stream parse (frame_records ser es) = Ok es"
  by (induction es) (simp_all add: parse_frame [where serialize = ser] parse_trace_stream.simps [of parse "[]"])

lemma whole_frames_all: "length (frame_records ser es) \<le> m \<Longrightarrow> whole_frames ser m es = length es"
  by (induction ser m es rule: whole_frames.induct) (auto simp: Let_def)

lemma decode_all_total: "(\<And>e. e \<in> set es \<Longrightarrow> decode (ser e) = Some e) \<Longrightarrow> decode_all decode (map ser es) = Some es"
  by (induction es) auto

lemma cut_stream:
  assumes "\<And>e. e \<in> set es \<Longrightarrow> parse (ser e) = Some e"
  shows "decode_trace_stream parse (take m (frame_trace_events ser es)) =
    (if length (frame_trace_events ser (take (whole_frames ser m es) es)) = length (take m (frame_trace_events ser es))
     then Records (take (whole_frames ser m es) es) else Truncated (take (whole_frames ser m es) es))"
proof -
  let ?k = "whole_frames ser m es"
  have "frames_end (frame_bounds (take m (frame_records ser es))) = length (frame_records ser (take ?k es))"
    using cut_bounds [of 0 m ser es "[]"] by (simp add: frames_end_from frame_bounds_def)
  moreover have "parse_trace_stream parse (frame_records ser (take ?k es)) = Ok (take ?k es)"
    by (rule parse_frames) (use assms in \<open>auto dest: in_set_takeD\<close>)
  ultimately show ?thesis
    unfolding frame_trace_records decode_trace_stream_def Let_def by (simp only: cut_prefix sum.case) auto
qed

lemma decode_whole:
  assumes "\<And>e. e \<in> set es \<Longrightarrow> parse (ser e) = Some e"
  shows "decode_trace_stream parse (frame_records ser es) = Records es"
  using cut_stream [OF assms, of es "length (frame_records ser es)"] by (simp add: frame_trace_records whole_frames_all)

text \<open>
  C22: A capture cut at any byte still decodes to its complete records, and is reported truncated exactly
  when bytes of an incomplete record remain.
\<close>

theorem cut_stream_keeps_prefix:
  assumes "\<And>e. e \<in> set es \<Longrightarrow> parse (ser e) = Some e"
  shows "decode_trace_stream parse (take m (frame_trace_events ser es)) =
    (if length (frame_trace_events ser (take (whole_frames ser m es) es)) = length (take m (frame_trace_events ser es))
     then Records (take (whole_frames ser m es) es) else Truncated (take (whole_frames ser m es) es))"
  using assms by (rule cut_stream)

definition demo_captured :: trace_event where
  "demo_captured =
     \<lparr>te_trace = [1], te_span = [2], te_parent = [], te_key = [7], te_seq = 3, te_step = 0, te_type = LlmCall,
      te_attrs = [], te_start = 5, te_end = 5\<rparr>"

theorem cut_stream_keeps_prefix_witness:
  "decode_trace_stream (\<lambda>_. Some demo_captured) (take 3 (frame_trace_events (\<lambda>_. [9]) [demo_captured, demo_captured])) =
     Truncated [demo_captured]"
proof -
  have "varint 1 = [1]" by (subst varint.simps) simp
  then have "length (frame_trace_events (\<lambda>_. [9]) [demo_captured, demo_captured]) = 4"
    "whole_frames (\<lambda>_. [9]) 3 [demo_captured, demo_captured] = 1"
    "length (frame_trace_events (\<lambda>_. [9]) [demo_captured]) = 2"
    by (simp_all add: frame_trace_events_def)
  then show ?thesis
    using cut_stream_keeps_prefix [of "[demo_captured, demo_captured]" "\<lambda>_. Some demo_captured" "\<lambda>_. [9]" 3]
    by (simp add: demo_captured_def)
qed

lemma decode_batch_cut:
  assumes "\<And>e. e \<in> set es \<Longrightarrow> decode (ser e) = Some e" "decode (take m (frame_records ser es)) = None"
    and "whole_frames ser m es \<noteq> 0"
  shows "decode_batch decode (take m (frame_records ser es)) =
    (if length (frame_records ser (take (whole_frames ser m es) es)) = length (take m (frame_records ser es))
     then Records (take (whole_frames ser m es) es) else Truncated (take (whole_frames ser m es) es))"
proof -
  let ?k = "whole_frames ser m es" and ?p = "take m (frame_records ser es)"
  have ends: "frames_end (frame_bounds ?p) = length (frame_records ser (take ?k es))"
    and slices: "map (sliced ?p) (frame_bounds ?p) = map ser (take ?k es)"
    using cut_bounds [of 0 m ser es "[]"] by (simp_all add: frames_end_from frame_bounds_def)
  have "decode_all decode (map ser (take ?k es)) = Some (take ?k es)"
    by (rule decode_all_total) (use assms(1) in \<open>auto dest: in_set_takeD\<close>)
  moreover have "?p \<noteq> []" using assms(3) by (cases es) (auto simp: Let_def split: if_splits)
  moreover have "take ?k es \<noteq> []" using assms(3) by (cases es) auto
  ultimately show ?thesis using assms(2) ends slices
    by (cases "take ?k es") (auto simp: decode_batch_def Let_def)
qed

section \<open>Table rows\<close>

lemma dict_of_distinct: "distinct (map fst kvs) \<Longrightarrow> dict_of kvs = kvs"
proof -
  have "distinct (map fst (d @ kvs)) \<Longrightarrow> fold (\<lambda>kv d. AList.update (fst kv) (snd kv) d) kvs d = d @ kvs" for d :: "('a \<times> 'b) list"
  proof (induction kvs arbitrary: d)
    case (Cons kv kvs)
    have "AList.update (fst kv) (snd kv) d = d @ [kv]"
      using Cons.prems by (induction d) (auto simp: prod_eq_iff)
    with Cons show ?case by simp
  qed simp
  from this [of "[]"] show "distinct (map fst kvs) \<Longrightarrow> dict_of kvs = kvs" by (simp add: dict_of_def)
qed

lemma distinct_sorted_attributes [simp]:
  "distinct (map fst (sorted_attributes attrs)) = distinct (map fst attrs)"
  by (simp add: sorted_attributes_def distinct_map)

lemma event_of_event_name [simp]: "event_of_name (event_name t) = Some t"
  by (rule event_type.exhaust [of t]; hypsubst; code_simp)

lemma span_name_event [simp]: "event_type_for_span_name (lower (event_name t)) = t"
  by (rule event_type.exhaust [of t]; hypsubst; code_simp)

lemma event_name_not_Nil [simp]: "event_name t \<noteq> []"
  by (cases t) (simp_all add: event_name_def)

lemma cell_hex_bytes [simp]: "cell_hex (CText (hex_bytes bs)) = Ok bs"
proof -
  have "hex_bytes bs = [] \<longleftrightarrow> bs = []" by (metis length_0_conv length_hex_bytes mult_eq_0_iff zero_neq_numeral)
  then show ?thesis by (auto simp: cell_hex_def cell_truthy_def cell_str_def)
qed

lemma cell_int_CInt [simp]: "cell_int (CInt i) = Ok i"
  by (simp add: cell_int_def cell_truthy_def)

lemma row_attributes: "mapE row_attribute (map (\<lambda>kv. (Some (CText (fst kv)), CText (snd kv))) kvs) = Ok kvs"
  by (induction kvs) (auto simp: row_attribute_def cell_str_def cell_or_empty_def cell_truthy_def)

definition proto_ranges :: "trace_event \<Rightarrow> bool" where
  "proto_ranges e \<longleftrightarrow>
     distinct (map fst (te_attrs e)) \<and> int64 (te_seq e) = Ok (te_seq e) \<and> uint32 (te_step e) = Ok (te_step e) \<and>
     int64 (te_start e) = Ok (te_start e) \<and> int64 (te_end e) = Ok (te_end e)"

text \<open>
  A table row written by the trace encoder reads back as the event it was made from, its attributes
  in key order; the derived \<open>event_time\<close> column plays no part.
\<close>

theorem row_roundtrip:
  assumes "proto_ranges e" "trace_event_to_row e = Ok row"
  shows "row_to_event (row\<lparr>tw_time := t\<rparr>) = Ok (e\<lparr>te_attrs := sorted_attributes (te_attrs e)\<rparr>)"
  using assms
  by (auto simp: trace_event_to_row_def row_to_event_def proto_ranges_def cell_truthy_def cell_str_def
      row_attributes dict_of_distinct)

text \<open>
  An OTLP span reads back as its event without the entity key, the sequence number and the step;
  only \<open>ACTIVATION_START\<close> has no span.
\<close>

theorem span_roundtrip:
  assumes "distinct (map fst (te_attrs e))" "event_to_span e = Ok r"
  shows "(r = None \<longleftrightarrow> te_type e = ActivationStart) \<and>
    (\<forall>s. r = Some s \<longrightarrow>
       span_to_event float_text s =
         e\<lparr>te_key := [], te_seq := 0, te_step := 0, te_attrs := sorted_attributes (te_attrs e)\<rparr>)"
  using assms
  by (auto simp: event_to_span_def span_to_event_def NANOS_PER_MS_def fixed64_def any_value_to_str_def
      dict_of_distinct comp_def split: if_splits)

end
