(* ===== verification/Console_Errors.thy ===== *)
theory Console_Errors
  imports Console_Paths
begin

text \<open>
  Dead letters on their way to the console: the sequence number a detail carries, the batch framing
  of the errors endpoint, and the record it misreads. The wire format of the one message involved is
  written out (\<open>protos/beam_agents.proto\<close> and the documented proto3 encoding), as an instance of the
  parsers the decoder takes; a group, which no message here uses, is not read.
\<close>

section \<open>The proto3 wire format\<close>

datatype wire_field = WVarint nat | WFixed64 bytes | WBytes bytes | WFixed32 bytes

definition take_exact :: "nat \<Rightarrow> bytes \<Rightarrow> (bytes \<times> bytes) option" where
  "take_exact n bs = (if length bs < n then None else Some (take n bs, drop n bs))"

definition wire_field_at :: "nat \<Rightarrow> bytes \<Rightarrow> (wire_field \<times> bytes) option" where
  "wire_field_at kind bs =
     (if kind = 0 then map_option (\<lambda>(n, r). (WVarint (n mod 2 ^ 64), r)) (cut_varint 0 0 bs)
      else if kind = 1 then map_option (\<lambda>(b, r). (WFixed64 b, r)) (take_exact 8 bs)
      else if kind = 2 then
        (case cut_varint 0 0 bs of
           None \<Rightarrow> None
         | Some (n, r) \<Rightarrow> map_option (\<lambda>(b, r). (WBytes b, r)) (take_exact n r))
      else if kind = 5 then map_option (\<lambda>(b, r). (WFixed32 b, r)) (take_exact 4 bs)
      else None)"

lemma cut_varint_shrinks: "cut_varint v s bs = Some (n, r) \<Longrightarrow> length r < length bs"
  by (auto simp: cut_varint_read dest: read_varint_shrinks split: sum.splits)

lemma wire_field_shrinks: "wire_field_at kind bs = Some (f, r) \<Longrightarrow> length r \<le> length bs"
  by (auto simp: wire_field_at_def take_exact_def dest!: cut_varint_shrinks split: if_splits option.splits)

function wire_fields :: "bytes \<Rightarrow> (nat \<times> wire_field) list option" where
  "wire_fields bs =
     (if bs = [] then Some []
      else
        (case cut_varint 0 0 bs of
           None \<Rightarrow> None
         | Some (tag, r) \<Rightarrow>
             (if tag div 8 = 0 then None
              else
                (case wire_field_at (tag mod 8) r of
                   None \<Rightarrow> None
                 | Some (f, rest) \<Rightarrow> map_option ((#) (tag div 8, f)) (wire_fields rest)))))"
  by pat_completeness auto
termination
  by (relation "measure length") (auto dest!: cut_varint_shrinks wire_field_shrinks)

declare wire_fields.simps [simp del]

definition signed64 :: "nat \<Rightarrow> int" where
  "signed64 n = (if n < 2 ^ 63 then int n else int n - 2 ^ 64)"

definition no_error :: activation_error_record where
  "no_error = \<lparr>er_key = [], er_reason = [], er_detail = [], er_time = 0\<rparr>"

definition utf8_fields :: "(bytes \<Rightarrow> bool) \<Rightarrow> (nat \<times> wire_field) list \<Rightarrow> bool" where
  "utf8_fields utf8_ok fs \<longleftrightarrow>
     list_all (\<lambda>f. case f of (n, WBytes b) \<Rightarrow> (n = 2 \<or> n = 3) \<longrightarrow> utf8_ok b | _ \<Rightarrow> True) fs"

definition set_error_field :: "nat \<times> wire_field \<Rightarrow> activation_error_record \<Rightarrow> activation_error_record" where
  "set_error_field f r =
     (case f of
        (n, WBytes b) \<Rightarrow>
          if n = 1 then r\<lparr>er_key := b\<rparr> else if n = 2 then r\<lparr>er_reason := of_utf8 b\<rparr>
          else if n = 3 then r\<lparr>er_detail := of_utf8 b\<rparr> else r
      | (n, WVarint v) \<Rightarrow> if n = 4 then r\<lparr>er_time := signed64 v\<rparr> else r
      | _ \<Rightarrow> r)"

definition wire_error :: "(bytes \<Rightarrow> bool) \<Rightarrow> bytes \<Rightarrow> activation_error_record option" where
  "wire_error utf8_ok bs =
     (case wire_fields bs of
        None \<Rightarrow> None
      | Some fs \<Rightarrow> if utf8_fields utf8_ok fs then Some (fold set_error_field fs no_error) else None)"

definition bytes_field :: "8 word \<Rightarrow> bytes \<Rightarrow> bytes" where
  "bytes_field tag b = (if b = [] then [] else tag # varint (length b) @ b)"

definition error_tail :: "activation_error_record \<Rightarrow> bytes" where
  "error_tail r =
     bytes_field 0x12 (utf8 (er_reason r)) @ bytes_field 0x1a (utf8 (er_detail r)) @
     (if er_time r = 0 then [] else 0x20 # varint (nat (er_time r mod 2 ^ 64)))"

definition wire_error_bytes :: "activation_error_record \<Rightarrow> bytes" where
  "wire_error_bytes r = bytes_field 0x0a (er_key r) @ error_tail r"

definition error_representable :: "(bytes \<Rightarrow> bool) \<Rightarrow> activation_error_record \<Rightarrow> bool" where
  "error_representable utf8_ok r \<longleftrightarrow>
     utf8_ok (utf8 (er_reason r)) \<and> utf8_ok (utf8 (er_detail r)) \<and> int64 (er_time r) = Ok (er_time r)"

lemma cut_varint_byte: "unat b < 128 \<Longrightarrow> cut_varint 0 0 (b # bs) = Some (unat b, bs)"
  by simp

lemma wire_fields_bytes:
  assumes "unat tag < 128" "unat tag mod 8 = 2" "8 \<le> unat tag"
  shows "wire_fields (tag # varint (length b) @ b @ rest) =
     map_option ((#) (unat tag div 8, WBytes b)) (wire_fields rest)"
proof -
  have "unat tag div 8 \<noteq> 0" using assms(3) by (simp add: div_eq_0_iff)
  then show ?thesis using assms(1,2)
    by (subst wire_fields.simps) (simp add: wire_field_at_def take_exact_def del: div_eq_0_iff)
qed

lemma wire_fields_field:
  assumes "unat tag < 128" "unat tag mod 8 = 2" "8 \<le> unat tag"
  shows "wire_fields (bytes_field tag b @ rest) =
     (if b = [] then wire_fields rest else map_option ((#) (unat tag div 8, WBytes b)) (wire_fields rest))"
  using wire_fields_bytes [OF assms] by (simp add: bytes_field_def)

lemma wire_fields_time:
  "wire_fields ((if t = 0 then [] else 0x20 # varint (nat (t mod 2 ^ 64)))) =
     Some (if t = 0 then [] else [(4, WVarint (nat (t mod 2 ^ 64)))])"
proof -
  have "nat (t mod 2 ^ 64) mod 2 ^ 64 = nat (t mod 2 ^ 64)" by (simp add: nat_mod_distrib)
  moreover have "wire_fields [] = Some []" by (subst wire_fields.simps) simp
  moreover have "cut_varint 0 0 (0x20 # varint n) = Some (32, varint n)" for n by simp
  moreover have "cut_varint 0 0 (varint n) = Some (n, [])" for n using cut_varint_append [of n "[]"] by simp
  ultimately show ?thesis by (subst wire_fields.simps) (simp add: wire_field_at_def)
qed

definition tail_fields :: "activation_error_record \<Rightarrow> (nat \<times> wire_field) list" where
  "tail_fields r =
     (if er_reason r = [] then [] else [(2, WBytes (utf8 (er_reason r)))]) @
     (if er_detail r = [] then [] else [(3, WBytes (utf8 (er_detail r)))]) @
     (if er_time r = 0 then [] else [(4, WVarint (nat (er_time r mod 2 ^ 64)))])"

lemma utf8_Nil [simp]: "utf8 s = [] \<longleftrightarrow> s = []"
  by (simp add: utf8_def)

lemma wire_fields_tail: "wire_fields (error_tail r) = Some (tail_fields r)"
  by (simp add: error_tail_def tail_fields_def wire_fields_field wire_fields_time)

lemma signed64_back: "int64 t = Ok t \<Longrightarrow> signed64 (nat (t mod 2 ^ 64)) = t"
proof -
  assume "int64 t = Ok t"
  then have t: "- (2 ^ 63) \<le> t" "t < 2 ^ 63" by (auto simp: int64_def split: if_splits)
  show ?thesis
  proof (cases "0 \<le> t")
    case True
    then have "t mod 2 ^ 64 = t" using t by (intro mod_pos_pos_trivial) auto
    with True t show ?thesis by (simp add: signed64_def nat_less_iff)
  next
    case False
    then have "(t + 2 ^ 64) mod 2 ^ 64 = t + 2 ^ 64" using t by (intro mod_pos_pos_trivial) auto
    then have "t mod 2 ^ 64 = t + 2 ^ 64" by simp
    with False t show ?thesis by (simp add: signed64_def nat_less_iff)
  qed
qed

lemma tail_record:
  assumes "error_representable utf8_ok r"
  shows "utf8_fields utf8_ok (tail_fields r)"
    and "fold set_error_field (tail_fields r) (no_error\<lparr>er_key := k\<rparr>) = r\<lparr>er_key := k\<rparr>"
  using assms signed64_back [of "er_time r"]
  by (auto simp: tail_fields_def utf8_fields_def error_representable_def set_error_field_def no_error_def)

lemma wire_error_roundtrip:
  assumes "error_representable utf8_ok r"
  shows "wire_error utf8_ok (wire_error_bytes r) = Some r"
  using tail_record [OF assms]
  by (auto simp: wire_error_def wire_error_bytes_def wire_fields_field wire_fields_tail utf8_fields_def
      set_error_field_def no_error_def fold_append)

section \<open>A lone framed record with a nine-byte key\<close>

text \<open>
  The length byte of the frame reads as a field tag, the tag of the key as the length of that field,
  and the key's own length with the nine bytes of the key as its content.
\<close>

lemma misread_fields:
  assumes "length (er_key r) = 9" "length (wire_error_bytes r) < 128" "length (wire_error_bytes r) mod 8 = 2"
    "8 \<le> length (wire_error_bytes r)"
  shows "wire_fields (frame_records wire_error_bytes [r]) =
     Some ((length (wire_error_bytes r) div 8, WBytes (9 # er_key r)) # tail_fields r)"
proof -
  let ?n = "length (wire_error_bytes r)"
  have v: "varint ?n = [word_of_nat ?n]" using assms(2) by (subst varint.simps) simp
  have u: "unat (word_of_nat ?n :: 8 word) = ?n" using assms(2) by (simp add: unat_of_nat)
  have v9: "varint 9 = [9]" "varint 10 = [10]" by (subst varint.simps, simp)+
  have "frame_records wire_error_bytes [r] = word_of_nat ?n # varint 10 @ (9 # er_key r) @ error_tail r"
    using assms(1) v v9 by (auto simp: wire_error_bytes_def bytes_field_def)
  also have "\<dots> = word_of_nat ?n # varint (length (9 # er_key r)) @ (9 # er_key r) @ error_tail r"
    using assms(1) by simp
  finally show ?thesis
    using wire_fields_bytes [of "word_of_nat ?n" "9 # er_key r" "error_tail r"] u assms by (simp add: wire_fields_tail)
qed

definition wraps_no_error :: "(bytes \<Rightarrow> envelope option) \<Rightarrow> (bytes \<Rightarrow> activation_error_record option) \<Rightarrow> bytes \<Rightarrow> bool" where
  "wraps_no_error parse_envelope parse payload \<longleftrightarrow>
     (case parse_envelope payload of
        None \<Rightarrow> True
      | Some env \<Rightarrow>
          (case env_payload env of Some (ExternalEvent x) \<Rightarrow> parse_error_record parse x = None | _ \<Rightarrow> True))"

lemma decode_one_unwrapped:
  "wraps_no_error parse_envelope parse payload \<Longrightarrow>
   decode_one_error parse_envelope parse payload = parse_error_record parse payload"
  by (auto simp: wraps_no_error_def decode_one_error_def split: option.splits payload.splits)

text \<open>
  C21: The errors endpoint loses the entity key of a lone framed dead letter whose key is nine bytes long
  and whose encoding has a length of 34, 42, 50 and so on below 128: it takes the frame for one bare
  record, although the frame decodes.
\<close>

theorem lone_error_misread:
  assumes "error_representable utf8_ok r" "er_reason r \<noteq> []" "length (er_key r) = 9"
    and "34 \<le> length (wire_error_bytes r)" "length (wire_error_bytes r) < 128" "length (wire_error_bytes r) mod 8 = 2"
    and "wraps_no_error parse_envelope (wire_error utf8_ok) (frame_records wire_error_bytes [r])"
  shows "decode_error_payload parse_envelope (wire_error utf8_ok) (frame_records wire_error_bytes [r]) =
           Records [r\<lparr>er_key := []\<rparr>] \<and>
         decode_all (parse_error_record (wire_error utf8_ok))
           (map (sliced (frame_records wire_error_bytes [r])) (frame_bounds (frame_records wire_error_bytes [r]))) = Some [r]"
proof
  have high: "4 \<le> length (wire_error_bytes r) div 8" using assms(4) by simp
  have "r\<lparr>er_key := []\<rparr> = fold set_error_field (tail_fields r) no_error"
    using tail_record(2) [OF assms(1), of "[]"] by (simp add: no_error_def)
  then have "wire_error utf8_ok (frame_records wire_error_bytes [r]) = Some (r\<lparr>er_key := []\<rparr>)"
    using misread_fields [OF assms(3,5,6)] assms(4) high tail_record(1) [OF assms(1)]
    by (auto simp: wire_error_def utf8_fields_def set_error_field_def)
  with assms(2,7) show "decode_error_payload parse_envelope (wire_error utf8_ok) (frame_records wire_error_bytes [r]) =
      Records [r\<lparr>er_key := []\<rparr>]"
    by (simp add: decode_error_payload_def decode_batch_def decode_one_unwrapped parse_error_record_def)
  have "map (sliced (frame_records wire_error_bytes [r])) (frame_bounds (frame_records wire_error_bytes [r])) = [wire_error_bytes r]"
    using cut_bounds [of 0 "length (frame_records wire_error_bytes [r])" wire_error_bytes "[r]" "[]"]
    by (simp add: frame_bounds_def)
  with assms(1,2) show "decode_all (parse_error_record (wire_error utf8_ok))
      (map (sliced (frame_records wire_error_bytes [r])) (frame_bounds (frame_records wire_error_bytes [r]))) = Some [r]"
    by (simp add: parse_error_record_def wire_error_roundtrip)
qed

definition demo_failure :: activation_error_record where
  "demo_failure = \<lparr>er_key = replicate 9 7, er_reason = ''error'', er_detail = ''provider fault'', er_time = 0\<rparr>"

theorem lone_error_misread_witness:
  "decode_error_payload (\<lambda>_. None) (wire_error (\<lambda>_. True)) (frame_records wire_error_bytes [demo_failure]) =
     Records [demo_failure\<lparr>er_key := []\<rparr>]"
proof -
  have v: "varint n = [word_of_nat n]" if "n < 128" for n using that by (subst varint.simps) simp
  have len: "length (wire_error_bytes demo_failure) = 34"
    by (simp add: wire_error_bytes_def error_tail_def bytes_field_def demo_failure_def v utf8_def)
  show ?thesis
    by (rule conjunct1 [OF lone_error_misread])
      (simp_all only: len, simp_all add: error_representable_def wraps_no_error_def demo_failure_def int64_def)
qed

section \<open>The sequence number in a detail\<close>

lemma takeWhile_digits: "(\<And>c. c \<in> set ds \<Longrightarrow> is_digit c) \<Longrightarrow> rest = [] \<or> \<not> is_digit (hd rest) \<Longrightarrow>
    takeWhile is_digit (ds @ rest) = ds"
  by (induction ds) (auto simp: takeWhile_eq_Nil_iff)

lemma takeWhile_dec_nat:
  "rest = [] \<or> \<not> is_digit (hd rest) \<Longrightarrow> takeWhile is_digit (dec_nat n @ rest) = dec_nat n"
  by (rule takeWhile_digits) (auto dest: dec_nat_digits)

lemma signed_digits_dec:
  assumes "rest = [] \<or> \<not> is_digit (hd rest)"
  shows "signed_digits (dec i @ rest) = Some (i < 0, dec_nat (nat \<bar>i\<bar>))"
proof (cases "i < 0")
  case True
  then show ?thesis
    using takeWhile_dec_nat [OF assms, of "nat (- i)"] by (simp add: signed_digits_def dec_def Let_def)
next
  case False
  moreover from this have "\<not> prefix ''-'' (dec_nat (nat i) @ rest)"
    using dec_nat_no_minus [of "nat i"] by (cases "dec_nat (nat i)") auto
  ultimately show ?thesis
    using takeWhile_dec_nat [OF assms, of "nat i"] by (simp add: signed_digits_def dec_def Let_def)
qed

lemma detail_seq:
  assumes "rest = [] \<or> \<not> is_digit (hd rest)" "reason \<in> set REASONS_WITH_SCALAR_SEQ"
    and "length (dec_nat (nat \<bar>i\<bar>)) \<le> MAX_STR_DIGITS"
  shows "seq_from_detail pf reason (''seq='' @ dec i @ rest) = Ok (Some i)"
proof -
  have "reason \<noteq> REASON_INTENT_DEAD_LETTER"
    using assms(2) by (auto simp: REASONS_WITH_SCALAR_SEQ_def REASON_TTL_WIPED_SUSPENSION_def REASON_HITL_TIMEOUT_def
        REASON_INTENT_DEAD_LETTER_def)
  moreover have "seq_in_detail True (''seq='' @ dec i @ rest) = Some (i < 0, dec_nat (nat \<bar>i\<bar>))"
    using signed_digits_dec [OF assms(1), of i] by simp
  ultimately show ?thesis using assms(2,3) by (simp add: seq_from_detail_def read_dec_nat)
qed

lemma length_dec_nat: "n < 10 ^ Suc k \<Longrightarrow> length (dec_nat n) \<le> Suc k"
proof (induction k arbitrary: n)
  case 0
  then show ?case by (simp add: dec_nat.simps)
next
  case (Suc k)
  then have "n div 10 < 10 ^ Suc k" by (simp add: less_mult_imp_div_less mult.commute)
  from Suc.IH [OF this] show ?case by (subst dec_nat.simps) simp
qed

lemma int64_digits: "int64 i = Ok i \<Longrightarrow> length (dec_nat (nat \<bar>i\<bar>)) \<le> MAX_STR_DIGITS"
proof -
  assume "int64 i = Ok i"
  then have "\<bar>i\<bar> \<le> 2 ^ 63" by (auto simp: int64_def split: if_splits)
  then have "nat \<bar>i\<bar> < 10 ^ Suc 19" by simp
  from length_dec_nat [OF this] show ?thesis by (simp add: MAX_STR_DIGITS_def)
qed

definition placed :: "(string \<Rightarrow> json) \<Rightarrow> activation_error_record \<Rightarrow> int \<Rightarrow> bool" where
  "placed pf r seq \<longleftrightarrow>
     (\<exists>row. failure_row_of pf PROVENANCE_NATIVE r = Ok row \<and> fr_key row = hex_bytes (er_key r) \<and> fr_seq row = Some seq)"

lemma placedI: "seq_from_detail pf (er_reason r) (er_detail r) = Ok (Some i) \<Longrightarrow> placed pf r i"
  by (simp add: placed_def failure_row_of_def)

text \<open>
  The console files the dead letters that name their activation under it: a suspension wiped by the
  TTL, a dropped HITL timeout and an intent the outbox could not serialise carry their sequence
  number in the detail in the shapes the normaliser reads.
\<close>

theorem dead_letters_placed:
  assumes "int64 (co_seq c) = Ok (co_seq c)" "int64 (ti_seq i) = Ok (ti_seq i)"
    and "plain_text reason" "plain_text (ti_id i)" "plain_text (ti_tool i)"
  shows "(ErrorOut r \<in> set (wiped_suspension d key t (Some c)) \<longrightarrow> placed pf r (co_seq c)) \<and>
    (route_timeout d key c t = (Drop REASON_HITL_TIMEOUT, detail) \<longrightarrow>
       placed pf \<lparr>er_key = key, er_reason = REASON_HITL_TIMEOUT, er_detail = detail, er_time = t\<rparr> (co_seq c)) \<and>
    placed pf (intent_dead_letter_to_error key i reason) (ti_seq i)"
proof (intro conjI impI)
  have ttl: "REASON_TTL_WIPED_SUSPENSION \<in> set REASONS_WITH_SCALAR_SEQ" and hitl: "REASON_HITL_TIMEOUT \<in> set REASONS_WITH_SCALAR_SEQ"
    by (simp_all add: REASONS_WITH_SCALAR_SEQ_def)
  note detail = detail_seq [OF _ _ int64_digits [OF assms(1)]]
  show "placed pf r (co_seq c)" if "ErrorOut r \<in> set (wiped_suspension d key t (Some c))"
    using that detail [of "'',deadline_ms='' @ dec (co_deadline c)", OF _ ttl]
    by (auto intro!: placedI simp: wiped_suspension_def dead_letter_def error_trace_def is_digit_def Let_def)
  show "placed pf \<lparr>er_key = key, er_reason = REASON_HITL_TIMEOUT, er_detail = detail, er_time = t\<rparr> (co_seq c)"
    if "route_timeout d key c t = (Drop REASON_HITL_TIMEOUT, detail)"
  proof -
    have "detail = ''seq='' @ dec (co_seq c) \<or> (\<exists>x. detail = ''seq='' @ dec (co_seq c) @ CHR '' '' # x)"
      using that by (auto simp: route_timeout_def Let_def split: sum.splits route.splits if_splits)
    then show ?thesis
      using detail [of "[]", OF _ hitl] detail [of "CHR '' '' # x" for x, OF _ hitl]
      by (auto intro!: placedI simp: is_digit_def)
  qed
  have "seq_from_detail pf REASON_INTENT_DEAD_LETTER (er_detail (intent_dead_letter_to_error key i reason)) = Ok (Some (ti_seq i))"
    using dead_letter_detail_readable [OF assms(3-5) int64_digits [OF assms(2)], of pf key] by (simp add: seq_from_detail_def)
  then show "placed pf (intent_dead_letter_to_error key i reason) (ti_seq i)"
    by (intro placedI) (simp add: intent_dead_letter_to_error_def)
qed

end
