(* ===== verification/Console_Tables.thy ===== *)
theory Console_Tables
  imports Console_Errors "HOL-Library.Product_Lexorder"
begin

text \<open>
  The console store's record tables (\<open>console/_schema.py\<close>, the record half of \<open>console/_store.py\<close>). A
  table is the list of its rows in primary-key order; an upsert inserts a row or merges it into the
  stored one and says how many rows it changed. Every column is merged by one of four rules; all but
  the first keep the last value that is not the column's unknown.
\<close>

section \<open>Tables\<close>

type_synonym ('k, 'v) table = "('k \<times> 'v) list"

abbreviation table_ok :: "('k::linorder, 'v) table \<Rightarrow> bool" where
  "table_ok t \<equiv> sorted_wrt (<) (map fst t)"

fun put_entry :: "'k::linorder \<Rightarrow> 'v \<Rightarrow> ('k, 'v) table \<Rightarrow> ('k, 'v) table" where
  "put_entry k v [] = [(k, v)]"
| "put_entry k v ((k', v') # t) =
     (if k < k' then (k, v) # (k', v') # t
      else if k = k' then (k, v) # t
      else (k', v') # put_entry k v t)"

definition upsert :: "('v \<Rightarrow> 'v \<Rightarrow> 'v) \<Rightarrow> 'k::linorder \<Rightarrow> 'v \<Rightarrow> ('k, 'v) table \<Rightarrow> ('k, 'v) table \<times> int" where
  "upsert merge k v t =
     (case map_of t k of
        None \<Rightarrow> (put_entry k v t, 1)
      | Some old \<Rightarrow> if merge old v = old then (t, 0) else (put_entry k (merge old v) t, 1))"

definition delete_where :: "('k \<times> 'v \<Rightarrow> bool) \<Rightarrow> ('k, 'v) table \<Rightarrow> ('k, 'v) table \<times> int" where
  "delete_where P t = (filter (\<lambda>r. \<not> P r) t, int (length (filter P t)))"

lemma map_of_put [simp]: "map_of (put_entry k v t) = (map_of t)(k \<mapsto> v)"
  by (induction k v t rule: put_entry.induct) auto

lemma keys_put: "set (map fst (put_entry k v t)) = insert k (set (map fst t))"
  by (induction k v t rule: put_entry.induct) auto

lemma put_ok: "table_ok t \<Longrightarrow> table_ok (put_entry k v t)"
proof (induction k v t rule: put_entry.induct)
  case (2 k v k' v' t)
  then show ?case using keys_put [of k v t] by (auto simp: order.strict_trans)
qed simp

lemma filter_ok: "table_ok t \<Longrightarrow> table_ok (filter P t)"
  by (induction t) auto

lemma table_distinct: "table_ok t \<Longrightarrow> distinct (map fst t)"
  by (induction t) auto

lemma table_lookup: "\<lbrakk>table_ok t; e \<in> set t\<rbrakk> \<Longrightarrow> map_of t (fst e) = Some (snd e)"
  using table_distinct [of t] by (metis map_of_is_SomeI prod.collapse)

lemma map_of_filter_ok:
  "table_ok t \<Longrightarrow> map_of (filter P t) k = (case map_of t k of None \<Rightarrow> None | Some v \<Rightarrow> if P (k, v) then Some v else None)"
proof (induction t)
  case (Cons r t)
  have "map_of t (fst r) = None" using table_distinct [OF Cons.prems] by (simp add: map_of_eq_None_iff)
  with Cons show ?case by (cases r) auto
qed simp

lemma table_eqI: "\<lbrakk>table_ok t; table_ok u; map_of t = map_of u\<rbrakk> \<Longrightarrow> t = u"
proof -
  assume ok: "table_ok t" "table_ok u" and eq: "map_of t = map_of u"
  have "set t = set u"
    using eq table_distinct [OF ok(1)] table_distinct [OF ok(2)] by (metis map_of_eq_Some_iff subset_antisym subrelI)
  moreover have "sorted_wrt (\<lambda>a b. fst a < fst b) t" "sorted_wrt (\<lambda>a b. fst a < fst b) u"
    using ok by (simp_all add: sorted_wrt_map)
  ultimately show ?thesis
  proof (induction t arbitrary: u)
    case (Cons a t)
    then obtain b u' where u: "u = b # u'" by (cases u) auto
    have "a = b" using Cons.prems u by (metis insert_iff list.simps(15) order_less_asym' sorted_wrt.simps(2))
    moreover have "a \<notin> set t" "b \<notin> set u'" using Cons.prems u by auto
    ultimately have "set t = set u'" using Cons.prems u by (metis insert_ident list.simps(15))
    then show ?case using Cons u \<open>a = b\<close> by auto
  qed simp
qed

lemma put_same: "\<lbrakk>table_ok t; map_of t k = Some v\<rbrakk> \<Longrightarrow> put_entry k v t = t"
  by (rule table_eqI) (auto simp: put_ok fun_upd_idem)

lemma upsert_ok: "table_ok t \<Longrightarrow> table_ok (fst (upsert merge k v t))"
  by (auto simp: upsert_def put_ok split: option.splits)

lemma upsert_map:
  "map_of (fst (upsert merge k v t)) =
     (map_of t)(k \<mapsto> (case map_of t k of None \<Rightarrow> v | Some old \<Rightarrow> merge old v))"
  by (auto simp: upsert_def fun_upd_idem_iff split: option.splits)

lemma upsert_count: "snd (upsert merge k v t) = 0 \<longleftrightarrow> (\<exists>old. map_of t k = Some old \<and> merge old v = old)"
  by (auto simp: upsert_def split: option.splits)

lemma upsert_nonneg: "0 \<le> snd (upsert merge k v t)"
  by (auto simp: upsert_def split: option.splits)

lemma delete_facts [simp]:
  "fst (delete_where P t) = filter (\<lambda>r. \<not> P r) t" "snd (delete_where P t) = int (length (filter P t))"
  by (simp_all add: delete_where_def)

section \<open>Merge rules\<close>

text \<open>\<open>_keep_if_empty\<close>, \<open>_keep_if_zero\<close> and \<open>_keep_lossless\<close>: an incoming unknown keeps the stored value.\<close>

definition keep_unknown :: "'a \<Rightarrow> 'a \<Rightarrow> 'a \<Rightarrow> 'a" where
  "keep_unknown unknown old new = (if new \<noteq> unknown then new else old)"

definition keep_if_empty :: "string \<Rightarrow> string \<Rightarrow> string" where
  "keep_if_empty old new = (if new \<noteq> [] then new else old)"

definition keep_if_zero :: "int \<Rightarrow> int \<Rightarrow> int" where
  "keep_if_zero old new = (if new \<noteq> 0 then new else old)"

definition keep_lossless :: "string \<Rightarrow> string \<Rightarrow> string" where
  "keep_lossless old new = (if new = PROVENANCE_OTLP \<and> old \<noteq> PROVENANCE_OTLP then old else new)"

lemma keep_as_unknown:
  "keep_if_empty = keep_unknown []" "keep_if_zero = keep_unknown 0" "keep_lossless = keep_unknown PROVENANCE_OTLP"
  by (auto simp: fun_eq_iff keep_if_empty_def keep_if_zero_def keep_lossless_def keep_unknown_def)

lemma keep_simps [simp]:
  "keep_unknown u x x = x" "keep_unknown u (keep_unknown u x y) y = keep_unknown u x y"
  by (auto simp: keep_unknown_def)

section \<open>Records\<close>

type_synonym event_id = "string \<times> string \<times> string"

record stored_event =
  se_parent :: string
  se_key :: string
  se_seq :: int
  se_step :: int
  se_start :: msec
  se_end :: msec
  se_prov :: string

record stored_error =
  sr_key :: string
  sr_seq :: "int option"
  sr_reason :: string
  sr_detail :: string
  sr_time :: msec
  sr_prov :: string

type_synonym snapshot_id = "string \<times> int \<times> string \<times> msec"

record stored_snapshot =
  ss_version :: int
  ss_memory_entries :: int
  ss_memory_bytes :: int
  ss_cache_entries :: int
  ss_pending :: string
  ss_step :: "int option"
  ss_deadline :: "msec option"
  ss_adapter :: string
  ss_raw :: bytes
  ss_prov :: string

definition merge_event :: "stored_event \<Rightarrow> stored_event \<Rightarrow> stored_event" where
  "merge_event old new =
     \<lparr>se_parent = keep_if_empty (se_parent old) (se_parent new), se_key = keep_if_empty (se_key old) (se_key new),
      se_seq = se_seq new, se_step = se_step new,
      se_start = keep_if_zero (se_start old) (se_start new), se_end = keep_if_zero (se_end old) (se_end new),
      se_prov = keep_lossless (se_prov old) (se_prov new)\<rparr>"

definition merge_attribute :: "string \<Rightarrow> string \<Rightarrow> string" where
  "merge_attribute old new = new"

definition merge_error :: "stored_error \<Rightarrow> stored_error \<Rightarrow> stored_error" where
  "merge_error old new = old\<lparr>sr_prov := keep_lossless (sr_prov old) (sr_prov new)\<rparr>"

definition merge_snapshot :: "stored_snapshot \<Rightarrow> stored_snapshot \<Rightarrow> stored_snapshot" where
  "merge_snapshot old new =
     new\<lparr>ss_raw := (if ss_raw new \<noteq> [] then ss_raw new else ss_raw old),
         ss_prov := keep_lossless (ss_prov old) (ss_prov new)\<rparr>"

definition event_id_of :: "event_row \<Rightarrow> event_id" where
  "event_id_of e = (vr_trace e, vr_span e, vr_type e)"

definition stored_of :: "event_row \<Rightarrow> stored_event" where
  "stored_of e =
     \<lparr>se_parent = vr_parent e, se_key = vr_key e, se_seq = vr_seq e, se_step = vr_step e,
      se_start = vr_start e, se_end = vr_end e, se_prov = vr_prov e\<rparr>"

text \<open>\<open>_error_id\<close>: the digest of the payload fields joined by NUL.\<close>

definition error_material :: "failure_row \<Rightarrow> string" where
  "error_material e =
     intercalate [CHR 0x00]
       [fr_key e, (case fr_seq e of None \<Rightarrow> [] | Some s \<Rightarrow> dec s), fr_reason e, dec (fr_time e), fr_detail e]"

definition error_id :: "(string \<Rightarrow> string) \<Rightarrow> failure_row \<Rightarrow> string" where
  "error_id sha256_hex e = sha256_hex (error_material e)"

definition stored_error_of :: "failure_row \<Rightarrow> stored_error" where
  "stored_error_of e =
     \<lparr>sr_key = fr_key e, sr_seq = fr_seq e, sr_reason = fr_reason e, sr_detail = fr_detail e, sr_time = fr_time e,
      sr_prov = fr_prov e\<rparr>"

text \<open>\<open>json.dumps\<close> of a list of strings.\<close>

definition json_strings :: "string list \<Rightarrow> string" where
  "json_strings xs = ''['' @ intercalate '', '' (map quote_ascii xs) @ '']''"

definition snapshot_id_of :: "snapshot_row \<Rightarrow> snapshot_id" where
  "snapshot_id_of s = (nr_key s, nr_seq s, nr_request s, nr_at s)"

definition stored_snapshot_of :: "snapshot_row \<Rightarrow> stored_snapshot" where
  "stored_snapshot_of s =
     \<lparr>ss_version = nr_version s, ss_memory_entries = nr_memory_entries s, ss_memory_bytes = nr_memory_bytes s,
      ss_cache_entries = nr_cache_entries s, ss_pending = json_strings (nr_pending s), ss_step = nr_step s,
      ss_deadline = nr_deadline s, ss_adapter = nr_adapter s, ss_raw = nr_raw s, ss_prov = nr_prov s\<rparr>"

end
