(* ===== verification/Console_Rollup.thy ===== *)
theory Console_Rollup
  imports Console_Tables
begin

text \<open>
  The derived half of the console store (\<open>console/_store.py\<close>): an activation's summary, and the trace,
  span and entity aggregates, as functions of the records. Where SQL leaves an order open (two
  events of one activation with the same time, span and type) the order of the table stands in.
\<close>

section \<open>Activations\<close>

record act_event =
  ae_trace :: string
  ae_span :: string
  ae_type :: string
  ae_start :: msec
  ae_prov :: string
  ae_attrs :: "(string, string) dict"

record act_error =
  xe_reason :: string
  xe_time :: msec
  xe_prov :: string

record rollup =
  ru_trace :: string
  ru_status :: string
  ru_kind :: string
  ru_attempts :: int
  ru_started :: msec
  ru_ended :: "msec option"
  ru_wall :: "msec option"
  ru_model :: "string option"
  ru_llm_calls :: int
  ru_tool_calls :: int
  ru_intents :: int
  ru_errors :: int
  ru_prompt :: "int option"
  ru_completion :: "int option"
  ru_total :: "int option"
  ru_cache_hits :: int
  ru_tools :: "string list"
  ru_reasons :: "string list"
  ru_provs :: "string list"
  ru_complete :: bool

definition STATUS_IN_FLIGHT :: string where "STATUS_IN_FLIGHT = ''in_flight''"
definition STATUS_ERROR :: string where "STATUS_ERROR = ''error''"
definition DECLARED_STATUSES :: "string list" where "DECLARED_STATUSES = [''completed'', ''suspended'']"
definition KINDS :: "string list" where "KINDS = [''start'', ''resume'']"
definition KIND_UNKNOWN :: string where "KIND_UNKNOWN = ''unknown''"

definition derived_trace_id :: "(string \<Rightarrow> bytes) \<Rightarrow> string \<Rightarrow> int \<Rightarrow> string" where
  "derived_trace_id uuid5 entity_key seq =
     (case from_hex entity_key of None \<Rightarrow> [] | Some k \<Rightarrow> hex_bytes (trace_id_for uuid5 k seq))"

definition int_attribute :: "(string, string) dict \<Rightarrow> string \<Rightarrow> int option" where
  "int_attribute attrs key =
     (case map_of attrs key of
        None \<Rightarrow> None
      | Some raw \<Rightarrow> (case int_of_text raw of Inl e \<Rightarrow> None | Inr i \<Rightarrow> Some i))"

definition sum_attribute :: "act_event list \<Rightarrow> string \<Rightarrow> int option" where
  "sum_attribute events key =
     (let vs = List.map_filter (\<lambda>e. int_attribute (ae_attrs e) key) events in
      if vs = [] then None else Some (sum_list vs))"

definition event_order :: "act_event \<Rightarrow> int \<times> string \<times> string" where
  "event_order e = (ae_start e, ae_span e, ae_type e)"

text \<open>\<open>max(events, key=...)\<close>: the first of the greatest.\<close>

fun latest_event :: "act_event list \<Rightarrow> act_event option" where
  "latest_event [] = None"
| "latest_event (e # es) =
     (case latest_event es of
        None \<Rightarrow> Some e
      | Some m \<Rightarrow> if event_order e < event_order m then Some m else Some e)"

definition attribute_or :: "string \<Rightarrow> act_event \<Rightarrow> string \<Rightarrow> string" where
  "attribute_or key e fallback = (case map_of (ae_attrs e) key of None \<Rightarrow> fallback | Some v \<Rightarrow> v)"

definition wall_ms :: "act_event list \<Rightarrow> msec option \<Rightarrow> msec option" where
  "wall_ms starts ended =
     (case ended of
        None \<Rightarrow> None
      | Some t \<Rightarrow>
          if starts = [] then None
          else (let elapsed = t - Min (set (map ae_start starts)) in if 0 < elapsed then Some elapsed else None))"

definition of_type :: "event_type \<Rightarrow> act_event list \<Rightarrow> act_event list" where
  "of_type t events = filter (\<lambda>e. ae_type e = event_name t) events"

definition sorted_set :: "string list \<Rightarrow> string list" where
  "sorted_set xs = sort (remdups xs)"

definition status_and_end :: "act_event list \<Rightarrow> act_error list \<Rightarrow> string \<times> msec option" where
  "status_and_end events errors =
     (let starts = of_type ActivationStart events;
          ends = of_type ActivationEnd events;
          open_attempts = set (map ae_span starts) - set (map ae_span ends);
          terminal = map ae_start (of_type ErrorEvent events) @ map xe_time errors in
      if terminal \<noteq> [] then (STATUS_ERROR, Some (Max (set terminal)))
      else
        (case latest_event ends of
           None \<Rightarrow> (STATUS_IN_FLIGHT, None)
         | Some e \<Rightarrow>
             if open_attempts \<noteq> {} then (STATUS_IN_FLIGHT, None)
             else
               (let declared = attribute_or ACTIVATION_STATUS e [] in
                if declared \<in> set DECLARED_STATUSES then (declared, Some (ae_start e))
                else (STATUS_IN_FLIGHT, None))))"

definition rollup_kind :: "act_event list \<Rightarrow> string" where
  "rollup_kind events =
     (let starts = of_type ActivationStart events;
          source = (if starts \<noteq> [] then starts else of_type ActivationEnd events);
          kind = (case latest_event source of None \<Rightarrow> [] | Some e \<Rightarrow> attribute_or ACTIVATION_KIND e []) in
      if kind \<in> set KINDS then kind else KIND_UNKNOWN)"

definition total_of :: "int option \<Rightarrow> int option \<Rightarrow> int option" where
  "total_of p c =
     (if p = None \<and> c = None then None
      else Some ((case p of None \<Rightarrow> 0 | Some x \<Rightarrow> x) + (case c of None \<Rightarrow> 0 | Some x \<Rightarrow> x)))"

definition summarize ::
  "(string \<Rightarrow> bytes) \<Rightarrow> string \<Rightarrow> int \<Rightarrow> act_event list \<Rightarrow> act_error list \<Rightarrow> rollup option" where
  "summarize uuid5 entity_key seq events errors =
     (if events = [] \<and> errors = [] then None
      else
        (let starts = of_type ActivationStart events;
             ends = of_type ActivationEnd events;
             error_events = of_type ErrorEvent events;
             llm_calls = of_type LlmCall events;
             tool_calls = of_type ToolCall events;
             intents = of_type IntentEmitted events;
             (status, ended) = status_and_end events errors;
             models = filter (\<lambda>e. attribute_or REQUEST_MODEL e [] \<noteq> []) llm_calls;
             prompt = sum_attribute llm_calls USAGE_INPUT_TOKENS;
             completion = sum_attribute llm_calls USAGE_OUTPUT_TOKENS;
             provs = map ae_prov events @ map xe_prov errors in
         Some \<lparr>ru_trace = (case events of [] \<Rightarrow> derived_trace_id uuid5 entity_key seq | e # _ \<Rightarrow> ae_trace e),
               ru_status = status, ru_kind = rollup_kind events,
               ru_attempts = max (int (card (set (map ae_span starts) \<union> set (map ae_span ends)))) 1,
               ru_started = Min (set (map ae_start events @ map xe_time errors)),
               ru_ended = ended, ru_wall = wall_ms starts ended,
               ru_model = (case latest_event models of None \<Rightarrow> None | Some e \<Rightarrow> Some (attribute_or REQUEST_MODEL e [])),
               ru_llm_calls = int (length llm_calls), ru_tool_calls = int (length tool_calls),
               ru_intents = int (length intents),
               ru_errors = int (max (length error_events) (length errors)),
               ru_prompt = prompt, ru_completion = completion, ru_total = total_of prompt completion,
               ru_cache_hits = int (length (filter (\<lambda>e. attribute_or CACHE_HIT e [] = ''true'') llm_calls)),
               ru_tools = sorted_set (filter (\<lambda>x. x \<noteq> []) (map (\<lambda>e. attribute_or TOOL_NAME e []) (tool_calls @ intents))),
               ru_reasons = sorted_set (filter (\<lambda>x. x \<noteq> [])
                 (map (\<lambda>e. attribute_or REASON e []) error_events @ map xe_reason errors)),
               ru_provs = sorted_set provs,
               ru_complete = (starts \<noteq> [] \<or> PROVENANCE_OTLP \<notin> set provs)\<rparr>))"

section \<open>Reading the records\<close>

record record_tables =
  rt_events :: "(event_id, stored_event) table"
  rt_attrs :: "(event_id \<times> string, string) table"
  rt_errors :: "(string, stored_error) table"
  rt_snapshots :: "(snapshot_id, stored_snapshot) table"

definition attributes_of :: "record_tables \<Rightarrow> event_id \<Rightarrow> (string, string) dict" where
  "attributes_of rt eid = map (\<lambda>r. (snd (fst r), snd r)) (filter (\<lambda>r. fst (fst r) = eid) (rt_attrs rt))"

definition read_events :: "record_tables \<Rightarrow> string \<Rightarrow> int \<Rightarrow> act_event list" where
  "read_events rt entity_key seq =
     sort_key event_order
       (map (\<lambda>(eid, e). \<lparr>ae_trace = fst eid, ae_span = fst (snd eid), ae_type = snd (snd eid), ae_start = se_start e,
                        ae_prov = se_prov e, ae_attrs = attributes_of rt eid\<rparr>)
         (filter (\<lambda>r. se_key (snd r) = entity_key \<and> se_seq (snd r) = seq) (rt_events rt)))"

definition read_errors :: "record_tables \<Rightarrow> string \<Rightarrow> int \<Rightarrow> act_error list" where
  "read_errors rt entity_key seq =
     map (\<lambda>r. \<lparr>xe_reason = sr_reason (snd r), xe_time = sr_time (snd r), xe_prov = sr_prov (snd r)\<rparr>)
       (filter (\<lambda>r. sr_key (snd r) = entity_key \<and> sr_seq (snd r) = Some seq) (rt_errors rt))"

definition rollup_of :: "(string \<Rightarrow> bytes) \<Rightarrow> record_tables \<Rightarrow> string \<times> int \<Rightarrow> rollup option" where
  "rollup_of uuid5 rt a = summarize uuid5 (fst a) (snd a) (read_events rt (fst a) (snd a)) (read_errors rt (fst a) (snd a))"

section \<open>Traces and spans\<close>

record trace_summary =
  ty_key :: string
  ty_seq :: int
  ty_started :: msec
  ty_last :: msec
  ty_events :: int
  ty_spans :: int

record span_summary =
  py_parent :: string
  py_key :: string
  py_seq :: int
  py_role :: string
  py_step :: int
  py_first :: msec
  py_last :: msec
  py_events :: int

definition trace_rows :: "record_tables \<Rightarrow> string \<Rightarrow> (event_id \<times> stored_event) list" where
  "trace_rows rt trace_id = filter (\<lambda>r. fst (fst r) = trace_id) (rt_events rt)"

definition trace_summary_of :: "record_tables \<Rightarrow> string \<Rightarrow> trace_summary option" where
  "trace_summary_of rt trace_id =
     (let rows = trace_rows rt trace_id; es = map snd rows in
      if rows = [] then None
      else Some \<lparr>ty_key = Max (set (map se_key es)), ty_seq = Max (set (map se_seq es)),
                 ty_started = Min (set (map se_start es)), ty_last = Max (set (map se_start es)),
                 ty_events = int (length rows), ty_spans = int (card (set (map (fst \<circ> snd \<circ> fst) rows)))\<rparr>)"

definition span_summary_of :: "record_tables \<Rightarrow> string \<times> string \<Rightarrow> span_summary option" where
  "span_summary_of rt ts =
     (let rows = filter (\<lambda>r. fst (snd (fst r)) = snd ts) (trace_rows rt (fst ts));
          es = map snd rows; types = map (snd \<circ> snd \<circ> fst) rows in
      if rows = [] then None
      else Some \<lparr>py_parent = Max (set (map se_parent es)), py_key = Max (set (map se_key es)),
                 py_seq = Max (set (map se_seq es)),
                 py_role = (if event_name ActivationStart \<in> set types \<or> event_name ActivationEnd \<in> set types
                            then ROLE_ACTIVATION else Min (set types)),
                 py_step = Min (set (map se_step es)), py_first = Min (set (map se_start es)),
                 py_last = Max (set (map se_end es)), py_events = int (length rows)\<rparr>)"

definition span_ids_of :: "record_tables \<Rightarrow> string \<Rightarrow> string list" where
  "span_ids_of rt trace_id = remdups (map (fst \<circ> snd \<circ> fst) (trace_rows rt trace_id))"

section \<open>Entities\<close>

record entity_summary =
  yy_first :: msec
  yy_last :: msec
  yy_activations :: int
  yy_errors :: int
  yy_total :: "int option"
  yy_latest_seq :: "int option"
  yy_latest_status :: "string option"

text \<open>The entity's row from its activation rows (in table order, so the last has the greatest
  sequence number) and its error records.\<close>

definition entity_summary_of :: "((string \<times> int) \<times> rollup) list \<Rightarrow> stored_error list \<Rightarrow> entity_summary option" where
  "entity_summary_of acts errors =
     (let ros = map snd acts;
          lasts = map (\<lambda>r. case ru_ended r of None \<Rightarrow> ru_started r | Some t \<Rightarrow> t) ros;
          totals = List.map_filter ru_total ros in
      if acts = [] \<and> errors = [] then None
      else Some \<lparr>yy_first = Min (set (map ru_started ros @ map sr_time errors)),
                 yy_last = Max (set (lasts @ map sr_time errors)),
                 yy_activations = int (length acts),
                 yy_errors = sum_list (map ru_errors ros) + int (length (filter (\<lambda>e. sr_seq e = None) errors)),
                 yy_total = (if totals = [] then None else Some (sum_list totals)),
                 yy_latest_seq = (if acts = [] then None else Some (snd (fst (last acts)))),
                 yy_latest_status = (if acts = [] then None else Some (ru_status (snd (last acts))))\<rparr>)"

definition entity_errors :: "record_tables \<Rightarrow> string \<Rightarrow> stored_error list" where
  "entity_errors rt entity_key = filter (\<lambda>e. sr_key e = entity_key) (map snd (rt_errors rt))"

end
