(* ===== verification/Console_Store.thy ===== *)
theory Console_Store
  imports Console_Rollup
begin

text \<open>
  \<open>ConsoleStore.write\<close> and \<open>prune\<close> (\<open>console/_store.py\<close>): the records of a batch are merged in, then
  every derived row they feed is rebuilt, in one transaction. A number SQLite cannot hold is an
  \<open>OverflowError\<close>, and the transaction is rolled back. \<open>cs_changes\<close> is SQLite's count of changed rows.
  A Python set is walked in key order.
\<close>

section \<open>The store\<close>

record derived_tables =
  dt_activations :: "(string \<times> int, rollup) table"
  dt_tools :: "((string \<times> int) \<times> string, unit) table"
  dt_reasons :: "((string \<times> int) \<times> string, unit) table"
  dt_traces :: "(string, trace_summary) table"
  dt_spans :: "(string \<times> string, span_summary) table"
  dt_entities :: "(string, entity_summary) table"

record console_store =
  cs_records :: record_tables
  cs_derived :: derived_tables
  cs_changes :: int
  cs_closed :: bool

definition empty_store :: console_store where
  "empty_store =
     \<lparr>cs_records = \<lparr>rt_events = [], rt_attrs = [], rt_errors = [], rt_snapshots = []\<rparr>,
      cs_derived = \<lparr>dt_activations = [], dt_tools = [], dt_reasons = [], dt_traces = [], dt_spans = [], dt_entities = []\<rparr>,
      cs_changes = 0, cs_closed = False\<rparr>"

section \<open>Record writes\<close>

definition write_attribute :: "event_id \<Rightarrow> string \<times> string \<Rightarrow> record_tables \<times> int \<Rightarrow> record_tables \<times> int" where
  "write_attribute eid kv s =
     (let (t, n) = upsert merge_attribute (eid, fst kv) (snd kv) (rt_attrs (fst s)) in
      ((fst s)\<lparr>rt_attrs := t\<rparr>, snd s + n))"

definition write_event :: "event_row \<Rightarrow> record_tables \<times> int \<Rightarrow> record_tables \<times> int" where
  "write_event e s =
     (let (t, n) = upsert merge_event (event_id_of e) (stored_of e) (rt_events (fst s)) in
      fold (write_attribute (event_id_of e)) (vr_attrs e) ((fst s)\<lparr>rt_events := t\<rparr>, snd s + n))"

definition write_error :: "(string \<Rightarrow> string) \<Rightarrow> failure_row \<Rightarrow> record_tables \<times> int \<Rightarrow> record_tables \<times> int" where
  "write_error sha256_hex e s =
     (let (t, n) = upsert merge_error (error_id sha256_hex e) (stored_error_of e) (rt_errors (fst s)) in
      ((fst s)\<lparr>rt_errors := t\<rparr>, snd s + n))"

definition write_snapshot :: "snapshot_row \<Rightarrow> record_tables \<times> int \<Rightarrow> record_tables \<times> int" where
  "write_snapshot sn s =
     (let (t, n) = upsert merge_snapshot (snapshot_id_of sn) (stored_snapshot_of sn) (rt_snapshots (fst s)) in
      ((fst s)\<lparr>rt_snapshots := t\<rparr>, snd s + n))"

definition write_records :: "(string \<Rightarrow> string) \<Rightarrow> record_batch \<Rightarrow> record_tables \<times> int \<Rightarrow> record_tables \<times> int" where
  "write_records sha256_hex b s =
     fold write_snapshot (rb_snapshots b)
       (fold (write_error sha256_hex) (rb_errors b) (fold write_event (rb_events b) s))"

definition touched_activations :: "record_batch \<Rightarrow> (string \<times> int) list" where
  "touched_activations b =
     sort (remdups (map (\<lambda>e. (vr_key e, vr_seq e)) (rb_events b) @
                    List.map_filter (\<lambda>e. map_option (Pair (fr_key e)) (fr_seq e)) (rb_errors b)))"

definition touched_traces :: "record_batch \<Rightarrow> string list" where
  "touched_traces b = sort (remdups (map vr_trace (rb_events b)))"

definition touched_entities :: "record_batch \<Rightarrow> string list" where
  "touched_entities b = sort (remdups (map fst (touched_activations b) @ map fr_key (rb_errors b)))"

section \<open>Rebuilding the derived rows\<close>

definition replace_with :: "'v \<Rightarrow> 'v \<Rightarrow> 'v" where
  "replace_with old new = new"

text \<open>A rebuilt table with its changed and its removed rows; the tables with both counts so far.\<close>

type_synonym tally = "derived_tables \<times> int \<times> int"

definition set_row :: "'k::linorder \<Rightarrow> 'v option \<Rightarrow> ('k, 'v) table \<Rightarrow> ('k, 'v) table \<times> int \<times> int" where
  "set_row k row t =
     (case row of
        None \<Rightarrow> (let (t', n) = delete_where (\<lambda>r. fst r = k) t in (t', n, n))
      | Some v \<Rightarrow> (let (t', n) = upsert replace_with k v t in (t', n, 0)))"

definition storable :: "int option \<Rightarrow> bool" where
  "storable n \<longleftrightarrow> (case n of None \<Rightarrow> True | Some i \<Rightarrow> int64 i = Ok i)"

text \<open>\<open>_sync_facet\<close>: insert the missing values, then delete the others.\<close>

definition add_facet :: "string \<times> int \<Rightarrow> string \<Rightarrow> ((string \<times> int) \<times> string, unit) table \<times> int \<Rightarrow>
    ((string \<times> int) \<times> string, unit) table \<times> int" where
  "add_facet a x s =
     (case map_of (fst s) (a, x) of
        None \<Rightarrow> (put_entry (a, x) () (fst s), snd s + 1)
      | Some _ \<Rightarrow> s)"

definition sync_facet :: "string \<times> int \<Rightarrow> string list \<Rightarrow> ((string \<times> int) \<times> string, unit) table \<Rightarrow>
    ((string \<times> int) \<times> string, unit) table \<times> int \<times> int" where
  "sync_facet a xs t =
     (let (t1, n1) = fold (add_facet a) xs (t, 0);
          (t2, n2) = delete_where (\<lambda>r. fst (fst r) = a \<and> snd (fst r) \<notin> set xs) t1 in
      (t2, n1 + n2, n2))"

definition rollup_storable :: "rollup option \<Rightarrow> bool" where
  "rollup_storable ro =
     (case ro of None \<Rightarrow> True | Some r \<Rightarrow> storable (ru_prompt r) \<and> storable (ru_completion r) \<and> storable (ru_total r))"

definition facet_values :: "(rollup \<Rightarrow> string list) \<Rightarrow> rollup option \<Rightarrow> string list" where
  "facet_values f ro = (case ro of None \<Rightarrow> [] | Some r \<Rightarrow> f r)"

definition recompute_activation :: "(string \<Rightarrow> bytes) \<Rightarrow> record_tables \<Rightarrow> string \<times> int \<Rightarrow> tally \<Rightarrow> tally res" where
  "recompute_activation uuid5 rt a s =
     (let ro = rollup_of uuid5 rt a; (d, c, r) = s;
          (acts, c1, r1) = set_row a ro (dt_activations d);
          (tools, c2, r2) = sync_facet a (facet_values ru_tools ro) (dt_tools d);
          (reasons, c3, r3) = sync_facet a (facet_values ru_reasons ro) (dt_reasons d) in
      if rollup_storable ro
      then Ok (d\<lparr>dt_activations := acts, dt_tools := tools, dt_reasons := reasons\<rparr>, c + c1 + c2 + c3, r + r1 + r2 + r3)
      else Err OverflowError)"

definition recompute_span :: "record_tables \<Rightarrow> string \<Rightarrow> string \<Rightarrow> tally \<Rightarrow> tally" where
  "recompute_span rt trace_id span_id s =
     (let (d, c, r) = s;
          (t, c1, r1) = set_row (trace_id, span_id) (span_summary_of rt (trace_id, span_id)) (dt_spans d) in
      (d\<lparr>dt_spans := t\<rparr>, c + c1, r + r1))"

definition recompute_trace :: "record_tables \<Rightarrow> string \<Rightarrow> tally \<Rightarrow> tally" where
  "recompute_trace rt trace_id s =
     (let (d, c, r) = s;
          (traces, c1, r1) = set_row trace_id (trace_summary_of rt trace_id) (dt_traces d);
          ids = span_ids_of rt trace_id;
          (d2, c2, r2) = fold (recompute_span rt trace_id) ids (d\<lparr>dt_traces := traces\<rparr>, c + c1, r + r1);
          (spans, n) = delete_where (\<lambda>x. fst (fst x) = trace_id \<and> snd (fst x) \<notin> set ids) (dt_spans d2) in
      (d2\<lparr>dt_spans := spans\<rparr>, c2 + n, r2 + n))"

definition entity_row :: "record_tables \<Rightarrow> derived_tables \<Rightarrow> string \<Rightarrow> entity_summary option" where
  "entity_row rt d entity_key =
     entity_summary_of (filter (\<lambda>r. fst (fst r) = entity_key) (dt_activations d)) (entity_errors rt entity_key)"

definition entity_storable :: "entity_summary option \<Rightarrow> bool" where
  "entity_storable row = (case row of None \<Rightarrow> True | Some r \<Rightarrow> storable (yy_total r))"

definition recompute_entity :: "record_tables \<Rightarrow> string \<Rightarrow> tally \<Rightarrow> tally res" where
  "recompute_entity rt entity_key s =
     (let (d, c, r) = s; row = entity_row rt d entity_key;
          (t, c1, r1) = set_row entity_key row (dt_entities d) in
      if entity_storable row then Ok (d\<lparr>dt_entities := t\<rparr>, c + c1, r + r1) else Err OverflowError)"

primrec foldE :: "('a \<Rightarrow> 's \<Rightarrow> 's res) \<Rightarrow> 'a list \<Rightarrow> 's \<Rightarrow> 's res" where
  "foldE f [] s = Ok s"
| "foldE f (x # xs) s = bindE (f x s) (foldE f xs)"

definition recompute ::
  "(string \<Rightarrow> bytes) \<Rightarrow> record_tables \<Rightarrow> (string \<times> int) list \<Rightarrow> string list \<Rightarrow> string list \<Rightarrow>
   tally \<Rightarrow> tally res" where
  "recompute uuid5 rt activations traces entities s =
     bindE (foldE (recompute_activation uuid5 rt) activations (fold (recompute_trace rt) traces s))
       (foldE (recompute_entity rt) entities)"

section \<open>Writing and pruning\<close>

definition cs_write ::
  "(string \<Rightarrow> bytes) \<Rightarrow> (string \<Rightarrow> string) \<Rightarrow> record_batch \<Rightarrow> console_store \<Rightarrow> int res \<times> console_store" where
  "cs_write uuid5 sha256_hex b st =
     (if batch_length b = 0 then (Ok 0, st)
      else if cs_closed st then (Err RuntimeError, st)
      else
        (let (rt, n) = write_records sha256_hex b (cs_records st, 0) in
         case recompute uuid5 rt (touched_activations b) (touched_traces b) (touched_entities b) (cs_derived st, n, 0) of
           Inl e \<Rightarrow> (Err e, st)
         | Inr (d, m, _) \<Rightarrow> (Ok m, st\<lparr>cs_records := rt, cs_derived := d, cs_changes := cs_changes st + m\<rparr>)))"

definition prune_records :: "msec \<Rightarrow> record_tables \<Rightarrow> record_tables \<times> int" where
  "prune_records cutoff rt =
     (let old = map fst (filter (\<lambda>r. se_start (snd r) < cutoff) (rt_events rt));
          (attrs, n1) = delete_where (\<lambda>r. fst (fst r) \<in> set old) (rt_attrs rt);
          (events, n2) = delete_where (\<lambda>r. se_start (snd r) < cutoff) (rt_events rt);
          (errors, n3) = delete_where (\<lambda>r. sr_time (snd r) < cutoff) (rt_errors rt);
          (snapshots, n4) = delete_where (\<lambda>r. snd (snd (snd (fst r))) < cutoff) (rt_snapshots rt) in
      (\<lparr>rt_events = events, rt_attrs = attrs, rt_errors = errors, rt_snapshots = snapshots\<rparr>, n1 + n2 + n3 + n4))"

definition pruned_activations :: "msec \<Rightarrow> record_tables \<Rightarrow> (string \<times> int) list" where
  "pruned_activations cutoff rt =
     sort (remdups (map (\<lambda>r. (se_key (snd r), se_seq (snd r))) (filter (\<lambda>r. se_start (snd r) < cutoff) (rt_events rt)) @
                    List.map_filter (\<lambda>r. map_option (Pair (sr_key (snd r))) (sr_seq (snd r)))
                      (filter (\<lambda>r. sr_time (snd r) < cutoff) (rt_errors rt))))"

definition pruned_traces :: "msec \<Rightarrow> record_tables \<Rightarrow> string list" where
  "pruned_traces cutoff rt =
     sort (remdups (map (fst \<circ> fst) (filter (\<lambda>r. se_start (snd r) < cutoff) (rt_events rt))))"

definition pruned_entities :: "msec \<Rightarrow> record_tables \<Rightarrow> string list" where
  "pruned_entities cutoff rt =
     sort (remdups (map fst (pruned_activations cutoff rt) @
                    map (sr_key \<circ> snd) (filter (\<lambda>r. sr_time (snd r) < cutoff) (rt_errors rt))))"

definition prune_to :: "(string \<Rightarrow> bytes) \<Rightarrow> msec \<Rightarrow> console_store \<Rightarrow> int res \<times> console_store" where
  "prune_to uuid5 cutoff st =
     (let rt = cs_records st; (rt', n) = prune_records cutoff rt in
      case recompute uuid5 rt' (pruned_activations cutoff rt) (pruned_traces cutoff rt) (pruned_entities cutoff rt)
             (cs_derived st, n, n) of
        Inl e \<Rightarrow> (Err e, st)
      | Inr (d, m, removed) \<Rightarrow> (Ok removed, st\<lparr>cs_records := rt', cs_derived := d, cs_changes := cs_changes st + m\<rparr>))"

definition MS_PER_HOUR :: real where "MS_PER_HOUR = 3600000"

definition truncate :: "real \<Rightarrow> int" where
  "truncate x = (if 0 \<le> x then \<lfloor>x\<rfloor> else \<lceil>x\<rceil>)"

definition cs_prune :: "(string \<Rightarrow> bytes) \<Rightarrow> real option \<Rightarrow> msec \<Rightarrow> console_store \<Rightarrow> int res \<times> console_store" where
  "cs_prune uuid5 retention_hours now_ms st =
     (case retention_hours of
        None \<Rightarrow> (Ok 0, st)
      | Some hours \<Rightarrow>
          if cs_closed st then (Err RuntimeError, st)
          else prune_to uuid5 (now_ms - truncate (hours * MS_PER_HOUR)) st)"

definition cs_close :: "console_store \<Rightarrow> console_store" where
  "cs_close st = st\<lparr>cs_closed := True\<rparr>"

definition table_counts :: "console_store \<Rightarrow> (string \<times> int) list res" where
  "table_counts st =
     (if cs_closed st then Err RuntimeError
      else
        (let r = cs_records st; d = cs_derived st in
         Ok [(''events'', int (length (rt_events r))), (''event_attributes'', int (length (rt_attrs r))),
             (''errors'', int (length (rt_errors r))), (''snapshots'', int (length (rt_snapshots r))),
             (''traces'', int (length (dt_traces d))), (''spans'', int (length (dt_spans d))),
             (''activations'', int (length (dt_activations d))), (''activation_tools'', int (length (dt_tools d))),
             (''activation_reasons'', int (length (dt_reasons d))), (''entities'', int (length (dt_entities d)))]))"

end
