(* ===== verification/Console_Current.thy ===== *)
theory Console_Current
  imports Console_Store
begin

text \<open>
  Derived rows are current when they are the summaries of the records. A rebuild makes the rows it
  visits current, leaves the others alone, and changes nothing when they already are; records that
  do not move between activations leave the rows a write does not visit current.
\<close>

section \<open>Well-formed tables\<close>

definition records_ok :: "record_tables \<Rightarrow> bool" where
  "records_ok rt \<longleftrightarrow> table_ok (rt_events rt) \<and> table_ok (rt_attrs rt) \<and> table_ok (rt_errors rt) \<and> table_ok (rt_snapshots rt)"

definition derived_ok :: "derived_tables \<Rightarrow> bool" where
  "derived_ok d \<longleftrightarrow> table_ok (dt_activations d) \<and> table_ok (dt_tools d) \<and> table_ok (dt_reasons d) \<and>
     table_ok (dt_traces d) \<and> table_ok (dt_spans d) \<and> table_ok (dt_entities d)"

section \<open>Current rows\<close>

definition facet_row :: "(rollup \<Rightarrow> string list) \<Rightarrow> rollup option \<Rightarrow> string \<Rightarrow> unit option" where
  "facet_row f ro x = (if x \<in> set (facet_values f ro) then Some () else None)"

definition act_current :: "(string \<Rightarrow> bytes) \<Rightarrow> record_tables \<Rightarrow> derived_tables \<Rightarrow> string \<times> int \<Rightarrow> bool" where
  "act_current uuid5 rt d a \<longleftrightarrow>
     map_of (dt_activations d) a = rollup_of uuid5 rt a \<and>
     (\<forall>x. map_of (dt_tools d) (a, x) = facet_row ru_tools (rollup_of uuid5 rt a) x) \<and>
     (\<forall>x. map_of (dt_reasons d) (a, x) = facet_row ru_reasons (rollup_of uuid5 rt a) x)"

definition trace_current :: "record_tables \<Rightarrow> derived_tables \<Rightarrow> string \<Rightarrow> bool" where
  "trace_current rt d t \<longleftrightarrow>
     map_of (dt_traces d) t = trace_summary_of rt t \<and>
     (\<forall>s. map_of (dt_spans d) (t, s) = span_summary_of rt (t, s))"

definition entity_current :: "record_tables \<Rightarrow> derived_tables \<Rightarrow> string \<Rightarrow> bool" where
  "entity_current rt d k \<longleftrightarrow> map_of (dt_entities d) k = entity_row rt d k"

definition all_current :: "(string \<Rightarrow> bytes) \<Rightarrow> record_tables \<Rightarrow> derived_tables \<Rightarrow> bool" where
  "all_current uuid5 rt d \<longleftrightarrow>
     (\<forall>a. act_current uuid5 rt d a) \<and> (\<forall>t. trace_current rt d t) \<and> (\<forall>k. entity_current rt d k)"

section \<open>Table operations\<close>

lemma set_row_facts:
  assumes "table_ok t" "set_row k row t = (t', c, r)"
  shows "table_ok t'" "map_of t' = (map_of t)(k := row)"
    and "map_of t k = row \<Longrightarrow> t' = t \<and> c = 0 \<and> r = 0"
proof -
  show "table_ok t'"
    using assms upsert_ok [OF assms(1), of replace_with k]
    by (auto simp: set_row_def filter_ok delete_where_def split: option.splits prod.splits) (metis fst_conv)
  have none: "map_of (filter (\<lambda>r. fst r \<noteq> k) t) = (map_of t)(k := None)"
    using map_of_filter_ok [OF assms(1), of "\<lambda>r. fst r \<noteq> k"] by (auto simp: fun_eq_iff split: option.splits)
  show "map_of t' = (map_of t)(k := row)"
  proof (cases row)
    case None
    then show ?thesis using assms(2) none by (auto simp: set_row_def delete_where_def)
  next
    case (Some v)
    then have "t' = fst (upsert replace_with k v t)" using assms(2) by (auto simp: set_row_def split: prod.splits)
    then show ?thesis using Some by (auto simp: upsert_map replace_with_def split: option.splits)
  qed
  show "t' = t \<and> c = 0 \<and> r = 0" if same: "map_of t k = row"
  proof (cases row)
    case None
    then have "\<forall>x\<in>set t. fst x \<noteq> k" using same by (auto simp: map_of_eq_None_iff)
    then have "filter (\<lambda>r. fst r \<noteq> k) t = t" "filter (\<lambda>r. fst r = k) t = []" by (auto simp: filter_id_conv filter_empty_conv)
    then show ?thesis using assms(2) None by (auto simp: set_row_def delete_where_def)
  next
    case (Some v)
    then show ?thesis using assms(2) same by (auto simp: set_row_def upsert_def replace_with_def)
  qed
qed

lemma add_facets_facts:
  assumes "table_ok t"
  shows "table_ok (fst (fold (add_facet a) xs (t, n)))"
    and "map_of (fst (fold (add_facet a) xs (t, n))) (b, x) =
           (if b = a \<and> x \<in> set xs then Some () else map_of t (b, x))"
    and "(\<forall>x\<in>set xs. map_of t (a, x) = Some ()) \<Longrightarrow> fold (add_facet a) xs (t, n) = (t, n)"
  using assms
  by (induction xs arbitrary: t n) (auto simp: add_facet_def put_ok split: option.splits)

lemma sync_facet_facts:
  assumes "table_ok t" "sync_facet a xs t = (t', c, r)"
  shows "table_ok t'"
    and "map_of t' (b, x) = (if b = a then (if x \<in> set xs then Some () else None) else map_of t (b, x))"
    and "(\<And>x. map_of t (a, x) = (if x \<in> set xs then Some () else None)) \<Longrightarrow> t' = t \<and> c = 0 \<and> r = 0"
proof -
  let ?P = "\<lambda>r. fst (fst r) = a \<and> snd (fst r) \<notin> set xs"
  obtain u n where un: "fold (add_facet a) xs (t, 0) = (u, n)" by fastforce
  with assms(2) have t': "t' = filter (\<lambda>r. \<not> ?P r) u" "c = n + int (length (filter ?P u))" "r = int (length (filter ?P u))"
    by (simp_all add: sync_facet_def delete_where_def)
  note add = add_facets_facts [where a = a and xs = xs and n = 0, OF assms(1), unfolded un fst_conv]
  show "table_ok t'" using add(1) t' by (simp add: filter_ok)
  show "map_of t' (b, x) = (if b = a then (if x \<in> set xs then Some () else None) else map_of t (b, x))"
    unfolding t' map_of_filter_ok [OF add(1)] add(2) by (auto split: option.splits)
  show "t' = t \<and> c = 0 \<and> r = 0" if same: "\<And>x. map_of t (a, x) = (if x \<in> set xs then Some () else None)"
  proof -
    have "u = t" "n = 0" using add(3) same by auto
    moreover have "\<forall>r\<in>set t. \<not> ?P r"
    proof
      fix e assume "e \<in> set t"
      then have "map_of t (fst e) = Some (snd e)" by (rule table_lookup [OF assms(1)])
      then show "\<not> ?P e" using same [of "snd (fst e)"] by (cases e) (auto split: if_splits)
    qed
    ultimately show ?thesis using t' by (auto simp: filter_id_conv filter_empty_conv)
  qed
qed

section \<open>One rebuild\<close>

lemma recompute_activation_facts:
  assumes "derived_ok d" "recompute_activation uuid5 rt a (d, c, r) = Ok (d', c', r')"
  shows "derived_ok d'" "act_current uuid5 rt d' a"
    and "\<And>b. b \<noteq> a \<Longrightarrow> map_of (dt_activations d') b = map_of (dt_activations d) b"
    and "\<And>b. b \<noteq> a \<Longrightarrow> act_current uuid5 rt d' b = act_current uuid5 rt d b"
    and "dt_traces d' = dt_traces d" "dt_spans d' = dt_spans d" "dt_entities d' = dt_entities d"
    and "rollup_storable (rollup_of uuid5 rt a)"
    and "act_current uuid5 rt d a \<Longrightarrow> d' = d \<and> c' = c \<and> r' = r"
proof -
  let ?ro = "rollup_of uuid5 rt a"
  obtain acts c1 r1 where s1: "set_row a ?ro (dt_activations d) = (acts, c1, r1)" by (metis prod.exhaust)
  obtain tools c2 r2 where s2: "sync_facet a (facet_values ru_tools ?ro) (dt_tools d) = (tools, c2, r2)" by (metis prod.exhaust)
  obtain reasons c3 r3 where s3: "sync_facet a (facet_values ru_reasons ?ro) (dt_reasons d) = (reasons, c3, r3)" by (metis prod.exhaust)
  have d': "d' = d\<lparr>dt_activations := acts, dt_tools := tools, dt_reasons := reasons\<rparr>"
    and n: "c' = c + c1 + c2 + c3" "r' = r + r1 + r2 + r3" and st: "rollup_storable ?ro"
    using assms(2) s1 s2 s3 by (auto simp: recompute_activation_def Let_def split: if_splits)
  show "rollup_storable (rollup_of uuid5 rt a)" by (rule st)
  have ok: "table_ok (dt_activations d)" "table_ok (dt_tools d)" "table_ok (dt_reasons d)"
    using assms(1) by (auto simp: derived_ok_def)
  note f1 = set_row_facts [OF ok(1) s1] and f2 = sync_facet_facts [OF ok(2) s2] and f3 = sync_facet_facts [OF ok(3) s3]
  show "derived_ok d'" using assms(1) f1(1) f2(1) f3(1) d' by (simp add: derived_ok_def)
  show "act_current uuid5 rt d' a" using d' f1(2) f2(2) f3(2) by (simp add: act_current_def facet_row_def)
  show "map_of (dt_activations d') b = map_of (dt_activations d) b" if "b \<noteq> a" for b using that d' f1(2) by simp
  show "act_current uuid5 rt d' b = act_current uuid5 rt d b" if "b \<noteq> a" for b
    using that d' f1(2) f2(2) f3(2) by (simp add: act_current_def)
  show "dt_traces d' = dt_traces d" "dt_spans d' = dt_spans d" "dt_entities d' = dt_entities d" using d' by simp_all
  show "d' = d \<and> c' = c \<and> r' = r" if "act_current uuid5 rt d a"
    using that f1(3) f2(3) f3(3) d' n by (simp add: act_current_def facet_row_def)
qed

lemma recompute_span_facts:
  assumes "derived_ok d"
  shows "\<exists>d' c' r'. recompute_span rt t s (d, c, r) = (d', c', r') \<and> derived_ok d' \<and>
    d' = d\<lparr>dt_spans := dt_spans d'\<rparr> \<and>
    map_of (dt_spans d') = (map_of (dt_spans d))((t, s) := span_summary_of rt (t, s)) \<and>
    (map_of (dt_spans d) (t, s) = span_summary_of rt (t, s) \<longrightarrow> d' = d \<and> c' = c \<and> r' = r)"
proof -
  obtain u c1 r1 where s1: "set_row (t, s) (span_summary_of rt (t, s)) (dt_spans d) = (u, c1, r1)" by (metis prod.exhaust)
  have "table_ok (dt_spans d)" using assms by (simp add: derived_ok_def)
  note f = set_row_facts [OF this s1]
  show ?thesis using s1 f assms by (auto simp: recompute_span_def derived_ok_def)
qed

lemma recompute_spans_facts:
  assumes "derived_ok d"
  shows "\<exists>d' c' r'. fold (recompute_span rt t) ids (d, c, r) = (d', c', r') \<and> derived_ok d' \<and>
    d' = d\<lparr>dt_spans := dt_spans d'\<rparr> \<and>
    (\<forall>u s. map_of (dt_spans d') (u, s) =
       (if u = t \<and> s \<in> set ids then span_summary_of rt (t, s) else map_of (dt_spans d) (u, s))) \<and>
    ((\<forall>s\<in>set ids. map_of (dt_spans d) (t, s) = span_summary_of rt (t, s)) \<longrightarrow> d' = d \<and> c' = c \<and> r' = r)"
  using assms
proof (induction ids arbitrary: d c r)
  case (Cons i ids)
  from recompute_span_facts [OF Cons.prems, of rt t i c r] obtain d1 c1 r1 where
    one: "recompute_span rt t i (d, c, r) = (d1, c1, r1)" "derived_ok d1" "d1 = d\<lparr>dt_spans := dt_spans d1\<rparr>"
      "map_of (dt_spans d1) = (map_of (dt_spans d))((t, i) := span_summary_of rt (t, i))"
      "map_of (dt_spans d) (t, i) = span_summary_of rt (t, i) \<longrightarrow> d1 = d \<and> c1 = c \<and> r1 = r" by blast
  from Cons.IH [OF one(2), of c1 r1] obtain d' c' r' where
    rest: "fold (recompute_span rt t) ids (d1, c1, r1) = (d', c', r')" "derived_ok d'" "d' = d1\<lparr>dt_spans := dt_spans d'\<rparr>"
      "\<forall>u s. map_of (dt_spans d') (u, s) =
         (if u = t \<and> s \<in> set ids then span_summary_of rt (t, s) else map_of (dt_spans d1) (u, s))"
      "(\<forall>s\<in>set ids. map_of (dt_spans d1) (t, s) = span_summary_of rt (t, s)) \<longrightarrow> d' = d1 \<and> c' = c1 \<and> r' = r1" by blast
  have "d' = d\<lparr>dt_spans := dt_spans d'\<rparr>" using one(3) rest(3) by (metis derived_tables.surjective derived_tables.update_convs(5) derived_tables.ext_inject)
  then show ?case using one(1,4,5) rest(1,2,4,5) by auto
qed auto

lemma span_ids_iff: "s \<in> set (span_ids_of rt t) \<longleftrightarrow> span_summary_of rt (t, s) \<noteq> None"
  by (auto simp: span_ids_of_def span_summary_of_def Let_def filter_empty_conv image_iff)

lemma recompute_trace_facts:
  assumes "derived_ok d" "recompute_trace rt t (d, c, r) = (d', c', r')"
  shows "derived_ok d'" "trace_current rt d' t"
    and "\<And>u. u \<noteq> t \<Longrightarrow> trace_current rt d' u = trace_current rt d u"
    and "dt_activations d' = dt_activations d" "dt_tools d' = dt_tools d" "dt_reasons d' = dt_reasons d"
        "dt_entities d' = dt_entities d"
    and "trace_current rt d t \<Longrightarrow> d' = d \<and> c' = c \<and> r' = r"
proof -
  obtain tr c1 r1 where s1: "set_row t (trace_summary_of rt t) (dt_traces d) = (tr, c1, r1)" by (metis prod.exhaust)
  let ?d1 = "d\<lparr>dt_traces := tr\<rparr>" and ?ids = "span_ids_of rt t"
  let ?P = "\<lambda>x. fst (fst x) = t \<and> snd (fst x) \<notin> set ?ids"
  have okt: "table_ok (dt_traces d)" using assms(1) by (simp add: derived_ok_def)
  note f1 = set_row_facts [OF okt s1]
  have ok1: "derived_ok ?d1" using assms(1) f1(1) by (simp add: derived_ok_def)
  from recompute_spans_facts [OF ok1, of rt t ?ids "c + c1" "r + r1"] obtain d2 c2 r2 where
    two: "fold (recompute_span rt t) ?ids (?d1, c + c1, r + r1) = (d2, c2, r2)" "derived_ok d2"
      "d2 = ?d1\<lparr>dt_spans := dt_spans d2\<rparr>"
      "\<forall>u s. map_of (dt_spans d2) (u, s) =
         (if u = t \<and> s \<in> set ?ids then span_summary_of rt (t, s) else map_of (dt_spans ?d1) (u, s))"
      "(\<forall>s\<in>set ?ids. map_of (dt_spans ?d1) (t, s) = span_summary_of rt (t, s)) \<longrightarrow>
         d2 = ?d1 \<and> c2 = c + c1 \<and> r2 = r + r1" by blast
  have d': "d' = d2\<lparr>dt_spans := filter (\<lambda>x. \<not> ?P x) (dt_spans d2)\<rparr>"
    "c' = c2 + int (length (filter ?P (dt_spans d2)))" "r' = r2 + int (length (filter ?P (dt_spans d2)))"
    using assms(2) s1 two(1) by (auto simp: recompute_trace_def delete_where_def Let_def)
  have ok2: "table_ok (dt_spans d2)" using two(2) by (simp add: derived_ok_def)
  show "derived_ok d'" using two(2) d' by (simp add: derived_ok_def filter_ok)
  have tr: "dt_traces d' = tr" unfolding d' by (subst two(3)) simp
  have spans: "map_of (dt_spans d') (u, s) =
      (if u = t then span_summary_of rt (t, s) else map_of (dt_spans d) (u, s))" for u s
    using span_ids_iff [of s rt t]
    by (auto simp: d' map_of_filter_ok [OF ok2] two(4) split: option.splits)
  show "trace_current rt d' t" using tr f1(2) spans by (simp add: trace_current_def)
  show "trace_current rt d' u = trace_current rt d u" if "u \<noteq> t" for u
    using that tr f1(2) spans by (simp add: trace_current_def)
  show "dt_activations d' = dt_activations d" "dt_tools d' = dt_tools d" "dt_reasons d' = dt_reasons d"
    "dt_entities d' = dt_entities d"
    unfolding d' by (subst two(3), simp)+
  show "d' = d \<and> c' = c \<and> r' = r" if cur: "trace_current rt d t"
  proof -
    have one: "tr = dt_traces d" "c1 = 0" "r1 = 0" using f1(3) cur by (auto simp: trace_current_def)
    then have d2: "d2 = d" "c2 = c" "r2 = r" using two(5) cur by (auto simp: trace_current_def)
    have "\<forall>x\<in>set (dt_spans d). \<not> ?P x"
    proof
      fix x assume "x \<in> set (dt_spans d)"
      then have "map_of (dt_spans d) (fst x) = Some (snd x)" using table_lookup ok2 d2 by blast
      then show "\<not> ?P x" using cur span_ids_iff [of "snd (fst x)" rt t] by (cases x) (auto simp: trace_current_def)
    qed
    then show ?thesis using d' d2 by (auto simp: filter_id_conv filter_empty_conv)
  qed
qed

lemma recompute_entity_facts:
  assumes "derived_ok d" "recompute_entity rt k (d, c, r) = Ok (d', c', r')"
  shows "derived_ok d'" "entity_current rt d' k"
    and "\<And>j. j \<noteq> k \<Longrightarrow> entity_current rt d' j = entity_current rt d j"
    and "d' = d\<lparr>dt_entities := dt_entities d'\<rparr>"
    and "entity_storable (entity_row rt d k)"
    and "entity_current rt d k \<Longrightarrow> d' = d \<and> c' = c \<and> r' = r"
proof -
  obtain t c1 r1 where s1: "set_row k (entity_row rt d k) (dt_entities d) = (t, c1, r1)" by (metis prod.exhaust)
  have d': "d' = d\<lparr>dt_entities := t\<rparr>" "c' = c + c1" "r' = r + r1" and st: "entity_storable (entity_row rt d k)"
    using assms(2) s1 by (auto simp: recompute_entity_def Let_def split: if_splits)
  show "entity_storable (entity_row rt d k)" by (rule st)
  have "table_ok (dt_entities d)" using assms(1) by (simp add: derived_ok_def)
  note f = set_row_facts [OF this s1]
  have row: "entity_row rt d' j = entity_row rt d j" for j using d' by (simp add: entity_row_def)
  show "derived_ok d'" using assms(1) f(1) d' by (simp add: derived_ok_def)
  show "entity_current rt d' k" using f(2) d' row by (simp add: entity_current_def)
  show "entity_current rt d' j = entity_current rt d j" if "j \<noteq> k" for j
    using that f(2) d' row by (simp add: entity_current_def)
  show "d' = d\<lparr>dt_entities := dt_entities d'\<rparr>" using d' by simp
  show "d' = d \<and> c' = c \<and> r' = r" if "entity_current rt d k" using that f(3) d' by (simp add: entity_current_def)
qed

end
