(* ===== verification/Console_Writes.thy ===== *)
theory Console_Writes
  imports Console_Current
begin

text \<open>
  The console store over its writes: rebuilding a list of rows, what a batch changes in the records,
  which rows that leaves current, and the records a history of batches stands for.
\<close>

section \<open>Rebuilding many rows\<close>

lemma foldE_acts:
  assumes "derived_ok d" "foldE (recompute_activation uuid5 rt) A (d, c, r) = Ok (d', c', r')"
  shows "derived_ok d' \<and> (\<forall>a\<in>set A. act_current uuid5 rt d' a \<and> rollup_storable (rollup_of uuid5 rt a)) \<and>
    (\<forall>b. b \<notin> set A \<longrightarrow> map_of (dt_activations d') b = map_of (dt_activations d) b \<and>
                     act_current uuid5 rt d' b = act_current uuid5 rt d b) \<and>
    dt_traces d' = dt_traces d \<and> dt_spans d' = dt_spans d \<and> dt_entities d' = dt_entities d"
  using assms
proof (induction A arbitrary: d c r)
  case (Cons a A)
  then obtain d1 c1 r1 where one: "recompute_activation uuid5 rt a (d, c, r) = Ok (d1, c1, r1)"
    and rest: "foldE (recompute_activation uuid5 rt) A (d1, c1, r1) = Ok (d', c', r')" by auto
  note f = recompute_activation_facts [OF Cons.prems(1) one]
  from Cons.IH [OF f(1) rest] f show ?case by (cases "a \<in> set A") (auto simp del: split_paired_All)
qed auto

lemma fix_acts:
  assumes "derived_ok d" "\<And>a. a \<in> set A \<Longrightarrow> act_current uuid5 rt d a \<and> rollup_storable (rollup_of uuid5 rt a)"
  shows "foldE (recompute_activation uuid5 rt) A (d, c, r) = Ok (d, c, r)"
  using assms(2)
proof (induction A)
  case (Cons a A)
  obtain d1 c1 r1 where one: "recompute_activation uuid5 rt a (d, c, r) = Ok (d1, c1, r1)"
    using Cons.prems [of a] by (auto simp: recompute_activation_def Let_def split_beta)
  from recompute_activation_facts(9) [OF assms(1) one] Cons show ?case by (auto simp: one)
qed simp

lemma fold_traces:
  assumes "derived_ok d" "fold (recompute_trace rt) T (d, c, r) = (d', c', r')"
  shows "derived_ok d' \<and> (\<forall>t\<in>set T. trace_current rt d' t) \<and>
    (\<forall>u. u \<notin> set T \<longrightarrow> trace_current rt d' u = trace_current rt d u) \<and>
    dt_activations d' = dt_activations d \<and> dt_tools d' = dt_tools d \<and> dt_reasons d' = dt_reasons d \<and>
    dt_entities d' = dt_entities d"
  using assms
proof (induction T arbitrary: d c r)
  case (Cons t T)
  obtain d1 c1 r1 where one: "recompute_trace rt t (d, c, r) = (d1, c1, r1)" by (metis prod.exhaust)
  note f = recompute_trace_facts [OF Cons.prems(1) one]
  from Cons.IH [OF f(1)] Cons.prems(2) one f show ?case by (cases "t \<in> set T") auto
qed auto

lemma fix_traces:
  assumes "derived_ok d" "\<And>t. t \<in> set T \<Longrightarrow> trace_current rt d t"
  shows "fold (recompute_trace rt) T (d, c, r) = (d, c, r)"
  using assms(2)
proof (induction T)
  case (Cons t T)
  obtain d1 c1 r1 where one: "recompute_trace rt t (d, c, r) = (d1, c1, r1)" by (metis prod.exhaust)
  from recompute_trace_facts(8) [OF assms(1) one] Cons show ?case by (simp add: one)
qed simp

lemma foldE_entities:
  assumes "derived_ok d" "foldE (recompute_entity rt) E (d, c, r) = Ok (d', c', r')"
  shows "derived_ok d' \<and> (\<forall>k\<in>set E. entity_current rt d' k \<and> entity_storable (entity_row rt d' k)) \<and>
    (\<forall>j. j \<notin> set E \<longrightarrow> entity_current rt d' j = entity_current rt d j) \<and> d' = d\<lparr>dt_entities := dt_entities d'\<rparr>"
  using assms
proof (induction E arbitrary: d c r)
  case (Cons k E)
  then obtain d1 c1 r1 where one: "recompute_entity rt k (d, c, r) = Ok (d1, c1, r1)"
    and rest: "foldE (recompute_entity rt) E (d1, c1, r1) = Ok (d', c', r')" by auto
  note f = recompute_entity_facts [OF Cons.prems(1) one]
  note IH = Cons.IH [OF f(1) rest]
  have d': "d' = d\<lparr>dt_entities := dt_entities d'\<rparr>"
    using IH f(4) by (metis (no_types) derived_tables.surjective derived_tables.update_convs(6) derived_tables.ext_inject)
  then have "entity_row rt d' k = entity_row rt d k" by (metis (no_types) derived_tables.ext_inject derived_tables.surjective derived_tables.update_convs(6) entity_row_def)
  with IH f d' show ?case by (cases "k \<in> set E") auto
qed auto

lemma fix_entities:
  assumes "derived_ok d" "\<And>k. k \<in> set E \<Longrightarrow> entity_current rt d k \<and> entity_storable (entity_row rt d k)"
  shows "foldE (recompute_entity rt) E (d, c, r) = Ok (d, c, r)"
  using assms(2)
proof (induction E)
  case (Cons k E)
  obtain d1 c1 r1 where one: "recompute_entity rt k (d, c, r) = Ok (d1, c1, r1)"
    using Cons.prems [of k] by (auto simp: recompute_entity_def Let_def split_beta)
  from recompute_entity_facts(6) [OF assms(1) one] Cons show ?case by (auto simp: one)
qed simp

text \<open>The rows of an entity's activations, as the entity's row reads them.\<close>

lemma filter_table_eqI:
  assumes "table_ok t" "table_ok u" "\<And>k v. P (k, v) \<Longrightarrow> map_of t k = Some v \<longleftrightarrow> map_of u k = Some v"
  shows "filter P t = filter P u"
proof (rule table_eqI)
  show "map_of (filter P t) = map_of (filter P u)"
  proof
    fix k
    have "map_of (filter P t) k = Some v \<longleftrightarrow> map_of (filter P u) k = Some v" for v
      using assms(3) [of k v] by (auto simp: map_of_filter_ok assms(1,2) split: option.splits if_splits)
    then show "map_of (filter P t) k = map_of (filter P u) k" by (metis not_Some_eq)
  qed
qed (use assms filter_ok in auto)

lemma entity_row_cong:
  assumes "derived_ok d" "derived_ok d'"
    and "\<And>a. fst a = k \<Longrightarrow> map_of (dt_activations d') a = map_of (dt_activations d) a"
  shows "entity_row rt d' k = entity_row rt d k"
proof -
  have "filter (\<lambda>r. fst (fst r) = k) (dt_activations d') = filter (\<lambda>r. fst (fst r) = k) (dt_activations d)"
    by (rule filter_table_eqI) (use assms in \<open>auto simp: derived_ok_def\<close>)
  then show ?thesis by (simp add: entity_row_def)
qed

lemma recompute_facts:
  assumes "derived_ok d" "recompute uuid5 rt A T E (d, c, r) = Ok (d', c', r')" "fst ` set A \<subseteq> set E"
  shows "derived_ok d'"
    and "\<forall>a\<in>set A. act_current uuid5 rt d' a \<and> rollup_storable (rollup_of uuid5 rt a)"
    and "\<forall>t\<in>set T. trace_current rt d' t"
    and "\<forall>k\<in>set E. entity_current rt d' k \<and> entity_storable (entity_row rt d' k)"
    and "\<And>b. b \<notin> set A \<Longrightarrow> act_current uuid5 rt d' b = act_current uuid5 rt d b"
    and "\<And>u. u \<notin> set T \<Longrightarrow> trace_current rt d' u = trace_current rt d u"
    and "\<And>j. j \<notin> set E \<Longrightarrow> entity_current rt d' j = entity_current rt d j"
    and "\<And>b. b \<notin> set A \<Longrightarrow> map_of (dt_activations d') b = map_of (dt_activations d) b"
proof -
  obtain d1 c1 r1 where one: "fold (recompute_trace rt) T (d, c, r) = (d1, c1, r1)" by (metis prod.exhaust)
  from assms(2) one obtain d2 c2 r2 where
    two: "foldE (recompute_activation uuid5 rt) A (d1, c1, r1) = Ok (d2, c2, r2)" and
    three: "foldE (recompute_entity rt) E (d2, c2, r2) = Ok (d', c', r')"
    by (auto simp: recompute_def)
  note f1 = fold_traces [OF assms(1) one]
  note f2 = foldE_acts [OF conjunct1 [OF f1] two]
  note f3 = foldE_entities [OF conjunct1 [OF f2] three]
  have e3: "dt_activations d' = dt_activations d2" "dt_tools d' = dt_tools d2" "dt_reasons d' = dt_reasons d2"
    "dt_traces d' = dt_traces d2" "dt_spans d' = dt_spans d2"
    using f3 by (metis derived_tables.ext_inject derived_tables.surjective derived_tables.update_convs(6))+
  have act: "act_current uuid5 rt d' a = act_current uuid5 rt d2 a" for a using e3 by (simp add: act_current_def)
  have tr: "trace_current rt d' t = trace_current rt d1 t" for t using e3 f2 by (simp add: trace_current_def)
  show "derived_ok d'" using f3 by simp
  show "\<forall>a\<in>set A. act_current uuid5 rt d' a \<and> rollup_storable (rollup_of uuid5 rt a)" using f2 act by simp
  show "\<forall>t\<in>set T. trace_current rt d' t" using f1 tr by simp
  show "\<forall>k\<in>set E. entity_current rt d' k \<and> entity_storable (entity_row rt d' k)" using f3 by simp
  show "act_current uuid5 rt d' b = act_current uuid5 rt d b" if "b \<notin> set A" for b
  proof -
    have "act_current uuid5 rt d1 b = act_current uuid5 rt d b" using f1 by (simp add: act_current_def)
    moreover have "act_current uuid5 rt d2 b = act_current uuid5 rt d1 b" using f2 that by blast
    ultimately show ?thesis using act by blast
  qed
  show "map_of (dt_activations d') b = map_of (dt_activations d) b" if "b \<notin> set A" for b
    using that f1 f2 e3(1) by (simp del: split_paired_All)
  show "trace_current rt d' u = trace_current rt d u" if "u \<notin> set T" for u using that f1 tr by simp
  show "entity_current rt d' j = entity_current rt d j" if j: "j \<notin> set E" for j
  proof -
    have "entity_row rt d2 j = entity_row rt d j"
    proof (rule entity_row_cong [OF assms(1)])
      show "map_of (dt_activations d2) a = map_of (dt_activations d) a" if "fst a = j" for a
      proof -
        have "a \<notin> set A" using that j assms(3) by auto
        then show ?thesis using f1 f2 by (simp del: split_paired_All)
      qed
    qed (use f2 in simp)
    moreover have "entity_current rt d' j = entity_current rt d2 j" using f3 j by simp
    ultimately show ?thesis using f1 f2 by (simp add: entity_current_def)
  qed
qed

lemma recompute_fix:
  assumes "derived_ok d"
    and "\<forall>a\<in>set A. act_current uuid5 rt d a \<and> rollup_storable (rollup_of uuid5 rt a)"
    and "\<forall>t\<in>set T. trace_current rt d t"
    and "\<forall>k\<in>set E. entity_current rt d k \<and> entity_storable (entity_row rt d k)"
  shows "recompute uuid5 rt A T E (d, c, r) = Ok (d, c, r)"
  using assms by (simp add: recompute_def fix_traces fix_acts fix_entities)

end
