(* ===== verification/Console_Frame.thy ===== *)
theory Console_Frame
  imports Console_Writes
begin

text \<open>
  What a change of the records can move: a derived row depends only on the events filed under its
  key, so a change whose old and new rows are all filed under visited keys leaves the others current.
\<close>

declare split_paired_All [simp del] split_paired_Ex [simp del]

definition place :: "stored_event \<Rightarrow> string \<times> int" where
  "place e = (se_key e, se_seq e)"

definition event_differs :: "record_tables \<Rightarrow> record_tables \<Rightarrow> event_id \<Rightarrow> bool" where
  "event_differs rt rt' eid \<longleftrightarrow>
     map_of (rt_events rt) eid \<noteq> map_of (rt_events rt') eid \<or>
     (\<exists>k. map_of (rt_attrs rt) (eid, k) \<noteq> map_of (rt_attrs rt') (eid, k))"

definition covers :: "(string \<times> int) set \<Rightarrow> string set \<Rightarrow> string set \<Rightarrow> record_tables \<Rightarrow> record_tables \<Rightarrow> bool" where
  "covers A T E rt rt' \<longleftrightarrow>
     (\<forall>eid row. event_differs rt rt' eid \<longrightarrow>
        map_of (rt_events rt) eid = Some row \<or> map_of (rt_events rt') eid = Some row \<longrightarrow> fst eid \<in> T \<and> place row \<in> A) \<and>
     (\<forall>i row. map_of (rt_errors rt) i \<noteq> map_of (rt_errors rt') i \<longrightarrow>
        map_of (rt_errors rt) i = Some row \<or> map_of (rt_errors rt') i = Some row \<longrightarrow>
        sr_key row \<in> E \<and> (\<forall>s. sr_seq row = Some s \<longrightarrow> (sr_key row, s) \<in> A))"

lemma rollup_frame:
  assumes "records_ok rt" "records_ok rt'" "covers A T E rt rt'" "a \<notin> A"
  shows "rollup_of uuid5 rt' a = rollup_of uuid5 rt a"
proof -
  let ?P = "\<lambda>r :: event_id \<times> stored_event. se_key (snd r) = fst a \<and> se_seq (snd r) = snd a"
  let ?row = "\<lambda>rt (eid :: event_id, e). \<lparr>ae_trace = fst eid, ae_span = fst (snd eid), ae_type = snd (snd eid),
      ae_start = se_start e, ae_prov = se_prov e, ae_attrs = attributes_of rt eid\<rparr>"
  have same: "\<not> event_differs rt rt' eid" if "place v = a" "map_of (rt_events rt) eid = Some v \<or> map_of (rt_events rt') eid = Some v" for eid v
    using assms(3,4) that by (auto simp: covers_def)
  have evs: "filter ?P (rt_events rt') = filter ?P (rt_events rt)"
  proof (rule filter_table_eqI)
    fix k v assume "?P (k, v)"
    then have "place v = a" by (simp add: place_def prod_eq_iff)
    from same [OF this, of k] show "map_of (rt_events rt') k = Some v \<longleftrightarrow> map_of (rt_events rt) k = Some v"
      by (auto simp: event_differs_def)
  qed (use assms in \<open>auto simp: records_ok_def\<close>)
  have attrs: "attributes_of rt' eid = attributes_of rt eid" if "(eid, v) \<in> set (filter ?P (rt_events rt))" for eid v
  proof -
    have "map_of (rt_events rt) eid = Some v"
      using that table_lookup [of "rt_events rt" "(eid, v)"] assms(1) by (simp add: records_ok_def)
    moreover have "place v = a" using that by (simp add: place_def prod_eq_iff)
    ultimately have nd: "\<not> event_differs rt rt' eid" using same by blast
    have "filter (\<lambda>r. fst (fst r) = eid) (rt_attrs rt') = filter (\<lambda>r. fst (fst r) = eid) (rt_attrs rt)"
      by (rule filter_table_eqI) (use nd assms in \<open>auto simp: records_ok_def event_differs_def\<close>)
    then show ?thesis by (simp add: attributes_of_def)
  qed
  have "map (?row rt') (filter ?P (rt_events rt)) = map (?row rt) (filter ?P (rt_events rt))"
    by (rule map_cong) (use attrs in auto)
  then have "read_events rt' (fst a) (snd a) = read_events rt (fst a) (snd a)"
    unfolding read_events_def evs by (rule arg_cong)
  moreover have "filter (\<lambda>r. sr_key (snd r) = fst a \<and> sr_seq (snd r) = Some (snd a)) (rt_errors rt') =
      filter (\<lambda>r. sr_key (snd r) = fst a \<and> sr_seq (snd r) = Some (snd a)) (rt_errors rt)"
  proof (rule filter_table_eqI)
    fix k :: string and v :: stored_error assume v: "sr_key (snd (k, v)) = fst a \<and> sr_seq (snd (k, v)) = Some (snd a)"
    have "map_of (rt_errors rt) k \<noteq> map_of (rt_errors rt') k \<longrightarrow>
        map_of (rt_errors rt) k = Some v \<or> map_of (rt_errors rt') k = Some v \<longrightarrow>
        (\<forall>s. sr_seq v = Some s \<longrightarrow> (sr_key v, s) \<in> A)"
      using assms(3) unfolding covers_def by blast
    with v assms(4) show "map_of (rt_errors rt') k = Some v \<longleftrightarrow> map_of (rt_errors rt) k = Some v"
      by (cases "map_of (rt_errors rt) k = map_of (rt_errors rt') k") auto
  qed (use assms in \<open>auto simp: records_ok_def\<close>)
  ultimately show ?thesis by (simp add: rollup_of_def read_errors_def)
qed

lemma trace_frame:
  assumes "records_ok rt" "records_ok rt'" "covers A T E rt rt'" "t \<notin> T"
  shows "trace_summary_of rt' t = trace_summary_of rt t" "span_summary_of rt' (t, s) = span_summary_of rt (t, s)"
proof -
  have "filter (\<lambda>r. fst (fst r) = t) (rt_events rt') = filter (\<lambda>r. fst (fst r) = t) (rt_events rt)"
  proof (rule filter_table_eqI)
    fix k :: event_id and v :: stored_event assume "fst (fst (k, v)) = t"
    then show "map_of (rt_events rt') k = Some v \<longleftrightarrow> map_of (rt_events rt) k = Some v"
      using assms(3,4) unfolding covers_def event_differs_def by (metis fst_conv)
  qed (use assms in \<open>auto simp: records_ok_def\<close>)
  then have "trace_rows rt' t = trace_rows rt t" by (simp add: trace_rows_def)
  then show "trace_summary_of rt' t = trace_summary_of rt t" "span_summary_of rt' (t, s) = span_summary_of rt (t, s)"
    by (simp_all add: trace_summary_of_def span_summary_of_def)
qed

lemma entity_frame:
  assumes "records_ok rt" "records_ok rt'" "covers A T E rt rt'" "k \<notin> E"
  shows "entity_row rt' d k = entity_row rt d k"
proof -
  have "filter (\<lambda>r. sr_key (snd r) = k) (rt_errors rt') = filter (\<lambda>r. sr_key (snd r) = k) (rt_errors rt)"
  proof (rule filter_table_eqI)
    fix i :: string and v :: stored_error assume k: "sr_key (snd (i, v)) = k"
    have "map_of (rt_errors rt) i \<noteq> map_of (rt_errors rt') i \<longrightarrow>
        map_of (rt_errors rt) i = Some v \<or> map_of (rt_errors rt') i = Some v \<longrightarrow> sr_key v \<in> E"
      using assms(3) unfolding covers_def by blast
    with k assms(4) show "map_of (rt_errors rt') i = Some v \<longleftrightarrow> map_of (rt_errors rt) i = Some v"
      by (cases "map_of (rt_errors rt) i = map_of (rt_errors rt') i") auto
  qed (use assms in \<open>auto simp: records_ok_def\<close>)
  moreover have "entity_errors x k = map snd (filter (\<lambda>r. sr_key (snd r) = k) (rt_errors x))" for x
    by (simp add: entity_errors_def filter_map comp_def)
  ultimately show ?thesis by (simp add: entity_row_def)
qed

lemma current_after:
  assumes "records_ok rt" "records_ok rt'" "derived_ok d" "all_current uuid5 rt d"
    and "covers (set A) (set T) (set E) rt rt'" "fst ` set A \<subseteq> set E"
    and "recompute uuid5 rt' A T E (d, c, r) = Ok (d', c', r')"
  shows "derived_ok d' \<and> all_current uuid5 rt' d'"
proof -
  note f = recompute_facts [OF assms(3,7,6)]
  have "act_current uuid5 rt' d' a" for a
  proof (cases "a \<in> set A")
    case False
    with assms(4) have "act_current uuid5 rt' d a"
      by (simp add: all_current_def act_current_def rollup_frame [OF assms(1,2,5) False])
    with f(5) [OF False] show ?thesis by simp
  qed (use f(2) in simp)
  moreover have "trace_current rt' d' t" for t
  proof (cases "t \<in> set T")
    case False
    with assms(4) have "trace_current rt' d t"
      by (simp add: all_current_def trace_current_def trace_frame [OF assms(1,2,5) False])
    with f(6) [OF False] show ?thesis by simp
  qed (use f(3) in simp)
  moreover have "entity_current rt' d' k" for k
  proof (cases "k \<in> set E")
    case False
    with assms(4) have "entity_current rt' d k"
      by (simp add: all_current_def entity_current_def entity_frame [OF assms(1,2,5) False])
    with f(7) [OF False] show ?thesis by simp
  qed (use f(4) in simp)
  ultimately show ?thesis using f(1) by (simp add: all_current_def)
qed

section \<open>What a batch changes\<close>

lemma attribute_facts:
  assumes "records_ok rt"
  shows "\<exists>rt' n'. fold (write_attribute eid) kvs (rt, n) = (rt', n') \<and> records_ok rt' \<and>
    rt' = rt\<lparr>rt_attrs := rt_attrs rt'\<rparr> \<and>
    (\<forall>i k. i \<noteq> eid \<longrightarrow> map_of (rt_attrs rt') (i, k) = map_of (rt_attrs rt) (i, k)) \<and>
    (distinct (map fst kvs) \<longrightarrow>
       (\<forall>k. map_of (rt_attrs rt') (eid, k) = (case map_of kvs k of None \<Rightarrow> map_of (rt_attrs rt) (eid, k) | Some v \<Rightarrow> Some v))) \<and>
    ((\<forall>kv\<in>set kvs. map_of (rt_attrs rt) (eid, fst kv) = Some (snd kv)) \<longrightarrow> rt' = rt \<and> n' = n)"
  using assms
proof (induction kvs arbitrary: rt n)
  case (Cons kv kvs)
  let ?u = "upsert merge_attribute (eid, fst kv) (snd kv) (rt_attrs rt)"
  let ?rt = "rt\<lparr>rt_attrs := fst ?u\<rparr>"
  have one: "write_attribute eid kv (rt, n) = (?rt, n + snd ?u)" by (simp add: write_attribute_def split_beta Let_def)
  have ok: "records_ok ?rt" using Cons.prems by (simp add: records_ok_def upsert_ok)
  have m: "map_of (rt_attrs ?rt) = (map_of (rt_attrs rt))((eid, fst kv) \<mapsto> snd kv)"
    by (auto simp: upsert_map merge_attribute_def split: option.splits)
  have same: "?rt = rt \<and> snd ?u = 0" if "map_of (rt_attrs rt) (eid, fst kv) = Some (snd kv)"
    using that by (simp add: upsert_def merge_attribute_def)
  from Cons.IH [OF ok, of "n + snd ?u"] obtain rt' n' where
    rest: "fold (write_attribute eid) kvs (?rt, n + snd ?u) = (rt', n')" "records_ok rt'" "rt' = ?rt\<lparr>rt_attrs := rt_attrs rt'\<rparr>"
      "\<forall>i k. i \<noteq> eid \<longrightarrow> map_of (rt_attrs rt') (i, k) = map_of (rt_attrs ?rt) (i, k)"
      "distinct (map fst kvs) \<longrightarrow>
       (\<forall>k. map_of (rt_attrs rt') (eid, k) = (case map_of kvs k of None \<Rightarrow> map_of (rt_attrs ?rt) (eid, k) | Some v \<Rightarrow> Some v))"
      "(\<forall>kv\<in>set kvs. map_of (rt_attrs ?rt) (eid, fst kv) = Some (snd kv)) \<longrightarrow> rt' = ?rt \<and> n' = n + snd ?u" by blast
  have "fold (write_attribute eid) (kv # kvs) (rt, n) = (rt', n')" using one rest(1) by simp
  moreover have "rt' = rt\<lparr>rt_attrs := rt_attrs rt'\<rparr>"
    using rest(3) by (metis record_tables.ext_inject record_tables.surjective record_tables.update_convs(2))
  moreover have "\<forall>i k. i \<noteq> eid \<longrightarrow> map_of (rt_attrs rt') (i, k) = map_of (rt_attrs rt) (i, k)" using rest(4) m by simp
  moreover have "distinct (map fst (kv # kvs)) \<longrightarrow>
     (\<forall>k. map_of (rt_attrs rt') (eid, k) = (case map_of (kv # kvs) k of None \<Rightarrow> map_of (rt_attrs rt) (eid, k) | Some v \<Rightarrow> Some v))"
  proof (intro impI allI)
    fix k assume d: "distinct (map fst (kv # kvs))"
    then have none: "map_of kvs (fst kv) = None" by (simp add: map_of_eq_None_iff)
    from d rest(5) m show "map_of (rt_attrs rt') (eid, k) =
        (case map_of (kv # kvs) k of None \<Rightarrow> map_of (rt_attrs rt) (eid, k) | Some v \<Rightarrow> Some v)"
      by (cases "k = fst kv") (auto simp: none split: option.splits)
  qed
  moreover have "(\<forall>x\<in>set (kv # kvs). map_of (rt_attrs rt) (eid, fst x) = Some (snd x)) \<longrightarrow> rt' = rt \<and> n' = n"
  proof
    assume all: "\<forall>x\<in>set (kv # kvs). map_of (rt_attrs rt) (eid, fst x) = Some (snd x)"
    then have eq: "?rt = rt" "snd ?u = 0" using same by auto
    then have "\<forall>kv\<in>set kvs. map_of (rt_attrs ?rt) (eid, fst kv) = Some (snd kv)" using all by (simp only:) auto
    with rest(6) eq show "rt' = rt \<and> n' = n" by simp
  qed
  ultimately show ?case using rest(2) by blast
qed auto

lemma write_event_facts:
  assumes "records_ok rt"
  shows "\<exists>rt' n'. write_event e (rt, n) = (rt', n') \<and> records_ok rt' \<and>
    rt_errors rt' = rt_errors rt \<and> rt_snapshots rt' = rt_snapshots rt \<and>
    map_of (rt_events rt') = (map_of (rt_events rt))(event_id_of e \<mapsto>
      (case map_of (rt_events rt) (event_id_of e) of None \<Rightarrow> stored_of e | Some old \<Rightarrow> merge_event old (stored_of e))) \<and>
    (\<forall>i k. i \<noteq> event_id_of e \<longrightarrow> map_of (rt_attrs rt') (i, k) = map_of (rt_attrs rt) (i, k)) \<and>
    (distinct (map fst (vr_attrs e)) \<longrightarrow>
       (\<forall>k. map_of (rt_attrs rt') (event_id_of e, k) =
          (case map_of (vr_attrs e) k of None \<Rightarrow> map_of (rt_attrs rt) (event_id_of e, k) | Some v \<Rightarrow> Some v))) \<and>
    ((\<exists>old. map_of (rt_events rt) (event_id_of e) = Some old \<and> merge_event old (stored_of e) = old) \<and>
     (\<forall>kv\<in>set (vr_attrs e). map_of (rt_attrs rt) (event_id_of e, fst kv) = Some (snd kv)) \<longrightarrow> rt' = rt \<and> n' = n)"
proof -
  let ?u = "upsert merge_event (event_id_of e) (stored_of e) (rt_events rt)"
  let ?rt = "rt\<lparr>rt_events := fst ?u\<rparr>"
  have ok: "records_ok ?rt" using assms by (simp add: records_ok_def upsert_ok)
  have one: "write_event e (rt, n) = fold (write_attribute (event_id_of e)) (vr_attrs e) (?rt, n + snd ?u)"
    by (simp add: write_event_def split_beta Let_def)
  have same: "?rt = rt \<and> snd ?u = 0" if "map_of (rt_events rt) (event_id_of e) = Some old" "merge_event old (stored_of e) = old" for old
    using that by (simp add: upsert_def)
  from attribute_facts [OF ok, of "event_id_of e" "vr_attrs e" "n + snd ?u"] obtain rt' n' where
    rest: "fold (write_attribute (event_id_of e)) (vr_attrs e) (?rt, n + snd ?u) = (rt', n')" "records_ok rt'"
      "rt' = ?rt\<lparr>rt_attrs := rt_attrs rt'\<rparr>"
      "\<forall>i k. i \<noteq> event_id_of e \<longrightarrow> map_of (rt_attrs rt') (i, k) = map_of (rt_attrs ?rt) (i, k)"
      "distinct (map fst (vr_attrs e)) \<longrightarrow>
       (\<forall>k. map_of (rt_attrs rt') (event_id_of e, k) =
          (case map_of (vr_attrs e) k of None \<Rightarrow> map_of (rt_attrs ?rt) (event_id_of e, k) | Some v \<Rightarrow> Some v))"
      "(\<forall>kv\<in>set (vr_attrs e). map_of (rt_attrs ?rt) (event_id_of e, fst kv) = Some (snd kv)) \<longrightarrow> rt' = ?rt \<and> n' = n + snd ?u"
    by blast
  have "rt_events rt' = fst ?u" "rt_errors rt' = rt_errors rt" "rt_snapshots rt' = rt_snapshots rt"
    by (subst rest(3), simp)+
  moreover have "rt' = rt \<and> n' = n"
    if all: "\<exists>old. map_of (rt_events rt) (event_id_of e) = Some old \<and> merge_event old (stored_of e) = old"
      "\<forall>kv\<in>set (vr_attrs e). map_of (rt_attrs rt) (event_id_of e, fst kv) = Some (snd kv)"
  proof -
    have "?rt = rt" "snd ?u = 0" using same all(1) by auto
    with rest(6) all(2) show ?thesis by simp
  qed
  moreover have "rt_attrs ?rt = rt_attrs rt" by simp
  note attrs = rest(4,5) [unfolded this]
  moreover have "write_event e (rt, n) = (rt', n')" using one rest(1) by simp
  moreover have "map_of (rt_events rt') = (map_of (rt_events rt))(event_id_of e \<mapsto>
      (case map_of (rt_events rt) (event_id_of e) of None \<Rightarrow> stored_of e | Some old \<Rightarrow> merge_event old (stored_of e)))"
    using calculation(1) by (simp add: upsert_map)
  ultimately show ?thesis using rest(2) by blast
qed

definition consistent_places :: "event_row list \<Rightarrow> bool" where
  "consistent_places es \<longleftrightarrow>
     (\<forall>e\<in>set es. \<forall>f\<in>set es. event_id_of e = event_id_of f \<longrightarrow> (vr_key e, vr_seq e) = (vr_key f, vr_seq f))"

definition keeps_places :: "record_tables \<Rightarrow> event_row list \<Rightarrow> bool" where
  "keeps_places rt es \<longleftrightarrow>
     (\<forall>e\<in>set es. \<forall>old. map_of (rt_events rt) (event_id_of e) = Some old \<longrightarrow> place old = (vr_key e, vr_seq e))"

lemma place_merge: "place old = (vr_key e, vr_seq e) \<Longrightarrow> place (merge_event old (stored_of e)) = (vr_key e, vr_seq e)"
  by (auto simp: place_def merge_event_def stored_of_def keep_if_empty_def)

lemma place_stored [simp]: "place (stored_of e) = (vr_key e, vr_seq e)"
  by (simp add: place_def stored_of_def)

lemma write_events_places:
  assumes "records_ok rt" "keeps_places rt es" "consistent_places es" "set fs \<subseteq> set es" "fold write_event fs (rt, n) = (rt', n')"
  shows "records_ok rt' \<and> keeps_places rt' es \<and> rt_errors rt' = rt_errors rt \<and> rt_snapshots rt' = rt_snapshots rt \<and>
    (\<forall>i. event_differs rt rt' i \<longrightarrow> i \<in> event_id_of ` set fs)"
  using assms
proof (induction fs arbitrary: rt n)
  case (Cons f fs)
  from write_event_facts [OF Cons.prems(1), of f n] obtain rt1 n1 where
    one: "write_event f (rt, n) = (rt1, n1)" "records_ok rt1" "rt_errors rt1 = rt_errors rt" "rt_snapshots rt1 = rt_snapshots rt"
      "map_of (rt_events rt1) = (map_of (rt_events rt))(event_id_of f \<mapsto>
        (case map_of (rt_events rt) (event_id_of f) of None \<Rightarrow> stored_of f | Some old \<Rightarrow> merge_event old (stored_of f)))"
      "\<forall>i k. i \<noteq> event_id_of f \<longrightarrow> map_of (rt_attrs rt1) (i, k) = map_of (rt_attrs rt) (i, k)" by blast
  have f: "f \<in> set es" using Cons.prems(4) by simp
  have keeps: "keeps_places rt1 es"
    unfolding keeps_places_def
  proof (intro ballI allI impI)
    fix e old assume e: "e \<in> set es" and old: "map_of (rt_events rt1) (event_id_of e) = Some old"
    show "place old = (vr_key e, vr_seq e)"
    proof (cases "event_id_of e = event_id_of f")
      case True
      then have same: "(vr_key e, vr_seq e) = (vr_key f, vr_seq f)" using Cons.prems(3) e f unfolding consistent_places_def by blast
      show ?thesis
      proof (cases "map_of (rt_events rt) (event_id_of f)")
        case None
        then have "old = stored_of f" using old one(5) True by simp
        then show ?thesis using same by simp
      next
        case (Some prev)
        then have "place prev = (vr_key f, vr_seq f)" using Cons.prems(2) f unfolding keeps_places_def by blast
        from place_merge [OF this] Some old one(5) True same show ?thesis by simp
      qed
    next
      case False
      then have "map_of (rt_events rt) (event_id_of e) = Some old" using old one(5) by simp
      then show ?thesis using Cons.prems(2) e unfolding keeps_places_def by blast
    qed
  qed
  from Cons.IH [OF one(2) keeps Cons.prems(3)] Cons.prems(4,5) one(1)
  have rest: "records_ok rt' \<and> keeps_places rt' es \<and> rt_errors rt' = rt_errors rt1 \<and> rt_snapshots rt' = rt_snapshots rt1 \<and>
    (\<forall>i. event_differs rt1 rt' i \<longrightarrow> i \<in> event_id_of ` set fs)" by simp
  have "i \<in> event_id_of ` set (f # fs)" if "event_differs rt rt' i" for i
  proof (cases "i = event_id_of f")
    case False
    then have "event_differs rt rt' i = event_differs rt1 rt' i" using one(5,6) by (simp add: event_differs_def)
    with that rest show ?thesis by simp
  qed simp
  with rest one(3,4) show ?case by simp
qed (auto simp: event_differs_def)

end
