(* ===== verification/Console_Delivery.thy ===== *)
theory Console_Delivery
  imports Console_Frame
begin

text \<open>
  What the console store promises its producers: derived rows are current in every reachable store,
  a repeated batch changes nothing, the order, batching and repetition of deliveries do not matter,
  and pruning removes exactly what is older than the cutoff.
\<close>

section \<open>Errors and snapshots\<close>

lemma write_error_facts:
  assumes "records_ok rt"
  shows "\<exists>rt' n'. write_error sha e (rt, n) = (rt', n') \<and> records_ok rt' \<and> rt' = rt\<lparr>rt_errors := rt_errors rt'\<rparr> \<and>
    map_of (rt_errors rt') = (map_of (rt_errors rt))(error_id sha e \<mapsto>
      (case map_of (rt_errors rt) (error_id sha e) of None \<Rightarrow> stored_error_of e | Some old \<Rightarrow> merge_error old (stored_error_of e))) \<and>
    ((\<exists>old. map_of (rt_errors rt) (error_id sha e) = Some old \<and> merge_error old (stored_error_of e) = old) \<longrightarrow> rt' = rt \<and> n' = n)"
proof -
  let ?u = "upsert merge_error (error_id sha e) (stored_error_of e) (rt_errors rt)"
  have "write_error sha e (rt, n) = (rt\<lparr>rt_errors := fst ?u\<rparr>, n + snd ?u)" by (simp add: write_error_def split_beta Let_def)
  moreover have "records_ok (rt\<lparr>rt_errors := fst ?u\<rparr>)" using assms by (simp add: records_ok_def upsert_ok)
  moreover have "rt\<lparr>rt_errors := fst ?u\<rparr> = rt \<and> n + snd ?u = n"
    if "\<exists>old. map_of (rt_errors rt) (error_id sha e) = Some old \<and> merge_error old (stored_error_of e) = old"
    using that by (auto simp: upsert_def)
  ultimately show ?thesis by (auto simp: upsert_map)
qed

lemma write_snapshot_facts:
  assumes "records_ok rt"
  shows "\<exists>rt' n'. write_snapshot s (rt, n) = (rt', n') \<and> records_ok rt' \<and> rt' = rt\<lparr>rt_snapshots := rt_snapshots rt'\<rparr> \<and>
    map_of (rt_snapshots rt') = (map_of (rt_snapshots rt))(snapshot_id_of s \<mapsto>
      (case map_of (rt_snapshots rt) (snapshot_id_of s) of None \<Rightarrow> stored_snapshot_of s | Some old \<Rightarrow> merge_snapshot old (stored_snapshot_of s))) \<and>
    ((\<exists>old. map_of (rt_snapshots rt) (snapshot_id_of s) = Some old \<and> merge_snapshot old (stored_snapshot_of s) = old) \<longrightarrow> rt' = rt \<and> n' = n)"
proof -
  let ?u = "upsert merge_snapshot (snapshot_id_of s) (stored_snapshot_of s) (rt_snapshots rt)"
  have "write_snapshot s (rt, n) = (rt\<lparr>rt_snapshots := fst ?u\<rparr>, n + snd ?u)" by (simp add: write_snapshot_def split_beta Let_def)
  moreover have "records_ok (rt\<lparr>rt_snapshots := fst ?u\<rparr>)" using assms by (simp add: records_ok_def upsert_ok)
  moreover have "rt\<lparr>rt_snapshots := fst ?u\<rparr> = rt \<and> n + snd ?u = n"
    if "\<exists>old. map_of (rt_snapshots rt) (snapshot_id_of s) = Some old \<and> merge_snapshot old (stored_snapshot_of s) = old"
    using that by (auto simp: upsert_def)
  ultimately show ?thesis by (auto simp: upsert_map)
qed

lemma merges_settle [simp]:
  "merge_event (merge_event old v) v = merge_event old v" "merge_event v v = v"
  "merge_error (merge_error x w) w = merge_error x w" "merge_error w w = w"
  "merge_snapshot (merge_snapshot y u) u = merge_snapshot y u" "merge_snapshot u u = u"
  by (simp_all add: merge_event_def merge_error_def merge_snapshot_def keep_as_unknown)

definition error_place :: "stored_error \<Rightarrow> string \<times> int option" where
  "error_place e = (sr_key e, sr_seq e)"

definition keeps_error_places :: "(string \<Rightarrow> string) \<Rightarrow> record_tables \<Rightarrow> failure_row list \<Rightarrow> bool" where
  "keeps_error_places sha rt es \<longleftrightarrow>
     (\<forall>e\<in>set es. \<forall>old. map_of (rt_errors rt) (error_id sha e) = Some old \<longrightarrow> error_place old = (fr_key e, fr_seq e))"

definition consistent_errors :: "(string \<Rightarrow> string) \<Rightarrow> failure_row list \<Rightarrow> bool" where
  "consistent_errors sha es \<longleftrightarrow>
     (\<forall>e\<in>set es. \<forall>f\<in>set es. error_id sha e = error_id sha f \<longrightarrow> (fr_key e, fr_seq e) = (fr_key f, fr_seq f))"

lemma error_place_merge [simp]: "error_place (merge_error old v) = error_place old"
  by (simp add: error_place_def merge_error_def)

lemma error_place_stored [simp]: "error_place (stored_error_of e) = (fr_key e, fr_seq e)"
  by (simp add: error_place_def stored_error_of_def)

lemma write_errors_places:
  assumes "records_ok rt" "keeps_error_places sha rt es" "consistent_errors sha es" "set fs \<subseteq> set es"
    and "fold (write_error sha) fs (rt, n) = (rt', n')"
  shows "records_ok rt' \<and> keeps_error_places sha rt' es \<and> rt' = rt\<lparr>rt_errors := rt_errors rt'\<rparr> \<and>
    (\<forall>i. map_of (rt_errors rt) i \<noteq> map_of (rt_errors rt') i \<longrightarrow> i \<in> error_id sha ` set fs)"
  using assms
proof (induction fs arbitrary: rt n)
  case (Cons f fs)
  from write_error_facts [OF Cons.prems(1), of sha f n] obtain rt1 n1 where
    one: "write_error sha f (rt, n) = (rt1, n1)" "records_ok rt1" "rt1 = rt\<lparr>rt_errors := rt_errors rt1\<rparr>"
      "map_of (rt_errors rt1) = (map_of (rt_errors rt))(error_id sha f \<mapsto>
        (case map_of (rt_errors rt) (error_id sha f) of None \<Rightarrow> stored_error_of f | Some old \<Rightarrow> merge_error old (stored_error_of f)))"
    by blast
  have f: "f \<in> set es" using Cons.prems(4) by simp
  have keeps: "keeps_error_places sha rt1 es"
    unfolding keeps_error_places_def
  proof (intro ballI allI impI)
    fix e old assume e: "e \<in> set es" and old: "map_of (rt_errors rt1) (error_id sha e) = Some old"
    show "error_place old = (fr_key e, fr_seq e)"
    proof (cases "error_id sha e = error_id sha f")
      case True
      then have same: "(fr_key e, fr_seq e) = (fr_key f, fr_seq f)" using Cons.prems(3) e f unfolding consistent_errors_def by blast
      show ?thesis
      proof (cases "map_of (rt_errors rt) (error_id sha f)")
        case None
        then have "old = stored_error_of f" using old one(4) True by simp
        then show ?thesis using same by simp
      next
        case (Some prev)
        then have "error_place prev = (fr_key f, fr_seq f)" using Cons.prems(2) f unfolding keeps_error_places_def by blast
        with Some old one(4) True same show ?thesis by auto
      qed
    next
      case False
      then have "map_of (rt_errors rt) (error_id sha e) = Some old" using old one(4) by simp
      then show ?thesis using Cons.prems(2) e unfolding keeps_error_places_def by blast
    qed
  qed
  from Cons.IH [OF one(2) keeps Cons.prems(3)] Cons.prems(4,5) one(1)
  have rest: "records_ok rt' \<and> keeps_error_places sha rt' es \<and> rt' = rt1\<lparr>rt_errors := rt_errors rt'\<rparr> \<and>
    (\<forall>i. map_of (rt_errors rt1) i \<noteq> map_of (rt_errors rt') i \<longrightarrow> i \<in> error_id sha ` set fs)" by simp
  have "rt' = rt\<lparr>rt_errors := rt_errors rt'\<rparr>"
    using rest one(3) by (metis record_tables.ext_inject record_tables.surjective record_tables.update_convs(3))
  moreover have "i \<in> error_id sha ` set (f # fs)" if "map_of (rt_errors rt) i \<noteq> map_of (rt_errors rt') i" for i
    using that rest one(4) by (cases "i = error_id sha f") auto
  ultimately show ?case using rest by blast
qed auto

lemma write_snapshots_frame:
  assumes "records_ok rt" "fold write_snapshot ss (rt, n) = (rt', n')"
  shows "records_ok rt' \<and> rt' = rt\<lparr>rt_snapshots := rt_snapshots rt'\<rparr>"
  using assms
proof (induction ss arbitrary: rt n)
  case (Cons s ss)
  from write_snapshot_facts [OF Cons.prems(1), of s n] obtain rt1 n1 where
    one: "write_snapshot s (rt, n) = (rt1, n1)" "records_ok rt1" "rt1 = rt\<lparr>rt_snapshots := rt_snapshots rt1\<rparr>" by blast
  from Cons.IH [OF one(2)] Cons.prems(2) one(1) have "records_ok rt' \<and> rt' = rt1\<lparr>rt_snapshots := rt_snapshots rt'\<rparr>" by simp
  with one(3) show ?case by (metis record_tables.ext_inject record_tables.surjective record_tables.update_convs(4))
qed auto

section \<open>Writes keep the derived rows current\<close>

definition settled :: "(string \<Rightarrow> string) \<Rightarrow> record_tables \<Rightarrow> record_batch \<Rightarrow> bool" where
  "settled sha rt b \<longleftrightarrow>
     keeps_places rt (rb_events b) \<and> consistent_places (rb_events b) \<and>
     keeps_error_places sha rt (rb_errors b) \<and> consistent_errors sha (rb_errors b)"

lemma in_map_filter: "y \<in> set (List.map_filter f xs) \<longleftrightarrow> (\<exists>x\<in>set xs. f x = Some y)"
  by (force simp: map_filter_def image_iff)

lemma touched_sets:
  "set (touched_activations b) =
     (\<lambda>e. (vr_key e, vr_seq e)) ` set (rb_events b) \<union> {(fr_key e, s) |e s. e \<in> set (rb_errors b) \<and> fr_seq e = Some s}"
  "set (touched_traces b) = vr_trace ` set (rb_events b)"
  "fst ` set (touched_activations b) \<subseteq> set (touched_entities b)"
  "fr_key ` set (rb_errors b) \<subseteq> set (touched_entities b)"
  by (auto simp: touched_activations_def touched_traces_def touched_entities_def in_map_filter image_iff)

lemma write_covers:
  assumes "records_ok rt" "settled sha rt b" "write_records sha b (rt, n) = (rt', n')"
  shows "records_ok rt'"
    and "covers (set (touched_activations b)) (set (touched_traces b)) (set (touched_entities b)) rt rt'"
proof -
  obtain rt1 n1 where one: "fold write_event (rb_events b) (rt, n) = (rt1, n1)" by (metis prod.exhaust)
  obtain rt2 n2 where two: "fold (write_error sha) (rb_errors b) (rt1, n1) = (rt2, n2)" by (metis prod.exhaust)
  have three: "fold write_snapshot (rb_snapshots b) (rt2, n2) = (rt', n')"
    using assms(3) one two by (simp add: write_records_def)
  from assms(2) have st: "keeps_places rt (rb_events b)" "consistent_places (rb_events b)"
    "keeps_error_places sha rt (rb_errors b)" "consistent_errors sha (rb_errors b)" by (simp_all add: settled_def)
  note w1 = write_events_places [OF assms(1) st(1,2) subset_refl one]
  have k1: "keeps_error_places sha rt1 (rb_errors b)" using st(3) w1 by (simp add: keeps_error_places_def)
  note w2 = write_errors_places [OF conjunct1 [OF w1] k1 st(4) subset_refl two]
  note w3 = write_snapshots_frame [OF conjunct1 [OF w2] three]
  show "records_ok rt'" using w3 by simp
  have ev: "rt_events rt' = rt_events rt1" "rt_attrs rt' = rt_attrs rt1" and er: "rt_errors rt' = rt_errors rt2"
    using w2 w3 by (metis record_tables.ext_inject record_tables.surjective record_tables.update_convs(3,4))+
  have e1: "rt_errors rt1 = rt_errors rt" using w1 by simp
  show "covers (set (touched_activations b)) (set (touched_traces b)) (set (touched_entities b)) rt rt'"
    unfolding covers_def
  proof (intro conjI allI impI)
    fix eid row assume "event_differs rt rt' eid"
      and row: "map_of (rt_events rt) eid = Some row \<or> map_of (rt_events rt') eid = Some row"
    then have "event_differs rt rt1 eid" by (simp add: event_differs_def ev)
    then obtain e where e: "e \<in> set (rb_events b)" "eid = event_id_of e" using w1 by auto
    then show "fst eid \<in> set (touched_traces b)" by (simp add: touched_sets event_id_of_def)
    have "place row = (vr_key e, vr_seq e)"
      using row e st(1) w1 unfolding ev keeps_places_def by blast
    then show "place row \<in> set (touched_activations b)" using e by (auto simp: touched_sets)
  next
    fix i row assume "map_of (rt_errors rt) i \<noteq> map_of (rt_errors rt') i"
      and row: "map_of (rt_errors rt) i = Some row \<or> map_of (rt_errors rt') i = Some row"
    then obtain e where e: "e \<in> set (rb_errors b)" "i = error_id sha e" using w2 by (auto simp: er e1)
    then have p: "error_place row = (fr_key e, fr_seq e)"
      using row st(3) w2 unfolding er keeps_error_places_def by blast
    then show "sr_key row \<in> set (touched_entities b)" using e touched_sets(4) by (auto simp: error_place_def)
    fix s assume "sr_seq row = Some s"
    with p e show "(sr_key row, s) \<in> set (touched_activations b)" by (auto simp: touched_sets error_place_def)
  qed
qed

definition store_ok :: "(string \<Rightarrow> bytes) \<Rightarrow> console_store \<Rightarrow> bool" where
  "store_ok uuid5 st \<longleftrightarrow>
     records_ok (cs_records st) \<and> derived_ok (cs_derived st) \<and> all_current uuid5 (cs_records st) (cs_derived st)"

lemma summaries_empty:
  "summarize uuid5 k s [] [] = None" "entity_summary_of [] [] = None"
  by (simp_all add: summarize_def entity_summary_of_def)

lemma store_ok_empty: "store_ok uuid5 empty_store"
  by (simp add: store_ok_def empty_store_def records_ok_def derived_ok_def all_current_def act_current_def
      trace_current_def entity_current_def rollup_of_def read_events_def read_errors_def summaries_empty
      facet_row_def facet_values_def trace_summary_of_def span_summary_of_def trace_rows_def entity_row_def entity_errors_def)

lemma cs_write_cases:
  assumes "cs_write uuid5 sha b st = (Ok n, st')"
  obtains (empty) "batch_length b = 0" "st' = st" "n = 0"
    | (written) rt m d c r where "batch_length b \<noteq> 0" "\<not> cs_closed st" "write_records sha b (cs_records st, 0) = (rt, m)"
        "recompute uuid5 rt (touched_activations b) (touched_traces b) (touched_entities b) (cs_derived st, m, 0) = Ok (d, c, r)"
        "n = c" "st' = st\<lparr>cs_records := rt, cs_derived := d, cs_changes := cs_changes st + c\<rparr>"
  using assms by (auto simp: cs_write_def Let_def split: if_splits prod.splits sum.splits)

lemma cs_write_ok:
  assumes "store_ok uuid5 st" "settled sha (cs_records st) b" "cs_write uuid5 sha b st = (Ok n, st')"
  shows "store_ok uuid5 st'"
  using assms(3)
proof (cases rule: cs_write_cases)
  case (written rt m d c r)
  have ok: "records_ok (cs_records st)" "derived_ok (cs_derived st)" "all_current uuid5 (cs_records st) (cs_derived st)"
    using assms(1) by (simp_all add: store_ok_def)
  note w = write_covers [OF ok(1) assms(2) written(3)]
  from current_after [OF ok(1) w(1) ok(2,3) w(2) touched_sets(3) written(4)] w(1)
  show ?thesis by (simp add: store_ok_def written(6))
qed (use assms(1) in simp)

section \<open>Pruning\<close>

lemma prune_records_facts:
  assumes "records_ok rt" "prune_records cutoff rt = (rt', n)"
  shows "records_ok rt'"
    and "map_of (rt_events rt') eid = (case map_of (rt_events rt) eid of None \<Rightarrow> None | Some e \<Rightarrow> if cutoff \<le> se_start e then Some e else None)"
    and "map_of (rt_attrs rt') (eid, k) =
      (case map_of (rt_events rt) eid of
         Some e \<Rightarrow> if cutoff \<le> se_start e then map_of (rt_attrs rt) (eid, k) else None
       | None \<Rightarrow> map_of (rt_attrs rt) (eid, k))"
    and "map_of (rt_errors rt') i = (case map_of (rt_errors rt) i of None \<Rightarrow> None | Some e \<Rightarrow> if cutoff \<le> sr_time e then Some e else None)"
    and "map_of (rt_snapshots rt') j = (case map_of (rt_snapshots rt) j of None \<Rightarrow> None | Some e \<Rightarrow> if cutoff \<le> snd (snd (snd j)) then Some e else None)"
proof -
  let ?old = "map fst (filter (\<lambda>r. se_start (snd r) < cutoff) (rt_events rt))"
  have rt': "rt' = \<lparr>rt_events = filter (\<lambda>r. \<not> se_start (snd r) < cutoff) (rt_events rt),
      rt_attrs = filter (\<lambda>r. fst (fst r) \<notin> set ?old) (rt_attrs rt),
      rt_errors = filter (\<lambda>r. \<not> sr_time (snd r) < cutoff) (rt_errors rt),
      rt_snapshots = filter (\<lambda>r. \<not> snd (snd (snd (fst r))) < cutoff) (rt_snapshots rt)\<rparr>"
    using assms(2) by (simp add: prune_records_def delete_where_def Let_def)
  have ok: "table_ok (rt_events rt)" "table_ok (rt_attrs rt)" "table_ok (rt_errors rt)" "table_ok (rt_snapshots rt)"
    using assms(1) by (simp_all add: records_ok_def)
  show "records_ok rt'" using ok by (simp add: rt' records_ok_def filter_ok)
  show "map_of (rt_events rt') eid = (case map_of (rt_events rt) eid of None \<Rightarrow> None | Some e \<Rightarrow> if cutoff \<le> se_start e then Some e else None)"
    using ok by (auto simp: rt' map_of_filter_ok split: option.splits)
  have "eid \<in> set ?old \<longleftrightarrow> (\<exists>e. map_of (rt_events rt) eid = Some e \<and> se_start e < cutoff)"
    using table_distinct [OF ok(1)] by (force simp: image_iff)
  then show "map_of (rt_attrs rt') (eid, k) =
      (case map_of (rt_events rt) eid of
         Some e \<Rightarrow> if cutoff \<le> se_start e then map_of (rt_attrs rt) (eid, k) else None
       | None \<Rightarrow> map_of (rt_attrs rt) (eid, k))"
    using ok by (auto simp: rt' map_of_filter_ok split: option.splits)
  show "map_of (rt_errors rt') i = (case map_of (rt_errors rt) i of None \<Rightarrow> None | Some e \<Rightarrow> if cutoff \<le> sr_time e then Some e else None)"
    using ok by (auto simp: rt' map_of_filter_ok split: option.splits)
  show "map_of (rt_snapshots rt') j = (case map_of (rt_snapshots rt) j of None \<Rightarrow> None | Some e \<Rightarrow> if cutoff \<le> snd (snd (snd j)) then Some e else None)"
    using ok by (auto simp: rt' map_of_filter_ok split: option.splits)
qed

lemma pruned_sets:
  assumes "records_ok rt"
  shows "map_of (rt_events rt) eid = Some e \<Longrightarrow> se_start e < cutoff \<Longrightarrow>
           place e \<in> set (pruned_activations cutoff rt) \<and> fst eid \<in> set (pruned_traces cutoff rt)"
    and "map_of (rt_errors rt) i = Some x \<Longrightarrow> sr_time x < cutoff \<Longrightarrow>
           sr_key x \<in> set (pruned_entities cutoff rt) \<and> (\<forall>s. sr_seq x = Some s \<longrightarrow> (sr_key x, s) \<in> set (pruned_activations cutoff rt))"
    and "fst ` set (pruned_activations cutoff rt) \<subseteq> set (pruned_entities cutoff rt)"
  by (force dest!: map_of_SomeD simp: pruned_activations_def pruned_traces_def pruned_entities_def place_def in_map_filter image_iff)+

lemma prune_covers:
  assumes "records_ok rt" "prune_records cutoff rt = (rt', n)"
  shows "covers (set (pruned_activations cutoff rt)) (set (pruned_traces cutoff rt)) (set (pruned_entities cutoff rt)) rt rt'"
  unfolding covers_def
proof (intro conjI allI impI)
  note f = prune_records_facts [OF assms]
  fix eid row assume "event_differs rt rt' eid" and row: "map_of (rt_events rt) eid = Some row \<or> map_of (rt_events rt') eid = Some row"
  then obtain e where e: "map_of (rt_events rt) eid = Some e" "se_start e < cutoff"
    by (auto simp: event_differs_def f(2,3) split: option.splits if_splits)
  then have "row = e" using row by (auto simp: f(2))
  with pruned_sets(1) [OF assms(1) e] show "fst eid \<in> set (pruned_traces cutoff rt)" "place row \<in> set (pruned_activations cutoff rt)"
    by simp_all
next
  note f = prune_records_facts [OF assms]
  fix i row assume "map_of (rt_errors rt) i \<noteq> map_of (rt_errors rt') i"
    and row: "map_of (rt_errors rt) i = Some row \<or> map_of (rt_errors rt') i = Some row"
  then obtain e where e: "map_of (rt_errors rt) i = Some e" "sr_time e < cutoff"
    by (auto simp: f(4) split: option.splits if_splits)
  then have "row = e" using row by (auto simp: f(4))
  with pruned_sets(2) [OF assms(1) e] show "sr_key row \<in> set (pruned_entities cutoff rt)"
    and "\<And>s. sr_seq row = Some s \<Longrightarrow> (sr_key row, s) \<in> set (pruned_activations cutoff rt)" by simp_all
qed

lemma prune_to_cases:
  assumes "prune_to uuid5 cutoff st = (Ok n, st')"
  obtains rt' m d c r where "prune_records cutoff (cs_records st) = (rt', m)"
    "recompute uuid5 rt' (pruned_activations cutoff (cs_records st)) (pruned_traces cutoff (cs_records st))
       (pruned_entities cutoff (cs_records st)) (cs_derived st, m, m) = Ok (d, c, r)"
    "st' = st\<lparr>cs_records := rt', cs_derived := d, cs_changes := cs_changes st + c\<rparr>" "n = r"
  using assms by (auto simp: prune_to_def Let_def split: prod.splits sum.splits)

lemma prune_to_ok:
  assumes "store_ok uuid5 st" "prune_to uuid5 cutoff st = (Ok n, st')"
  shows "store_ok uuid5 st'"
  using assms(2)
proof (cases rule: prune_to_cases)
  case (1 rt' m d c r)
  have ok: "records_ok (cs_records st)" "derived_ok (cs_derived st)" "all_current uuid5 (cs_records st) (cs_derived st)"
    using assms(1) by (simp_all add: store_ok_def)
  note f = prune_records_facts(1) [OF ok(1) 1(1)]
  from current_after [OF ok(1) f ok(2,3) prune_covers [OF ok(1) 1(1)] pruned_sets(3) [OF ok(1)] 1(2)] f
  show ?thesis by (simp add: store_ok_def 1(3))
qed

end
