(* ===== verification/Console_Convergence.thy ===== *)
theory Console_Convergence
  imports Console_Delivery
begin

text \<open>
  At-least-once delivery into the console store: a batch written twice, the same records in other
  orders and batches, a copy that lost its identity, and a batch that is refused.
\<close>

section \<open>A batch written twice\<close>

definition event_settled :: "record_tables \<Rightarrow> event_row \<Rightarrow> bool" where
  "event_settled rt e \<longleftrightarrow>
     (\<exists>old. map_of (rt_events rt) (event_id_of e) = Some old \<and> merge_event old (stored_of e) = old) \<and>
     (\<forall>kv\<in>set (vr_attrs e). map_of (rt_attrs rt) (event_id_of e, fst kv) = Some (snd kv))"

lemma event_settled_frame:
  "\<not> event_differs rt rt' (event_id_of e) \<Longrightarrow> event_settled rt' e = event_settled rt e"
  by (simp add: event_differs_def event_settled_def)

lemma events_settle:
  assumes "records_ok rt" "distinct (map event_id_of es)" "\<forall>e\<in>set es. distinct (map fst (vr_attrs e))"
    and "fold write_event es (rt, n) = (rt', n')"
  shows "records_ok rt' \<and> rt_errors rt' = rt_errors rt \<and> rt_snapshots rt' = rt_snapshots rt \<and>
    (\<forall>i. event_differs rt rt' i \<longrightarrow> i \<in> event_id_of ` set es) \<and> (\<forall>e\<in>set es. event_settled rt' e)"
  using assms
proof (induction es arbitrary: rt n)
  case (Cons e es)
  from write_event_facts [OF Cons.prems(1), of e n] obtain rt1 n1 where
    one: "write_event e (rt, n) = (rt1, n1)" "records_ok rt1" "rt_errors rt1 = rt_errors rt" "rt_snapshots rt1 = rt_snapshots rt"
      "map_of (rt_events rt1) = (map_of (rt_events rt))(event_id_of e \<mapsto>
        (case map_of (rt_events rt) (event_id_of e) of None \<Rightarrow> stored_of e | Some old \<Rightarrow> merge_event old (stored_of e)))"
      "\<forall>i k. i \<noteq> event_id_of e \<longrightarrow> map_of (rt_attrs rt1) (i, k) = map_of (rt_attrs rt) (i, k)"
      "distinct (map fst (vr_attrs e)) \<longrightarrow>
       (\<forall>k. map_of (rt_attrs rt1) (event_id_of e, k) =
          (case map_of (vr_attrs e) k of None \<Rightarrow> map_of (rt_attrs rt) (event_id_of e, k) | Some v \<Rightarrow> Some v))" by blast
  have d: "distinct (map fst (vr_attrs e))" using Cons.prems(3) by simp
  have se: "event_settled rt1 e"
  proof -
    have "\<forall>kv\<in>set (vr_attrs e). map_of (rt_attrs rt1) (event_id_of e, fst kv) = Some (snd kv)"
    proof
      fix kv assume "kv \<in> set (vr_attrs e)"
      then have "map_of (vr_attrs e) (fst kv) = Some (snd kv)" using d by (metis map_of_is_SomeI prod.collapse)
      then show "map_of (rt_attrs rt1) (event_id_of e, fst kv) = Some (snd kv)" using one(7) d by (simp only: option.case)
    qed
    with one(5) show ?thesis by (auto simp: event_settled_def split: option.splits)
  qed
  have rest: "records_ok rt' \<and> rt_errors rt' = rt_errors rt1 \<and> rt_snapshots rt' = rt_snapshots rt1 \<and>
    (\<forall>i. event_differs rt1 rt' i \<longrightarrow> i \<in> event_id_of ` set es) \<and> (\<forall>e\<in>set es. event_settled rt' e)"
    by (rule Cons.IH [OF one(2)]) (use Cons.prems one(1) in auto)
  then have "\<not> event_differs rt1 rt' (event_id_of e)" using Cons.prems(2) by auto
  with se have "event_settled rt' e" by (simp add: event_settled_frame)
  moreover have "i \<in> event_id_of ` set (e # es)" if "event_differs rt rt' i" for i
  proof (cases "i = event_id_of e")
    case False
    then have "event_differs rt rt' i = event_differs rt1 rt' i" using one(5,6) by (simp add: event_differs_def)
    with that rest show ?thesis by simp
  qed simp
  ultimately show ?case using rest one(3,4) by simp
qed (auto simp: event_differs_def)

lemma events_again: "records_ok rt \<Longrightarrow> \<forall>e\<in>set es. event_settled rt e \<Longrightarrow> fold write_event es (rt, n) = (rt, n)"
proof (induction es)
  case (Cons e es)
  from write_event_facts [OF Cons.prems(1), of e n] Cons.prems(2) have "write_event e (rt, n) = (rt, n)"
    by (auto simp: event_settled_def)
  with Cons show ?case by simp
qed simp

lemma errors_settle:
  assumes "records_ok rt" "distinct (map (error_id sha) es)" "fold (write_error sha) es (rt, n) = (rt', n')"
  shows "records_ok rt' \<and> rt' = rt\<lparr>rt_errors := rt_errors rt'\<rparr> \<and>
    (\<forall>i. map_of (rt_errors rt) i \<noteq> map_of (rt_errors rt') i \<longrightarrow> i \<in> error_id sha ` set es) \<and>
    (\<forall>e\<in>set es. \<exists>old. map_of (rt_errors rt') (error_id sha e) = Some old \<and> merge_error old (stored_error_of e) = old)"
  using assms
proof (induction es arbitrary: rt n)
  case (Cons e es)
  from write_error_facts [OF Cons.prems(1), of sha e n] obtain rt1 n1 where
    one: "write_error sha e (rt, n) = (rt1, n1)" "records_ok rt1" "rt1 = rt\<lparr>rt_errors := rt_errors rt1\<rparr>"
      "map_of (rt_errors rt1) = (map_of (rt_errors rt))(error_id sha e \<mapsto>
        (case map_of (rt_errors rt) (error_id sha e) of None \<Rightarrow> stored_error_of e | Some old \<Rightarrow> merge_error old (stored_error_of e)))"
    by blast
  have rest: "records_ok rt' \<and> rt' = rt1\<lparr>rt_errors := rt_errors rt'\<rparr> \<and>
    (\<forall>i. map_of (rt_errors rt1) i \<noteq> map_of (rt_errors rt') i \<longrightarrow> i \<in> error_id sha ` set es) \<and>
    (\<forall>e\<in>set es. \<exists>old. map_of (rt_errors rt') (error_id sha e) = Some old \<and> merge_error old (stored_error_of e) = old)"
    by (rule Cons.IH [OF one(2)]) (use Cons.prems one(1) in auto)
  have "map_of (rt_errors rt') (error_id sha e) = map_of (rt_errors rt1) (error_id sha e)"
    using rest Cons.prems(2) by (metis distinct.simps(2) list.set_map list.simps(9))
  moreover have "rt' = rt\<lparr>rt_errors := rt_errors rt'\<rparr>"
    using rest one(3) by (metis record_tables.ext_inject record_tables.surjective record_tables.update_convs(3))
  moreover have "i \<in> error_id sha ` set (e # es)" if "map_of (rt_errors rt) i \<noteq> map_of (rt_errors rt') i" for i
    using that rest one(4) by (cases "i = error_id sha e") auto
  ultimately show ?case using rest one(4) by (auto split: option.splits)
qed auto

lemma errors_again:
  "\<lbrakk>records_ok rt; \<forall>e\<in>set es. \<exists>old. map_of (rt_errors rt) (error_id sha e) = Some old \<and> merge_error old (stored_error_of e) = old\<rbrakk>
   \<Longrightarrow> fold (write_error sha) es (rt, n) = (rt, n)"
proof (induction es)
  case (Cons e es)
  from write_error_facts [OF Cons.prems(1), of sha e n] Cons.prems(2) have "write_error sha e (rt, n) = (rt, n)" by auto
  with Cons show ?case by simp
qed simp

lemma snapshots_settle:
  assumes "records_ok rt" "distinct (map snapshot_id_of ss)" "fold write_snapshot ss (rt, n) = (rt', n')"
  shows "records_ok rt' \<and> rt' = rt\<lparr>rt_snapshots := rt_snapshots rt'\<rparr> \<and>
    (\<forall>i. map_of (rt_snapshots rt) i \<noteq> map_of (rt_snapshots rt') i \<longrightarrow> i \<in> snapshot_id_of ` set ss) \<and>
    (\<forall>s\<in>set ss. \<exists>old. map_of (rt_snapshots rt') (snapshot_id_of s) = Some old \<and> merge_snapshot old (stored_snapshot_of s) = old)"
  using assms
proof (induction ss arbitrary: rt n)
  case (Cons s ss)
  from write_snapshot_facts [OF Cons.prems(1), of s n] obtain rt1 n1 where
    one: "write_snapshot s (rt, n) = (rt1, n1)" "records_ok rt1" "rt1 = rt\<lparr>rt_snapshots := rt_snapshots rt1\<rparr>"
      "map_of (rt_snapshots rt1) = (map_of (rt_snapshots rt))(snapshot_id_of s \<mapsto>
        (case map_of (rt_snapshots rt) (snapshot_id_of s) of None \<Rightarrow> stored_snapshot_of s | Some old \<Rightarrow> merge_snapshot old (stored_snapshot_of s)))"
    by blast
  have rest: "records_ok rt' \<and> rt' = rt1\<lparr>rt_snapshots := rt_snapshots rt'\<rparr> \<and>
    (\<forall>i. map_of (rt_snapshots rt1) i \<noteq> map_of (rt_snapshots rt') i \<longrightarrow> i \<in> snapshot_id_of ` set ss) \<and>
    (\<forall>s\<in>set ss. \<exists>old. map_of (rt_snapshots rt') (snapshot_id_of s) = Some old \<and> merge_snapshot old (stored_snapshot_of s) = old)"
    by (rule Cons.IH [OF one(2)]) (use Cons.prems one(1) in auto)
  have "map_of (rt_snapshots rt') (snapshot_id_of s) = map_of (rt_snapshots rt1) (snapshot_id_of s)"
    using rest Cons.prems(2) by (metis distinct.simps(2) list.set_map list.simps(9))
  moreover have "rt' = rt\<lparr>rt_snapshots := rt_snapshots rt'\<rparr>"
    using rest one(3) by (metis record_tables.ext_inject record_tables.surjective record_tables.update_convs(4))
  moreover have "i \<in> snapshot_id_of ` set (s # ss)" if "map_of (rt_snapshots rt) i \<noteq> map_of (rt_snapshots rt') i" for i
    using that rest one(4) by (cases "i = snapshot_id_of s") auto
  ultimately show ?case using rest one(4) by (auto split: option.splits)
qed auto

lemma snapshots_again:
  "\<lbrakk>records_ok rt; \<forall>s\<in>set ss. \<exists>old. map_of (rt_snapshots rt) (snapshot_id_of s) = Some old \<and> merge_snapshot old (stored_snapshot_of s) = old\<rbrakk>
   \<Longrightarrow> fold write_snapshot ss (rt, n) = (rt, n)"
proof (induction ss)
  case (Cons s ss)
  from write_snapshot_facts [OF Cons.prems(1), of s n] Cons.prems(2) have "write_snapshot s (rt, n) = (rt, n)" by auto
  with Cons show ?case by simp
qed simp

definition one_row_each :: "(string \<Rightarrow> string) \<Rightarrow> record_batch \<Rightarrow> bool" where
  "one_row_each sha b \<longleftrightarrow>
     distinct (map event_id_of (rb_events b)) \<and> (\<forall>e\<in>set (rb_events b). distinct (map fst (vr_attrs e))) \<and>
     distinct (map (error_id sha) (rb_errors b)) \<and> distinct (map snapshot_id_of (rb_snapshots b))"

lemma records_again:
  assumes "records_ok rt" "one_row_each sha b" "write_records sha b (rt, n) = (rt', n')"
  shows "write_records sha b (rt', m) = (rt', m)"
proof -
  obtain rt1 n1 where one: "fold write_event (rb_events b) (rt, n) = (rt1, n1)" by (metis prod.exhaust)
  obtain rt2 n2 where two: "fold (write_error sha) (rb_errors b) (rt1, n1) = (rt2, n2)" by (metis prod.exhaust)
  have three: "fold write_snapshot (rb_snapshots b) (rt2, n2) = (rt', n')"
    using assms(3) one two by (simp add: write_records_def)
  from assms(2) have d: "distinct (map event_id_of (rb_events b))" "\<forall>e\<in>set (rb_events b). distinct (map fst (vr_attrs e))"
    "distinct (map (error_id sha) (rb_errors b))" "distinct (map snapshot_id_of (rb_snapshots b))"
    by (simp_all add: one_row_each_def)
  note s1 = events_settle [OF assms(1) d(1,2) one]
  note s2 = errors_settle [OF conjunct1 [OF s1] d(3) two]
  note s3 = snapshots_settle [OF conjunct1 [OF s2] d(4) three]
  have same: "rt_events rt' = rt_events rt1" "rt_attrs rt' = rt_attrs rt1" "rt_errors rt' = rt_errors rt2"
    using s2 s3 by (metis record_tables.ext_inject record_tables.surjective record_tables.update_convs(3,4))+
  have ok: "records_ok rt'" using s3 by simp
  have "\<forall>e\<in>set (rb_events b). event_settled rt' e" using s1 same by (simp add: event_settled_def)
  moreover have "\<forall>e\<in>set (rb_errors b). \<exists>old. map_of (rt_errors rt') (error_id sha e) = Some old \<and> merge_error old (stored_error_of e) = old"
    using s2 same by simp
  ultimately show ?thesis
    using s3 ok by (simp add: write_records_def events_again errors_again snapshots_again)
qed

text \<open>
  A batch that was written changes nothing when it is written again, and its write reports zero
  changed rows: every record, every derived row and every count stay as they are.
\<close>

theorem rewrite_changes_nothing:
  assumes "store_ok uuid5 st" "one_row_each sha b" "cs_write uuid5 sha b st = (Ok n, st')"
  shows "cs_write uuid5 sha b st' = (Ok 0, st')"
  using assms(3)
proof (cases rule: cs_write_cases)
  case empty
  then show ?thesis by (simp add: cs_write_def)
next
  case (written rt m d c r)
  have ok: "records_ok (cs_records st)" "derived_ok (cs_derived st)" using assms(1) by (simp_all add: store_ok_def)
  note f = recompute_facts [OF ok(2) written(4) touched_sets(3)]
  have "write_records sha b (cs_records st', 0) = (rt, 0)"
    using records_again [OF ok(1) assms(2) written(3)] written(6) by simp
  moreover have "recompute uuid5 rt (touched_activations b) (touched_traces b) (touched_entities b) (d, 0, 0) = Ok (d, 0, 0)"
    by (rule recompute_fix [OF f(1-4)])
  ultimately show ?thesis using written(1,2,6) by (simp add: cs_write_def Let_def)
qed

section \<open>Order, batching and repetition\<close>

definition one_event :: "event_row set \<Rightarrow> bool" where
  "one_event ES \<longleftrightarrow>
     (\<forall>e\<in>ES. \<forall>f\<in>ES. event_id_of e = event_id_of f \<longrightarrow> e = f) \<and> (\<forall>e\<in>ES. distinct (map fst (vr_attrs e)))"

definition holds_events :: "record_tables \<Rightarrow> event_row set \<Rightarrow> bool" where
  "holds_events rt ES \<longleftrightarrow>
     (\<forall>i row. map_of (rt_events rt) i = Some row \<longleftrightarrow> (\<exists>e\<in>ES. event_id_of e = i \<and> row = stored_of e)) \<and>
     (\<forall>i k v. map_of (rt_attrs rt) (i, k) = Some v \<longleftrightarrow> (\<exists>e\<in>ES. event_id_of e = i \<and> map_of (vr_attrs e) k = Some v))"

lemma write_event_holds:
  assumes "records_ok rt" "one_event U" "insert e ES \<subseteq> U" "holds_events rt ES" "write_event e (rt, n) = (rt', n')"
  shows "records_ok rt' \<and> rt_errors rt' = rt_errors rt \<and> rt_snapshots rt' = rt_snapshots rt \<and> holds_events rt' (insert e ES)"
proof -
  from write_event_facts [OF assms(1), of e n] assms(5) have
    one: "records_ok rt'" "rt_errors rt' = rt_errors rt" "rt_snapshots rt' = rt_snapshots rt"
      "map_of (rt_events rt') = (map_of (rt_events rt))(event_id_of e \<mapsto>
        (case map_of (rt_events rt) (event_id_of e) of None \<Rightarrow> stored_of e | Some old \<Rightarrow> merge_event old (stored_of e)))"
      "\<forall>i k. i \<noteq> event_id_of e \<longrightarrow> map_of (rt_attrs rt') (i, k) = map_of (rt_attrs rt) (i, k)"
      "distinct (map fst (vr_attrs e)) \<longrightarrow>
       (\<forall>k. map_of (rt_attrs rt') (event_id_of e, k) =
          (case map_of (vr_attrs e) k of None \<Rightarrow> map_of (rt_attrs rt) (event_id_of e, k) | Some v \<Rightarrow> Some v))" by auto
  have uniq: "f = e" if "f \<in> insert e ES" "event_id_of f = event_id_of e" for f
    using that assms(2,3) unfolding one_event_def by blast
  have old: "old = stored_of e" if "map_of (rt_events rt) (event_id_of e) = Some old" for old
    using that assms(4) uniq unfolding holds_events_def by (metis insertI2)
  have row: "map_of (rt_events rt') = (map_of (rt_events rt))(event_id_of e \<mapsto> stored_of e)"
    using one(4) old by (auto split: option.splits)
  have d: "distinct (map fst (vr_attrs e))" using assms(2,3) by (simp add: one_event_def)
  have ev: "map_of (rt_events rt') i = Some r \<longleftrightarrow> (\<exists>f\<in>insert e ES. event_id_of f = i \<and> r = stored_of f)" for i r
  proof (cases "i = event_id_of e")
    case True
    then show ?thesis using row uniq by auto
  next
    case False
    then show ?thesis using row assms(4) unfolding holds_events_def by auto
  qed
  have at: "map_of (rt_attrs rt') (i, k) = Some v \<longleftrightarrow> (\<exists>f\<in>insert e ES. event_id_of f = i \<and> map_of (vr_attrs f) k = Some v)" for i k v
  proof (cases "i = event_id_of e")
    case True
    have here: "(\<exists>f\<in>insert e ES. event_id_of f = i \<and> map_of (vr_attrs f) k = Some v) \<longleftrightarrow> map_of (vr_attrs e) k = Some v"
      using True uniq by blast
    have stored: "map_of (rt_attrs rt) (event_id_of e, k) = Some v \<Longrightarrow> map_of (vr_attrs e) k = Some v"
      using assms(4) uniq unfolding holds_events_def by blast
    have "map_of (rt_attrs rt') (i, k) =
        (case map_of (vr_attrs e) k of None \<Rightarrow> map_of (rt_attrs rt) (event_id_of e, k) | Some v \<Rightarrow> Some v)"
      using True one(6) d by blast
    then show ?thesis unfolding here using stored by (cases "map_of (vr_attrs e) k") auto
  next
    case False
    then have "map_of (rt_attrs rt') (i, k) = map_of (rt_attrs rt) (i, k)" using one(5) by simp
    with False assms(4) show ?thesis unfolding holds_events_def by auto
  qed
  from one(1-3) ev at show ?thesis by (simp add: holds_events_def)
qed

lemma write_events_hold:
  assumes "records_ok rt" "one_event U" "set es \<union> ES \<subseteq> U" "holds_events rt ES" "fold write_event es (rt, n) = (rt', n')"
  shows "records_ok rt' \<and> rt_errors rt' = rt_errors rt \<and> rt_snapshots rt' = rt_snapshots rt \<and> holds_events rt' (set es \<union> ES)"
  using assms
proof (induction es arbitrary: rt n ES)
  case (Cons e es)
  obtain rt1 n1 where one: "write_event e (rt, n) = (rt1, n1)" by (metis prod.exhaust)
  have "insert e ES \<subseteq> U" using Cons.prems(3) by auto
  note h = write_event_holds [OF Cons.prems(1,2) this Cons.prems(4) one]
  have "records_ok rt' \<and> rt_errors rt' = rt_errors rt1 \<and> rt_snapshots rt' = rt_snapshots rt1 \<and> holds_events rt' (set es \<union> insert e ES)"
    by (rule Cons.IH [of rt1 "insert e ES" n1]) (use h Cons.prems one in auto)
  with h show ?case by simp
qed simp

definition one_keyed :: "('a \<Rightarrow> 'k) \<Rightarrow> 'a set \<Rightarrow> bool" where
  "one_keyed key S \<longleftrightarrow> (\<forall>x\<in>S. \<forall>y\<in>S. key x = key y \<longrightarrow> x = y)"

definition holds_rows :: "('a \<Rightarrow> 'k) \<Rightarrow> ('a \<Rightarrow> 'v) \<Rightarrow> ('k, 'v) table \<Rightarrow> 'a set \<Rightarrow> bool" where
  "holds_rows key row t S \<longleftrightarrow> (\<forall>i r. map_of t i = Some r \<longleftrightarrow> (\<exists>x\<in>S. key x = i \<and> r = row x))"

lemma holds_rows_insert:
  assumes "one_keyed key U" "insert x S \<subseteq> U" "holds_rows key row t S"
    and "map_of t' = (map_of t)(key x \<mapsto> (case map_of t (key x) of None \<Rightarrow> row x | Some old \<Rightarrow> merge old (row x)))"
    and "merge (row x) (row x) = row x"
  shows "holds_rows key row t' (insert x S)"
proof -
  have uniq: "y = x" if "y \<in> insert x S" "key y = key x" for y
    using that assms(1,2) unfolding one_keyed_def by blast
  have "old = row x" if "map_of t (key x) = Some old" for old
    using that assms(3) uniq unfolding holds_rows_def by (metis insertI2)
  then have t': "map_of t' = (map_of t)(key x \<mapsto> row x)"
    using assms(4,5) by (auto split: option.splits)
  show ?thesis
    unfolding holds_rows_def
  proof (intro allI)
    fix i r
    show "map_of t' i = Some r \<longleftrightarrow> (\<exists>y\<in>insert x S. key y = i \<and> r = row y)"
    proof (cases "i = key x")
      case True
      then show ?thesis using t' uniq by auto
    next
      case False
      then show ?thesis using t' assms(3) unfolding holds_rows_def by auto
    qed
  qed
qed

lemma write_errors_hold:
  assumes "records_ok rt" "one_keyed (error_id sha) U" "set es \<union> S \<subseteq> U"
    and "holds_rows (error_id sha) stored_error_of (rt_errors rt) S" "fold (write_error sha) es (rt, n) = (rt', n')"
  shows "records_ok rt' \<and> rt' = rt\<lparr>rt_errors := rt_errors rt'\<rparr> \<and>
    holds_rows (error_id sha) stored_error_of (rt_errors rt') (set es \<union> S)"
  using assms
proof (induction es arbitrary: rt n S)
  case (Cons e es)
  from write_error_facts [OF Cons.prems(1), of sha e n] obtain rt1 n1 where
    one: "write_error sha e (rt, n) = (rt1, n1)" "records_ok rt1" "rt1 = rt\<lparr>rt_errors := rt_errors rt1\<rparr>"
      "map_of (rt_errors rt1) = (map_of (rt_errors rt))(error_id sha e \<mapsto>
        (case map_of (rt_errors rt) (error_id sha e) of None \<Rightarrow> stored_error_of e | Some old \<Rightarrow> merge_error old (stored_error_of e)))"
    by blast
  have sub: "insert e S \<subseteq> U" using Cons.prems(3) by auto
  have "holds_rows (error_id sha) stored_error_of (rt_errors rt1) (insert e S)"
    by (rule holds_rows_insert [where key = "error_id sha" and row = stored_error_of and merge = merge_error and t = "rt_errors rt", OF Cons.prems(2) sub Cons.prems(4) one(4)]) simp
  then have "records_ok rt' \<and> rt' = rt1\<lparr>rt_errors := rt_errors rt'\<rparr> \<and>
      holds_rows (error_id sha) stored_error_of (rt_errors rt') (set es \<union> insert e S)"
    by (rule Cons.IH [rotated 3, of rt1 "insert e S" n1]) (use Cons.prems one(1,2) in auto)
  moreover from this have "rt' = rt\<lparr>rt_errors := rt_errors rt'\<rparr>"
    using one(3) by (metis record_tables.ext_inject record_tables.surjective record_tables.update_convs(3))
  ultimately show ?case by simp
qed simp

lemma write_snapshots_hold:
  assumes "records_ok rt" "one_keyed snapshot_id_of U" "set ss \<union> S \<subseteq> U"
    and "holds_rows snapshot_id_of stored_snapshot_of (rt_snapshots rt) S" "fold write_snapshot ss (rt, n) = (rt', n')"
  shows "records_ok rt' \<and> rt' = rt\<lparr>rt_snapshots := rt_snapshots rt'\<rparr> \<and>
    holds_rows snapshot_id_of stored_snapshot_of (rt_snapshots rt') (set ss \<union> S)"
  using assms
proof (induction ss arbitrary: rt n S)
  case (Cons s ss)
  from write_snapshot_facts [OF Cons.prems(1), of s n] obtain rt1 n1 where
    one: "write_snapshot s (rt, n) = (rt1, n1)" "records_ok rt1" "rt1 = rt\<lparr>rt_snapshots := rt_snapshots rt1\<rparr>"
      "map_of (rt_snapshots rt1) = (map_of (rt_snapshots rt))(snapshot_id_of s \<mapsto>
        (case map_of (rt_snapshots rt) (snapshot_id_of s) of None \<Rightarrow> stored_snapshot_of s | Some old \<Rightarrow> merge_snapshot old (stored_snapshot_of s)))"
    by blast
  have sub: "insert s S \<subseteq> U" using Cons.prems(3) by auto
  have "holds_rows snapshot_id_of stored_snapshot_of (rt_snapshots rt1) (insert s S)"
    by (rule holds_rows_insert [where key = snapshot_id_of and row = stored_snapshot_of and merge = merge_snapshot and t = "rt_snapshots rt", OF Cons.prems(2) sub Cons.prems(4) one(4)]) simp
  then have "records_ok rt' \<and> rt' = rt1\<lparr>rt_snapshots := rt_snapshots rt'\<rparr> \<and>
      holds_rows snapshot_id_of stored_snapshot_of (rt_snapshots rt') (set ss \<union> insert s S)"
    by (rule Cons.IH [rotated 3, of rt1 "insert s S" n1]) (use Cons.prems one(1,2) in auto)
  moreover from this have "rt' = rt\<lparr>rt_snapshots := rt_snapshots rt'\<rparr>"
    using one(3) by (metis record_tables.ext_inject record_tables.surjective record_tables.update_convs(4))
  ultimately show ?case by simp
qed simp

text \<open>The records of a store as sets of delivered rows; a consistent set has one row per identity.\<close>

definition holds_records :: "(string \<Rightarrow> string) \<Rightarrow> record_tables \<Rightarrow> event_row set \<Rightarrow> failure_row set \<Rightarrow> snapshot_row set \<Rightarrow> bool" where
  "holds_records sha rt ES XS SS \<longleftrightarrow>
     holds_events rt ES \<and> holds_rows (error_id sha) stored_error_of (rt_errors rt) XS \<and>
     holds_rows snapshot_id_of stored_snapshot_of (rt_snapshots rt) SS"

definition consistent :: "(string \<Rightarrow> string) \<Rightarrow> event_row set \<Rightarrow> failure_row set \<Rightarrow> snapshot_row set \<Rightarrow> bool" where
  "consistent sha ES XS SS \<longleftrightarrow> one_event ES \<and> one_keyed (error_id sha) XS \<and> one_keyed snapshot_id_of SS"

lemma write_records_hold:
  assumes "records_ok rt" "consistent sha EU XU SU" "holds_records sha rt ES XS SS"
    and "set (rb_events b) \<union> ES \<subseteq> EU" "set (rb_errors b) \<union> XS \<subseteq> XU" "set (rb_snapshots b) \<union> SS \<subseteq> SU"
    and "write_records sha b (rt, n) = (rt', n')"
  shows "records_ok rt' \<and>
    holds_records sha rt' (set (rb_events b) \<union> ES) (set (rb_errors b) \<union> XS) (set (rb_snapshots b) \<union> SS)"
proof -
  obtain rt1 n1 where one: "fold write_event (rb_events b) (rt, n) = (rt1, n1)" by (metis prod.exhaust)
  obtain rt2 n2 where two: "fold (write_error sha) (rb_errors b) (rt1, n1) = (rt2, n2)" by (metis prod.exhaust)
  have three: "fold write_snapshot (rb_snapshots b) (rt2, n2) = (rt', n')"
    using assms(7) one two by (simp add: write_records_def)
  from assms(2,3) have c: "one_event EU" "one_keyed (error_id sha) XU" "one_keyed snapshot_id_of SU"
    and h: "holds_events rt ES" "holds_rows (error_id sha) stored_error_of (rt_errors rt) XS"
      "holds_rows snapshot_id_of stored_snapshot_of (rt_snapshots rt) SS"
    by (simp_all add: consistent_def holds_records_def)
  note w1 = write_events_hold [OF assms(1) c(1) assms(4) h(1) one]
  have h2: "holds_rows (error_id sha) stored_error_of (rt_errors rt1) XS" using h(2) w1 by simp
  note w2 = write_errors_hold [OF conjunct1 [OF w1] c(2) assms(5) h2 two]
  have "rt_snapshots rt2 = rt_snapshots rt1"
    using w2 by (metis record_tables.ext_inject record_tables.surjective record_tables.update_convs(3))
  then have h3: "holds_rows snapshot_id_of stored_snapshot_of (rt_snapshots rt2) SS" using h(3) w1 by simp
  note w3 = write_snapshots_hold [OF conjunct1 [OF w2] c(3) assms(6) h3 three]
  have "rt_events rt' = rt_events rt1" "rt_attrs rt' = rt_attrs rt1" "rt_errors rt' = rt_errors rt2"
    using w2 w3 by (metis record_tables.ext_inject record_tables.surjective record_tables.update_convs(3,4))+
  with w1 w2 w3 show ?thesis by (simp add: holds_records_def holds_events_def)
qed

lemma holds_settled:
  assumes "consistent sha EU XU SU" "holds_records sha rt ES XS SS"
    and "set (rb_events b) \<union> ES \<subseteq> EU" "set (rb_errors b) \<union> XS \<subseteq> XU"
  shows "settled sha rt b"
proof -
  have e: "e = f" if "e \<in> EU" "f \<in> EU" "event_id_of e = event_id_of f" for e f
    using that assms(1) unfolding consistent_def one_event_def by blast
  have x: "e = f" if "e \<in> XU" "f \<in> XU" "error_id sha e = error_id sha f" for e f
    using that assms(1) unfolding consistent_def one_keyed_def by blast
  have "keeps_places rt (rb_events b)"
    unfolding keeps_places_def
  proof (intro ballI allI impI)
    fix f old assume f: "f \<in> set (rb_events b)" and old: "map_of (rt_events rt) (event_id_of f) = Some old"
    then obtain g where "g \<in> ES" "event_id_of g = event_id_of f" "old = stored_of g"
      using assms(2) unfolding holds_records_def holds_events_def by blast
    with e [of g f] f assms(3) show "place old = (vr_key f, vr_seq f)" by auto
  qed
  moreover have "keeps_error_places sha rt (rb_errors b)"
    unfolding keeps_error_places_def
  proof (intro ballI allI impI)
    fix f old assume f: "f \<in> set (rb_errors b)" and old: "map_of (rt_errors rt) (error_id sha f) = Some old"
    then obtain g where "g \<in> XS" "error_id sha g = error_id sha f" "old = stored_error_of g"
      using assms(2) unfolding holds_records_def holds_rows_def by blast
    with x [of g f] f assms(4) show "error_place old = (fr_key f, fr_seq f)" by auto
  qed
  moreover have "consistent_places (rb_events b)" "consistent_errors sha (rb_errors b)"
    using e x assms(3,4) unfolding consistent_places_def consistent_errors_def by blast+
  ultimately show ?thesis by (simp add: settled_def)
qed

lemma holds_unique:
  assumes "records_ok rt" "records_ok rt'" "holds_records sha rt ES XS SS" "holds_records sha rt' ES XS SS"
  shows "rt = rt'"
proof -
  have eq: "map_of t = map_of u" if "\<And>i r. map_of t i = Some r \<longleftrightarrow> map_of u i = Some r" for t u :: "('k \<times> 'v) list"
    using that by (metis ext not_Some_eq)
  have "rt_events rt = rt_events rt'" "rt_errors rt = rt_errors rt'" "rt_snapshots rt = rt_snapshots rt'"
    using assms by (auto simp: records_ok_def holds_records_def holds_events_def holds_rows_def intro!: table_eqI eq)
  moreover have "rt_attrs rt = rt_attrs rt'"
  proof (rule table_eqI)
    show "map_of (rt_attrs rt) = map_of (rt_attrs rt')"
    proof (rule eq)
      fix ik r show "map_of (rt_attrs rt) ik = Some r \<longleftrightarrow> map_of (rt_attrs rt') ik = Some r"
        using assms(3,4) by (cases ik) (auto simp: holds_records_def holds_events_def)
    qed
  qed (use assms in \<open>auto simp: records_ok_def\<close>)
  ultimately show ?thesis by simp
qed

lemma current_unique:
  assumes "derived_ok d" "derived_ok d'" "all_current uuid5 rt d" "all_current uuid5 rt d'"
  shows "d = d'"
proof -
  have act: "act_current uuid5 rt d a" "act_current uuid5 rt d' a" for a using assms(3,4) by (simp_all add: all_current_def)
  have tr: "trace_current rt d t" "trace_current rt d' t" for t using assms(3,4) by (simp_all add: all_current_def)
  have ok: "table_ok (dt_activations d)" "table_ok (dt_activations d')" "table_ok (dt_tools d)" "table_ok (dt_tools d')"
    "table_ok (dt_reasons d)" "table_ok (dt_reasons d')" "table_ok (dt_traces d)" "table_ok (dt_traces d')"
    "table_ok (dt_spans d)" "table_ok (dt_spans d')" "table_ok (dt_entities d)" "table_ok (dt_entities d')"
    using assms(1,2) by (simp_all add: derived_ok_def)
  have "map_of (dt_activations d) = map_of (dt_activations d')" using act by (intro ext) (simp add: act_current_def)
  then have acts: "dt_activations d = dt_activations d'" using ok by (intro table_eqI)
  have "map_of (dt_tools d) = map_of (dt_tools d')" "map_of (dt_reasons d) = map_of (dt_reasons d')"
  proof (intro ext)
    fix ax show "map_of (dt_tools d) ax = map_of (dt_tools d') ax" using act by (cases ax) (simp add: act_current_def)
  next
    show "map_of (dt_reasons d) = map_of (dt_reasons d')"
    proof
      fix ax show "map_of (dt_reasons d) ax = map_of (dt_reasons d') ax" using act by (cases ax) (simp add: act_current_def)
    qed
  qed
  then have facets: "dt_tools d = dt_tools d'" "dt_reasons d = dt_reasons d'" using ok by (auto intro: table_eqI)
  have "map_of (dt_traces d) = map_of (dt_traces d')" using tr by (intro ext) (simp add: trace_current_def)
  moreover have "map_of (dt_spans d) = map_of (dt_spans d')"
  proof
    fix ts show "map_of (dt_spans d) ts = map_of (dt_spans d') ts" using tr by (cases ts) (simp add: trace_current_def)
  qed
  ultimately have traces: "dt_traces d = dt_traces d'" "dt_spans d = dt_spans d'" using ok by (auto intro: table_eqI)
  have "entity_row rt d = entity_row rt d'" using acts by (simp add: entity_row_def fun_eq_iff)
  then have "map_of (dt_entities d) = map_of (dt_entities d')"
    using assms(3,4) by (intro ext) (simp add: all_current_def entity_current_def)
  then have "dt_entities d = dt_entities d'" using ok by (intro table_eqI)
  with acts facets traces show ?thesis by simp
qed

text \<open>A history of deliveries: batches written one after the other, \<open>None\<close> when one is refused.\<close>

fun deliver :: "(string \<Rightarrow> bytes) \<Rightarrow> (string \<Rightarrow> string) \<Rightarrow> record_batch list \<Rightarrow> console_store \<Rightarrow> console_store option" where
  "deliver uuid5 sha [] st = Some st"
| "deliver uuid5 sha (b # bs) st =
     (case cs_write uuid5 sha b st of (Inl e, _) \<Rightarrow> None | (Inr n, st') \<Rightarrow> deliver uuid5 sha bs st')"

definition delivered_events :: "record_batch list \<Rightarrow> event_row set" where
  "delivered_events bs = (\<Union>b\<in>set bs. set (rb_events b))"

definition delivered_errors :: "record_batch list \<Rightarrow> failure_row set" where
  "delivered_errors bs = (\<Union>b\<in>set bs. set (rb_errors b))"

definition delivered_snapshots :: "record_batch list \<Rightarrow> snapshot_row set" where
  "delivered_snapshots bs = (\<Union>b\<in>set bs. set (rb_snapshots b))"

lemma delivered_simps [simp]:
  "delivered_events [] = {}" "delivered_errors [] = {}" "delivered_snapshots [] = {}"
  "delivered_events (b # bs) = set (rb_events b) \<union> delivered_events bs"
  "delivered_errors (b # bs) = set (rb_errors b) \<union> delivered_errors bs"
  "delivered_snapshots (b # bs) = set (rb_snapshots b) \<union> delivered_snapshots bs"
  by (simp_all add: delivered_events_def delivered_errors_def delivered_snapshots_def)

lemma deliver_holds:
  assumes "deliver uuid5 sha bs st = Some st'" "store_ok uuid5 st" "consistent sha EU XU SU"
    and "holds_records sha (cs_records st) ES XS SS"
    and "delivered_events bs \<union> ES \<subseteq> EU" "delivered_errors bs \<union> XS \<subseteq> XU" "delivered_snapshots bs \<union> SS \<subseteq> SU"
  shows "store_ok uuid5 st' \<and>
    holds_records sha (cs_records st') (delivered_events bs \<union> ES) (delivered_errors bs \<union> XS) (delivered_snapshots bs \<union> SS)"
  using assms
proof (induction bs arbitrary: st ES XS SS)
  case (Cons b bs)
  then obtain n st1 where one: "cs_write uuid5 sha b st = (Ok n, st1)" and rest: "deliver uuid5 sha bs st1 = Some st'"
    by (auto split: prod.splits sum.splits)
  have sub: "set (rb_events b) \<union> ES \<subseteq> EU" "set (rb_errors b) \<union> XS \<subseteq> XU" "set (rb_snapshots b) \<union> SS \<subseteq> SU"
    using Cons.prems(5-7) by auto
  have ok: "store_ok uuid5 st1"
    by (rule cs_write_ok [OF Cons.prems(2) holds_settled [OF Cons.prems(3,4) sub(1,2)] one])
  have h: "holds_records sha (cs_records st1) (set (rb_events b) \<union> ES) (set (rb_errors b) \<union> XS) (set (rb_snapshots b) \<union> SS)"
    using one
  proof (cases rule: cs_write_cases)
    case empty
    then have "rb_events b = []" "rb_errors b = []" "rb_snapshots b = []" by (simp_all add: batch_length_def)
    then show ?thesis using Cons.prems(4) empty by simp
  next
    case (written rt m d c r)
    have "records_ok (cs_records st)" using Cons.prems(2) by (simp add: store_ok_def)
    from write_records_hold [OF this Cons.prems(3,4) sub written(3)] show ?thesis by (simp add: written(6))
  qed
  have "store_ok uuid5 st' \<and> holds_records sha (cs_records st') (delivered_events bs \<union> (set (rb_events b) \<union> ES))
      (delivered_errors bs \<union> (set (rb_errors b) \<union> XS)) (delivered_snapshots bs \<union> (set (rb_snapshots b) \<union> SS))"
    by (rule Cons.IH [OF rest ok Cons.prems(3) h]) (use Cons.prems(5-7) in auto)
  then show ?case by (simp add: Un_ac)
qed simp

lemma holds_empty: "holds_records sha (cs_records empty_store) {} {} {}"
  by (simp add: holds_records_def holds_events_def holds_rows_def empty_store_def)

text \<open>
  C14: The console converges: two histories of deliveries from an empty store that carry the same records,
  in whatever order, batches and number of copies, end with the same records and the same derived
  rows. Copies of one identity must be equal, which the records of one source are.
\<close>

theorem delivery_order_irrelevant:
  assumes "deliver uuid5 sha bs empty_store = Some st" "deliver uuid5 sha cs empty_store = Some st'"
    and "delivered_events bs = delivered_events cs" "delivered_errors bs = delivered_errors cs"
    and "delivered_snapshots bs = delivered_snapshots cs"
    and "consistent sha (delivered_events bs) (delivered_errors bs) (delivered_snapshots bs)"
  shows "cs_records st = cs_records st' \<and> cs_derived st = cs_derived st'"
proof -
  have bs: "store_ok uuid5 st \<and> holds_records sha (cs_records st) (delivered_events bs) (delivered_errors bs) (delivered_snapshots bs)"
    using deliver_holds [OF assms(1) store_ok_empty assms(6) holds_empty] by simp
  have cs: "store_ok uuid5 st' \<and> holds_records sha (cs_records st') (delivered_events bs) (delivered_errors bs) (delivered_snapshots bs)"
    using deliver_holds [OF assms(2) store_ok_empty assms(6) holds_empty] assms(3-5) by simp
  have rt: "cs_records st = cs_records st'"
    using holds_unique bs cs by (auto simp: store_ok_def)
  moreover have "cs_derived st = cs_derived st'"
    using current_unique bs cs rt by (auto simp: store_ok_def)
  ultimately show ?thesis by simp
qed

end
