(* ===== verification/Console_Scenario.thy ===== *)
theory Console_Scenario
  imports Console_Convergence
begin

text \<open>Concrete deliveries: the witnesses of the console store's properties, and what a lossy copy does.\<close>

definition demo_end :: event_row where
  "demo_end =
     \<lparr>vr_trace = ''t'', vr_span = ''s'', vr_parent = '''', vr_key = ''6b'', vr_seq = 3, vr_step = 0,
      vr_type = ''ACTIVATION_END'', vr_start = 5, vr_end = 5,
      vr_attrs = [(ACTIVATION_STATUS, ''completed'')], vr_prov = PROVENANCE_NATIVE\<rparr>"

definition demo_copy :: event_row where
  "demo_copy = demo_end\<lparr>vr_key := '''', vr_seq := 0, vr_prov := PROVENANCE_OTLP\<rparr>"

definition events_only :: "event_row list \<Rightarrow> record_batch" where
  "events_only es = \<lparr>rb_events = es, rb_errors = [], rb_snapshots = []\<rparr>"

section \<open>Refused batches\<close>

lemma foldE_error:
  assumes "\<And>x s y. f x s = Err y \<Longrightarrow> y = e" "foldE f xs s = Err y"
  shows "y = e"
  using assms(2) by (induction xs arbitrary: s) (auto simp: bindE_Err_iff dest: assms(1))

lemma recompute_error: "recompute uuid5 rt A T E s = Err e \<Longrightarrow> e = OverflowError"
  by (auto simp: recompute_def bindE_Err_iff recompute_activation_def recompute_entity_def Let_def split_beta
      dest!: foldE_error [rotated] split: if_splits)

text \<open>
  A refused write leaves the store as it was: the store is closed, or a derived token total does not
  fit SQLite's 64 bits, which refuses the batch however often it is sent.
\<close>

theorem refused_write_inert:
  assumes "cs_write uuid5 sha b st = (Err e, st')"
  shows "st' = st \<and> (e = RuntimeError \<and> cs_closed st \<or> e = OverflowError)"
  using assms by (auto simp: cs_write_def Let_def split: if_splits prod.splits sum.splits dest: recompute_error)

section \<open>A copy that lost its identity\<close>

lemma read_events_Nil_iff: "read_events rt k s = [] \<longleftrightarrow> (\<forall>x\<in>set (rt_events rt). place (snd x) \<noteq> (k, s))"
proof -
  have "sort_key f xs = [] \<longleftrightarrow> xs = []" for f :: "act_event \<Rightarrow> int \<times> string \<times> string" and xs
    by (metis length_0_conv length_sort)
  then show ?thesis by (auto simp: read_events_def filter_empty_conv place_def)
qed


section \<open>Evaluated deliveries\<close>

text \<open>Numbers of many digits are read without unary arithmetic.\<close>

primrec read_int :: "string \<Rightarrow> int \<Rightarrow> int" where
  "read_int [] n = n"
| "read_int (c # cs) n = read_int cs (10 * n + int (of_char c - 48))"

lemma read_int [code_unfold]: "int (read_nat ds n) = read_int ds (int n)"
  by (induction ds arbitrary: n) simp_all

definition demo_call :: event_row where
  "demo_call = demo_end\<lparr>vr_span := ''c'', vr_type := ''LLM_CALL'', vr_attrs := [(USAGE_INPUT_TOKENS, ''7'')]\<rparr>"

definition demo_huge :: event_row where
  "demo_huge = demo_call\<lparr>vr_attrs := [(USAGE_INPUT_TOKENS, ''99999999999999999999'')]\<rparr>"

abbreviation demo_write :: "record_batch \<Rightarrow> console_store \<Rightarrow> int res \<times> console_store" where
  "demo_write \<equiv> cs_write (\<lambda>_. []) (\<lambda>x. x)"

definition demo_store :: console_store where
  "demo_store = snd (demo_write (events_only [demo_end]) empty_store)"

lemma demo_written: "demo_write (events_only [demo_end]) empty_store = (Ok 6, demo_store)"
proof -
  have "fst (demo_write (events_only [demo_end]) empty_store) = Ok 6" by code_simp
  then show ?thesis by (simp add: demo_store_def prod_eq_iff)
qed

lemma demo_one_row: "one_row_each (\<lambda>x. x) (events_only [demo_end])"
  by (simp add: one_row_each_def events_only_def demo_end_def)

lemma demo_settled: "settled (\<lambda>x. x) (cs_records empty_store) (events_only [demo_end])"
  by (simp add: settled_def keeps_places_def consistent_places_def keeps_error_places_def consistent_errors_def
      events_only_def empty_store_def)

lemma demo_store_ok: "store_ok (\<lambda>_. []) demo_store"
  by (rule cs_write_ok [OF store_ok_empty demo_settled demo_written])

theorem rewrite_changes_nothing_witness:
  "demo_write (events_only [demo_end]) demo_store = (Ok 0, demo_store)"
  by (rule rewrite_changes_nothing [OF store_ok_empty demo_one_row demo_written])

theorem refused_write_inert_witness:
  "demo_write (events_only [demo_huge]) empty_store = (Err OverflowError, empty_store)"
proof -
  let ?w = "demo_write (events_only [demo_huge]) empty_store"
  have "fst ?w = Err OverflowError" by code_simp
  then have w: "?w = (Err OverflowError, snd ?w)" by (simp add: prod_eq_iff)
  from refused_write_inert [OF w] have "snd ?w = empty_store" by blast
  then show ?thesis by (subst w) (simp only:)
qed

lemma demo_records:
  "map_of (rt_events (cs_records demo_store)) = [event_id_of demo_end \<mapsto> stored_of demo_end]"
  "map_of (rt_errors (cs_records demo_store)) = Map.empty"
proof -
  have ok: "records_ok (cs_records empty_store)" using store_ok_empty by (simp add: store_ok_def)
  from demo_written obtain rt m where
    w: "write_records (\<lambda>x. x) (events_only [demo_end]) (cs_records empty_store, 0) = (rt, m)" "cs_records demo_store = rt"
  proof (cases rule: cs_write_cases)
    case (written rt m d c r)
    have "cs_records demo_store = rt" unfolding written(6) by simp
    with written(3) show thesis by (rule that)
  qed (simp add: batch_length_def events_only_def)
  from write_event_facts [OF ok, of demo_end 0] w(1) have
    "map_of (rt_events rt) = (map_of (rt_events (cs_records empty_store)))(event_id_of demo_end \<mapsto>
        (case map_of (rt_events (cs_records empty_store)) (event_id_of demo_end) of
           None \<Rightarrow> stored_of demo_end | Some old \<Rightarrow> merge_event old (stored_of demo_end)))"
    "rt_errors rt = rt_errors (cs_records empty_store)"
    by (auto simp: write_records_def events_only_def)
  then show "map_of (rt_events (cs_records demo_store)) = [event_id_of demo_end \<mapsto> stored_of demo_end]"
    "map_of (rt_errors (cs_records demo_store)) = Map.empty" by (simp_all add: empty_store_def w(2))
qed


theorem delivery_order_irrelevant_witness:
  "\<exists>st st'. deliver (\<lambda>_. []) (\<lambda>x. x) [events_only [demo_end], events_only [demo_call]] empty_store = Some st \<and>
     deliver (\<lambda>_. []) (\<lambda>x. x) [events_only [demo_call, demo_end, demo_call]] empty_store = Some st' \<and>
     cs_records st = cs_records st' \<and> cs_derived st = cs_derived st'"
proof -
  let ?bs = "[events_only [demo_end], events_only [demo_call]]" and ?cs = "[events_only [demo_call, demo_end, demo_call]]"
  have "deliver (\<lambda>_. []) (\<lambda>x. x) ?bs empty_store \<noteq> None" "deliver (\<lambda>_. []) (\<lambda>x. x) ?cs empty_store \<noteq> None"
    by code_simp+
  then obtain st st' where d: "deliver (\<lambda>_. []) (\<lambda>x. x) ?bs empty_store = Some st"
    "deliver (\<lambda>_. []) (\<lambda>x. x) ?cs empty_store = Some st'" by blast
  have same: "delivered_events ?bs = delivered_events ?cs" "delivered_errors ?bs = delivered_errors ?cs"
    "delivered_snapshots ?bs = delivered_snapshots ?cs" by (auto simp: events_only_def)
  have "event_id_of demo_call \<noteq> event_id_of demo_end" by (simp add: event_id_of_def demo_call_def demo_end_def)
  then have "consistent (\<lambda>x. x) (delivered_events ?bs) (delivered_errors ?bs) (delivered_snapshots ?bs)"
    by (auto simp: consistent_def one_event_def one_keyed_def events_only_def demo_call_def demo_end_def)
  from delivery_order_irrelevant [OF d same this] d show ?thesis by blast
qed

end
