(* ===== verification/Console_History.thy ===== *)
theory Console_History
  imports Console_Scenario
begin

text \<open>
  Histories of one console store: any sequence of writes, refused ones included, prunes and a close.
  The derived rows of every store so reached are those of its records, and a prune keeps exactly the
  records that are not older than its cutoff.
\<close>

section \<open>Histories\<close>

text \<open>
  The writes are those whose events and errors are filed, key and sequence number, where the store
  and the batch already file them; \<open>lossy_copy_strands_activation\<close> is about the others.
\<close>

inductive store_reaches :: "(string \<Rightarrow> bytes) \<Rightarrow> (string \<Rightarrow> string) \<Rightarrow> console_store \<Rightarrow> bool"
  for uuid5 sha where
  opened: "store_reaches uuid5 sha empty_store"
| wrote: "\<lbrakk>store_reaches uuid5 sha st; settled sha (cs_records st) b; cs_write uuid5 sha b st = (r, st')\<rbrakk>
    \<Longrightarrow> store_reaches uuid5 sha st'"
| pruned: "\<lbrakk>store_reaches uuid5 sha st; cs_prune uuid5 retention now st = (r, st')\<rbrakk> \<Longrightarrow> store_reaches uuid5 sha st'"
| closed: "store_reaches uuid5 sha st \<Longrightarrow> store_reaches uuid5 sha (cs_close st)"

lemma cs_write_err: "cs_write uuid5 sha b st = (Err e, st') \<Longrightarrow> st' = st"
  by (auto simp: cs_write_def Let_def split: if_splits prod.splits sum.splits)

lemma prune_to_err: "prune_to uuid5 cutoff st = (Err e, st') \<Longrightarrow> st' = st"
  by (auto simp: prune_to_def Let_def split: prod.splits sum.splits)

lemma cs_prune_cases:
  assumes "cs_prune uuid5 retention now st = (r, st')"
  shows "st' = st \<or> (\<exists>hours n. retention = Some hours \<and> \<not> cs_closed st \<and> r = Ok n \<and>
    prune_to uuid5 (now - truncate (hours * MS_PER_HOUR)) st = (Ok n, st'))"
proof (cases retention)
  case (Some hours)
  let ?p = "prune_to uuid5 (now - truncate (hours * MS_PER_HOUR)) st"
  show ?thesis
  proof (cases "cs_closed st")
    case False
    with assms Some have p: "?p = (r, st')" by (simp add: cs_prune_def)
    then show ?thesis using prune_to_err [of uuid5 _ st] Some False by (cases r) blast+
  qed (use assms Some in \<open>simp add: cs_prune_def\<close>)
qed (use assms in \<open>simp add: cs_prune_def\<close>)

lemma store_reaches_ok: "store_reaches uuid5 sha st \<Longrightarrow> store_ok uuid5 st"
proof (induction rule: store_reaches.induct)
  case opened
  show ?case by (rule store_ok_empty)
next
  case (wrote st b r st')
  then show ?case using cs_write_ok cs_write_err by (cases r) blast+
next
  case (pruned st retention now r st')
  then show ?case using cs_prune_cases [OF pruned(2)] prune_to_ok by blast
next
  case (closed st)
  then show ?case by (simp add: store_ok_def cs_close_def)
qed

text \<open>
  C15: In every reachable store each activation, trace, span and entity row is the summary of the records
  the store holds, and exists exactly when there are such records; the facet rows list exactly the
  tools and the failure reasons of the summary.
\<close>

theorem rollups_current:
  assumes "store_reaches uuid5 sha st"
  shows "map_of (dt_activations (cs_derived st)) a = rollup_of uuid5 (cs_records st) a \<and>
    map_of (dt_traces (cs_derived st)) t = trace_summary_of (cs_records st) t \<and>
    map_of (dt_spans (cs_derived st)) (t, s) = span_summary_of (cs_records st) (t, s) \<and>
    map_of (dt_entities (cs_derived st)) k = entity_row (cs_records st) (cs_derived st) k \<and>
    (map_of (dt_tools (cs_derived st)) (a, x) \<noteq> None \<longleftrightarrow>
       (\<exists>row. rollup_of uuid5 (cs_records st) a = Some row \<and> x \<in> set (ru_tools row))) \<and>
    (map_of (dt_reasons (cs_derived st)) (a, x) \<noteq> None \<longleftrightarrow>
       (\<exists>row. rollup_of uuid5 (cs_records st) a = Some row \<and> x \<in> set (ru_reasons row)))"
proof -
  have c: "act_current uuid5 (cs_records st) (cs_derived st) a" "trace_current (cs_records st) (cs_derived st) t"
    "entity_current (cs_records st) (cs_derived st) k"
    using store_reaches_ok [OF assms] by (simp_all add: store_ok_def all_current_def)
  have "map_of (dt_tools (cs_derived st)) (a, x) = facet_row ru_tools (rollup_of uuid5 (cs_records st) a) x"
    "map_of (dt_reasons (cs_derived st)) (a, x) = facet_row ru_reasons (rollup_of uuid5 (cs_records st) a) x"
    using c(1) unfolding act_current_def by blast+
  then show ?thesis using c
    by (cases "rollup_of uuid5 (cs_records st) a")
      (simp_all add: act_current_def trace_current_def entity_current_def facet_row_def facet_values_def)
qed

theorem rollups_current_witness:
  "\<exists>row. map_of (dt_activations (cs_derived demo_store)) (''6b'', 3) = Some row \<and>
     rollup_of (\<lambda>_. []) (cs_records demo_store) (''6b'', 3) = Some row"
proof -
  have r: "store_reaches (\<lambda>_. []) (\<lambda>x. x) demo_store"
    by (rule store_reaches.wrote [OF store_reaches.opened demo_settled demo_written])
  have "(event_id_of demo_end, stored_of demo_end) \<in> set (rt_events (cs_records demo_store))"
    by (rule map_of_SomeD) (simp add: demo_records)
  moreover have "place (stored_of demo_end) = (''6b'', 3)" by (simp add: place_def stored_of_def demo_end_def)
  ultimately have "read_events (cs_records demo_store) ''6b'' 3 \<noteq> []" by (force simp: read_events_Nil_iff)
  then obtain row where "rollup_of (\<lambda>_. []) (cs_records demo_store) (''6b'', 3) = Some row"
    by (auto simp: rollup_of_def summarize_def Let_def split_beta)
  with rollups_current [OF r, where a = "(''6b'', 3)"] show ?thesis by auto
qed

section \<open>Pruning\<close>

lemma prune_to_closed: "prune_to uuid5 cutoff st = (Ok n, st') \<Longrightarrow> cs_closed st' = cs_closed st"
  by (auto simp: prune_to_def Let_def split: prod.splits sum.splits)

lemma prune_to_exact:
  assumes "records_ok (cs_records st)" "prune_to uuid5 cutoff st = (Ok n, st')"
  shows "map_of (rt_events (cs_records st')) i = Some e \<longleftrightarrow>
       map_of (rt_events (cs_records st)) i = Some e \<and> cutoff \<le> se_start e"
    and "map_of (rt_errors (cs_records st')) j = Some f \<longleftrightarrow>
       map_of (rt_errors (cs_records st)) j = Some f \<and> cutoff \<le> sr_time f"
    and "map_of (rt_snapshots (cs_records st')) l = Some s \<longleftrightarrow>
       map_of (rt_snapshots (cs_records st)) l = Some s \<and> cutoff \<le> snd (snd (snd l))"
    and "map_of (rt_events (cs_records st)) i = Some e \<Longrightarrow> map_of (rt_attrs (cs_records st')) (i, k) =
       (if cutoff \<le> se_start e then map_of (rt_attrs (cs_records st)) (i, k) else None)"
proof -
  from assms(2) obtain rt' m where p: "prune_records cutoff (cs_records st) = (rt', m)" "cs_records st' = rt'"
  proof (cases rule: prune_to_cases)
    case (1 rt' m d c r)
    have "cs_records st' = rt'" unfolding 1(3) by simp
    with 1(1) show thesis by (rule that)
  qed
  note f = prune_records_facts [OF assms(1) p(1)]
  show "map_of (rt_events (cs_records st')) i = Some e \<longleftrightarrow>
       map_of (rt_events (cs_records st)) i = Some e \<and> cutoff \<le> se_start e"
    unfolding p(2) f(2) by (cases "map_of (rt_events (cs_records st)) i") auto
  show "map_of (rt_errors (cs_records st')) j = Some f \<longleftrightarrow>
       map_of (rt_errors (cs_records st)) j = Some f \<and> cutoff \<le> sr_time f"
    unfolding p(2) f(4) by (cases "map_of (rt_errors (cs_records st)) j") auto
  show "map_of (rt_snapshots (cs_records st')) l = Some s \<longleftrightarrow>
       map_of (rt_snapshots (cs_records st)) l = Some s \<and> cutoff \<le> snd (snd (snd l))"
    unfolding p(2) f(5) by (cases "map_of (rt_snapshots (cs_records st)) l") auto
  show "map_of (rt_attrs (cs_records st')) (i, k) =
       (if cutoff \<le> se_start e then map_of (rt_attrs (cs_records st)) (i, k) else None)"
    if "map_of (rt_events (cs_records st)) i = Some e" unfolding p(2) f(3) that by simp
qed

text \<open>
  C20: A prune removes exactly the events, errors and snapshots older than its cutoff, with the attributes
  of those events, and leaves derived rows for exactly what is left.
\<close>

theorem prune_exact:
  assumes "store_reaches uuid5 sha st" "cs_prune uuid5 (Some hours) now st = (Ok n, st')"
    and "cutoff = now - truncate (hours * MS_PER_HOUR)"
  shows "(map_of (rt_events (cs_records st')) i = Some e \<longleftrightarrow>
       map_of (rt_events (cs_records st)) i = Some e \<and> cutoff \<le> se_start e) \<and>
    (map_of (rt_errors (cs_records st')) j = Some f \<longleftrightarrow>
       map_of (rt_errors (cs_records st)) j = Some f \<and> cutoff \<le> sr_time f) \<and>
    (map_of (rt_snapshots (cs_records st')) l = Some s \<longleftrightarrow>
       map_of (rt_snapshots (cs_records st)) l = Some s \<and> cutoff \<le> snd (snd (snd l))) \<and>
    (map_of (rt_events (cs_records st)) i = Some e \<longrightarrow>
       map_of (rt_attrs (cs_records st')) (i, k) =
         (if cutoff \<le> se_start e then map_of (rt_attrs (cs_records st)) (i, k) else None)) \<and>
    (map_of (dt_activations (cs_derived st')) a \<noteq> None \<longleftrightarrow> rollup_of uuid5 (cs_records st') a \<noteq> None)"
proof -
  have "\<not> cs_closed st" "prune_to uuid5 cutoff st = (Ok n, st')"
    using assms(2,3) by (auto simp: cs_prune_def split: if_splits)
  then have p: "prune_to uuid5 cutoff st = (Ok n, st')" by blast
  note before = store_reaches_ok [OF assms(1)]
  have ok: "records_ok (cs_records st)" using before by (simp add: store_ok_def)
  have ok': "store_ok uuid5 st'" by (rule prune_to_ok [OF before p])
  have act: "map_of (dt_activations (cs_derived st')) a = rollup_of uuid5 (cs_records st') a"
    using ok' by (simp add: store_ok_def all_current_def act_current_def)
  show ?thesis unfolding act using prune_to_exact [OF ok p] by blast
qed

text \<open>A record exactly as old as the cutoff stays.\<close>

theorem prune_exact_witness:
  "\<exists>n st'. cs_prune (\<lambda>_. []) (Some 0) 5 demo_store = (Ok n, st') \<and>
     map_of (rt_events (cs_records st')) (event_id_of demo_end) = Some (stored_of demo_end)"
proof -
  have r: "store_reaches (\<lambda>_. []) (\<lambda>x. x) demo_store"
    by (rule store_reaches.wrote [OF store_reaches.opened demo_settled demo_written])
  have ok: "records_ok (cs_records demo_store)" using store_reaches_ok [OF r] by (simp add: store_ok_def)
  have start: "se_start (stored_of demo_end) = 5" by (simp add: stored_of_def demo_end_def)
  have "se_start (snd x) = 5" if "x \<in> set (rt_events (cs_records demo_store))" for x
  proof -
    have "map_of (rt_events (cs_records demo_store)) (fst x) = Some (snd x)"
      using that ok table_lookup [of "rt_events (cs_records demo_store)" x] by (simp add: records_ok_def)
    then have "snd x = stored_of demo_end" by (simp add: demo_records split: if_splits)
    then show ?thesis by (simp add: start)
  qed
  then have ev: "filter (\<lambda>x. se_start (snd x) < 5) (rt_events (cs_records demo_store)) = []"
    by (auto simp: filter_empty_conv)
  have er: "rt_errors (cs_records demo_store) = []" using demo_records(2) by (cases "rt_errors (cs_records demo_store)") auto
  have touched: "pruned_activations 5 (cs_records demo_store) = []" "pruned_traces 5 (cs_records demo_store) = []"
    "pruned_entities 5 (cs_records demo_store) = []"
    by (simp_all add: pruned_activations_def pruned_traces_def pruned_entities_def ev er map_filter_def)
  obtain rt n where p: "prune_records 5 (cs_records demo_store) = (rt, n)" by (metis prod.exhaust)
  from demo_written have "\<not> cs_closed demo_store"
  proof (cases rule: cs_write_cases)
    case (written rt m d c r)
    show ?thesis unfolding written(6) by (simp add: empty_store_def)
  qed (simp add: batch_length_def events_only_def)
  then obtain st' where st': "cs_prune (\<lambda>_. []) (Some 0) 5 demo_store = (Ok n, st')"
    by (simp add: cs_prune_def truncate_def prune_to_def p touched recompute_def)
  have "5 = 5 - truncate (0 * MS_PER_HOUR)" by (simp add: truncate_def)
  from prune_exact [OF r st' this, where i = "event_id_of demo_end" and e = "stored_of demo_end"]
  have "map_of (rt_events (cs_records st')) (event_id_of demo_end) = Some (stored_of demo_end)"
    by (simp add: demo_records start)
  with st' show ?thesis by blast
qed

end
