(* ===== verification/Pipeline.thy ===== *)
theory Pipeline
  imports Outbox Exporters Console_Ingest
begin

text \<open>
  The configuration surface of the pipeline transform (\<open>core/transform.py\<close>): the grammar of sink
  URIs, \<open>DefaultSinkResolver\<close>, the checks of \<open>AgentConfig\<close>, and the branches \<open>RunAgent.expand\<close> attaches
  to the tagged outputs. Rounding a decimal to a double is the parameter \<open>fl\<close>: \<open>fl m e\<close> is the
  double nearest to \<open>m\<close> times ten to the \<open>e\<close>. Beam's writers are constructors with their arguments.
\<close>

section \<open>Numbers in text\<close>

datatype pyfloat = Finite real | PosInf | NegInf | NaN

text \<open>\<open>x <= 0\<close>, which no comparison with a NaN satisfies.\<close>

definition not_positive :: "pyfloat \<Rightarrow> bool" where
  "not_positive x = (case x of Finite r \<Rightarrow> r \<le> 0 | NegInf \<Rightarrow> True | PosInf \<Rightarrow> False | NaN \<Rightarrow> False)"

definition negated :: "pyfloat \<Rightarrow> pyfloat" where
  "negated x = (case x of Finite r \<Rightarrow> Finite (- r) | PosInf \<Rightarrow> NegInf | NegInf \<Rightarrow> PosInf | NaN \<Rightarrow> NaN)"

definition digit_run :: "string \<Rightarrow> string \<times> string" where
  "digit_run s = (takeWhile (\<lambda>c. is_digit c \<or> c = CHR ''_'') s, dropWhile (\<lambda>c. is_digit c \<or> c = CHR ''_'') s)"

definition run_digits :: "string \<Rightarrow> string option" where
  "run_digits s = (if s = [] then Some [] else int_digits False s)"

text \<open>The exponent of a decimal literal: none, or a marker, a sign and digits up to the end.\<close>

definition exponent_of :: "string \<Rightarrow> int option" where
  "exponent_of s =
     (case s of
        [] \<Rightarrow> Some 0
      | c # rest \<Rightarrow>
          if lower [c] \<noteq> ''e'' then None
          else
            (let negative = prefix ''-'' rest;
                 body = (if negative \<or> prefix ''+'' rest then tl rest else rest) in
             map_option (\<lambda>ds. if negative then - int (read_nat ds 0) else int (read_nat ds 0)) (int_digits False body)))"

definition decimal_of_text :: "string \<Rightarrow> (int \<times> int) option" where
  "decimal_of_text s =
     (let (whole, r1) = digit_run s;
          point = prefix ''.'' r1;
          (frac, r2) = (if point then digit_run (tl r1) else ([], r1)) in
      case (run_digits whole, run_digits frac, exponent_of r2) of
        (Some w, Some f, Some e) \<Rightarrow>
          if w = [] \<and> f = [] then None else Some (int (read_nat (w @ f) 0), e - int (length f))
      | _ \<Rightarrow> None)"

definition float_of_text :: "(int \<Rightarrow> int \<Rightarrow> pyfloat) \<Rightarrow> string \<Rightarrow> pyfloat res" where
  "float_of_text fl text =
     (let s = strip text;
          negative = prefix ''-'' s;
          body = lower (if negative \<or> prefix ''+'' s then tl s else s);
          magnitude =
            (if body = ''inf'' \<or> body = ''infinity'' then Some PosInf
             else if body = ''nan'' then Some NaN
             else map_option (\<lambda>(m, e). fl m e) (decimal_of_text body)) in
      case magnitude of
        None \<Rightarrow> Err ValueError
      | Some x \<Rightarrow> Ok (if negative then negated x else x))"

section \<open>Query strings\<close>

fun unquote :: "string \<Rightarrow> string" where
  "unquote [] = []"
| "unquote (c # cs) =
     (if c = CHR ''%'' then
        (case cs of
           a # b # rest \<Rightarrow>
             (case (hex_value a, hex_value b) of
                (Some h, Some l) \<Rightarrow> char_of (16 * h + l) # unquote rest
              | _ \<Rightarrow> c # unquote cs)
         | _ \<Rightarrow> c # unquote cs)
      else c # unquote cs)"

definition unquote_plus :: "string \<Rightarrow> string" where
  "unquote_plus s = unquote (map (\<lambda>c. if c = CHR ''+'' then CHR '' '' else c) s)"

definition query_pair :: "string \<Rightarrow> string \<times> string" where
  "query_pair s = (let (k, _, v) = partition_at (CHR ''='') s in (unquote_plus k, unquote_plus v))"

text \<open>
  \<open>parse_qs(query, keep_blank_values=True)\<close> with the last value of each name, names in the order of
  their first appearance. Escapes are taken to spell valid UTF-8.
\<close>

definition query_values :: "string \<Rightarrow> (string, string) dict" where
  "query_values q =
     foldl (\<lambda>d (k, v). AList.update k v d) [] (map query_pair (filter (\<lambda>s. s \<noteq> []) (split_on (CHR ''&'') q)))"

section \<open>Endpoint URIs\<close>

datatype option_value = OptInt int | OptFloat pyfloat | OptText string

definition positive_int :: "string \<Rightarrow> option_value res" where
  "positive_int text = bindE (int_of_text text) (\<lambda>n. if n \<le> 0 then Err ValueError else Ok (OptInt n))"

definition positive_float :: "(int \<Rightarrow> int \<Rightarrow> pyfloat) \<Rightarrow> string \<Rightarrow> option_value res" where
  "positive_float fl text =
     bindE (float_of_text fl text) (\<lambda>x. if not_positive x then Err ValueError else Ok (OptFloat x))"

definition otlp_bool :: "string \<Rightarrow> bool res" where
  "otlp_bool text = (if text = ''true'' then Ok True else if text = ''false'' then Ok False else Err ValueError)"

type_synonym option_parser = "string \<Rightarrow> string \<Rightarrow> option_value res"

definition otlp_option :: "(int \<Rightarrow> int \<Rightarrow> pyfloat) \<Rightarrow> option_parser" where
  "otlp_option fl key text =
     (if key = ''batch_size'' \<or> key = ''queue_batches'' then positive_int text
      else if key = ''flush_deadline_s'' then positive_float fl text
      else if key = ''service_name'' then Ok (OptText text)
      else Err KeyError)"

text \<open>The option loop: \<open>tls\<close> apart, every name has a parser, and any failure is the scheme's error.\<close>

fun read_options ::
  "option_parser \<Rightarrow> (string, string) dict \<Rightarrow> bool \<times> (string, option_value) dict \<Rightarrow>
   (bool \<times> (string, option_value) dict) res" where
  "read_options parser [] s = Ok s"
| "read_options parser ((key, text) # rest) (tls, options) =
     (if key = ''tls'' then
        (case otlp_bool text of
           Err _ \<Rightarrow> Err UnknownSinkSchemeError
         | Ok b \<Rightarrow> read_options parser rest (b, options))
      else
        (case parser key text of
           Err _ \<Rightarrow> Err UnknownSinkSchemeError
         | Ok x \<Rightarrow> read_options parser rest (tls, AList.update key x options)))"

definition endpoint_url :: "bool \<Rightarrow> string \<Rightarrow> int \<Rightarrow> string" where
  "endpoint_url tls host p = (if tls then ''https'' else ''http'') @ ''://'' @ host @ '':'' @ dec p"

definition port_or :: "int \<Rightarrow> int option \<Rightarrow> int" where
  "port_or d n = (case n of None \<Rightarrow> d | Some p \<Rightarrow> p)"

definition parse_endpoint ::
  "(string \<Rightarrow> bool) \<Rightarrow> option_parser \<Rightarrow> int \<Rightarrow> string \<Rightarrow> string \<Rightarrow> (string \<times> (string, option_value) dict) res" where
  "parse_endpoint brackets_ok parser default_port tail text =
     bindE (urlparse brackets_ok text) (\<lambda>u.
       case port u of
         Err _ \<Rightarrow> Err UnknownSinkSchemeError
       | Ok p \<Rightarrow>
           (case hostname u of
              None \<Rightarrow> Err UnknownSinkSchemeError
            | Some host \<Rightarrow>
                if ur_path u \<noteq> [] \<and> ur_path u \<noteq> ''/'' then Err UnknownSinkSchemeError
                else
                  bindE (read_options parser (query_values (ur_query u)) (False, [])) (\<lambda>(tls, options).
                    Ok (endpoint_url tls host (port_or default_port p) @ tail, options))))"

definition OTLP_DEFAULT_PORT :: int where "OTLP_DEFAULT_PORT = 4318"

definition parse_otlp_uri ::
  "(string \<Rightarrow> bool) \<Rightarrow> (int \<Rightarrow> int \<Rightarrow> pyfloat) \<Rightarrow> string \<Rightarrow> (string \<times> (string, option_value) dict) res" where
  "parse_otlp_uri brackets_ok fl text =
     parse_endpoint brackets_ok (otlp_option fl) OTLP_DEFAULT_PORT ''/v1/traces'' text"

section \<open>The default resolver\<close>

definition SINK_SCHEMES :: "string list" where "SINK_SCHEMES = [''kafka'', ''pubsub'', ''bigquery'', ''otlp'']"
definition BIGQUERY_URI_SEGMENTS :: nat where "BIGQUERY_URI_SEGMENTS = 2"

definition parse_sink ::
  "(string \<Rightarrow> bool) \<Rightarrow> (int \<Rightarrow> int \<Rightarrow> pyfloat) \<Rightarrow> string \<Rightarrow> (string \<times> string list) res" where
  "parse_sink brackets_ok fl text =
     bindE (urlparse brackets_ok text) (\<lambda>u.
       let scheme = ur_scheme u; segs = segments (ur_path u) in
       if scheme \<notin> set SINK_SCHEMES then Err UnknownSinkSchemeError
       else if scheme = ''otlp'' then bindE (parse_otlp_uri brackets_ok fl text) (\<lambda>_. Ok (scheme, []))
       else if scheme = ''kafka'' \<or> scheme = ''pubsub'' then
         (if ur_netloc u = [] \<or> length segs \<noteq> 1 then Err UnknownSinkSchemeError
          else Ok (scheme, [ur_netloc u, hd segs]))
       else if ur_netloc u = [] \<or> length segs \<noteq> BIGQUERY_URI_SEGMENTS then Err UnknownSinkSchemeError
       else Ok (scheme, ur_netloc u # segs))"

definition sink_validate ::
  "(string \<Rightarrow> bool) \<Rightarrow> (int \<Rightarrow> int \<Rightarrow> pyfloat) \<Rightarrow> string \<Rightarrow> string \<Rightarrow> unit res" where
  "sink_validate brackets_ok fl field text =
     bindE (parse_sink brackets_ok fl text) (\<lambda>(scheme, _).
       if scheme = ''otlp'' \<and> field \<noteq> ''traces_to'' then Err UnknownSinkSchemeError
       else if scheme = ''bigquery'' \<and> field = ''snapshots_to'' then Err UnknownSinkSchemeError
       else Ok ())"

text \<open>Beam's writers with the arguments the code gives them; \<open>TraceTable\<close> is the self-provisioning one.\<close>

datatype writer =
    WriteToKafka string string
  | WriteToPubSub string
  | WriteToBigQuery string
  | TraceTable string

datatype sink =
    KeyedWriteIntents string
  | WriteTracesToOtlp string "(string, option_value) dict"
  | WriteSnapshots writer
  | WriteTraces writer bool
  | WriteErrors writer bool
  | BareWriter writer

definition table_spec :: "string list \<Rightarrow> string" where
  "table_spec parts = parts ! 0 @ '':'' @ parts ! 1 @ ''.'' @ parts ! 2"

definition write_transform :: "string \<Rightarrow> string list \<Rightarrow> writer" where
  "write_transform scheme parts =
     (if scheme = ''kafka'' then WriteToKafka (parts ! 0) (parts ! 1)
      else if scheme = ''pubsub'' then WriteToPubSub (''projects/'' @ parts ! 0 @ ''/topics/'' @ parts ! 1)
      else WriteToBigQuery (table_spec parts))"

definition traces_bigquery_writer :: "string list \<Rightarrow> writer" where
  "traces_bigquery_writer parts = TraceTable (table_spec parts)"

definition encoded_transform :: "string \<Rightarrow> string \<Rightarrow> string list \<Rightarrow> sink" where
  "encoded_transform field scheme parts =
     (if field = ''snapshots_to'' then WriteSnapshots (write_transform scheme parts)
      else if field = ''traces_to'' then
        (if scheme = ''bigquery'' then WriteTraces (traces_bigquery_writer parts) True
         else WriteTraces (write_transform scheme parts) False)
      else if field = ''errors_to'' then WriteErrors (write_transform scheme parts) (scheme = ''bigquery'')
      else BareWriter (write_transform scheme parts))"

definition otlp_transform :: "(string \<Rightarrow> bool) \<Rightarrow> (int \<Rightarrow> int \<Rightarrow> pyfloat) \<Rightarrow> string \<Rightarrow> sink res" where
  "otlp_transform brackets_ok fl text =
     bindE (parse_otlp_uri brackets_ok fl text) (\<lambda>(endpoint, options). Ok (WriteTracesToOtlp endpoint options))"

definition sink_resolve ::
  "(string \<Rightarrow> bool) \<Rightarrow> (int \<Rightarrow> int \<Rightarrow> pyfloat) \<Rightarrow> string \<Rightarrow> string \<Rightarrow> sink res" where
  "sink_resolve brackets_ok fl field text =
     bindE (sink_validate brackets_ok fl field text) (\<lambda>_.
     bindE (parse_sink brackets_ok fl text) (\<lambda>(scheme, parts).
       if field = ''intents_to'' \<and> (scheme = ''kafka'' \<or> scheme = ''pubsub'') then Ok (KeyedWriteIntents text)
       else if scheme = ''otlp'' then otlp_transform brackets_ok fl text
       else Ok (encoded_transform field scheme parts)))"

text \<open>
  Attaching a sink to its stream: only the outbox writer parses its URI again, and only it returns a
  dead-letter branch.
\<close>

definition attach :: "(string \<Rightarrow> bool) \<Rightarrow> sink \<Rightarrow> bool res" where
  "attach brackets_ok s =
     (case s of
        KeyedWriteIntents text \<Rightarrow> bindE (write_intents_init brackets_ok text None None None) (\<lambda>_. Ok True)
      | _ \<Rightarrow> Ok False)"

section \<open>The configuration\<close>

record 'p sink_resolver =
  rs_validate :: "string \<Rightarrow> string \<Rightarrow> unit res"
  rs_resolve :: "string \<Rightarrow> string \<Rightarrow> 'p res"
  rs_attach :: "'p \<Rightarrow> bool res"

definition default_resolver :: "(string \<Rightarrow> bool) \<Rightarrow> (int \<Rightarrow> int \<Rightarrow> pyfloat) \<Rightarrow> sink sink_resolver" where
  "default_resolver brackets_ok fl =
     \<lparr>rs_validate = sink_validate brackets_ok fl, rs_resolve = sink_resolve brackets_ok fl,
      rs_attach = attach brackets_ok\<rparr>"

text \<open>The fields the checks and the wiring read; a callable is known by its presence.\<close>

record agent_config =
  ac_decode :: bool
  ac_activation_timeout :: pyfloat
  ac_ttl :: int
  ac_cancel_grace :: pyfloat
  ac_hitl :: hitl_policy
  ac_intents_to :: "string option"
  ac_traces_to :: "string option"
  ac_errors_to :: "string option"
  ac_snapshots_to :: "string option"
  ac_longterm :: "string option"
  ac_on_expire :: bool
  ac_batch_policy :: batch_policy
  ac_max_batch_size :: "int option"
  ac_max_wait :: "int option"
  ac_max_buffered :: "int option"
  ac_max_tokens :: "int option"

definition batch_settings_of :: "agent_config \<Rightarrow> batch_settings option res" where
  "batch_settings_of c =
     resolve_batch_settings (ac_batch_policy c) (ac_max_batch_size c) (ac_max_wait c) (ac_max_buffered c)"

definition require :: "bool \<Rightarrow> unit res" where
  "require ok = (if ok then Ok () else Err ValueError)"

definition check_sink :: "'p sink_resolver \<Rightarrow> string \<Rightarrow> string option \<Rightarrow> unit res" where
  "check_sink rs field to = (case to of None \<Rightarrow> Ok () | Some text \<Rightarrow> rs_validate rs field text)"

definition check_longterm :: "agent_config \<Rightarrow> unit res" where
  "check_longterm c =
     (case ac_longterm c of
        Some text \<Rightarrow> bindE (parse_memory_store_uri text) (\<lambda>_. Ok ())
      | None \<Rightarrow> require (\<not> ac_on_expire c))"

definition check_tokens :: "agent_config \<Rightarrow> unit res" where
  "check_tokens c =
     (case ac_max_tokens c of
        None \<Rightarrow> Ok ()
      | Some n \<Rightarrow> bindE (require (0 < n)) (\<lambda>_. require (ac_decode c)))"

definition post_init :: "'p sink_resolver \<Rightarrow> agent_config \<Rightarrow> unit res" where
  "post_init rs c =
     bindE (require (\<not> not_positive (ac_activation_timeout c))) (\<lambda>_.
     bindE (require (0 < ac_ttl c)) (\<lambda>_.
     bindE (require (\<not> not_positive (ac_cancel_grace c))) (\<lambda>_.
     bindE (policy_validate (ac_hitl c)) (\<lambda>_.
     bindE (check_sink rs ''intents_to'' (ac_intents_to c)) (\<lambda>_.
     bindE (check_sink rs ''traces_to'' (ac_traces_to c)) (\<lambda>_.
     bindE (check_sink rs ''errors_to'' (ac_errors_to c)) (\<lambda>_.
     bindE (check_sink rs ''snapshots_to'' (ac_snapshots_to c)) (\<lambda>_.
     bindE (check_longterm c) (\<lambda>_.
     bindE (check_tokens c) (\<lambda>_.
     bindE (batch_settings_of c) (\<lambda>_. Ok ())))))))))))"

section \<open>Wiring the outputs\<close>

datatype stream = Tagged string | IntentDeadLetters | Flattened stream stream

record 'p run_outputs =
  ro_batch :: "batch_settings option"
  ro_branches :: "(string \<times> stream \<times> 'p) list"
  ro_dead_letter :: bool

definition resolve_branch :: "'p sink_resolver \<Rightarrow> string \<Rightarrow> string \<Rightarrow> stream \<Rightarrow> string option \<Rightarrow>
    ((string \<times> stream \<times> 'p) list \<times> bool) res" where
  "resolve_branch rs field label source to =
     (case to of
        None \<Rightarrow> Ok ([], False)
      | Some text \<Rightarrow>
          bindE (rs_resolve rs field text) (\<lambda>s. bindE (rs_attach rs s) (\<lambda>dead. Ok ([(label, source, s)], dead))))"

definition run_expand :: "'p sink_resolver \<Rightarrow> agent_config \<Rightarrow> element_type \<Rightarrow> 'p run_outputs res" where
  "run_expand rs c t =
     (if \<not> is_kv_shaped t then Err ValueError
      else
        bindE (batch_settings_of c) (\<lambda>batch.
        bindE (resolve_branch rs ''intents_to'' ''WriteIntents'' (Tagged ''intents'') (ac_intents_to c)) (\<lambda>(intents, dead).
        bindE (resolve_branch rs ''traces_to'' ''WriteTraces'' (Tagged ''traces'') (ac_traces_to c)) (\<lambda>(traces, _).
        bindE (resolve_branch rs ''snapshots_to'' ''WriteSnapshots'' (Tagged ''snapshots'') (ac_snapshots_to c)) (\<lambda>(snapshots, _).
        bindE (resolve_branch rs ''errors_to'' ''WriteErrors''
                (if dead then Flattened (Tagged ''errors'') IntentDeadLetters else Tagged ''errors'') (ac_errors_to c)) (\<lambda>(errors, _).
          Ok \<lparr>ro_batch = batch, ro_branches = intents @ traces @ snapshots @ errors, ro_dead_letter = dead\<rparr>))))))"

section \<open>What a validated configuration builds\<close>

definition scheme_of :: "(string \<Rightarrow> bool) \<Rightarrow> string \<Rightarrow> string" where
  "scheme_of brackets_ok text = (case urlparse brackets_ok text of Ok u \<Rightarrow> ur_scheme u | Err _ \<Rightarrow> [])"

lemma parse_sink_scheme: "parse_sink b fl text = Ok (scheme, parts) \<Longrightarrow> scheme = scheme_of b text \<and> scheme \<in> set SINK_SCHEMES"
  by (auto simp: parse_sink_def scheme_of_def Let_def split: if_splits)

lemma parse_sink_bus:
  assumes "parse_sink b fl text = Ok (scheme, parts)" "scheme \<in> set TRANSPORT_SCHEMES"
  shows "\<exists>a t. parts = [a, t] \<and> parse_intents_uri b text = Ok (scheme, a, t)"
proof -
  from assms obtain u where u: "urlparse b text = Ok u" "ur_scheme u = scheme" "ur_netloc u \<noteq> []"
    "length (segments (ur_path u)) = 1" "parts = [ur_netloc u, hd (segments (ur_path u))]"
    by (auto simp: parse_sink_def Let_def TRANSPORT_SCHEMES_def split: if_splits)
  then show ?thesis using assms(2) by (simp add: parse_intents_uri_def)
qed

lemma parse_sink_otlp: "parse_sink b fl text = Ok (''otlp'', parts) \<Longrightarrow> \<exists>e os. parse_otlp_uri b fl text = Ok (e, os)"
  by (auto simp: parse_sink_def Let_def split: if_splits)

lemma attach_keyed: "parse_intents_uri b text = Ok (x, y, z) \<Longrightarrow> attach b (KeyedWriteIntents text) = Ok True"
  by (simp add: attach_def write_intents_init_def)

fun bus_writer :: "writer \<Rightarrow> bool" where
  "bus_writer (WriteToKafka servers topic) \<longleftrightarrow> True"
| "bus_writer (WriteToPubSub topic) \<longleftrightarrow> True"
| "bus_writer w \<longleftrightarrow> False"

text \<open>Which writer each sink field gets for each scheme it accepts.\<close>

definition resolves_to :: "string \<Rightarrow> string \<Rightarrow> string \<Rightarrow> sink \<Rightarrow> bool" where
  "resolves_to field scheme text s =
     (if scheme = ''otlp'' then field = ''traces_to'' \<and> (\<exists>e os. s = WriteTracesToOtlp e os)
      else if scheme = ''bigquery'' then
        (\<exists>t. (field = ''intents_to'' \<and> s = BareWriter (WriteToBigQuery t)) \<or>
             (field = ''traces_to'' \<and> s = WriteTraces (TraceTable t) True) \<or>
             (field = ''errors_to'' \<and> s = WriteErrors (WriteToBigQuery t) True))
      else scheme \<in> set TRANSPORT_SCHEMES \<and>
        (\<exists>w. bus_writer w \<and>
             ((field = ''intents_to'' \<and> s = KeyedWriteIntents text) \<or>
              (field = ''traces_to'' \<and> s = WriteTraces w False) \<or>
              (field = ''errors_to'' \<and> s = WriteErrors w False) \<or>
              (field = ''snapshots_to'' \<and> s = WriteSnapshots w))))"

definition SINK_FIELDS :: "string list" where
  "SINK_FIELDS = [''intents_to'', ''traces_to'', ''errors_to'', ''snapshots_to'']"

lemma sink_validate_cases:
  assumes "sink_validate b fl field text = Ok ()"
  shows "\<exists>scheme parts. parse_sink b fl text = Ok (scheme, parts) \<and> scheme = scheme_of b text \<and>
    (scheme = ''otlp'' \<longrightarrow> field = ''traces_to'') \<and> (scheme = ''bigquery'' \<longrightarrow> field \<noteq> ''snapshots_to'') \<and>
    (scheme = ''kafka'' \<or> scheme = ''pubsub'' \<or> scheme = ''bigquery'' \<or> scheme = ''otlp'')"
proof -
  from assms obtain scheme parts where p: "parse_sink b fl text = Ok (scheme, parts)" by (auto simp: sink_validate_def)
  have "\<not> (scheme = ''otlp'' \<and> field \<noteq> ''traces_to'')" "\<not> (scheme = ''bigquery'' \<and> field = ''snapshots_to'')"
    using assms by (simp_all add: sink_validate_def p split: if_splits)
  then show ?thesis using p parse_sink_scheme [OF p] by (simp add: SINK_SCHEMES_def) blast
qed

lemma validated_resolves:
  assumes "sink_validate b fl field text = Ok ()" "field \<in> set SINK_FIELDS"
  shows "\<exists>s. sink_resolve b fl field text = Ok s \<and> resolves_to field (scheme_of b text) text s \<and>
    attach b s = Ok (field = ''intents_to'' \<and> scheme_of b text \<in> set TRANSPORT_SCHEMES)"
proof -
  from sink_validate_cases [OF assms(1)] obtain scheme parts where
    p: "parse_sink b fl text = Ok (scheme, parts)" "scheme = scheme_of b text"
      "scheme = ''otlp'' \<longrightarrow> field = ''traces_to''" "scheme = ''bigquery'' \<longrightarrow> field \<noteq> ''snapshots_to''"
      "scheme = ''kafka'' \<or> scheme = ''pubsub'' \<or> scheme = ''bigquery'' \<or> scheme = ''otlp''" by blast
  have r: "sink_resolve b fl field text =
      (if field = ''intents_to'' \<and> (scheme = ''kafka'' \<or> scheme = ''pubsub'') then Ok (KeyedWriteIntents text)
       else if scheme = ''otlp'' then otlp_transform b fl text
       else Ok (encoded_transform field scheme parts))"
    by (simp add: sink_resolve_def assms(1) p(1))
  show ?thesis
  proof (cases "scheme = ''otlp''")
    case True
    with p(1) obtain e os where e: "parse_otlp_uri b fl text = Ok (e, os)" using parse_sink_otlp by blast
    have f: "field \<noteq> ''intents_to''" "field = ''traces_to''" using True p(3) by simp_all
    have "sink_resolve b fl field text = Ok (WriteTracesToOtlp e os)"
      unfolding r using f(1) by (simp add: True otlp_transform_def e)
    moreover have "resolves_to field (scheme_of b text) text (WriteTracesToOtlp e os)"
      unfolding p(2) [symmetric] True resolves_to_def using f(2) by simp
    ultimately show ?thesis using f(1) by (auto simp: attach_def)
  next
    case otlp: False
    show ?thesis
    proof (cases "scheme = ''bigquery''")
      case True
      let ?s = "encoded_transform field scheme parts"
      have "field \<in> {''intents_to'', ''traces_to'', ''errors_to''}" using assms(2) p(4) True by (simp add: SINK_FIELDS_def)
      then have "resolves_to field scheme text ?s \<and> attach b ?s = Ok False"
        unfolding True resolves_to_def encoded_transform_def write_transform_def traces_bigquery_writer_def attach_def
        by (elim insertE emptyE) simp_all
      moreover have "sink_resolve b fl field text = Ok ?s" unfolding r using True by simp
      moreover have "scheme \<notin> set TRANSPORT_SCHEMES" by (simp add: True TRANSPORT_SCHEMES_def)
      ultimately show ?thesis using p(2) by auto
    next
      case no: False
      then have k: "scheme = ''kafka'' \<or> scheme = ''pubsub''" using otlp p(5) by simp
      then have tr: "scheme \<in> set TRANSPORT_SCHEMES" by (auto simp: TRANSPORT_SCHEMES_def)
      then obtain a t where at: "parse_intents_uri b text = Ok (scheme, a, t)" using parse_sink_bus [OF p(1)] by blast
      show ?thesis
      proof (cases "field = ''intents_to''")
        case True
        have "sink_resolve b fl field text = Ok (KeyedWriteIntents text)" unfolding r using True k by simp
        moreover have "resolves_to field scheme text (KeyedWriteIntents text)"
          unfolding resolves_to_def using True otlp no tr by (auto intro: exI [of _ "WriteToPubSub []"])
        ultimately show ?thesis using p(2) tr True attach_keyed [OF at] by auto
      next
        case False
        let ?w = "write_transform scheme parts" and ?s = "encoded_transform field scheme parts"
        have "bus_writer ?w" using k by (auto simp: write_transform_def)
        moreover have "field \<in> {''traces_to'', ''errors_to'', ''snapshots_to''}" using False assms(2) by (simp add: SINK_FIELDS_def)
        ultimately have "resolves_to field scheme text ?s \<and> attach b ?s = Ok False"
          unfolding resolves_to_def encoded_transform_def attach_def using otlp no tr by (elim insertE emptyE) simp_all
        moreover have "sink_resolve b fl field text = Ok ?s" unfolding r using False otlp by simp
        ultimately show ?thesis using p(2) False by auto
      qed
    qed
  qed
qed

lemmas parse_simps = urlparse_def split_scheme_def sanitize_def partition_at_def scheme_char_def is_lower_def is_upper_def
  is_digit_def code_def ends_netloc_def lower_def

lemma demo_uris:
  "urlparse b ''kafka://b:9092/i'' = Ok \<lparr>ur_scheme = ''kafka'', ur_netloc = ''b:9092'', ur_path = ''/i'', ur_query = []\<rparr>"
  "urlparse b ''otlp://c?tls=true'' = Ok \<lparr>ur_scheme = ''otlp'', ur_netloc = ''c'', ur_path = [], ur_query = ''tls=true''\<rparr>"
  "urlparse b ''bigquery://p/d/t'' = Ok \<lparr>ur_scheme = ''bigquery'', ur_netloc = ''p'', ur_path = ''/d/t'', ur_query = []\<rparr>"
  by (simp_all add: parse_simps)

lemma dec_default_port: "dec 4318 = ''4318''"
  by (simp add: dec_def dec_nat_literals digit_char_def) code_simp

lemma demo_otlp: "parse_otlp_uri b fl ''otlp://c?tls=true'' = Ok (''https://c:4318/v1/traces'', [])"
  by (simp add: parse_otlp_uri_def parse_endpoint_def demo_uris port_def hostname_def hostinfo_def after_last_def
      query_values_def query_pair_def unquote_plus_def otlp_bool_def endpoint_url_def OTLP_DEFAULT_PORT_def port_or_def
      dec_default_port parse_simps)

lemma demo_valid:
  "sink_validate b fl ''intents_to'' ''kafka://b:9092/i'' = Ok ()" "sink_validate b fl ''traces_to'' ''otlp://c?tls=true'' = Ok ()"
  "sink_validate b fl ''errors_to'' ''bigquery://p/d/t'' = Ok ()" "sink_validate b fl ''intents_to'' ''bigquery://p/d/t'' = Ok ()"
  by (simp_all add: sink_validate_def parse_sink_def demo_uris demo_otlp SINK_SCHEMES_def BIGQUERY_URI_SEGMENTS_def segments_def Let_def)

text \<open>
  Every URI that validates resolves, to the writer its field and scheme call for: no field but traces
  reaches the lossy OTLP exporter, snapshots never reach a table, and the intents of a \<open>bigquery\<close> sink
  reach the table writer without any encoder, as the only stream that does.
\<close>

theorem validated_sink_resolves:
  assumes "sink_validate b fl field text = Ok ()" "field \<in> set SINK_FIELDS"
  shows "\<exists>s. sink_resolve b fl field text = Ok s \<and> resolves_to field (scheme_of b text) text s"
  using validated_resolves [OF assms] by blast

theorem validated_sink_resolves_witness:
  "\<exists>s. sink_resolve (\<lambda>_. True) (\<lambda>_ _. NaN) ''intents_to'' ''bigquery://p/d/t'' = Ok s \<and>
     resolves_to ''intents_to'' ''bigquery'' ''bigquery://p/d/t'' s"
proof -
  have v: "sink_validate (\<lambda>_. True) (\<lambda>_ _. NaN) ''intents_to'' ''bigquery://p/d/t'' = Ok ()" by (rule demo_valid)
  have "scheme_of (\<lambda>_. True) ''bigquery://p/d/t'' = ''bigquery''" by (simp add: scheme_of_def demo_uris)
  with validated_sink_resolves [OF v] show ?thesis by (auto simp: SINK_FIELDS_def)
qed

section \<open>A validated configuration expands\<close>

lemma resolve_branch_ok:
  assumes "check_sink (default_resolver b fl) field to = Ok ()" "field \<in> set SINK_FIELDS"
  shows "\<exists>br. resolve_branch (default_resolver b fl) field label source to =
      Ok (br, (\<exists>text. to = Some text \<and> field = ''intents_to'' \<and> scheme_of b text \<in> set TRANSPORT_SCHEMES)) \<and>
    map (\<lambda>x. (fst x, fst (snd x))) br = (if to = None then [] else [(label, source)])"
proof (cases to)
  case (Some uri)
  then have "sink_validate b fl field uri = Ok ()" using assms(1) by (simp add: check_sink_def default_resolver_def)
  from validated_resolves [OF this assms(2)] show ?thesis using Some
    by (auto simp: resolve_branch_def default_resolver_def)
qed (simp add: resolve_branch_def)

text \<open>The branches a configuration asks for: a label with the stream it drains, in attachment order.\<close>

definition wired :: "(string \<Rightarrow> bool) \<Rightarrow> agent_config \<Rightarrow> (string \<times> stream) list" where
  "wired b c =
     (let dead = (\<exists>text. ac_intents_to c = Some text \<and> scheme_of b text \<in> set TRANSPORT_SCHEMES) in
      (if ac_intents_to c = None then [] else [(''WriteIntents'', Tagged ''intents'')]) @
      (if ac_traces_to c = None then [] else [(''WriteTraces'', Tagged ''traces'')]) @
      (if ac_snapshots_to c = None then [] else [(''WriteSnapshots'', Tagged ''snapshots'')]) @
      (if ac_errors_to c = None then []
       else [(''WriteErrors'', if dead then Flattened (Tagged ''errors'') IntentDeadLetters else Tagged ''errors'')]))"


definition demo_config :: agent_config where
  "demo_config =
     \<lparr>ac_decode = True, ac_activation_timeout = Finite 30, ac_ttl = 3600000, ac_cancel_grace = Finite 5,
      ac_hitl = \<lparr>hp_timeout = 1, hp_intent_ttl = 1, hp_channel = ''ops'', hp_max_escalations = 0, hp_on_timeout = deny\<rparr>,
      ac_intents_to = Some ''kafka://b:9092/i'', ac_traces_to = Some ''otlp://c?tls=true'',
      ac_errors_to = Some ''bigquery://p/d/t'', ac_snapshots_to = None, ac_longterm = None, ac_on_expire = False,
      ac_batch_policy = PolicyNone, ac_max_batch_size = None, ac_max_wait = None, ac_max_buffered = None,
      ac_max_tokens = Some 9\<rparr>"


section \<open>The endpoint of a best-effort sink\<close>

lemma lower_idem [simp]: "lower (lower s) = lower s"
  by (auto simp: lower_def is_upper_def code_def)

lemma lower_chars: "c \<in> set (lower s) \<Longrightarrow> c \<in> set s \<or> is_lower c"
  by (auto simp: lower_def is_upper_def is_lower_def code_def split: if_splits)

lemma partition_at_same: "partition_at c xs = (a, found, z) \<Longrightarrow> c \<notin> set a \<and> xs = a @ (if found then c # z else []) \<and> (\<not> found \<longrightarrow> z = [])"
  by (cases "c \<in> set xs") (auto simp: partition_at_absent partition_at_found dest!: split_list_first)

text \<open>The host part of an authority that spells no brackets: what precedes the first colon.\<close>

lemma hostinfo_plain:
  assumes "ur_netloc u = a" "set a \<inter> set ''@['' = {}"
  shows "hostinfo u = (case partition_at (CHR '':'') a of (h, _, p) \<Rightarrow> (h, p))"
proof -
  have t: "takeWhile (\<lambda>d. d \<noteq> CHR ''@'') (rev a) = rev a" using assms(2) by (auto simp: takeWhile_eq_all_conv)
  have "after_last (CHR ''@'') a = a" unfolding after_last_def t by simp
  moreover have "partition_at (CHR ''['') a = (a, False, [])" using assms(2) by (intro partition_at_absent) auto
  ultimately show ?thesis using assms(1) by (simp add: hostinfo_def Let_def split_beta)
qed

lemma netloc_chars:
  assumes "urlparse b text = Ok u" "c \<in> set (ur_netloc u)"
  shows "\<not> ends_netloc c" and "code c \<notin> {9, 10, 13}"
proof -
  obtain sch rest where s: "split_scheme (sanitize text) = (sch, rest)" by (metis prod.exhaust)
  obtain a f z where p: "partition_at (CHR '':'') (sanitize text) = (a, f, z)" by (metis prod.exhaust)
  have "rest = z \<or> rest = sanitize text" using s by (simp add: split_scheme_def p split: if_splits)
  then have rest: "set rest \<subseteq> set (sanitize text)" using partition_at_same [OF p] by auto
  have "ur_netloc u = (if prefix ''//'' rest then takeWhile (\<lambda>c. \<not> ends_netloc c) (drop 2 rest) else [])"
    using assms(1) by (simp add: urlparse_def s Let_def split_beta split: if_splits) (auto)
  then have c: "\<not> ends_netloc c \<and> c \<in> set rest"
    using assms(2) by (auto split: if_splits dest!: set_takeWhileD in_set_dropD)
  then show "\<not> ends_netloc c" by simp
  from c rest have "c \<in> set (sanitize text)" by blast
  then show "code c \<notin> {9, 10, 13}" by (simp add: sanitize_def)
qed

lemma hostinfo_chars:
  assumes "hostinfo u = (h, p)"
  shows "set h \<subseteq> set (ur_netloc u) - {CHR ''@''}"
proof -
  let ?i = "after_last (CHR ''@'') (ur_netloc u)"
  have i: "set ?i \<subseteq> set (ur_netloc u) - {CHR ''@''}"
    by (auto simp: after_last_def dest: set_takeWhileD)
  obtain a b z where s: "partition_at (CHR ''['') ?i = (a, b, z)" by (metis prod.exhaust)
  obtain a' b' z' where t: "partition_at (CHR '']'') z = (a', b', z')" by (metis prod.exhaust)
  obtain a'' b'' z'' where v: "partition_at (CHR '':'') ?i = (a'', b'', z'')" by (metis prod.exhaust)
  have "h = (if b then a' else a'')" using assms by (simp add: hostinfo_def Let_def s t v split: if_splits)
  then have "set h \<subseteq> set ?i"
    using partition_at_same [OF s] partition_at_same [OF t] partition_at_same [OF v] by (cases b) auto
  with i show ?thesis by blast
qed

lemma hostname_parts:
  assumes "hostinfo u = (h, p)" "hostname u = Some host"
  shows "set host \<subseteq> {c. c \<in> set h \<or> is_lower c}" and "host \<noteq> []" and "hostinfo v = (host, q) \<Longrightarrow> hostname v = Some host"
proof -
  obtain a f z where s: "partition_at (CHR ''%'') h = (a, f, z)" by (metis prod.exhaust)
  from partition_at_same [OF s] have a: "CHR ''%'' \<notin> set a" "h = a @ (if f then CHR ''%'' # z else [])" by auto
  have host: "host = lower a @ (if f then CHR ''%'' # z else [])" and h: "h \<noteq> []"
    using assms s by (auto simp: hostname_def split: list.splits)
  show "set host \<subseteq> {c. c \<in> set h \<or> is_lower c}" using lower_chars by (auto simp: host a(2))
  show ne: "host \<noteq> []" using h a by (auto simp: host lower_def)
  have "CHR ''%'' \<notin> set (lower a)" using lower_chars [of "CHR ''%''" a] a(1) by (auto simp: is_lower_def code_def)
  then have "partition_at (CHR ''%'') host = (lower a, f, if f then z else [])"
    by (simp add: host partition_at_found partition_at_absent)
  then show "hostname v = Some host" if "hostinfo v = (host, q)" using that ne by (cases host) (auto simp: hostname_def host)
qed

lemma dec_port: "0 \<le> p \<Longrightarrow> list_all is_digit (dec p) \<and> read_nat (dec p) 0 = nat p \<and> dec p \<noteq> []"
  by (auto simp: dec_def read_dec_nat list_all_iff dec_nat_digits)

lemma urlparse_endpoint:
  assumes "set host \<inter> set ''/?#[]'' = {}" "\<forall>c\<in>set host. code c \<notin> {9, 10, 13}" "0 \<le> p"
  shows "urlparse b (endpoint_url tls host p @ ''/v1/traces'') =
    Ok \<lparr>ur_scheme = (if tls then ''https'' else ''http''), ur_netloc = host @ CHR '':'' # dec p, ur_path = ''/v1/traces'', ur_query = []\<rparr>"
proof -
  let ?s = "if tls then ''https'' else ''http''" and ?n = "host @ CHR '':'' # dec p"
  let ?t = "endpoint_url tls host p @ ''/v1/traces''"
  have t: "?t = ?s @ ''://'' @ ?n @ ''/v1/traces''" by (simp add: endpoint_url_def)
  have d: "\<forall>c\<in>set (dec p). is_digit c" using dec_port [OF assms(3)] by (simp add: list_all_iff)
  then have dc: "\<forall>c\<in>set (dec p). 48 \<le> code c \<and> code c \<le> 57" by (simp add: is_digit_def code_def)
  have nl: "\<forall>c\<in>set ?n. \<not> ends_netloc c" using assms(1) dc by (auto simp: ends_netloc_def code_def)
  have br: "CHR ''['' \<notin> set ?n" "CHR '']'' \<notin> set ?n" using assms(1) dc by (auto simp: code_def)
  have "sanitize ?t = ?t"
    unfolding sanitize_def t using assms(2) dc by (auto simp: code_def filter_id_conv)
  moreover have "partition_at (CHR '':'') ?t = (?s, True, ''//'' @ ?n @ ''/v1/traces'')"
    unfolding t using partition_at_found [of "CHR '':''" ?s "''//'' @ ?n @ ''/v1/traces''"] by simp
  ultimately have "split_scheme (sanitize ?t) = (?s, ''//'' @ ?n @ ''/v1/traces'')"
    by (simp add: split_scheme_def scheme_char_def is_lower_def is_upper_def lower_def code_def)
  moreover have "takeWhile (\<lambda>c. \<not> ends_netloc c) (?n @ ''/v1/traces'') = ?n"
    "dropWhile (\<lambda>c. \<not> ends_netloc c) (?n @ ''/v1/traces'') = ''/v1/traces''"
    using nl by (simp_all add: takeWhile_append dropWhile_append ends_netloc_def)
  moreover have "partition_at (CHR ''?'') ''/v1/traces'' = (''/v1/traces'', False, [])" by (simp add: partition_at_def)
  ultimately show ?thesis using br by (simp add: urlparse_def)
qed

lemma port_range: "port u = Ok (Some p) \<Longrightarrow> 0 \<le> p \<and> p \<le> 65535"
  by (auto simp: port_def Let_def split: if_splits)

lemma parse_endpoint_Ok:
  assumes "parse_endpoint b parser d tail text = Ok (url, os)"
  shows "\<exists>u n host tls. urlparse b text = Ok u \<and> port u = Ok n \<and> hostname u = Some host \<and>
    read_options parser (query_values (ur_query u)) (False, []) = Ok (tls, os) \<and>
    url = endpoint_url tls host (port_or d n) @ tail"
proof -
  from assms obtain u where u: "urlparse b text = Ok u" unfolding parse_endpoint_def bindE_Ok_iff by blast
  note parsed = assms [unfolded parse_endpoint_def u bindE.simps]
  obtain n where n: "port u = Ok n" using parsed by (cases "port u") simp_all
  obtain host where h: "hostname u = Some host" using parsed by (cases "hostname u") (simp_all add: n)
  let ?r = "read_options parser (query_values (ur_query u)) (False, [])"
  obtain tls options where r: "?r = Ok (tls, options)"
    using parsed by (cases ?r) (auto simp: n h split: if_splits)
  have "options = os \<and> url = endpoint_url tls host (port_or d n) @ tail"
    using parsed by (simp add: n h r split: if_splits)
  with u n h r show ?thesis by blast
qed

lemma endpoint_of:
  assumes "parse_otlp_uri b fl text = Ok (url, os)" "urlparse b text = Ok u" "hostname u = Some host"
  shows "\<exists>n tls. port u = Ok n \<and> url = endpoint_url tls host (port_or OTLP_DEFAULT_PORT n) @ ''/v1/traces'' \<and>
    0 \<le> port_or OTLP_DEFAULT_PORT n \<and> port_or OTLP_DEFAULT_PORT n \<le> 65535"
proof -
  from parse_endpoint_Ok [OF assms(1) [unfolded parse_otlp_uri_def]] assms(2,3) obtain n tls where
    n: "port u = Ok n" "url = endpoint_url tls host (port_or OTLP_DEFAULT_PORT n) @ ''/v1/traces''" by auto
  moreover have "0 \<le> port_or OTLP_DEFAULT_PORT n \<and> port_or OTLP_DEFAULT_PORT n \<le> 65535"
    using port_range [of u] n by (cases n) (simp_all add: port_or_def OTLP_DEFAULT_PORT_def)
  ultimately show ?thesis by blast
qed

lemma endpoint_reparsed:
  assumes "urlparse b text = Ok u" "hostname u = Some host" "set host \<inter> set ''[]'' = {}" "0 \<le> p" "p \<le> 65535"
  shows "\<exists>v. urlparse b (endpoint_url tls host p @ ''/v1/traces'') = Ok v \<and> ur_path v = ''/v1/traces'' \<and> ur_query v = [] \<and>
    (hostname v = Some host \<longleftrightarrow> CHR '':'' \<notin> set host) \<and> (CHR '':'' \<notin> set host \<longrightarrow> port v = Ok (Some p))"
proof -
  obtain h q where hi: "hostinfo u = (h, q)" by (metis prod.exhaust)
  have host: "set host \<subseteq> {c. (c \<in> set (ur_netloc u) \<and> c \<noteq> CHR ''@'') \<or> is_lower c}"
    using hostname_parts(1) [OF hi assms(2)] hostinfo_chars [OF hi] by auto
  have net: "\<not> ends_netloc c" "code c \<notin> {9, 10, 13}" "c \<noteq> CHR ''@''" if "c \<in> set host" for c
    using that host netloc_chars [OF assms(1), of c] by (auto simp: ends_netloc_def is_lower_def code_def)
  have chars: "set host \<inter> set ''/?#[]'' = {}" "\<forall>c\<in>set host. code c \<notin> {9, 10, 13}" "CHR ''@'' \<notin> set host"
    using net assms(3) by (auto simp: ends_netloc_def)
  let ?n = "host @ CHR '':'' # dec p"
  obtain v where v: "urlparse b (endpoint_url tls host p @ ''/v1/traces'') = Ok v" "ur_netloc v = ?n"
    "ur_path v = ''/v1/traces''" "ur_query v = []"
    using urlparse_endpoint [OF chars(1,2) assms(4)] by simp
  have d: "list_all is_digit (dec p)" "read_nat (dec p) 0 = nat p" "dec p \<noteq> []" using dec_port [OF assms(4)] by auto
  then have dc: "\<forall>c\<in>set (dec p). c \<notin> set ''@[''" by (auto simp: list_all_iff is_digit_def)
  then have "set ?n \<inter> set ''@['' = {}" using chars by auto
  from hostinfo_plain [OF v(2) this] have hv: "hostinfo v = (case partition_at (CHR '':'') ?n of (h, _, p) \<Rightarrow> (h, p))" .
  have "hostname v = Some host \<and> port v = Ok (Some p)" if "CHR '':'' \<notin> set host"
  proof -
    have k: "hostinfo v = (host, dec p)" using hv partition_at_found [OF that] by simp
    have "port v = Ok (Some p)" unfolding port_def k Let_def using d assms(4,5) by simp
    with hostname_parts(3) [OF hi assms(2) k] show ?thesis by simp
  qed
  moreover have "hostname v \<noteq> Some host" if "CHR '':'' \<in> set host"
  proof
    obtain a f z where s: "partition_at (CHR '':'') ?n = (a, f, z)" by (metis prod.exhaust)
    have k: "hostinfo v = (a, z)" using hv s by simp
    assume "hostname v = Some host"
    from hostname_parts(1) [OF k this] that partition_at_same [OF s] show False by (auto simp: is_lower_def code_def)
  qed
  ultimately show ?thesis using v by blast
qed

text \<open>
  C23: The endpoint a validated \<open>otlp://\<close> URI is rewritten to names the host and port of the URI, and nothing
  but the traces path, exactly when the host holds no colon: a bracketed IPv6 host loses its brackets,
  and the endpoint no longer names it.
\<close>

theorem endpoint_keeps_host:
  assumes "parse_otlp_uri b fl text = Ok (url, os)" "urlparse b text = Ok u" "hostname u = Some host"
    and "set host \<inter> set ''[]'' = {}"
  shows "\<exists>v n. urlparse b url = Ok v \<and> ur_path v = ''/v1/traces'' \<and> ur_query v = [] \<and>
    port u = Ok n \<and> (hostname v = Some host \<longleftrightarrow> CHR '':'' \<notin> set host) \<and>
    (CHR '':'' \<notin> set host \<longrightarrow> port v = Ok (Some (port_or OTLP_DEFAULT_PORT n)))"
  using endpoint_of [OF assms(1-3)] endpoint_reparsed [OF assms(2-4)] by blast

lemma ipv6_uri:
  assumes "b ''[::1]:4318''"
  shows "urlparse b ''otlp://[::1]:4318'' =
    Ok \<lparr>ur_scheme = ''otlp'', ur_netloc = ''[::1]:4318'', ur_path = [], ur_query = []\<rparr>"
  using assms by (simp add: parse_simps)

theorem endpoint_keeps_host_witness:
  "(\<exists>v. urlparse (\<lambda>_. True) ''https://c:4318/v1/traces'' = Ok v \<and> hostname v = Some ''c'') \<and>
   parse_otlp_uri (\<lambda>_. True) (\<lambda>_ _. NaN) ''otlp://[::1]:4318'' = Ok (''http://::1:4318/v1/traces'', []) \<and>
   (\<exists>v. urlparse (\<lambda>_. True) ''http://::1:4318/v1/traces'' = Ok v \<and> hostname v \<noteq> Some ''::1'')"
proof (intro conjI)
  have "hostname \<lparr>ur_scheme = ''otlp'', ur_netloc = ''c'', ur_path = [], ur_query = ''tls=true''\<rparr> = Some ''c''"
    by (simp add: hostname_def hostinfo_def after_last_def parse_simps)
  from endpoint_keeps_host [OF demo_otlp demo_uris(2) this]
  show "\<exists>v. urlparse (\<lambda>_. True) ''https://c:4318/v1/traces'' = Ok v \<and> hostname v = Some ''c''" by auto
  let ?u = "\<lparr>ur_scheme = ''otlp'', ur_netloc = ''[::1]:4318'', ur_path = [], ur_query = []\<rparr>"
  have h: "hostname ?u = Some ''::1''" by (simp add: hostname_def hostinfo_def after_last_def parse_simps)
  have "read_nat ''4318'' 0 = 4318" by (simp add: of_char_def)
  then have "port ?u = Ok (Some 4318)" by (simp add: port_def hostinfo_def after_last_def parse_simps)
  then show p: "parse_otlp_uri (\<lambda>_. True) (\<lambda>_ _. NaN) ''otlp://[::1]:4318'' = Ok (''http://::1:4318/v1/traces'', [])"
    by (simp add: parse_otlp_uri_def parse_endpoint_def ipv6_uri h query_values_def endpoint_url_def port_or_def dec_default_port)
  from endpoint_keeps_host [OF p ipv6_uri h]
  show "\<exists>v. urlparse (\<lambda>_. True) ''http://::1:4318/v1/traces'' = Ok v \<and> hostname v \<noteq> Some ''::1''" by auto
qed

text \<open>
  A deadline that is not a number passes the positivity check, and no remaining time computed from it
  is ever seen to run out.
\<close>

theorem nan_deadline_accepted:
  "parse_otlp_uri b fl ''otlp://c?flush_deadline_s=nan'' =
    Ok (''http://c:4318/v1/traces'', [(''flush_deadline_s'', OptFloat NaN)]) \<and> \<not> not_positive NaN"
proof -
  have u: "urlparse b ''otlp://c?flush_deadline_s=nan'' =
      Ok \<lparr>ur_scheme = ''otlp'', ur_netloc = ''c'', ur_path = [], ur_query = ''flush_deadline_s=nan''\<rparr>"
    by (simp add: parse_simps)
  have f: "float_of_text fl ''nan'' = Ok NaN" by (simp add: float_of_text_def strip_def is_space_def lower_def is_upper_def code_def)
  show ?thesis
    by (simp add: parse_otlp_uri_def parse_endpoint_def u port_def hostname_def hostinfo_def after_last_def
        query_values_def query_pair_def unquote_plus_def otlp_option_def positive_float_def f not_positive_def
        endpoint_url_def OTLP_DEFAULT_PORT_def port_or_def dec_default_port parse_simps)
qed

end
