(* ===== verification/Console_Sink.thy ===== *)
theory Console_Sink
  imports Pipeline Console_Errors
begin

text \<open>
  The \<open>console://\<close> sink (\<open>console/_sink.py\<close>): its URI grammar, the encoding and framing of records, the
  transform and the resolver that wraps another one. Its threads are those of \<open>Delivery\<close>, with a
  teardown that leaves the client open under a live sender. The protobuf codecs are parameters.
\<close>

section \<open>Configuration\<close>

definition SCHEME :: string where "SCHEME = ''console''"
definition CONSOLE_PORT :: int where "CONSOLE_PORT = 8787"
definition CONSOLE_BATCH_SIZE :: int where "CONSOLE_BATCH_SIZE = 256"
definition CONSOLE_FLUSH_DEADLINE_S :: real where "CONSOLE_FLUSH_DEADLINE_S = 2"
definition CONSOLE_QUEUE_BATCHES :: int where "CONSOLE_QUEUE_BATCHES = 8"

definition INGEST_PATHS :: "(string \<times> string) list" where
  "INGEST_PATHS = [(''traces'', ''/ingest/traces''), (''errors'', ''/ingest/errors''), (''snapshots'', ''/ingest/snapshots'')]"

definition FIELD_RECORD_KINDS :: "(string \<times> string) list" where
  "FIELD_RECORD_KINDS = [(''traces_to'', ''traces''), (''errors_to'', ''errors''), (''snapshots_to'', ''snapshots'')]"

definition console_option :: "(int \<Rightarrow> int \<Rightarrow> pyfloat) \<Rightarrow> option_parser" where
  "console_option fl key text =
     (if key = ''batch_size'' \<or> key = ''queue_batches'' then positive_int text
      else if key = ''flush_deadline_s'' then positive_float fl text
      else Err KeyError)"

definition parse_console_uri ::
  "(string \<Rightarrow> bool) \<Rightarrow> (int \<Rightarrow> int \<Rightarrow> pyfloat) \<Rightarrow> string \<Rightarrow> (string \<times> (string, option_value) dict) res" where
  "parse_console_uri brackets_ok fl text = parse_endpoint brackets_ok (console_option fl) CONSOLE_PORT [] text"

section \<open>Records on the wire\<close>

text \<open>A pipeline element by its Python type.\<close>

datatype element =
    TraceEventElement trace_event
  | ActivationErrorElement activation_error_record
  | ErrorRecordElement activation_error_record
  | SnapshotElement state_snapshot
  | OtherElement

record codecs =
  cd_trace :: "trace_event \<Rightarrow> bytes"
  cd_error :: "activation_error_record \<Rightarrow> bytes"
  cd_snapshot :: "state_snapshot \<Rightarrow> bytes"

definition encode_element :: "codecs \<Rightarrow> string \<Rightarrow> element \<Rightarrow> bytes res" where
  "encode_element cd kind element =
     (if kind = ''traces'' then
        (case element of TraceEventElement e \<Rightarrow> Ok (cd_trace cd e) | _ \<Rightarrow> Err TypeError)
      else if kind = ''errors'' then
        (case element of
           ActivationErrorElement r \<Rightarrow> Ok (cd_error cd r)
         | ErrorRecordElement r \<Rightarrow> Ok (cd_error cd r)
         | _ \<Rightarrow> Err TypeError)
      else if kind = ''snapshots'' then
        (case element of SnapshotElement s \<Rightarrow> Ok (cd_snapshot cd s) | _ \<Rightarrow> Err TypeError)
      else Err TypeError)"

definition frame_payloads :: "bytes list \<Rightarrow> bytes" where
  "frame_payloads payloads = concat (map (\<lambda>p. varint (length p) @ p) payloads)"

section \<open>The transform and its threads\<close>

record console_write =
  cw_endpoint :: string
  cw_kind :: string
  cw_options :: "(string, option_value) dict"

definition rstrip_slash :: "string \<Rightarrow> string" where
  "rstrip_slash s = rev (dropWhile (\<lambda>c. c = CHR ''/'') (rev s))"

definition CONSOLE_OPTIONS :: "string list" where
  "CONSOLE_OPTIONS = [''batch_size'', ''flush_deadline_s'', ''queue_batches'']"

text \<open>\<open>WriteToConsole(endpoint, record_kind=..., **options)\<close>: an unknown keyword is a \<open>TypeError\<close>.\<close>

definition write_to_console :: "string \<Rightarrow> string \<Rightarrow> (string, option_value) dict \<Rightarrow> console_write res" where
  "write_to_console endpoint kind options =
     (if \<not> fst ` set options \<subseteq> set CONSOLE_OPTIONS then Err TypeError
      else if kind \<notin> fst ` set INGEST_PATHS then Err ValueError
      else Ok \<lparr>cw_endpoint = rstrip_slash endpoint, cw_kind = kind, cw_options = options\<rparr>)"

definition ingest_url :: "console_write \<Rightarrow> string" where
  "ingest_url w = cw_endpoint w @ (case map_of INGEST_PATHS (cw_kind w) of None \<Rightarrow> [] | Some p \<Rightarrow> p)"

definition console_config :: "int \<Rightarrow> real \<Rightarrow> int \<Rightarrow> export_config" where
  "console_config batch_size flush_deadline queue_batches =
     \<lparr>ec_batch_size = batch_size, ec_flush_deadline = flush_deadline, ec_queue_batches = queue_batches,
      ec_close_live = False\<rparr>"

definition console_default :: export_config where
  "console_default = console_config CONSOLE_BATCH_SIZE CONSOLE_FLUSH_DEADLINE_S CONSOLE_QUEUE_BATCHES"

definition console_encode :: "codecs \<Rightarrow> string \<Rightarrow> element \<Rightarrow> bytes option res" where
  "console_encode cd kind element = bindE (encode_element cd kind element) (\<lambda>b. Ok (Some b))"

text \<open>
  The DoFn repeats the exporter's two threads line by line; its steps are theirs with this encoder.
\<close>

definition console_beam_step ::
  "codecs \<Rightarrow> string \<Rightarrow> export_config \<Rightarrow> element call option \<Rightarrow> real \<Rightarrow> bytes exporter \<Rightarrow> bytes exporter option" where
  "console_beam_step cd kind cfg = beam_step (console_encode cd kind) cfg"

definition console_sender_step :: "export_config \<Rightarrow> answer \<Rightarrow> real \<Rightarrow> bytes exporter \<Rightarrow> bytes exporter option" where
  "console_sender_step cfg = sender_step cfg"

interpretation console: delivery "console_encode cd kind" console_default for cd kind
  by unfold_locales (simp_all add: console_default_def console_config_def CONSOLE_BATCH_SIZE_def CONSOLE_QUEUE_BATCHES_def)

section \<open>The resolver\<close>

datatype 'p console_sink = ConsoleWrite console_write | Delegated 'p

definition console_validate ::
  "(string \<Rightarrow> bool) \<Rightarrow> (int \<Rightarrow> int \<Rightarrow> pyfloat) \<Rightarrow> 'p sink_resolver \<Rightarrow> string \<Rightarrow> string \<Rightarrow> unit res" where
  "console_validate brackets_ok fl delegate field text =
     bindE (urlparse brackets_ok text) (\<lambda>u.
       if ur_scheme u \<noteq> SCHEME then rs_validate delegate field text
       else if field \<notin> fst ` set FIELD_RECORD_KINDS then Err UnknownSinkSchemeError
       else bindE (parse_console_uri brackets_ok fl text) (\<lambda>_. Ok ()))"

text \<open>\<open>{**self._options, **options}\<close>: the option of the URI wins.\<close>

definition console_resolve ::
  "(string \<Rightarrow> bool) \<Rightarrow> (int \<Rightarrow> int \<Rightarrow> pyfloat) \<Rightarrow> 'p sink_resolver \<Rightarrow> (string, option_value) dict \<Rightarrow> string \<Rightarrow> string \<Rightarrow>
   'p console_sink res" where
  "console_resolve brackets_ok fl delegate presets field text =
     bindE (urlparse brackets_ok text) (\<lambda>u.
       if ur_scheme u \<noteq> SCHEME then bindE (rs_resolve delegate field text) (\<lambda>s. Ok (Delegated s))
       else
         bindE (console_validate brackets_ok fl delegate field text) (\<lambda>_.
         bindE (parse_console_uri brackets_ok fl text) (\<lambda>(endpoint, options).
         case map_of FIELD_RECORD_KINDS field of
           None \<Rightarrow> Err KeyError
         | Some kind \<Rightarrow>
             bindE (write_to_console endpoint kind (dict_update presets options)) (\<lambda>w. Ok (ConsoleWrite w)))))"

definition console_attach :: "'p sink_resolver \<Rightarrow> 'p console_sink \<Rightarrow> bool res" where
  "console_attach delegate s = (case s of ConsoleWrite w \<Rightarrow> Ok False | Delegated p \<Rightarrow> rs_attach delegate p)"

definition console_resolver ::
  "(string \<Rightarrow> bool) \<Rightarrow> (int \<Rightarrow> int \<Rightarrow> pyfloat) \<Rightarrow> 'p sink_resolver \<Rightarrow> (string, option_value) dict \<Rightarrow> 'p console_sink sink_resolver" where
  "console_resolver brackets_ok fl delegate presets =
     \<lparr>rs_validate = console_validate brackets_ok fl delegate,
      rs_resolve = console_resolve brackets_ok fl delegate presets,
      rs_attach = console_attach delegate\<rparr>"

section \<open>Lemmas\<close>

lemma frame_payloads_records: "frame_payloads (map f ms) = frame_records f ms"
  by (simp add: frame_payloads_def frame_records_def comp_def)

lemma read_options_keys:
  "read_options parser qs (tls, os) = Ok (tls', os') \<Longrightarrow> (\<And>k t x. parser k t = Ok x \<Longrightarrow> k \<in> K) \<Longrightarrow>
   fst ` set os \<subseteq> K \<Longrightarrow> fst ` set os' \<subseteq> K"
proof (induction parser qs "(tls, os)" arbitrary: tls os rule: read_options.induct)
  case (2 parser key t rest tls os)
  show ?case
  proof (cases "key = ''tls''")
    case True
    with 2 show ?thesis by (auto split: sum.splits)
  next
    case False
    then obtain x where x: "parser key t = Ok x" "read_options parser rest (tls, AList.update key x os) = Ok (tls', os')"
      using 2(3) by (auto split: sum.splits)
    have "fst ` set (AList.update key x os) \<subseteq> K" using 2(4)[OF x(1)] 2(5) dom_update [of key x os] by simp
    then show ?thesis using 2(2)[OF False x(1,2)] 2(4) by blast
  qed
qed simp

lemma console_options:
  assumes "parse_console_uri b fl text = Ok (endpoint, options)"
  shows "fst ` set options \<subseteq> set CONSOLE_OPTIONS"
proof -
  from parse_endpoint_Ok [OF assms [unfolded parse_console_uri_def]] obtain u :: uri and tls where
    "read_options (console_option fl) (query_values (ur_query u)) (False, []) = Ok (tls, options)" by auto
  then show ?thesis
    by (rule read_options_keys) (auto simp: console_option_def CONSOLE_OPTIONS_def split: if_splits)
qed

lemma dict_update_keys: "fst ` set (dict_update d new) = fst ` set d \<union> fst ` set new"
  unfolding dict_update_def
proof (induction new arbitrary: d)
  case (Cons kv new)
  have "fst ` set (AList.update k v d) = insert k (fst ` set d)" for k v
    using dom_update [of k v d] by simp
  with Cons show ?case by (simp add: split_beta)
qed simp

text \<open>
  The wrapping resolver: every \<open>console://\<close> URI that validates resolves, to a writer for the kind of
  record its field carries, posting to that kind's path; no intents sink is one; and every other URI
  is answered by the wrapped resolver alone.
\<close>

theorem console_uri_resolves:
  assumes "fst ` set presets \<subseteq> set CONSOLE_OPTIONS"
  shows "(scheme_of b text = SCHEME \<and> console_validate b fl delegate field text = Ok () \<longrightarrow>
      (\<exists>w endpoint options. console_resolve b fl delegate presets field text = Ok (ConsoleWrite w) \<and>
         parse_console_uri b fl text = Ok (endpoint, options) \<and> map_of FIELD_RECORD_KINDS field = Some (cw_kind w) \<and>
         ingest_url w = rstrip_slash endpoint @ ''/ingest/'' @ cw_kind w \<and> cw_options w = dict_update presets options)) \<and>
    (scheme_of b text = SCHEME \<longrightarrow> console_validate b fl delegate ''intents_to'' text = Err UnknownSinkSchemeError) \<and>
    (urlparse b text = Ok u \<and> ur_scheme u \<noteq> SCHEME \<longrightarrow>
       console_validate b fl delegate field text = rs_validate delegate field text \<and>
       console_resolve b fl delegate presets field text = bindE (rs_resolve delegate field text) (\<lambda>s. Ok (Delegated s)))"
proof (intro conjI impI)
  assume a: "scheme_of b text = SCHEME \<and> console_validate b fl delegate field text = Ok ()"
  then obtain v where v: "urlparse b text = Ok v" "ur_scheme v = SCHEME"
    by (auto simp: scheme_of_def SCHEME_def split: sum.splits)
  from a obtain endpoint options where p: "parse_console_uri b fl text = Ok (endpoint, options)"
    and f: "field \<in> fst ` set FIELD_RECORD_KINDS"
    by (auto simp: console_validate_def v split: if_splits)
  then obtain kind where k: "map_of FIELD_RECORD_KINDS field = Some kind" "map_of INGEST_PATHS kind = Some (''/ingest/'' @ kind)"
    "kind \<in> fst ` set INGEST_PATHS"
    by (auto simp: FIELD_RECORD_KINDS_def INGEST_PATHS_def)
  have "fst ` set (dict_update presets options) \<subseteq> set CONSOLE_OPTIONS"
    using assms console_options [OF p] by (simp add: dict_update_keys)
  then have w: "write_to_console endpoint kind (dict_update presets options) =
      Ok \<lparr>cw_endpoint = rstrip_slash endpoint, cw_kind = kind, cw_options = dict_update presets options\<rparr>"
    using k(3) by (simp add: write_to_console_def)
  show "\<exists>w endpoint options. console_resolve b fl delegate presets field text = Ok (ConsoleWrite w) \<and>
         parse_console_uri b fl text = Ok (endpoint, options) \<and> map_of FIELD_RECORD_KINDS field = Some (cw_kind w) \<and>
         ingest_url w = rstrip_slash endpoint @ ''/ingest/'' @ cw_kind w \<and> cw_options w = dict_update presets options"
    using a v p k w by (simp add: console_resolve_def ingest_url_def)
next
  assume "scheme_of b text = SCHEME"
  then show "console_validate b fl delegate ''intents_to'' text = Err UnknownSinkSchemeError"
    by (auto simp: scheme_of_def SCHEME_def console_validate_def FIELD_RECORD_KINDS_def split: sum.splits)
qed (simp_all add: console_validate_def console_resolve_def)

text \<open>A URI that tunes one option; the resolver's own batch size stays.\<close>

theorem console_uri_resolves_witness:
  "\<exists>w. console_resolve (\<lambda>_. True) (\<lambda>_ _. NaN) (default_resolver (\<lambda>_. True) (\<lambda>_ _. NaN)) [(''batch_size'', OptInt 4)]
     ''errors_to'' ''console://c?queue_batches=2'' = Ok (ConsoleWrite w) \<and>
     ingest_url w = ''http://c:8787/ingest/errors'' \<and> cw_options w = [(''batch_size'', OptInt 4), (''queue_batches'', OptInt 2)]"
proof -
  let ?b = "\<lambda>_::string. True" and ?fl = "\<lambda>_ _. NaN" and ?t = "''console://c?queue_batches=2''"
  let ?d = "default_resolver ?b ?fl" and ?o = "[(''batch_size'', OptInt 4)]"
  have u: "urlparse ?b ?t = Ok \<lparr>ur_scheme = ''console'', ur_netloc = ''c'', ur_path = [], ur_query = ''queue_batches=2''\<rparr>"
    by (simp add: parse_simps)
  have i: "int_of_text ''2'' = Ok 2"
    by (simp add: int_of_text_def strip_def is_space_def is_digit_def MAX_STR_DIGITS_def)
  have port: "dec 8787 = ''8787''" by (simp add: dec_def dec_nat_literals digit_char_def) code_simp
  have p: "parse_console_uri ?b ?fl ?t = Ok (''http://c:8787'', [(''queue_batches'', OptInt 2)])"
    by (simp add: parse_console_uri_def parse_endpoint_def u port_def hostname_def hostinfo_def after_last_def
        query_values_def query_pair_def unquote_plus_def console_option_def positive_int_def i
        endpoint_url_def CONSOLE_PORT_def port_or_def port parse_simps)
  have v: "console_validate ?b ?fl ?d ''errors_to'' ?t = Ok ()"
    by (simp add: console_validate_def u SCHEME_def FIELD_RECORD_KINDS_def p)
  have sch: "scheme_of ?b ?t = SCHEME" by (simp add: scheme_of_def u SCHEME_def)
  have o: "fst ` set ?o \<subseteq> set CONSOLE_OPTIONS" by (simp add: CONSOLE_OPTIONS_def)
  from console_uri_resolves [OF o, THEN conjunct1, rule_format, OF conjI [OF sch v]] obtain w e os where
    w: "console_resolve ?b ?fl ?d ?o ''errors_to'' ?t = Ok (ConsoleWrite w)"
      "parse_console_uri ?b ?fl ?t = Ok (e, os)" "map_of FIELD_RECORD_KINDS ''errors_to'' = Some (cw_kind w)"
      "ingest_url w = rstrip_slash e @ ''/ingest/'' @ cw_kind w" "cw_options w = dict_update ?o os"
    by blast
  have e: "e = ''http://c:8787''" "os = [(''queue_batches'', OptInt 2)]" using p w(2) by simp_all
  have "cw_kind w = ''errors''" using w(3) by (simp add: FIELD_RECORD_KINDS_def)
  then have "ingest_url w = ''http://c:8787/ingest/errors''" using w(4) by (simp add: e rstrip_slash_def)
  moreover have "cw_options w = [(''batch_size'', OptInt 4), (''queue_batches'', OptInt 2)]"
    using w(5) by (simp add: e dict_update_def)
  ultimately show ?thesis using w(1) by blast
qed

section \<open>From the sink to the endpoint\<close>

text \<open>
  What the console decodes from a batch of traces the sink framed is that batch.
\<close>

theorem sink_batch_decodes:
  assumes "\<forall>e\<in>set events. parse (cd_trace cd e) = Some e"
    and "mapE (encode_element cd ''traces'') (map TraceEventElement events) = Ok payloads"
  shows "decode_trace_stream parse (frame_payloads payloads) = Records events"
proof -
  have "mapE (encode_element cd ''traces'') (map TraceEventElement es) = Ok (map (cd_trace cd) es)" for es
    by (induction es) (simp_all add: encode_element_def)
  with assms(2) have "payloads = map (cd_trace cd) events" by simp
  then show ?thesis
    using decode_whole [of events parse "cd_trace cd"] assms(1) by (simp add: frame_payloads_records)
qed

end
