(* ===== verification/Delivery_Contract.thy ===== *)
theory Delivery_Contract
  imports Console_Sink
begin

text \<open>
  What the two best-effort sinks promise the pipeline, read off the delivery contract: every record
  they accept is accounted for, a bundle settles, a flush and a send end, and whether the client is
  closed under a live sender.
\<close>

section \<open>A demonstration run\<close>

definition demo_trace :: trace_event where
  "demo_trace =
     \<lparr>te_trace = [1], te_span = [2], te_parent = [], te_key = [7], te_seq = 3, te_step = 0, te_type = LlmCall,
      te_attrs = [], te_start = 5, te_end = 5\<rparr>"

definition demo_span :: span where
  "demo_span = (case event_to_span demo_trace of Ok (Some s) \<Rightarrow> s | _ \<Rightarrow> undefined)"

lemma demo_span: "event_to_span demo_trace = Ok (Some demo_span)"
  by (simp add: demo_span_def event_to_span_def demo_trace_def fixed64_def NANOS_PER_MS_def)

definition one_posting :: "trace_event Delivery.action list" where
  "one_posting =
     [Beam (Some (Process demo_trace)) 0, Beam (Some FinishBundle) 0, Beam None 0, Sender (Status 200) 0]"

lemmas run_simps = beam_step.simps sender_step.simps exp_setup_def exp_process_def exp_finish_bundle_def
  exp_enqueue_def put_nowait_def queue_full_def resume_after_def flush_over_def drain_get_def take_counts_def
  join_step_def sender_ended_def sender_get_def post_batch_def answered_def count_exported_def answer_success_def
  success_status_def unflight_def otlp_default_def otlp_config_def OTLP_BATCH_SIZE_def OTLP_FLUSH_DEADLINE_S_def
  OTLP_QUEUE_BATCHES_def demo_span no_tallies_def INITIAL_BACKOFF_S_def

definition one_posted :: "trace_event Delivery.action list" where
  "one_posted =
     [Sender (Status 200) 0, Sender (Status 200) 0, Sender (Status 200) 0, Beam None 0, Beam None 0]"

lemma demo_runs:
  "\<exists>st. Delivery.run_actions event_to_span otlp_default one_posting exp_setup = Some st \<and> ex_beam st = Flushing 5 \<and>
     ex_sender st = Posting [demo_span] 5 (1 / 20) \<and>
     (\<exists>st'. Delivery.run_actions event_to_span otlp_default one_posted st = Some st' \<and> ex_beam st' = Reporting)"
  by (simp add: one_posting_def one_posted_def run_simps)

section \<open>Accounting\<close>

text \<open>
  C16: At every moment of every run each span the exporter accepted is in exactly one place: the batch,
  the queue, the hands of a thread, posted with a success, or lost; and what the two counters have
  reported or hold is exactly what was posted and what was lost.
\<close>

theorem spans_accounted:
  assumes "export_reaches event_to_span otlp_default st"
  shows "ex_accepted st =
      mset (ex_batch st) + mset (queued (ex_queue st)) + mset (beam_hands (ex_beam st)) +
      mset (sender_open (ex_sender st)) + ex_acked st + ex_lost st \<and>
    ta_exported (ex_sink st) + ta_exported (ex_tallies st) = int (size (ex_acked st)) \<and>
    ta_dropped (ex_sink st) + ta_dropped (ex_tallies st) = int (size (ex_lost st)) \<and>
    int (length (ex_batch st)) < OTLP_BATCH_SIZE \<and> int (length (ex_queue st)) \<le> OTLP_QUEUE_BATCHES"
  using otlp.accounts [OF assms] otlp.bounded [OF assms] by (simp add: otlp_default_def otlp_config_def)

theorem spans_accounted_witness:
  "\<exists>st. export_reaches event_to_span otlp_default st \<and> ex_accepted st = mset (sender_open (ex_sender st)) \<and>
     sender_open (ex_sender st) = [demo_span]"
proof -
  obtain st where st: "Delivery.run_actions event_to_span otlp_default one_posting exp_setup = Some st" by (use demo_runs in blast)
  have r: "export_reaches event_to_span otlp_default st" by (rule Delivery.run_actions_reaches [OF export_reaches.init st])
  have "ex_batch st = []" "ex_queue st = []" "beam_hands (ex_beam st) = []" "sender_open (ex_sender st) = [demo_span]"
    "ex_acked st = {#}" "ex_lost st = {#}"
    using st by (auto simp: one_posting_def run_simps)
  with spans_accounted [OF r] r show ?thesis by auto
qed

text \<open>
  C17: When \<open>finish_bundle\<close> has taken its counts, nothing of the bundle is left in the batch or the queue:
  what was ever accepted is counted exported or dropped, but for at most one batch in the sender's hands.
\<close>

theorem bundle_settles:
  assumes "export_reaches event_to_span otlp_default st" "ex_beam st = Reporting"
  shows "ex_batch (take_counts st) = [] \<and> ex_queue (take_counts st) = [] \<and>
    (\<exists>held. int (size (ex_accepted (take_counts st))) =
        ta_exported (ex_sink (take_counts st)) + ta_dropped (ex_sink (take_counts st)) + held \<and>
      0 \<le> held \<and> held \<le> OTLP_BATCH_SIZE)"
proof -
  have "ec_batch_size otlp_default = OTLP_BATCH_SIZE" by (simp add: otlp_default_def otlp_config_def)
  then show ?thesis
    using otlp.settles [OF assms] by (intro conjI exI [of _ "int (length (sender_open (ex_sender (take_counts st))))"]) simp_all
qed

theorem bundle_settles_witness:
  "\<exists>st. export_reaches event_to_span otlp_default st \<and> ex_batch (take_counts st) = [] \<and> ta_exported (ex_sink (take_counts st)) = 1"
proof -
  obtain st st' where st: "Delivery.run_actions event_to_span otlp_default one_posting exp_setup = Some st"
    "Delivery.run_actions event_to_span otlp_default one_posted st = Some st'" "ex_beam st' = Reporting" by (use demo_runs in blast)
  have r: "export_reaches event_to_span otlp_default st'"
    by (rule Delivery.run_actions_reaches [OF Delivery.run_actions_reaches [OF export_reaches.init st(1)] st(2)])
  have "ta_exported (ex_sink (take_counts st')) = 1"
    using st(1,2) by (auto simp: one_posting_def one_posted_def run_simps add_tallies_def)
  with bundle_settles [OF r st(3)] r show ?thesis by blast
qed

section \<open>Ends\<close>

text \<open>
  Past its deadline a flush ends: whatever the sender does meanwhile, the Beam thread is never
  blocked and leaves \<open>finish_bundle\<close> within a number of its own steps that the queue length bounds.
\<close>

theorem flush_ends:
  assumes "export_reaches event_to_span otlp_default st" "ex_beam st = Flushing d" "list_all (late d) as"
    and "Delivery.run_actions event_to_span otlp_default as st = Some st'"
  shows "beam_turns as \<le> 19 \<and> (ex_beam st' \<noteq> Outside \<longrightarrow> beam_step event_to_span otlp_default None d st' \<noteq> None)"
  using otlp.flush_returns [OF assms] by (simp add: otlp_default_def otlp_config_def OTLP_QUEUE_BATCHES_def)

theorem flush_ends_witness:
  "\<exists>st st'. ex_beam st = Flushing 5 \<and>
     Delivery.run_actions event_to_span otlp_default [Beam None 5, Beam None 5, Sender (Status 200) 5] st = Some st' \<and>
     beam_step event_to_span otlp_default None 5 st' \<noteq> None"
proof -
  obtain st where st: "Delivery.run_actions event_to_span otlp_default one_posting exp_setup = Some st" "ex_beam st = Flushing 5"
    by (use demo_runs in blast)
  have r: "export_reaches event_to_span otlp_default st" by (rule Delivery.run_actions_reaches [OF export_reaches.init st(1)])
  obtain st' where st': "Delivery.run_actions event_to_span otlp_default [Beam None 5, Beam None 5, Sender (Status 200) 5] st = Some st'"
    "ex_beam st' \<noteq> Outside"
    using st(1) by (auto simp: one_posting_def run_simps)
  with flush_ends [OF r st(2) _ st'(1)] st(2) show ?thesis by auto
qed



section \<open>Teardown\<close>

text \<open>The console sink never closes its client while its sender is alive.\<close>

theorem console_client_outlives_sender:
  assumes "export_reaches (console_encode cd kind) console_default st" "ex_closed st"
  shows "sender_ended st"
  using console.close_waits [OF assms] by (simp add: console_default_def console_config_def)

theorem console_client_outlives_sender_witness:
  "\<exists>st. ex_closed st \<and> sender_ended st \<and>
     Delivery.run_actions (console_encode \<lparr>cd_trace = \<lambda>_. [], cd_error = \<lambda>_. [], cd_snapshot = \<lambda>_. []\<rparr> ''traces'') console_default
       [Beam (Some Teardown) 0, Beam None 0, Sender (Status 200) 0, Beam None 0] exp_setup = Some st"
proof -
  let ?e = "console_encode \<lparr>cd_trace = \<lambda>_. [], cd_error = \<lambda>_. [], cd_snapshot = \<lambda>_. []\<rparr> ''traces''"
  let ?as = "[Beam (Some Teardown) 0, Beam None 0, Sender (Status 200) 0, Beam None 0]"
  obtain st where st: "Delivery.run_actions ?e console_default ?as exp_setup = Some st" "ex_closed st"
    by (simp add: run_simps console_default_def console_config_def CONSOLE_BATCH_SIZE_def CONSOLE_FLUSH_DEADLINE_S_def
        CONSOLE_QUEUE_BATCHES_def)
  have "export_reaches ?e console_default st" by (rule Delivery.run_actions_reaches [OF export_reaches.init st(1)])
  from console_client_outlives_sender [OF this st(2)] st show ?thesis by blast
qed

text \<open>
  C25: The OTLP exporter closes its client when the join times out, sender or not: a sender that is still
  retrying posts on the closed client and dies of the exception, and the spans it held are counted
  neither exported nor dropped, then or ever.
\<close>

theorem otlp_teardown_kills_sender:
  "\<exists>st. export_reaches event_to_span otlp_default st \<and> ex_closed st \<and> ex_sender st = sender_pc.Crashed [demo_span] \<and>
     ta_exported (ex_sink st) + ta_exported (ex_tallies st) + ta_dropped (ex_sink st) + ta_dropped (ex_tallies st) = 0 \<and>
     (\<nexists>st'. export_step event_to_span otlp_default st st')"
proof -
  let ?as = "one_posting @ [Beam None 5, Beam None 5, Beam None 5, Beam (Some Teardown) 5, Beam None 5, Beam None 10,
    Sender HttpFailure 10]"
  obtain st where st: "Delivery.run_actions event_to_span otlp_default ?as exp_setup = Some st" "ex_closed st"
    "ex_sender st = sender_pc.Crashed [demo_span]" "ex_beam st = TornDown"
    "ta_exported (ex_sink st) + ta_exported (ex_tallies st) + ta_dropped (ex_sink st) + ta_dropped (ex_tallies st) = 0"
    by (simp add: one_posting_def run_simps add_tallies_def)
  have "export_reaches event_to_span otlp_default st" by (rule Delivery.run_actions_reaches [OF export_reaches.init st(1)])
  moreover have "\<not> export_step event_to_span otlp_default st st'" for st'
    using st(3,4) by (auto simp: export_step.simps beam_step.simps sender_step.simps)
  ultimately show ?thesis using st by blast
qed

end
