(* ===== verification/Spec2Isabelle.thy ===== *)
theory Spec2Isabelle
  imports Dofn_Effects Sharding Effector_Dispatch Outbox Replay_Scenario Store_Backends Dedup_Bigtable
    Console_History Delivery_Contract
begin

text \<open>
  Verification of the runtime of \<open>beam-agents\<close> (sources under \<open>src/beam_agents/\<close>): agents on Apache
  Beam keyed state. One element of a key runs one activation of the agent; what the activation
  stages (memory, model cache, intents, traces, outputs, a continuation) is committed by the
  stateful DoFn in one piece or not at all. Intents leave the pipeline for an effector and come
  back as results, which resume the suspended activation.

  The parts and their theories, in the order they build on each other:

  \<^item> \<open>Prelude\<close>: bytes, exceptions as values of a sum, association lists in insertion order for the
    code's dicts, decimal and hexadecimal text, UTF-8.
  \<^item> \<open>Wire\<close>: the messages of \<open>protos/beam_agents.proto\<close> and \<open>intent_id_for\<close> (\<open>core/agent.py\<close>); the name
    hashed by \<open>uuid5\<close> determines key, sequence number and step.
  \<^item> \<open>Migration\<close> (\<open>core/migration.py\<close>): the lazy schema upgrade. The locale \<open>migration_chain\<close> states what
    a complete registry promises; it is interpreted for the three stored messages.
  \<^item> \<open>Batching\<close> (\<open>core/batching.py\<close>), \<open>Hitl\<close> (\<open>hitl.py\<close>), \<open>Sharding\<close> (\<open>keys.py\<close>), \<open>Intent_Signing\<close>
    (\<open>intent_signing.py\<close>): pure components with their functional properties.
  \<^item> \<open>Stores\<close> (\<open>memory/stores/base.py\<close>, \<open>LongtermMemory\<close> of \<open>memory/facade.py\<close>): the long-term tier. The
    locale \<open>longterm_store\<close> is the contract a backend owes the flush; the in-memory backend
    interprets it. \<open>Row_Store\<close> refines it to what a backend does to its rows, search included
    (\<open>row_store\<close>, \<open>search_store\<close>); \<open>Store_Sql\<close>, \<open>Store_Redis\<close>, \<open>Store_Bigtable\<close> and \<open>Store_Firestore\<close>
    (\<open>memory/stores/\<close>) interpret that over servers given by locales of documented laws, each
    interpreted on a concrete table; \<open>Bigtable_Server\<close> holds the filters and mutations both Bigtable
    stores build. \<open>Store_Backends\<close> compares all of them with the in-memory store and shows where a
    documented server makes them differ.
  \<^item> \<open>Memory_Facade\<close> (\<open>memory/facade.py\<close>) and \<open>Compaction\<close> (\<open>memory/compaction.py\<close>): working memory with its
    caps. The locale \<open>evicting_compactor\<close> is what a guarded write needs of a compactor; the default
    compactor interprets it.
  \<^item> \<open>Json\<close>, \<open>Replay_Cache\<close> (\<open>model/replay_cache.py\<close>), \<open>Traces\<close> (\<open>observability/traces.py\<close>), \<open>Model_Facade\<close>
    (\<open>model/facade.py\<close>), \<open>Tools\<close> (\<open>tools/registry.py\<close>, \<open>tools/runner.py\<close>).
  \<^item> \<open>Activation_Context\<close> (\<open>core/context.py\<close>): the staging surface of one activation.
  \<^item> \<open>Loop\<close> (\<open>core/loop.py\<close>): \<open>run_activation\<close>. The agent is user code, so it is an interaction tree: each
    constructor is a call it can make on its context, with the rest of the agent as a function of
    the answer. \<open>Loop_Invariants\<close> proves, in the locale \<open>staging_invariant\<close>, that what every call of the
    surface keeps, every agent keeps; \<open>Loop_Results\<close> turns this into facts of the result.
  \<^item> \<open>Dofn\<close> (\<open>core/dofn.py\<close>, \<open>core/snapshot.py\<close>): the six state cells and three timers of a key as the
    record \<open>kstate\<close>, and every handler: \<open>process\<close>, \<open>start_activation\<close>, \<open>buffer_event\<close>, \<open>flush\<close>, \<open>resume\<close>,
    \<open>on_ttl\<close>, \<open>on_flush\<close>, \<open>on_hitl\<close>. \<open>Dofn_Steps\<close> abstracts them to one step relation, \<open>Dofn_Invariants\<close> and
    \<open>Dofn_Runs\<close> prove its invariants over every run, \<open>Dofn_Metrics\<close> relates counters and outputs,
    \<open>Dofn_Effects\<close> shows that effects leave only with a commit.
  \<^item> \<open>Scenario\<close>: a concrete key and agent on which the witnesses evaluate.

  The effector, the process outside the pipeline that runs the intents (\<open>effector/\<close>):

  \<^item> \<open>Json_Loads\<close>: \<open>json.loads\<close>, with the round trip through \<open>json_dumps\<close>. \<open>Uris\<close>: \<open>urlparse\<close> as far as the
    code uses it, transport and dedup URIs, \<open>redact_uri\<close>. \<open>Effector_Config\<close> (\<open>effector/config.py\<close>,
    \<open>effector/__main__.py\<close>): settings, validation, client configuration, command line.
  \<^item> \<open>Dedup\<close> (\<open>effector/dedup.py\<close>): the claim protocol. The locale \<open>dedup_store\<close> states its contract over
    the live record of an intent at a time; the in-memory store interprets it, and the Redis store
    does on any server of the locale \<open>redis_documented\<close>, itself interpreted on a map with expiries.
    Both stores refine an abstract lease table. \<open>Dedup_Bigtable\<close> (\<open>BigtableDedupStore\<close>) is compared with
    the same table; it departs from it for a worker whose lease has run out.
  \<^item> \<open>Effector_Runner\<close> (\<open>effector/runner.py\<close>, \<open>tools/intent_info.py\<close>): one intent to one result.
  \<^item> \<open>Effector_Service\<close> (\<open>effector/service.py\<close>): dispatcher, partition workers, retries, revocation and
    shutdown. A worker is the await it stands at (\<open>task\<close>); \<open>advance\<close> runs it to its next await on the
    environment's answer, and \<open>fleet_step\<close> interleaves any number of processes over one store.
  \<^item> \<open>Effector_Log\<close> says which logs are lawful, \<open>Effector_Store\<close> relates the store's live records to the
    log inside \<open>dedup_store\<close>, \<open>Effector_Invariants\<close> and \<open>Effector_Runs\<close> carry both through every step
    and run, \<open>Effector\<close> draws the properties and holds a concrete fleet, \<open>Effector_Dispatch\<close> treats the
    dispatcher that blocks.

  \<^item> \<open>Outbox\<close> (\<open>actions/write_intents.py\<close>, \<open>effector/sources.py\<close>, \<open>effector/sinks.py\<close>, \<open>core/error_records.py\<close>):
    the way of an intent from \<open>.intents\<close> to the effector, the paused ordering keys of the Pub/Sub
    clients on both sides, and the records of the error sinks.

  Offline replay (\<open>replay/\<close>): \<open>Replay\<close> frames and loads the inputs, rebuilds an activation and re-runs
  it through \<open>Loop.run_activation\<close> against a provider that only fails; \<open>Replay_Diff\<close> compares the result
  with the traced record and gives the exit status; \<open>Replay_Faithful\<close> is a simulation between the
  activation of the pipeline and its re-run; \<open>Replay_Scenario\<close> draws the properties.

  The transform and the telemetry sinks:

  \<^item> \<open>Pipeline\<close> (\<open>core/transform.py\<close>): the configuration of \<open>AgentTransform\<close>, its validation, and \<open>expand\<close>
    as the list of writers, or of tagged outputs, that the four sink URIs resolve to.
  \<^item> \<open>Delivery\<close>: the sender that \<open>observability/otlp.py\<close> and \<open>console/_sink.py\<close> have in common, a bounded
    queue, a daemon thread with retries and a bundle that waits for it, as a step relation over the
    program counters of both threads; the transport is an action of the environment.
    \<open>Delivery_Invariants\<close> and \<open>Delivery_Runs\<close> hold its invariants, the latter in the locale \<open>delivery\<close>, whose
    laws are what the runs ask of an exporter's retry schedule.
  \<^item> \<open>Exporters\<close> (\<open>observability/otlp.py\<close>) and \<open>Console_Sink\<close> (\<open>console/_sink.py\<close>) interpret \<open>delivery\<close> with
    their own parameters and encodings; \<open>Delivery_Contract\<close> draws the properties of both.
  \<^item> \<open>Console_Ingest\<close> (\<open>console/_ingest.py\<close>): the records the console is sent and their decoders;
    \<open>Console_Paths\<close> and \<open>Console_Errors\<close> their properties on streams of traces and on error payloads.
  \<^item> \<open>Console_Tables\<close>, \<open>Console_Rollup\<close>, \<open>Console_Store\<close> (\<open>console/_store.py\<close>): the tables, the SQL of the
    upserts and of the rollup, and the operations of the store: write, rewrite, restart, prune.
    \<open>Console_Current\<close>, \<open>Console_Writes\<close> and \<open>Console_Frame\<close> show that every rollup row is what the rollup
    of its trace computes and that a write touches no other trace; \<open>Console_Delivery\<close> and
    \<open>Console_Convergence\<close> that repeated and reordered deliveries end in the same tables;
    \<open>Console_History\<close> treats every history of a store, \<open>Console_Scenario\<close> concrete stores.

  Modelling choices. Python's unbounded integers are \<open>int\<close>; a \<open>str\<close> is the list of its UTF-8 bytes as
  characters; \<open>bytes\<close> are lists of 8-bit words. A raise is a value on the left of a sum; a handler that
  raises commits nothing, as Beam retries its bundle. Everything outside this repository acts on a
  world of type \<open>'w\<close> through record fields: the provider, the monotonic clock, tools, stores, \<open>uuid5\<close>,
  \<open>sha256\<close>, HMAC, protobuf serialization and sizes, pydantic validation. The wall clock of a handler
  and whether its activation timed out on the bridge are inputs of the step. Loops of the code
  that are not structural recursions (migration, varint length, cache eviction, ring decoding,
  retries, redaction) are functions with termination proofs. The JSON parser has fuel, twice
  the length of the text, and more of it is shown to change nothing; the retry loop of an exporter
  has fuel for its posts, and eight are shown to be enough for the default deadline.

  What the properties show. Over every sequence of deliveries to a key, with due, superseded and
  failing ones: no intent identifier is minted twice between wipes; effects are atomic with the
  sequence number; a suspension is always guarded by an armed timeout that resolves when due;
  the batch buffer is bounded and never stranded; committed blobs stay within their caps. Of the components: accounts, bounds, round trips,
  replay and idempotence. Of a fleet of effectors under any interleaving, crash and revocation: starts
  of an intent's tool are a lease apart, unauthentic deliveries are inert, results are durable
  before they are published, commits come last, waits end. Of a replay: a committed element whose
  responses the snapshot holds is reproduced exactly. Of an exporter: every
  span put is delivered, counted as dropped or still in hand, and a bundle that ends leaves none
  behind. Of the console: rollups are current after every history, pruning removes exactly what is
  old, and the order in which complete copies arrive does not matter.
  The last properties state where the code departs from its own documentation.

  Not modelled: coders and the Beam graph around the transform, the construction and threads of
  message-bus clients and of store clients, provider clients, adapters, YAML, the console's HTTP
  server, its queries and live stream, its command line, demo and pull sources, and the connection
  and schema upgrade of its database. Text of
  exception messages is a parameter of the engine. Range errors of protobuf integer fields are
  not modelled.
\<close>

section \<open>The stateful engine\<close>

subsection \<open>One key under any sequence of deliveries\<close>

text \<open>
  C1: Along every run of a key since its last wipe, no two intents put on \<open>.intents\<close> share their
  \<open>(seq, step)\<close>, each carries the identifier derived from them, and the identifiers are distinct
  when \<open>uuid5\<close> has no collisions: resumes, batches, retries, escalations and overwritten
  suspensions never mint an identifier twice.
\<close>

theorem intents_minted_once:
  assumes "key_run d key h ks w"
  shows "distinct (map (\<lambda>i. (ti_seq i, ti_step i)) h) \<and>
    (\<forall>i \<in> set h. ti_key i = key \<and> ti_id i = intent_id_for (ax_uuid (df_ext d)) key (ti_seq i) (ti_step i)) \<and>
    (inj (ax_uuid (df_ext d)) \<longrightarrow> distinct (map ti_id h))"
  using run_minted[OF assms] minted_ids_distinct[OF run_minted[OF assms]] by (simp add: minted_ok_def)

theorem intents_minted_once_witness:
  "key_run (demo None) [1] [payment 0, payment 1] (waiting 1) () \<and> distinct (map ti_id [payment 0, payment 1])"
  using intents_minted_once[OF demo_run2] demo_run2 demo_fields(2) by blast



text \<open>
  C3: Under \<open>ADAPTIVE\<close> with resolved settings, the buffer of a key never exceeds its cap, and a
  non-empty buffer always has what will flush it: the flush timer is armed, or a live suspension
  defers it.
\<close>

theorem buffer_bounded_and_live:
  assumes "key_run d key h ks w" and "df_batch d = Some b"
    and "resolve_batch_settings policy max_batch_size max_wait_ms max_buffered = Ok (Some b)"
  shows "int (length (ks_batch ks)) \<le> bs_max_buffered b \<and>
    (ks_batch ks = [] \<or> ks_flush ks \<noteq> None \<or> ks_continuation ks \<noteq> None)"
proof -
  have "settings_ok b" using resolve_settings_ok[OF assms(3)] by blast
  then have "0 \<le> bs_max_buffered b" by (simp add: settings_ok_def)
  then have "buffer_ok d ks" using run_buffer[OF assms(1)] assms(2) by simp
  then show ?thesis using assms(2) by (auto simp: buffer_ok_def)
qed

theorem buffer_bounded_and_live_witness:
  "key_run (demo (Some demo_batching)) [1] [] one_buffered () \<and> int (length (ks_batch one_buffered)) \<le> 4"
  using buffer_bounded_and_live[OF demo_run_batch demo_fields(1) demo_resolved] demo_run_batch
  by (simp add: demo_batching_def)

text \<open>
  C5: A reachable live suspension waits for exactly the pending intents, all minted by the
  suspended activation below the continuation's step cursor; its sequence number is already
  consumed, it escalated within the policy's bound, and its timeout is armed at its deadline.
\<close>

theorem suspension_armed:
  assumes "key_run d key h ks w" and "ks_continuation ks = Some c"
  shows "ks_hitl ks = Some (co_deadline c) \<and> co_pending c = map ti_id (ks_pending ks) \<and>
    co_seq c < ks_seq ks \<and> (\<forall>i \<in> set (ks_pending ks). ti_seq i = co_seq c \<and> ti_step i < co_step c) \<and>
    co_escalations c \<le> max 0 (hp_max_escalations (df_policy d))"
  using run_armed[OF assms(1)] run_suspension[OF assms(1)] assms(2)
  by (auto simp: armed_ok_def suspension_ok_def)

theorem suspension_armed_witness:
  "\<exists>c. ks_continuation (waiting 0) = Some c \<and> ks_hitl (waiting 0) = Some (co_deadline c)"
  using suspension_armed[OF demo_run1] by (simp add: waiting_def)

text \<open>
  C4: A due HITL timeout is never swallowed and never raises: on a reachable live suspension the
  callback returns, and either ends the wait (the continuation and its pending intents are
  cleared, the error trace is emitted) or escalates by one, adding a fresh identifier to the
  pending ones and re-arming the timeout.
\<close>

theorem due_timeout_resolves:
  assumes "key_run d key h ks w" and "ks_continuation ks = Some c" and "co_deadline c \<le> t"
  shows "\<exists>so. on_hitl d si key t (ks\<lparr>ks_hitl := None\<rparr>) = Ok so \<and>
    (ks_continuation (so_state so) = None \<and> ks_pending (so_state so) = [] \<and>
       last (so_emits so) = error_trace d key (co_seq c) t REASON_HITL_TIMEOUT [] (Some ROLE_TIMER) None
     \<or> (\<exists>c' i. ks_continuation (so_state so) = Some c' \<and> co_escalations c' = co_escalations c + 1 \<and>
          ks_pending (so_state so) = ks_pending ks @ [i] \<and> co_pending c' = co_pending c @ [ti_id i] \<and>
          (\<forall>j \<in> set (ks_pending ks). ti_step j < ti_step i) \<and> ks_hitl (so_state so) = Some (co_deadline c') \<and>
          co_escalations c < hp_max_escalations (df_policy d)))"
proof -
  have s: "suspension_ok d key ks" using run_suspension[OF assms(1)] .
  then have v: "migrate_continuation (ks_continuation ks) = Ok (Some c)"
    using assms(2) by (simp add: suspension_ok_def migrate_continuation_def migrate_v1 CURRENT_STATE_SCHEMA_VERSION_def)
  obtain rt detail where "route_timeout d key c t = (rt, detail)" by (cases "route_timeout d key c t")
  then obtain so where so: "on_hitl d si key t (ks\<lparr>ks_hitl := None\<rparr>) = Ok so"
    using v assms(3) by (auto simp: on_hitl_def Let_def)
  show ?thesis
    using on_hitl_cases[OF so] so assms(2,3) s
    by (auto simp: emit_only_def escalation_intent_def suspension_ok_def)
qed

theorem due_timeout_resolves_witness:
  "\<exists>so. on_hitl (demo None) tick [1] 3600005 ((waiting 0)\<lparr>ks_hitl := None\<rparr>) = Ok so"
  using due_timeout_resolves[OF demo_run1, of _ 3600005 tick] by (force simp: waiting_def)

text \<open>
  Without batching, the mark that wipes working memory is never earlier than a live
  suspension's deadline plus the time to live, through suspensions, resumes and escalations.
\<close>

theorem memory_outlives_wait:
  assumes "key_run d key h ks w" and "df_batch d = None" and "ks_continuation ks = Some c"
  shows "\<exists>m. ks_ttl ks = Some m \<and> co_deadline c + df_ttl_ms d \<le> m"
  using run_outlives[OF assms(1)] assms(2,3) by (simp add: outlives_wait_def)

theorem memory_outlives_wait_witness: "\<exists>m. ks_ttl (waiting 0) = Some m \<and> 3600005 + 1000 \<le> m"
  using memory_outlives_wait[OF demo_run1 demo_fields(1)] by (simp add: waiting_def)

text \<open>
  C31: With the shipped write guard, what every reachable key has committed loads again: its
  memory has distinct keys, well-formed values and at most \<open>HARD_CAP_BYTES\<close> of them, and its replay
  cache has distinct keys.
\<close>

theorem committed_blobs_bounded:
  assumes "key_run d key h ks w" and "ax_compactor (df_ext d) = Some (drop_oldest_compact cfg)"
  shows "(\<forall>b. ks_memory ks = Some b \<longrightarrow> blob_ok b \<and>
      (\<Sum>e\<leftarrow>mb_entries b. int (length (me_value e))) \<le> HARD_CAP_BYTES) \<and>
    (\<forall>b. ks_cache ks = Some b \<longrightarrow> cache_blob_ok b)"
proof -
  have "compactor_good (ax_compactor (df_ext d))" using assms(2) drop_oldest_good by simp
  then show ?thesis using run_blobs_ok[OF _ assms(1)] by (simp add: blobs_ok_def committed_memory_ok_def)
qed

theorem committed_blobs_bounded_witness:
  "\<exists>b. ks_memory (waiting 1) = Some b \<and> blob_ok b \<and>
     (\<Sum>e\<leftarrow>mb_entries b. int (length (me_value e))) \<le> HARD_CAP_BYTES"
  using committed_blobs_bounded[OF demo_run2 demo_fields(5)] by (simp add: waiting_def)

subsection \<open>The element handler\<close>



text \<open>
  A refused resume is inert: no cell and no timer changes, the world is not touched, and the
  only emissions are one orphaned dead letter naming the reason and its error trace.
\<close>

theorem refused_resume_inert:
  assumes "env_payload env = Some (ResultPayload r)"
    and "migrate_continuation (ks_continuation ks) = Ok cont"
    and "admission_failure cont (if cont = None then [] else ks_pending ks) (tr_id r) (env_time env) = Some reason"
  shows "\<exists>tr. process d si key env ks w =
     (Ok \<lparr>so_state = ks,
          so_emits = [dead_letter key ''orphaned_result'' (reason @ '':'' @ tr_id r) (env_time env), TraceOut tr],
          so_metrics = [Incr OrphanedResultsC 1]\<rparr>, w)"
  using assms
  by (auto simp: process_def resume_def Let_def emit_only_def error_trace_def dead_letter_metric_def
      REASON_ORPHANED_def split: option.splits)

theorem refused_resume_inert_witness:
  "\<exists>so. process (demo None) tick [1] late_result (waiting 0) () = (Ok so, ()) \<and> so_state so = waiting 0"
proof -
  have "migrate_continuation (ks_continuation (waiting 0)) = Ok (ks_continuation (waiting 0))"
    by (simp add: waiting_def migrate_continuation_def migrate_v1)
  moreover have "admission_failure (ks_continuation (waiting 0)) [payment 0] (ti_id (payment 0)) 3600005 =
      Some DETAIL_DEADLINE_PASSED"
    by (simp add: waiting_def admission_failure_def)
  ultimately show ?thesis
    using refused_resume_inert[of late_result _ "waiting 0" _ DETAIL_DEADLINE_PASSED "demo None" tick "[1]" "()"]
    by (force simp: late_result_def waiting_def)
qed

text \<open>
  An export request is read-only: it answers with the committed cells, unmigrated, and changes
  no cell, no timer, no counter and nothing outside.
\<close>

theorem export_read_only:
  "process d si key \<lparr>env_key = k, env_time = t, env_payload = Some (ExportRequest rid)\<rparr> ks w =
     (Ok \<lparr>so_state = ks,
          so_emits = [SnapshotOut \<lparr>sn_version = 1, sn_key = key, sn_seq = ks_seq ks, sn_at = t,
            sn_memory = ks_memory ks, sn_cache = ks_cache ks, sn_continuation = ks_continuation ks,
            sn_pending = ks_pending ks, sn_request = rid\<rparr>],
          so_metrics = []\<rparr>, w)"
  by (simp add: process_def emit_only_def build_snapshot_def CURRENT_STATE_SCHEMA_VERSION_def)

text \<open>
  The counters agree with the outputs on every delivery: \<open>agent_errors\<close> plus \<open>orphaned_results\<close>
  is the number of elements on \<open>.errors\<close>, and \<open>intents_emitted\<close> the number on \<open>.intents\<close>.
\<close>

theorem counters_match_outputs:
  assumes "handle d si key st ks w = (Ok so, w')"
  shows "counted AgentErrorsC (so_metrics so) + counted OrphanedResultsC (so_metrics so) = errors_in (so_emits so) \<and>
    counted IntentsEmittedC (so_metrics so) = intent_count (so_emits so)"
  using handle_accounted[OF assms] by (simp add: accounted_def)

theorem counters_match_outputs_witness:
  "\<exists>so. handle (demo None) tick [1] (Element (demo_event 5)) empty_kstate () = (Ok so, ()) \<and>
     counted IntentsEmittedC (so_metrics so) = intent_count (so_emits so)"
proof -
  obtain so where so: "handle (demo None) tick [1] (Element (demo_event 5)) empty_kstate () = (Ok so, ())"
    using demo_first by blast
  then show ?thesis using counters_match_outputs[OF so] by blast
qed

subsection \<open>The per-event path\<close>

text \<open>
  C28: A successful activation numbers its effects deterministically: each intent carries the
  identifier of its \<open>(key, seq, step)\<close>, the steps increase strictly from the entry step, and a
  continuation waits for exactly the staged intents, points past their steps, has no output
  beside it, and its deadline is no later than any intent's expiry.
\<close>

theorem activation_numbers_effects:
  assumes "run_activation ext su a inp w = (RunOk ar, w')"
  shows "(\<forall>i \<in> set (ar_intents ar). ti_id i = intent_id_for (ax_uuid ext) (ai_key inp) (ai_seq inp) (ti_step i) \<and>
      ai_step inp \<le> ti_step i) \<and>
    sorted_wrt (<) (map ti_step (ar_intents ar)) \<and>
    (\<forall>k. ar_continuation ar = Some k \<longrightarrow> co_seq k = ai_seq inp \<and> co_pending k = map ti_id (ar_intents ar) \<and>
      (\<forall>i \<in> set (ar_intents ar). ti_step i < co_step k \<and> co_deadline k \<le> ti_expires i) \<and> ar_outputs ar = [])"
  using run_intents[OF assms] run_deadline(1)[OF assms] by (auto simp: intent_of_run_def)

theorem activation_numbers_effects_witness:
  "\<exists>ar :: activation_result. ar_intents ar = [payment 0] \<and> (\<forall>i \<in> set (ar_intents ar). ti_id i = intent_id_for (\<lambda>s. s) [1] 0 (ti_step i))"
proof -
  obtain ar where r: "run_activation (df_ext (demo None)) (df_summarizer (demo None)) (df_agent (demo None))
      ((base_input (demo None) [1] (ks_seq empty_kstate) 5 None None)\<lparr>ai_event := [9]\<rparr>)
      (snd (ax_clock (df_ext (demo None)) ())) = (RunOk ar, ())" "ar_intents ar = [payment 0]"
    using demo_activation by blast
  from activation_numbers_effects[OF r(1)] r(2) show ?thesis
    by (intro exI[of _ ar]) (simp add: demo_def demo_ext_def empty_kstate_def)
qed

text \<open>
  C6: A successful activation of an element under \<open>NONE\<close> commits all of its staged effects and
  nothing else: memory, cache, continuation and pending intents become the result's, the
  sequence number grows by one, the HITL mark is the suspension's deadline or cleared, the TTL
  mark is measured from the later of the clock and that deadline, and outputs, intents and
  traces are emitted in that order.
\<close>

theorem committed_activation:
  assumes "df_batch d = None" and "si_timeout si = None"
    and "migrate_memory (ks_memory ks) = Ok m" and "migrate_cache (ks_cache ks) = Ok cb"
    and "run_activation (df_ext d) (df_summarizer d) (df_agent d)
           ((base_input d key (ks_seq ks) t m cb)\<lparr>ai_event := ev\<rparr>) (snd (ax_clock (df_ext d) w)) = (RunOk ar, w1)"
  shows "\<exists>so. process d si key \<lparr>env_key = k, env_time = t, env_payload = Some (ExternalEvent ev)\<rparr> ks w =
       (Ok so, snd (ax_clock (df_ext d) w1)) \<and>
     so_state so = \<lparr>ks_memory = Some (ar_memory ar), ks_continuation = ar_continuation ar,
       ks_cache = Some (ar_cache ar), ks_pending = ar_intents ar, ks_seq = ks_seq ks + 1, ks_batch = ks_batch ks,
       ks_ttl = Some ((case ar_deadline ar of None \<Rightarrow> t | Some dl \<Rightarrow> max t dl) + df_ttl_ms d),
       ks_hitl = ar_deadline ar, ks_flush = ks_flush ks\<rparr> \<and>
     so_emits so = map MainOut (ar_outputs ar) @ map IntentOut (ar_intents ar) @ map TraceOut (ar_traces ar)"
proof -
  have "ar_suspended ar = (ar_deadline ar \<noteq> None)"
    using run_intents(5,7)[OF assms(5)] by (cases "ar_continuation ar") auto
  then show ?thesis using assms
    by (auto simp: process_def payload_event_def start_activation_def activate_def after_def commit_def
        commit_state_def Let_def split: prod.splits option.splits)
qed

theorem committed_activation_witness:
  "\<exists>so. process (demo None) tick [1] \<lparr>env_key = [1], env_time = 5, env_payload = Some (ExternalEvent [9])\<rparr> empty_kstate () =
     (Ok so, ()) \<and> ks_seq (so_state so) = 1"
proof -
  obtain ar where "run_activation (df_ext (demo None)) (df_summarizer (demo None)) (df_agent (demo None))
      ((base_input (demo None) [1] (ks_seq empty_kstate) 5 None None)\<lparr>ai_event := [9]\<rparr>)
      (snd (ax_clock (df_ext (demo None)) ())) = (RunOk ar, ())"
    using demo_activation by blast
  from committed_activation[OF _ _ _ _ this] show ?thesis
    by (force simp: tick_def empty_kstate_def migrate_memory_def migrate_cache_def)
qed



subsection \<open>Timers\<close>

text \<open>
  A stale HITL delivery (no suspension, or one whose deadline is still ahead) changes nothing
  and emits nothing.
\<close>

theorem stale_timeout_inert:
  assumes "\<forall>c. ks_continuation ks = Some c \<longrightarrow> t < co_deadline c"
    and "migrate_continuation (ks_continuation ks) = Ok cont"
  shows "on_hitl d si key t ks = Ok \<lparr>so_state = ks, so_emits = [], so_metrics = []\<rparr>"
  using assms migrate_same(2)[OF assms(2)]
  by (auto simp: on_hitl_def emit_only_def split: option.splits)

theorem stale_timeout_inert_witness:
  "on_hitl (demo None) tick [1] 3600004 (waiting 0) = Ok \<lparr>so_state = waiting 0, so_emits = [], so_metrics = []\<rparr>"
  by (rule stale_timeout_inert) (simp_all add: waiting_def migrate_continuation_def migrate_v1)



subsection \<open>Where the engine departs from its documentation\<close>

text \<open>
  C36: Under \<open>ADAPTIVE\<close> an event buffered during a suspension re-arms the TTL mark from its own time,
  without the \<open>max\<close> with the deadline that the commit and the escalation apply: on a reachable key
  that waits until 3600005 the mark moves from 3601005 back to 1010, and firing there wipes the
  live suspension long before its deadline.
\<close>

theorem buffering_preempts_suspension:
  "\<exists>so so2. key_run (demo (Some demo_batching)) [1] [payment 0] (waiting 0) () \<and>
     ks_ttl (waiting 0) = Some 3601005 \<and> ks_hitl (waiting 0) = Some 3600005 \<and>
     handle (demo (Some demo_batching)) tick [1] (Element (demo_event 10)) (waiting 0) () = (Ok so, ()) \<and>
     ks_continuation (so_state so) \<noteq> None \<and> ks_ttl (so_state so) = Some 1010 \<and>
     handle (demo (Some demo_batching)) tick [1] (TtlFires 1010) ((so_state so)\<lparr>ks_ttl := None\<rparr>) () = (Ok so2, ()) \<and>
     ks_continuation (so_state so2) = None \<and> errors_in (so_emits so2) = 2"
proof -
  obtain so where so: "handle (demo (Some demo_batching)) tick [1] (Element (demo_event 10)) (waiting 0) () = (Ok so, ())"
    "so_state so = (waiting 0)\<lparr>ks_batch := [demo_event 10], ks_ttl := Some 1010, ks_flush := Some 505\<rparr>"
    by (simp add: engine_defs demo_defs buffer_event_def demo_batching_def emit_only_def waiting_def
        buffer_is_full_def should_flush_on_size_def)
  moreover obtain so2 where "handle (demo (Some demo_batching)) tick [1] (TtlFires 1010) ((so_state so)\<lparr>ks_ttl := None\<rparr>) () = (Ok so2, ())"
    "ks_continuation (so_state so2) = None \<and> errors_in (so_emits so2) = 2"
    by (simp add: so(2) handle_def on_ttl_def waiting_def migrate_continuation_def migrate_v1 flush_expiring_def
        demo_defs emit_only_def wiped_suspension_def wiped_batch_def error_trace_def wipe_def Let_def)
  moreover have "ks_continuation (so_state so) \<noteq> None" by (simp add: so(2) waiting_def)
  moreover have "ks_ttl (so_state so) = Some 1010" by (simp add: so(2))
  moreover have "ks_ttl (waiting 0) = Some 3601005 \<and> ks_hitl (waiting 0) = Some 3600005" by (simp add: waiting_def)
  ultimately show ?thesis using demo_run_flushed by blast
qed

text \<open>
  Because the wipe clears the sequence number, a key that lives on after it mints the
  identifiers of its previous life again: the first intent before and the first intent after
  the wipe are equal.
\<close>

theorem wipe_remints_identifiers:
  "\<exists>so so2. key_run (demo None) [1] [payment 0] (waiting 0) () \<and>
     handle (demo None) tick [1] (TtlFires 3601005) ((waiting 0)\<lparr>ks_ttl := None\<rparr>) () = (Ok so, ()) \<and>
     handle (demo None) tick [1] (Element (demo_event 5)) (so_state so) () = (Ok so2, ()) \<and>
     map ti_id (intents_in (so_emits so2)) = [ti_id (payment 0)]"
proof -
  obtain so where so: "handle (demo None) tick [1] (TtlFires 3601005) ((waiting 0)\<lparr>ks_ttl := None\<rparr>) () = (Ok so, ())"
    "so_state so = empty_kstate\<lparr>ks_hitl := Some 3600005\<rparr>"
    by (simp add: handle_def on_ttl_def waiting_def migrate_continuation_def migrate_v1 flush_expiring_def
        demo_defs emit_only_def wipe_def empty_kstate_def Let_def)
  moreover obtain so2 where "handle (demo None) tick [1] (Element (demo_event 5)) (so_state so) () = (Ok so2, ())"
    "intents_in (so_emits so2) = [payment 0]"
    by (simp add: so(2) engine_defs demo_defs empty_kstate_def payment_def intents_in_def)
  ultimately show ?thesis using demo_run1 by (metis list.simps(8,9))
qed

text \<open>
  Under \<open>NONE\<close> a second event on a suspended key runs an activation whose commit overwrites the
  first continuation and its pending intents; the answer to the first suspension, though in
  time, is then refused as an unknown intent.
\<close>

theorem event_overwrites_suspension:
  "\<exists>so. key_run (demo None) [1] [payment 0] (waiting 0) () \<and>
     handle (demo None) tick [1] (Element (demo_event 5)) (waiting 0) () = (Ok so, ()) \<and>
     ks_pending (so_state so) = [payment 1] \<and>
     admission_failure (ks_continuation (waiting 0)) (ks_pending (waiting 0)) (ti_id (payment 0)) 7 = None \<and>
     admission_failure (ks_continuation (so_state so)) (ks_pending (so_state so)) (ti_id (payment 0)) 7 =
       Some DETAIL_UNKNOWN_INTENT"
proof -
  obtain so where "handle (demo None) tick [1] (Element (demo_event 5)) (waiting 0) () = (Ok so, ())"
    "so_state so = waiting 1" using demo_again by blast
  moreover have "ti_id (payment 0) \<noteq> ti_id (payment 1)"
    by (simp add: payment_def intent_id_for_def intent_name_inject)
  ultimately show ?thesis using demo_run1
    by (intro exI[of _ so]) (auto simp: waiting_def admission_failure_def intent_expired_def payment_def)
qed

text \<open>
  A flush whose activation trips the token budget dead-letters its events as
  \<open>activation_error\<close>, while the per-event path reports \<open>budget_exceeded\<close> for the same failure.
\<close>

theorem flush_hides_budget_trip:
  assumes "activate d si ((base_input d key (ks_seq ks) (Max (set (map env_time es))) m cb)
      \<lparr>ai_events := Some (map payload_event es), ai_trigger := trigger\<rparr>) w =
      (ActivationFailed (BudgetExceeded l n) fx, obs, w1)"
    and "migrate_memory (ks_memory ks) = Ok m" and "migrate_cache (ks_cache ks) = Ok cb"
  shows "\<exists>so. flush d si key es trigger ks w = (Ok so, w1) \<and>
     (\<forall>r. ErrorOut r \<in> set (so_emits so) \<longrightarrow> er_reason r = ''activation_error'') \<and>
     failed_reason (BudgetExceeded l n) = ''budget_exceeded''"
  using assms
  by (auto simp: flush_def after_def failed_flush_def emit_only_def dead_letter_def error_trace_def failed_reason_def
      is_budget_exceeded_def REASON_ERROR_def REASON_BUDGET_EXCEEDED_def Let_def)

theorem flush_hides_budget_trip_witness:
  "\<exists>so. flush broke tick [1] [demo_event 5] TRIGGER_TIMER one_buffered () = (Ok so, ()) \<and>
     (\<forall>r. ErrorOut r \<in> set (so_emits so) \<longrightarrow> er_reason r = ''activation_error'')"
proof -
  obtain fx obs where a: "activate broke tick ((base_input broke [1] (ks_seq one_buffered)
      (Max (set (map env_time [demo_event 5]))) None None)
      \<lparr>ai_events := Some (map payload_event [demo_event 5]), ai_trigger := TRIGGER_TIMER\<rparr>) () =
      (ActivationFailed (BudgetExceeded 1 2) fx, obs, ())"
    by (simp add: broke_def engine_defs demo_defs)
  have m: "migrate_memory (ks_memory one_buffered) = Ok None" "migrate_cache (ks_cache one_buffered) = Ok None"
    by (simp_all add: one_buffered_def empty_kstate_def migrate_memory_def migrate_cache_def)
  show ?thesis using flush_hides_budget_trip[OF a m] by blast
qed

end
